(* ===== verification/Prelude.thy ===== *)
theory Prelude
  imports Main "HOL-Library.Word"
begin

text \<open>
  Shared vocabulary of the Xelix development: the C integer types of the i386 target, the error
  numbers of \<^verbatim>\<open>src/lib/errno.h\<close>, the outcomes a kernel call can have, the arithmetic macros of
  \<^verbatim>\<open>src/lib/generic.h\<close>, and the generic lemmas on words, lists and arrays that the component
  theories rely on.
\<close>

unbundle bit_operations_syntax

section \<open>Lemma collections\<close>

named_theorems word_nat
  \<open>facts that move a statement about 32-bit words to natural numbers\<close>

named_theorems frame_simps
  \<open>fields that an operation of a component leaves alone\<close>

named_theorems inv_intros
  \<open>preservation of a component's well-formedness invariant\<close>

section \<open>Integer types and macros\<close>

type_synonym u8 = "8 word"
type_synonym u16 = "16 word"
type_synonym u32 = "32 word"
type_synonym u64 = "64 word"

definition PAGE_SIZE :: u32 where
  "PAGE_SIZE = 0x1000"

text \<open>\<^verbatim>\<open>RDIV(x, y)\<close>, \<^verbatim>\<open>ALIGN_DOWN(val, to)\<close> and \<^verbatim>\<open>ALIGN(val, to)\<close> with the wrap-around of
  unsigned 32-bit arithmetic.\<close>

definition RDIV :: "u32 \<Rightarrow> u32 \<Rightarrow> u32" where
  "RDIV x y = (x + (y - 1)) div y"

definition ALIGN_DOWN :: "u32 \<Rightarrow> u32 \<Rightarrow> u32" where
  "ALIGN_DOWN val to = val AND NOT (to - 1)"

definition ALIGN :: "u32 \<Rightarrow> u32 \<Rightarrow> u32" where
  "ALIGN val to = (if val mod to \<noteq> 0 then ALIGN_DOWN val to + to else val)"

section \<open>Error numbers and outcomes\<close>

datatype errno =
    EPERM | ENOENT | ESRCH | EINTR | EIO | EBADF | ECHILD | EAGAIN | ENOMEM | EACCES | EFAULT
  | EBUSY | EEXIST | EXDEV | ENOTDIR | EISDIR | EINVAL | ENFILE | EMFILE | EFBIG | ENOSYS
  | ENOTSUP | ENOTTY | ENOSPC | ESPIPE | EPIPE | ENOTEMPTY | ENAMETOOLONG | ELOOP | ERANGE

text \<open>
  What a call that takes a spinlock with unlimited retries, or that may panic, can do: return a
  value, spin because the lock is held (it comes back only if somebody else releases the lock),
  stop the machine in \<^verbatim>\<open>panic()\<close>, or access memory outside the object it was given.
\<close>

datatype 'a outcome = Ret 'a | Spin | Panic | Fault

definition returns :: "'a outcome \<Rightarrow> bool" where
  "returns r \<longleftrightarrow> (case r of Ret _ \<Rightarrow> True | _ \<Rightarrow> False)"

lemma returns_simps [simp]:
  "returns (Ret x)" "\<not> returns Spin" "\<not> returns Panic" "\<not> returns Fault"
  by (simp_all add: returns_def)

lemma returnsE:
  assumes "returns r"
  obtains x where "r = Ret x"
  using assms by (cases r) simp_all

text \<open>A call followed by what is done with its result.\<close>

definition obind :: "'a outcome \<Rightarrow> ('a \<Rightarrow> 'b outcome) \<Rightarrow> 'b outcome" where
  "obind r f = (case r of Ret x \<Rightarrow> f x | Spin \<Rightarrow> Spin | Panic \<Rightarrow> Panic | Fault \<Rightarrow> Fault)"

lemma obind_simps [simp]: "obind (Ret x) f = f x" "obind Spin f = Spin" "obind Panic f = Panic" "obind Fault f = Fault"
  by (simp_all add: obind_def)

lemma obind_Ret: "obind r f = Ret y \<longleftrightarrow> (\<exists>x. r = Ret x \<and> f x = Ret y)"
  by (cases r) simp_all

lemma obind_RetE:
  assumes "obind r f = Ret y"
  obtains x where "r = Ret x" "f x = Ret y"
  using assms by (auto simp: obind_Ret)

section \<open>Words as natural numbers\<close>

lemma unat_u32_less [simp]: "unat (x :: u32) < 4294967296"
  using unsigned_less [of x] by simp

lemma unat_u32_le [simp]: "unat (x :: u32) \<le> 4294967295"
  using unat_u32_less [of x] by linarith

lemma unat_add_u32 [word_nat]:
  "unat (x :: u32) + unat y < 4294967296 \<Longrightarrow> unat (x + y) = unat x + unat y"
  by (simp add: unat_word_ariths)

lemma unat_add_u32_mod: "unat ((x :: u32) + y) = (unat x + unat y) mod 4294967296"
  by (simp add: unat_word_ariths)

lemma unat_sub_u32 [word_nat]: "y \<le> (x :: u32) \<Longrightarrow> unat (x - y) = unat x - unat y"
  by (simp add: unat_sub)

lemma unat_div_u32 [word_nat]: "unat ((x :: u32) div y) = unat x div unat y"
  by (simp add: unat_div)

lemma unat_mod_u32 [word_nat]: "unat ((x :: u32) mod y) = unat x mod unat y"
  by (simp add: unat_mod)

lemma unat_mult_u32 [word_nat]:
  "unat (x :: u32) * unat y < 4294967296 \<Longrightarrow> unat (x * y) = unat x * unat y"
  by (simp add: unat_word_ariths)

lemma u32_less_nat [word_nat]: "(x :: u32) < y \<longleftrightarrow> unat x < unat y"
  by (rule word_less_nat_alt)

lemma u32_le_nat [word_nat]: "(x :: u32) \<le> y \<longleftrightarrow> unat x \<le> unat y"
  by (rule word_le_nat_alt)

lemma u32_eq_nat: "(x :: u32) = y \<longleftrightarrow> unat x = unat y"
  by (rule word_unat_eq_iff)

lemma unat_of_nat_u32: "n < 4294967296 \<Longrightarrow> unat (of_nat n :: u32) = n"
  by (simp add: unat_of_nat)

lemma u32_all_ones: "(0xffffffff :: u32) = - 1"
  by simp

lemma unat_minus_one_u32: "unat (- 1 :: u32) = 4294967295"
  by (simp only: u32_all_ones [symmetric]) simp

lemma u32_all_ones_bit: "bit (0xffffffff :: u32) n \<longleftrightarrow> n < 32"
  by (simp only: u32_all_ones bit_minus_1_iff) simp

lemma u32_all_ones_bit_mod: "bit (0xffffffff :: u32) (n mod 32)"
  by (simp only: u32_all_ones_bit)

lemma u32_eq_all_ones: "(w :: u32) = 0xffffffff \<longleftrightarrow> (\<forall>n < 32. bit w n)"
  unfolding u32_all_ones by (auto simp only: bit_eq_iff bit_minus_1_iff) (auto dest: bit_imp_le_length)

lemma u32_eq_zero: "(w :: u32) = 0 \<longleftrightarrow> (\<forall>n < 32. \<not> bit w n)"
  by (auto simp: bit_eq_iff dest: bit_imp_le_length)

section \<open>Rounding to a power of two\<close>

lemma and_not_mask_u32: "(x :: u32) AND NOT (mask n) = x - take_bit n x"
proof -
  have "x AND NOT (mask n) = push_bit n (drop_bit n x)"
    by (rule bit_eqI) (auto simp: bit_simps)
  then show ?thesis using bits_ident [of n x] by (metis add_diff_cancel_right')
qed

lemma unat_take_bit_u32: "unat (take_bit n (x :: u32)) = unat x mod 2 ^ n"
  unfolding unsigned_take_bit_eq by (simp add: take_bit_eq_mod)

lemma unat_ALIGN_DOWN:
  assumes "to = mask n + 1"
  shows "unat (ALIGN_DOWN x to) = unat x - unat x mod 2 ^ n"
proof -
  have "ALIGN_DOWN x to = x - take_bit n x" using assms by (simp add: ALIGN_DOWN_def and_not_mask_u32)
  moreover have "unat (take_bit n x) \<le> unat x" by (simp add: unat_take_bit_u32)
  ultimately show ?thesis by (simp add: unat_sub_u32 u32_le_nat unat_take_bit_u32)
qed

text \<open>\<^verbatim>\<open>ALIGN\<close> rounds up, unless the result does not fit in 32 bits.\<close>

lemma unat_ALIGN:
  assumes "to = mask n + 1" "unat to = 2 ^ n" "unat x \<le> 4294967296 - 2 ^ n"
  shows "unat (ALIGN x to) = (if unat x mod 2 ^ n = 0 then unat x else unat x - unat x mod 2 ^ n + 2 ^ n)"
proof -
  have "x mod to = 0 \<longleftrightarrow> unat x mod 2 ^ n = 0" using assms(2) by (simp add: u32_eq_nat unat_mod_u32)
  moreover have "unat (ALIGN_DOWN x to + to) = unat x - unat x mod 2 ^ n + 2 ^ n" if "unat x mod 2 ^ n \<noteq> 0"
  proof -
    have "unat x - unat x mod 2 ^ n + 2 ^ n < 4294967296"
    proof -
      have "2 ^ n \<le> (4294967296 :: nat)" using assms(2) unat_u32_less [of to] by (simp del: unat_u32_less)
      then show ?thesis using assms(3) that mod_less_eq_dividend [of "unat x" "2 ^ n"] by linarith
    qed
    then show ?thesis using assms(2) unat_ALIGN_DOWN [OF assms(1), of x] by (simp add: unat_add_u32)
  qed
  ultimately show ?thesis by (simp add: ALIGN_def)
qed

end
