(* ===== verification/Bitmap.thy ===== *)
theory Bitmap
  imports Prelude
begin

text \<open>
  The bitmap of \<^verbatim>\<open>src/lib/bitmap.c\<close> and \<^verbatim>\<open>src/lib/bitmap.h\<close>, on which the physical page allocator
  and every virtual memory context rest. The words behind the \<^verbatim>\<open>data\<close> pointer are a function of the
  word index: the C code reads one word past the array (its loops run to \<^verbatim>\<open>i <= bitmap_size\<close>), so
  the model keeps what memory holds there instead of cutting the array off. The field
  \<^verbatim>\<open>int first_free\<close> is kept as its 32-bit pattern, as every use of it converts it to unsigned.

  The theory relates the word-level loops to the bits they stand for: \<^verbatim>\<open>bitmap_set\<close> and
  \<^verbatim>\<open>bitmap_clear\<close> change exactly the requested range, \<^verbatim>\<open>bitmap_find\<close> returns only free runs and
  misses none while the hint \<^verbatim>\<open>first_free\<close> is sound, \<^verbatim>\<open>bitmap_get_range\<close> answers 0 only for a free
  range, and \<^verbatim>\<open>bitmap_count\<close> counts the set bits under the same hint. Which operations keep the hint
  sound, and which do not, is stated at the end.
\<close>

section \<open>State and operations\<close>

record bitmap =
  bm_data :: "nat \<Rightarrow> u32"
  bm_size :: u32
  first_free :: u32

definition bitmap_index :: "u32 \<Rightarrow> u32" where
  "bitmap_index a = a div (8 * 4)"

definition bitmap_offset :: "u32 \<Rightarrow> u32" where
  "bitmap_offset a = a mod (8 * 4)"

definition bitmap_size :: "u32 \<Rightarrow> u32" where
  "bitmap_size sz = (sz + (8 * 4) - 1) div (8 * 4)"

definition bit_set :: "u32 \<Rightarrow> nat \<Rightarrow> u32" where
  "bit_set num b = num OR push_bit b 1"

definition bit_clear :: "u32 \<Rightarrow> nat \<Rightarrow> u32" where
  "bit_clear num b = num AND NOT (push_bit b 1)"

definition bit_get :: "u32 \<Rightarrow> nat \<Rightarrow> u32" where
  "bit_get num b = num AND push_bit b 1"

definition bitmap_get :: "bitmap \<Rightarrow> u32 \<Rightarrow> u32" where
  "bitmap_get bm num = bit_get (bm_data bm (unat (bitmap_index num))) (unat (bitmap_offset num))"

definition put_word :: "bitmap \<Rightarrow> u32 \<Rightarrow> u32 \<Rightarrow> bitmap" where
  "put_word bm index w = bm\<lparr>bm_data := (bm_data bm)(unat index := w)\<rparr>"

lemma unat_bitmap_size_less: "unat (bitmap_size sz) < 134217728"
  unfolding bitmap_size_def by (simp add: unat_div_u32 div_less_iff_less_mult)

lemma u32_step_measure:
  assumes "i < (num :: u32)" "unat d \<le> unat num - unat i" "0 < unat d"
  shows "unat num - unat (i + d) < unat num - unat i"
proof -
  have "unat i < unat num" using assms(1) by (simp add: u32_less_nat)
  moreover have "unat (i + d) = unat i + unat d"
    using assms(2) calculation unat_u32_less [of num] by (intro unat_add_u32) linarith
  ultimately show ?thesis using assms(2,3) by linarith
qed

lemma word_index_step_measure:
  assumes "i \<le> bitmap_size sz"
  shows "Suc (unat (bitmap_size sz)) - unat (i + 1) < Suc (unat (bitmap_size sz)) - unat i"
proof -
  have "unat i < 134217728"
    using assms unat_bitmap_size_less [of sz] by (simp add: u32_le_nat)
  then have "unat (i + 1) = unat i + 1"
    by (subst unat_add_u32) auto
  with assms show ?thesis by (simp add: u32_le_nat)
qed

text \<open>The loop of \<^verbatim>\<open>bitmap_set\<close>; the word-wide step advances \<^verbatim>\<open>i\<close> by 31 and the loop header by 1.\<close>

function bitmap_set_loop :: "bitmap \<Rightarrow> u32 \<Rightarrow> u32 \<Rightarrow> u32 \<Rightarrow> bitmap" where
  "bitmap_set_loop bm pos num i =
     (if i < num then
        let index = bitmap_index (pos + i); offset = bitmap_offset (pos + i) in
        if offset = 0 \<and> num - i \<ge> 32
        then bitmap_set_loop (put_word bm index 0xffffffff) pos num (i + 31 + 1)
        else bitmap_set_loop
               (put_word bm index (bit_set (bm_data bm (unat index)) (unat offset))) pos num (i + 1)
      else bm)"
  by pat_completeness auto
termination
  by (relation "measure (\<lambda>(bm, pos, num, i). unat num - unat i)")
     (auto intro!: u32_step_measure simp: u32_le_nat unat_sub_u32 u32_less_nat add.assoc)

definition bitmap_set :: "bitmap \<Rightarrow> u32 \<Rightarrow> u32 \<Rightarrow> bitmap" where
  "bitmap_set bm pos num = bitmap_set_loop bm pos num 0"

function bitmap_clear_loop :: "bitmap \<Rightarrow> u32 \<Rightarrow> u32 \<Rightarrow> u32 \<Rightarrow> bitmap" where
  "bitmap_clear_loop bm pos num i =
     (if i < num then
        let index = bitmap_index (pos + i); offset = bitmap_offset (pos + i) in
        if offset = 0 \<and> num - i \<ge> 32
        then bitmap_clear_loop (put_word bm index 0) pos num (i + 31 + 1)
        else bitmap_clear_loop
               (put_word bm index (bit_clear (bm_data bm (unat index)) (unat offset))) pos num (i + 1)
      else bm)"
  by pat_completeness auto
termination
  by (relation "measure (\<lambda>(bm, pos, num, i). unat num - unat i)")
     (auto intro!: u32_step_measure simp: u32_le_nat unat_sub_u32 u32_less_nat add.assoc)

definition bitmap_clear :: "bitmap \<Rightarrow> u32 \<Rightarrow> u32 \<Rightarrow> bitmap" where
  "bitmap_clear bm pos num =
     (if pos + num > bm_size bm then bm
      else let bm' = bitmap_clear_loop bm pos num 0
           in bm'\<lparr>first_free := min (first_free bm') pos\<rparr>)"

text \<open>
  \<^verbatim>\<open>bzero(bm->data, bitmap_size(bm->size))\<close>: the second argument of \<^verbatim>\<open>bzero\<close> is a number of bytes,
  so with \<open>n\<close> words of bitmap the call clears the first \<open>n\<close> bytes, that is \<open>n div 4\<close> whole words and
  the low \<open>n mod 4\<close> bytes of the next one (i386 is little-endian).
\<close>

definition zero_bytes :: "(nat \<Rightarrow> u32) \<Rightarrow> nat \<Rightarrow> nat \<Rightarrow> u32" where
  "zero_bytes data n k =
     (if k < n div 4 then 0
      else if k = n div 4 then data k AND NOT (mask (8 * (n mod 4)))
      else data k)"

definition bitmap_clear_all :: "bitmap \<Rightarrow> bitmap" where
  "bitmap_clear_all bm = bm\<lparr>bm_data := zero_bytes (bm_data bm) (unat (bitmap_size (bm_size bm)))\<rparr>"

text \<open>
  The inner loop of \<^verbatim>\<open>bitmap_find\<close> over the bits of one word: \<open>Inl r\<close> returns from the function,
  \<open>Inr (contig_start, contig_num)\<close> leaves the loop.
\<close>

function find_bits :: "u32 \<Rightarrow> u32 \<Rightarrow> u32 \<Rightarrow> nat \<Rightarrow> u32 \<Rightarrow> u32 \<Rightarrow> u32 + u32 \<times> u32" where
  "find_bits bits num i j contig_start contig_num =
     (if j < 32 then
        if bit_get bits j \<noteq> 0 then find_bits bits num i (j + 1) contig_start 0
        else
          let contig_start' = (if contig_num = 0 then i * 32 + of_nat j else contig_start);
              contig_num' = contig_num + 1 in
          if contig_num' \<ge> num then Inl contig_start'
          else find_bits bits num i (j + 1) contig_start' contig_num'
      else Inr (contig_start, contig_num))"
  by pat_completeness auto
termination
  by (relation "measure (\<lambda>(bits, num, i, j, cs, cn). 32 - j)") auto

function find_loop ::
  "bitmap \<Rightarrow> u32 \<Rightarrow> u32 \<Rightarrow> nat \<Rightarrow> bool \<Rightarrow> u32 \<Rightarrow> u32 \<Rightarrow> u32 \<times> bitmap" where
  "find_loop bm num i offset all_nonfree contig_start contig_num =
     (if i \<le> bitmap_size (bm_size bm) then
        let bits = bm_data bm (unat i) in
        if bits = 0xffffffff then find_loop bm num (i + 1) 0 all_nonfree contig_start 0
        else
          let bm' = (if all_nonfree then bm\<lparr>first_free := i\<rparr> else bm) in
          if offset = 0 \<and> bits = 0 then
            let contig_start' = (if contig_num = 0 then i * 32 else contig_start);
                contig_num' = contig_num + 32 in
            if contig_num' \<ge> num then (contig_start', bm')
            else find_loop bm' num (i + 1) offset False contig_start' contig_num'
          else
            (case find_bits bits num i offset contig_start contig_num of
               Inl r \<Rightarrow> (r, bm')
             | Inr (contig_start', contig_num') \<Rightarrow>
                 find_loop bm' num (i + 1) 0 False contig_start' contig_num')
      else (- 1, bm))"
  by pat_completeness auto
termination
  by (relation "measure (\<lambda>(bm, num, i, offset, anf, cs, cn).
        Suc (unat (bitmap_size (bm_size bm))) - unat i)")
     (auto intro!: word_index_step_measure)

definition bitmap_find :: "bitmap \<Rightarrow> u32 \<Rightarrow> u32 \<Rightarrow> u32 \<times> bitmap" where
  "bitmap_find bm start num =
     (let offset = unat (start mod 32);
          start_arraypos = start div 32;
          start_arraypos' = (if start_arraypos < first_free bm then first_free bm else start_arraypos)
      in find_loop bm num start_arraypos' offset True 0 0)"

text \<open>The compiler builtins: count trailing zeros, count leading zeros, count ones.\<close>

definition builtin_ctz :: "u32 \<Rightarrow> nat" where
  "builtin_ctz w = length (takeWhile (\<lambda>k. \<not> bit w k) [0..<32])"

definition builtin_clz :: "u32 \<Rightarrow> nat" where
  "builtin_clz w = length (takeWhile (\<lambda>k. \<not> bit w (31 - k)) [0..<32])"

definition builtin_popcount :: "u32 \<Rightarrow> nat" where
  "builtin_popcount w = length (filter (bit w) [0..<32])"

function get_range_loop :: "bitmap \<Rightarrow> u32 \<Rightarrow> u32 \<Rightarrow> u32" where
  "get_range_loop bm remainder arraypos =
     (if remainder > 0 \<and> arraypos \<le> bitmap_size (bm_size bm) then
        let bits = bm_data bm (unat arraypos) in
        if bits = 0 then
          (if remainder \<le> 32 then 0 else get_range_loop bm (remainder - 32) (arraypos + 1))
        else if remainder \<ge> 32 then 1
        else if builtin_ctz bits < unat remainder then 1
        else get_range_loop bm remainder (arraypos + 1)
      else 0)"
  by pat_completeness auto
termination
  by (relation "measure (\<lambda>(bm, remainder, arraypos).
        Suc (unat (bitmap_size (bm_size bm))) - unat arraypos)")
     (auto intro!: word_index_step_measure)

definition bitmap_get_range :: "bitmap \<Rightarrow> u32 \<Rightarrow> u32 \<Rightarrow> u32" where
  "bitmap_get_range bm start num =
     (let arraypos = start div 32 in
      if start mod 32 \<noteq> 0 then
        let bits = bm_data bm (unat arraypos); uaoff = 32 - start mod 32 in
        if bits \<noteq> 0 \<and> builtin_clz bits < unat uaoff then 1
        else get_range_loop bm (num - uaoff) (arraypos + 1)
      else get_range_loop bm num arraypos)"

function count_loop :: "bitmap \<Rightarrow> u32 \<Rightarrow> u32 \<Rightarrow> u32" where
  "count_loop bm i count =
     (if i \<le> bitmap_size (bm_size bm)
      then count_loop bm (i + 1) (count + of_nat (builtin_popcount (bm_data bm (unat i))))
      else count)"
  by pat_completeness auto
termination
  by (relation "measure (\<lambda>(bm, i, count). Suc (unat (bitmap_size (bm_size bm))) - unat i)")
     (auto intro!: word_index_step_measure)

definition bitmap_count :: "bitmap \<Rightarrow> u32" where
  "bitmap_count bm = count_loop bm (first_free bm) (0 + first_free bm * 32)"

declare bitmap_set_loop.simps [simp del] bitmap_clear_loop.simps [simp del]
  find_bits.simps [simp del] find_loop.simps [simp del]
  get_range_loop.simps [simp del] count_loop.simps [simp del]

section \<open>The bits behind the words\<close>

definition bitmap_bit :: "bitmap \<Rightarrow> nat \<Rightarrow> bool" where
  "bitmap_bit bm n \<longleftrightarrow> bit (bm_data bm (n div 32)) (n mod 32)"

lemma bit_mask_u32: "bit (push_bit b (1 :: u32)) k \<longleftrightarrow> k = b \<and> b < 32"
  by (auto simp: bit_exp_iff possible_bit_def)

lemma bit_bit_set [simp]: "bit (bit_set w b) k \<longleftrightarrow> bit w k \<or> (k = b \<and> b < 32)"
  unfolding bit_set_def bit_or_iff bit_mask_u32 ..

lemma bit_bit_clear [simp]: "bit (bit_clear w b) k \<longleftrightarrow> bit w k \<and> k \<noteq> b"
  unfolding bit_clear_def bit_and_iff bit_not_iff bit_mask_u32
  by (auto simp: possible_bit_def dest: bit_imp_le_length)

lemma bit_get_nonzero: "bit_get w b \<noteq> 0 \<longleftrightarrow> bit w b"
  unfolding u32_eq_zero bit_get_def bit_and_iff bit_mask_u32 by (auto dest: bit_imp_le_length)

lemma bitmap_bit_cell: "k < 32 \<Longrightarrow> bitmap_bit bm (32 * w + k) \<longleftrightarrow> bit (bm_data bm w) k"
  by (simp add: bitmap_bit_def)

lemma unat_bitmap_index [word_nat]: "unat (bitmap_index a) = unat a div 32"
  by (simp add: bitmap_index_def unat_div_u32)

lemma unat_bitmap_offset [word_nat]: "unat (bitmap_offset a) = unat a mod 32"
  by (simp add: bitmap_offset_def unat_mod_u32)

lemma bitmap_offset_zero: "bitmap_offset a = 0 \<longleftrightarrow> unat a mod 32 = 0"
  by (simp add: u32_eq_nat unat_bitmap_offset)

lemma bitmap_get_bit: "bitmap_get bm a \<noteq> 0 \<longleftrightarrow> bitmap_bit bm (unat a)"
  by (simp add: bitmap_get_def bit_get_nonzero bitmap_bit_def word_nat)

lemma put_word_simps [simp, frame_simps]:
  "bm_size (put_word bm i w) = bm_size bm"
  "first_free (put_word bm i w) = first_free bm"
  "bm_data (put_word bm i w) k = (if k = unat i then w else bm_data bm k)"
  by (simp_all add: put_word_def)

lemma bitmap_bit_put_word:
  "bitmap_bit (put_word bm i w) n =
     (if n div 32 = unat i then bit w (n mod 32) else bitmap_bit bm n)"
  by (simp add: bitmap_bit_def)

lemma same_bit: "n = (p :: nat) \<longleftrightarrow> n div 32 = p div 32 \<and> n mod 32 = p mod 32"
  by (metis div_mult_mod_eq)

lemma word_span:
  assumes "(p :: nat) mod 32 = 0"
  shows "n div 32 = p div 32 \<longleftrightarrow> p \<le> n \<and> n < p + 32"
proof -
  obtain q where "p = 32 * q" using assms by (auto simp: mod_eq_0_iff_dvd)
  moreover have "n = 32 * (n div 32) + n mod 32" "n mod 32 < 32" by simp_all
  ultimately show ?thesis by (simp, linarith)
qed

lemma bitmap_bit_put_bit_set:
  "unat i = p div 32 \<Longrightarrow>
   bitmap_bit (put_word bm i (bit_set (bm_data bm (p div 32)) (p mod 32))) n \<longleftrightarrow>
     n = p \<or> bitmap_bit bm n"
  using same_bit [of n p] by (simp add: bitmap_bit_put_word) (auto simp: bitmap_bit_def)

lemma bitmap_bit_put_bit_clear:
  "unat i = p div 32 \<Longrightarrow>
   bitmap_bit (put_word bm i (bit_clear (bm_data bm (p div 32)) (p mod 32))) n \<longleftrightarrow>
     n \<noteq> p \<and> bitmap_bit bm n"
  using same_bit [of n p] by (simp add: bitmap_bit_put_word) (auto simp: bitmap_bit_def)

section \<open>Setting and clearing ranges\<close>

lemma bitmap_set_loop_stop: "\<not> i < num \<Longrightarrow> bitmap_set_loop bm pos num i = bm"
  by (subst bitmap_set_loop.simps) simp

lemma bitmap_set_loop_word:
  "i < num \<Longrightarrow> bitmap_offset (pos + i) = 0 \<and> num - i \<ge> 32 \<Longrightarrow>
   bitmap_set_loop bm pos num i =
     bitmap_set_loop (put_word bm (bitmap_index (pos + i)) 0xffffffff) pos num (i + 31 + 1)"
  by (subst bitmap_set_loop.simps) (simp only: Let_def if_True simp_thms)

lemma bitmap_set_loop_one:
  "i < num \<Longrightarrow> \<not> (bitmap_offset (pos + i) = 0 \<and> num - i \<ge> 32) \<Longrightarrow>
   bitmap_set_loop bm pos num i =
     bitmap_set_loop (put_word bm (bitmap_index (pos + i))
       (bit_set (bm_data bm (unat (bitmap_index (pos + i)))) (unat (bitmap_offset (pos + i)))))
       pos num (i + 1)"
  by (subst bitmap_set_loop.simps) (simp only: Let_def if_True if_False simp_thms)

lemma bitmap_set_loop_induct [case_names stop word one]:
  assumes "\<And>bm pos num i. \<not> i < num \<Longrightarrow> P bm pos num i"
  assumes "\<And>bm pos num i. i < num \<Longrightarrow> bitmap_offset (pos + i) = 0 \<and> num - i \<ge> 32 \<Longrightarrow>
     P (put_word bm (bitmap_index (pos + i)) 0xffffffff) pos num (i + 31 + 1) \<Longrightarrow> P bm pos num i"
  assumes "\<And>bm pos num i. i < num \<Longrightarrow> \<not> (bitmap_offset (pos + i) = 0 \<and> num - i \<ge> 32) \<Longrightarrow>
     P (put_word bm (bitmap_index (pos + i))
       (bit_set (bm_data bm (unat (bitmap_index (pos + i)))) (unat (bitmap_offset (pos + i)))))
       pos num (i + 1) \<Longrightarrow> P bm pos num i"
  shows "P bm pos num i"
proof (induction bm pos num i rule: bitmap_set_loop.induct)
  case (1 bm pos num i)
  show ?case
    using "1.IH" [OF _ refl refl] assms by metis
qed

lemmas bitmap_set_loop_steps = bitmap_set_loop_stop bitmap_set_loop_word bitmap_set_loop_one

lemma bitmap_set_loop_size [simp]: "bm_size (bitmap_set_loop bm pos num i) = bm_size bm"
  by (induction bm pos num i rule: bitmap_set_loop_induct) (simp_all add: bitmap_set_loop_steps)

lemma bitmap_set_loop_first_free [simp]:
  "first_free (bitmap_set_loop bm pos num i) = first_free bm"
  by (induction bm pos num i rule: bitmap_set_loop_induct) (simp_all add: bitmap_set_loop_steps)

lemma bitmap_clear_loop_stop: "\<not> i < num \<Longrightarrow> bitmap_clear_loop bm pos num i = bm"
  by (subst bitmap_clear_loop.simps) simp

lemma bitmap_clear_loop_word:
  "i < num \<Longrightarrow> bitmap_offset (pos + i) = 0 \<and> num - i \<ge> 32 \<Longrightarrow>
   bitmap_clear_loop bm pos num i =
     bitmap_clear_loop (put_word bm (bitmap_index (pos + i)) 0) pos num (i + 31 + 1)"
  by (subst bitmap_clear_loop.simps) (simp only: Let_def if_True simp_thms)

lemma bitmap_clear_loop_one:
  "i < num \<Longrightarrow> \<not> (bitmap_offset (pos + i) = 0 \<and> num - i \<ge> 32) \<Longrightarrow>
   bitmap_clear_loop bm pos num i =
     bitmap_clear_loop (put_word bm (bitmap_index (pos + i))
       (bit_clear (bm_data bm (unat (bitmap_index (pos + i)))) (unat (bitmap_offset (pos + i)))))
       pos num (i + 1)"
  by (subst bitmap_clear_loop.simps) (simp only: Let_def if_True if_False simp_thms)

lemma bitmap_clear_loop_induct [case_names stop word one]:
  assumes "\<And>bm pos num i. \<not> i < num \<Longrightarrow> P bm pos num i"
  assumes "\<And>bm pos num i. i < num \<Longrightarrow> bitmap_offset (pos + i) = 0 \<and> num - i \<ge> 32 \<Longrightarrow>
     P (put_word bm (bitmap_index (pos + i)) 0) pos num (i + 31 + 1) \<Longrightarrow> P bm pos num i"
  assumes "\<And>bm pos num i. i < num \<Longrightarrow> \<not> (bitmap_offset (pos + i) = 0 \<and> num - i \<ge> 32) \<Longrightarrow>
     P (put_word bm (bitmap_index (pos + i))
       (bit_clear (bm_data bm (unat (bitmap_index (pos + i)))) (unat (bitmap_offset (pos + i)))))
       pos num (i + 1) \<Longrightarrow> P bm pos num i"
  shows "P bm pos num i"
proof (induction bm pos num i rule: bitmap_clear_loop.induct)
  case (1 bm pos num i)
  show ?case
    using "1.IH" [OF _ refl refl] assms by metis
qed

lemmas bitmap_clear_loop_steps = bitmap_clear_loop_stop bitmap_clear_loop_word bitmap_clear_loop_one

lemma bitmap_clear_loop_size [simp]: "bm_size (bitmap_clear_loop bm pos num i) = bm_size bm"
  by (induction bm pos num i rule: bitmap_clear_loop_induct) (simp_all add: bitmap_clear_loop_steps)

lemma bitmap_clear_loop_first_free [simp]:
  "first_free (bitmap_clear_loop bm pos num i) = first_free bm"
  by (induction bm pos num i rule: bitmap_clear_loop_induct) (simp_all add: bitmap_clear_loop_steps)

text \<open>Arithmetic of one loop step: the bit position is \<open>unat pos + unat i\<close>, without wrap-around.\<close>

lemma loop_pos:
  assumes "unat pos + unat num \<le> 4294967296" "i < (num :: u32)"
  shows "unat (pos + i) = unat pos + unat i"
    and "unat (i + 1) = unat i + 1"
    and "num - i \<ge> 32 \<Longrightarrow> unat (i + 31 + 1) = unat i + 32"
    and "num - i \<ge> 32 \<Longrightarrow> unat i + 32 \<le> unat num"
    and "i + 1 \<le> num"
proof -
  have i: "unat i < unat num" using assms(2) by (simp add: u32_less_nat)
  show "unat (pos + i) = unat pos + unat i"
    using assms(1) i by (intro unat_add_u32) linarith
  show one: "unat (i + 1) = unat i + 1"
    using i unat_u32_less [of num] by (subst unat_add_u32) (simp_all del: unat_u32_less)
  show "i + 1 \<le> num" using i by (simp add: u32_le_nat one)
  assume "num - i \<ge> 32"
  then have wide: "unat i + 32 \<le> unat num"
    using i unat_sub_u32 [OF less_imp_le [OF assms(2)]] by (simp add: u32_le_nat)
  show "unat i + 32 \<le> unat num" by (rule wide)
  show "unat (i + 31 + 1) = unat i + 32"
    using wide unat_u32_less [of num] unfolding add.assoc
    by (subst unat_add_u32) (simp_all del: unat_u32_less)
qed

lemma bitmap_set_loop_bit:
  assumes "unat pos + unat num \<le> 4294967296" "unat i \<le> unat num"
  shows "bitmap_bit (bitmap_set_loop bm pos num i) n \<longleftrightarrow> 
           (unat pos + unat i \<le> n \<and> n < unat pos + unat num) \<or> bitmap_bit bm n"
  using assms
proof (induction bm pos num i rule: bitmap_set_loop_induct)
  case (stop bm pos num i)
  then have "i = num" by (simp add: u32_less_nat u32_eq_nat)
  then show ?case by (auto simp: bitmap_set_loop_stop)
next
  case (word bm pos num i)
  let ?p = "unat pos + unat i"
  note step = loop_pos [OF word.prems(1) word.hyps(1)]
  have "?p mod 32 = 0" using word.hyps(2) step(1) by (simp add: bitmap_offset_zero)
  then have span: "n div 32 = ?p div 32 \<longleftrightarrow> ?p \<le> n \<and> n < ?p + 32" by (rule word_span)
  have wide: "num - i \<ge> 32" using word.hyps(2) ..
  have "bitmap_bit (bitmap_set_loop bm pos num i) n \<longleftrightarrow> (?p + 32 \<le> n \<and> n < unat pos + unat num) \<or>
       (n div 32 = ?p div 32 \<or> bitmap_bit bm n)"
    using word.IH word.prems(1) step(3,4) [OF wide]
    by (simp only: bitmap_set_loop_word [OF word.hyps] bitmap_bit_put_word unat_bitmap_index step(1)
          u32_all_ones_bit_mod) auto
  then show ?case using span step(4) [OF wide] by auto
next
  case (one bm pos num i)
  let ?p = "unat pos + unat i"
  note step = loop_pos [OF one.prems(1) one.hyps(1)]
  have "unat i + 1 \<le> unat num" using one.hyps(1) by (simp add: u32_less_nat)
  moreover have "bitmap_bit (bitmap_set_loop bm pos num i) n \<longleftrightarrow> (?p + 1 \<le> n \<and> n < unat pos + unat num) \<or> (n = ?p \<or> bitmap_bit bm n)"
    using one.IH one.prems(1) calculation step(2)
    by (simp only: bitmap_set_loop_one [OF one.hyps] bitmap_bit_put_bit_set unat_bitmap_index unat_bitmap_offset step(1))
       (simp add: add.assoc)
  ultimately show ?case by auto
qed

lemma bitmap_clear_loop_bit:
  assumes "unat pos + unat num \<le> 4294967296" "unat i \<le> unat num"
  shows "bitmap_bit (bitmap_clear_loop bm pos num i) n \<longleftrightarrow> 
           bitmap_bit bm n \<and> \<not> (unat pos + unat i \<le> n \<and> n < unat pos + unat num)"
  using assms
proof (induction bm pos num i rule: bitmap_clear_loop_induct)
  case (stop bm pos num i)
  then have "i = num" by (simp add: u32_less_nat u32_eq_nat)
  then show ?case by (auto simp: bitmap_clear_loop_stop)
next
  case (word bm pos num i)
  let ?p = "unat pos + unat i"
  note step = loop_pos [OF word.prems(1) word.hyps(1)]
  have "?p mod 32 = 0" using word.hyps(2) step(1) by (simp add: bitmap_offset_zero)
  then have span: "n div 32 = ?p div 32 \<longleftrightarrow> ?p \<le> n \<and> n < ?p + 32" by (rule word_span)
  have wide: "num - i \<ge> 32" using word.hyps(2) ..
  have "bitmap_bit (bitmap_clear_loop bm pos num i) n \<longleftrightarrow> (n div 32 \<noteq> ?p div 32 \<and> bitmap_bit bm n) \<and>
       \<not> (?p + 32 \<le> n \<and> n < unat pos + unat num)"
    using word.IH word.prems(1) step(3,4) [OF wide]
    by (simp only: bitmap_clear_loop_word [OF word.hyps] bitmap_bit_put_word unat_bitmap_index step(1)
          bit_0_eq bot_apply) auto
  then show ?case using span step(4) [OF wide] by auto
next
  case (one bm pos num i)
  let ?p = "unat pos + unat i"
  note step = loop_pos [OF one.prems(1) one.hyps(1)]
  have "unat i + 1 \<le> unat num" using one.hyps(1) by (simp add: u32_less_nat)
  moreover have "bitmap_bit (bitmap_clear_loop bm pos num i) n \<longleftrightarrow> (n \<noteq> ?p \<and> bitmap_bit bm n) \<and>
       \<not> (?p + 1 \<le> n \<and> n < unat pos + unat num)"
    using one.IH one.prems(1) calculation step(2)
    by (simp only: bitmap_clear_loop_one [OF one.hyps] bitmap_bit_put_bit_clear unat_bitmap_index unat_bitmap_offset step(1))
       (simp add: add.assoc)
  ultimately show ?case by auto
qed

section \<open>Searching for a free run\<close>

definition free_run :: "bitmap \<Rightarrow> nat \<Rightarrow> nat \<Rightarrow> bool" where
  "free_run bm s n \<longleftrightarrow> (\<forall>k < n. \<not> bitmap_bit bm (s + k))"

text \<open>
  The scan has reached bit \<open>p\<close> after starting at \<open>lo\<close>: \<open>cn\<close> is the length of the longest free run that
  ends at \<open>p\<close>, and no run of \<open>num\<close> free bits ends at \<open>p\<close> or before.
\<close>

definition scanned :: "bitmap \<Rightarrow> nat \<Rightarrow> nat \<Rightarrow> nat \<Rightarrow> nat \<Rightarrow> bool" where
  "scanned bm lo num p cn \<longleftrightarrow>
     lo + cn \<le> p \<and> cn < num \<and> free_run bm (p - cn) cn \<and>
     (p - cn = lo \<or> bitmap_bit bm (p - cn - 1)) \<and>
     (\<forall>s. lo \<le> s \<and> s + num \<le> p \<longrightarrow> \<not> free_run bm s num)"

definition first_run :: "bitmap \<Rightarrow> nat \<Rightarrow> nat \<Rightarrow> nat \<Rightarrow> bool" where
  "first_run bm lo num r \<longleftrightarrow>
     lo \<le> r \<and> free_run bm r num \<and> (\<forall>s. lo \<le> s \<and> s < r \<longrightarrow> \<not> free_run bm s num)"

lemma bitmap_bit_first_free [simp]: "bitmap_bit (bm\<lparr>first_free := x\<rparr>) n = bitmap_bit bm n"
  by (simp add: bitmap_bit_def)

lemma free_run_first_free [simp]: "free_run (bm\<lparr>first_free := x\<rparr>) s n = free_run bm s n"
  by (simp add: free_run_def)

lemma scanned_first_free [simp]: "scanned (bm\<lparr>first_free := x\<rparr>) lo num p cn = scanned bm lo num p cn"
  by (simp add: scanned_def)

lemma first_run_first_free [simp]: "first_run (bm\<lparr>first_free := x\<rparr>) lo num r = first_run bm lo num r"
  by (simp add: first_run_def)

lemma free_runI: "(\<And>k. s \<le> k \<Longrightarrow> k < s + n \<Longrightarrow> \<not> bitmap_bit bm k) \<Longrightarrow> free_run bm s n"
  by (simp add: free_run_def)

lemma free_runD: "free_run bm s n \<Longrightarrow> s \<le> k \<Longrightarrow> k < s + n \<Longrightarrow> \<not> bitmap_bit bm k"
  unfolding free_run_def by (metis le_add_diff_inverse nat_add_left_cancel_less)

lemma scanned_start: "0 < num \<Longrightarrow> scanned bm lo num lo 0"
  by (auto simp: scanned_def free_run_def)

text \<open>A stretch of set bits resets the current run.\<close>

lemma scanned_used:
  assumes "scanned bm lo num p cn" "0 < d" "\<And>k. p \<le> k \<Longrightarrow> k < p + d \<Longrightarrow> bitmap_bit bm k"
  shows "scanned bm lo num (p + d) 0"
proof -
  have "\<not> free_run bm s num" if "lo \<le> s" "s + num \<le> p + d" for s
  proof (cases "s + num \<le> p")
    case True
    then show ?thesis using assms(1) that(1) by (auto simp: scanned_def)
  next
    case False
    have "0 < num" using assms(1) by (simp add: scanned_def)
    then have "bitmap_bit bm (s + num - 1)" using False that(2) by (intro assms(3)) auto
    moreover have "s \<le> s + num - 1" "s + num - 1 < s + num" using \<open>0 < num\<close> by linarith+
    ultimately show ?thesis using free_runD by blast
  qed
  then show ?thesis
    using assms by (auto simp: scanned_def free_run_def)
qed

text \<open>A stretch of clear bits extends the current run; it is long enough, or the scan goes on.\<close>

lemma no_earlier_run:
  assumes "scanned bm lo num p cn" "lo \<le> s" "s < p - cn"
  shows "\<not> free_run bm s num"
proof (cases "s + num \<le> p - cn - 1")
  case True
  then show ?thesis using assms by (auto simp: scanned_def)
next
  case False
  have "bitmap_bit bm (p - cn - 1)" using assms by (auto simp: scanned_def)
  moreover have "s \<le> p - cn - 1" "p - cn - 1 < s + num" using False assms(3) by linarith+
  ultimately show ?thesis using free_runD by blast
qed

lemma clear_extends:
  assumes "scanned bm lo num p cn" "\<And>k. p \<le> k \<Longrightarrow> k < p + d \<Longrightarrow> \<not> bitmap_bit bm k"
  shows "free_run bm (p - cn) (cn + d)"
proof (rule free_runI)
  fix k assume k: "p - cn \<le> k" "k < p - cn + (cn + d)"
  have "cn \<le> p" "free_run bm (p - cn) cn" using assms(1) by (auto simp: scanned_def)
  then show "\<not> bitmap_bit bm k"
    using free_runD [of bm "p - cn" cn k] assms(2) [of k] k by (cases "k < p") auto
qed

lemma clear_enough:
  assumes "scanned bm lo num p cn" "\<And>k. p \<le> k \<Longrightarrow> k < p + d \<Longrightarrow> \<not> bitmap_bit bm k" "num \<le> cn + d"
  shows "first_run bm lo num (p - cn)"
  using clear_extends [OF assms(1,2)] no_earlier_run [OF assms(1)] assms(1,3)
  by (auto simp: first_run_def free_run_def scanned_def)

lemma clear_more:
  assumes "scanned bm lo num p cn" "\<And>k. p \<le> k \<Longrightarrow> k < p + d \<Longrightarrow> \<not> bitmap_bit bm k" "cn + d < num"
  shows "scanned bm lo num (p + d) (cn + d)"
proof -
  have "\<not> free_run bm s num" if "lo \<le> s" "s + num \<le> p + d" for s
    using no_earlier_run [OF assms(1) that(1)] that assms(3) by linarith
  then show ?thesis
    using assms(1,3) clear_extends [OF assms(1,2)] by (auto simp: scanned_def)
qed

lemma unat_bit_position:
  assumes "32 * unat i + 32 < 4294967296" "j < 32"
  shows "unat (i * 32 + of_nat j :: u32) = 32 * unat i + j"
proof -
  have "unat (of_nat j :: u32) = j" using assms(2) by (simp add: unat_of_nat_u32)
  moreover have "unat (i * 32 :: u32) = 32 * unat i"
    using assms(1) by (subst unat_mult_u32) auto
  ultimately show ?thesis using assms by (subst unat_add_u32) auto
qed

lemma unat_succ_below: "unat (cn :: u32) < unat (num :: u32) \<Longrightarrow> unat (cn + 1) = unat cn + 1"
  using unat_u32_less [of num] by (subst unat_add_u32) (simp_all del: unat_u32_less)

definition run_state :: "bitmap \<Rightarrow> nat \<Rightarrow> u32 \<Rightarrow> nat \<Rightarrow> u32 \<Rightarrow> u32 \<Rightarrow> bool" where
  "run_state bm lo num p cs cn \<longleftrightarrow>
     scanned bm lo (unat num) p (unat cn) \<and> (cn \<noteq> 0 \<longrightarrow> unat cs = p - unat cn)"

lemma run_state_first_free [simp]:
  "run_state (bm\<lparr>first_free := x\<rparr>) lo num p cs cn = run_state bm lo num p cs cn"
  by (simp add: run_state_def)

lemma run_state_used:
  assumes "run_state bm lo num p cs cn" "0 < d" "\<And>k. p \<le> k \<Longrightarrow> k < p + d \<Longrightarrow> bitmap_bit bm k"
  shows "run_state bm lo num (p + d) cs' 0"
  using scanned_used [of bm lo "unat num" p "unat cn" d] assms by (simp add: run_state_def)

text \<open>The C code's \<^verbatim>\<open>if(!contig_num) contig_start = ...\<close> keeps the start of the run in step.\<close>

lemma run_state_clear:
  assumes "run_state bm lo num p cs cn" "unat here = p" "unat (cn + w) = unat cn + d" "0 < d"
    and "\<And>k. p \<le> k \<Longrightarrow> k < p + d \<Longrightarrow> \<not> bitmap_bit bm k"
  defines "cs' \<equiv> if cn = 0 then here else cs"
  shows "num \<le> cn + w \<Longrightarrow> first_run bm lo (unat num) (unat cs') \<and> unat cs' + unat cn = p"
    and "\<not> num \<le> cn + w \<Longrightarrow> run_state bm lo num (p + d) cs' (cn + w)"
proof -
  have sc: "scanned bm lo (unat num) p (unat cn)" and st: "cn \<noteq> 0 \<longrightarrow> unat cs = p - unat cn"
    using assms(1) by (simp_all add: run_state_def)
  have le: "unat cn \<le> p" using sc by (auto simp: scanned_def)
  have start: "unat cs' = p - unat cn"
    using st assms(2) by (auto simp: cs'_def)
  show "first_run bm lo (unat num) (unat cs') \<and> unat cs' + unat cn = p" if "num \<le> cn + w"
    using clear_enough [OF sc assms(5)] that assms(3) start le by (auto simp: u32_le_nat)
  show "run_state bm lo num (p + d) cs' (cn + w)" if "\<not> num \<le> cn + w"
    using clear_more [OF sc assms(5)] that assms(3) start le by (auto simp: run_state_def u32_le_nat)
qed

definition found_in :: "bitmap \<Rightarrow> nat \<Rightarrow> u32 \<Rightarrow> nat \<Rightarrow> u32 \<Rightarrow> bool" where
  "found_in bm lo num hi r \<longleftrightarrow>
     first_run bm lo (unat num) (unat r) \<and> unat r < hi \<and> unat r + unat num \<le> hi"

lemma word_bits:
  assumes "32 * w \<le> k" "k < 32 * w + 32"
  shows "bitmap_bit bm k \<longleftrightarrow> bit (bm_data bm w) (k - 32 * w)"
  using assms bitmap_bit_cell [of "k - 32 * w" bm w] by simp

text \<open>One step of the inner loop, at a set bit and at a clear bit.\<close>

lemma scan_used_bit:
  assumes "run_state bm lo num (32 * unat i + j) cs cn" "j < 32"
    and "bit_get (bm_data bm (unat i)) j \<noteq> 0"
  shows "run_state bm lo num (32 * unat i + (j + 1)) cs 0"
  using run_state_used [OF assms(1), of 1 cs] assms(2,3)
  by (simp add: le_less_Suc_eq bitmap_bit_cell bit_get_nonzero)

lemma scan_free_bit:
  assumes rs: "run_state bm lo num (32 * unat i + j) cs cn" and j: "j < 32"
    and "bit_get (bm_data bm (unat i)) j = 0" and pos: "32 * unat i + 32 < 4294967296"
    and cs': "cs' = (if cn = 0 then i * 32 + of_nat j else cs)"
  shows "num \<le> cn + 1 \<Longrightarrow> found_in bm lo num (32 * unat i + 32) cs'"
    and "\<not> num \<le> cn + 1 \<Longrightarrow> run_state bm lo num (32 * unat i + (j + 1)) cs' (cn + 1)"
proof -
  have less: "unat cn < unat num" using rs by (simp add: run_state_def scanned_def)
  have clear: "\<not> bitmap_bit bm k" if "32 * unat i + j \<le> k" "k < 32 * unat i + j + 1" for k
    using that assms(3) j word_bits [of "unat i" k bm] bit_get_nonzero [of "bm_data bm (unat i)" j]
    by (simp add: le_less_Suc_eq)
  note ext = run_state_clear [OF rs unat_bit_position [OF pos j] unat_succ_below [OF less] _ clear,
      folded cs', simplified]
  show "run_state bm lo num (32 * unat i + (j + 1)) cs' (cn + 1)" if "\<not> num \<le> cn + 1"
    using ext(2) that by (simp add: add.assoc)
  assume "num \<le> cn + 1"
  moreover from this have "unat num \<le> unat cn + 1"
    using unat_succ_below [OF less] by (simp add: u32_le_nat)
  ultimately show "found_in bm lo num (32 * unat i + 32) cs'"
    using ext(1) j by (simp add: found_in_def)
qed

lemma find_bits_correct:
  assumes "run_state bm lo num (32 * unat i + j) cs cn"
    and "bits = bm_data bm (unat i)" "32 * unat i + 32 < 4294967296" "j \<le> 32"
  shows "case find_bits bits num i j cs cn of
           Inl r \<Rightarrow> found_in bm lo num (32 * unat i + 32) r
         | Inr (cs', cn') \<Rightarrow> run_state bm lo num (32 * unat i + 32) cs' cn'"
  using assms
proof (induction bits num i j cs cn rule: find_bits.induct)
  case (1 bits num i j cs cn)
  define cs' where "cs' = (if cn = 0 then i * 32 + of_nat j else cs)"
  consider "\<not> j < 32" | (used) "j < 32" "bit_get bits j \<noteq> 0"
    | (enough) "j < 32" "\<not> bit_get bits j \<noteq> 0" "num \<le> cn + 1"
    | (more) "j < 32" "\<not> bit_get bits j \<noteq> 0" "\<not> num \<le> cn + 1" by blast
  then show ?case
  proof cases
    case 1
    then show ?thesis using "1.prems" by (subst find_bits.simps) simp
  next
    case used
    then show ?thesis
      using "1.IH"(1) [OF used] scan_used_bit [OF "1.prems"(1)] "1.prems"(2-4)
      by (subst find_bits.simps) simp
  next
    case enough
    then show ?thesis
      using scan_free_bit(1) [OF "1.prems"(1) _ _ _ cs'_def] "1.prems"(2-4)
      by (subst find_bits.simps) (simp add: cs'_def Let_def)
  next
    case more
    then show ?thesis
      using "1.IH"(2) [OF more(1,2) cs'_def refl more(3)] "1.prems"(2-4)
        scan_free_bit(2) [OF "1.prems"(1) _ _ _ cs'_def]
      by (subst find_bits.simps) (simp add: cs'_def Let_def)
  qed
qed

text \<open>One step of the outer loop, at a full word and at an empty word.\<close>

lemma scan_full_word:
  assumes "run_state bm lo num (32 * unat i + offset) cs cn" "offset < 32"
    and "bm_data bm (unat i) = 0xffffffff"
  shows "run_state bm lo num (32 * unat i + 32) cs 0"
proof -
  have "bitmap_bit bm k" if "32 * unat i + offset \<le> k" "k < 32 * unat i + offset + (32 - offset)" for k
    using that assms(2,3) word_bits [of "unat i" k bm] u32_all_ones_bit [of "k - 32 * unat i"] by auto
  then show ?thesis
    using run_state_used [OF assms(1), of "32 - offset" cs] assms(2) by simp
qed

lemma scan_empty_word:
  assumes rs: "run_state bm lo num (32 * unat i) cs cn" and "bm_data bm (unat i) = 0"
    and pos: "32 * unat i + 32 < 4294967296" and cs': "cs' = (if cn = 0 then i * 32 else cs)"
  shows "num \<le> cn + 32 \<Longrightarrow> found_in bm lo num (32 * unat i + 32) cs'"
    and "\<not> num \<le> cn + 32 \<Longrightarrow> run_state bm lo num (32 * unat i + 32) cs' (cn + 32)"
proof -
  have here: "unat (i * 32) = 32 * unat i" using pos by (subst unat_mult_u32) auto
  have "unat cn \<le> 32 * unat i" using rs by (auto simp: run_state_def scanned_def)
  then have wide: "unat (cn + 32) = unat cn + 32" using pos by (subst unat_add_u32) auto
  have clear: "\<not> bitmap_bit bm k" if "32 * unat i \<le> k" "k < 32 * unat i + 32" for k
    using that assms(2) word_bits [of "unat i" k bm] by simp
  note ext = run_state_clear [OF rs here wide _ clear, folded cs', simplified]
  show "run_state bm lo num (32 * unat i + 32) cs' (cn + 32)" if "\<not> num \<le> cn + 32"
    using ext(2) that by simp
  assume "num \<le> cn + 32"
  then show "found_in bm lo num (32 * unat i + 32) cs'"
    using ext(1) wide by (simp add: found_in_def u32_le_nat)
qed

definition find_result :: "bitmap \<Rightarrow> nat \<Rightarrow> u32 \<Rightarrow> u32 \<Rightarrow> bool" where
  "find_result bm lo num r \<longleftrightarrow>
     (let hi = 32 * unat (bitmap_size (bm_size bm)) + 32 in
      if r = - 1 then \<forall>s. lo \<le> s \<and> s + unat num \<le> hi \<longrightarrow> \<not> free_run bm s (unat num)
      else found_in bm lo num hi r)"

lemma find_result_first_free [simp]:
  "find_result (bm\<lparr>first_free := x\<rparr>) lo num r = find_result bm lo num r"
  by (simp add: find_result_def found_in_def)

lemma find_result_found:
  assumes "found_in bm lo num (32 * unat i + 32) r" "i \<le> bitmap_size (bm_size bm)"
    "32 * unat (bitmap_size (bm_size bm)) + 32 < 4294967296"
  shows "find_result bm lo num r"
proof -
  have i: "unat i \<le> unat (bitmap_size (bm_size bm))" using assms(2) by (simp add: u32_le_nat)
  have "unat r < 32 * unat i + 32" using assms(1) by (simp add: found_in_def)
  then have "unat r \<noteq> unat (- 1 :: u32)" using i assms(3) by (simp add: unat_minus_one_u32)
  then have "r \<noteq> - 1" by auto
  then show ?thesis using assms(1) i by (simp add: find_result_def found_in_def Let_def)
qed

lemma find_result_exhausted:
  assumes "run_state bm lo num p cs cn" "32 * unat (bitmap_size (bm_size bm)) + 32 \<le> p"
  shows "find_result bm lo num (- 1)"
  using assms by (auto simp: find_result_def run_state_def scanned_def)

lemma find_loop_mixed:
  assumes "i \<le> bitmap_size (bm_size bm)" "bm_data bm (unat i) \<noteq> 0xffffffff"
    and "\<not> (offset = 0 \<and> bm_data bm (unat i) = 0)"
  shows "find_loop bm num i offset anf cs cn =
     (let bm' = (if anf then bm\<lparr>first_free := i\<rparr> else bm) in
      case find_bits (bm_data bm (unat i)) num i offset cs cn of
        Inl r \<Rightarrow> (r, bm')
      | Inr (cs', cn') \<Rightarrow> find_loop bm' num (i + 1) 0 False cs' cn')"
  using assms by (subst find_loop.simps) (simp only: Let_def if_True if_False simp_thms)

lemma find_loop_correct:
  assumes "run_state bm lo num (32 * unat i + offset) cs cn" "offset < 32"
    and "32 * unat (bitmap_size (bm_size bm)) + 32 < 4294967296"
  shows "find_result bm lo num (fst (find_loop bm num i offset anf cs cn))"
  using assms
proof (induction bm num i offset anf cs cn rule: find_loop.induct)
  case (1 bm num i offset anf cs cn)
  let ?n = "bitmap_size (bm_size bm)" and ?w = "bm_data bm (unat i)"
  define cs' where "cs' = (if cn = 0 then i * 32 else cs)"
  show ?case
  proof (cases "i \<le> ?n")
    case False
    then have "32 * unat ?n + 32 \<le> 32 * unat i + offset" by (simp add: u32_le_nat)
    then show ?thesis
      using find_result_exhausted [OF "1.prems"(1)] False by (subst find_loop.simps) simp
  next
    case i: True
    have next_i: "32 * unat (i + 1) = 32 * unat i + 32"
      using i unat_bitmap_size_less [of "bm_size bm"] by (subst unat_add_u32) (auto simp: u32_le_nat)
    have pos: "32 * unat i + 32 < 4294967296" using i "1.prems"(3) by (simp add: u32_le_nat)
    note found = find_result_found [OF _ i "1.prems"(3)]
    consider (full) "?w = 0xffffffff"
      | (empty) "?w \<noteq> 0xffffffff" "offset = 0 \<and> ?w = 0" "num \<le> cn + 32"
      | (empty_more) "?w \<noteq> 0xffffffff" "offset = 0 \<and> ?w = 0" "\<not> num \<le> cn + 32"
      | (mixed) "?w \<noteq> 0xffffffff" "\<not> (offset = 0 \<and> ?w = 0)" by blast
    then show ?thesis
    proof cases
      case full
      then show ?thesis
        using "1.IH"(1) [OF i refl full] scan_full_word [OF "1.prems"(1,2) full] "1.prems"(3) i next_i
        by (subst find_loop.simps) (simp add: Let_def)
    next
      case empty
      then show ?thesis
        using found scan_empty_word(1) [OF _ _ pos cs'_def] "1.prems"(1) i
        by (subst find_loop.simps) (simp add: Let_def cs'_def)
    next
      case empty_more
      then have "run_state bm lo num (32 * unat (i + 1) + offset) cs' (cn + 32)"
        using scan_empty_word(2) [OF _ _ pos cs'_def] "1.prems"(1) next_i by simp
      then show ?thesis
        using "1.IH"(2) [OF i refl empty_more(1) refl empty_more(2) cs'_def refl empty_more(3)]
          "1.prems"(2,3) i empty_more
        by (subst find_loop.simps) (cases anf; simp add: Let_def flip: cs'_def)
    next
      case mixed
      note bits = find_bits_correct [OF "1.prems"(1) refl pos less_imp_le [OF "1.prems"(2)]]
      show ?thesis
      proof (cases "find_bits ?w num i offset cs cn")
        case (Inl r)
        then show ?thesis using bits found by (simp add: find_loop_mixed [OF i mixed] Let_def)
      next
        case (Inr q)
        obtain cs' cn' where q: "q = (cs', cn')" by (cases q)
        show ?thesis
          using "1.IH"(3) [OF i refl mixed(1) refl mixed(2) Inr q [symmetric]] bits "1.prems"(3) Inr q next_i
          by (cases anf) (simp_all add: find_loop_mixed [OF i mixed] Let_def)
      qed
    qed
  qed
qed

lemma find_loop_data [simp]: "bm_data (snd (find_loop bm num i offset anf cs cn)) = bm_data bm"
proof (induction bm num i offset anf cs cn rule: find_loop.induct)
  case (1 bm num i offset anf cs cn)
  show ?case
    using "1.IH" by (subst find_loop.simps) (auto simp: Let_def split: sum.splits)
qed

lemma find_loop_size [simp]: "bm_size (snd (find_loop bm num i offset anf cs cn)) = bm_size bm"
proof (induction bm num i offset anf cs cn rule: find_loop.induct)
  case (1 bm num i offset anf cs cn)
  show ?case
    using "1.IH" by (subst find_loop.simps) (auto simp: Let_def split: sum.splits)
qed

lemma bitmap_find_frame [simp, frame_simps]:
  "bm_data (snd (bitmap_find bm start num)) = bm_data bm"
  "bm_size (snd (bitmap_find bm start num)) = bm_size bm"
  by (simp_all add: bitmap_find_def Let_def)

text \<open>Where \<^verbatim>\<open>bitmap_find\<close> starts to look: the hint moves the first word, never the bit offset.\<close>

definition find_start :: "bitmap \<Rightarrow> u32 \<Rightarrow> nat" where
  "find_start bm start =
     32 * (if unat start div 32 < unat (first_free bm) then unat (first_free bm) else unat start div 32)
     + unat start mod 32"

lemma bitmap_find_result:
  assumes "0 < num" "unat (bm_size bm) \<le> 0x80000000"
  shows "find_result bm (find_start bm start) num (fst (bitmap_find bm start num))"
proof -
  have num: "0 < unat num" using assms(1) by (simp add: u32_less_nat)
  have "unat (bm_size bm + 8 * 4 - 1) \<le> 0x80000000 + 31"
    using assms(2) unat_add_u32 [of "bm_size bm" 31] by (simp add: add_diff_eq [symmetric])
  then have "32 * unat (bitmap_size (bm_size bm)) + 32 < 4294967296"
    by (simp add: bitmap_size_def unat_div_u32)
  moreover have "unat (start div 32) = unat start div 32" "unat (start mod 32) = unat start mod 32"
    by (simp_all add: unat_div_u32 unat_mod_u32)
  ultimately show ?thesis
    unfolding bitmap_find_def Let_def find_start_def u32_less_nat
    by (intro find_loop_correct)
       (auto simp: run_state_def scanned_start num)
qed

section \<open>The search hint\<close>

text \<open>
  \<^verbatim>\<open>first_free\<close> is a word index in \<^verbatim>\<open>bitmap_find\<close> and \<^verbatim>\<open>bitmap_count\<close>: both skip the words before it
  on the understanding that those are full.
\<close>

definition hint_sound :: "bitmap \<Rightarrow> bool" where
  "hint_sound bm \<longleftrightarrow> (\<forall>w < unat (first_free bm). bm_data bm w = 0xffffffff)"

lemma hint_sound_bits: "hint_sound bm \<longleftrightarrow> (\<forall>n < 32 * unat (first_free bm). bitmap_bit bm n)"
proof
  assume sound: "hint_sound bm"
  show "\<forall>n < 32 * unat (first_free bm). bitmap_bit bm n"
  proof (intro allI impI)
    fix n assume "n < 32 * unat (first_free bm)"
    then have "bm_data bm (n div 32) = 0xffffffff" using sound by (simp add: hint_sound_def)
    then show "bitmap_bit bm n" by (simp only: bitmap_bit_def u32_all_ones_bit_mod)
  qed
next
  assume bits: "\<forall>n < 32 * unat (first_free bm). bitmap_bit bm n"
  show "hint_sound bm"
    unfolding hint_sound_def u32_eq_all_ones
  proof (intro allI impI)
    fix w k assume "w < unat (first_free bm)" "k < (32 :: nat)"
    moreover from this have "32 * w + k < 32 * unat (first_free bm)" by linarith
    ultimately show "bit (bm_data bm w) k" using bits bitmap_bit_cell by blast
  qed
qed

lemma find_loop_hint:
  assumes "hint_sound bm" "anf \<Longrightarrow> \<forall>w < unat i. bm_data bm w = 0xffffffff"
  shows "hint_sound (snd (find_loop bm num i offset anf cs cn))"
  using assms
proof (induction bm num i offset anf cs cn rule: find_loop.induct)
  case (1 bm num i offset anf cs cn)
  let ?bm = "if anf then bm\<lparr>first_free := i\<rparr> else bm"
  have bm: "hint_sound ?bm" using "1.prems" by (auto simp: hint_sound_def)
  show ?case
  proof (cases "i \<le> bitmap_size (bm_size bm)")
    case False
    then show ?thesis using "1.prems"(1) by (subst find_loop.simps) simp
  next
    case i: True
    then have "unat (i + 1) = unat i + 1"
      using unat_bitmap_size_less [of "bm_size bm"] by (subst unat_add_u32) (auto simp: u32_le_nat)
    then have "\<forall>w < unat (i + 1). bm_data bm w = 0xffffffff" if "bm_data bm (unat i) = 0xffffffff" anf
      using "1.prems"(2) that by (auto simp: less_Suc_eq)
    then show ?thesis
      using "1.IH" i bm "1.prems"(1) by (subst find_loop.simps) (auto simp: Let_def split: sum.splits)
  qed
qed

lemma bitmap_find_hint [inv_intros]:
  assumes "hint_sound bm" "unat start div 32 \<le> unat (first_free bm)"
  shows "hint_sound (snd (bitmap_find bm start num))"
  using assms unfolding bitmap_find_def Let_def
  by (intro find_loop_hint) (auto simp: hint_sound_def u32_less_nat unat_div_u32)

section \<open>Range test and count\<close>

lemma takeWhile_length_ge:
  "m \<le> length (takeWhile P [0..<n]) \<Longrightarrow> k < m \<Longrightarrow> P k"
proof -
  assume m: "m \<le> length (takeWhile P [0..<n])" and k: "k < m"
  have "takeWhile P [0..<n] ! k = k"
    using m k length_takeWhile_le [of P "[0..<n]"] by (subst takeWhile_nth) auto
  then show "P k" using m k by (metis nth_mem order_less_le_trans set_takeWhileD)
qed

lemma builtin_ctz_clear: "u \<le> builtin_ctz w \<Longrightarrow> k < u \<Longrightarrow> \<not> bit w k"
  unfolding builtin_ctz_def by (rule takeWhile_length_ge)

lemma builtin_clz_clear:
  assumes "u \<le> builtin_clz w" "32 \<le> k + u" "k < 32"
  shows "\<not> bit w k"
  using takeWhile_length_ge [OF assms(1) [unfolded builtin_clz_def], of "31 - k"] assms(2,3) by simp

lemma get_range_loop_clear:
  assumes "get_range_loop bm remainder arraypos = 0"
    and "32 * unat arraypos \<le> n" "n < 32 * unat arraypos + unat remainder"
    and "n < 32 * unat (bitmap_size (bm_size bm)) + 32"
  shows "\<not> bitmap_bit bm n"
  using assms
proof (induction bm remainder arraypos rule: get_range_loop.induct)
  case (1 bm remainder arraypos)
  let ?w = "bm_data bm (unat arraypos)"
  have guard: "remainder > 0 \<and> arraypos \<le> bitmap_size (bm_size bm)"
    using "1.prems"(2-4) by (auto simp: u32_less_nat u32_le_nat)
  then have succ: "unat (arraypos + 1) = unat arraypos + 1"
    using unat_bitmap_size_less [of "bm_size bm"] by (subst unat_add_u32) (auto simp: u32_le_nat)
  show ?case
  proof (cases "n < 32 * unat arraypos + 32")
    case here: True
    consider "?w = 0" | "?w \<noteq> 0" "\<not> remainder \<ge> 32" "\<not> builtin_ctz ?w < unat remainder"
      using "1.prems"(1) guard by (subst (asm) get_range_loop.simps) (auto simp: Let_def split: if_splits)
    then show ?thesis
      using word_bits [OF "1.prems"(2) here] builtin_ctz_clear [of "unat remainder" ?w] "1.prems"(2,3)
      by cases (simp, fastforce simp: not_less)
  next
    case False
    then have "?w = 0" "\<not> remainder \<le> 32" "get_range_loop bm (remainder - 32) (arraypos + 1) = 0"
      using "1.prems" guard
      by (subst (asm) get_range_loop.simps; auto simp: Let_def u32_le_nat split: if_splits)+
    then show ?thesis
      using "1.IH"(1) guard "1.prems"(3,4) False succ by (auto simp: unat_sub_u32 u32_le_nat)
  qed
qed

definition set_bits :: "bitmap \<Rightarrow> nat \<Rightarrow> nat" where
  "set_bits bm n = length (filter (bitmap_bit bm) [0..<n])"

lemma set_bits_all: "\<forall>k < n. bitmap_bit bm k \<Longrightarrow> set_bits bm n = n"
  by (simp add: set_bits_def)

lemma set_bits_word: "set_bits bm (32 * Suc w) = set_bits bm (32 * w) + builtin_popcount (bm_data bm w)"
proof -
  have shift: "map (\<lambda>k. k + 32 * w) [0..<32] = [32 * w..<32 * w + 32]"
    using map_add_upt [of "32 * w" 32] by (simp add: add.commute)
  have "filter (bitmap_bit bm) [32 * w..<32 * w + 32] =
      map (\<lambda>k. k + 32 * w) (filter (\<lambda>k. bitmap_bit bm (k + 32 * w)) [0..<32])"
    unfolding shift [symmetric] filter_map comp_def ..
  moreover have "filter (\<lambda>k. bitmap_bit bm (k + 32 * w)) [0..<32] = filter (bit (bm_data bm w)) [0..<32]"
    by (rule filter_cong) (auto simp: bitmap_bit_def)
  moreover have "[0..<32 * Suc w] = [0..<32 * w] @ [32 * w..<32 * w + 32]"
    using upt_add_eq_append [of 0 "32 * w" 32] by (simp only: mult_Suc_right add.commute)
  ultimately show ?thesis by (simp add: set_bits_def builtin_popcount_def)
qed

lemma count_loop_set_bits:
  assumes "count = of_nat (set_bits bm (32 * unat i))" "unat i \<le> Suc (unat (bitmap_size (bm_size bm)))"
  shows "count_loop bm i count = of_nat (set_bits bm (32 * Suc (unat (bitmap_size (bm_size bm)))))"
  using assms
proof (induction bm i count rule: count_loop.induct)
  case (1 bm i count)
  show ?case
  proof (cases "i \<le> bitmap_size (bm_size bm)")
    case True
    then have succ: "unat (i + 1) = Suc (unat i)"
      using unat_bitmap_size_less [of "bm_size bm"] by (subst unat_add_u32) (auto simp: u32_le_nat)
    have "count + of_nat (builtin_popcount (bm_data bm (unat i))) = of_nat (set_bits bm (32 * unat (i + 1)))"
      using "1.prems"(1) by (simp only: succ set_bits_word of_nat_add)
    then show ?thesis
      using "1.IH" [OF True] True succ by (subst count_loop.simps) (simp add: u32_le_nat)
  next
    case False
    then have "unat i = Suc (unat (bitmap_size (bm_size bm)))" using "1.prems"(2) by (simp add: u32_le_nat)
    then show ?thesis using False "1.prems"(1) by (subst count_loop.simps) simp
  qed
qed

section \<open>The operations bit by bit\<close>

lemma bitmap_set_bit:
  assumes "unat pos + unat num \<le> 4294967296"
  shows "bitmap_bit (bitmap_set bm pos num) n \<longleftrightarrow>
           (unat pos \<le> n \<and> n < unat pos + unat num) \<or> bitmap_bit bm n"
  using bitmap_set_loop_bit [OF assms, of 0 bm] by (simp add: bitmap_set_def)

lemma bitmap_set_frame [simp, frame_simps]:
  "bm_size (bitmap_set bm pos num) = bm_size bm"
  "first_free (bitmap_set bm pos num) = first_free bm"
  by (simp_all add: bitmap_set_def)

lemma bitmap_clear_bit:
  assumes "unat pos + unat num < 4294967296"
  shows "bitmap_bit (bitmap_clear bm pos num) n \<longleftrightarrow>
           bitmap_bit bm n \<and> (unat (bm_size bm) < unat pos + unat num \<or>
                              \<not> (unat pos \<le> n \<and> n < unat pos + unat num))"
  using bitmap_clear_loop_bit [of pos num 0 bm] assms unat_add_u32 [of pos num]
  by (auto simp: bitmap_clear_def Let_def u32_less_nat)

lemma bitmap_clear_size [simp, frame_simps]: "bm_size (bitmap_clear bm pos num) = bm_size bm"
  by (simp add: bitmap_clear_def Let_def)

lemma bitmap_find_bit [simp]: "bitmap_bit (snd (bitmap_find bm start num)) n = bitmap_bit bm n"
  by (simp add: bitmap_bit_def)

lemma bitmap_set_hint [inv_intros]:
  assumes "hint_sound bm" "unat pos + unat num \<le> 4294967296"
  shows "hint_sound (bitmap_set bm pos num)"
  using assms by (simp add: hint_sound_bits bitmap_set_bit)

lemma bitmap_clear_all_frame [simp, frame_simps]:
  "bm_size (bitmap_clear_all bm) = bm_size bm" "first_free (bitmap_clear_all bm) = first_free bm"
  by (simp_all add: bitmap_clear_all_def)

lemma bitmap_clear_all_subset: "bitmap_bit (bitmap_clear_all bm) n \<Longrightarrow> bitmap_bit bm n"
  by (simp add: bitmap_clear_all_def bitmap_bit_def zero_bytes_def bit_and_iff split: if_splits)

section \<open>Properties\<close>

text \<open>
  \<^verbatim>\<open>bitmap_set(bm, pos, num)\<close> sets exactly the bits of \<open>[pos, pos + num)\<close>, whatever mix of word-wide
  and single-bit steps the loop takes, and leaves every other bit, the size and the hint alone.
\<close>

lemma bitmap_set_exact:
  assumes "unat pos + unat num \<le> 4294967296"
  shows "(\<forall>n. bitmap_bit (bitmap_set bm pos num) n \<longleftrightarrow>
             (unat pos \<le> n \<and> n < unat pos + unat num) \<or> bitmap_bit bm n) \<and>
         bm_size (bitmap_set bm pos num) = bm_size bm \<and>
         first_free (bitmap_set bm pos num) = first_free bm"
  using bitmap_set_loop_bit [OF assms, of 0 bm] by (simp add: bitmap_set_def)

definition blank :: bitmap where
  "blank = \<lparr>bm_data = (\<lambda>_. 0), bm_size = 96, first_free = 0\<rparr>"

lemma blank_simps [simp]: "bm_size blank = 96" "first_free blank = 0" "\<not> bitmap_bit blank n"
  by (simp_all add: blank_def bitmap_bit_def)

lemma bitmap_set_exact_example:
  "unat (31 :: u32) + unat (34 :: u32) \<le> 4294967296 \<and>
   bitmap_bit (bitmap_set blank 31 34) 64 \<and> \<not> bitmap_bit (bitmap_set blank 31 34) 65"
  using bitmap_set_exact [of 31 34 blank] by simp

text \<open>
  \<^verbatim>\<open>bitmap_clear\<close> ignores a range that ends past the bitmap; otherwise it clears exactly the bits
  of the range and lowers the hint to at most the position of its first bit.
\<close>

lemma bitmap_clear_exact:
  assumes "unat pos + unat num < 4294967296"
  shows "if bm_size bm < pos + num then bitmap_clear bm pos num = bm
         else (\<forall>n. bitmap_bit (bitmap_clear bm pos num) n \<longleftrightarrow>
                 bitmap_bit bm n \<and> \<not> (unat pos \<le> n \<and> n < unat pos + unat num)) \<and>
              first_free (bitmap_clear bm pos num) = min (first_free bm) pos"
  using bitmap_clear_loop_bit [of pos num 0 bm] assms by (simp add: bitmap_clear_def Let_def)

lemma bitmap_clear_exact_example:
  "\<not> bitmap_bit (bitmap_clear (bitmap_set blank 0 96) 31 34) 64 \<and>
   bitmap_bit (bitmap_clear (bitmap_set blank 0 96) 31 34) 65"
proof -
  have set: "bitmap_bit (bitmap_set blank 0 96) 65" "bm_size (bitmap_set blank 0 96) = 96"
    using bitmap_set_loop_bit [of 0 96 0 blank 65] by (simp_all add: bitmap_set_def)
  then show ?thesis
    using bitmap_clear_exact [of 31 34 "bitmap_set blank 0 96"] by simp
qed



text \<open>
  \<^verbatim>\<open>bitmap_clear\<close> stores a bit position in \<^verbatim>\<open>first_free\<close>, which the search reads as a word index. If
  the cleared position lies in a word before the hint while its number is not below it, the freed bit
  is lost: it is clear, and no later search from the start returns a run that contains it.
\<close>

lemma bitmap_clear_loses_bit:
  assumes "unat pos div 32 < unat (first_free bm)" "first_free bm \<le> pos"
    and "0 < num" "unat pos + unat num \<le> unat (bm_size bm)" "unat (bm_size bm) \<le> 0x80000000"
    and "0 < want" "r = fst (bitmap_find (bitmap_clear bm pos num) 0 want)"
  shows "\<not> bitmap_bit (bitmap_clear bm pos num) (unat pos) \<and> (r = - 1 \<or> unat pos < unat r)"
proof -
  let ?b = "bitmap_clear bm pos num"
  have "unat (pos + num) = unat pos + unat num"
    using assms(4) unat_u32_less [of "bm_size bm"] by (intro unat_add_u32) linarith
  then have guard: "\<not> bm_size bm < pos + num" using assms(4) by (simp add: u32_less_nat)
  have "unat pos + unat num \<le> 4294967296" using assms(4,5) by linarith
  then have bit: "\<not> bitmap_bit ?b (unat pos)"
    using bitmap_clear_loop_bit [of pos num 0 bm "unat pos"] guard assms(3)
    by (simp add: bitmap_clear_def Let_def u32_less_nat)
  have frame: "bm_size ?b = bm_size bm" "first_free ?b = first_free bm"
    using guard assms(2) by (simp_all add: bitmap_clear_def Let_def)
  have "unat pos < 32 * unat (first_free bm)" using assms(1) by linarith
  then have "unat pos < find_start ?b 0" by (simp add: find_start_def frame)
  moreover have "find_result ?b (find_start ?b 0) want r"
    using bitmap_find_result [of want ?b 0] assms(5-7) by (simp add: frame)
  ultimately show ?thesis
    using bit by (auto simp: find_result_def found_in_def first_run_def Let_def split: if_splits)
qed

definition used_up :: bitmap where
  "used_up = \<lparr>bm_data = (\<lambda>_. 0xffffffff), bm_size = 96, first_free = 3\<rparr>"

lemma bitmap_clear_loses_bit_example:
  "hint_sound used_up \<and> \<not> bitmap_bit (bitmap_clear used_up 40 8) 40 \<and>
   fst (bitmap_find (bitmap_clear used_up 40 8) 0 1) = - 1"
proof -
  have "hint_sound used_up" by (simp add: hint_sound_def used_up_def)
  moreover have "fst (bitmap_find (bitmap_clear used_up 40 8) 0 1) = - 1"
    by (simp add: used_up_def bitmap_clear_def bitmap_clear_loop.simps bitmap_find_def find_loop.simps
        bitmap_index_def bitmap_offset_def bitmap_size_def put_word_def Let_def)
  ultimately show ?thesis
    using bitmap_clear_loses_bit [of 40 used_up 8 1 "- 1"] by (simp add: used_up_def)
qed

lemma next_word_range:
  fixes n :: nat
  assumes "n < s + num" "s = 32 * q + m" "m < 32" "\<not> n < 32 * q + 32"
  shows "32 * (q + 1) \<le> n \<and> n < 32 * (q + 1) + (num - (32 - m))"
  using assms by auto

text \<open>
  \<^verbatim>\<open>bitmap_get_range\<close> errs on the safe side: when it answers 0, every bit of the range that lies in
  the words of the bitmap is clear.
\<close>

lemma bitmap_get_range_zero:
  assumes "bitmap_get_range bm start num = 0" "unat start + unat num < 4294967296"
    and "unat start \<le> n" "n < unat start + unat num" "n < 32 * unat (bitmap_size (bm_size bm)) + 32"
  shows "\<not> bitmap_bit bm n"
proof (cases "unat start mod 32 = 0")
  case True
  then have "get_range_loop bm num (start div 32) = 0"
    using assms(1) by (simp add: bitmap_get_range_def u32_eq_nat unat_mod_u32)
  then show ?thesis
    using get_range_loop_clear [of bm num "start div 32" n] assms(3-5) True
    by (auto simp: unat_div_u32)
next
  case unaligned: False
  let ?w = "bm_data bm (unat start div 32)" and ?u = "32 - unat start mod 32"
  have uaoff: "unat (32 - start mod 32) = ?u"
    by (subst unat_sub_u32) (simp_all add: u32_le_nat unat_mod_u32 less_imp_le)
  have word: "?w = 0 \<or> ?u \<le> builtin_clz ?w"
    and rest: "get_range_loop bm (num - (32 - start mod 32)) (start div 32 + 1) = 0"
    using assms(1) unaligned
    by (auto simp: bitmap_get_range_def u32_eq_nat unat_mod_u32 unat_div_u32 Let_def uaoff not_less
        split: if_splits)
  have split: "unat start = 32 * (unat start div 32) + unat start mod 32" "unat start mod 32 < 32"
    by simp_all
  show ?thesis
  proof (cases "n < 32 * (unat start div 32) + 32")
    case True
    have low: "32 * (unat start div 32) \<le> n" using assms(3) split by linarith
    have "32 \<le> n - 32 * (unat start div 32) + ?u" "n - 32 * (unat start div 32) < 32"
      using True low assms(3) split by linarith+
    then show ?thesis
      using word builtin_clz_clear [of ?u ?w "n - 32 * (unat start div 32)"] word_bits [OF low True, of bm]
      by auto
  next
    case False
    then have "?u \<le> unat num" using assms(4) split by linarith
    then have "unat (num - (32 - start mod 32)) = unat num - ?u"
      by (subst unat_sub_u32) (simp_all add: u32_le_nat uaoff)
    moreover have "unat (start div 32 + 1) = unat start div 32 + 1"
    proof -
      have "unat start div 32 < 4294967295" using split(1) unat_u32_less [of start] by linarith
      then show ?thesis by (subst unat_add_u32) (simp_all add: unat_div_u32)
    qed
    moreover have "32 * (unat start div 32 + 1) \<le> n"
      "n < 32 * (unat start div 32 + 1) + (unat num - ?u)"
      using next_word_range [OF assms(4) split False] by blast+
    ultimately show ?thesis
      using get_range_loop_clear [OF rest, of n] assms(4,5) by simp
  qed
qed

lemma bitmap_get_range_zero_example:
  "bitmap_get_range (bitmap_set blank 0 5) 5 30 = 0 \<and> \<not> bitmap_bit (bitmap_set blank 0 5) 33"
proof -
  have "builtin_clz 31 = 27" by code_simp
  then have "bitmap_get_range (bitmap_set blank 0 5) 5 30 = 0"
    by (simp add: blank_def bitmap_set_def bitmap_set_loop.simps bitmap_get_range_def
        get_range_loop.simps bitmap_index_def bitmap_offset_def bitmap_size_def
        put_word_def Let_def bit_set_def)
  then show ?thesis
    using bitmap_get_range_zero [of "bitmap_set blank 0 5" 5 30 33]
    by (simp add: bitmap_set_def bitmap_size_def)
qed

text \<open>
  With a sound hint \<^verbatim>\<open>bitmap_count\<close> is the number of set bits in the words of the bitmap and in the
  one word behind it that the loop also reads, modulo \<open>2 ^ 32\<close>.
\<close>

lemma bitmap_count_exact:
  assumes "hint_sound bm" "unat (first_free bm) \<le> Suc (unat (bitmap_size (bm_size bm)))"
  shows "bitmap_count bm = of_nat (set_bits bm (32 * Suc (unat (bitmap_size (bm_size bm)))))"
proof -
  have "set_bits bm (32 * unat (first_free bm)) = 32 * unat (first_free bm)"
    using assms(1) by (intro set_bits_all) (simp add: hint_sound_bits)
  then have "0 + first_free bm * 32 = of_nat (set_bits bm (32 * unat (first_free bm)))"
    by (simp add: mult.commute)
  then show ?thesis
    unfolding bitmap_count_def using assms(2) by (rule count_loop_set_bits)
qed

lemma bitmap_count_exact_example:
  "hint_sound blank \<and> bitmap_count blank = 0"
  using bitmap_count_exact [of blank]
  by (simp add: hint_sound_def set_bits_def)

text \<open>
  \<^verbatim>\<open>bitmap_clear_all\<close> passes a number of words to \<^verbatim>\<open>bzero\<close>, which takes bytes: only the first quarter
  of the bitmap is cleared, every bit from \<open>8 * bitmap_size\<close> on keeps its value.
\<close>

theorem bitmap_clear_all_quarter:
  "bitmap_bit (bitmap_clear_all bm) n \<longleftrightarrow>
     8 * unat (bitmap_size (bm_size bm)) \<le> n \<and> bitmap_bit bm n"
proof -
  let ?n = "unat (bitmap_size (bm_size bm))"
  have "?n = 4 * (?n div 4) + ?n mod 4" "?n mod 4 < 4" by simp_all
  moreover have "n = 32 * (n div 32) + n mod 32" "n mod 32 < 32" by simp_all
  ultimately have "n div 32 < ?n div 4 \<Longrightarrow> \<not> 8 * ?n \<le> n" "?n div 4 < n div 32 \<Longrightarrow> 8 * ?n \<le> n"
    "n div 32 = ?n div 4 \<Longrightarrow> 8 * ?n \<le> n \<longleftrightarrow> 8 * (?n mod 4) \<le> n mod 32"
    by linarith+
  then show ?thesis
    by (cases "n div 32" "?n div 4" rule: linorder_cases)
       (auto simp: bitmap_clear_all_def bitmap_bit_def zero_bytes_def bit_and_iff bit_not_iff
          bit_mask_iff possible_bit_def)
qed

end
