(* ===== verification/Spinlock.thy ===== *)
theory Spinlock
  imports Prelude
begin

text \<open>
  The spinlock of \<^verbatim>\<open>src/lib/spinlock.h\<close>. Other tasks and interrupt handlers may take and release the
  lock between two attempts, so the model of \<^verbatim>\<open>spinlock_get\<close> is given what every attempt reads
  (\<open>held t\<close>: the \<open>t\<close>-th test-and-set finds the lock taken). The components that use a lock are modelled
  one call at a time; \<open>acquire\<close> is what such a call sees, and \<open>acquire_sound\<close> relates it to the loop.
\<close>

section \<open>The retry loop\<close>

text \<open>The counter \<^verbatim>\<open>i\<close> is a 32-bit word and wraps around when the number of retries is unlimited (-1);
  \<open>t\<close> counts the attempts without wrapping around.\<close>

partial_function (option) spinlock_loop :: "(nat \<Rightarrow> bool) \<Rightarrow> u32 \<Rightarrow> u32 \<Rightarrow> nat \<Rightarrow> bool option" where
  "spinlock_loop held retries i t =
     (if i < retries \<or> retries = - 1
      then if \<not> held t then Some True else spinlock_loop held retries (i + 1) (Suc t)
      else Some False)"

definition spinlock_get :: "(nat \<Rightarrow> bool) \<Rightarrow> u32 \<Rightarrow> bool option" where
  "spinlock_get held retries = spinlock_loop held retries 0 0"

lemma spinlock_loop_free:
  assumes "\<not> held (t + k)" "retries = - 1"
  shows "spinlock_loop held retries i t = Some True"
  using assms(1)
proof (induction k arbitrary: i t)
  case 0
  then show ?case using assms(2) by (subst spinlock_loop.simps) simp
next
  case (Suc k)
  then have "spinlock_loop held retries (i + 1) (Suc t) = Some True" by simp
  then show ?case using assms(2) by (subst spinlock_loop.simps) simp
qed

lemma spinlock_loop_returns:
  "spinlock_loop held retries i t = Some y \<Longrightarrow> (\<forall>t. held t) \<longrightarrow> retries = - 1 \<longrightarrow> False"
  by (rule spinlock_loop.raw_induct [where P = "\<lambda>held retries i t y. (\<forall>t. held t) \<longrightarrow> retries = - 1 \<longrightarrow> False"])
     (auto split: if_splits)

lemma spinlock_loop_held: "\<forall>t. held t \<Longrightarrow> spinlock_loop held (- 1) i t = None"
  using spinlock_loop_returns [of held "- 1" i t] by (cases "spinlock_loop held (- 1) i t") auto

lemma later_attempt:
  assumes "held t"
  shows "(\<exists>k. a + 1 + k < n \<and> \<not> held (Suc t + k)) \<longleftrightarrow> (\<exists>k. a + k < n \<and> \<not> held (t + k))" (is "?l \<longleftrightarrow> ?r")
proof
  assume ?l
  then obtain k where "a + 1 + k < n" "\<not> held (Suc t + k)" by blast
  then show ?r by (intro exI [of _ "Suc k"]) simp
next
  assume ?r
  then obtain k where k: "a + k < n" "\<not> held (t + k)" by blast
  then obtain j where "k = Suc j" using assms by (cases k) auto
  then show ?l using k by (intro exI [of _ j]) simp
qed

lemma spinlock_loop_bounded:
  assumes "retries \<noteq> - 1" "unat i \<le> unat retries"
  shows "spinlock_loop held retries i t = Some (\<exists>k. unat i + k < unat retries \<and> \<not> held (t + k))"
  using assms(2)
proof (induction "unat retries - unat i" arbitrary: i t)
  case 0
  then show ?case using assms(1) by (subst spinlock_loop.simps) (auto simp: u32_less_nat)
next
  case (Suc d)
  then have i: "unat i < unat retries" by simp
  then have step: "unat (i + 1) = unat i + 1"
    using unat_u32_less [of retries] by (subst unat_add_u32) (simp_all del: unat_u32_less)
  then have "spinlock_loop held retries (i + 1) (Suc t)
      = Some (\<exists>k. unat (i + 1) + k < unat retries \<and> \<not> held (Suc t + k))"
    using Suc.hyps(2) i by (intro Suc.hyps(1)) simp_all
  then show ?case
    using i assms(1) later_attempt [of held t "unat i" "unat retries"]
    by (cases "held t"; subst spinlock_loop.simps)
       (auto simp: u32_less_nat step simp del: add_Suc intro: exI [of _ 0])
qed

section \<open>A lock taken by one call\<close>

definition acquire :: "bool \<Rightarrow> 'a outcome \<Rightarrow> 'a outcome" where
  "acquire lock body = (if lock then Spin else body)"

lemma acquire_simps [simp]: "acquire True body = Spin" "acquire False body = body"
  by (simp_all add: acquire_def)

lemma acquire_eq_Ret [simp]: "acquire lock body = Ret x \<longleftrightarrow> \<not> lock \<and> body = Ret x"
  by (simp add: acquire_def)

lemma acquire_sound: "spinlock_get (\<lambda>_. lock) (- 1) = (if lock then None else Some True)"
  using spinlock_loop_free [of "\<lambda>_. lock" 0 0] spinlock_loop_held [of "\<lambda>_. lock"]
  by (simp add: spinlock_get_def)

section \<open>Properties\<close>

text \<open>
  \<^verbatim>\<open>spinlock_get\<close> with unlimited retries returns, with the lock, exactly if some attempt finds the
  lock free; with \<open>n\<close> retries it always returns, and the result says whether one of the first \<open>n\<close>
  attempts found the lock free.
\<close>

lemma spinlock_get_correct:
  "spinlock_get held (- 1) = (if \<exists>t. \<not> held t then Some True else None) \<and>
   (n = - 1 \<or> spinlock_get held n = Some (\<exists>t < unat n. \<not> held t))"
proof -
  have "spinlock_get held (- 1) = Some True" if "\<not> held t" for t
    using spinlock_loop_free [of held 0 t] that by (simp add: spinlock_get_def)
  then show ?thesis
    using spinlock_loop_held [of held 0 0] spinlock_loop_bounded [of n 0 held 0]
    by (cases "n = - 1") (auto simp: spinlock_get_def)
qed

end
