(* ===== verification/Page_Alloc.thy ===== *)
theory Page_Alloc
  imports Bitmap Spinlock
begin

text \<open>
  The physical page allocator: \<^verbatim>\<open>src/mem/page_alloc.c\<close> and the part of \<^verbatim>\<open>src/mem/mem.c\<close> that sets it
  up from the boot loader's memory map. The locale \<open>page_pool\<close> states what its clients rely on; it
  is interpreted on the model of \<^verbatim>\<open>mem_page_alloc\<close> and \<^verbatim>\<open>mem_page_free\<close>.
\<close>

section \<open>The allocator\<close>

record mem_page_alloc_ctx =
  pa_lock :: bool
  pa_bitmap :: bitmap

definition PAGE_ALLOC_BITMAP_SIZE :: u32 where
  "PAGE_ALLOC_BITMAP_SIZE = 0xfffff000 div PAGE_SIZE"

text \<open>A failed search returns \<^verbatim>\<open>NULL\<close> before the lock is released.\<close>

definition mem_page_alloc :: "mem_page_alloc_ctx \<Rightarrow> u32 \<Rightarrow> (u32 \<times> mem_page_alloc_ctx) outcome" where
  "mem_page_alloc ctx sz = acquire (pa_lock ctx)
     (let (num, bm) = bitmap_find (pa_bitmap ctx) 0 sz in
      if num = - 1 then Ret (0, ctx\<lparr>pa_lock := True, pa_bitmap := bm\<rparr>)
      else Ret (num * PAGE_SIZE, ctx\<lparr>pa_lock := False, pa_bitmap := bitmap_set bm num sz\<rparr>))"

definition mem_page_alloc_at :: "mem_page_alloc_ctx \<Rightarrow> u32 \<Rightarrow> u32 \<Rightarrow> mem_page_alloc_ctx outcome" where
  "mem_page_alloc_at ctx addr sz = acquire (pa_lock ctx)
     (Ret (ctx\<lparr>pa_lock := False, pa_bitmap := bitmap_set (pa_bitmap ctx) (addr div PAGE_SIZE) sz\<rparr>))"

definition mem_page_free :: "mem_page_alloc_ctx \<Rightarrow> u32 \<Rightarrow> u32 \<Rightarrow> mem_page_alloc_ctx" where
  "mem_page_free ctx num sz = ctx\<lparr>pa_bitmap := bitmap_clear (pa_bitmap ctx) num sz\<rparr>"

text \<open>The pair of the total and the used number of bytes.\<close>

definition mem_page_alloc_stats :: "mem_page_alloc_ctx \<Rightarrow> u32 \<times> u32" where
  "mem_page_alloc_stats ctx =
     (bm_size (pa_bitmap ctx) * PAGE_SIZE, bitmap_count (pa_bitmap ctx) * PAGE_SIZE)"

definition mem_page_alloc_new :: "mem_page_alloc_ctx \<Rightarrow> mem_page_alloc_ctx" where
  "mem_page_alloc_new ctx =
     (let bm = bitmap_clear_all ((pa_bitmap ctx)\<lparr>bm_size := PAGE_ALLOC_BITMAP_SIZE\<rparr>) in
      ctx\<lparr>pa_lock := False, pa_bitmap := bitmap_set bm 0 1\<rparr>)"

section \<open>Initialisation from the memory map\<close>

record mmap_entry =
  me_addr :: u64
  me_len :: u64
  me_type :: u32

definition MULTIBOOT_MEMORY_AVAILABLE :: u32 where
  "MULTIBOOT_MEMORY_AVAILABLE = 1"

text \<open>The loop over the entries of the map; address and page count are truncated to 32 bits.\<close>

fun block_regions :: "mem_page_alloc_ctx \<Rightarrow> mmap_entry list \<Rightarrow> mem_page_alloc_ctx outcome" where
  "block_regions ctx [] = Ret ctx"
| "block_regions ctx (entry # rest) =
     (if me_type entry \<noteq> MULTIBOOT_MEMORY_AVAILABLE
      then case mem_page_alloc_at ctx (ucast (me_addr entry)) (ucast (me_len entry div 0x1000)) of
             Ret ctx' \<Rightarrow> block_regions ctx' rest
           | Spin \<Rightarrow> Spin | Panic \<Rightarrow> Panic | Fault \<Rightarrow> Fault
      else block_regions ctx rest)"

text \<open>\<open>mmap\<close> is the memory map tag, \<open>None\<close> if the boot loader gives none.\<close>

definition mem_init ::
    "mem_page_alloc_ctx \<Rightarrow> mmap_entry list option \<Rightarrow> u32 \<Rightarrow> u32 \<Rightarrow> mem_page_alloc_ctx outcome" where
  "mem_init ctx mmap mem_lower mem_upper =
     (case mmap of
        None \<Rightarrow> Panic
      | Some entries \<Rightarrow>
          (case block_regions (mem_page_alloc_new ctx) entries of
             Ret ctx' \<Rightarrow>
               let mem_kb = max 1024 mem_lower + mem_upper in
               Ret (ctx'\<lparr>pa_bitmap := (pa_bitmap ctx')\<lparr>bm_size := (mem_kb * 1024) div PAGE_SIZE\<rparr>\<rparr>)
           | Spin \<Rightarrow> Spin | Panic \<Rightarrow> Panic | Fault \<Rightarrow> Fault))"

section \<open>Abstraction: the set of used pages\<close>

definition used_pages :: "mem_page_alloc_ctx \<Rightarrow> nat set" where
  "used_pages ctx = {n. bitmap_bit (pa_bitmap ctx) n}"

definition pages :: "u32 \<Rightarrow> u32 \<Rightarrow> nat set" where
  "pages addr sz = {unat addr div 4096 ..< unat addr div 4096 + unat sz}"

text \<open>
  Less than 4 GiB - 256 KiB of memory, so that the search, which looks at one word past the end of the
  bitmap, cannot return a page number whose address does not fit in 32 bits; and a blocked
  \<^verbatim>\<open>NULL\<close> page.
\<close>

definition pool_wf :: "mem_page_alloc_ctx \<Rightarrow> bool" where
  "pool_wf ctx \<longleftrightarrow> unat (bm_size (pa_bitmap ctx)) + 64 \<le> 2 ^ 20 \<and> 0 \<in> used_pages ctx"

lemma pages_empty [simp]: "pages a 0 = {}"
  by (simp add: pages_def)

lemma pages_address:
  assumes "unat num < 2 ^ 20"
  shows "unat (num * PAGE_SIZE) = unat num * 4096"
  using assms by (simp add: PAGE_SIZE_def unat_mult_u32)

lemma bitmap_size_bound:
  assumes "unat sz + 64 \<le> 2 ^ 20"
  shows "32 * unat (bitmap_size sz) + 32 \<le> 2 ^ 20"
proof -
  have "unat (sz + 8 * 4 - 1) = unat sz + 31"
    using assms by (simp add: add_diff_eq [symmetric] unat_add_u32)
  then show ?thesis using assms by (simp add: bitmap_size_def unat_div_u32)
qed

lemma used_run_pages: "{s ..< s + n} \<inter> used_pages ctx \<noteq> {} \<longleftrightarrow> \<not> free_run (pa_bitmap ctx) s n"
proof -
  have "(\<exists>k < n. P (s + k)) \<longleftrightarrow> (\<exists>m. s \<le> m \<and> m < s + n \<and> P m)" for P
    by (metis le_add1 nat_add_left_cancel_less le_Suc_ex)
  then show ?thesis by (auto simp: free_run_def used_pages_def)
qed

text \<open>What a successful search gives, whatever the hint is.\<close>

lemma bitmap_find_fresh:
  assumes "unat (bm_size bm) + 64 \<le> 2 ^ 20" "0 < sz" "bitmap_find bm 0 sz = (num, bm')" "num \<noteq> - 1"
  shows "unat num + unat sz \<le> 2 ^ 20 \<and> unat num < 2 ^ 20 \<and> free_run bm (unat num) (unat sz)"
proof -
  have "find_result bm (find_start bm 0) sz num"
    using bitmap_find_result [OF assms(2), of bm 0] assms(1,3) by simp
  then show ?thesis
    using assms(4) bitmap_size_bound [OF assms(1)]
    by (auto simp: find_result_def found_in_def first_run_def Let_def)
qed

lemma mem_page_alloc_found:
  assumes "pool_wf ctx" "0 < sz" "mem_page_alloc ctx sz = Ret (addr, ctx')" "addr \<noteq> 0"
  shows "pool_wf ctx' \<and> \<not> pa_lock ctx' \<and> used_pages ctx' = used_pages ctx \<union> pages addr sz \<and>
         used_pages ctx \<inter> pages addr sz = {} \<and> unat addr mod 4096 = 0 \<and> unat sz \<le> 2 ^ 20"
proof -
  let ?bm = "pa_bitmap ctx"
  obtain num bm where find: "bitmap_find ?bm 0 sz = (num, bm)" by (cases "bitmap_find ?bm 0 sz")
  have num: "num \<noteq> - 1" and addr: "addr = num * PAGE_SIZE"
    and ctx': "ctx' = ctx\<lparr>pa_lock := False, pa_bitmap := bitmap_set bm num sz\<rparr>"
    using assms(3,4) by (auto simp: mem_page_alloc_def find split: if_splits)
  have small: "unat (bm_size ?bm) + 64 \<le> 2 ^ 20" using assms(1) by (simp add: pool_wf_def)
  note fresh = bitmap_find_fresh [OF small assms(2) find num]
  have same: "bm_size bm = bm_size ?bm" "bitmap_bit bm n = bitmap_bit ?bm n" for n
    using bitmap_find_frame(2) [of ?bm 0 sz] bitmap_find_bit [of ?bm 0 sz n] by (simp_all add: find)
  have pages: "pages addr sz = {unat num ..< unat num + unat sz}"
    using pages_address [of num] fresh by (simp add: addr pages_def)
  have "used_pages ctx' = used_pages ctx \<union> pages addr sz"
    using fresh by (auto simp: ctx' used_pages_def bitmap_set_bit same pages)
  moreover have "used_pages ctx \<inter> pages addr sz = {}"
    using fresh by (auto simp: used_pages_def pages dest: free_runD)
  moreover have "unat addr mod 4096 = 0" using pages_address [of num] fresh by (simp add: addr)
  moreover have "0 \<in> used_pages ctx" "bm_size (pa_bitmap ctx') = bm_size ?bm"
    using assms(1) by (simp_all add: pool_wf_def ctx' same)
  ultimately show ?thesis using small fresh by (simp add: pool_wf_def ctx')
qed

lemma mem_page_alloc_null:
  assumes "pool_wf ctx" "0 < sz" "mem_page_alloc ctx sz = Ret (0, ctx')"
  shows "used_pages ctx' = used_pages ctx \<and> pa_lock ctx' \<and> pool_wf ctx' \<and>
         (\<forall>s \<ge> 32 * unat (first_free (pa_bitmap ctx)).
            s + unat sz \<le> unat (bm_size (pa_bitmap ctx)) \<longrightarrow> {s ..< s + unat sz} \<inter> used_pages ctx \<noteq> {})"
proof -
  let ?bm = "pa_bitmap ctx"
  obtain num bm where find: "bitmap_find ?bm 0 sz = (num, bm)" by (cases "bitmap_find ?bm 0 sz")
  have same: "bm_size bm = bm_size ?bm" "bitmap_bit bm n = bitmap_bit ?bm n" for n
    using bitmap_find_frame(2) [of ?bm 0 sz] bitmap_find_bit [of ?bm 0 sz n] by (simp_all add: find)
  have small: "unat (bm_size ?bm) + 64 \<le> 2 ^ 20" using assms(1) by (simp add: pool_wf_def)
  have "num = - 1"
  proof (rule ccontr)
    assume num: "num \<noteq> - 1"
    note fresh = bitmap_find_fresh [OF small assms(2) find num]
    then have "num * PAGE_SIZE = 0" using assms(3) num by (auto simp: mem_page_alloc_def find)
    then have "unat num = 0" using pages_address [of num] fresh by simp
    then have "\<not> bitmap_bit ?bm 0" using fresh assms(2) by (auto simp: u32_less_nat dest: free_runD)
    then show False using assms(1) by (simp add: pool_wf_def used_pages_def)
  qed
  then have ctx': "ctx' = ctx\<lparr>pa_lock := True, pa_bitmap := bm\<rparr>"
    using assms(3) by (auto simp: mem_page_alloc_def find)
  have "32 * unat (bitmap_size (bm_size ?bm)) + 32 \<ge> unat (bm_size ?bm)"
    using small by (simp add: bitmap_size_def unat_div_u32 add_diff_eq [symmetric] unat_add_u32)
  moreover have "find_result ?bm (32 * unat (first_free ?bm)) sz (- 1)"
    using bitmap_find_result [OF assms(2), of ?bm 0] small
    by (simp add: find \<open>num = - 1\<close> find_start_def split: if_splits)
  ultimately have "\<not> free_run ?bm s (unat sz)"
    if "32 * unat (first_free ?bm) \<le> s" "s + unat sz \<le> unat (bm_size ?bm)" for s
    using that by (auto simp: find_result_def Let_def)
  then have "{s ..< s + unat sz} \<inter> used_pages ctx \<noteq> {}"
    if "32 * unat (first_free ?bm) \<le> s" "s + unat sz \<le> unat (bm_size ?bm)" for s
    using that by (simp add: used_run_pages)
  then show ?thesis using assms(1) by (simp add: ctx' used_pages_def pool_wf_def same)
qed

lemma mem_page_free_used:
  assumes "unat sz \<le> 2 ^ 20"
  shows "used_pages ctx - pages addr sz \<subseteq> used_pages (mem_page_free ctx (addr div PAGE_SIZE) sz)"
proof -
  have num: "unat (addr div PAGE_SIZE) = unat addr div 4096" by (simp add: unat_div_u32 PAGE_SIZE_def)
  have "unat addr div 4096 < 2 ^ 20" using unat_u32_less [of addr] by (simp del: unat_u32_less)
  then have "unat (addr div PAGE_SIZE) + unat sz < 4294967296" unfolding num using assms by simp
  then show ?thesis
    by (auto simp: mem_page_free_def used_pages_def pages_def bitmap_clear_bit num)
qed

lemma mem_page_free_wf:
  assumes "pool_wf ctx" "unat sz \<le> 2 ^ 20" "0 \<notin> pages addr sz"
  shows "pool_wf (mem_page_free ctx (addr div PAGE_SIZE) sz)"
  using assms(1,3) mem_page_free_used [OF assms(2), of ctx addr]
  by (auto simp: pool_wf_def) (simp add: mem_page_free_def)

section \<open>The interface of a page allocator\<close>

definition disjoint_live :: "(u32 \<times> u32) list \<Rightarrow> bool" where
  "disjoint_live live \<longleftrightarrow> sorted_wrt (\<lambda>(a, n) (b, m). pages a n \<inter> pages b m = {}) live"

text \<open>
  A client owns the allocations it got and has not given back (\<open>live\<close>). The laws let the client
  conclude that what it owns is never handed out twice.
\<close>

locale page_pool =
  fixes wf :: "'s \<Rightarrow> bool"
    and used :: "'s \<Rightarrow> nat set"
    and alloc :: "'s \<Rightarrow> u32 \<Rightarrow> (u32 \<times> 's) outcome"
    and release :: "'s \<Rightarrow> u32 \<Rightarrow> u32 \<Rightarrow> 's"
  assumes null_page: "wf s \<Longrightarrow> 0 \<in> used s"
    and alloc_wf: "wf s \<Longrightarrow> 0 < n \<Longrightarrow> alloc s n = Ret (a, s') \<Longrightarrow> wf s'"
    and alloc_null: "wf s \<Longrightarrow> 0 < n \<Longrightarrow> alloc s n = Ret (0, s') \<Longrightarrow> used s' = used s"
    and alloc_fresh: "wf s \<Longrightarrow> 0 < n \<Longrightarrow> alloc s n = Ret (a, s') \<Longrightarrow> a \<noteq> 0 \<Longrightarrow>
      used s' = used s \<union> pages a n \<and> used s \<inter> pages a n = {} \<and> unat n \<le> 2 ^ 20"
    and release_used: "unat n \<le> 2 ^ 20 \<Longrightarrow> used s - pages a n \<subseteq> used (release s a n)"
    and release_wf: "wf s \<Longrightarrow> unat n \<le> 2 ^ 20 \<Longrightarrow> 0 \<notin> pages a n \<Longrightarrow> wf (release s a n)"
begin

definition owns :: "'s \<Rightarrow> (u32 \<times> u32) list \<Rightarrow> bool" where
  "owns s live \<longleftrightarrow> wf s \<and> disjoint_live live \<and>
     (\<forall>a n. (a, n) \<in> set live \<longrightarrow> pages a n \<subseteq> used s \<and> 0 \<notin> pages a n \<and> unat n \<le> 2 ^ 20)"

lemma owns_start: "wf s \<Longrightarrow> owns s []"
  by (simp add: owns_def disjoint_live_def)

lemma owns_alloc:
  assumes "owns s live" "0 < n" "alloc s n = Ret (a, s')"
  shows "owns s' (if a = 0 then live else (a, n) # live)"
proof (cases "a = 0")
  case True
  then show ?thesis using assms alloc_null alloc_wf unfolding owns_def by fastforce
next
  case False
  have "wf s" using assms(1) by (simp add: owns_def)
  note fresh = alloc_fresh [OF this assms(2,3) False] alloc_wf [OF this assms(2,3)] null_page [OF this]
  then have "0 \<notin> pages a n" by blast
  moreover have "pages b m \<inter> pages a n = {}" if "(b, m) \<in> set live" for b m
    using that assms(1) fresh by (fastforce simp: owns_def)
  ultimately show ?thesis
    using assms(1) fresh False by (fastforce simp: owns_def disjoint_live_def)
qed

lemma owns_null_page: "owns s live \<Longrightarrow> (a, n) \<in> set live \<Longrightarrow> 0 \<notin> pages a n"
  by (auto simp: owns_def)

lemma owns_disjoint: "owns s live \<Longrightarrow> disjoint_live live"
  by (simp add: owns_def)

lemma owns_used: "owns s live \<Longrightarrow> (a, n) \<in> set live \<Longrightarrow> pages a n \<subseteq> used s"
  by (auto simp: owns_def)

lemma owns_release:
  assumes "owns s (xs @ (a, n) # ys)"
  shows "owns (release s a n) (xs @ ys)"
proof -
  have n: "unat n \<le> 2 ^ 20" "0 \<notin> pages a n" "wf s" using assms by (simp_all add: owns_def)
  have apart: "pages b m \<inter> pages a n = {}" if "(b, m) \<in> set (xs @ ys)" for b m
    using that assms by (fastforce simp: owns_def disjoint_live_def sorted_wrt_append)
  have "disjoint_live (xs @ ys)"
    using assms by (simp add: owns_def disjoint_live_def sorted_wrt_append)
  moreover have "pages b m \<subseteq> used (release s a n)" if "(b, m) \<in> set (xs @ ys)" for b m
  proof -
    have "pages b m \<subseteq> used s" using that owns_used [OF assms, of b m] by auto
    then show ?thesis using apart [OF that] release_used [OF n(1), of s a] by blast
  qed
  ultimately show ?thesis
    using assms release_wf [OF n(3,1,2)] by (auto simp: owns_def)
qed

end

definition release_pages :: "mem_page_alloc_ctx \<Rightarrow> u32 \<Rightarrow> u32 \<Rightarrow> mem_page_alloc_ctx" where
  "release_pages ctx addr sz = mem_page_free ctx (addr div PAGE_SIZE) sz"

interpretation phys: page_pool pool_wf used_pages mem_page_alloc release_pages
proof
  show "pool_wf s \<Longrightarrow> 0 \<in> used_pages s" for s by (simp add: pool_wf_def)
  show "pool_wf s'" if "pool_wf s" "0 < n" "mem_page_alloc s n = Ret (a, s')" for s n a s'
    using that mem_page_alloc_found [of s n a s'] mem_page_alloc_null [of s n s'] by (cases "a = 0") simp_all
  show "used_pages s' = used_pages s" if "pool_wf s" "0 < n" "mem_page_alloc s n = Ret (0, s')" for s n s'
    using mem_page_alloc_null [OF that] by simp
  show "used_pages s' = used_pages s \<union> pages a n \<and> used_pages s \<inter> pages a n = {} \<and> unat n \<le> 2 ^ 20"
    if "pool_wf s" "0 < n" "mem_page_alloc s n = Ret (a, s')" "a \<noteq> 0" for s n a s'
    using mem_page_alloc_found [OF that] by simp
  show "used_pages s - pages a n \<subseteq> used_pages (release_pages s a n)" if "unat n \<le> 2 ^ 20" for s n a
    using mem_page_free_used [OF that] by (simp add: release_pages_def)
  show "pool_wf (release_pages s a n)" if "pool_wf s" "unat n \<le> 2 ^ 20" "0 \<notin> pages a n" for s n a
    using mem_page_free_wf [OF that] by (simp add: release_pages_def)
qed

lemma mem_page_alloc_at_used:
  assumes "unat addr div 4096 + unat sz \<le> 4294967296" "mem_page_alloc_at ctx addr sz = Ret ctx'"
  shows "used_pages ctx' = used_pages ctx \<union> pages addr sz \<and> \<not> pa_lock ctx'"
proof -
  have "unat (addr div PAGE_SIZE) = unat addr div 4096" by (simp add: unat_div_u32 PAGE_SIZE_def)
  then show ?thesis
    using assms by (auto simp: mem_page_alloc_at_def used_pages_def pages_def bitmap_set_bit)
qed

lemma mem_page_alloc_at_size:
  "mem_page_alloc_at ctx addr sz = Ret ctx' \<Longrightarrow> bm_size (pa_bitmap ctx') = bm_size (pa_bitmap ctx)"
  by (auto simp: mem_page_alloc_at_def)

section \<open>Histories of a client\<close>

text \<open>
  The states a client reaches from \<open>ctx0\<close> by allocating, by giving back what it owns and by blocking
  ranges, in any order. The list holds the address and the size of what the client owns.
\<close>

inductive page_client :: "mem_page_alloc_ctx \<Rightarrow> mem_page_alloc_ctx \<Rightarrow> (u32 \<times> u32) list \<Rightarrow> bool" for ctx0 where
  start: "page_client ctx0 ctx0 []"
| alloc: "page_client ctx0 ctx live \<Longrightarrow> 0 < sz \<Longrightarrow> mem_page_alloc ctx sz = Ret (addr, ctx') \<Longrightarrow>
    page_client ctx0 ctx' (if addr = 0 then live else (addr, sz) # live)"
| give_back: "page_client ctx0 ctx (xs @ (addr, sz) # ys) \<Longrightarrow>
    page_client ctx0 (mem_page_free ctx (addr div PAGE_SIZE) sz) (xs @ ys)"
| block: "page_client ctx0 ctx live \<Longrightarrow> unat addr div 4096 + unat sz \<le> 4294967296 \<Longrightarrow>
    mem_page_alloc_at ctx addr sz = Ret ctx' \<Longrightarrow> page_client ctx0 ctx' live"

lemma owns_block:
  assumes "phys.owns ctx live" "unat addr div 4096 + unat sz \<le> 4294967296"
    "mem_page_alloc_at ctx addr sz = Ret ctx'"
  shows "phys.owns ctx' live"
  using assms(1) mem_page_alloc_at_used [OF assms(2,3)] mem_page_alloc_at_size [OF assms(3)]
  by (fastforce simp: phys.owns_def pool_wf_def)

lemma page_client_owns:
  assumes "page_client ctx0 ctx live" "pool_wf ctx0"
  shows "phys.owns ctx live"
  using assms
proof induction
  case (give_back ctx xs addr sz ys)
  then show ?case using phys.owns_release by (simp add: release_pages_def)
next
  case (alloc ctx live sz addr ctx')
  then show ?case using phys.owns_alloc [of ctx live sz addr ctx'] by simp
qed (auto intro: phys.owns_start owns_block)

section \<open>The memory map\<close>

definition region_pages :: "mmap_entry \<Rightarrow> nat set" where
  "region_pages e = {unat (me_addr e) div 4096 ..< unat (me_addr e) div 4096 + unat (me_len e) div 4096}"

definition below_4g :: "mmap_entry \<Rightarrow> bool" where
  "below_4g e \<longleftrightarrow> unat (me_addr e) + unat (me_len e) < 4294967296"

lemma unat_ucast_u32: "unat (x :: u64) < 4294967296 \<Longrightarrow> unat (ucast x :: u32) = unat x"
  by (simp add: unsigned_ucast_eq take_bit_nat_eq_self)

lemma unat_len_pages: "unat (x div 0x1000 :: u64) = unat x div 4096"
  by (simp add: unat_div_distrib)

lemma below_4g_pages:
  assumes "below_4g e"
  shows "pages (ucast (me_addr e)) (ucast (me_len e div 0x1000)) = region_pages e"
    and "unat (ucast (me_addr e) :: u32) div 4096 + unat (ucast (me_len e div 0x1000) :: u32) \<le> 4294967296"
proof -
  have "unat (me_len e) div 4096 \<le> unat (me_len e)" by simp
  then have "unat (me_len e div 0x1000) < 4294967296" "unat (me_addr e) < 4294967296"
    using assms unfolding below_4g_def unat_len_pages by linarith+
  note small = this [THEN unat_ucast_u32] unat_len_pages [of "me_len e"]
  show "pages (ucast (me_addr e)) (ucast (me_len e div 0x1000)) = region_pages e"
    by (simp only: pages_def region_pages_def small)
  show "unat (ucast (me_addr e) :: u32) div 4096 + unat (ucast (me_len e div 0x1000) :: u32) \<le> 4294967296"
    using assms \<open>unat (me_len e) div 4096 \<le> unat (me_len e)\<close> div_le_dividend [of "unat (me_addr e)" 4096]
    unfolding small below_4g_def by linarith
qed

lemma block_regions_used:
  assumes "\<not> pa_lock ctx" "\<forall>e \<in> set entries. below_4g e"
  shows "\<exists>ctx'. block_regions ctx entries = Ret ctx' \<and> \<not> pa_lock ctx' \<and>
     used_pages ctx' = used_pages ctx \<union>
       (\<Union>e \<in> {e \<in> set entries. me_type e \<noteq> MULTIBOOT_MEMORY_AVAILABLE}. region_pages e)"
  using assms
proof (induction entries arbitrary: ctx)
  case (Cons e entries)
  show ?case
  proof (cases "me_type e = MULTIBOOT_MEMORY_AVAILABLE")
    case True
    then show ?thesis using Cons.IH [of ctx] Cons.prems by (auto 4 3)
  next
    case False
    have e: "below_4g e" using Cons.prems(2) by simp
    obtain ctx1 where at: "mem_page_alloc_at ctx (ucast (me_addr e)) (ucast (me_len e div 0x1000)) = Ret ctx1"
      using Cons.prems(1) by (simp add: mem_page_alloc_at_def)
    note u = mem_page_alloc_at_used [OF below_4g_pages(2) [OF e] at] below_4g_pages(1) [OF e]
    have "{x. (x = e \<or> x \<in> set entries) \<and> me_type x \<noteq> MULTIBOOT_MEMORY_AVAILABLE}
        = insert e {x \<in> set entries. me_type x \<noteq> MULTIBOOT_MEMORY_AVAILABLE}" using False by auto
    then show ?thesis using Cons.IH [of ctx1] Cons.prems False u by (auto simp: at)
  qed
qed simp

section \<open>Properties\<close>


definition small_pool :: mem_page_alloc_ctx where
  "small_pool = \<lparr>pa_lock = False, pa_bitmap = \<lparr>bm_data = (\<lambda>w. if w = 0 then 1 else 0), bm_size = 64, first_free = 0\<rparr>\<rparr>"

lemma small_pool_wf: "pool_wf small_pool"
  by (simp add: pool_wf_def used_pages_def small_pool_def bitmap_bit_def)

lemma small_pool_alloc:
  "mem_page_alloc small_pool 2 = Ret (0x1000,
     \<lparr>pa_lock = False, pa_bitmap = bitmap_set (pa_bitmap small_pool) 1 2\<rparr>)"
  by (simp add: mem_page_alloc_def small_pool_def bitmap_find_def find_loop.simps find_bits.simps
      bitmap_size_def Let_def bit_get_def PAGE_SIZE_def)


text \<open>
  When no run of pages is free, \<^verbatim>\<open>mem_page_alloc\<close> returns \<^verbatim>\<open>NULL\<close> with the lock still held: every
  later allocation and reservation spins forever, even after pages have been freed.
\<close>

lemma page_alloc_failure_keeps_lock:
  assumes "pool_wf ctx" "0 < sz" "mem_page_alloc ctx sz = Ret (0, ctx')"
  shows "mem_page_alloc (mem_page_free ctx' num len) sz' = Spin \<and>
         mem_page_alloc_at (mem_page_free ctx' num len) addr sz' = Spin"
  using mem_page_alloc_null [OF assms]
  by (simp add: mem_page_alloc_def mem_page_alloc_at_def mem_page_free_def)

lemma page_alloc_failure_keeps_lock_example:
  "\<exists>ctx'. mem_page_alloc small_pool 200 = Ret (0, ctx') \<and>
     mem_page_alloc (mem_page_free ctx' 0 64) 1 = Spin"
proof -
  have "\<exists>ctx'. mem_page_alloc small_pool 200 = Ret (0, ctx')"
    by (simp add: mem_page_alloc_def small_pool_def bitmap_find_def find_loop.simps find_bits.simps
        bitmap_size_def Let_def bit_get_def PAGE_SIZE_def u32_le_nat)
  then show ?thesis using page_alloc_failure_keeps_lock [OF small_pool_wf, of 200] by fastforce
qed

text \<open>
  From a zeroed allocator, \<^verbatim>\<open>mem_init\<close> panics without a memory map; with one it returns with the
  lock free, and the used pages are exactly the \<^verbatim>\<open>NULL\<close> page and the whole pages of every region that
  the map does not mark as available.
\<close>

lemma mem_init_used:
  assumes "used_pages ctx = {}" "\<forall>e \<in> set entries. below_4g e"
  shows "mem_init ctx None lower upper = Panic \<and>
    (\<exists>ctx'. mem_init ctx (Some entries) lower upper = Ret ctx' \<and> \<not> pa_lock ctx' \<and>
       bm_size (pa_bitmap ctx') = ((max 1024 lower + upper) * 1024) div PAGE_SIZE \<and>
       used_pages ctx' = {0} \<union>
         (\<Union>e \<in> {e \<in> set entries. me_type e \<noteq> MULTIBOOT_MEMORY_AVAILABLE}. region_pages e))"
proof -
  let ?new = "mem_page_alloc_new ctx"
  have "\<not> bitmap_bit (bitmap_clear_all ((pa_bitmap ctx)\<lparr>bm_size := x\<rparr>)) n" for x n
    using assms(1) bitmap_clear_all_subset [of "(pa_bitmap ctx)\<lparr>bm_size := x\<rparr>" n]
    by (auto simp: used_pages_def bitmap_bit_def)
  then have "used_pages ?new = {0}"
    using bitmap_set_bit [of 0 1] by (auto simp: mem_page_alloc_new_def used_pages_def Let_def)
  moreover have "\<not> pa_lock ?new" by (simp add: mem_page_alloc_new_def Let_def)
  ultimately obtain ctx' where "block_regions ?new entries = Ret ctx'" "\<not> pa_lock ctx'"
    "used_pages ctx' = {0} \<union>
      (\<Union>e \<in> {e \<in> set entries. me_type e \<noteq> MULTIBOOT_MEMORY_AVAILABLE}. region_pages e)"
    using block_regions_used [of ?new entries] assms(2) by auto
  then show ?thesis by (simp add: mem_init_def Let_def used_pages_def bitmap_bit_def)
qed

lemma mem_init_used_example:
  "\<exists>ctx'. mem_init (small_pool\<lparr>pa_bitmap := blank\<rparr>)
     (Some [\<lparr>me_addr = 0, me_len = 0x9fc00, me_type = 1\<rparr>, \<lparr>me_addr = 0xf0000, me_len = 0x10000, me_type = 2\<rparr>])
     639 31744 = Ret ctx' \<and> used_pages ctx' = {0} \<union> {240 ..< 256}"
proof -
  have "{e. (e = \<lparr>me_addr = 0, me_len = 0x9fc00, me_type = 1\<rparr> \<or> e = \<lparr>me_addr = 0xf0000, me_len = 0x10000, me_type = 2\<rparr>) \<and>
      me_type e \<noteq> MULTIBOOT_MEMORY_AVAILABLE} = {\<lparr>me_addr = 0xf0000, me_len = 0x10000, me_type = 2\<rparr>}"
    by (auto simp: MULTIBOOT_MEMORY_AVAILABLE_def)
  then show ?thesis
    using mem_init_used [of "small_pool\<lparr>pa_bitmap := blank\<rparr>"
        "[\<lparr>me_addr = 0, me_len = 0x9fc00, me_type = 1\<rparr>, \<lparr>me_addr = 0xf0000, me_len = 0x10000, me_type = 2\<rparr>]" 639 31744]
    by (auto simp: used_pages_def below_4g_def region_pages_def)
qed

end
