(* ===== verification/Vm.thy ===== *)
theory Vm
  imports Page_Alloc
begin

text \<open>
  Virtual memory: \<^verbatim>\<open>src/mem/vm.c\<close> and the page tables of \<^verbatim>\<open>src/mem/i386-paging.c\<close>. A context has a bitmap of used pages and a
  list of ranges. Page tables are kept by the physical address of the page that holds them; the code reaches them through
  virtual addresses of the kernel, which the model translates by walking the kernel's own page directory as the hardware does.

  The two files call each other: mapping a page in a directory without the table for it allocates the table in the kernel's context, and
  this allocation maps a page in turn. The operations take the routine that allocates a table as an argument, and
  \<open>table_alloc n\<close> ties the knot with at most \<open>n\<close> nested allocations.
\<close>

section \<open>State\<close>

record page =
  pg_present :: bool
  pg_rw :: bool
  pg_user :: bool
  pg_frame :: u32

definition zero_page :: page where
  "zero_page = \<lparr>pg_present = False, pg_rw = False, pg_user = False, pg_frame = 0\<rparr>"

text \<open>\<^verbatim>\<open>vm_alloc_t\<close>. The list of shards is the list of their virtual and physical addresses.\<close>

record vm_range =
  vr_self :: u32
  vr_ctx :: u32
  vr_addr :: u32
  vr_size :: u32
  vr_flags :: u32
  vr_shards :: "(u32 \<times> u32) list"
  vr_phys :: u32

text \<open>The doubly linked list of ranges is the list of its elements, newest first.\<close>

record vm_ctx =
  vc_lock :: bool
  vc_bitmap :: bitmap
  vc_ranges :: "vm_range list"
  vc_page_dir :: u32
  vc_page_dir_phys :: u32

text \<open>
  Contexts are named by their address. \<open>range_addrs\<close> are the addresses that the next calls of \<^verbatim>\<open>kmalloc\<close> for a range
  return. Bytes in physical memory are apart from page tables.
\<close>

record vm =
  ctxs :: "u32 \<Rightarrow> vm_ctx"
  VM_KERNEL :: u32
  phys_alloc :: mem_page_alloc_ctx
  kmalloc_ready :: bool
  have_malloc_ranges :: nat
  malloc_ranges :: "nat \<Rightarrow> u32"
  range_addrs :: "u32 list"
  tabs :: "u32 \<Rightarrow> nat \<Rightarrow> page"
  pmem :: "u32 \<Rightarrow> u8"
  paging_kernel_ctx :: u32
  paging_alloc_end :: u32
  paging_on :: bool

definition VM_RW :: u32 where "VM_RW = 1"
definition VM_USER :: u32 where "VM_USER = 2"
definition VM_FREE :: u32 where "VM_FREE = 4"
definition VM_TFORK :: u32 where "VM_TFORK = 8"
definition VM_NOCOW :: u32 where "VM_NOCOW = 16"
definition VM_ZERO :: u32 where "VM_ZERO = 32"
definition VM_MAP_USER_ONLY :: u32 where "VM_MAP_USER_ONLY = 512"
definition VM_FIXED :: u32 where "VM_FIXED = 1024"
definition VM_MAP_LESS_OK :: u32 where "VM_MAP_LESS_OK = 2048"

definition CLEANUP_FLAGS :: "u32 \<Rightarrow> u32" where
  "CLEANUP_FLAGS x = x AND (VM_RW OR VM_USER OR VM_FREE OR VM_TFORK OR VM_NOCOW)"

definition upd_ctx :: "u32 \<Rightarrow> (vm_ctx \<Rightarrow> vm_ctx) \<Rightarrow> vm \<Rightarrow> vm" where
  "upd_ctx c f s = s\<lparr>ctxs := (ctxs s)(c := f (ctxs s c))\<rparr>"

section \<open>The memory management unit\<close>

definition frame_addr :: "u32 \<Rightarrow> u32" where
  "frame_addr f = push_bit 12 f"

definition dir_index :: "u32 \<Rightarrow> nat" where
  "dir_index v = unat (drop_bit 22 v)"

definition tab_index :: "u32 \<Rightarrow> nat" where
  "tab_index v = unat (drop_bit 12 v mod 1024)"

text \<open>The entry for a virtual address in the directory at a physical address.\<close>

definition walk :: "vm \<Rightarrow> u32 \<Rightarrow> u32 \<Rightarrow> page option" where
  "walk s dir v =
     (let pde = tabs s dir (dir_index v) in
      if \<not> pg_present pde then None
      else let pte = tabs s (frame_addr (pg_frame pde)) (tab_index v) in
           if pg_present pte then Some pte else None)"

text \<open>Where the kernel's access to a virtual address goes; before paging is enabled, to the address itself.\<close>

definition deref :: "vm \<Rightarrow> u32 \<Rightarrow> u32 option" where
  "deref s v =
     (if paging_on s
      then map_option (\<lambda>p. frame_addr (pg_frame p) OR (v AND 0xfff)) (walk s (paging_kernel_ctx s) v)
      else Some v)"

definition upd_tab :: "u32 \<Rightarrow> nat \<Rightarrow> (page \<Rightarrow> page) \<Rightarrow> vm \<Rightarrow> vm" where
  "upd_tab t i f s = s\<lparr>tabs := (tabs s)(t := (tabs s t)(i := f (tabs s t i)))\<rparr>"

text \<open>\<^verbatim>\<open>bzero\<close> of \<open>n\<close> pages, one page after the other.\<close>

fun bzero_pages :: "u32 \<Rightarrow> nat \<Rightarrow> vm \<Rightarrow> vm outcome" where
  "bzero_pages v 0 s = Ret s"
| "bzero_pages v (Suc n) s =
     (case deref s v of
        None \<Rightarrow> Fault
      | Some p \<Rightarrow> bzero_pages (v + PAGE_SIZE) n
          (s\<lparr>tabs := (tabs s)(p := (\<lambda>_. zero_page)), pmem := (\<lambda>a. if a AND NOT 0xfff = p then 0 else pmem s a)\<rparr>))"

section \<open>Ranges\<close>

text \<open>Zero is \<^verbatim>\<open>NULL\<close>.\<close>

definition new_range :: "vm \<Rightarrow> (u32 \<times> vm) outcome" where
  "new_range s =
     (if \<not> kmalloc_ready s
      then if have_malloc_ranges s \<noteq> 0
           then Ret (malloc_ranges s (50 - have_malloc_ranges s), s\<lparr>have_malloc_ranges := have_malloc_ranges s - 1\<rparr>)
           else Panic
      else case range_addrs s of [] \<Rightarrow> Ret (0, s) | a # as \<Rightarrow> Ret (a, s\<lparr>range_addrs := as\<rparr>))"

definition insert_range :: "u32 \<Rightarrow> vm_range \<Rightarrow> vm \<Rightarrow> vm" where
  "insert_range ctx r = upd_ctx ctx (\<lambda>c. c\<lparr>vc_ranges := r # vc_ranges c\<rparr>)"

text \<open>The range of a context that contains an address; addresses are compared without wrap-around of \<^verbatim>\<open>start + size\<close> being excluded.\<close>

definition in_range :: "bool \<Rightarrow> u32 \<Rightarrow> vm_range \<Rightarrow> bool" where
  "in_range phys addr r = (let start = (if phys then vr_phys r else vr_addr r) in start \<le> addr \<and> addr < start + vr_size r)"

definition get_range :: "vm_ctx \<Rightarrow> u32 \<Rightarrow> bool \<Rightarrow> vm_range option" where
  "get_range c addr phys =
     (if \<not> phys \<and> bitmap_get (vc_bitmap c) (addr div PAGE_SIZE) = 0 then None
      else find (in_range phys addr) (vc_ranges c))"

fun dup_check :: "bitmap \<Rightarrow> u32 \<Rightarrow> nat \<Rightarrow> bool" where
  "dup_check bm page_num 0 \<longleftrightarrow> False"
| "dup_check bm page_num (Suc n) \<longleftrightarrow> bitmap_get bm page_num \<noteq> 0 \<or> dup_check bm (page_num + 1) n"

definition alloc_virt :: "vm_ctx \<Rightarrow> u32 \<Rightarrow> u32 \<Rightarrow> bool \<Rightarrow> u32 \<times> vm_ctx" where
  "alloc_virt c sz request fixed =
     (let virt = ALIGN_DOWN request PAGE_SIZE; page_num = virt div PAGE_SIZE in
      if request \<noteq> 0 \<and> fixed
      then if dup_check (vc_bitmap c) page_num (unat sz) then (0, c)
           else (virt, c\<lparr>vc_bitmap := bitmap_set (vc_bitmap c) page_num sz\<rparr>)
      else let (page_num, bm) = bitmap_find (vc_bitmap c) page_num sz in
           if page_num = - 1 then (0, c\<lparr>vc_bitmap := bm\<rparr>)
           else (page_num * PAGE_SIZE, c\<lparr>vc_bitmap := bitmap_set bm page_num sz\<rparr>))"

definition vm_get :: "u32 \<Rightarrow> u32 \<Rightarrow> bool \<Rightarrow> vm \<Rightarrow> vm_range option outcome" where
  "vm_get ctx addr phys s = acquire (vc_lock (ctxs s ctx)) (Ret (get_range (ctxs s ctx) addr phys))"

definition valloc_translate :: "u32 \<Rightarrow> u32 \<Rightarrow> bool \<Rightarrow> vm \<Rightarrow> u32 outcome" where
  "valloc_translate ctx raddress phys s =
     obind (vm_get ctx raddress phys s) (\<lambda>r. Ret (case r of
        None \<Rightarrow> 0
      | Some r \<Rightarrow> (if phys then vr_addr r else vr_phys r) + (raddress - (if phys then vr_phys r else vr_addr r))))"

section \<open>Page tables\<close>

text \<open>The table that a present directory entry refers to, as a pointer of the kernel.\<close>

definition table_ptr :: "page \<Rightarrow> vm \<Rightarrow> u32 outcome" where
  "table_ptr pde s =
     (let phys_table = frame_addr (pg_frame pde) in
      if phys_table < paging_alloc_end s then Ret phys_table
      else valloc_translate (VM_KERNEL s) phys_table True s)"

text \<open>
  One round of the loops of \<^verbatim>\<open>paging_set_range\<close> and \<^verbatim>\<open>paging_clear_range\<close>. \<open>alloc\<close> allocates a table and returns its virtual and its physical
  address; the code goes on with an uninitialised structure when that fails.
\<close>

type_synonym table_allocator = "vm \<Rightarrow> (vm_range option \<times> vm) outcome"

definition set_entry :: "u32 \<Rightarrow> nat \<Rightarrow> (page \<Rightarrow> page) \<Rightarrow> vm \<Rightarrow> vm outcome" where
  "set_entry ptr i f s = (case deref s ptr of None \<Rightarrow> Fault | Some t \<Rightarrow> Ret (upd_tab t i f s))"

definition paging_set_page :: "table_allocator \<Rightarrow> u32 \<Rightarrow> u32 \<Rightarrow> u32 \<Rightarrow> u32 \<Rightarrow> vm \<Rightarrow> vm outcome" where
  "paging_set_page alloc ctx virt phys flags s =
     (case deref s ctx of
        None \<Rightarrow> Fault
      | Some d \<Rightarrow>
          obind (if \<not> pg_present (tabs s d (dir_index virt))
                 then obind (alloc s) (\<lambda>(r, s). case r of
                          None \<Rightarrow> Fault
                        | Some r \<Rightarrow>
                            obind (set_entry ctx (dir_index virt)
                              (\<lambda>e. e\<lparr>pg_present := True, pg_rw := True, pg_user := True, pg_frame := drop_bit 12 (vr_phys r)\<rparr>) s)
                              (\<lambda>s. Ret (vr_addr r, s)))
                 else obind (table_ptr (tabs s d (dir_index virt)) s) (\<lambda>p. Ret (p, s)))
            (\<lambda>(page_table, s).
               set_entry page_table (tab_index virt)
                 (\<lambda>e. e\<lparr>pg_present := True, pg_rw := (flags AND VM_RW \<noteq> 0), pg_user := (flags AND VM_USER \<noteq> 0), pg_frame := drop_bit 12 phys\<rparr>) s))"

definition paging_clear_page :: "u32 \<Rightarrow> u32 \<Rightarrow> vm \<Rightarrow> vm outcome" where
  "paging_clear_page ctx virt s =
     (case deref s ctx of
        None \<Rightarrow> Fault
      | Some d \<Rightarrow>
          let pde = tabs s d (dir_index virt) in
          if \<not> pg_present pde then Ret s
          else obind (table_ptr pde s) (\<lambda>page_table.
                 set_entry page_table (tab_index virt) (\<lambda>e. e\<lparr>pg_present := False\<rparr>) s))"

fun set_pages :: "table_allocator \<Rightarrow> u32 \<Rightarrow> u32 \<Rightarrow> u32 \<Rightarrow> u32 \<Rightarrow> nat \<Rightarrow> vm \<Rightarrow> vm outcome" where
  "set_pages alloc ctx virt phys flags 0 s = Ret s"
| "set_pages alloc ctx virt phys flags (Suc n) s =
     obind (paging_set_page alloc ctx virt phys flags s) (set_pages alloc ctx (virt + PAGE_SIZE) (phys + PAGE_SIZE) flags n)"

fun clear_pages :: "u32 \<Rightarrow> u32 \<Rightarrow> nat \<Rightarrow> vm \<Rightarrow> vm outcome" where
  "clear_pages ctx virt 0 s = Ret s"
| "clear_pages ctx virt (Suc n) s = obind (paging_clear_page ctx virt s) (clear_pages ctx (virt + PAGE_SIZE) n)"

text \<open>
  The number of rounds of a loop \<^verbatim>\<open>for(off = 0; off < size; off += PAGE_SIZE)\<close>. With a size above \<^verbatim>\<open>0xfffff000\<close> the offset wraps around to
  zero and the loop does not end.
\<close>

definition page_rounds :: "u32 \<Rightarrow> nat" where
  "page_rounds sz = (unat sz + 4095) div 4096"

definition paging_set_range :: "table_allocator \<Rightarrow> u32 \<Rightarrow> u32 \<Rightarrow> u32 \<Rightarrow> u32 \<Rightarrow> u32 \<Rightarrow> vm \<Rightarrow> vm outcome" where
  "paging_set_range alloc ctx virt phys sz flags s =
     (if 0xfffff000 < sz then Spin else set_pages alloc ctx virt phys flags (page_rounds sz) s)"

definition paging_clear_range :: "u32 \<Rightarrow> u32 \<Rightarrow> u32 \<Rightarrow> vm \<Rightarrow> vm outcome" where
  "paging_clear_range ctx virt sz s = (if 0xfffff000 < sz then Spin else clear_pages ctx virt (page_rounds sz) s)"

section \<open>Allocation\<close>

text \<open>
  Physical pages and page table entries for a new range; zero is \<^verbatim>\<open>NULL\<close>. A range of another context is zeroed through a temporary mapping in the
  kernel's context, of which only \<open>RDIV sz PAGE_SIZE\<close> pages are released although \<open>sz\<close> counts pages.
\<close>

definition zero_range :: "table_allocator \<Rightarrow> u32 \<Rightarrow> u32 \<Rightarrow> u32 \<Rightarrow> u32 \<Rightarrow> vm \<Rightarrow> (u32 \<times> vm) outcome" where
  "zero_range alloc ctx sz virt phys s =
     (if ctx = VM_KERNEL s then obind (bzero_pages virt (unat sz) s) (\<lambda>s. Ret (phys, s))
      else acquire (vc_lock (ctxs s (VM_KERNEL s)))
        (let (zero_addr, c) = alloc_virt (ctxs s (VM_KERNEL s)) sz 0 False;
             s = upd_ctx (VM_KERNEL s) (\<lambda>_. c) s in
         if zero_addr = 0 then Ret (0, s)
         else obind (paging_set_range alloc (vc_page_dir (ctxs s (VM_KERNEL s))) zero_addr phys (sz * PAGE_SIZE) VM_RW s) (\<lambda>s.
              obind (bzero_pages zero_addr (unat sz) s) (\<lambda>s.
              obind (paging_clear_range (vc_page_dir (ctxs s (VM_KERNEL s))) zero_addr (sz * PAGE_SIZE) s) (\<lambda>s.
              Ret (phys, upd_ctx (VM_KERNEL s) (\<lambda>c. c\<lparr>vc_bitmap := bitmap_clear (vc_bitmap c) (zero_addr div PAGE_SIZE) (RDIV sz PAGE_SIZE)\<rparr>) s))))))"

definition setup_phys :: "table_allocator \<Rightarrow> u32 \<Rightarrow> u32 \<Rightarrow> u32 \<Rightarrow> u32 \<Rightarrow> u32 \<Rightarrow> vm \<Rightarrow> (u32 \<times> vm) outcome" where
  "setup_phys alloc ctx sz virt phys flags s =
     obind (if phys = 0
            then obind (mem_page_alloc (phys_alloc s) sz) (\<lambda>(p, pc). Ret (p, s\<lparr>phys_alloc := pc\<rparr>))
            else Ret (phys, s))
       (\<lambda>(phys, s).
          if phys = 0 then Ret (0, s)
          else obind (if vc_page_dir (ctxs s ctx) \<noteq> 0
                      then paging_set_range alloc (vc_page_dir (ctxs s ctx)) virt phys (sz * PAGE_SIZE) flags s else Ret s)
            (\<lambda>s. if flags AND VM_ZERO \<noteq> 0 then zero_range alloc ctx sz virt phys s else Ret (phys, s)))"

definition mk_range :: "u32 \<Rightarrow> u32 \<Rightarrow> u32 \<Rightarrow> u32 \<Rightarrow> u32 \<Rightarrow> u32 \<Rightarrow> vm_range" where
  "mk_range self ctx virt phys sz flags =
     \<lparr>vr_self = self, vr_ctx = ctx, vr_addr = virt, vr_size = sz * PAGE_SIZE, vr_flags = CLEANUP_FLAGS flags, vr_shards = [], vr_phys = phys\<rparr>"

text \<open>
  The result is the address (zero on failure) and the structure copied to \<^verbatim>\<open>vmem\<close>. The result of \<^verbatim>\<open>setup_phys\<close> is not
  checked, and when there is no memory for the range the lock is not released.
\<close>

definition vm_alloc_at :: "table_allocator \<Rightarrow> u32 \<Rightarrow> u32 \<Rightarrow> u32 \<Rightarrow> u32 \<Rightarrow> u32 \<Rightarrow> vm \<Rightarrow> (u32 \<times> vm_range option \<times> vm) outcome" where
  "vm_alloc_at alloc ctx sz virt_request phys flags s =
     acquire (vc_lock (ctxs s ctx))
       (let (virt, c) = alloc_virt (ctxs s ctx) sz virt_request (flags AND VM_FIXED \<noteq> 0); s = upd_ctx ctx (\<lambda>_. c) s in
        if virt = 0 then Ret (0, None, s)
        else obind (setup_phys alloc ctx sz virt phys flags s) (\<lambda>(phys, s).
             acquire (vc_lock (ctxs s ctx))
               (obind (new_range s) (\<lambda>(self, s).
                  if self = 0 then Ret (0, None, upd_ctx ctx (\<lambda>c. c\<lparr>vc_lock := True\<rparr>) s)
                  else let r = mk_range self ctx virt phys sz flags in Ret (virt, Some r, insert_range ctx r s)))))"

text \<open>\<^verbatim>\<open>vm_alloc(VM_KERNEL, &page_table_alloc, 1, NULL, VM_RW | VM_ZERO)\<close>; running out of \<open>n\<close> is an endless recursion.\<close>

primrec table_alloc :: "nat \<Rightarrow> table_allocator" where
  "table_alloc 0 s = Spin"
| "table_alloc (Suc n) s =
     obind (vm_alloc_at (table_alloc n) (VM_KERNEL s) 1 0 0 (VM_RW OR VM_ZERO) s) (\<lambda>(_, r, s). Ret (r, s))"

section \<open>Allocation in several contexts\<close>

fun lock_all :: "u32 list \<Rightarrow> vm \<Rightarrow> vm outcome" where
  "lock_all [] s = Ret s"
| "lock_all (c # cs) s = acquire (vc_lock (ctxs s c)) (lock_all cs (upd_ctx c (\<lambda>c. c\<lparr>vc_lock := True\<rparr>) s))"

fun release_all :: "u32 list \<Rightarrow> vm \<Rightarrow> vm" where
  "release_all [] s = s"
| "release_all (c # cs) s = release_all cs (upd_ctx c (\<lambda>c. c\<lparr>vc_lock := False\<rparr>) s)"

text \<open>
  The search for pages that are free in all contexts: \<open>bm\<close> is the bitmap of the first one, whose hint the search updates, \<open>bms\<close> are the others.
  \<open>None\<close>: the search does not end.
\<close>

partial_function (option) many_search :: "bitmap \<Rightarrow> bitmap list \<Rightarrow> u32 \<Rightarrow> u32 \<Rightarrow> (u32 \<times> bitmap) option" where
  "many_search bm bms page_num sz =
     (let (page_num, bm) = bitmap_find bm page_num sz in
      if page_num = - 1 then Some (page_num, bm)
      else if list_all (\<lambda>b. bitmap_get_range b page_num sz = 0) bms then Some (page_num, bm)
      else many_search bm bms (page_num + 1) sz)"

text \<open>The second loop. \<open>rest\<close> are all contexts, whose locks are released on failure.\<close>

fun many_setup ::
    "table_allocator \<Rightarrow> u32 list \<Rightarrow> (u32 \<times> u32) list \<Rightarrow> u32 \<Rightarrow> u32 \<Rightarrow> u32 \<Rightarrow> vm_range list \<Rightarrow> vm \<Rightarrow> (u32 \<times> vm_range list \<times> vm) outcome" where
  "many_setup alloc all [] page_num sz phys rs s = Ret (page_num * PAGE_SIZE, rev rs, s)"
| "many_setup alloc all ((c, flags) # todo) page_num sz phys rs s =
     (let s = upd_ctx c (\<lambda>c. c\<lparr>vc_bitmap := bitmap_set (vc_bitmap c) page_num sz\<rparr>) s in
      obind (setup_phys alloc c sz (page_num * PAGE_SIZE) phys flags s) (\<lambda>(phys, s).
      obind (new_range s) (\<lambda>(self, s).
        if self = 0 then Ret (0, rev rs, release_all all s)
        else let r = mk_range self c (page_num * PAGE_SIZE) phys sz flags in
             many_setup alloc all todo page_num sz phys (r # rs) (upd_ctx c (\<lambda>c. c\<lparr>vc_lock := False\<rparr>) (insert_range c r s)))))"

definition vm_alloc_many ::
    "table_allocator \<Rightarrow> (u32 \<times> u32) list \<Rightarrow> u32 \<Rightarrow> u32 \<Rightarrow> vm \<Rightarrow> (u32 \<times> vm_range list \<times> vm) outcome" where
  "vm_alloc_many alloc reqs sz phys s =
     obind (lock_all (map fst reqs) s) (\<lambda>s.
       case map fst reqs of
         [] \<Rightarrow> Fault
       | c # cs \<Rightarrow>
           (case many_search (vc_bitmap (ctxs s c)) (map (\<lambda>c. vc_bitmap (ctxs s c)) cs) 0 sz of
              None \<Rightarrow> Spin
            | Some (page_num, bm) \<Rightarrow>
                let s = upd_ctx c (\<lambda>c. c\<lparr>vc_bitmap := bm\<rparr>) s in
                if page_num = - 1 then Ret (0, [], release_all (map fst reqs) s)
                else many_setup alloc (map fst reqs) reqs page_num sz phys [] s))"

section \<open>Freeing\<close>

text \<open>\<^verbatim>\<open>pfree\<close> is defined as nothing, so physical pages stay allocated. A structure that is not in the list was freed before.\<close>

definition vm_free :: "vm_range \<Rightarrow> vm \<Rightarrow> vm outcome" where
  "vm_free r s =
     (let ctx = vr_ctx r in
      acquire (vc_lock (ctxs s ctx))
        (case find (\<lambda>x. vr_self x = vr_self r) (vc_ranges (ctxs s ctx)) of
           None \<Rightarrow> Fault
         | Some r \<Rightarrow>
             paging_clear_range (vc_page_dir (ctxs s ctx)) (vr_addr r) (vr_size r)
               (upd_ctx ctx (\<lambda>c. c\<lparr>vc_ranges := filter (\<lambda>x. vr_self x \<noteq> vr_self r) (vc_ranges c),
                   vc_bitmap := bitmap_clear (vc_bitmap c) (vr_addr r div PAGE_SIZE) (RDIV (vr_size r) PAGE_SIZE)\<rparr>) s)))"

section \<open>Mapping between contexts\<close>

text \<open>
  The loop maps one page per round. \<open>shards\<close> collects the shards of the range \<open>self\<close>. \<open>Ret (False, _)\<close> is a return of \<^verbatim>\<open>NULL\<close>; the range is in the
  list already.
\<close>

definition add_shard :: "u32 \<Rightarrow> u32 \<Rightarrow> u32 \<times> u32 \<Rightarrow> vm \<Rightarrow> vm" where
  "add_shard ctx self sh = upd_ctx ctx (\<lambda>c. c\<lparr>vc_ranges := map (\<lambda>r. if vr_self r = self then r\<lparr>vr_shards := sh # vr_shards r\<rparr> else r) (vc_ranges c)\<rparr>)"

fun map_loop ::
    "table_allocator \<Rightarrow> u32 \<Rightarrow> u32 \<Rightarrow> u32 \<Rightarrow> u32 \<Rightarrow> u32 \<Rightarrow> u32 \<Rightarrow> u32 \<Rightarrow> nat \<Rightarrow> vm \<Rightarrow> (bool \<times> vm) outcome" where
  "map_loop alloc ctx self virt src_ctx src_addr flags off 0 s = Ret (True, s)"
| "map_loop alloc ctx self virt src_ctx src_addr flags off (Suc n) s =
     (case get_range (ctxs s src_ctx) (ALIGN_DOWN src_addr PAGE_SIZE + off) False of
        None \<Rightarrow> Ret (off \<noteq> 0 \<and> flags AND VM_MAP_LESS_OK \<noteq> 0, s)
      | Some r \<Rightarrow>
          if vr_phys r = 0 then Panic
          else if flags AND VM_MAP_USER_ONLY \<noteq> 0 \<and> vr_flags r AND VM_USER = 0 then Ret (False, s)
          else let phys = vr_phys r + ALIGN_DOWN (src_addr - vr_addr r) PAGE_SIZE + off;
                   s = add_shard ctx self (virt + off, phys) s in
               obind (paging_set_range alloc (vc_page_dir (ctxs s ctx)) (virt + off) phys PAGE_SIZE flags s)
                 (map_loop alloc ctx self virt src_ctx src_addr flags (off + PAGE_SIZE) n))"

text \<open>
  A loop with \<^verbatim>\<open>do ... while(pages_mapped < size_pages)\<close> runs at least once. The locks of both contexts are taken one after the other, so that
  mapping within one context never returns; when there is no memory for the range, both stay locked.
\<close>

definition vm_map ::
    "table_allocator \<Rightarrow> u32 \<Rightarrow> u32 \<Rightarrow> u32 \<Rightarrow> u32 \<Rightarrow> u32 \<Rightarrow> vm \<Rightarrow> (u32 \<times> vm_range option \<times> vm) outcome" where
  "vm_map alloc ctx src_ctx src_addr sz flags s =
     (if ALIGN_DOWN src_addr PAGE_SIZE = 0 then Ret (0, None, s)
      else acquire (vc_lock (ctxs s ctx) \<or> vc_lock (ctxs s src_ctx) \<or> ctx = src_ctx)
        (let src_offset = src_addr mod PAGE_SIZE;
             size_pages = RDIV (sz + src_offset) PAGE_SIZE;
             (virt, c) = alloc_virt (ctxs s ctx) size_pages 0 False;
             s = upd_ctx ctx (\<lambda>_. c) s in
         if virt = 0 then Ret (0, None, s)
         else obind (new_range s) (\<lambda>(self, s).
           if self = 0
           then Ret (0, None, upd_ctx src_ctx (\<lambda>c. c\<lparr>vc_lock := True\<rparr>) (upd_ctx ctx (\<lambda>c. c\<lparr>vc_lock := True\<rparr>) s))
           else let s = insert_range ctx (mk_range self ctx virt 0 size_pages flags) s in
                obind (map_loop alloc ctx self virt src_ctx src_addr flags 0 (max 1 (unat size_pages)) s) (\<lambda>(ok, s).
                  if ok then Ret (virt + src_offset, find (\<lambda>r. vr_self r = self) (vc_ranges (ctxs s ctx)), s)
                  else Ret (0, None, s)))))"

section \<open>Copying\<close>

fun kmemcpy :: "u32 \<Rightarrow> u32 \<Rightarrow> nat \<Rightarrow> vm \<Rightarrow> vm outcome" where
  "kmemcpy d v 0 s = Ret s"
| "kmemcpy d v (Suc n) s =
     (case (deref s d, deref s v) of
        (Some p, Some q) \<Rightarrow> kmemcpy (d + 1) (v + 1) n (s\<lparr>pmem := (pmem s)(p := pmem s q)\<rparr>)
      | _ \<Rightarrow> Fault)"

fun kbzero :: "u32 \<Rightarrow> nat \<Rightarrow> vm \<Rightarrow> vm outcome" where
  "kbzero d 0 s = Ret s"
| "kbzero d (Suc n) s = (case deref s d of Some p \<Rightarrow> kbzero (d + 1) n (s\<lparr>pmem := (pmem s)(p := 0)\<rparr>) | None \<Rightarrow> Fault)"

text \<open>
  The copy is made in a temporary range of the kernel, whose physical pages the new range takes over. The bytes behind a size that is not a whole number
  of pages would be zeroed at \<open>size - PAGE_SIZE + mod\<close>, which is inside of the copy; ranges have whole pages.
\<close>

definition copy_finish ::
    "table_allocator \<Rightarrow> u32 \<Rightarrow> u32 \<Rightarrow> vm_range \<Rightarrow> vm_range option \<Rightarrow> u32 \<Rightarrow> vm_range \<Rightarrow> u32 \<Rightarrow> vm \<Rightarrow> (int \<times> vm_range option \<times> vm) outcome" where
  "copy_finish alloc dest_ctx dest_addr kernel_dest kernel_src src_ptr src flags s =
     obind (kmemcpy (vr_addr kernel_dest) src_ptr (unat (vr_size src)) s) (\<lambda>s.
     obind (case kernel_src of None \<Rightarrow> Ret s | Some ks \<Rightarrow> vm_free ks s) (\<lambda>s.
     obind (let md = vr_size src mod PAGE_SIZE in
            if md \<noteq> 0 then kbzero (vr_addr kernel_dest + vr_size src - PAGE_SIZE + md) (unat (PAGE_SIZE - md)) s else Ret s) (\<lambda>s.
     obind (vm_free kernel_dest s) (\<lambda>s.
     obind (vm_alloc_at alloc dest_ctx (RDIV (vr_size src) PAGE_SIZE) dest_addr (vr_phys kernel_dest)
              (if dest_addr \<noteq> 0 then flags OR VM_FIXED else flags) s) (\<lambda>(a, r, s).
     Ret (if a = 0 then - 1 else 0, r, s))))))"

definition vm_copy ::
    "table_allocator \<Rightarrow> u32 \<Rightarrow> u32 \<Rightarrow> vm_range \<Rightarrow> u32 \<Rightarrow> vm \<Rightarrow> (int \<times> vm_range option \<times> vm) outcome" where
  "vm_copy alloc dest_ctx dest_addr src flags s =
     (if vr_shards src \<noteq> [] then Panic
      else obind (vm_alloc_at alloc (VM_KERNEL s) (RDIV (vr_size src) PAGE_SIZE) 0 0 VM_RW s) (\<lambda>(_, kd, s).
        case kd of
          None \<Rightarrow> Ret (- 1, None, s)
        | Some kd \<Rightarrow>
            if vr_ctx src \<noteq> VM_KERNEL s
            then obind (vm_map alloc (VM_KERNEL s) (vr_ctx src) (vr_addr src) (vr_size src) 0 s) (\<lambda>(src_ptr, ks, s).
                   if src_ptr = 0 then Ret (- 1, None, s) else copy_finish alloc dest_ctx dest_addr kd ks src_ptr src flags s)
            else copy_finish alloc dest_ctx dest_addr kd None (vr_addr src) src flags s))"

fun clone_loop :: "table_allocator \<Rightarrow> u32 \<Rightarrow> vm_range list \<Rightarrow> vm \<Rightarrow> (int \<times> vm) outcome" where
  "clone_loop alloc dest [] s = Ret (0, s)"
| "clone_loop alloc dest (r # rs) s =
     (if vr_flags r AND VM_TFORK = 0 then clone_loop alloc dest rs s
      else obind (vm_copy alloc dest (vr_addr r) r (vr_flags r) s) (\<lambda>(res, _, s).
             if res \<noteq> 0 then Ret (- 1, s) else clone_loop alloc dest rs s))"

definition vm_clone :: "table_allocator \<Rightarrow> u32 \<Rightarrow> u32 \<Rightarrow> vm \<Rightarrow> (int \<times> vm) outcome" where
  "vm_clone alloc dest src s = clone_loop alloc dest (vc_ranges (ctxs s src)) s"

section \<open>Contexts\<close>

definition vm_new :: "u32 \<Rightarrow> u32 \<Rightarrow> vm \<Rightarrow> vm" where
  "vm_new ctx page_dir = upd_ctx ctx (\<lambda>c.
     let bm = bitmap_clear_all ((vc_bitmap c)\<lparr>bm_size := PAGE_ALLOC_BITMAP_SIZE\<rparr>) in
     \<lparr>vc_lock = False, vc_bitmap = bitmap_set (bitmap_set bm 0 1) 0 1, vc_ranges = [], vc_page_dir = page_dir, vc_page_dir_phys = page_dir\<rparr>)"

text \<open>Only reads the entries, because \<^verbatim>\<open>pfree\<close> does nothing.\<close>

definition paging_rm_context :: "u32 \<Rightarrow> vm \<Rightarrow> unit outcome" where
  "paging_rm_context ctx s = (case deref s ctx of None \<Rightarrow> Fault | Some _ \<Rightarrow> Ret ())"

text \<open>The result are the structures that are freed; the list of the context still refers to them.\<close>

definition vm_cleanup :: "u32 \<Rightarrow> vm \<Rightarrow> u32 list outcome" where
  "vm_cleanup ctx s =
     obind (if vc_page_dir (ctxs s ctx) \<noteq> 0 then paging_rm_context (vc_page_dir (ctxs s ctx)) s else Ret ())
       (\<lambda>_. Ret (map vr_self (vc_ranges (ctxs s ctx))))"

fun pagedir_loop :: "table_allocator \<Rightarrow> u32 \<Rightarrow> vm_range list \<Rightarrow> vm \<Rightarrow> vm outcome" where
  "pagedir_loop alloc dir [] s = Ret s"
| "pagedir_loop alloc dir (r # rs) s =
     obind (paging_set_range alloc dir (vr_addr r) (vr_phys r) (vr_size r) (vr_flags r) s) (pagedir_loop alloc dir rs)"

definition vm_pagedir :: "table_allocator \<Rightarrow> u32 \<Rightarrow> vm \<Rightarrow> (u32 \<times> vm) outcome" where
  "vm_pagedir alloc ctx s =
     (if vc_page_dir (ctxs s ctx) \<noteq> 0 then Ret (vc_page_dir_phys (ctxs s ctx), s)
      else obind (vm_alloc_at alloc (VM_KERNEL s) 1 0 0 (VM_RW OR VM_ZERO) s) (\<lambda>(_, r, s).
        case r of
          None \<Rightarrow> Ret (0, s)
        | Some r \<Rightarrow>
            let s = upd_ctx ctx (\<lambda>c. c\<lparr>vc_page_dir := vr_addr r, vc_page_dir_phys := vr_phys r\<rparr>) s in
            obind (pagedir_loop alloc (vr_addr r) (vc_ranges (ctxs s ctx)) s) (\<lambda>s. Ret (vr_phys r, s))))"

definition vm_stats :: "u32 \<Rightarrow> vm \<Rightarrow> u32 \<times> u32" where
  "vm_stats ctx s = (bm_size (vc_bitmap (ctxs s ctx)) * PAGE_SIZE, bitmap_count (vc_bitmap (ctxs s ctx)) * PAGE_SIZE)"

section \<open>Initialisation\<close>

text \<open>The directory at \<open>dir\<close> and its 1024 tables behind it, the \<open>i\<close>-th one at \<open>dir + (i + 1) * PAGE_SIZE\<close>.\<close>

definition early_tables :: "u32 \<Rightarrow> vm \<Rightarrow> vm" where
  "early_tables dir s = s\<lparr>tabs := (\<lambda>t.
      if t = dir
      then (\<lambda>i. if i < 1024 then \<lparr>pg_present = True, pg_rw = True, pg_user = False, pg_frame = drop_bit 12 (dir + PAGE_SIZE + of_nat i * PAGE_SIZE)\<rparr>
                else tabs s t i)
      else if \<exists>i < 1024. t = dir + PAGE_SIZE + of_nat i * PAGE_SIZE then (\<lambda>_. zero_page)
      else tabs s t),
    paging_alloc_end := dir + PAGE_SIZE + 1024 * PAGE_SIZE, paging_kernel_ctx := dir\<rparr>"

definition paging_init :: "table_allocator \<Rightarrow> u32 \<Rightarrow> u32 \<Rightarrow> vm \<Rightarrow> vm outcome" where
  "paging_init alloc KERNEL_START KERNEL_END s =
     (let dir = ALIGN KERNEL_END PAGE_SIZE;
          s = early_tables dir s;
          s = vm_new (VM_KERNEL s) dir s;
          kernel_pages = RDIV (paging_alloc_end s - KERNEL_START) PAGE_SIZE in
      obind (vm_alloc_at alloc (VM_KERNEL s) kernel_pages KERNEL_START KERNEL_START (VM_RW OR VM_FIXED) s) (\<lambda>(virt, _, s).
        if virt = 0 then Panic else Ret (s\<lparr>paging_on := True\<rparr>)))"

end
