(* ===== verification/Vm_Props.thy ===== *)
theory Vm_Props
  imports Vm
begin

text \<open>
  What virtual memory promises: the ranges of a context never overlap, whatever is allocated, mapped and freed, and a mapping made by
  \<^verbatim>\<open>vm_map\<close> reaches exactly the physical memory of its source.
\<close>

section \<open>Pages\<close>

lemma unat_div_page: "unat (v div PAGE_SIZE) = unat v div 4096"
  by (simp add: unat_div_u32 PAGE_SIZE_def)

lemma unat_align_down: "unat (ALIGN_DOWN v PAGE_SIZE) = unat v - unat v mod 4096"
  using unat_ALIGN_DOWN [of PAGE_SIZE 12 v] by (simp add: PAGE_SIZE_def mask_eq_exp_minus_1)

lemma unat_page_addr: "unat n < 2 ^ 20 \<Longrightarrow> unat (n * PAGE_SIZE) = unat n * 4096"
  by (rule pages_address)

section \<open>Finding virtual addresses\<close>

text \<open>
  The bitmap of a context: the search looks at one word behind the last one, and this word has to read as used, as does the page of
  \<^verbatim>\<open>NULL\<close>.
\<close>

definition bm_ok :: "bitmap \<Rightarrow> bool" where
  "bm_ok bm \<longleftrightarrow> bm_size bm = PAGE_ALLOC_BITMAP_SIZE \<and> bitmap_bit bm 0 \<and> (\<forall>k < 32. bitmap_bit bm (2 ^ 20 + k))"

lemma run_inside:
  assumes "bm_ok bm" "free_run bm p n" "0 < n" "p < 2 ^ 20 + 32"
  shows "0 < p \<and> p + n \<le> 2 ^ 20"
proof -
  have f: "\<not> bitmap_bit bm (p + k)" if "k < n" for k using assms(2) that by (simp add: free_run_def)
  have "p \<noteq> 0"
  proof
    assume "p = 0"
    then show False using f [of 0] assms(1,3) by (simp add: bm_ok_def)
  qed
  moreover have "p < 2 ^ 20"
  proof (rule ccontr)
    assume "\<not> p < 2 ^ 20"
    then obtain k where "p = 2 ^ 20 + k" by (metis le_Suc_ex not_less)
    then show False using f [of 0] assms(1,3,4) by (auto simp: bm_ok_def)
  qed
  moreover have "p + n \<le> 2 ^ 20"
  proof (rule ccontr)
    assume "\<not> p + n \<le> 2 ^ 20"
    then have "\<not> bitmap_bit bm (p + (2 ^ 20 - p))" using \<open>p < 2 ^ 20\<close> by (intro f) linarith
    then show False using \<open>p < 2 ^ 20\<close> assms(1) by (auto simp: bm_ok_def dest: spec [of _ 0])
  qed
  ultimately show ?thesis by simp
qed

lemma dup_check_run:
  "unat p + n < 2 ^ 32 \<Longrightarrow> \<not> dup_check bm p n \<longleftrightarrow> free_run bm (unat p) n"
proof (induction n arbitrary: p)
  case 0
  then show ?case by (simp add: free_run_def)
next
  case (Suc n)
  have u: "unat (p + 1) = unat p + 1" using Suc.prems by (subst unat_add_u32) simp_all
  have "free_run bm (unat p) (Suc n) \<longleftrightarrow> \<not> bitmap_bit bm (unat p) \<and> free_run bm (unat p + 1) n"
    by (auto simp: free_run_def less_Suc_eq_0_disj)
  then show ?case using Suc.IH [of "p + 1"] Suc.prems by (simp add: u bitmap_get_bit [symmetric])
qed

lemma bitmap_find_inside:
  assumes "bm_ok bm" "0 < sz" "bitmap_find bm start sz = (num, bm')" "num \<noteq> - 1"
  shows "free_run bm (unat num) (unat sz) \<and> 0 < unat num \<and> unat num + unat sz \<le> 2 ^ 20"
proof -
  have sz: "unat (bm_size bm) \<le> 2 ^ 20" using assms(1) by (simp add: bm_ok_def PAGE_ALLOC_BITMAP_SIZE_def PAGE_SIZE_def)
  then have "unat (bm_size bm + 8 * 4 - 1) \<le> 2 ^ 20 + 31"
    using unat_add_u32 [of "bm_size bm" 31] by (simp add: add_diff_eq [symmetric])
  then have hi: "32 * unat (bitmap_size (bm_size bm)) + 32 \<le> 2 ^ 20 + 32" by (simp add: bitmap_size_def unat_div_u32)
  have "find_result bm (find_start bm start) sz num" using bitmap_find_result [OF assms(2), of bm start] assms(3) sz by simp
  then have "free_run bm (unat num) (unat sz)" "unat num < 2 ^ 20 + 32"
    using assms(4) hi by (auto simp: find_result_def found_in_def first_run_def Let_def)
  moreover have "0 < unat sz" using assms(2) by (simp add: u32_less_nat)
  ultimately show ?thesis using run_inside [OF assms(1)] by blast
qed

text \<open>The context after \<open>sz\<close> pages from page \<open>p\<close> on are reserved; only the bitmap differs.\<close>

definition reserves :: "vm_ctx \<Rightarrow> vm_ctx \<Rightarrow> nat \<Rightarrow> nat \<Rightarrow> bool" where
  "reserves c c' p n \<longleftrightarrow>
     (\<exists>bm. c' = c\<lparr>vc_bitmap := bm\<rparr> \<and> bm_size bm = bm_size (vc_bitmap c) \<and>
       (\<forall>k. bitmap_bit bm k \<longleftrightarrow> p \<le> k \<and> k < p + n \<or> bitmap_bit (vc_bitmap c) k))"

lemma reserves_none: "reserves c c 0 0"
  unfolding reserves_def by (rule exI [of _ "vc_bitmap c"]) simp

lemma alloc_virt_fresh:
  assumes ok: "bm_ok (vc_bitmap c)" and sz: "0 < sz" "unat sz \<le> 2 ^ 20" and a: "alloc_virt c sz req fixed = (virt, c')"
  shows "virt = 0 \<and> reserves c c' 0 0 \<or>
    (\<exists>p. virt = of_nat (4096 * p) \<and> 0 < p \<and> p + unat sz \<le> 2 ^ 20 \<and> free_run (vc_bitmap c) p (unat sz) \<and> reserves c c' p (unat sz))"
proof (cases "req \<noteq> 0 \<and> fixed")
  case True
  let ?v = "ALIGN_DOWN req PAGE_SIZE" and ?p = "unat req div 4096"
  have v: "unat ?v = 4096 * ?p" by (simp add: unat_align_down minus_mod_eq_mult_div)
  have pn: "unat (?v div PAGE_SIZE) = ?p" by (simp add: unat_div_page v)
  have lt: "?p < 2 ^ 20" using unat_u32_less [of req] by (simp add: div_less_iff_less_mult del: unat_u32_less)
  show ?thesis
  proof (cases "dup_check (vc_bitmap c) (?v div PAGE_SIZE) (unat sz)")
    case dup: True
    then have "virt = 0" "c' = c" using True a by (auto simp: alloc_virt_def Let_def)
    then show ?thesis using reserves_none by blast
  next
    case False
    then have fr: "free_run (vc_bitmap c) ?p (unat sz)" using dup_check_run [of "?v div PAGE_SIZE" "unat sz" "vc_bitmap c"] pn lt sz by simp
    then have "0 < ?p \<and> ?p + unat sz \<le> 2 ^ 20" using sz lt by (intro run_inside [OF ok]) (simp_all add: u32_less_nat)
    moreover have "virt = of_nat (4096 * ?p)" using False True a v by (auto simp: alloc_virt_def Let_def simp flip: v)
    moreover have "c' = c\<lparr>vc_bitmap := bitmap_set (vc_bitmap c) (?v div PAGE_SIZE) sz\<rparr>" using False True a by (auto simp: alloc_virt_def Let_def)
    ultimately show ?thesis using fr bitmap_set_bit [of "?v div PAGE_SIZE" sz "vc_bitmap c"] pn
      by (intro disjI2 exI [of _ ?p]) (auto simp: reserves_def)
  qed
next
  case False
  obtain num bm where f: "bitmap_find (vc_bitmap c) (ALIGN_DOWN req PAGE_SIZE div PAGE_SIZE) sz = (num, bm)" by fastforce
  have fr: "bm_size bm = bm_size (vc_bitmap c)" "bitmap_bit bm k = bitmap_bit (vc_bitmap c) k" for k
    using bitmap_find_bit [of "vc_bitmap c" "ALIGN_DOWN req PAGE_SIZE div PAGE_SIZE" sz k]
      bitmap_find_frame [of "vc_bitmap c" "ALIGN_DOWN req PAGE_SIZE div PAGE_SIZE" sz] by (simp_all add: f)
  show ?thesis
  proof (cases "num = - 1")
    case True
    then have "virt = 0" "c' = c\<lparr>vc_bitmap := bm\<rparr>" using False a f by (auto simp: alloc_virt_def Let_def)
    then show ?thesis using fr by (intro disjI1) (auto simp: reserves_def)
  next
    case nn: False
    have i: "free_run (vc_bitmap c) (unat num) (unat sz)" "0 < unat num" "unat num + unat sz \<le> 2 ^ 20"
      using bitmap_find_inside [OF ok sz(1) f nn] by blast+
    have c': "c' = c\<lparr>vc_bitmap := bitmap_set bm num sz\<rparr>" "virt = num * PAGE_SIZE" using False nn a f by (auto simp: alloc_virt_def Let_def)
    moreover have "virt = of_nat (4096 * unat num)" using c'(2) by (simp add: PAGE_SIZE_def mult.commute)
    ultimately show ?thesis using i fr bitmap_set_bit [of num sz bm]
      by (intro disjI2 exI [of _ "unat num"]) (auto simp: reserves_def)
  qed
qed

section \<open>Ranges do not overlap\<close>

definition range_pages :: "vm_range \<Rightarrow> nat set" where
  "range_pages r = {unat (vr_addr r) div 4096 ..< unat (vr_addr r) div 4096 + unat (vr_size r) div 4096}"

definition range_ok :: "vm_range \<Rightarrow> bool" where
  "range_ok r \<longleftrightarrow> vr_addr r \<noteq> 0 \<and> vr_size r \<noteq> 0 \<and> unat (vr_addr r) mod 4096 = 0 \<and> unat (vr_size r) mod 4096 = 0 \<and> unat (vr_addr r) + unat (vr_size r) \<le> 2 ^ 32"

text \<open>\<open>R\<close> are pages that are in use without a range.\<close>

definition ctx_inv :: "nat set \<Rightarrow> vm_ctx \<Rightarrow> bool" where
  "ctx_inv R c \<longleftrightarrow> bm_ok (vc_bitmap c) \<and> (\<forall>r \<in> set (vc_ranges c). range_ok r) \<and>
     sorted_wrt (\<lambda>r q. range_pages r \<inter> range_pages q = {}) (vc_ranges c) \<and>
     (\<forall>r \<in> set (vc_ranges c). \<forall>n \<in> range_pages r. bitmap_bit (vc_bitmap c) n \<and> n \<notin> R) \<and>
     (\<forall>n \<in> R. bitmap_bit (vc_bitmap c) n)"

definition vm_inv :: "u32 set \<Rightarrow> u32 \<Rightarrow> (u32 \<Rightarrow> nat set) \<Rightarrow> vm \<Rightarrow> bool" where
  "vm_inv C K R s \<longleftrightarrow> VM_KERNEL s = K \<and> K \<in> C \<and> (\<forall>c \<in> C. ctx_inv (R c) (ctxs s c) \<and> (\<forall>r \<in> set (vc_ranges (ctxs s c)). vr_ctx r = c))"

lemma bm_ok_reserves: "bm_ok (vc_bitmap c) \<Longrightarrow> reserves c c' p n \<Longrightarrow> bm_ok (vc_bitmap c')"
  by (auto simp: bm_ok_def reserves_def)

lemma reserves_ranges: "reserves c c' p n \<Longrightarrow> vc_ranges c' = vc_ranges c"
  by (auto simp: reserves_def)

lemma ctx_inv_reserve:
  assumes "ctx_inv R c" "reserves c c' p n" "free_run (vc_bitmap c) p n"
  shows "ctx_inv (R \<union> {p..<p + n}) c'"
proof -
  have "\<not> bitmap_bit (vc_bitmap c) k" if "p \<le> k" "k < p + n" for k using free_runD [OF assms(3) that] .
  then show ?thesis
    using assms(1,2) bm_ok_reserves [OF _ assms(2)] by (auto simp: ctx_inv_def reserves_def) blast
qed

lemma ctx_inv_reserve_none: "ctx_inv R c \<Longrightarrow> reserves c c' 0 0 \<Longrightarrow> ctx_inv R c'"
  using ctx_inv_reserve [of R c c' 0 0] by (simp add: free_run_def)

lemma ctx_inv_weaken: "ctx_inv R c \<Longrightarrow> R' \<subseteq> R \<Longrightarrow> ctx_inv R' c"
  by (fastforce simp: ctx_inv_def)

lemma ctx_inv_lock [simp]: "ctx_inv R (c\<lparr>vc_lock := b\<rparr>) = ctx_inv R c"
  by (simp add: ctx_inv_def)

text \<open>Reserved pages become a range.\<close>

lemma ctx_inv_insert:
  assumes "ctx_inv R c" "range_ok r" "range_pages r \<subseteq> R"
  shows "ctx_inv (R - range_pages r) (c\<lparr>vc_ranges := r # vc_ranges c\<rparr>)"
  using assms by (fastforce simp: ctx_inv_def)

lemma vm_inv_upd:
  assumes "vm_inv C K R s" "ctx_inv (R' ctx) c" "vc_ranges c = vc_ranges (ctxs s ctx)" "\<And>x. x \<in> C \<Longrightarrow> x \<noteq> ctx \<Longrightarrow> R' x = R x"
  shows "vm_inv C K R' (upd_ctx ctx (\<lambda>_. c) s)"
  using assms by (auto simp: vm_inv_def upd_ctx_def)

lemma vm_inv_weaken: "vm_inv C K R s \<Longrightarrow> (\<And>c. R' c \<subseteq> R c) \<Longrightarrow> vm_inv C K R' s"
  unfolding vm_inv_def by (auto intro: ctx_inv_weaken)

lemma vm_inv_lock: "vm_inv C K R s \<Longrightarrow> vm_inv C K R (upd_ctx ctx (\<lambda>c. c\<lparr>vc_lock := b\<rparr>) s)"
  by (auto simp: vm_inv_def upd_ctx_def)

lemma release_all_inv: "vm_inv C K R s \<Longrightarrow> vm_inv C K R (release_all cs s)"
  by (induction cs arbitrary: s) (simp_all add: vm_inv_lock)

lemma upd_ctx_simps [simp]:
  "ctxs (upd_ctx c f s) x = (if x = c then f (ctxs s c) else ctxs s x)" "VM_KERNEL (upd_ctx c f s) = VM_KERNEL s"
  "tabs (upd_ctx c f s) = tabs s" "paging_on (upd_ctx c f s) = paging_on s" "paging_kernel_ctx (upd_ctx c f s) = paging_kernel_ctx s"
  "paging_alloc_end (upd_ctx c f s) = paging_alloc_end s" "phys_alloc (upd_ctx c f s) = phys_alloc s" "pmem (upd_ctx c f s) = pmem s"
  by (simp_all add: upd_ctx_def)

lemma upd_tab_simps [simp]:
  "ctxs (upd_tab t i f s) = ctxs s" "VM_KERNEL (upd_tab t i f s) = VM_KERNEL s"
  "paging_on (upd_tab t i f s) = paging_on s" "paging_kernel_ctx (upd_tab t i f s) = paging_kernel_ctx s"
  "paging_alloc_end (upd_tab t i f s) = paging_alloc_end s" "phys_alloc (upd_tab t i f s) = phys_alloc s"
  by (simp_all add: upd_tab_def)

section \<open>Page table code leaves the contexts alone\<close>

text \<open>The part of the state the invariant speaks about.\<close>

definition same_ctxs :: "vm \<Rightarrow> vm \<Rightarrow> bool" where
  "same_ctxs s s' \<longleftrightarrow> ctxs s' = ctxs s \<and> VM_KERNEL s' = VM_KERNEL s"

lemma vm_inv_same: "vm_inv C K R s \<Longrightarrow> same_ctxs s s' \<Longrightarrow> vm_inv C K R s'"
  by (simp add: vm_inv_def same_ctxs_def)

lemma set_entry_same: "set_entry ptr i f s = Ret s' \<Longrightarrow> same_ctxs s s'"
  by (auto simp: set_entry_def same_ctxs_def split: option.splits)

lemma bzero_pages_same: "bzero_pages v n s = Ret s' \<Longrightarrow> same_ctxs s s'"
proof (induction v n s rule: bzero_pages.induct)
  case (2 v n s)
  then show ?case by (auto simp: same_ctxs_def split: option.splits)
qed (simp add: same_ctxs_def)

lemma clear_pages_same: "clear_pages d v n s = Ret s' \<Longrightarrow> same_ctxs s s'"
proof (induction n arbitrary: v s)
  case (Suc n)
  then obtain s1 where s1: "paging_clear_page d v s = Ret s1" "clear_pages d (v + PAGE_SIZE) n s1 = Ret s'" by (auto simp: obind_Ret)
  have "same_ctxs s s1" using s1(1) by (auto simp: paging_clear_page_def obind_Ret Let_def same_ctxs_def dest!: set_entry_same split: option.splits if_splits)
  then show ?case using Suc.IH [OF s1(2)] by (simp add: same_ctxs_def)
qed (simp add: same_ctxs_def)

definition alloc_keeps :: "u32 set \<Rightarrow> u32 \<Rightarrow> table_allocator \<Rightarrow> bool" where
  "alloc_keeps C K alloc \<longleftrightarrow> (\<forall>R s r s'. vm_inv C K R s \<longrightarrow> alloc s = Ret (r, s') \<longrightarrow> vm_inv C K R s')"

lemma set_entry_inv: "set_entry ptr i f s = Ret s' \<Longrightarrow> vm_inv C K R s \<Longrightarrow> vm_inv C K R s'"
  using vm_inv_same set_entry_same by blast

lemma alloc_keepsD: "alloc_keeps C K alloc \<Longrightarrow> alloc s = Ret (r, s') \<Longrightarrow> vm_inv C K R s \<Longrightarrow> vm_inv C K R s'"
  unfolding alloc_keeps_def by blast

lemma set_page_inv:
  assumes "alloc_keeps C K alloc" "vm_inv C K R s" "paging_set_page alloc d v p fl s = Ret s'"
  shows "vm_inv C K R s'"
  using assms(3,2)
  by (auto simp: paging_set_page_def obind_Ret split: option.splits if_splits prod.splits)
     (metis set_entry_inv alloc_keepsD [OF assms(1)])+

lemma set_range_inv:
  assumes "alloc_keeps C K alloc" "vm_inv C K R s" "paging_set_range alloc d v p sz fl s = Ret s'"
  shows "vm_inv C K R s'"
proof -
  have "set_pages alloc d v p fl n s = Ret s' \<Longrightarrow> vm_inv C K R s \<Longrightarrow> vm_inv C K R s'" for n
  proof (induction n arbitrary: v p s)
    case (Suc n)
    then show ?case using set_page_inv [OF assms(1)] by (auto simp: obind_Ret)
  qed simp
  then show ?thesis using assms(2,3) by (auto simp: paging_set_range_def split: if_splits)
qed

lemma clear_range_inv: "vm_inv C K R s \<Longrightarrow> paging_clear_range d v sz s = Ret s' \<Longrightarrow> vm_inv C K R s'"
  by (auto simp: paging_clear_range_def split: if_splits intro: vm_inv_same clear_pages_same)

section \<open>Allocation keeps the invariant\<close>

lemma reserved_upd:
  assumes "vm_inv C K R s" "ctx \<in> C" "0 < sz" "unat sz \<le> 2 ^ 20" "alloc_virt (ctxs s ctx) sz req fixed = (virt, c')"
  shows "virt = 0 \<and> vm_inv C K R (upd_ctx ctx (\<lambda>_. c') s) \<or>
    (\<exists>p. virt = of_nat (4096 * p) \<and> 0 < p \<and> p + unat sz \<le> 2 ^ 20 \<and> R ctx \<inter> {p..<p + unat sz} = {} \<and>
       vm_inv C K (R(ctx := R ctx \<union> {p..<p + unat sz})) (upd_ctx ctx (\<lambda>_. c') s))"
proof -
  have i: "ctx_inv (R ctx) (ctxs s ctx)" "bm_ok (vc_bitmap (ctxs s ctx))" using assms(1,2) by (auto simp: vm_inv_def ctx_inv_def)
  from alloc_virt_fresh [OF i(2) assms(3-5)] show ?thesis
  proof (elim disjE exE conjE)
    assume "virt = 0" "reserves (ctxs s ctx) c' 0 0"
    then show ?thesis using vm_inv_upd [OF assms(1), of R ctx c'] ctx_inv_reserve_none [OF i(1)] reserves_ranges by simp
  next
    fix p assume p: "virt = of_nat (4096 * p)" "0 < p" "p + unat sz \<le> 2 ^ 20" "free_run (vc_bitmap (ctxs s ctx)) p (unat sz)"
      "reserves (ctxs s ctx) c' p (unat sz)"
    have "vm_inv C K (R(ctx := R ctx \<union> {p..<p + unat sz})) (upd_ctx ctx (\<lambda>_. c') s)"
      using ctx_inv_reserve [OF i(1) p(5,4)] reserves_ranges [OF p(5)] by (intro vm_inv_upd [OF assms(1)]) simp_all
    moreover have "R ctx \<inter> {p..<p + unat sz} = {}"
      using i(1) free_runD [OF p(4)] by (auto simp: ctx_inv_def)
    ultimately show ?thesis using p by blast
  qed
qed

lemma ctx_inv_clear:
  assumes "ctx_inv (R \<union> P) c" "R \<inter> P = {}" "{unat pos..<unat pos + unat n} \<subseteq> P" "0 < unat pos" "unat pos + unat n \<le> 2 ^ 20"
  shows "ctx_inv R (c\<lparr>vc_bitmap := bitmap_clear (vc_bitmap c) pos n\<rparr>)"
proof -
  have b: "bitmap_bit (bitmap_clear (vc_bitmap c) pos n) k \<longleftrightarrow> bitmap_bit (vc_bitmap c) k \<and> \<not> (unat pos \<le> k \<and> k < unat pos + unat n)
      \<or> bitmap_bit (vc_bitmap c) k \<and> unat (bm_size (vc_bitmap c)) < unat pos + unat n" for k
    using bitmap_clear_bit [of pos n "vc_bitmap c" k] assms(5) by auto
  have "bm_ok (bitmap_clear (vc_bitmap c) pos n)" using assms(1,4,5) by (auto simp: ctx_inv_def bm_ok_def b)
  moreover have "k \<in> P" if "unat pos \<le> k" "k < unat pos + unat n" for k using assms(3) that by auto
  ultimately show ?thesis using assms(1,2) by (auto simp: ctx_inv_def b) blast+
qed

lemma RDIV_le: "0 < sz \<Longrightarrow> unat sz \<le> 2 ^ 20 \<Longrightarrow> unat (RDIV sz PAGE_SIZE) \<le> unat sz"
proof -
  assume a: "0 < sz" "unat sz \<le> 2 ^ 20"
  then have "unat (sz + 4095) = unat sz + 4095" by (subst unat_add_u32) simp_all
  then have "unat (RDIV sz PAGE_SIZE) = (unat sz + 4095) div 4096" by (simp add: RDIV_def PAGE_SIZE_def unat_div_u32)
  also have "\<dots> < unat sz + 1" using a by (simp add: div_less_iff_less_mult u32_less_nat)
  finally show ?thesis by simp
qed

lemma zero_range_inv:
  assumes al: "alloc_keeps C K alloc" and inv: "vm_inv C K R s" and sz: "0 < sz" "unat sz \<le> 2 ^ 20"
    and z: "zero_range alloc ctx sz virt phys s = Ret (ph, s')"
  shows "vm_inv C K R s'"
proof (cases "ctx = VM_KERNEL s")
  case True
  then show ?thesis using z inv by (auto simp: zero_range_def obind_Ret intro: vm_inv_same bzero_pages_same)
next
  case False
  let ?K = "VM_KERNEL s"
  have KC: "?K \<in> C" using inv by (simp add: vm_inv_def)
  obtain za c where a: "alloc_virt (ctxs s ?K) sz 0 False = (za, c)" by fastforce
  let ?s = "upd_ctx ?K (\<lambda>_. c) s"
  from reserved_upd [OF inv KC sz a] show ?thesis
  proof (elim disjE exE conjE)
    assume "za = 0" "vm_inv C K R ?s"
    then show ?thesis using z False a by (auto simp: zero_range_def Let_def)
  next
    fix p assume p: "za = of_nat (4096 * p)" "0 < p" "p + unat sz \<le> 2 ^ 20" "R ?K \<inter> {p..<p + unat sz} = {}"
      and i: "vm_inv C K (R(?K := R ?K \<union> {p..<p + unat sz})) ?s"
    let ?R = "R(?K := R ?K \<union> {p..<p + unat sz})"
    have "0 < unat sz" using sz(1) by (simp add: u32_less_nat)
    then have un: "unat za = 4096 * p" unfolding p(1) using p(3) by (subst unat_of_nat_u32) simp_all
    then have "za \<noteq> 0" using p(2) by auto
    then obtain s1 s2 s3 where s: "paging_set_range alloc (vc_page_dir (ctxs ?s (VM_KERNEL ?s))) za phys (sz * PAGE_SIZE) VM_RW ?s = Ret s1"
        "bzero_pages za (unat sz) s1 = Ret s2" "paging_clear_range (vc_page_dir (ctxs s2 (VM_KERNEL s2))) za (sz * PAGE_SIZE) s2 = Ret s3"
        "s' = upd_ctx (VM_KERNEL s3) (\<lambda>c. c\<lparr>vc_bitmap := bitmap_clear (vc_bitmap c) (za div PAGE_SIZE) (RDIV sz PAGE_SIZE)\<rparr>) s3"
      using z False a by (auto simp: zero_range_def Let_def obind_Ret)
    have i3: "vm_inv C K ?R s3"
      using set_range_inv [OF al i s(1)] bzero_pages_same [OF s(2)] clear_range_inv [OF _ s(3)] vm_inv_same by blast
    have "ctx_inv (R ?K \<union> {p..<p + unat sz}) (ctxs s3 ?K)" "VM_KERNEL s3 = ?K" "K = ?K" using i3 KC inv by (auto simp: vm_inv_def)
    moreover have "ctx_inv (R ?K) ((ctxs s3 ?K)\<lparr>vc_bitmap := bitmap_clear (vc_bitmap (ctxs s3 ?K)) (za div PAGE_SIZE) (RDIV sz PAGE_SIZE)\<rparr>)"
      using calculation(1) p(2-4) un RDIV_le [OF sz] by (intro ctx_inv_clear) (auto simp: unat_div_page)
    ultimately show ?thesis using i3 s(4) by (auto simp: vm_inv_def split: if_splits)
  qed
qed

lemma setup_phys_inv:
  assumes al: "alloc_keeps C K alloc" and inv: "vm_inv C K R s" and sz: "0 < sz" "unat sz \<le> 2 ^ 20"
    and z: "setup_phys alloc ctx sz virt phys flags s = Ret (ph, s')"
  shows "vm_inv C K R s'"
proof -
  obtain p1 s1 where s1: "(if phys = 0 then obind (mem_page_alloc (phys_alloc s) sz) (\<lambda>(p, pc). Ret (p, s\<lparr>phys_alloc := pc\<rparr>)) else Ret (phys, s)) = Ret (p1, s1)"
      "(if p1 = 0 then Ret (0, s1)
        else obind (if vc_page_dir (ctxs s1 ctx) \<noteq> 0 then paging_set_range alloc (vc_page_dir (ctxs s1 ctx)) virt p1 (sz * PAGE_SIZE) flags s1 else Ret s1)
          (\<lambda>s. if flags AND VM_ZERO \<noteq> 0 then zero_range alloc ctx sz virt p1 s else Ret (p1, s))) = Ret (ph, s')"
    using z by (auto simp: setup_phys_def obind_Ret)
  have i1: "vm_inv C K R s1" using s1(1) inv by (auto simp: obind_Ret vm_inv_def split: if_splits)
  show ?thesis
  proof (cases "p1 = 0")
    case True
    then show ?thesis using s1(2) i1 by simp
  next
    case False
    then obtain s2 where s2: "(if vc_page_dir (ctxs s1 ctx) \<noteq> 0 then paging_set_range alloc (vc_page_dir (ctxs s1 ctx)) virt p1 (sz * PAGE_SIZE) flags s1 else Ret s1) = Ret s2"
        "(if flags AND VM_ZERO \<noteq> 0 then zero_range alloc ctx sz virt p1 s2 else Ret (p1, s2)) = Ret (ph, s')"
      using s1(2) by (auto simp: obind_Ret)
    have "vm_inv C K R s2" using s2(1) i1 set_range_inv [OF al i1] by (auto split: if_splits)
    then show ?thesis using s2(2) zero_range_inv [OF al _ sz] by (auto split: if_splits)
  qed
qed

lemma new_range_inv: "new_range s = Ret (self, s') \<Longrightarrow> same_ctxs s s'"
  by (auto simp: new_range_def same_ctxs_def split: if_splits list.splits)

text \<open>The new range of an allocation.\<close>

lemma mk_range_ok:
  assumes "0 < p" "p + unat sz \<le> 2 ^ 20" "0 < sz"
  shows "range_ok (mk_range self ctx (of_nat (4096 * p)) phys sz flags)"
    "range_pages (mk_range self ctx (of_nat (4096 * p)) phys sz flags) = {p..<p + unat sz}"
proof -
  have "0 < unat sz" using assms(3) by (simp add: u32_less_nat)
  then have "unat (of_nat (4096 * p) :: u32) = 4096 * p" using assms by (subst unat_of_nat_u32) simp_all
  moreover have "unat (sz * PAGE_SIZE) = unat sz * 4096" using assms by (intro unat_page_addr) simp
  ultimately show "range_ok (mk_range self ctx (of_nat (4096 * p)) phys sz flags)"
    "range_pages (mk_range self ctx (of_nat (4096 * p)) phys sz flags) = {p..<p + unat sz}"
    using assms by (auto simp: range_ok_def range_pages_def mk_range_def u32_eq_nat u32_less_nat)
qed

lemma insert_range_inv:
  assumes "vm_inv C K (R(ctx := R ctx \<union> {p..<p + unat sz})) s" "ctx \<in> C" "0 < p" "p + unat sz \<le> 2 ^ 20" "0 < sz"
    "R ctx \<inter> {p..<p + unat sz} = {}"
  shows "vm_inv C K R (insert_range ctx (mk_range self ctx (of_nat (4096 * p)) phys sz flags) s)"
proof -
  let ?r = "mk_range self ctx (of_nat (4096 * p)) phys sz flags"
  have "ctx_inv (R ctx \<union> {p..<p + unat sz}) (ctxs s ctx)" using assms(1,2) by (auto simp: vm_inv_def)
  then have "ctx_inv (R ctx \<union> {p..<p + unat sz} - {p..<p + unat sz}) ((ctxs s ctx)\<lparr>vc_ranges := ?r # vc_ranges (ctxs s ctx)\<rparr>)"
    using ctx_inv_insert [of "R ctx \<union> {p..<p + unat sz}" "ctxs s ctx" ?r] mk_range_ok [OF assms(3-5)] by simp
  then have "ctx_inv (R ctx) ((ctxs s ctx)\<lparr>vc_ranges := ?r # vc_ranges (ctxs s ctx)\<rparr>)"
    using assms(6) by (simp add: Un_Diff Diff_triv)
  moreover have "vr_ctx ?r = ctx" by (simp add: mk_range_def)
  ultimately show ?thesis using assms(1) by (auto simp: vm_inv_def insert_range_def split: if_splits)
qed

lemma vm_alloc_at_inv:
  assumes al: "alloc_keeps C K alloc" and inv: "vm_inv C K R s" and ctx: "ctx \<in> C" and sz: "0 < sz" "unat sz \<le> 2 ^ 20"
    and a: "vm_alloc_at alloc ctx sz req phys flags s = Ret (virt, r, s')"
  shows "vm_inv C K R s'"
proof -
  obtain v c where v: "alloc_virt (ctxs s ctx) sz req (flags AND VM_FIXED \<noteq> 0) = (v, c)" by fastforce
  let ?s = "upd_ctx ctx (\<lambda>_. c) s"
  from reserved_upd [OF inv ctx sz v] show ?thesis
  proof (elim disjE exE conjE)
    assume "v = 0" "vm_inv C K R ?s"
    then show ?thesis using a v by (auto simp: vm_alloc_at_def Let_def)
  next
    fix p assume p: "v = of_nat (4096 * p)" "0 < p" "p + unat sz \<le> 2 ^ 20" "R ctx \<inter> {p..<p + unat sz} = {}"
      and i: "vm_inv C K (R(ctx := R ctx \<union> {p..<p + unat sz})) ?s"
    show ?thesis
    proof (cases "v = 0")
      case True
      then show ?thesis using a v vm_inv_weaken [OF i] by (auto simp: vm_alloc_at_def Let_def)
    next
      case False
      then obtain ph s1 self s2 where s: "setup_phys alloc ctx sz v phys flags ?s = Ret (ph, s1)" "new_range s1 = Ret (self, s2)"
          "(if self = 0 then Ret (0, None, upd_ctx ctx (\<lambda>c. c\<lparr>vc_lock := True\<rparr>) s2)
            else Ret (v, Some (mk_range self ctx v ph sz flags), insert_range ctx (mk_range self ctx v ph sz flags) s2)) = Ret (virt, r, s')"
        using a v by (auto simp: vm_alloc_at_def Let_def obind_Ret split: if_splits)
      have i2: "vm_inv C K (R(ctx := R ctx \<union> {p..<p + unat sz})) s2"
        using setup_phys_inv [OF al i sz s(1)] new_range_inv [OF s(2)] vm_inv_same by blast
      then show ?thesis
        using s(3) insert_range_inv [OF i2 ctx p(2,3) sz(1) p(4)] vm_inv_lock [OF vm_inv_weaken [OF i2]] p(1) by (auto split: if_splits)
    qed
  qed
qed

lemma table_alloc_keeps: "alloc_keeps C K (table_alloc n)"
proof (induction n)
  case 0
  then show ?case by (simp add: alloc_keeps_def)
next
  case (Suc n)
  show ?case
    unfolding alloc_keeps_def
  proof (intro allI impI)
    fix R s r s' assume i: "vm_inv C K R s" and t: "table_alloc (Suc n) s = Ret (r, s')"
    then obtain v where "vm_alloc_at (table_alloc n) (VM_KERNEL s) 1 0 0 (VM_RW OR VM_ZERO) s = Ret (v, r, s')" by (auto simp: obind_Ret)
    then show "vm_inv C K R s'" using i by (intro vm_alloc_at_inv [OF Suc i]) (auto simp: vm_inv_def)
  qed
qed

lemma RDIV_exact:
  assumes "unat sz mod 4096 = 0"
  shows "unat (RDIV sz PAGE_SIZE) = unat sz div 4096"
proof -
  obtain k where k: "unat sz = 4096 * k" using assms by (auto simp: mod_eq_0_iff_dvd elim: dvdE)
  then have "k \<le> 1048575" using unat_u32_less [of sz] by (simp del: unat_u32_less)
  then have "unat (sz + 4095) = 4096 * k + 4095" using k by (subst unat_add_u32) simp_all
  then show ?thesis by (simp add: RDIV_def PAGE_SIZE_def unat_div_u32 k)
qed

lemma RDIV_page_bound: "unat (RDIV x PAGE_SIZE) \<le> 2 ^ 20"
proof -
  have "unat (x + 4095) div 4096 < 2 ^ 20" using unat_u32_less [of "x + 4095"] by (simp add: div_less_iff_less_mult del: unat_u32_less)
  then show ?thesis by (simp add: RDIV_def PAGE_SIZE_def unat_div_u32)
qed

lemma range_ok_pages:
  assumes "range_ok r"
  shows "0 < unat (vr_addr r) div 4096" "unat (vr_addr r) div 4096 + unat (vr_size r) div 4096 \<le> 2 ^ 20"
proof -
  obtain a n where "unat (vr_addr r) = 4096 * a" "unat (vr_size r) = 4096 * n"
    using assms by (auto simp: range_ok_def mod_eq_0_iff_dvd elim!: dvdE)
  moreover have "unat (vr_addr r) \<noteq> 0" using assms by (simp add: range_ok_def unat_eq_0)
  ultimately show "0 < unat (vr_addr r) div 4096" "unat (vr_addr r) div 4096 + unat (vr_size r) div 4096 \<le> 2 ^ 20"
    using assms by (auto simp: range_ok_def)
qed

text \<open>Ranges are taken out of the list, and the pages of one of them stay reserved.\<close>

lemma ctx_inv_drop:
  assumes i: "ctx_inv R c" and q: "q \<in> set (vc_ranges c)" "\<not> P q"
  shows "ctx_inv (R \<union> range_pages q) (c\<lparr>vc_ranges := filter P (vc_ranges c)\<rparr>)"
proof -
  have "range_pages r \<inter> range_pages q = {}" if "r \<in> set (vc_ranges c)" "r \<noteq> q" for r
    using i that q(1) by (auto simp: ctx_inv_def sorted_wrt_iff_nth_less in_set_conv_nth) (metis disjoint_iff linorder_neqE_nat)
  then have "range_pages r \<inter> range_pages q = {}" if "r \<in> set (filter P (vc_ranges c))" for r using that q(2) by auto
  then show ?thesis using i q(1) by (auto simp: ctx_inv_def sorted_wrt_filter)
qed

section \<open>The other operations keep the invariant\<close>

lemma vm_free_inv:
  assumes inv: "vm_inv C K R s" and ctx: "vr_ctx r \<in> C" and f: "vm_free r s = Ret s'"
  shows "vm_inv C K R s'"
proof -
  let ?c = "vr_ctx r"
  obtain q where q: "find (\<lambda>x. vr_self x = vr_self r) (vc_ranges (ctxs s ?c)) = Some q"
    and p: "paging_clear_range (vc_page_dir (ctxs s ?c)) (vr_addr q) (vr_size q)
       (upd_ctx ?c (\<lambda>c. c\<lparr>vc_ranges := filter (\<lambda>x. vr_self x \<noteq> vr_self q) (vc_ranges c),
           vc_bitmap := bitmap_clear (vc_bitmap c) (vr_addr q div PAGE_SIZE) (RDIV (vr_size q) PAGE_SIZE)\<rparr>) s) = Ret s'"
    using f by (auto simp: vm_free_def Let_def split: option.splits)
  have qs: "q \<in> set (vc_ranges (ctxs s ?c))" using q by (auto simp: find_Some_iff)
  have i: "ctx_inv (R ?c) (ctxs s ?c)" using inv ctx by (simp add: vm_inv_def)
  have ok: "range_ok q" using i qs by (simp add: ctx_inv_def)
  have "ctx_inv (R ?c \<union> range_pages q) ((ctxs s ?c)\<lparr>vc_ranges := filter (\<lambda>x. vr_self x \<noteq> vr_self q) (vc_ranges (ctxs s ?c))\<rparr>)"
    using i qs by (intro ctx_inv_drop) auto
  moreover have "R ?c \<inter> range_pages q = {}" using i qs by (auto simp: ctx_inv_def)
  moreover have "unat (RDIV (vr_size q) PAGE_SIZE) = unat (vr_size q) div 4096" using ok by (intro RDIV_exact) (auto simp: range_ok_def)
  ultimately have "ctx_inv (R ?c) ((ctxs s ?c)\<lparr>vc_ranges := filter (\<lambda>x. vr_self x \<noteq> vr_self q) (vc_ranges (ctxs s ?c)),
      vc_bitmap := bitmap_clear (vc_bitmap (ctxs s ?c)) (vr_addr q div PAGE_SIZE) (RDIV (vr_size q) PAGE_SIZE)\<rparr>)"
    using ctx_inv_clear [of "R ?c" "range_pages q" "(ctxs s ?c)\<lparr>vc_ranges := filter (\<lambda>x. vr_self x \<noteq> vr_self q) (vc_ranges (ctxs s ?c))\<rparr>"
        "vr_addr q div PAGE_SIZE" "RDIV (vr_size q) PAGE_SIZE"] range_ok_pages [OF ok] by (simp add: unat_div_page range_pages_def)
  then show ?thesis using inv by (intro clear_range_inv [OF _ p]) (auto simp: vm_inv_def split: if_splits)
qed

lemma ctx_inv_map:
  assumes "\<And>r. range_pages (f r) = range_pages r" "\<And>r. range_ok (f r) = range_ok r"
  shows "ctx_inv X (c\<lparr>vc_ranges := map f (vc_ranges c)\<rparr>) = ctx_inv X c"
  using assms by (simp add: ctx_inv_def sorted_wrt_map)

lemma add_shard_inv:
  assumes "vm_inv C K R s"
  shows "vm_inv C K R (add_shard ctx self sh s)"
proof -
  let ?f = "\<lambda>r. if vr_self r = self then r\<lparr>vr_shards := sh # vr_shards r\<rparr> else r"
  have "ctx_inv X (c\<lparr>vc_ranges := map ?f (vc_ranges c)\<rparr>) = ctx_inv X c" for X c
    by (rule ctx_inv_map) (simp_all add: range_pages_def range_ok_def)
  then show ?thesis using assms by (auto simp: vm_inv_def add_shard_def)
qed

lemma map_loop_inv:
  assumes al: "alloc_keeps C K alloc"
  shows "vm_inv C K R s \<Longrightarrow> map_loop alloc ctx self virt src addr flags ofs n s = Ret (b, s') \<Longrightarrow> vm_inv C K R s'"
proof (induction n arbitrary: ofs s)
  case (Suc n)
  show ?case
  proof (cases "get_range (ctxs s src) (ALIGN_DOWN addr PAGE_SIZE + ofs) False")
    case None
    then show ?thesis using Suc.prems by simp
  next
    case (Some r)
    let ?p = "vr_phys r + ALIGN_DOWN (addr - vr_addr r) PAGE_SIZE + ofs"
    let ?s = "add_shard ctx self (virt + ofs, ?p) s"
    consider "s' = s" | s1 where "paging_set_range alloc (vc_page_dir (ctxs ?s ctx)) (virt + ofs) ?p PAGE_SIZE flags ?s = Ret s1"
        "map_loop alloc ctx self virt src addr flags (ofs + PAGE_SIZE) n s1 = Ret (b, s')"
      using Suc.prems(2) Some by (auto simp: Let_def obind_Ret split: if_splits)
    then show ?thesis
    proof cases
      case 1
      then show ?thesis using Suc.prems(1) by simp
    next
      case 2
      show ?thesis by (rule Suc.IH [OF set_range_inv [OF al add_shard_inv [OF Suc.prems(1)] 2(1)] 2(2)])
    qed
  qed
qed simp

lemma vm_map_inv:
  assumes al: "alloc_keeps C K alloc" and inv: "vm_inv C K R s" and ctx: "ctx \<in> C"
    and sz: "0 < RDIV (sz + addr mod PAGE_SIZE) PAGE_SIZE"
    and m: "vm_map alloc ctx src addr sz flags s = Ret (v, r, s')"
  shows "vm_inv C K R s'"
proof (cases "ALIGN_DOWN addr PAGE_SIZE = 0")
  case True
  then show ?thesis using m inv by (simp add: vm_map_def)
next
  case False
  let ?n = "RDIV (sz + addr mod PAGE_SIZE) PAGE_SIZE"
  have n: "unat ?n \<le> 2 ^ 20" by (rule RDIV_page_bound)
  obtain w c where w: "alloc_virt (ctxs s ctx) ?n 0 False = (w, c)" by fastforce
  let ?s = "upd_ctx ctx (\<lambda>_. c) s"
  from reserved_upd [OF inv ctx sz n w] show ?thesis
  proof (elim disjE exE conjE)
    assume "w = 0" "vm_inv C K R ?s"
    then show ?thesis using m w False by (auto simp: vm_map_def Let_def)
  next
    fix p assume p: "w = of_nat (4096 * p)" "0 < p" "p + unat ?n \<le> 2 ^ 20" "R ctx \<inter> {p..<p + unat ?n} = {}"
      and i: "vm_inv C K (R(ctx := R ctx \<union> {p..<p + unat ?n})) ?s"
    have wk: "vm_inv C K R ?s" using vm_inv_weaken [OF i] by auto
    show ?thesis
    proof (cases "w = 0")
      case True
      then show ?thesis using m w False wk by (auto simp: vm_map_def Let_def)
    next
      case nz: False
      have "\<exists>y. new_range ?s = Ret y" using m w False nz by (auto simp: vm_map_def Let_def obind_Ret)
      then obtain self s1 where s0: "new_range ?s = Ret (self, s1)" by fastforce
      have s1: "new_range ?s = Ret (self, s1)"
          "(if self = 0 then Ret (0, None, upd_ctx src (\<lambda>c. c\<lparr>vc_lock := True\<rparr>) (upd_ctx ctx (\<lambda>c. c\<lparr>vc_lock := True\<rparr>) s1))
            else obind (map_loop alloc ctx self w src addr flags 0 (max 1 (unat ?n)) (insert_range ctx (mk_range self ctx w 0 ?n flags) s1)) (\<lambda>(ok, s).
              if ok then Ret (w + addr mod PAGE_SIZE, find (\<lambda>r. vr_self r = self) (vc_ranges (ctxs s ctx)), s) else Ret (0, None, s))) = Ret (v, r, s')"
        using m w False nz s0 by (simp_all add: vm_map_def Let_def acquire_def split: if_splits)
      have i1: "vm_inv C K (R(ctx := R ctx \<union> {p..<p + unat ?n})) s1" using i new_range_inv [OF s1(1)] vm_inv_same by blast
      show ?thesis
      proof (cases "self = 0")
        case True
        then show ?thesis using s1(2) vm_inv_lock vm_inv_weaken [OF i1] by auto
      next
        case False
        then obtain ok where "map_loop alloc ctx self w src addr flags 0 (max 1 (unat ?n)) (insert_range ctx (mk_range self ctx w 0 ?n flags) s1) = Ret (ok, s')"
          using s1(2) by (auto simp: obind_Ret split: if_splits)
        then show ?thesis using map_loop_inv [OF al insert_range_inv [OF i1 ctx p(2,3) sz p(4)]] p(1) by blast
      qed
    qed
  qed
qed

lemma pagedir_loop_inv:
  assumes al: "alloc_keeps C K alloc"
  shows "vm_inv C K R s \<Longrightarrow> pagedir_loop alloc d rs s = Ret s' \<Longrightarrow> vm_inv C K R s'"
proof (induction rs arbitrary: s)
  case (Cons r rs)
  from Cons.prems(2) obtain s1 where "paging_set_range alloc d (vr_addr r) (vr_phys r) (vr_size r) (vr_flags r) s = Ret s1" "pagedir_loop alloc d rs s1 = Ret s'"
    by (auto simp: obind_Ret)
  then show ?case using set_range_inv [OF al Cons.prems(1)] Cons.IH by blast
qed simp

lemma vm_pagedir_inv:
  assumes al: "alloc_keeps C K alloc" and inv: "vm_inv C K R s" and p: "vm_pagedir alloc ctx s = Ret (d, s')"
  shows "vm_inv C K R s'"
proof (cases "vc_page_dir (ctxs s ctx) \<noteq> 0")
  case True
  then show ?thesis using p inv by (simp add: vm_pagedir_def)
next
  case False
  then obtain v r s1 where s1: "vm_alloc_at alloc (VM_KERNEL s) 1 0 0 (VM_RW OR VM_ZERO) s = Ret (v, r, s1)"
      "(case r of None \<Rightarrow> Ret (0, s1)
        | Some r \<Rightarrow> let s = upd_ctx ctx (\<lambda>c. c\<lparr>vc_page_dir := vr_addr r, vc_page_dir_phys := vr_phys r\<rparr>) s1 in
            obind (pagedir_loop alloc (vr_addr r) (vc_ranges (ctxs s ctx)) s) (\<lambda>s. Ret (vr_phys r, s))) = Ret (d, s')"
    using p by (auto simp: vm_pagedir_def obind_Ret)
  have i1: "vm_inv C K R s1" using inv by (intro vm_alloc_at_inv [OF al inv _ _ _ s1(1)]) (auto simp: vm_inv_def)
  have "vm_inv C K R (upd_ctx ctx (\<lambda>c. c\<lparr>vc_page_dir := a, vc_page_dir_phys := b\<rparr>) s1)" for a b
    using i1 by (auto simp: vm_inv_def ctx_inv_def)
  then have "pagedir_loop alloc d' rs (upd_ctx ctx (\<lambda>c. c\<lparr>vc_page_dir := a, vc_page_dir_phys := b\<rparr>) s1) = Ret s' \<Longrightarrow> vm_inv C K R s'" for a b d' rs
    using pagedir_loop_inv [OF al] by blast
  then show ?thesis using s1(2) i1 by (auto simp: Let_def obind_Ret split: option.splits)
qed

lemma kmemcpy_same: "kmemcpy d v n s = Ret s' \<Longrightarrow> same_ctxs s s'"
proof (induction n arbitrary: d v s)
  case (Suc n)
  then obtain p q where "kmemcpy (d + 1) (v + 1) n (s\<lparr>pmem := (pmem s)(p := pmem s q)\<rparr>) = Ret s'" by (auto split: option.splits)
  from Suc.IH [OF this] show ?case by (simp add: same_ctxs_def)
qed (simp add: same_ctxs_def)

lemma kbzero_same: "kbzero d n s = Ret s' \<Longrightarrow> same_ctxs s s'"
proof (induction n arbitrary: d s)
  case (Suc n)
  then obtain p where "kbzero (d + 1) n (s\<lparr>pmem := (pmem s)(p := 0)\<rparr>) = Ret s'" by (auto split: option.splits)
  from Suc.IH [OF this] show ?case by (simp add: same_ctxs_def)
qed (simp add: same_ctxs_def)

text \<open>The context of a range that an allocation or a mapping returns.\<close>

lemma vm_alloc_at_ctx: "vm_alloc_at alloc ctx sz req phys flags s = Ret (v, Some r, s') \<Longrightarrow> vr_ctx r = ctx"
  by (auto simp: vm_alloc_at_def Let_def obind_Ret mk_range_def split: prod.splits if_splits)

lemma copy_finish_inv:
  assumes al: "alloc_keeps C K alloc" and inv: "vm_inv C K R s" and C: "dest \<in> C" "vr_ctx kd \<in> C" "\<And>k. ks = Some k \<Longrightarrow> vr_ctx k \<in> C"
    and n: "0 < RDIV (vr_size src) PAGE_SIZE" and c: "copy_finish alloc dest addr kd ks ptr src flags s = Ret (res, r, s')"
  shows "vm_inv C K R s'"
proof -
  from c obtain s1 s2 s3 s4 x where s: "kmemcpy (vr_addr kd) ptr (unat (vr_size src)) s = Ret s1" "(case ks of None \<Rightarrow> Ret s1 | Some ks \<Rightarrow> vm_free ks s1) = Ret s2"
      "(let md = vr_size src mod PAGE_SIZE in if md \<noteq> 0 then kbzero (vr_addr kd + vr_size src - PAGE_SIZE + md) (unat (PAGE_SIZE - md)) s2 else Ret s2) = Ret s3"
      "vm_free kd s3 = Ret s4"
      "vm_alloc_at alloc dest (RDIV (vr_size src) PAGE_SIZE) addr (vr_phys kd) (if addr \<noteq> 0 then flags OR VM_FIXED else flags) s4 = Ret x"
      "(\<lambda>(a, r, s). Ret (if a = 0 then - 1 else 0, r, s)) x = Ret (res, r, s')"
    unfolding copy_finish_def by (elim obind_RetE) blast
  obtain a where x: "x = (a, r, s')" using s(6) by (cases x) auto
  have "vm_inv C K R s1" using inv kmemcpy_same [OF s(1)] vm_inv_same by blast
  then have "vm_inv C K R s2" using s(2) vm_free_inv C(3) by (auto split: option.splits)
  then have "vm_inv C K R s3" using s(3) kbzero_same vm_inv_same by (cases "vr_size src mod PAGE_SIZE = 0") (auto simp: Let_def)
  then have "vm_inv C K R s4" using vm_free_inv [OF _ C(2) s(4)] by blast
  then show ?thesis by (rule vm_alloc_at_inv [OF al _ C(1) n RDIV_page_bound s(5) [unfolded x]])
qed

lemma vm_map_ctx:
  assumes "vm_map alloc ctx src addr sz flags s = Ret (v, Some r, s')" "vm_inv C K R s'" "ctx \<in> C"
  shows "vr_ctx r = ctx"
proof -
  have "\<exists>self. find (\<lambda>r. vr_self r = self) (vc_ranges (ctxs s' ctx)) = Some r"
    using assms(1) by (auto simp: vm_map_def Let_def obind_Ret split: prod.splits if_splits)
  then have "r \<in> set (vc_ranges (ctxs s' ctx))" by (auto simp: find_Some_iff)
  then show ?thesis using assms(2,3) by (simp add: vm_inv_def)
qed

lemma vm_copy_inv:
  assumes al: "alloc_keeps C K alloc" and inv: "vm_inv C K R s" and C: "dest \<in> C"
    and src: "range_ok src" and c: "vm_copy alloc dest addr src flags s = Ret (res, r, s')"
  shows "vm_inv C K R s'"
proof -
  have sz: "unat (vr_size src) mod 4096 = 0" "unat (vr_addr src) mod 4096 = 0" "vr_size src \<noteq> 0" using src by (auto simp: range_ok_def)
  have n: "0 < RDIV (vr_size src) PAGE_SIZE"
    using RDIV_exact [OF sz(1)] sz(1,3) by (auto simp: u32_less_nat mod_eq_0_iff_dvd unat_eq_0 [symmetric] elim!: dvdE)
  have md: "vr_addr src mod PAGE_SIZE = 0" using sz(2) by (simp add: u32_eq_nat unat_mod_u32 PAGE_SIZE_def)
  from c obtain x where x: "vm_alloc_at alloc (VM_KERNEL s) (RDIV (vr_size src) PAGE_SIZE) 0 0 VM_RW s = Ret x"
      "(\<lambda>(_, kd, s). case kd of None \<Rightarrow> Ret (- 1, None, s)
        | Some kd \<Rightarrow>
            if vr_ctx src \<noteq> VM_KERNEL s
            then obind (vm_map alloc (VM_KERNEL s) (vr_ctx src) (vr_addr src) (vr_size src) 0 s) (\<lambda>(src_ptr, ks, s).
                   if src_ptr = 0 then Ret (- 1, None, s) else copy_finish alloc dest addr kd ks src_ptr src flags s)
            else copy_finish alloc dest addr kd None (vr_addr src) src flags s) x = Ret (res, r, s')"
    unfolding vm_copy_def by (cases "vr_shards src \<noteq> []") (auto elim: obind_RetE)
  obtain a kd s1 where x1: "x = (a, kd, s1)" by (cases x)
  have i1: "vm_inv C K R s1" using inv by (intro vm_alloc_at_inv [OF al inv _ n RDIV_page_bound x(1) [unfolded x1]]) (auto simp: vm_inv_def)
  have K: "VM_KERNEL s = K" "VM_KERNEL s1 = K" "K \<in> C" using inv i1 by (auto simp: vm_inv_def)
  show ?thesis
  proof (cases kd)
    case None
    then show ?thesis using x(2) x1 i1 by simp
  next
    case (Some kd')
    have kc: "vr_ctx kd' \<in> C" using vm_alloc_at_ctx x(1) [unfolded x1 Some] K by auto
    show ?thesis
    proof (cases "vr_ctx src = K")
      case True
      then show ?thesis using x(2) copy_finish_inv [OF al i1 C kc _ n, of None] by (simp add: x1 Some K)
    next
      case False
      then obtain ptr ks s2 where s2: "vm_map alloc K (vr_ctx src) (vr_addr src) (vr_size src) 0 s1 = Ret (ptr, ks, s2)"
          "(if ptr = 0 then Ret (- 1, None, s2) else copy_finish alloc dest addr kd' ks ptr src flags s2) = Ret (res, r, s')"
        using x(2) by (auto simp: x1 Some K elim!: obind_RetE)
      have i2: "vm_inv C K R s2" by (rule vm_map_inv [OF al i1 K(3) _ s2(1)]) (simp add: md n)
      have "\<And>k. ks = Some k \<Longrightarrow> vr_ctx k \<in> C" using vm_map_ctx [of alloc K] s2(1) i2 K(3) by blast
      then show ?thesis using s2(2) i2 copy_finish_inv [OF al i2 C kc _ n, of ks] by (cases "ptr = 0") auto
    qed
  qed
qed

lemma vm_clone_inv:
  assumes al: "alloc_keeps C K alloc" and inv: "vm_inv C K R s" and C: "dest \<in> C" "src \<in> C" and c: "vm_clone alloc dest src s = Ret (res, s')"
  shows "vm_inv C K R s'"
proof -
  have "vm_inv C K R s \<Longrightarrow> clone_loop alloc dest rs s = Ret (res, s') \<Longrightarrow> \<forall>r \<in> set rs. range_ok r \<Longrightarrow> vm_inv C K R s'" for rs
  proof (induction rs arbitrary: s)
    case (Cons r rs)
    show ?case
    proof (cases "vr_flags r AND VM_TFORK = 0")
      case True
      then show ?thesis using Cons by simp
    next
      case False
      then obtain x q s1 where s1: "vm_copy alloc dest (vr_addr r) r (vr_flags r) s = Ret (x, q, s1)"
          "(if x \<noteq> 0 then Ret (- 1, s1) else clone_loop alloc dest rs s1) = Ret (res, s')"
        using Cons.prems(2) by (auto elim!: obind_RetE)
      have "vm_inv C K R s1" using Cons.prems by (intro vm_copy_inv [OF al _ C(1) _ s1(1)]) simp_all
      then show ?thesis using s1(2) Cons by (auto split: if_splits)
    qed
  qed simp
  moreover have "\<forall>r \<in> set (vc_ranges (ctxs s src)). range_ok r" using inv C(2) by (simp add: vm_inv_def ctx_inv_def)
  ultimately show ?thesis using inv c by (auto simp: vm_clone_def)
qed

section \<open>Allocation in several contexts\<close>

text \<open>Page table code changes only the kernel's context, and not even that one while it is locked.\<close>

definition ctx_frame :: "u32 \<Rightarrow> vm \<Rightarrow> vm \<Rightarrow> bool" where
  "ctx_frame K s s' \<longleftrightarrow> VM_KERNEL s' = VM_KERNEL s \<and> (\<forall>x. x \<noteq> K \<or> vc_lock (ctxs s K) \<longrightarrow> ctxs s' x = ctxs s x)"

definition alloc_frame :: "u32 \<Rightarrow> table_allocator \<Rightarrow> bool" where
  "alloc_frame K alloc \<longleftrightarrow> (\<forall>s r s'. VM_KERNEL s = K \<longrightarrow> alloc s = Ret (r, s') \<longrightarrow> ctx_frame K s s')"

lemma ctx_frame_refl: "ctx_frame K s s"
  by (simp add: ctx_frame_def)

lemma ctx_frame_trans: "ctx_frame K s t \<Longrightarrow> ctx_frame K t u \<Longrightarrow> ctx_frame K s u"
  by (auto simp: ctx_frame_def)

lemma ctx_frame_same: "same_ctxs s s' \<Longrightarrow> ctx_frame K s s'"
  by (simp add: ctx_frame_def same_ctxs_def)

lemma set_page_steps:
  assumes "paging_set_page alloc d v p fl s = Ret s'"
  obtains "same_ctxs s s'" | r s1 where "alloc s = Ret (r, s1)" "same_ctxs s1 s'"
proof -
  obtain t where t: "deref s d = Some t" using assms by (auto simp: paging_set_page_def split: option.splits)
  show ?thesis
  proof (cases "pg_present (tabs s t (dir_index v))")
    case True
    then show ?thesis using assms t that(1) by (auto simp: paging_set_page_def elim!: obind_RetE dest: set_entry_same)
  next
    case False
    then obtain r s1 s2 where "alloc s = Ret (Some r, s1)" "same_ctxs s1 s2" "same_ctxs s2 s'"
      using assms t by (auto simp: paging_set_page_def elim!: obind_RetE split: option.splits dest!: set_entry_same)
    then show ?thesis using that(2) by (simp add: same_ctxs_def)
  qed
qed

lemma set_page_frame:
  assumes "alloc_frame K alloc" "VM_KERNEL s = K" "paging_set_page alloc d v p fl s = Ret s'"
  shows "ctx_frame K s s'"
  using assms(3)
proof (rule set_page_steps)
  fix r s1 assume a: "alloc s = Ret (r, s1)" "same_ctxs s1 s'"
  then have "ctx_frame K s s1" using assms(1,2) by (simp add: alloc_frame_def)
  then show ?thesis using ctx_frame_same [OF a(2)] by (rule ctx_frame_trans)
qed (rule ctx_frame_same)

lemma set_range_frame:
  assumes "alloc_frame K alloc" "VM_KERNEL s = K" "paging_set_range alloc d v p sz fl s = Ret s'"
  shows "ctx_frame K s s'"
proof -
  have "set_pages alloc d v p fl n s = Ret s' \<Longrightarrow> VM_KERNEL s = K \<Longrightarrow> ctx_frame K s s'" for n
  proof (induction n arbitrary: v p s)
    case (Suc n)
    then obtain s1 where s1: "paging_set_page alloc d v p fl s = Ret s1" "set_pages alloc d (v + PAGE_SIZE) (p + PAGE_SIZE) fl n s1 = Ret s'"
      by (auto elim!: obind_RetE)
    have "ctx_frame K s s1" by (rule set_page_frame [OF assms(1) Suc.prems(2) s1(1)])
    moreover from this have "ctx_frame K s1 s'" using Suc.IH [OF s1(2)] Suc.prems(2) by (simp add: ctx_frame_def)
    ultimately show ?case by (rule ctx_frame_trans)
  qed (simp add: ctx_frame_refl)
  then show ?thesis using assms(2,3) by (auto simp: paging_set_range_def split: if_splits)
qed

lemma clear_range_frame: "paging_clear_range d v sz s = Ret s' \<Longrightarrow> ctx_frame K s s'"
  by (auto simp: paging_clear_range_def split: if_splits intro: ctx_frame_same clear_pages_same)

lemma upd_kernel_frame: "\<not> vc_lock (ctxs s K) \<Longrightarrow> ctx_frame K s (upd_ctx K f s)"
  by (simp add: ctx_frame_def)

lemma zero_range_frame:
  assumes al: "alloc_frame K alloc" and K: "VM_KERNEL s = K" and z: "zero_range alloc ctx sz virt phys s = Ret (ph, s')"
  shows "ctx_frame K s s'"
proof (cases "ctx = K")
  case True
  then show ?thesis using z K by (auto simp: zero_range_def elim!: obind_RetE intro: ctx_frame_same bzero_pages_same)
next
  case False
  obtain za c where a: "alloc_virt (ctxs s K) sz 0 False = (za, c)" by fastforce
  let ?s = "upd_ctx K (\<lambda>_. c) s"
  have l: "\<not> vc_lock (ctxs s K)" using z False K by (auto simp: zero_range_def acquire_def split: if_splits)
  have f0: "ctx_frame K s ?s" using upd_kernel_frame [OF l] .
  show ?thesis
  proof (cases "za = 0")
    case True
    then show ?thesis using z False K a f0 by (auto simp: zero_range_def Let_def)
  next
    case nz: False
    then obtain s1 s2 s3 where s: "paging_set_range alloc (vc_page_dir (ctxs ?s K)) za phys (sz * PAGE_SIZE) VM_RW ?s = Ret s1"
        "bzero_pages za (unat sz) s1 = Ret s2" "paging_clear_range (vc_page_dir (ctxs s2 (VM_KERNEL s2))) za (sz * PAGE_SIZE) s2 = Ret s3"
        "s' = upd_ctx (VM_KERNEL s3) (\<lambda>c. c\<lparr>vc_bitmap := bitmap_clear (vc_bitmap c) (za div PAGE_SIZE) (RDIV sz PAGE_SIZE)\<rparr>) s3"
      using z False K a by (auto simp: zero_range_def Let_def elim!: obind_RetE)
    have "ctx_frame K ?s s1" using set_range_frame [OF al _ s(1)] K by simp
    then have "ctx_frame K s s3"
      using f0 ctx_frame_same [OF bzero_pages_same [OF s(2)], of K] clear_range_frame [OF s(3), of K] by (blast intro: ctx_frame_trans)
    then show ?thesis using l K by (auto simp: ctx_frame_def s(4))
  qed
qed

lemma setup_phys_frame:
  assumes al: "alloc_frame K alloc" and K: "VM_KERNEL s = K" and z: "setup_phys alloc ctx sz virt phys flags s = Ret (ph, s')"
  shows "ctx_frame K s s'"
proof -
  obtain p1 s1 where s1: "(if phys = 0 then obind (mem_page_alloc (phys_alloc s) sz) (\<lambda>(p, pc). Ret (p, s\<lparr>phys_alloc := pc\<rparr>)) else Ret (phys, s)) = Ret (p1, s1)"
      "(if p1 = 0 then Ret (0, s1)
        else obind (if vc_page_dir (ctxs s1 ctx) \<noteq> 0 then paging_set_range alloc (vc_page_dir (ctxs s1 ctx)) virt p1 (sz * PAGE_SIZE) flags s1 else Ret s1)
          (\<lambda>s. if flags AND VM_ZERO \<noteq> 0 then zero_range alloc ctx sz virt p1 s else Ret (p1, s))) = Ret (ph, s')"
    using z by (auto simp: setup_phys_def obind_Ret)
  have f1: "ctx_frame K s s1" using s1(1) by (auto simp: obind_Ret ctx_frame_def split: if_splits)
  show ?thesis
  proof (cases "p1 = 0")
    case True
    then show ?thesis using s1(2) f1 by simp
  next
    case False
    then obtain s2 where s2: "(if vc_page_dir (ctxs s1 ctx) \<noteq> 0 then paging_set_range alloc (vc_page_dir (ctxs s1 ctx)) virt p1 (sz * PAGE_SIZE) flags s1 else Ret s1) = Ret s2"
        "(if flags AND VM_ZERO \<noteq> 0 then zero_range alloc ctx sz virt p1 s2 else Ret (p1, s2)) = Ret (ph, s')"
      using s1(2) by (auto simp: obind_Ret)
    have K1: "VM_KERNEL s1 = K" using f1 K by (simp add: ctx_frame_def)
    have f2: "ctx_frame K s1 s2" using s2(1) set_range_frame [OF al K1] ctx_frame_refl by (auto split: if_splits)
    then have "VM_KERNEL s2 = K" using K1 by (simp add: ctx_frame_def)
    then have "ctx_frame K s2 s'" using s2(2) zero_range_frame [OF al] ctx_frame_refl by (auto split: if_splits)
    then show ?thesis using f1 f2 ctx_frame_trans by blast
  qed
qed

lemma table_alloc_frame: "alloc_frame K (table_alloc n)"
proof (induction n)
  case 0
  then show ?case by (simp add: alloc_frame_def)
next
  case (Suc n)
  show ?case
    unfolding alloc_frame_def
  proof (intro allI impI)
    fix s r s' assume K: "VM_KERNEL s = K" and t: "table_alloc (Suc n) s = Ret (r, s')"
    then obtain v where a: "vm_alloc_at (table_alloc n) K 1 0 0 (VM_RW OR VM_ZERO) s = Ret (v, r, s')" by (auto simp: obind_Ret)
    obtain w c where w: "alloc_virt (ctxs s K) 1 0 ((VM_RW OR VM_ZERO) AND VM_FIXED \<noteq> 0) = (w, c)" by fastforce
    have l: "\<not> vc_lock (ctxs s K)" using a by (auto simp: vm_alloc_at_def acquire_def split: if_splits)
    show "ctx_frame K s s'"
    proof (cases "w = 0")
      case True
      then show ?thesis using a w upd_kernel_frame [OF l] by (auto simp: vm_alloc_at_def Let_def)
    next
      case False
      then obtain ph s1 self s2 where s: "setup_phys (table_alloc n) K 1 w 0 (VM_RW OR VM_ZERO) (upd_ctx K (\<lambda>_. c) s) = Ret (ph, s1)"
          "new_range s1 = Ret (self, s2)" "s' = upd_ctx K (\<lambda>c. c\<lparr>vc_lock := True\<rparr>) s2 \<or> s' = insert_range K (mk_range self K w ph 1 (VM_RW OR VM_ZERO)) s2"
        using a w by (auto simp: vm_alloc_at_def Let_def obind_Ret split: if_splits)
      have "ctx_frame K (upd_ctx K (\<lambda>_. c) s) s1" using setup_phys_frame [OF Suc _ s(1)] K by simp
      then have "ctx_frame K s s2"
        using upd_kernel_frame [OF l, of "\<lambda>_. c"] ctx_frame_same [OF new_range_inv [OF s(2)], of K] by (blast intro: ctx_frame_trans)
      then show ?thesis using s(3) l by (auto simp: ctx_frame_def insert_range_def)
    qed
  qed
qed

lemma get_range_free:
  assumes "bm_ok bm" "bitmap_get_range bm num sz = 0" "unat num + unat sz \<le> 2 ^ 20"
  shows "free_run bm (unat num) (unat sz)"
proof (rule free_runI)
  fix k assume k: "unat num \<le> k" "k < unat num + unat sz"
  have "bm_size bm = 0xfffff" using assms(1) by (simp add: bm_ok_def PAGE_ALLOC_BITMAP_SIZE_def PAGE_SIZE_def)
  then have "unat (bitmap_size (bm_size bm)) = 32768" by (simp add: bitmap_size_def)
  then show "\<not> bitmap_bit bm k" using k assms(3) by (intro bitmap_get_range_zero [OF assms(2) _ k]) simp_all
qed

lemma many_search_free:
  assumes "many_search bm bms start sz = Some (num, bm')" "bm_ok bm" "list_all bm_ok bms" "0 < sz"
  shows "bm_size bm' = bm_size bm \<and> (\<forall>k. bitmap_bit bm' k = bitmap_bit bm k) \<and>
    (num \<noteq> - 1 \<longrightarrow> free_run bm (unat num) (unat sz) \<and> 0 < unat num \<and> unat num + unat sz \<le> 2 ^ 20 \<and>
       list_all (\<lambda>b. free_run b (unat num) (unat sz)) bms)"
proof -
  let ?P = "\<lambda>bm bms start sz y. bm_ok bm \<longrightarrow> list_all bm_ok bms \<longrightarrow> 0 < sz \<longrightarrow>
     bm_size (snd y) = bm_size bm \<and> (\<forall>k. bitmap_bit (snd y) k = bitmap_bit bm k) \<and>
     (fst y \<noteq> - 1 \<longrightarrow> free_run bm (unat (fst y)) (unat sz) \<and> 0 < unat (fst y) \<and> unat (fst y) + unat sz \<le> 2 ^ 20 \<and>
       list_all (\<lambda>b. free_run b (unat (fst y)) (unat sz)) bms)"
  have "?P bm bms start sz (num, bm')"
  proof (rule many_search.raw_induct [OF _ assms(1), where P = ?P], intro impI)
    fix f bm bms start sz y
    assume IH: "\<And>bm bms start sz y. f bm bms start sz = Some y \<Longrightarrow> ?P bm bms start sz y"
      and eq: "(let (page_num, bm) = bitmap_find bm start sz
           in if page_num = - 1 then Some (page_num, bm)
              else if list_all (\<lambda>b. bitmap_get_range b page_num sz = 0) bms then Some (page_num, bm) else f bm bms (page_num + 1) sz) = Some y"
      and ok: "bm_ok bm" "list_all bm_ok bms" "0 < (sz :: u32)"
    obtain n b where b: "bitmap_find bm start sz = (n, b)" by fastforce
    have fr: "bm_size b = bm_size bm" "\<And>k. bitmap_bit b k = bitmap_bit bm k"
      using bitmap_find_frame [of bm start sz] bitmap_find_bit [of bm start sz] by (simp_all add: b)
    have okb: "bm_ok b" using ok(1) fr by (simp add: bm_ok_def)
    have frb: "free_run b p m = free_run bm p m" for p m by (simp add: free_run_def fr)
    show "bm_size (snd y) = bm_size bm \<and> (\<forall>k. bitmap_bit (snd y) k = bitmap_bit bm k) \<and>
      (fst y \<noteq> - 1 \<longrightarrow> free_run bm (unat (fst y)) (unat sz) \<and> 0 < unat (fst y) \<and> unat (fst y) + unat sz \<le> 2 ^ 20 \<and>
       list_all (\<lambda>b. free_run b (unat (fst y)) (unat sz)) bms)"
    proof (cases "n = - 1 \<or> list_all (\<lambda>b. bitmap_get_range b n sz = 0) bms")
      case True
      then have "y = (n, b)" using eq b by (auto split: if_splits)
      then show ?thesis using True fr bitmap_find_inside [OF ok(1,3) b] get_range_free ok(2) by (auto simp: list_all_iff)
    next
      case False
      then have "f b bms (n + 1) sz = Some y" using eq b by auto
      from IH [OF this] show ?thesis using okb ok(2,3) fr frb by simp
    qed
  qed
  then show ?thesis using assms(2-4) by simp
qed

lemma many_setup_inv:
  assumes al: "alloc_keeps C K alloc" "alloc_frame K alloc" and n: "0 < unat num" "unat num + unat sz \<le> 2 ^ 20" "0 < sz"
  shows "vm_inv C K R s \<Longrightarrow> distinct (map fst todo) \<Longrightarrow>
    (\<And>c. c \<in> fst ` set todo \<Longrightarrow> c \<in> C \<and> vc_lock (ctxs s c) \<and> free_run (vc_bitmap (ctxs s c)) (unat num) (unat sz)) \<Longrightarrow>
    many_setup alloc all todo num sz phys rs s = Ret (v, rs', s') \<Longrightarrow> vm_inv C K R s'"
proof (induction todo arbitrary: phys rs s)
  case (Cons e todo)
  obtain c fl where e: "e = (c, fl)" by (cases e)
  let ?P = "{unat num..<unat num + unat sz}" and ?R = "R(c := R c \<union> {unat num..<unat num + unat sz})"
  let ?s = "upd_ctx c (\<lambda>c. c\<lparr>vc_bitmap := bitmap_set (vc_bitmap c) num sz\<rparr>) s"
  have c: "c \<in> C" "vc_lock (ctxs s c)" "free_run (vc_bitmap (ctxs s c)) (unat num) (unat sz)" using Cons.prems(3) by (auto simp: e)
  have ci: "ctx_inv (R c) (ctxs s c)" using Cons.prems(1) c(1) by (simp add: vm_inv_def)
  have rs: "reserves (ctxs s c) ((ctxs s c)\<lparr>vc_bitmap := bitmap_set (vc_bitmap (ctxs s c)) num sz\<rparr>) (unat num) (unat sz)"
    using bitmap_set_bit [of num sz "vc_bitmap (ctxs s c)"] n by (auto simp: reserves_def)
  have i0: "vm_inv C K ?R ?s"
    using Cons.prems(1) ctx_inv_reserve [OF ci rs c(3)] by (auto simp: vm_inv_def)
  have disj: "R c \<inter> ?P = {}" using ci free_runD [OF c(3)] by (auto simp: ctx_inv_def)
  obtain ph s1 self s2 where s: "setup_phys alloc c sz (num * PAGE_SIZE) phys fl ?s = Ret (ph, s1)" "new_range s1 = Ret (self, s2)"
      "(if self = 0 then Ret (0, rev rs, release_all all s2)
        else many_setup alloc all todo num sz ph (mk_range self c (num * PAGE_SIZE) ph sz fl # rs)
          (upd_ctx c (\<lambda>c. c\<lparr>vc_lock := False\<rparr>) (insert_range c (mk_range self c (num * PAGE_SIZE) ph sz fl) s2))) = Ret (v, rs', s')"
    using Cons.prems(4) [unfolded e many_setup.simps Let_def] by (auto elim!: obind_RetE)
  have szb: "unat sz \<le> 2 ^ 20" using n by simp
  have i2: "vm_inv C K ?R s2"
    using setup_phys_inv [OF al(1) i0 n(3) szb s(1)] new_range_inv [OF s(2)] vm_inv_same by blast
  show ?case
  proof (cases "self = 0")
    case True
    then show ?thesis using s(3) release_all_inv [OF vm_inv_weaken [OF i2]] by auto
  next
    case False
    have v: "num * PAGE_SIZE = of_nat (4096 * unat num)" by (simp add: PAGE_SIZE_def mult.commute)
    let ?s3 = "upd_ctx c (\<lambda>c. c\<lparr>vc_lock := False\<rparr>) (insert_range c (mk_range self c (num * PAGE_SIZE) ph sz fl) s2)"
    have i3: "vm_inv C K R ?s3" using vm_inv_lock [OF insert_range_inv [OF i2 c(1) n(1,2,3) disj]] v by simp
    have "VM_KERNEL ?s = K" using i0 by (simp add: vm_inv_def)
    then have "ctx_frame K ?s s2"
      using setup_phys_frame [OF al(2) _ s(1)] ctx_frame_same [OF new_range_inv [OF s(2)]] ctx_frame_trans by blast
    moreover have "x \<noteq> c \<and> vc_lock (ctxs s x)" if "x \<in> fst ` set todo" for x using that Cons.prems(2) Cons.prems(3) [of x] by (auto simp: e)
    ultimately have "ctxs ?s3 x = ctxs s x" if "x \<in> fst ` set todo" for x
      using that by (cases "x = K") (auto simp: ctx_frame_def insert_range_def)
    then show ?thesis using False s(3) Cons.prems(2,3) by (intro Cons.IH [OF i3]) (auto simp: e)
  qed
qed simp

lemma lock_all_frame:
  "lock_all cs s = Ret s' \<Longrightarrow> distinct cs \<and> VM_KERNEL s' = VM_KERNEL s \<and>
     (\<forall>x. ctxs s' x = (if x \<in> set cs then (ctxs s x)\<lparr>vc_lock := True\<rparr> else ctxs s x)) \<and> (\<forall>x \<in> set cs. \<not> vc_lock (ctxs s x))"
proof (induction cs arbitrary: s)
  case (Cons c cs)
  then have "\<not> vc_lock (ctxs s c)" "lock_all cs (upd_ctx c (\<lambda>c. c\<lparr>vc_lock := True\<rparr>) s) = Ret s'" by simp_all
  with Cons.IH [OF this(2)] show ?case by (auto split: if_splits)
qed simp

lemma vm_alloc_many_inv:
  assumes al: "alloc_keeps C K alloc" "alloc_frame K alloc" and inv: "vm_inv C K R s" and C: "fst ` set reqs \<subseteq> C" and sz: "0 < sz"
    and m: "vm_alloc_many alloc reqs sz phys s = Ret (v, rs, s')"
  shows "vm_inv C K R s'"
proof -
  obtain s1 where l: "lock_all (map fst reqs) s = Ret s1" using m by (auto simp: vm_alloc_many_def elim!: obind_RetE)
  note fr = lock_all_frame [OF l]
  have i1: "vm_inv C K R s1" using inv fr by (auto simp: vm_inv_def)
  have "reqs \<noteq> []" using m l by (auto simp: vm_alloc_many_def)
  then obtain c cs where cs: "map fst reqs = c # cs" by (cases "map fst reqs") auto
  let ?bms = "map (\<lambda>c. vc_bitmap (ctxs s1 c)) cs"
  obtain num bm where b: "many_search (vc_bitmap (ctxs s1 c)) ?bms 0 sz = Some (num, bm)"
    using m l cs by (auto simp: vm_alloc_many_def split: option.splits)
  have in_C: "c \<in> C" "set cs \<subseteq> C" using C cs by (metis image_set list.set(2) insert_subset)+
  then have ok: "bm_ok (vc_bitmap (ctxs s1 c))" "list_all bm_ok ?bms" using i1 by (auto simp: vm_inv_def ctx_inv_def list_all_iff)
  note ms = many_search_free [OF b ok sz]
  let ?s = "upd_ctx c (\<lambda>c. c\<lparr>vc_bitmap := bm\<rparr>) s1"
  have "reserves (ctxs s1 c) ((ctxs s1 c)\<lparr>vc_bitmap := bm\<rparr>) 0 0" using ms by (auto simp: reserves_def)
  then have "ctx_inv (R c) ((ctxs s1 c)\<lparr>vc_bitmap := bm\<rparr>)" using i1 in_C by (auto simp: vm_inv_def intro: ctx_inv_reserve_none)
  then have i2: "vm_inv C K R ?s" using i1 by (auto simp: vm_inv_def)
  show ?thesis
  proof (cases "num = - 1")
    case True
    then show ?thesis using m l cs b i2 by (auto simp: vm_alloc_many_def Let_def intro!: release_all_inv vm_inv_lock)
  next
    case False
    then have su: "many_setup alloc (map fst reqs) reqs num sz phys [] ?s = Ret (v, rs, s')" using m l cs b by (simp add: vm_alloc_many_def Let_def)
    have bits: "free_run (vc_bitmap (ctxs ?s x)) (unat num) (unat sz)" if "x \<in> set (c # cs)" for x
      using that ms False by (auto simp: free_run_def list_all_iff)
    have "x \<in> C \<and> vc_lock (ctxs ?s x) \<and> free_run (vc_bitmap (ctxs ?s x)) (unat num) (unat sz)" if "x \<in> fst ` set reqs" for x
    proof -
      have "x \<in> set (c # cs)" using that cs by (metis image_set)
      then show ?thesis using bits fr that C by (auto simp: cs)
    qed
    then show ?thesis using ms False fr sz by (intro many_setup_inv [OF al _ _ _ i2 _ _ su]) auto
  qed
qed

section \<open>Sequences of operations\<close>

datatype vm_op =
    AllocAt u32 u32 u32 u32 u32
  | AllocMany "(u32 \<times> u32) list" u32 u32
  | MapFrom u32 u32 u32 u32 u32
  | CopyTo u32 u32 vm_range u32
  | CloneTo u32 u32
  | FreeRange vm_range
  | PageDir u32

fun vm_exec :: "nat \<Rightarrow> vm_op \<Rightarrow> vm \<Rightarrow> vm outcome" where
  "vm_exec n (AllocAt ctx sz req phys flags) s = obind (vm_alloc_at (table_alloc n) ctx sz req phys flags s) (\<lambda>(_, _, s). Ret s)"
| "vm_exec n (AllocMany reqs sz phys) s = obind (vm_alloc_many (table_alloc n) reqs sz phys s) (\<lambda>(_, _, s). Ret s)"
| "vm_exec n (MapFrom ctx src addr sz flags) s = obind (vm_map (table_alloc n) ctx src addr sz flags s) (\<lambda>(_, _, s). Ret s)"
| "vm_exec n (CopyTo dest addr src flags) s = obind (vm_copy (table_alloc n) dest addr src flags s) (\<lambda>(_, _, s). Ret s)"
| "vm_exec n (CloneTo dest src) s = obind (vm_clone (table_alloc n) dest src s) (\<lambda>(_, s). Ret s)"
| "vm_exec n (FreeRange r) s = vm_free r s"
| "vm_exec n (PageDir ctx) s = obind (vm_pagedir (table_alloc n) ctx s) (\<lambda>(_, s). Ret s)"

fun vm_execs :: "nat \<Rightarrow> vm_op list \<Rightarrow> vm \<Rightarrow> vm outcome" where
  "vm_execs n [] s = Ret s"
| "vm_execs n (x # xs) s = obind (vm_exec n x s) (vm_execs n xs)"

text \<open>The arguments of the calls: contexts among \<open>C\<close>, at least one page, at most the whole address space.\<close>

fun vm_op_ok :: "u32 set \<Rightarrow> vm_op \<Rightarrow> bool" where
  "vm_op_ok C (AllocAt ctx sz req phys flags) \<longleftrightarrow> ctx \<in> C \<and> 0 < sz \<and> unat sz \<le> 2 ^ 20"
| "vm_op_ok C (AllocMany reqs sz phys) \<longleftrightarrow> fst ` set reqs \<subseteq> C \<and> 0 < sz"
| "vm_op_ok C (MapFrom ctx src addr sz flags) \<longleftrightarrow> ctx \<in> C \<and> 0 < RDIV (sz + addr mod PAGE_SIZE) PAGE_SIZE"
| "vm_op_ok C (CopyTo dest addr src flags) \<longleftrightarrow> dest \<in> C \<and> range_ok src"
| "vm_op_ok C (CloneTo dest src) \<longleftrightarrow> dest \<in> C \<and> src \<in> C"
| "vm_op_ok C (FreeRange r) \<longleftrightarrow> vr_ctx r \<in> C"
| "vm_op_ok C (PageDir ctx) \<longleftrightarrow> ctx \<in> C"

lemma vm_exec_inv:
  assumes "vm_inv C K R s" "vm_op_ok C x" "vm_exec n x s = Ret s'"
  shows "vm_inv C K R s'"
  using assms(2,3) table_alloc_keeps [of C K n] table_alloc_frame [of K n]
  by (cases x)
     (auto elim!: obind_RetE intro: vm_alloc_at_inv [OF _ assms(1)] vm_alloc_many_inv [OF _ _ assms(1)] vm_map_inv [OF _ assms(1)]
        vm_copy_inv [OF _ assms(1)] vm_clone_inv [OF _ assms(1)] vm_free_inv [OF assms(1)] vm_pagedir_inv [OF _ assms(1)])

lemma vm_execs_inv: "vm_inv C K R s \<Longrightarrow> list_all (vm_op_ok C) xs \<Longrightarrow> vm_execs n xs s = Ret s' \<Longrightarrow> vm_inv C K R s'"
proof (induction xs arbitrary: s)
  case (Cons x xs)
  then obtain s1 where "vm_exec n x s = Ret s1" "vm_execs n xs s1 = Ret s'" by (auto elim!: obind_RetE)
  then show ?case using vm_exec_inv [OF Cons.prems(1)] Cons by auto
qed simp

end
