(* ===== verification/Vm_Map.thy ===== *)
theory Vm_Map
  imports Vm_Props
begin

text \<open>
  The page tables of the kernel's context: what \<^verbatim>\<open>paging_set_range\<close> changes in the translation of addresses, and that
  \<^verbatim>\<open>vm_map\<close> makes the kernel see the memory of the source, byte by byte.
\<close>

section \<open>Addresses as page and offset\<close>

definition pg :: "u32 \<Rightarrow> u32" where
  "pg m = push_bit 12 m"

lemma pg_add: "pg a + pg b = pg (a + b)" and pg_diff: "pg a - pg b = pg (a - b)" and pg_0: "pg 0 = 0"
  by (simp_all add: pg_def push_bit_eq_mult algebra_simps)

lemma pg_of_nat: "of_nat (4096 * i) = pg (of_nat i)"
  by (simp add: pg_def push_bit_eq_mult mult.commute)

lemma low_take: "ofs < 4096 \<longleftrightarrow> take_bit 12 ofs = (ofs :: u32)"
proof
  show "ofs < 4096 \<Longrightarrow> take_bit 12 ofs = ofs" by (simp add: u32_eq_nat unat_take_bit_u32 u32_less_nat)
  assume "take_bit 12 ofs = ofs"
  then have "unat ofs mod 4096 = unat ofs" using unat_take_bit_u32 [of 12 ofs] by simp
  moreover have "unat ofs mod 4096 < 4096" by simp
  ultimately show "ofs < 4096" by (simp add: u32_less_nat)
qed

lemma low_bit: "ofs < 4096 \<Longrightarrow> bit (ofs :: u32) k \<Longrightarrow> k < 12"
  by (metis low_take bit_take_bit_iff)

lemma pg_or:
  assumes "ofs < 4096"
  shows "pg m + ofs = pg m OR ofs"
proof -
  have "pg m AND ofs = 0" by (rule bit_word_eqI) (auto simp: pg_def bit_simps dest: low_bit [OF assms])
  then show ?thesis by (simp add: disjunctive_add_eq_or)
qed

lemma pg_drop: "ofs < 4096 \<Longrightarrow> drop_bit 12 (pg m + ofs) = drop_bit 12 (pg m)"
  by (rule bit_word_eqI) (auto simp: pg_or bit_simps dest: low_bit)

lemma pg_low: "ofs < 4096 \<Longrightarrow> (pg m + ofs) AND 0xfff = ofs"
proof -
  assume o: "ofs < 4096"
  have m: "(0xfff :: u32) = mask 12" by (simp add: mask_eq_exp_minus_1)
  show ?thesis unfolding m pg_or [OF o] by (rule bit_word_eqI) (auto simp: pg_def bit_simps dest: low_bit [OF o])
qed

lemma pg_frame: "push_bit 12 (drop_bit 12 (pg m)) = pg m"
  by (rule bit_word_eqI) (auto simp: pg_def bit_simps)

lemma pg_drop_eq: "drop_bit 12 (pg a) = drop_bit 12 (pg b) \<longleftrightarrow> pg a = pg b"
  by (metis pg_frame)

lemma pg_align: "ofs < 4096 \<Longrightarrow> ALIGN_DOWN (pg m + ofs) PAGE_SIZE = pg m"
proof -
  assume o: "ofs < 4096"
  have m: "PAGE_SIZE - 1 = (mask 12 :: u32)" by (simp add: mask_eq_exp_minus_1 PAGE_SIZE_def)
  show ?thesis unfolding ALIGN_DOWN_def m pg_or [OF o] by (rule bit_word_eqI) (auto simp: pg_def bit_simps dest: low_bit [OF o])
qed

lemma pg_exists: "unat v mod 4096 = 0 \<Longrightarrow> \<exists>m. v = pg m"
proof -
  assume "unat v mod 4096 = 0"
  then have "take_bit 12 v = 0" by (simp add: u32_eq_nat unat_take_bit_u32)
  then have "v = pg (drop_bit 12 v)" using bits_ident [of 12 v] by (simp add: pg_def)
  then show ?thesis by blast
qed

lemma pg_split: "v = pg (drop_bit 12 v) + v mod PAGE_SIZE" and mod_page_low: "v mod PAGE_SIZE < 4096"
proof -
  have "unat (v mod PAGE_SIZE) = unat (take_bit 12 v)" by (simp add: unat_mod_u32 PAGE_SIZE_def unat_take_bit_u32)
  then have t: "v mod PAGE_SIZE = take_bit 12 v" by (simp add: u32_eq_nat)
  show "v = pg (drop_bit 12 v) + v mod PAGE_SIZE" unfolding t pg_def by (simp add: bits_ident)
  show "v mod PAGE_SIZE < 4096" by (simp add: u32_less_nat unat_mod_u32 PAGE_SIZE_def)
qed

section \<open>Translation\<close>

lemma indices: "dir_index x = unat (drop_bit 12 x) div 1024" "tab_index x = unat (drop_bit 12 x) mod 1024"
  by (simp_all add: dir_index_def tab_index_def drop_bit_eq_div unat_div_u32 unat_mod_u32 div_mult2_eq [symmetric])

lemma index_page:
  "dir_index v = dir_index w \<and> tab_index v = tab_index w \<longleftrightarrow> drop_bit 12 v = drop_bit 12 w"
  unfolding indices u32_eq_nat by (metis div_mult_mod_eq)

lemma dir_index_less: "dir_index v < 1024"
  using unat_u32_less [of v] by (simp add: dir_index_def drop_bit_eq_div unat_div_u32 div_less_iff_less_mult del: unat_u32_less)

text \<open>The kernel's directory is complete, and the kernel reaches the directory and its tables at their physical addresses.\<close>

definition ktab :: "vm \<Rightarrow> nat \<Rightarrow> u32" where
  "ktab s i = frame_addr (pg_frame (tabs s (paging_kernel_ctx s) i))"

definition kpages :: "vm \<Rightarrow> u32 set" where
  "kpages s = insert (paging_kernel_ctx s) (ktab s ` {..<1024})"

definition kernel_ok :: "vm \<Rightarrow> bool" where
  "kernel_ok s \<longleftrightarrow> paging_on s \<and> vc_page_dir (ctxs s (VM_KERNEL s)) = paging_kernel_ctx s \<and>
     (\<forall>i < 1024. pg_present (tabs s (paging_kernel_ctx s) i) \<and> ktab s i < paging_alloc_end s \<and> ktab s i \<noteq> paging_kernel_ctx s) \<and>
     inj_on (ktab s) {..<1024} \<and> (\<forall>p \<in> kpages s. deref s p = Some p)"

definition new_entry :: "u32 \<Rightarrow> u32 \<Rightarrow> page \<Rightarrow> page" where
  "new_entry phys flags e = e\<lparr>pg_present := True, pg_rw := (flags AND VM_RW \<noteq> 0), pg_user := (flags AND VM_USER \<noteq> 0), pg_frame := drop_bit 12 phys\<rparr>"

lemma kernel_set_page:
  assumes "kernel_ok s"
  shows "paging_set_page alloc (paging_kernel_ctx s) v phys flags s =
    Ret (upd_tab (ktab s (dir_index v)) (tab_index v) (new_entry phys flags) s)"
proof -
  let ?D = "paging_kernel_ctx s" and ?t = "ktab s (dir_index v)"
  have d: "deref s ?D = Some ?D" "deref s ?t = Some ?t" using assms dir_index_less [of v] by (auto simp: kernel_ok_def kpages_def)
  have p: "pg_present (tabs s ?D (dir_index v))" "?t < paging_alloc_end s" using assms dir_index_less [of v] by (auto simp: kernel_ok_def)
  have "table_ptr (tabs s ?D (dir_index v)) s = Ret ?t" using p(2) by (simp add: table_ptr_def ktab_def Let_def)
  then show ?thesis using d p(1) by (simp add: paging_set_page_def set_entry_def new_entry_def [abs_def])
qed

lemma upd_tab_tabs: "tabs (upd_tab t i f s) x = (if x = t then (tabs s t)(i := f (tabs s t i)) else tabs s x)"
  by (simp add: upd_tab_def)

text \<open>The state after the entry for one page was changed.\<close>

lemma kernel_walk_upd:
  fixes u :: u32 and f :: "page \<Rightarrow> page"
  assumes ok: "kernel_ok s"
  defines "s' \<equiv> upd_tab (ktab s (dir_index u)) (tab_index u) f s"
  shows "walk s' (paging_kernel_ctx s) v =
    (if drop_bit 12 v = drop_bit 12 u
     then (let e = f (tabs s (ktab s (dir_index u)) (tab_index u)) in if pg_present e then Some e else None)
     else walk s (paging_kernel_ctx s) v)"
proof -
  let ?D = "paging_kernel_ctx s"
  have ne: "ktab s i \<noteq> ?D" "pg_present (tabs s ?D i)" if "i < 1024" for i using ok that by (auto simp: kernel_ok_def)
  have D: "tabs s' ?D = tabs s ?D" using ne(1) [OF dir_index_less, of u] by (auto simp: s'_def upd_tab_tabs)
  have inj: "ktab s (dir_index v) = ktab s (dir_index u) \<longleftrightarrow> dir_index v = dir_index u"
    using ok dir_index_less by (auto simp: kernel_ok_def inj_on_def)
  have w: "walk x ?D v = (let e = tabs x (ktab s (dir_index v)) (tab_index v) in if pg_present e then Some e else None)"
    if "tabs x ?D = tabs s ?D" for x
    using ne(2) [OF dir_index_less, of v] that by (simp add: walk_def ktab_def Let_def)
  have "tabs s' (ktab s (dir_index v)) (tab_index v) =
      (if drop_bit 12 v = drop_bit 12 u then f (tabs s (ktab s (dir_index u)) (tab_index u)) else tabs s (ktab s (dir_index v)) (tab_index v))"
    using index_page [of v u] inj by (auto simp: s'_def upd_tab_tabs)
  then show ?thesis using w [OF D] w [OF refl] by simp
qed

lemma kernel_ok_upd:
  fixes u :: u32 and f :: "page \<Rightarrow> page"
  assumes ok: "kernel_ok s" and u: "\<And>p. p \<in> kpages s \<Longrightarrow> drop_bit 12 p \<noteq> drop_bit 12 u"
  defines "s' \<equiv> upd_tab (ktab s (dir_index u)) (tab_index u) f s"
  shows "kernel_ok s'" "kpages s' = kpages s"
proof -
  let ?D = "paging_kernel_ctx s"
  have D: "tabs s' ?D = tabs s ?D" using ok dir_index_less [of u] by (auto simp: s'_def upd_tab_tabs kernel_ok_def)
  have k: "ktab s' = ktab s" using D by (intro ext) (simp add: ktab_def s'_def)
  then show kp: "kpages s' = kpages s" by (simp add: kpages_def s'_def)
  have "deref s' p = Some p" if "p \<in> kpages s" for p
  proof -
    have "deref s' p = deref s p" using u [OF that] kernel_walk_upd [OF ok, of u f p] by (simp add: deref_def s'_def)
    then show ?thesis using ok that by (simp add: kernel_ok_def)
  qed
  then show "kernel_ok s'" using ok D k kp by (simp add: kernel_ok_def s'_def)
qed

section \<open>Mapping\<close>

lemma one_page: "paging_set_range alloc d v p PAGE_SIZE flags s = paging_set_page alloc d v p flags s"
proof -
  have "page_rounds PAGE_SIZE = Suc 0" by (simp add: page_rounds_def PAGE_SIZE_def)
  moreover have "obind x Ret = x" for x :: "vm outcome" by (cases x) simp_all
  moreover have "set_pages alloc d x y flags 0 = Ret" for x y by (rule ext) simp
  ultimately show ?thesis by (simp add: paging_set_range_def PAGE_SIZE_def)
qed

lemma add_shard_tabs: "tabs (add_shard c self sh s) = tabs s" "paging_kernel_ctx (add_shard c self sh s) = paging_kernel_ctx s"
  "paging_on (add_shard c self sh s) = paging_on s" "paging_alloc_end (add_shard c self sh s) = paging_alloc_end s"
  "VM_KERNEL (add_shard c self sh s) = VM_KERNEL s" "vc_page_dir (ctxs (add_shard c self sh s) x) = vc_page_dir (ctxs s x)"
  "vc_bitmap (ctxs (add_shard c self sh s) x) = vc_bitmap (ctxs s x)" "x \<noteq> c \<Longrightarrow> ctxs (add_shard c self sh s) x = ctxs s x"
  by (simp_all add: add_shard_def)

lemma kernel_ok_cong:
  assumes "tabs s' = tabs s" "paging_kernel_ctx s' = paging_kernel_ctx s" "paging_on s' = paging_on s" "paging_alloc_end s' = paging_alloc_end s"
    "vc_page_dir (ctxs s' (VM_KERNEL s')) = vc_page_dir (ctxs s (VM_KERNEL s))"
  shows "kernel_ok s' = kernel_ok s" "kpages s' = kpages s" "ktab s' = ktab s" "walk s' = walk s" "deref s' = deref s"
proof -
  show k: "ktab s' = ktab s" using assms by (intro ext) (simp add: ktab_def)
  then show p: "kpages s' = kpages s" using assms by (simp add: kpages_def)
  show w: "walk s' = walk s" using assms by (intro ext) (simp add: walk_def Let_def cong: if_cong)
  then show d: "deref s' = deref s" using assms by (intro ext) (simp add: deref_def)
  show "kernel_ok s' = kernel_ok s" unfolding kernel_ok_def k p d using assms by simp
qed

text \<open>The physical page that the source shows at page \<open>m\<close>, and what a mapping may show at all.\<close>

definition maps_page :: "vm_ctx \<Rightarrow> u32 \<Rightarrow> u32 \<Rightarrow> page option \<Rightarrow> u32 \<Rightarrow> bool" where
  "maps_page c flags addr e ofs \<longleftrightarrow>
     (\<exists>q en. get_range c (ALIGN_DOWN addr PAGE_SIZE + ofs) False = Some q \<and> vr_phys q \<noteq> 0 \<and>
       (flags AND VM_MAP_USER_ONLY \<noteq> 0 \<longrightarrow> vr_flags q AND VM_USER \<noteq> 0) \<and> e = Some en \<and> pg_present en \<and>
       pg_rw en = (flags AND VM_RW \<noteq> 0) \<and> pg_user en = (flags AND VM_USER \<noteq> 0) \<and>
       pg_frame en = drop_bit 12 (vr_phys q + ALIGN_DOWN (addr - vr_addr q) PAGE_SIZE + ofs))"

lemma map_loop_maps:
  assumes src: "src \<noteq> K" and flags: "flags AND VM_MAP_LESS_OK = 0"
  shows "kernel_ok s \<Longrightarrow> VM_KERNEL s = K \<Longrightarrow> unat ofs + 4096 * n < 2 ^ 32 \<Longrightarrow> unat ofs mod 4096 = 0 \<Longrightarrow>
    (\<And>p i. p \<in> kpages s \<Longrightarrow> i < n \<Longrightarrow> drop_bit 12 p \<noteq> drop_bit 12 (pg m + ofs + of_nat (4096 * i))) \<Longrightarrow>
    map_loop alloc K self (pg m) src addr flags ofs n s = Ret (True, s') \<Longrightarrow>
    kernel_ok s' \<and> paging_kernel_ctx s' = paging_kernel_ctx s \<and> ctxs s' src = ctxs s src \<and>
    (\<forall>i < n. maps_page (ctxs s src) flags addr (walk s' (paging_kernel_ctx s) (pg m + ofs + of_nat (4096 * i))) (ofs + of_nat (4096 * i))) \<and>
    (\<forall>v. (\<forall>i < n. drop_bit 12 v \<noteq> drop_bit 12 (pg m + ofs + of_nat (4096 * i))) \<longrightarrow>
      walk s' (paging_kernel_ctx s) v = walk s (paging_kernel_ctx s) v) \<and>
    VM_KERNEL s' = K \<and> kpages s' = kpages s \<and> vc_bitmap (ctxs s' K) = vc_bitmap (ctxs s K)"
proof (induction n arbitrary: ofs s)
  case (Suc n)
  let ?D = "paging_kernel_ctx s" and ?u = "pg m + ofs"
  obtain q where q: "get_range (ctxs s src) (ALIGN_DOWN addr PAGE_SIZE + ofs) False = Some q"
    using Suc.prems(6) flags by (auto split: option.splits)
  let ?p = "vr_phys q + ALIGN_DOWN (addr - vr_addr q) PAGE_SIZE + ofs"
  let ?s = "add_shard K self (?u, ?p) s"
  have cg: "kernel_ok ?s = kernel_ok s" "kpages ?s = kpages s" "ktab ?s = ktab s" "walk ?s = walk s"
    using Suc.prems(2) by (intro kernel_ok_cong; simp add: add_shard_tabs)+
  have c: "vr_phys q \<noteq> 0" "flags AND VM_MAP_USER_ONLY \<noteq> 0 \<longrightarrow> vr_flags q AND VM_USER \<noteq> 0"
    and r: "obind (paging_set_range alloc (vc_page_dir (ctxs ?s K)) ?u ?p PAGE_SIZE flags ?s)
        (map_loop alloc K self (pg m) src addr flags (ofs + PAGE_SIZE) n) = Ret (True, s')"
    using Suc.prems(6) q by (auto simp: Let_def split: if_splits)
  have dir: "vc_page_dir (ctxs ?s K) = paging_kernel_ctx ?s" using Suc.prems(1,2) by (simp add: add_shard_tabs kernel_ok_def)
  let ?s1 = "upd_tab (ktab s (dir_index ?u)) (tab_index ?u) (new_entry ?p flags) ?s"
  have ok: "kernel_ok ?s" using Suc.prems(1) cg(1) by simp
  have r1: "map_loop alloc K self (pg m) src addr flags (ofs + PAGE_SIZE) n ?s1 = Ret (True, s')"
    using r kernel_set_page [OF ok, of alloc ?u ?p flags] by (simp add: one_page dir cg(3))
  have u: "drop_bit 12 p \<noteq> drop_bit 12 ?u" if "p \<in> kpages s" for p using Suc.prems(5) [OF that, of 0] by simp
  have ok1: "kernel_ok ?s1" "kpages ?s1 = kpages s" using kernel_ok_upd [OF ok, of ?u] u cg by simp_all
  obtain o' where o: "ofs = pg o'" using pg_exists [OF Suc.prems(4)] by blast
  have step: "pg m + (ofs + PAGE_SIZE) + of_nat (4096 * i) = ?u + of_nat (4096 * Suc i)" "ofs + PAGE_SIZE + of_nat (4096 * i) = ofs + of_nat (4096 * Suc i)" for i
    by (simp_all add: PAGE_SIZE_def algebra_simps)
  have uo: "unat (ofs + PAGE_SIZE) = unat ofs + 4096" using Suc.prems(3) by (subst unat_add_u32) (simp_all add: PAGE_SIZE_def)
  have ne: "drop_bit 12 ?u \<noteq> drop_bit 12 (?u + of_nat (4096 * Suc i))" if "i < n" for i
  proof
    assume "drop_bit 12 ?u = drop_bit 12 (?u + of_nat (4096 * Suc i))"
    then have "pg (m + o') = pg (m + o' + of_nat (Suc i))" unfolding o pg_add pg_of_nat pg_drop_eq .
    then have "pg (of_nat (Suc i)) = 0" using pg_diff [of "m + o' + of_nat (Suc i)" "m + o'"] by simp
    then have "(of_nat (4096 * Suc i) :: u32) = 0" by (simp only: pg_of_nat)
    moreover have "4096 * Suc i < 2 ^ 32" using that Suc.prems(3) by simp
    ultimately show False using unat_of_nat_u32 [of "4096 * Suc i"] by (simp add: u32_eq_nat)
  qed
  have src1: "ctxs ?s1 src = ctxs s src" using src by (simp add: add_shard_tabs)
  have p1: "VM_KERNEL ?s1 = K" using Suc.prems(2) by (simp add: add_shard_tabs)
  have p2: "unat (ofs + PAGE_SIZE) + 4096 * n < 2 ^ 32" and p3: "unat (ofs + PAGE_SIZE) mod 4096 = 0" using Suc.prems(3,4) by (simp_all add: uo)
  have p4: "drop_bit 12 p \<noteq> drop_bit 12 (pg m + (ofs + PAGE_SIZE) + of_nat (4096 * i))" if "p \<in> kpages ?s1" "i < n" for p i
    unfolding step using that ok1(2) by (intro Suc.prems(5)) simp_all
  have IH: "kernel_ok s' \<and> paging_kernel_ctx s' = ?D \<and> ctxs s' src = ctxs s src \<and>
    (\<forall>i < n. maps_page (ctxs s src) flags addr (walk s' ?D (?u + of_nat (4096 * Suc i))) (ofs + of_nat (4096 * Suc i))) \<and>
    (\<forall>v. (\<forall>i < n. drop_bit 12 v \<noteq> drop_bit 12 (?u + of_nat (4096 * Suc i))) \<longrightarrow> walk s' ?D v = walk ?s1 ?D v) \<and>
    VM_KERNEL s' = K \<and> kpages s' = kpages s \<and> vc_bitmap (ctxs s' K) = vc_bitmap (ctxs s K)"
    using Suc.IH [OF ok1(1) p1 p2 p3 p4 r1] src ok1(2) unfolding step by (simp add: add_shard_tabs)
  have w1: "walk ?s1 ?D v = (if drop_bit 12 v = drop_bit 12 ?u then Some (new_entry ?p flags (tabs s (ktab s (dir_index ?u)) (tab_index ?u))) else walk s ?D v)" for v
    using kernel_walk_upd [OF ok, of ?u "new_entry ?p flags" v] by (simp add: add_shard_tabs cg new_entry_def)
  have "walk s' ?D ?u = walk ?s1 ?D ?u" using IH ne by blast
  then have "maps_page (ctxs s src) flags addr (walk s' ?D ?u) ofs"
    using q c by (auto simp: w1 maps_page_def new_entry_def)
  then have "\<forall>i < Suc n. maps_page (ctxs s src) flags addr (walk s' ?D (?u + of_nat (4096 * i))) (ofs + of_nat (4096 * i))"
    using IH by (auto simp: less_Suc_eq_0_disj simp del: of_nat_mult of_nat_Suc)
  moreover have "walk s' ?D v = walk s ?D v" if "\<forall>i < Suc n. drop_bit 12 v \<noteq> drop_bit 12 (?u + of_nat (4096 * i))" for v
  proof -
    have "\<forall>i < n. drop_bit 12 v \<noteq> drop_bit 12 (?u + of_nat (4096 * Suc i))" "drop_bit 12 v \<noteq> drop_bit 12 ?u"
      using that by (auto dest: spec [of _ 0])
    then show ?thesis using IH w1 by simp
  qed
  ultimately show ?case using IH by blast
qed simp

lemma page_number: "drop_bit 12 (v :: u32) = drop_bit 12 w \<longleftrightarrow> unat v div 4096 = unat w div 4096"
proof -
  have "unat (drop_bit 12 x) = unat x div 4096" for x :: u32 by (simp add: drop_bit_eq_div unat_div_u32)
  then show ?thesis by (metis word_unat_eq_iff)
qed

lemma unat_page: "p + i < 2 ^ 20 \<Longrightarrow> unat (pg (of_nat p) + of_nat (4096 * i)) div 4096 = p + i"
proof -
  assume a: "p + i < 2 ^ 20"
  have "pg (of_nat p) + of_nat (4096 * i) = of_nat (4096 * (p + i))" by (simp only: pg_of_nat pg_add of_nat_add)
  then have "unat (pg (of_nat p) + of_nat (4096 * i)) = 4096 * (p + i)" using a by (simp only:) (subst unat_of_nat_u32, simp_all)
  then show ?thesis by simp
qed

text \<open>An address and the start of its page lie in the same range.\<close>

lemma in_range_page:
  assumes "range_ok q" "ofs < 4096"
  shows "in_range False (pg a + ofs) q = in_range False (pg a) q"
proof -
  obtain b n where b: "unat (vr_addr q) = 4096 * b" "unat (vr_size q) = 4096 * n" "4096 * b + 4096 * n \<le> 2 ^ 32"
    using assms(1) by (auto simp: range_ok_def mod_eq_0_iff_dvd elim!: dvdE)
  have "unat (pg a) mod 4096 = 0"
  proof -
    have "take_bit 12 (pg a) = 0" by (rule bit_word_eqI) (auto simp: pg_def bit_simps)
    then show ?thesis using unat_take_bit_u32 [of 12 "pg a"] by simp
  qed
  then obtain k where k: "unat (pg a) = 4096 * k" by (auto simp: mod_eq_0_iff_dvd elim!: dvdE)
  have o: "unat ofs < 4096" using assms(2) by (simp add: u32_less_nat)
  have "4096 * k < 2 ^ 32" using unat_u32_less [of "pg a"] k by (simp del: unat_u32_less)
  then have "k < 2 ^ 20" by simp
  then have "4096 * k + 4095 < 2 ^ 32" by simp
  then have s: "unat (pg a + ofs) = 4096 * k + unat ofs" using o k by (subst unat_add_u32) simp_all
  have e: "unat (vr_addr q + vr_size q) = (if 4096 * b + 4096 * n = 2 ^ 32 then 0 else 4096 * b + 4096 * n)"
    using b by (simp add: unat_add_u32_mod)
  have "4096 * k + unat ofs < 4096 * m \<longleftrightarrow> k < m" for m
  proof (cases "k < m")
    case True
    then have "4096 * Suc k \<le> 4096 * m" by simp
    then show ?thesis using True o by simp
  qed simp
  from this [of b] this [of "b + n"] have "4096 * b \<le> 4096 * k + unat ofs \<longleftrightarrow> 4096 * b \<le> 4096 * k" "4096 * k + unat ofs < 4096 * b + 4096 * n \<longleftrightarrow> 4096 * k < 4096 * b + 4096 * n"
    by (simp_all add: distrib_left not_less [symmetric]) linarith
  then show ?thesis unfolding in_range_def Let_def u32_le_nat u32_less_nat if_False s k e b(1) by simp
qed

lemma get_range_page:
  assumes "\<forall>q \<in> set (vc_ranges c). range_ok q" "ofs < 4096"
  shows "get_range c (pg a + ofs) False = get_range c (pg a) False"
proof -
  have "(pg a + ofs) div PAGE_SIZE = pg a div PAGE_SIZE"
    using pg_drop [OF assms(2), of a] by (simp add: drop_bit_eq_div PAGE_SIZE_def)
  moreover have "find (in_range False (pg a + ofs)) (vc_ranges c) = find (in_range False (pg a)) (vc_ranges c)"
    using assms by (intro find_cong) (auto simp: in_range_page)
  ultimately show ?thesis by (simp add: get_range_def)
qed

text \<open>One byte of a mapped page.\<close>

lemma maps_page_byte:
  assumes c: "\<forall>q \<in> set (vc_ranges c). range_ok q \<and> unat (vr_phys q) mod 4096 = 0"
    and mp: "maps_page c flags (pg a + o1) e (pg i)" and low: "o1 < 4096" "o2 < 4096"
  shows "\<exists>q en. get_range c (pg a + pg i + o2) False = Some q \<and> (flags AND VM_MAP_USER_ONLY \<noteq> 0 \<longrightarrow> vr_flags q AND VM_USER \<noteq> 0) \<and>
    e = Some en \<and> frame_addr (pg_frame en) OR o2 = vr_phys q + (pg a + pg i + o2 - vr_addr q)"
proof -
  obtain q en where q: "get_range c (pg a + pg i) False = Some q" "flags AND VM_MAP_USER_ONLY \<noteq> 0 \<longrightarrow> vr_flags q AND VM_USER \<noteq> 0"
      "e = Some en" "pg_frame en = drop_bit 12 (vr_phys q + ALIGN_DOWN (pg a + o1 - vr_addr q) PAGE_SIZE + pg i)"
    using mp pg_align [OF low(1), of a] by (auto simp: maps_page_def)
  have "q \<in> set (vc_ranges c)" using q(1) by (auto simp: get_range_def find_Some_iff split: if_splits)
  then obtain b f where b: "vr_addr q = pg b" "vr_phys q = pg f"
    using c pg_exists [of "vr_addr q"] pg_exists [of "vr_phys q"] by (auto simp: range_ok_def)
  have d: "pg a + o1 - pg b = pg (a - b) + o1" using pg_diff [of a b] by simp
  have "pg_frame en = drop_bit 12 (pg (f + (a - b) + i))" using q(4) by (simp only: b d pg_align [OF low(1)] pg_add)
  then have "frame_addr (pg_frame en) OR o2 = pg (f + (a - b) + i) + o2" by (simp add: frame_addr_def pg_frame pg_or [OF low(2)])
  also have "\<dots> = vr_phys q + (pg a + pg i + o2 - vr_addr q)" by (simp add: b pg_add [symmetric] pg_diff [symmetric])
  finally show ?thesis using q(1-3) get_range_page [OF _ low(2), of c "a + i"] c by (auto simp: pg_add)
qed

lemma walk_page: "drop_bit 12 v = drop_bit 12 w \<Longrightarrow> walk s d v = walk s d w"
  using iffD2 [OF index_page [of v w]] by (simp only: walk_def)

lemma deref_page:
  assumes "paging_on s" "walk s (paging_kernel_ctx s) (pg m) = Some en" "o2 < 4096"
  shows "deref s (pg m + o2) = Some (frame_addr (pg_frame en) OR o2)"
  using assms walk_page [OF pg_drop [OF assms(3)], of s "paging_kernel_ctx s" m] by (simp add: deref_def pg_low)

lemma size_pages:
  assumes "unat sz + 8191 \<le> 2 ^ 32"
  shows "unat (RDIV (sz + addr mod PAGE_SIZE) PAGE_SIZE) = (unat sz + unat (addr mod PAGE_SIZE) + 4095) div 4096"
proof -
  have o: "unat (addr mod PAGE_SIZE) < 4096" using mod_page_low [of addr] by (simp add: u32_less_nat)
  have "unat (sz + addr mod PAGE_SIZE) = unat sz + unat (addr mod PAGE_SIZE)" using o assms by (subst unat_add_u32) simp_all
  then have "unat (sz + addr mod PAGE_SIZE + 4095) = unat sz + unat (addr mod PAGE_SIZE) + 4095" using o assms by (subst unat_add_u32) simp_all
  then show ?thesis by (simp add: RDIV_def unat_div_u32 PAGE_SIZE_def)
qed

text \<open>The call of \<^verbatim>\<open>vm_map\<close> into the kernel's context: the pages it reserves, and the loop over them.\<close>

lemma vm_map_kernel_loop:
  assumes ok: "kernel_ok s" and K: "VM_KERNEL s = K" "src \<noteq> K" and bm: "bm_ok (vc_bitmap (ctxs s K))"
    and sz: "0 < sz" "unat sz + 8191 \<le> 2 ^ 32"
    and m: "vm_map alloc K src addr sz flags s = Ret (v, r, s')" "v \<noteq> 0"
  shows "\<exists>p n self s1. n = (unat sz + unat (addr mod PAGE_SIZE) + 4095) div 4096 \<and> p + n \<le> 2 ^ 20 \<and> 0 < n \<and> 0 < p \<and>
    v = pg (of_nat p) + addr mod PAGE_SIZE \<and> free_run (vc_bitmap (ctxs s K)) p n \<and>
    map_loop alloc K self (pg (of_nat p)) src addr flags 0 n s1 = Ret (True, s') \<and>
    kernel_ok s1 \<and> VM_KERNEL s1 = K \<and> kpages s1 = kpages s \<and> walk s1 = walk s \<and> paging_kernel_ctx s1 = paging_kernel_ctx s \<and> ctxs s1 src = ctxs s src \<and>
    bm_ok (vc_bitmap (ctxs s1 K)) \<and> (\<forall>k. bitmap_bit (vc_bitmap (ctxs s1 K)) k \<longleftrightarrow> p \<le> k \<and> k < p + n \<or> bitmap_bit (vc_bitmap (ctxs s K)) k)"
proof -
  let ?ofs = "addr mod PAGE_SIZE" and ?sp = "RDIV (sz + addr mod PAGE_SIZE) PAGE_SIZE"
  let ?n = "(unat sz + unat (addr mod PAGE_SIZE) + 4095) div 4096"
  have n: "unat ?sp = ?n" by (rule size_pages [OF sz(2)])
  have z: "0 < unat sz" using sz(1) by (simp add: u32_less_nat)
  have n0: "0 < ?n" using z by (simp add: div_greater_zero_iff)
  have nb: "?n \<le> 2 ^ 20" using sz(2) mod_page_low [of addr] by (simp add: u32_less_nat)
  obtain virt c where a: "alloc_virt (ctxs s K) ?sp 0 False = (virt, c)" by fastforce
  have "0 < ?sp" using n n0 by (simp add: u32_less_nat)
  note av = alloc_virt_fresh [OF bm this _ a, unfolded n, OF nb]
  let ?s0 = "upd_ctx K (\<lambda>_. c) s"
  have vn: "virt \<noteq> 0" using m a by (auto simp: vm_map_def Let_def split: if_splits)
  then obtain p where p: "virt = pg (of_nat p)" "0 < p" "p + ?n \<le> 2 ^ 20" "free_run (vc_bitmap (ctxs s K)) p ?n" "reserves (ctxs s K) c p ?n"
    using av by (auto simp only: pg_of_nat)
  obtain self s2 where s2: "new_range ?s0 = Ret (self, s2)" "self \<noteq> 0"
    using m a vn by (auto simp: vm_map_def Let_def split: if_splits elim!: obind_RetE)
  let ?s1 = "insert_range K (mk_range self K virt 0 ?sp flags) s2"
  have "max 1 (unat ?sp) = ?n" using n n0 by simp
  then have l: "map_loop alloc K self virt src addr flags 0 ?n ?s1 = Ret (True, s')" "v = virt + ?ofs"
    using m a vn s2 by (auto simp: vm_map_def Let_def split: if_splits elim!: obind_RetE)
  have s2c: "tabs s2 = tabs ?s0" "ctxs s2 = ctxs ?s0" "VM_KERNEL s2 = VM_KERNEL ?s0" "paging_on s2 = paging_on ?s0"
    "paging_alloc_end s2 = paging_alloc_end ?s0" "paging_kernel_ctx s2 = paging_kernel_ctx ?s0"
    using s2(1) by (auto simp: new_range_def split: if_splits list.splits)
  have dir: "vc_page_dir c = vc_page_dir (ctxs s K)" using p(5) by (auto simp: reserves_def)
  have cg: "kernel_ok ?s1 = kernel_ok s" "kpages ?s1 = kpages s" "walk ?s1 = walk s"
    using K dir s2c by (intro kernel_ok_cong; simp add: insert_range_def)+
  have "VM_KERNEL ?s1 = K" "paging_kernel_ctx ?s1 = paging_kernel_ctx s" "ctxs ?s1 src = ctxs s src"
    using K s2c by (simp_all add: insert_range_def)
  moreover have "bm_ok (vc_bitmap (ctxs ?s1 K))" "\<forall>k. bitmap_bit (vc_bitmap (ctxs ?s1 K)) k \<longleftrightarrow> p \<le> k \<and> k < p + ?n \<or> bitmap_bit (vc_bitmap (ctxs s K)) k"
  proof -
    have b: "vc_bitmap (ctxs ?s1 K) = vc_bitmap c" using s2c(2) by (simp add: insert_range_def)
    show "bm_ok (vc_bitmap (ctxs ?s1 K))" unfolding b by (rule bm_ok_reserves [OF bm p(5)])
    show "\<forall>k. bitmap_bit (vc_bitmap (ctxs ?s1 K)) k \<longleftrightarrow> p \<le> k \<and> k < p + ?n \<or> bitmap_bit (vc_bitmap (ctxs s K)) k"
      unfolding b using p(5) unfolding reserves_def by (elim exE conjE) simp
  qed
  ultimately show ?thesis using p l cg ok n0 by (intro exI [of _ p] exI [of _ ?n] exI [of _ self] exI [of _ ?s1]) simp
qed

text \<open>Everything the kernel needs to know of its own page tables and of the source for a mapping.\<close>

definition map_ready :: "u32 \<Rightarrow> vm \<Rightarrow> bool" where
  "map_ready src s \<longleftrightarrow> kernel_ok s \<and> src \<noteq> VM_KERNEL s \<and> bm_ok (vc_bitmap (ctxs s (VM_KERNEL s))) \<and>
     (\<forall>p \<in> kpages s. bitmap_bit (vc_bitmap (ctxs s (VM_KERNEL s))) (unat p div 4096)) \<and>
     (\<forall>q \<in> set (vc_ranges (ctxs s src)). range_ok q \<and> unat (vr_phys q) mod 4096 = 0)"

text \<open>One mapping of another context's memory into the kernel: what it shows, what it leaves alone, and that the next one may follow.\<close>

lemma vm_map_step:
  assumes rdy: "map_ready src s" and sz: "0 < sz" "unat sz + 8191 \<le> 2 ^ 32" and fl: "flags AND VM_MAP_LESS_OK = 0"
    and m: "vm_map alloc (VM_KERNEL s) src addr sz flags s = Ret (v, r, s')" "v \<noteq> 0"
  shows "\<forall>x < unat sz. \<exists>q. get_range (ctxs s src) (addr + of_nat x) False = Some q \<and>
            (flags AND VM_MAP_USER_ONLY \<noteq> 0 \<longrightarrow> vr_flags q AND VM_USER \<noteq> 0) \<and>
            deref s' (v + of_nat x) = Some (vr_phys q + (addr + of_nat x - vr_addr q))"
    and "\<And>w. bitmap_bit (vc_bitmap (ctxs s (VM_KERNEL s))) (unat w div 4096) \<Longrightarrow> deref s' w = deref s w"
    and "map_ready src s'" "ctxs s' src = ctxs s src" "VM_KERNEL s' = VM_KERNEL s"
    and "\<And>k. bitmap_bit (vc_bitmap (ctxs s (VM_KERNEL s))) k \<Longrightarrow> bitmap_bit (vc_bitmap (ctxs s' (VM_KERNEL s))) k"
    and "\<And>x. x < unat sz \<Longrightarrow> bitmap_bit (vc_bitmap (ctxs s' (VM_KERNEL s))) (unat (v + of_nat x) div 4096)"
proof -
  let ?K = "VM_KERNEL s" and ?o = "addr mod PAGE_SIZE" and ?a = "drop_bit 12 addr" and ?D = "paging_kernel_ctx s"
  have rd: "kernel_ok s" "src \<noteq> ?K" "bm_ok (vc_bitmap (ctxs s ?K))" using rdy by (simp_all add: map_ready_def)
  obtain p n self s1 where n: "n = (unat sz + unat ?o + 4095) div 4096" "p + n \<le> 2 ^ 20" "0 < n" "0 < p" "v = pg (of_nat p) + ?o"
      "free_run (vc_bitmap (ctxs s ?K)) p n" and l: "map_loop alloc ?K self (pg (of_nat p)) src addr flags 0 n s1 = Ret (True, s')"
      and s1: "kernel_ok s1" "VM_KERNEL s1 = ?K" "kpages s1 = kpages s" "walk s1 = walk s" "paging_kernel_ctx s1 = ?D" "ctxs s1 src = ctxs s src"
      and bits: "bm_ok (vc_bitmap (ctxs s1 ?K))" "\<forall>k. bitmap_bit (vc_bitmap (ctxs s1 ?K)) k \<longleftrightarrow> p \<le> k \<and> k < p + n \<or> bitmap_bit (vc_bitmap (ctxs s ?K)) k"
    using vm_map_kernel_loop [OF rd(1) refl rd(2,3) sz m] by blast
  have num: "unat (pg (of_nat p) + 0 + of_nat (4096 * i)) div 4096 = p + i" if "i < n" for i using unat_page [of p i] that n(2) by simp
  have used: "drop_bit 12 w \<noteq> drop_bit 12 (pg (of_nat p) + 0 + of_nat (4096 * i))" if "bitmap_bit (vc_bitmap (ctxs s ?K)) (unat w div 4096)" "i < n" for w i
    using that n(6) by (auto simp only: page_number num free_run_def)
  have b: "unat (0 :: u32) + 4096 * n < 2 ^ 32" using n(2,4) by simp
  note ml = map_loop_maps [OF rd(2) fl s1(1,2) b _ _ l, unfolded s1(3-6)]
  have kp: "drop_bit 12 q \<noteq> drop_bit 12 (pg (of_nat p) + 0 + of_nat (4096 * i))" if "q \<in> kpages s" "i < n" for q i
    using used that rdy by (simp add: map_ready_def)
  have res: "kernel_ok s'" "paging_kernel_ctx s' = ?D"
      "\<And>i. i < n \<Longrightarrow> maps_page (ctxs s src) flags addr (walk s' ?D (pg (of_nat p) + pg (of_nat i))) (pg (of_nat i))"
      "\<And>w. (\<forall>i < n. drop_bit 12 w \<noteq> drop_bit 12 (pg (of_nat p) + 0 + of_nat (4096 * i))) \<Longrightarrow> walk s' ?D w = walk s ?D w"
      "VM_KERNEL s' = ?K" "kpages s' = kpages s" "vc_bitmap (ctxs s' ?K) = vc_bitmap (ctxs s1 ?K)" "ctxs s' src = ctxs s src"
    using ml kp by (simp_all add: pg_of_nat [symmetric])
  have on: "paging_on s'" "paging_on s" using res(1) rd(1) by (simp_all add: kernel_ok_def)
  have vx: "(unat ?o + x) div 4096 < n" "?o + of_nat x = pg (of_nat ((unat ?o + x) div 4096)) + of_nat ((unat ?o + x) mod 4096)"
      "of_nat ((unat ?o + x) mod 4096) < (4096 :: u32)" if x: "x < unat sz" for x
  proof -
    let ?i = "(unat ?o + x) div 4096" and ?o2 = "of_nat ((unat ?o + x) mod 4096) :: u32"
    have "(unat ?o + x + 4096) div 4096 \<le> n" unfolding n(1) using x by (intro div_le_mono) simp
    then show "?i < n" by simp
    have "unat ?o2 = (unat ?o + x) mod 4096" by (subst unat_of_nat_u32) simp_all
    then show "?o2 < 4096" by (simp add: u32_less_nat)
    show "?o + of_nat x = pg (of_nat ?i) + ?o2"
    proof -
      have "?o + of_nat x = of_nat (unat ?o + x)" by simp
      also have "\<dots> = of_nat (4096 * ?i + (unat ?o + x) mod 4096)" by (simp only: mult_div_mod_eq)
      finally show ?thesis by (simp only: of_nat_add pg_of_nat)
    qed
  qed
  have vp: "v + of_nat x = pg (of_nat p + of_nat ((unat ?o + x) div 4096)) + of_nat ((unat ?o + x) mod 4096)" if "x < unat sz" for x
    unfolding n(5) using vx(2) [OF that] by (simp only: add.assoc pg_add [symmetric])
  show "\<forall>x < unat sz. \<exists>q. get_range (ctxs s src) (addr + of_nat x) False = Some q \<and>
            (flags AND VM_MAP_USER_ONLY \<noteq> 0 \<longrightarrow> vr_flags q AND VM_USER \<noteq> 0) \<and>
            deref s' (v + of_nat x) = Some (vr_phys q + (addr + of_nat x - vr_addr q))"
  proof (intro allI impI)
    fix x assume x: "x < unat sz"
    let ?i = "(unat ?o + x) div 4096" and ?o2 = "of_nat ((unat ?o + x) mod 4096) :: u32"
    note i = vx(1) [OF x] and split = vx(2) [OF x] and o2 = vx(3) [OF x] and vx = vp [OF x]
    have ad: "addr + of_nat x = pg ?a + pg (of_nat ?i) + ?o2" using pg_split [of addr] split by (metis add.assoc)
    have "\<forall>q \<in> set (vc_ranges (ctxs s src)). range_ok q \<and> unat (vr_phys q) mod 4096 = 0" using rdy by (simp add: map_ready_def)
    from maps_page_byte [OF this _ mod_page_low [of addr] o2, where a = ?a] res(3) [OF i] pg_split [of addr]
    obtain q en where q: "get_range (ctxs s src) (pg ?a + pg (of_nat ?i) + ?o2) False = Some q"
        "flags AND VM_MAP_USER_ONLY \<noteq> 0 \<longrightarrow> vr_flags q AND VM_USER \<noteq> 0"
        "walk s' ?D (pg (of_nat p) + pg (of_nat ?i)) = Some en" "frame_addr (pg_frame en) OR ?o2 = vr_phys q + (pg ?a + pg (of_nat ?i) + ?o2 - vr_addr q)"
      by metis
    have "deref s' (v + of_nat x) = Some (frame_addr (pg_frame en) OR ?o2)"
      unfolding vx using q(3) by (intro deref_page [OF on(1) _ o2]) (simp only: res(2) pg_add)
    then show "\<exists>q. get_range (ctxs s src) (addr + of_nat x) False = Some q \<and>
            (flags AND VM_MAP_USER_ONLY \<noteq> 0 \<longrightarrow> vr_flags q AND VM_USER \<noteq> 0) \<and>
            deref s' (v + of_nat x) = Some (vr_phys q + (addr + of_nat x - vr_addr q))"
      unfolding ad using q by auto
  qed
  have d: "deref s' w = deref s w" if "bitmap_bit (vc_bitmap (ctxs s ?K)) (unat w div 4096)" for w
  proof -
    have "walk s' ?D w = walk s ?D w" using used that by (intro res(4)) blast
    then show ?thesis using on res(2) by (simp add: deref_def)
  qed
  then show "bitmap_bit (vc_bitmap (ctxs s ?K)) (unat w div 4096) \<Longrightarrow> deref s' w = deref s w" for w .
  show "ctxs s' src = ctxs s src" "VM_KERNEL s' = ?K" using res(5,8) by simp_all
  show "bitmap_bit (vc_bitmap (ctxs s ?K)) k \<Longrightarrow> bitmap_bit (vc_bitmap (ctxs s' ?K)) k" for k using bits(2) res(7) by simp
  then show "map_ready src s'" using rdy bits(1) res unfolding map_ready_def by simp
  show "bitmap_bit (vc_bitmap (ctxs s' ?K)) (unat (v + of_nat x) div 4096)" if "x < unat sz" for x
  proof -
    let ?i = "(unat ?o + x) div 4096" and ?o2 = "of_nat ((unat ?o + x) mod 4096) :: u32"
    have "drop_bit 12 (v + of_nat x) = drop_bit 12 (pg (of_nat p) + of_nat (4096 * ?i))"
      unfolding vp [OF that] by (simp only: pg_drop [OF vx(3) [OF that]] pg_of_nat pg_add)
    then have "unat (v + of_nat x) div 4096 = p + ?i" using unat_page [of p ?i] vx(1) [OF that] n(2) by (simp only: page_number)
    then show ?thesis using bits(2) res(7) vx(1) [OF that] by simp
  qed
qed


text \<open>A kernel whose tables map every address to itself, and a task with one page.\<close>

definition id_tabs :: "u32 \<Rightarrow> nat \<Rightarrow> page" where
  "id_tabs t i = \<lparr>pg_present = True, pg_rw = True, pg_user = False,
     pg_frame = (if t = 0x400000 then 0x401 + of_nat i else (drop_bit 12 t - 0x401) * 1024 + of_nat i)\<rparr>"

definition demo_kernel :: vm_ctx where
  "demo_kernel = \<lparr>vc_lock = False, vc_bitmap = \<lparr>bm_data = (\<lambda>k. if k = 1 then 0 else - 1), bm_size = PAGE_ALLOC_BITMAP_SIZE, first_free = 1\<rparr>,
     vc_ranges = [], vc_page_dir = 0x400000, vc_page_dir_phys = 0x400000\<rparr>"

definition demo_task :: vm_ctx where
  "demo_task = \<lparr>vc_lock = False, vc_bitmap = \<lparr>bm_data = (\<lambda>k. if k = 0 then 0x21 else 0), bm_size = PAGE_ALLOC_BITMAP_SIZE, first_free = 0\<rparr>,
     vc_ranges = [\<lparr>vr_self = 0x100, vr_ctx = 2, vr_addr = 0x5000, vr_size = 0x1000, vr_flags = VM_USER, vr_shards = [], vr_phys = 0x9000\<rparr>],
     vc_page_dir = 0, vc_page_dir_phys = 0\<rparr>"

definition demo_vm :: vm where
  "demo_vm = \<lparr>ctxs = (\<lambda>c. if c = 1 then demo_kernel else demo_task), VM_KERNEL = 1,
     phys_alloc = \<lparr>pa_lock = False, pa_bitmap = \<lparr>bm_data = (\<lambda>_. 0), bm_size = 0, first_free = 0\<rparr>\<rparr>, kmalloc_ready = True, have_malloc_ranges = 0,
     malloc_ranges = (\<lambda>_. 0), range_addrs = [0x200], tabs = id_tabs, pmem = (\<lambda>_. 0),
     paging_kernel_ctx = 0x400000, paging_alloc_end = 0x801000, paging_on = True\<rparr>"

lemma unat_id_simp: "of_nat (unat x) = (x :: u32)"
  by simp

lemma demo_ktab: "i < 1024 \<Longrightarrow> unat (ktab demo_vm i) = 4096 * (1025 + i)"
proof -
  assume i: "i < 1024"
  have "ktab demo_vm i = of_nat (4096 * (1025 + i))"
    by (simp add: ktab_def demo_vm_def id_tabs_def frame_addr_def push_bit_eq_mult algebra_simps)
  then show ?thesis using i by (simp only:) (subst unat_of_nat_u32, simp_all)
qed

lemma demo_deref: "deref demo_vm v = Some v"
proof -
  let ?i = "dir_index v" and ?j = "tab_index v"
  have n: "unat (drop_bit 12 v) = ?i * 1024 + ?j"
    by (simp add: indices)
  have k: "unat (ktab demo_vm ?i) = 4096 * (1025 + ?i)" using demo_ktab [OF dir_index_less] .
  then have "ktab demo_vm ?i \<noteq> 0x400000" by auto
  moreover have "drop_bit 12 (ktab demo_vm ?i) - 0x401 = of_nat ?i"
  proof -
    have "unat (drop_bit 12 (ktab demo_vm ?i)) = 1025 + ?i" using k by (simp add: drop_bit_eq_div unat_div_u32)
    then have "drop_bit 12 (ktab demo_vm ?i) = of_nat (1025 + ?i)" by (metis unat_id_simp)
    then show ?thesis by simp
  qed
  ultimately have "pg_frame (id_tabs (ktab demo_vm ?i) ?j) = of_nat (?i * 1024 + ?j)" by (simp add: id_tabs_def)
  then have f: "pg_frame (id_tabs (ktab demo_vm ?i) ?j) = drop_bit 12 v" by (simp only: n [symmetric] unat_id_simp)
  have "deref demo_vm v = Some (push_bit 12 (pg_frame (id_tabs (ktab demo_vm ?i) ?j)) OR (v AND 0xfff))"
    by (simp add: deref_def walk_def demo_vm_def ktab_def frame_addr_def Let_def) (simp add: id_tabs_def)
  also have "\<dots> = Some v"
  proof -
    have m: "(0xfff :: u32) = mask 12" by (simp add: mask_eq_exp_minus_1)
    show ?thesis unfolding f m option.inject by (rule bit_word_eqI) (auto simp: bit_simps)
  qed
  finally show ?thesis .
qed

lemma demo_kernel_ok: "kernel_ok demo_vm"
proof -
  have "ktab demo_vm i < 0x801000 \<and> ktab demo_vm i \<noteq> 0x400000" if "i < 1024" for i
  proof -
    have "unat (ktab demo_vm i) < 4096 * 2049" "unat (ktab demo_vm i) \<noteq> 4096 * 1024" using demo_ktab [OF that] that by simp_all
    then show ?thesis by (simp add: u32_less_nat) fastforce
  qed
  moreover have "inj_on (ktab demo_vm) {..<1024}"
  proof (rule inj_onI)
    fix i j assume a: "i \<in> {..<1024}" "j \<in> {..<1024}" "ktab demo_vm i = ktab demo_vm j"
    then have "4096 * (1025 + i) = 4096 * (1025 + j)" using demo_ktab [of i] demo_ktab [of j] by (simp only: lessThan_iff)
    then show "i = j" by simp
  qed
  moreover have "pg_present (tabs demo_vm (paging_kernel_ctx demo_vm) i)" for i by (simp add: demo_vm_def id_tabs_def)
  moreover have "paging_on demo_vm" "paging_kernel_ctx demo_vm = 0x400000" "paging_alloc_end demo_vm = 0x801000"
      "vc_page_dir (ctxs demo_vm (VM_KERNEL demo_vm)) = 0x400000"
    by (simp_all add: demo_vm_def demo_kernel_def)
  ultimately show ?thesis unfolding kernel_ok_def demo_deref by metis
qed

lemma demo_ready: "map_ready 2 demo_vm"
proof -
  have b: "bitmap_bit (vc_bitmap demo_kernel) k \<longleftrightarrow> k div 32 \<noteq> 1" for k by (simp add: demo_kernel_def bitmap_bit_def)
  have "bm_ok (vc_bitmap demo_kernel)" unfolding bm_ok_def b by (auto simp: demo_kernel_def)
  moreover have "bitmap_bit (vc_bitmap demo_kernel) (unat p div 4096)" if "p \<in> kpages demo_vm" for p
  proof -
    have "1024 \<le> unat p div 4096" using that demo_ktab by (auto simp: kpages_def demo_vm_def)
    then show ?thesis unfolding b by linarith
  qed
  moreover have "ctxs demo_vm (VM_KERNEL demo_vm) = demo_kernel" "ctxs demo_vm 2 = demo_task" "VM_KERNEL demo_vm = 1" by (simp_all add: demo_vm_def)
  ultimately show ?thesis using demo_kernel_ok by (simp add: map_ready_def demo_task_def range_ok_def)
qed

lemma demo_alloc_virt: "\<exists>bm. alloc_virt demo_kernel 1 0 False = (0x20000, demo_kernel\<lparr>vc_bitmap := bm\<rparr>)"
  by (simp add: alloc_virt_def demo_kernel_def bitmap_find_def find_loop.simps find_bits.simps bitmap_size_def Let_def bit_get_def
      PAGE_SIZE_def PAGE_ALLOC_BITMAP_SIZE_def ALIGN_DOWN_def)


lemma demo_ctxs: "ctxs demo_vm 1 = demo_kernel" "ctxs demo_vm 2 = demo_task" "VM_KERNEL demo_vm = 1" "vc_lock demo_kernel = False" "vc_lock demo_task = False"
  by (simp_all add: demo_vm_def demo_kernel_def demo_task_def)

lemma demo_map: "\<exists>r s'. vm_map (table_alloc 0) 1 2 0x5004 8 flags demo_vm = Ret (0x20004, Some r, s')"
proof -
  obtain bm where a: "alloc_virt demo_kernel 1 0 False = (0x20000, demo_kernel\<lparr>vc_bitmap := bm\<rparr>)" using demo_alloc_virt by blast
  let ?s1 = "insert_range 1 (mk_range 0x200 1 0x20000 0 1 flags) ((upd_ctx 1 (\<lambda>_. demo_kernel\<lparr>vc_bitmap := bm\<rparr>) demo_vm)\<lparr>range_addrs := []\<rparr>)"
  let ?s2 = "add_shard 1 0x200 (0x20000, 0x9000) ?s1"
  have g: "get_range demo_task 0x5000 False = Some \<lparr>vr_self = 0x100, vr_ctx = 2, vr_addr = 0x5000, vr_size = 0x1000, vr_flags = VM_USER, vr_shards = [], vr_phys = 0x9000\<rparr>"
    by (simp add: get_range_def demo_task_def bitmap_get_def bit_get_def bitmap_index_def bitmap_offset_def in_range_def PAGE_SIZE_def)
  have cg: "kernel_ok ?s2 = kernel_ok demo_vm"
    by (intro kernel_ok_cong) (simp_all add: add_shard_tabs insert_range_def demo_ctxs)
  have ok: "kernel_ok ?s2" unfolding cg by (rule demo_kernel_ok)
  have dir: "vc_page_dir (ctxs ?s2 1) = paging_kernel_ctx ?s2"
    by (simp add: add_shard_tabs insert_range_def demo_kernel_def) (simp add: demo_vm_def)
  have "ctxs ?s1 2 = demo_task" by (simp add: insert_range_def demo_ctxs)
  then have "\<exists>s'. map_loop (table_alloc 0) 1 0x200 0x20000 2 0x5004 flags 0 (Suc 0) ?s1 = Ret (True, s') \<and> (\<exists>r. vc_ranges (ctxs s' 1) = [r] \<and> vr_self r = 0x200)"
    using g dir kernel_set_page [OF ok, of "table_alloc 0" "0x20000" "0x9000" flags]
    by (simp add: ALIGN_DOWN_def PAGE_SIZE_def one_page [unfolded PAGE_SIZE_def] VM_USER_def Let_def)
       (simp add: add_shard_def insert_range_def demo_kernel_def mk_range_def)
  moreover have "new_range (upd_ctx 1 (\<lambda>_. demo_kernel\<lparr>vc_bitmap := bm\<rparr>) demo_vm) =
      Ret (0x200, (upd_ctx 1 (\<lambda>_. demo_kernel\<lparr>vc_bitmap := bm\<rparr>) demo_vm)\<lparr>range_addrs := []\<rparr>)"
    by (simp add: new_range_def upd_ctx_def demo_vm_def)
  ultimately show ?thesis
    by (auto simp: vm_map_def demo_ctxs a ALIGN_DOWN_def PAGE_SIZE_def RDIV_def Let_def)
qed


section \<open>Looking up ranges\<close>

lemma in_range_pages:
  assumes "range_ok r" "in_range False a r"
  shows "unat a div 4096 \<in> range_pages r"
proof -
  obtain b n where b: "unat (vr_addr r) = 4096 * b" "unat (vr_size r) = 4096 * n" "4096 * b + 4096 * n \<le> 2 ^ 32"
    using assms(1) by (auto simp: range_ok_def mod_eq_0_iff_dvd elim!: dvdE)
  have a: "4096 * b \<le> unat a" "unat a < unat (vr_addr r + vr_size r)" using assms(2) b by (simp_all add: in_range_def u32_le_nat u32_less_nat)
  have "unat (vr_addr r + vr_size r) \<le> 4096 * (b + n)" using b by (simp add: unat_add_u32_mod)
  then have "unat a < (b + n) * 4096" using a(2) by simp
  then have "unat a div 4096 < b + n" by (simp only: div_less_iff_less_mult [of 4096] zero_less_numeral)
  moreover have "b \<le> unat a div 4096" using div_le_mono [OF a(1), of 4096] by simp
  ultimately show ?thesis using b by (simp add: range_pages_def)
qed

lemma find_range:
  "sorted_wrt (\<lambda>r q. range_pages r \<inter> range_pages q = {}) rs \<Longrightarrow> \<forall>r \<in> set rs. range_ok r \<Longrightarrow> r \<in> set rs \<Longrightarrow> in_range False a r \<Longrightarrow>
    find (in_range False a) rs = Some r"
proof (induction rs)
  case (Cons q rs)
  show ?case
  proof (cases "in_range False a q")
    case True
    then have "q = r" using Cons.prems in_range_pages [of q a] in_range_pages [of r a] by fastforce
    then show ?thesis using True by simp
  qed (use Cons in auto)
qed simp



end
