(* ===== verification/Kmalloc.thy ===== *)
theory Kmalloc
  imports Spinlock
begin

text \<open>
  The kernel heap of \<^verbatim>\<open>src/mem/kmalloc.c\<close> in its default configuration (no canaries, no debug output).
  The heap is a sequence of blocks, each with an 8-byte header (size and type), the content, and an
  8-byte footer that repeats the size; free blocks are also linked in a doubly linked list whose
  links lie in their content. Memory is modelled by 32-bit words at their byte address: every header,
  footer and link is a word at an address that is a multiple of 4, as \<open>heap_aligned\<close> shows.
\<close>

section \<open>State and memory access\<close>

record kheap =
  kh_mem :: "u32 \<Rightarrow> u32"
  kmalloc_ready :: bool
  kmalloc_lock :: bool
  last_free :: u32
  alloc_start :: u32
  alloc_end :: u32
  alloc_max :: u32

definition store :: "u32 \<Rightarrow> u32 \<Rightarrow> kheap \<Rightarrow> kheap" where
  "store a v h = h\<lparr>kh_mem := (kh_mem h)(a := v)\<rparr>"

definition TYPE_USED :: u32 where "TYPE_USED = 0"

definition TYPE_FREE :: u32 where "TYPE_FREE = 1"

text \<open>The members of \<^verbatim>\<open>struct mem_block\<close> (\<^verbatim>\<open>size\<close>, \<^verbatim>\<open>type\<close>) and of \<^verbatim>\<open>struct free_block\<close> (\<^verbatim>\<open>prev\<close>, \<^verbatim>\<open>next\<close>).\<close>

definition mb_size :: "kheap \<Rightarrow> u32 \<Rightarrow> u32" where "mb_size h x = kh_mem h x"

definition mb_type :: "kheap \<Rightarrow> u32 \<Rightarrow> u32" where "mb_type h x = kh_mem h (x + 4)"

definition fb_prev :: "kheap \<Rightarrow> u32 \<Rightarrow> u32" where "fb_prev h fb = kh_mem h fb"

definition fb_next :: "kheap \<Rightarrow> u32 \<Rightarrow> u32" where "fb_next h fb = kh_mem h (fb + 4)"

lemmas member_defs = mb_size_def mb_type_def fb_prev_def fb_next_def

definition GET_FOOTER :: "kheap \<Rightarrow> u32 \<Rightarrow> u32" where "GET_FOOTER h x = x + mb_size h x + 8"

definition GET_CONTENT :: "u32 \<Rightarrow> u32" where "GET_CONTENT x = x + 8"

definition GET_HEADER_FROM_FB :: "u32 \<Rightarrow> u32" where "GET_HEADER_FROM_FB x = x - 8"

definition PREV_FOOTER :: "u32 \<Rightarrow> u32" where "PREV_FOOTER x = x - 8"

definition PREV_BLOCK :: "kheap \<Rightarrow> u32 \<Rightarrow> u32" where
  "PREV_BLOCK h x = PREV_FOOTER x - kh_mem h (PREV_FOOTER x) - 8"

definition NEXT_BLOCK :: "kheap \<Rightarrow> u32 \<Rightarrow> u32" where "NEXT_BLOCK h x = GET_FOOTER h x + 8"

definition FULL_SIZE :: "kheap \<Rightarrow> u32 \<Rightarrow> u32" where "FULL_SIZE h x = mb_size h x + 8 + 8"

lemmas block_macros = GET_FOOTER_def GET_CONTENT_def GET_HEADER_FROM_FB_def PREV_FOOTER_def
  PREV_BLOCK_def NEXT_BLOCK_def FULL_SIZE_def

section \<open>Blocks and the free list\<close>

definition unlink_free_block :: "u32 \<Rightarrow> kheap \<Rightarrow> kheap" where
  "unlink_free_block fb h =
     (let h1 = (if fb_next h fb \<noteq> 0 then store (fb_next h fb) (fb_prev h fb) h else h);
          h2 = (if fb_prev h1 fb \<noteq> 0 then store (fb_prev h1 fb + 4) (fb_next h1 fb) h1 else h1)
      in if fb = last_free h2 then h2\<lparr>last_free := fb_prev h2 fb\<rparr> else h2)"

definition set_block :: "u32 \<Rightarrow> u32 \<Rightarrow> kheap \<Rightarrow> kheap" where
  "set_block sz header h =
     (let h1 = store header sz h in store (GET_FOOTER h1 header) (mb_size h1 header) h1)"

text \<open>Returns the header of the block that now covers the freed area.\<close>

definition free_block :: "u32 \<Rightarrow> bool \<Rightarrow> kheap \<Rightarrow> u32 \<times> kheap" where
  "free_block header check_next h =
     (let prev = PREV_BLOCK h header;
          fb = GET_CONTENT header;
          (header, h) =
            (if alloc_start h < header \<and> mb_type h prev = TYPE_FREE
             then (prev, set_block (mb_size h prev + FULL_SIZE h header) prev h)
             else (let h = store (header + 4) TYPE_FREE h;
                       h = store fb (last_free h) h;
                       h = store (fb + 4) 0 h;
                       h = (if last_free h \<noteq> 0 then store (last_free h + 4) fb h else h)
                   in (header, h\<lparr>last_free := fb\<rparr>)));
          nxt = NEXT_BLOCK h header
      in if check_next \<and> nxt < alloc_end h \<and> mb_type h nxt = TYPE_FREE
         then (header, unlink_free_block (GET_CONTENT nxt) (set_block (mb_size h header + FULL_SIZE h nxt) header h))
         else (header, h))"

text \<open>A result of 0 stands for \<^verbatim>\<open>NULL\<close>: the block is too small to be split.\<close>

definition split_block :: "u32 \<Rightarrow> u32 \<Rightarrow> kheap \<Rightarrow> u32 \<times> kheap" where
  "split_block header sz h =
     (if mb_size h header < sz + 8 + 8 + 8 then (0, h)
      else let orig_size = mb_size h header;
               h = set_block sz header h;
               new_size = orig_size - sz - 8 - 8;
               new = NEXT_BLOCK h header
           in (new, set_block new_size new h))"

definition get_alignment_offset :: "u32 \<Rightarrow> u32" where
  "get_alignment_offset address =
     (let content_addr = GET_CONTENT address in
      if content_addr AND (PAGE_SIZE - 1) \<noteq> 0
      then let off = ALIGN content_addr PAGE_SIZE - content_addr in
           if off < 0x100 then off + PAGE_SIZE else off
      else 0)"

text \<open>The size a free block must have to serve a request, and the offset of the content in it.\<close>

definition fit_offset :: "u32 \<Rightarrow> bool \<Rightarrow> u32" where
  "fit_offset fblock align = (if align then get_alignment_offset fblock else 0)"

definition fit_size :: "u32 \<Rightarrow> u32 \<Rightarrow> bool \<Rightarrow> u32" where
  "fit_size fblock sz align = (if align then sz + (fit_offset fblock align + 8 + 8) else sz)"

text \<open>
  The walk along the \<^verbatim>\<open>prev\<close> links. A result of \<open>Some 0\<close> means that no block fits, \<open>None\<close> that the
  walk does not end.
\<close>

partial_function (option) find_fit :: "kheap \<Rightarrow> u32 \<Rightarrow> u32 \<Rightarrow> bool \<Rightarrow> u32 option" where
  "find_fit h fb sz align =
     (if fb = 0 then Some 0
      else let fblock = GET_HEADER_FROM_FB fb in
           if mb_type h fblock \<noteq> TYPE_FREE then find_fit h (fb_prev h fb) sz align
           else if fit_size fblock sz align \<le> mb_size h fblock then Some fb
           else find_fit h (fb_prev h fb) sz align)"

definition carve :: "u32 \<Rightarrow> u32 \<Rightarrow> bool \<Rightarrow> kheap \<Rightarrow> u32 \<times> kheap" where
  "carve fb sz align h =
     (let fblock = GET_HEADER_FROM_FB fb;
          h = unlink_free_block fb h;
          (new, h) = split_block fblock (sz + fit_offset fblock align) h
      in if new \<noteq> 0 then (fblock, snd (free_block new True (store (fblock + 4) TYPE_USED h)))
         else (fblock, h))"

definition get_free_block :: "u32 \<Rightarrow> bool \<Rightarrow> kheap \<Rightarrow> (u32 \<times> kheap) option" where
  "get_free_block sz align h =
     (case find_fit h (last_free h) sz align of
        None \<Rightarrow> None
      | Some fb \<Rightarrow> if fb = 0 then Some (0, h) else Some (carve fb sz align h))"

section \<open>The interface\<close>

text \<open>\<^verbatim>\<open>bzero\<close> on \<open>n\<close> bytes at an address that is a multiple of 4; the last word may be covered in part.\<close>

definition bzero_at :: "u32 \<Rightarrow> u32 \<Rightarrow> kheap \<Rightarrow> kheap" where
  "bzero_at dest n h = h\<lparr>kh_mem := (\<lambda>a.
     if a - dest < n then
       (if unat (a - dest) + 4 \<le> unat n then 0 else kh_mem h a AND NOT (mask (8 * (unat n mod 4))))
     else kh_mem h a)\<rparr>"

text \<open>A fresh block at the end of the heap.\<close>

definition extend_heap :: "u32 \<Rightarrow> kheap \<Rightarrow> u32 \<times> kheap" where
  "extend_heap sz h =
     (let header = alloc_end h; h = set_block sz header h in
      (header, h\<lparr>alloc_end := GET_FOOTER h header + 8\<rparr>))"

text \<open>
  Splits the part before the aligned content off and frees it. \<open>None\<close> stands for the early return of
  \<^verbatim>\<open>NULL\<close>, which leaves the lock held.
\<close>

definition align_block :: "u32 \<Rightarrow> u32 \<Rightarrow> kheap \<Rightarrow> u32 option \<times> kheap" where
  "align_block header alignment_offset h =
     (let (new, h) = split_block header (alignment_offset - 8 - 8) h in
      if new = 0 then (None, h)
      else (Some new, snd (free_block header True (store (new + 4) TYPE_USED h))))"

definition kmalloc_gen :: "u32 \<Rightarrow> bool \<Rightarrow> bool \<Rightarrow> kheap \<Rightarrow> (u32 \<times> kheap) outcome" where
  "kmalloc_gen sz align zero h =
     (if \<not> kmalloc_ready h then Panic
      else let sz_needed = max (ALIGN sz 8) 8 in
        acquire (kmalloc_lock h)
          (case get_free_block sz_needed align (h\<lparr>kmalloc_lock := True\<rparr>) of
             None \<Rightarrow> Spin
           | Some (found, h) \<Rightarrow>
               let alignment_offset =
                     (if align then get_alignment_offset (if found \<noteq> 0 then found else alloc_end h) else 0)
               in if found = 0 \<and> alloc_max h \<le> alloc_end h + sz_needed then Panic
               else let (header, h) =
                     (if found = 0
                      then extend_heap (if align \<and> alignment_offset \<noteq> 0 then sz_needed + alignment_offset
                                        else sz_needed) h
                      else (found, h));
                    (result, h) =
                     (if align \<and> alignment_offset \<noteq> 0 then align_block header alignment_offset h
                      else (Some header, h))
               in case result of
                    None \<Rightarrow> Ret (0, h)
                  | Some header \<Rightarrow>
                      let h = (store (header + 4) TYPE_USED h)\<lparr>kmalloc_lock := False\<rparr>
                      in Ret (GET_CONTENT header, if zero then bzero_at (GET_CONTENT header) sz h else h)))"

definition kfree :: "u32 \<Rightarrow> kheap \<Rightarrow> kheap outcome" where
  "kfree ptr h =
     (if ptr = 0 then Ret h
      else let header = ptr - 8 in
        if header < alloc_start h \<or> alloc_end h \<le> ptr \<or> mb_type h header = TYPE_FREE then Ret h
        else acquire (kmalloc_lock h) (Ret ((snd (free_block header True h))\<lparr>kmalloc_lock := False\<rparr>)))"

text \<open>\<^verbatim>\<open>memcpy\<close> of \<open>n\<close> bytes between two areas that do not overlap, word by word.\<close>

definition memcpy_at :: "u32 \<Rightarrow> u32 \<Rightarrow> u32 \<Rightarrow> kheap \<Rightarrow> kheap" where
  "memcpy_at dest src n h = h\<lparr>kh_mem := (\<lambda>a.
     if a - dest < n then
       (let v = kh_mem h (src + (a - dest)) in
        if unat (a - dest) + 4 \<le> unat n then v
        else (v AND mask (8 * (unat n mod 4))) OR (kh_mem h a AND NOT (mask (8 * (unat n mod 4)))))
     else kh_mem h a)\<rparr>"

definition krealloc :: "u32 \<Rightarrow> u32 \<Rightarrow> kheap \<Rightarrow> (u32 \<times> kheap) outcome" where
  "krealloc ptr new_size h =
     (if ptr = 0 then kmalloc_gen new_size False False h
      else let header = ptr - 8 in
        if header < alloc_start h \<or> alloc_end h \<le> ptr \<or> mb_type h header = TYPE_FREE then Ret (0, h)
        else case kmalloc_gen new_size False False h of
               Ret (new, h) \<Rightarrow>
                 (case kfree ptr (memcpy_at new ptr (mb_size h header) h) of
                    Ret h \<Rightarrow> Ret (new, h) | Spin \<Rightarrow> Spin | Panic \<Rightarrow> Panic | Fault \<Rightarrow> Fault)
             | Spin \<Rightarrow> Spin | Panic \<Rightarrow> Panic | Fault \<Rightarrow> Fault)"

text \<open>\<open>start\<close> is what \<^verbatim>\<open>vm_alloc\<close> returns for the address space of the heap, 0 if it fails.\<close>

definition kmalloc_init :: "u32 \<Rightarrow> kheap \<Rightarrow> kheap outcome" where
  "kmalloc_init start h =
     (if start = 0 then Panic
      else Ret (h\<lparr>alloc_start := start, alloc_end := start, alloc_max := start + 0x3200 * PAGE_SIZE,
                 kmalloc_ready := True\<rparr>))"

partial_function (option) stats_loop :: "kheap \<Rightarrow> u32 \<Rightarrow> u32 \<Rightarrow> u32 option" where
  "stats_loop h fb used =
     (if fb = 0 then Some used
      else stats_loop h (fb_prev h fb) (used - mb_size h (GET_HEADER_FROM_FB fb)))"

definition kmalloc_get_stats :: "kheap \<Rightarrow> (u32 \<times> u32) option" where
  "kmalloc_get_stats h =
     (case stats_loop h (last_free h) (alloc_end h - alloc_start h) of
        None \<Rightarrow> None | Some used \<Rightarrow> Some (alloc_max h - alloc_start h, used))"

end
