(* ===== verification/Kmalloc_Inv.thy ===== *)
theory Kmalloc_Inv
  imports Kmalloc
begin

text \<open>
  The invariant of the kernel heap and its preservation. The abstract heap is a list of blocks that
  tile the area from \<^verbatim>\<open>alloc_start\<close> to \<^verbatim>\<open>alloc_end\<close> and a list of the free blocks in the order of the
  \<^verbatim>\<open>prev\<close> links. Addresses are natural numbers here; \<open>nm\<close> views the memory of the model that way.
\<close>

section \<open>Memory seen at natural numbers\<close>

declare of_nat_add [simp del]

definition nm :: "kheap \<Rightarrow> nat \<Rightarrow> u32" where
  "nm h n = kh_mem h (of_nat n)"

lemma of_nat_u32_inj: "m < 4294967296 \<Longrightarrow> n < 4294967296 \<Longrightarrow> (of_nat m :: u32) = of_nat n \<longleftrightarrow> m = n"
  by (metis unat_of_nat_u32)

lemma of_nat_u32_zero: "n < 4294967296 \<Longrightarrow> (of_nat n :: u32) = 0 \<longleftrightarrow> n = 0"
  using of_nat_u32_inj [of n 0] by simp

lemma of_nat_u32_less: "m < 4294967296 \<Longrightarrow> n < 4294967296 \<Longrightarrow> (of_nat m :: u32) < of_nat n \<longleftrightarrow> m < n"
  by (simp add: u32_less_nat unat_of_nat_u32)

lemma of_nat_u32_le: "m < 4294967296 \<Longrightarrow> n < 4294967296 \<Longrightarrow> (of_nat m :: u32) \<le> of_nat n \<longleftrightarrow> m \<le> n"
  by (simp add: u32_le_nat unat_of_nat_u32)

lemmas of_nat_u32 = of_nat_u32_inj of_nat_u32_zero of_nat_u32_less of_nat_u32_le

lemma nm_store:
  assumes "k < 4294967296" "n < 4294967296"
  shows "nm (store (of_nat k) v h) n = (if n = k then v else nm h n)"
  using assms by (simp add: nm_def store_def of_nat_u32_inj)

lemma store_fields [simp]:
  "kmalloc_ready (store a v h) = kmalloc_ready h" "kmalloc_lock (store a v h) = kmalloc_lock h"
  "last_free (store a v h) = last_free h" "alloc_start (store a v h) = alloc_start h"
  "alloc_end (store a v h) = alloc_end h" "alloc_max (store a v h) = alloc_max h"
  by (simp_all add: store_def)

lemma nm_fields [simp]:
  "nm (h\<lparr>last_free := x\<rparr>) = nm h" "nm (h\<lparr>alloc_end := x\<rparr>) = nm h" "nm (h\<lparr>kmalloc_lock := l\<rparr>) = nm h"
  by (simp_all add: nm_def fun_eq_iff)

lemma members_nm:
  "mb_size h (of_nat a) = nm h a" "mb_type h (of_nat a) = nm h (a + 4)"
  "fb_prev h (of_nat a) = nm h a" "fb_next h (of_nat a) = nm h (a + 4)"
  by (simp_all add: member_defs nm_def of_nat_add)

section \<open>Tiling\<close>

record blk =
  b_addr :: nat
  b_size :: nat
  b_free :: bool

definition b_end :: "blk \<Rightarrow> nat" where
  "b_end b = b_addr b + b_size b + 16"

primrec tiled :: "nat \<Rightarrow> blk list \<Rightarrow> nat \<Rightarrow> bool" where
  "tiled s [] e \<longleftrightarrow> s = e"
| "tiled s (b # bs) e \<longleftrightarrow> b_addr b = s \<and> tiled (b_end b) bs e"

lemma tiled_append: "tiled s (xs @ ys) e \<longleftrightarrow> (\<exists>m. tiled s xs m \<and> tiled m ys e)"
  by (induction xs arbitrary: s) auto

lemma tiled_mono: "tiled s bs e \<Longrightarrow> s \<le> e"
  by (induction bs arbitrary: s) (fastforce simp: b_end_def)+

lemma tiled_bounds: "tiled s bs e \<Longrightarrow> b \<in> set bs \<Longrightarrow> s \<le> b_addr b \<and> b_end b \<le> e"
proof (induction bs arbitrary: s)
  case (Cons c bs)
  then have "b_end c \<le> e" using tiled_mono by auto
  then show ?case using Cons by (fastforce simp: b_end_def)
qed simp

lemma tiled_apart:
  "tiled s bs e \<Longrightarrow> b \<in> set bs \<Longrightarrow> c \<in> set bs \<Longrightarrow> b \<noteq> c \<Longrightarrow> b_end b \<le> b_addr c \<or> b_end c \<le> b_addr b"
proof (induction bs arbitrary: s)
  case (Cons d bs)
  then show ?case using tiled_bounds [of "b_end d" bs e b] tiled_bounds [of "b_end d" bs e c] by auto
qed simp

lemma tiled_inj: "tiled s bs e \<Longrightarrow> b \<in> set bs \<Longrightarrow> c \<in> set bs \<Longrightarrow> b_addr b = b_addr c \<Longrightarrow> b = c"
  using tiled_apart [of s bs e b c] by (auto simp: b_end_def)

lemma tiled_distinct: "tiled s bs e \<Longrightarrow> distinct bs"
proof (induction bs arbitrary: s)
  case (Cons b bs)
  then have "b \<notin> set bs" using tiled_bounds [of "b_end b" bs e b] by (auto simp: b_end_def)
  then show ?case using Cons by auto
qed simp

definition blk_ok :: "nat set \<Rightarrow> (nat \<Rightarrow> u32) \<Rightarrow> blk \<Rightarrow> bool" where
  "blk_ok P N b \<longleftrightarrow> 8 \<le> b_size b \<and> 8 dvd b_size b \<and>
     N (b_addr b) = of_nat (b_size b) \<and> N (b_addr b + 8 + b_size b) = of_nat (b_size b) \<and>
     (b_addr b \<notin> P \<longrightarrow> N (b_addr b + 4) = (if b_free b then TYPE_FREE else TYPE_USED))"

definition tkeys :: "blk \<Rightarrow> nat set" where
  "tkeys b = {b_addr b, b_addr b + 4, b_addr b + 8 + b_size b}"

definition fkeys :: "nat \<Rightarrow> nat set" where
  "fkeys x = {x + 8, x + 12}"

lemma blk_ok_cong:
  assumes "\<And>n. n \<in> tkeys b \<Longrightarrow> N' n = N n" "P \<subseteq> P'"
  shows "blk_ok P N b \<Longrightarrow> blk_ok P' N' b"
  using assms by (auto simp: blk_ok_def tkeys_def)

section \<open>The free list\<close>

definition lnk :: "nat list \<Rightarrow> u32 \<Rightarrow> u32" where
  "lnk xs v = (if xs = [] then v else of_nat (hd xs + 8))"

definition bk :: "u32 \<Rightarrow> nat list \<Rightarrow> u32" where
  "bk v xs = (if xs = [] then v else of_nat (last xs + 8))"

text \<open>\<open>seg N nxt xs prv\<close>: the blocks \<open>xs\<close> are linked to each other, the first one has the next link
  \<open>nxt\<close> and the last one the previous link \<open>prv\<close>.\<close>

primrec seg :: "(nat \<Rightarrow> u32) \<Rightarrow> u32 \<Rightarrow> nat list \<Rightarrow> u32 \<Rightarrow> bool" where
  "seg N nxt [] prv \<longleftrightarrow> True"
| "seg N nxt (x # xs) prv \<longleftrightarrow> N (x + 8) = lnk xs prv \<and> N (x + 12) = nxt \<and> seg N (of_nat (x + 8)) xs prv"

definition spaced :: "nat list \<Rightarrow> bool" where
  "spaced xs \<longleftrightarrow> sorted_wrt (\<lambda>x y. x + 16 \<le> y \<or> y + 16 \<le> x) xs"

text \<open>The links of the blocks \<open>xs\<close> are the same in both memories.\<close>

definition same_links :: "nat set \<Rightarrow> (nat \<Rightarrow> u32) \<Rightarrow> (nat \<Rightarrow> u32) \<Rightarrow> bool" where
  "same_links X N N' \<longleftrightarrow> (\<forall>x \<in> X. N' (x + 8) = N (x + 8) \<and> N' (x + 12) = N (x + 12))"

lemma lnk_simps [simp]: "lnk [] v = v" "lnk (x # xs) v = of_nat (x + 8)"
  by (simp_all add: lnk_def)

lemma lnk_append: "lnk (xs @ ys) v = lnk xs (lnk ys v)"
  by (simp add: lnk_def)

lemma seg_append: "seg N nxt (xs @ ys) prv \<longleftrightarrow> seg N nxt xs (lnk ys prv) \<and> seg N (bk nxt xs) ys prv"
  by (induction xs arbitrary: nxt) (auto simp: lnk_append bk_def)

lemma seg_cong: "same_links (set xs) N N' \<Longrightarrow> seg N' nxt xs prv = seg N nxt xs prv"
  by (induction xs arbitrary: nxt) (auto simp: same_links_def)

lemma spaced_simps [simp]: "spaced []"
  "spaced (x # xs) \<longleftrightarrow> (\<forall>y \<in> set xs. x + 16 \<le> y \<or> y + 16 \<le> x) \<and> spaced xs"
  "spaced (xs @ ys) \<longleftrightarrow> spaced xs \<and> spaced ys \<and> (\<forall>x \<in> set xs. \<forall>y \<in> set ys. x + 16 \<le> y \<or> y + 16 \<le> x)"
  by (auto simp: spaced_def sorted_wrt_append)

lemma spaced_distinct: "spaced xs \<Longrightarrow> distinct xs"
  by (induction xs) auto

lemma same_links_upd: "\<forall>x \<in> X. k \<noteq> x + 8 \<and> k \<noteq> x + 12 \<Longrightarrow> same_links X N (N(k := v))"
  by (auto simp: same_links_def)

text \<open>Redirecting the previous link of the last block, or the next link of the first.\<close>

lemma seg_set_prev:
  assumes "seg N nxt (xs @ [x]) prv" "spaced (xs @ [x])"
  shows "seg (N(x + 8 := v)) nxt (xs @ [x]) v"
proof -
  have "same_links (set xs) N (N(x + 8 := v))"
    using assms(2) by (fastforce simp: same_links_def)
  from seg_cong [OF this] show ?thesis using assms(1) by (simp add: seg_append)
qed

lemma seg_set_next:
  assumes "seg N nxt (x # xs) prv" "spaced (x # xs)"
  shows "seg (N(x + 12 := v)) v (x # xs) prv"
proof -
  have "same_links (set xs) N (N(x + 12 := v))"
    using assms(2) by (fastforce simp: same_links_def)
  from seg_cong [OF this] show ?thesis using assms(1) by simp
qed

text \<open>Taking a block out of the list: the two neighbours are linked to each other.\<close>

definition unlinked :: "(nat \<Rightarrow> u32) \<Rightarrow> nat list \<Rightarrow> nat list \<Rightarrow> nat \<Rightarrow> u32" where
  "unlinked N xs ys =
     (let N1 = (if xs = [] then N else N(last xs + 8 := lnk ys 0))
      in if ys = [] then N1 else N1(hd ys + 12 := bk 0 xs))"

lemma seg_unlinked:
  assumes "seg N 0 (xs @ x # ys) 0" "spaced (xs @ x # ys)"
  shows "seg (unlinked N xs ys) 0 (xs @ ys) 0"
proof -
  define N1 where "N1 = (if xs = [] then N else N(last xs + 8 := lnk ys 0))"
  have sx: "spaced xs" and sy: "spaced ys" using assms(2) by simp_all
  have far: "\<forall>a \<in> set xs. \<forall>b \<in> set ys. a + 16 \<le> b \<or> b + 16 \<le> a" using assms(2) by simp
  have "seg N 0 xs (lnk (x # ys) 0)" "seg N (bk (bk 0 xs) [x]) ys 0"
    using assms(1) by (simp_all add: seg_append bk_def)
  moreover have "seg N1 0 xs (lnk ys 0)"
  proof (cases xs rule: rev_cases)
    case (snoc zs z)
    then show ?thesis
      using seg_set_prev [of N 0 zs z _ "lnk ys 0"] calculation(1) sx by (simp add: N1_def)
  qed simp
  moreover have "same_links (set ys) N N1"
  proof (cases "xs = []")
    case False
    then have "\<forall>b \<in> set ys. last xs + 16 \<le> b \<or> b + 16 \<le> last xs" using far last_in_set by blast
    then show ?thesis using False by (auto simp: N1_def intro!: same_links_upd)
  qed (simp add: N1_def same_links_def)
  ultimately have x: "seg N1 0 xs (lnk ys 0)" and y: "seg N1 (bk (bk 0 xs) [x]) ys 0"
    using seg_cong by blast+
  have "unlinked N xs ys = (if ys = [] then N1 else N1(hd ys + 12 := bk 0 xs))"
    by (simp add: unlinked_def N1_def)
  moreover have "seg (N1(hd ys + 12 := bk 0 xs)) 0 xs (lnk ys 0)" if "ys \<noteq> []"
  proof -
    have "same_links (set xs) N1 (N1(hd ys + 12 := bk 0 xs))"
    proof (rule same_links_upd)
      have "\<forall>a \<in> set xs. a + 16 \<le> hd ys \<or> hd ys + 16 \<le> a" using far hd_in_set [OF that] by blast
      then show "\<forall>a \<in> set xs. hd ys + 12 \<noteq> a + 8 \<and> hd ys + 12 \<noteq> a + 12" by auto
    qed
    then show ?thesis using seg_cong x by blast
  qed
  moreover have "seg (N1(hd ys + 12 := bk 0 xs)) (bk 0 xs) ys 0" if "ys \<noteq> []"
    using that y sy seg_set_next by (cases ys) auto
  ultimately show ?thesis using x by (cases "ys = []") (simp_all add: seg_append)
qed

section \<open>The operations on the view\<close>

text \<open>Two views agree on the 32-bit addresses.\<close>

definition same_mem :: "(nat \<Rightarrow> u32) \<Rightarrow> (nat \<Rightarrow> u32) \<Rightarrow> bool" where
  "same_mem N N' \<longleftrightarrow> (\<forall>n < 4294967296. N' n = N n)"

definition same_fields :: "kheap \<Rightarrow> kheap \<Rightarrow> bool" where
  "same_fields h h' \<longleftrightarrow> kmalloc_ready h' = kmalloc_ready h \<and> kmalloc_lock h' = kmalloc_lock h \<and>
     alloc_start h' = alloc_start h \<and> alloc_end h' = alloc_end h \<and> alloc_max h' = alloc_max h"

lemma same_mem_store: "k < 4294967296 \<Longrightarrow> same_mem ((nm h)(k := v)) (nm (store (of_nat k) v h))"
  by (simp add: same_mem_def nm_store)

lemma set_block_nm:
  assumes "a + 8 + z < 4294967296"
  shows "same_mem ((nm h)(a := of_nat z, a + 8 + z := of_nat z)) (nm (set_block (of_nat z) (of_nat a) h))"
    and "same_fields h (set_block (of_nat z) (of_nat a) h)"
    and "last_free (set_block (of_nat z) (of_nat a) h) = last_free h"
proof -
  let ?h1 = "store (of_nat a) (of_nat z) h"
  have size: "mb_size ?h1 (of_nat a) = of_nat z" using assms by (simp add: members_nm nm_store)
  then have foot: "GET_FOOTER ?h1 (of_nat a) = of_nat (a + 8 + z)" by (simp add: GET_FOOTER_def of_nat_add)
  show "same_mem ((nm h)(a := of_nat z, a + 8 + z := of_nat z)) (nm (set_block (of_nat z) (of_nat a) h))"
    using assms unfolding set_block_def Let_def size foot by (auto simp: same_mem_def nm_store)
qed (simp_all add: set_block_def Let_def same_fields_def)

lemma unlink_nm:
  assumes "seg (nm h) 0 (xs @ x # ys) 0" "spaced (xs @ x # ys)" "last_free h = lnk (xs @ x # ys) 0"
    and small: "\<forall>y \<in> set (xs @ x # ys). y + 16 < 4294967296"
  shows "same_mem (unlinked (nm h) xs ys) (nm (unlink_free_block (of_nat (x + 8)) h))"
    and "same_fields h (unlink_free_block (of_nat (x + 8)) h)"
    and "last_free (unlink_free_block (of_nat (x + 8)) h) = lnk (xs @ ys) 0"
proof -
  let ?fb = "of_nat (x + 8) :: u32"
  define h1 where "h1 = (if xs = [] then h else store (of_nat (last xs + 8)) (lnk ys 0) h)"
  define h2 where "h2 = (if ys = [] then h1 else store (of_nat (hd ys + 12)) (bk 0 xs) h1)"
  have lastx: "last xs + 16 < 4294967296 \<and> (last xs + 16 \<le> x \<or> x + 16 \<le> last xs)" if "xs \<noteq> []"
    using small assms(2) last_in_set [OF that] by auto
  have hdy: "hd ys + 16 < 4294967296 \<and> (hd ys + 16 \<le> x \<or> x + 16 \<le> hd ys)" if "ys \<noteq> []"
    using small assms(2) hd_in_set [OF that] by auto
  have xb: "x + 16 < 4294967296" using small by simp
  have links: "nm h (x + 8) = lnk ys 0" "nm h (x + 12) = bk 0 xs"
    using assms(1) by (simp_all add: seg_append bk_def)
  have "fb_next h ?fb = bk 0 xs" "fb_prev h ?fb = lnk ys 0"
    using links members_nm(3,4) [of h "x + 8"] by (simp_all add: add.assoc)
  moreover have "bk 0 xs \<noteq> 0 \<longleftrightarrow> xs \<noteq> []" using lastx of_nat_u32_zero [of "last xs + 8"] by (auto simp: bk_def)
  ultimately have h1: "(if fb_next h ?fb \<noteq> 0 then store (fb_next h ?fb) (fb_prev h ?fb) h else h) = h1"
    by (auto simp: h1_def bk_def)
  have "nm h1 (x + 8) = lnk ys 0" "nm h1 (x + 12) = bk 0 xs"
    using links xb lastx by (auto simp: h1_def nm_store)
  then have f1: "fb_prev h1 ?fb = lnk ys 0" "fb_next h1 ?fb = bk 0 xs"
    using members_nm(3,4) [of h1 "x + 8"] by (simp_all add: add.assoc)
  moreover have "lnk ys 0 \<noteq> 0 \<longleftrightarrow> ys \<noteq> []" using hdy of_nat_u32_zero [of "hd ys + 8"] by (auto simp: lnk_def)
  moreover have "of_nat (hd ys + 8) + 4 = (of_nat (hd ys + 12) :: u32)" by (simp add: of_nat_add)
  ultimately have h2: "(if fb_prev h1 ?fb \<noteq> 0 then store (fb_prev h1 ?fb + 4) (fb_next h1 ?fb) h1 else h1) = h2"
    by (auto simp: h2_def lnk_def)
  have "nm h2 (x + 8) = lnk ys 0"
    using \<open>nm h1 (x + 8) = lnk ys 0\<close> xb hdy by (auto simp: h2_def nm_store)
  then have p2: "fb_prev h2 ?fb = lnk ys 0" using members_nm(3) [of h2 "x + 8"] by simp
  have unl: "unlink_free_block ?fb h = (if ?fb = last_free h2 then h2\<lparr>last_free := lnk ys 0\<rparr> else h2)"
    unfolding unlink_free_block_def Let_def h1 h2 p2 ..
  have "last_free h2 = last_free h" by (simp add: h2_def h1_def)
  moreover have "?fb = lnk (xs @ x # ys) 0 \<longleftrightarrow> xs = []"
  proof (cases xs)
    case (Cons z zs)
    then have "z \<noteq> x" "z + 16 < 4294967296" using assms(2) small by auto
    then have "(of_nat (x + 8) :: u32) \<noteq> of_nat (z + 8)" using xb by (subst of_nat_u32_inj) auto
    then show ?thesis using Cons by simp
  qed simp
  ultimately show "last_free (unlink_free_block ?fb h) = lnk (xs @ ys) 0"
    unfolding unl using assms(3) by (auto simp: lnk_append lnk_def)
  show "same_mem (unlinked (nm h) xs ys) (nm (unlink_free_block ?fb h))"
    using lastx hdy by (auto simp: unl same_mem_def unlinked_def Let_def h1_def h2_def nm_store)
  show "same_fields h (unlink_free_block ?fb h)"
    by (simp add: unl same_fields_def h2_def h1_def)
qed

section \<open>The heap invariant\<close>

definition tiles :: "nat set \<Rightarrow> (nat \<Rightarrow> u32) \<Rightarrow> nat \<Rightarrow> blk list \<Rightarrow> nat \<Rightarrow> bool" where
  "tiles P N s bs e \<longleftrightarrow> tiled s bs e \<and> (\<forall>b \<in> set bs. blk_ok P N b)"

definition free_addrs :: "blk list \<Rightarrow> nat set" where
  "free_addrs bs = b_addr ` {b \<in> set bs. b_free b}"

text \<open>
  \<open>P\<close> holds the blocks that are being worked on: their type field is not yet (or no longer) right, and
  they are not in the free list.
\<close>

definition heap_inv :: "nat set \<Rightarrow> kheap \<Rightarrow> blk list \<Rightarrow> nat list \<Rightarrow> bool" where
  "heap_inv P h bs fl \<longleftrightarrow>
     tiles P (nm h) (unat (alloc_start h)) bs (unat (alloc_end h)) \<and>
     seg (nm h) 0 fl 0 \<and> last_free h = lnk fl 0 \<and> spaced fl \<and> set fl = free_addrs bs \<and>
     8 dvd unat (alloc_start h) \<and> 0 < unat (alloc_start h)"

text \<open>The memories differ only in \<open>K\<close>.\<close>

definition differs_in :: "nat set \<Rightarrow> (nat \<Rightarrow> u32) \<Rightarrow> (nat \<Rightarrow> u32) \<Rightarrow> bool" where
  "differs_in K N N' \<longleftrightarrow> (\<forall>n < 4294967296. n \<notin> K \<longrightarrow> N' n = N n)"

lemma differs_in_mono: "differs_in K N N' \<Longrightarrow> K \<subseteq> K' \<Longrightarrow> differs_in K' N N'"
  by (auto simp: differs_in_def)

lemma differs_in_trans: "differs_in K N N' \<Longrightarrow> differs_in K N' N'' \<Longrightarrow> differs_in K N N''"
  by (simp add: differs_in_def)

lemma same_mem_differs: "same_mem N1 N' \<Longrightarrow> (\<And>n. n \<notin> K \<Longrightarrow> N1 n = N n) \<Longrightarrow> differs_in K N N'"
  by (simp add: same_mem_def differs_in_def)

lemma tiles_append: "tiles P N s (xs @ ys) e \<longleftrightarrow> (\<exists>m. tiles P N s xs m \<and> tiles P N m ys e)"
  by (auto simp: tiles_def tiled_append)

lemma tiles_Nil [simp]: "tiles P N s [] e \<longleftrightarrow> s = e"
  by (simp add: tiles_def)

lemma tiles_Cons: "tiles P N s (b # bs) e \<longleftrightarrow> b_addr b = s \<and> blk_ok P N b \<and> tiles P N (b_end b) bs e"
  by (auto simp: tiles_def)

lemma tkeys_region: "b \<in> set bs \<Longrightarrow> tiled s bs e \<Longrightarrow> tkeys b \<subseteq> {s ..< e}"
  using tiled_bounds [of s bs e b] by (auto simp: tkeys_def b_end_def)

lemma tiles_frame:
  assumes "tiles P N s bs e" "differs_in K N N'" "e \<le> 4294967296" "K \<inter> {s ..< e} = {}"
    "P \<inter> {s ..< e} \<subseteq> P'"
  shows "tiles P' N' s bs e"
proof -
  have "blk_ok P' N' b" if b: "b \<in> set bs" for b
  proof -
    have keys: "tkeys b \<subseteq> {s ..< e}" using tkeys_region b assms(1) by (simp add: tiles_def)
    then have "N' n = N n" if "n \<in> tkeys b" for n
      using that assms(2-4) unfolding differs_in_def by (metis atLeastLessThan_iff disjoint_iff order_less_le_trans subsetD)
    moreover have "b_addr b \<in> P'" if "b_addr b \<in> P" using that keys assms(5) by (auto simp: tkeys_def)
    ultimately show ?thesis
      using assms(1) b by (auto simp: tiles_def blk_ok_def tkeys_def)
  qed
  then show ?thesis using assms(1) by (simp add: tiles_def)
qed

text \<open>Replacing the blocks in the middle.\<close>

lemma tiles_replace:
  assumes "tiles P N s (xs @ mid @ ys) e" "tiled lo mid hi" "differs_in {lo ..< hi} N N'" "mid \<noteq> []"
    "e \<le> 4294967296" "P - {lo ..< hi} \<subseteq> P'" "tiles P' N' lo mid' hi"
  shows "tiles P' N' s (xs @ mid' @ ys) e"
proof -
  obtain m m' where m: "tiles P N s xs m" "tiles P N m mid m'" "tiles P N m' ys e"
    using assms(1) by (auto simp: tiles_append)
  have lo: "m = lo" using m(2) assms(2,4) by (cases mid) (auto simp: tiles_def)
  have hi: "m' = hi"
  proof -
    have "tiled m mid m' \<Longrightarrow> tiled m mid hi \<Longrightarrow> m' = hi" by (induction mid arbitrary: m) auto
    then show ?thesis using m(2) assms(2) lo by (simp add: tiles_def)
  qed
  have "lo \<le> hi" "hi \<le> e" using assms(2) m(3) hi tiled_mono by (auto simp: tiles_def)
  then have "tiles P' N' s xs lo"
    using assms(3,5,6) m(1) lo by (intro tiles_frame [OF _ assms(3)]) auto
  moreover have "tiles P' N' hi ys e"
    using assms(3,5,6) m(3) hi \<open>lo \<le> hi\<close> by (intro tiles_frame [OF _ assms(3)]) auto
  ultimately show ?thesis using assms(7) by (auto simp: tiles_append)
qed

lemma heap_inv_blk: "heap_inv P h bs fl \<Longrightarrow> b \<in> set bs \<Longrightarrow> blk_ok P (nm h) b"
  by (simp add: heap_inv_def tiles_def)

lemma heap_inv_end: "heap_inv P h bs fl \<Longrightarrow> b \<in> set bs \<Longrightarrow> b_end b < 4294967296"
  using tiled_bounds [of "unat (alloc_start h)" bs "unat (alloc_end h)" b] unat_u32_less [of "alloc_end h"]
  by (auto simp: heap_inv_def tiles_def simp del: unat_u32_less)

lemma heap_inv_free:
  assumes "heap_inv P h bs fl" "x \<in> set fl"
  obtains b where "b \<in> set bs" "b_free b" "b_addr b = x"
  using assms by (auto simp: heap_inv_def free_addrs_def)

lemma heap_inv_apart:
  assumes "heap_inv P h bs fl" "c \<in> set bs" "d \<in> set bs" "c \<noteq> d"
  shows "b_end c \<le> b_addr d \<or> b_end d \<le> b_addr c"
  using assms tiled_apart [of "unat (alloc_start h)" bs "unat (alloc_end h)" c d] by (simp add: heap_inv_def tiles_def)

lemma heap_inv_tiles: "heap_inv P h bs fl \<Longrightarrow> tiles P (nm h) (unat (alloc_start h)) bs (unat (alloc_end h))"
  by (simp add: heap_inv_def)

lemma heap_inv_other:
  assumes "heap_inv P h (xs @ b # ys) fl" "c \<in> set xs \<union> set ys"
  shows "c \<noteq> b" "b_addr c \<noteq> b_addr b" "tkeys c \<inter> {b_addr b ..< b_end b} = {}"
proof -
  have t: "tiled (unat (alloc_start h)) (xs @ b # ys) (unat (alloc_end h))"
    using assms(1) by (simp add: heap_inv_def tiles_def)
  show ne: "c \<noteq> b" using tiled_distinct [OF t] assms(2) by auto
  have "b_end c \<le> b_addr b \<or> b_end b \<le> b_addr c"
    using heap_inv_apart [OF assms(1), of c b] ne assms(2) by auto
  then show "b_addr c \<noteq> b_addr b" "tkeys c \<inter> {b_addr b ..< b_end b} = {}" by (auto simp: b_end_def tkeys_def)
qed

text \<open>Writes inside a block that is not free leave the links alone.\<close>

lemma links_outside:
  assumes "heap_inv P h bs fl" "b \<in> set bs" "\<not> b_free b" "differs_in {b_addr b ..< b_end b} (nm h) N'"
  shows "seg N' 0 fl 0"
proof -
  have "same_links (set fl) (nm h) N'"
    unfolding same_links_def
  proof
    fix x assume "x \<in> set fl"
    then obtain c where c: "c \<in> set bs" "b_free c" "b_addr c = x" using assms(1) heap_inv_free by blast
    then have "b_end c \<le> b_addr b \<or> b_end b \<le> b_addr c"
      using assms(1-3) heap_inv_apart by blast
    moreover have "x + 16 \<le> b_end c" "8 \<le> b_size c" using c heap_inv_blk [OF assms(1), of c] by (auto simp: b_end_def blk_ok_def)
    moreover note heap_inv_end [OF assms(1) c(1)]
    ultimately show "N' (x + 8) = nm h (x + 8) \<and> N' (x + 12) = nm h (x + 12)"
      using assms(4) c(3) unfolding differs_in_def by auto
  qed
  from seg_cong [OF this] show ?thesis using assms(1) by (simp add: heap_inv_def)
qed

section \<open>Splitting, extending, retyping\<close>

lemma b_end_simps [simp]: "b_end \<lparr>b_addr = a, b_size = z, b_free = f\<rparr> = a + z + 16"
  by (simp add: b_end_def)

lemma heap_inv_mid:
  assumes "heap_inv P h (xs @ mid @ ys) fl" "mid \<noteq> []" "tiled lo mid hi" "same_fields h h'"
    "differs_in {lo ..< hi} (nm h) (nm h')" "P - {lo ..< hi} \<subseteq> P'" "tiles P' (nm h') lo mid' hi"
    "seg (nm h') 0 fl' 0" "last_free h' = lnk fl' 0" "spaced fl'" "set fl' = free_addrs (xs @ mid' @ ys)"
  shows "heap_inv P' h' (xs @ mid' @ ys) fl'"
proof -
  have "unat (alloc_end h) \<le> 4294967296" using unat_u32_less [of "alloc_end h"] by linarith
  then have "tiles P' (nm h') (unat (alloc_start h)) (xs @ mid' @ ys) (unat (alloc_end h))"
    using assms(1) by (intro tiles_replace [OF _ assms(3,5,2) _ assms(6,7)]) (simp_all add: heap_inv_def)
  then show ?thesis using assms(1,4,8-11) by (auto simp: heap_inv_def same_fields_def)
qed

lemma heap_inv_size:
  assumes "heap_inv P h bs fl" "b \<in> set bs"
  shows "mb_size h (of_nat (b_addr b)) = of_nat (b_size b)"
  using heap_inv_blk [OF assms] by (simp add: members_nm blk_ok_def)

lemma NEXT_BLOCK_nm: "nm h a = of_nat z \<Longrightarrow> NEXT_BLOCK h (of_nat a) = of_nat (a + z + 16)"
  by (simp add: NEXT_BLOCK_def GET_FOOTER_def members_nm of_nat_add)

lemma same_fields_trans: "same_fields h h' \<Longrightarrow> same_fields h' h'' \<Longrightarrow> same_fields h h''"
  by (simp add: same_fields_def)

lemma free_addrs_append [simp]: "free_addrs (xs @ ys) = free_addrs xs \<union> free_addrs ys"
  by (auto simp: free_addrs_def)

lemma free_addrs_Cons [simp]:
  "free_addrs (b # bs) = (if b_free b then insert (b_addr b) (free_addrs bs) else free_addrs bs)"
  by (auto simp: free_addrs_def)

lemma free_addrs_Nil [simp]: "free_addrs [] = {}"
  by (simp add: free_addrs_def)

lemma heap_inv_mid_used:
  assumes inv: "heap_inv P h (xs @ b # ys) fl" and b: "\<not> b_free b" and sf: "same_fields h h'" "last_free h' = last_free h"
    and diff: "differs_in {b_addr b ..< b_end b} (nm h) (nm h')" and P: "P - {b_addr b ..< b_end b} \<subseteq> P'"
    and mid: "tiles P' (nm h') (b_addr b) mid (b_end b)" "free_addrs mid = {}"
  shows "heap_inv P' h' (xs @ mid @ ys) fl"
proof (rule heap_inv_mid [OF _ _ _ sf(1) diff P mid(1)])
  show "heap_inv P h (xs @ [b] @ ys) fl" using inv by simp
  show "seg (nm h') 0 fl 0" using links_outside [OF inv _ b diff] by simp
  show "last_free h' = lnk fl 0" "spaced fl" "set fl = free_addrs (xs @ mid @ ys)"
    using inv sf(2) b mid(2) by (simp_all add: heap_inv_def)
qed simp_all

lemma split_threshold: "(of_nat sz :: u32) + 8 + 8 + 8 = of_nat (sz + 24)"
  by (simp add: of_nat_add add.commute)

lemma split_block_small:
  assumes "heap_inv P h bs fl" "b \<in> set bs" "b_size b < sz + 24" "sz + 24 < 4294967296"
  shows "split_block (of_nat (b_addr b)) (of_nat sz) h = (0, h)"
proof -
  have "(of_nat (b_size b) :: u32) < of_nat (sz + 24)"
    using assms(3,4) heap_inv_end [OF assms(1,2)] by (subst of_nat_u32_less) (auto simp: b_end_def)
  then show ?thesis
    unfolding split_block_def heap_inv_size [OF assms(1,2)] split_threshold by simp
qed

lemma split_block_nm:
  assumes "nm h a = of_nat z" "sz + 24 \<le> z" "a + z + 16 < 4294967296" "split_block (of_nat a) (of_nat sz) h = (new, h')"
  shows "new = of_nat (a + sz + 16)"
    and "same_mem ((nm h)(a := of_nat sz, a + 8 + sz := of_nat sz,
           a + sz + 16 := of_nat (z - sz - 16), a + 8 + z := of_nat (z - sz - 16))) (nm h')"
    and "same_fields h h'" and "last_free h' = last_free h"
proof -
  let ?h1 = "set_block (of_nat sz) (of_nat a) h"
  let ?n = "a + sz + 16" and ?z = "z - sz - 16"
  have sz: "a + 8 + sz < 4294967296" using assms(2,3) by linarith
  note h1 = set_block_nm [OF sz, of h]
  have "nm ?h1 a = of_nat sz" using h1(1) assms(3) by (simp add: same_mem_def)
  note nxt = NEXT_BLOCK_nm [OF this]
  have nsz: "?n + 8 + ?z < 4294967296" using assms(2,3) by linarith
  note h2 = set_block_nm [OF nsz, of ?h1]
  have "\<not> (of_nat z :: u32) < of_nat (sz + 24)" using assms(2,3) by (subst of_nat_u32_less) auto
  moreover have "(of_nat z - of_nat sz - 8 - 8 :: u32) = of_nat ?z"
  proof -
    have "(of_nat ?z :: u32) + of_nat (sz + 16) = of_nat z" using assms(2) by (simp flip: of_nat_add)
    then show ?thesis by (simp add: of_nat_add algebra_simps)
  qed
  ultimately have split: "new = of_nat ?n" "h' = set_block (of_nat ?z) (of_nat ?n) ?h1"
    using assms(4) unfolding split_block_def split_threshold members_nm assms(1) Let_def nxt
    by (simp_all only: if_False prod.inject) blast+
  show "new = of_nat ?n" "same_fields h h'" "last_free h' = last_free h"
    using split h1(2,3) h2(2,3) same_fields_trans by auto
  have "?n + 8 + ?z = a + 8 + z" using assms(2) by simp
  then show "same_mem ((nm h)(a := of_nat sz, a + 8 + sz := of_nat sz, ?n := of_nat ?z, a + 8 + z := of_nat ?z)) (nm h')"
    using h1(1) h2(1) unfolding split(2) same_mem_def by (metis fun_upd_apply)
qed

lemma heap_split:
  assumes inv: "heap_inv P h (xs @ b # ys) fl" and b: "\<not> b_free b"
    and sz: "sz + 24 \<le> b_size b" "8 \<le> sz" "8 dvd sz" and split: "split_block (of_nat (b_addr b)) (of_nat sz) h = (new, h')"
  shows "new = of_nat (b_addr b + sz + 16)"
    and "heap_inv (insert (b_addr b + sz + 16) P) h'
      (xs @ [b\<lparr>b_size := sz\<rparr>, \<lparr>b_addr = b_addr b + sz + 16, b_size = b_size b - sz - 16, b_free = False\<rparr>] @ ys) fl"
    and "same_fields h h'" and "differs_in {b_addr b ..< b_end b} (nm h) (nm h')"
proof -
  let ?a = "b_addr b" and ?z = "b_size b"
  let ?n = "?a + sz + 16"
  have mem: "b \<in> set (xs @ b # ys)" by simp
  note blk = heap_inv_blk [OF inv mem] and e = heap_inv_end [OF inv mem]
  have "nm h ?a = of_nat ?z" "?a + ?z + 16 < 4294967296" using blk e by (simp_all add: blk_ok_def b_end_def)
  note s = split_block_nm [OF this(1) sz(1) this(2) split]
  show "new = of_nat ?n" "same_fields h h'" by (fact s)+
  show diff: "differs_in {?a ..< b_end b} (nm h) (nm h')"
    using sz by (intro same_mem_differs [OF s(2)]) (auto simp: b_end_def)
  have N: "nm h' ?a = of_nat sz" "nm h' (?a + 8 + sz) = of_nat sz" "nm h' ?n = of_nat (?z - sz - 16)"
    "nm h' (?a + 8 + ?z) = of_nat (?z - sz - 16)" "nm h' (?a + 4) = nm h (?a + 4)"
    using s(2) sz e by (auto simp: same_mem_def b_end_def)
  have "?n + 8 + (?z - sz - 16) = ?a + 8 + ?z" using sz by simp
  then have "tiles (insert ?n P) (nm h') ?a
      [b\<lparr>b_size := sz\<rparr>, \<lparr>b_addr = ?n, b_size = ?z - sz - 16, b_free = False\<rparr>] (b_end b)"
    using blk b sz N dvd_diff_nat [of 8 "?z" "sz + 16"]
    by (auto simp: tiles_Cons blk_ok_def b_end_def ac_simps)
  then show "heap_inv (insert ?n P) h'
      (xs @ [b\<lparr>b_size := sz\<rparr>, \<lparr>b_addr = ?n, b_size = ?z - sz - 16, b_free = False\<rparr>] @ ys) fl"
    using b by (intro heap_inv_mid_used [OF inv b s(3,4) diff]) auto
qed

text \<open>Setting the type of a block that is not free.\<close>

lemma heap_set_used:
  assumes inv: "heap_inv P h (xs @ b # ys) fl" and b: "\<not> b_free b"
    and h': "h' = store (of_nat (b_addr b) + 4) TYPE_USED h"
  shows "heap_inv (P - {b_addr b}) h' (xs @ b # ys) fl"
    and "same_fields h h'" and "differs_in {b_addr b ..< b_end b} (nm h) (nm h')"
proof -
  let ?a = "b_addr b"
  have mem: "b \<in> set (xs @ b # ys)" by simp
  note blk = heap_inv_blk [OF inv mem] and e = heap_inv_end [OF inv mem]
  have "h' = store (of_nat (?a + 4)) TYPE_USED h" by (simp add: h' of_nat_add)
  then have m: "same_mem ((nm h)(?a + 4 := TYPE_USED)) (nm h')"
    using same_mem_store [of "?a + 4" h] e by (simp add: b_end_def)
  show sf: "same_fields h h'" by (simp add: h' same_fields_def)
  show diff: "differs_in {?a ..< b_end b} (nm h) (nm h')"
    by (intro same_mem_differs [OF m]) (auto simp: b_end_def)
  have "nm h' ?a = nm h ?a" "nm h' (?a + 8 + b_size b) = nm h (?a + 8 + b_size b)" "nm h' (?a + 4) = TYPE_USED"
    using m e by (auto simp: same_mem_def b_end_def)
  then have "tiles (P - {?a}) (nm h') ?a [b] (b_end b)"
    using blk b by (auto simp: tiles_Cons blk_ok_def)
  then have "heap_inv (P - {?a}) h' (xs @ [b] @ ys) fl"
    using b by (intro heap_inv_mid_used [OF inv b sf _ diff]) (auto simp: h' b_end_def)
  then show "heap_inv (P - {?a}) h' (xs @ b # ys) fl" by simp
qed

text \<open>A block behind the last one.\<close>

lemma heap_extend:
  assumes inv: "heap_inv {} h bs fl" and z: "8 \<le> z" "8 dvd z" "unat (alloc_end h) + z + 16 < 4294967296"
    and ext: "extend_heap (of_nat z) h = (header, h')"
  shows "header = of_nat (unat (alloc_end h))"
    and "heap_inv {unat (alloc_end h)} h' (bs @ [\<lparr>b_addr = unat (alloc_end h), b_size = z, b_free = False\<rparr>]) fl"
    and "alloc_end h' = of_nat (unat (alloc_end h) + z + 16)" "alloc_max h' = alloc_max h" "alloc_start h' = alloc_start h"
      "kmalloc_ready h' = kmalloc_ready h" "kmalloc_lock h' = kmalloc_lock h"
    and "differs_in {unat (alloc_end h) ..< unat (alloc_end h) + z + 16} (nm h) (nm h')"
proof -
  let ?e = "unat (alloc_end h)"
  let ?h1 = "set_block (of_nat z) (of_nat ?e) h"
  have "?e + 8 + z < 4294967296" using z(3) by simp
  note h1 = set_block_nm [OF this, of h]
  have vals: "nm ?h1 ?e = of_nat z" "nm ?h1 (?e + 8 + z) = of_nat z" using h1(1) z(3) by (simp_all add: same_mem_def)
  have hd: "header = of_nat ?e" and h': "h' = ?h1\<lparr>alloc_end := GET_FOOTER ?h1 (of_nat ?e) + 8\<rparr>"
    using ext by (auto simp: extend_heap_def Let_def)
  then have new_end: "alloc_end h' = of_nat (?e + z + 16)"
    using vals members_nm(1) [of ?h1 ?e] unfolding GET_FOOTER_def by (simp add: of_nat_add)
  have f: "alloc_max h' = alloc_max h" "alloc_start h' = alloc_start h" "kmalloc_ready h' = kmalloc_ready h"
    "kmalloc_lock h' = kmalloc_lock h" "last_free h' = last_free h" "nm h' = nm ?h1"
    using h1(2,3) by (simp_all add: h' same_fields_def)
  show "header = of_nat ?e" "alloc_end h' = of_nat (?e + z + 16)" "alloc_max h' = alloc_max h"
    "alloc_start h' = alloc_start h" "kmalloc_ready h' = kmalloc_ready h" "kmalloc_lock h' = kmalloc_lock h"
    by (fact hd new_end f)+
  show diff: "differs_in {?e ..< ?e + z + 16} (nm h) (nm h')"
    unfolding f(6) by (intro same_mem_differs [OF h1(1)]) auto
  have t: "tiles {} (nm h) (unat (alloc_start h)) bs ?e" using inv by (simp add: heap_inv_def)
  have "tiles {?e} (nm h') (unat (alloc_start h)) bs ?e"
    using unat_u32_less [of "alloc_end h"]
    by (intro tiles_frame [OF t diff]) (auto simp del: unat_u32_less)
  moreover have "tiles {?e} (nm h') ?e [\<lparr>b_addr = ?e, b_size = z, b_free = False\<rparr>] (?e + z + 16)"
    using z vals f(6) by (simp add: tiles_Cons blk_ok_def)
  moreover have "same_links (set fl) (nm h) (nm h')"
    unfolding same_links_def
  proof
    fix x assume "x \<in> set fl"
    then obtain c where c: "c \<in> set bs" "b_addr c = x" using inv heap_inv_free by blast
    then have "b_end c \<le> ?e" using tiled_bounds t by (auto simp: tiles_def)
    then show "nm h' (x + 8) = nm h (x + 8) \<and> nm h' (x + 12) = nm h (x + 12)"
      using diff c(2) heap_inv_blk [OF inv c(1)] unat_u32_less [of "alloc_end h"]
      by (auto simp: differs_in_def b_end_def blk_ok_def simp del: unat_u32_less)
  qed
  then have "seg (nm h') 0 fl 0" using inv seg_cong by (simp add: heap_inv_def)
  ultimately show "heap_inv {?e} h' (bs @ [\<lparr>b_addr = ?e, b_size = z, b_free = False\<rparr>]) fl"
    using inv f(2,5) new_end unat_of_nat_u32 [of "?e + z + 16"] z(3)
    by (auto simp: heap_inv_def tiles_append simp del: tiles_Nil)
qed

section \<open>Linking, unlinking, merging\<close>

lemma tiles_links:
  assumes "tiles P N s bs e" "differs_in K N N'" "e \<le> 4294967296" "\<forall>b \<in> set bs. tkeys b \<inter> K = {}" "P \<subseteq> P'"
  shows "tiles P' N' s bs e"
proof -
  have "blk_ok P' N' b" if b: "b \<in> set bs" for b
  proof (rule blk_ok_cong [OF _ assms(5)])
    have "tkeys b \<subseteq> {s ..< e}" using tkeys_region b assms(1) by (simp add: tiles_def)
    then show "N' n = N n" if "n \<in> tkeys b" for n
      using that assms(2-4) b unfolding differs_in_def by (metis atLeastLessThan_iff disjoint_iff order_less_le_trans subsetD)
  qed (use assms(1) b in \<open>simp add: tiles_def\<close>)
  then show ?thesis using assms(1) by (simp add: tiles_def)
qed

lemma tkeys_fkeys:
  assumes "heap_inv P h bs fl" "c \<in> set bs" "x \<in> set fl"
  shows "tkeys c \<inter> fkeys x = {}"
proof -
  obtain d where d: "d \<in> set bs" "b_addr d = x" using assms heap_inv_free by blast
  have "8 \<le> b_size c" "8 \<le> b_size d" using heap_inv_blk [OF assms(1)] assms(2) d by (auto simp: blk_ok_def)
  moreover have "c = d \<or> b_end c \<le> b_addr d \<or> b_end d \<le> b_addr c"
    using heap_inv_apart [OF assms(1,2) d(1)] by blast
  ultimately show ?thesis using d(2) by (auto simp: tkeys_def fkeys_def b_end_def)
qed

lemma heap_inv_small:
  assumes "heap_inv P h bs fl" "x \<in> set fl"
  shows "x + 16 < 4294967296"
proof -
  obtain d where d: "d \<in> set bs" "b_addr d = x" using assms heap_inv_free by blast
  then show ?thesis
    using heap_inv_end [OF assms(1) d(1)] heap_inv_blk [OF assms(1) d(1)] by (simp add: b_end_def blk_ok_def)
qed

lemma unlinked_differs:
  "same_mem (unlinked N us vs) N' \<Longrightarrow> differs_in (\<Union>x \<in> set (us @ vs). fkeys x) N N'"
  by (auto simp: same_mem_def differs_in_def unlinked_def Let_def fkeys_def)

lemma seg_same_mem:
  assumes "same_mem N N'" "\<forall>x \<in> set xs. x + 16 < 4294967296"
  shows "seg N' nxt xs prv = seg N nxt xs prv"
  using assms by (intro seg_cong) (auto simp: same_mem_def same_links_def)

text \<open>What unlinking does, stated for the list of free blocks and the memory alone.\<close>

lemma unlink_seg:
  assumes "seg (nm h) 0 (us @ x # vs) 0" "spaced (us @ x # vs)" "last_free h = lnk (us @ x # vs) 0"
    "\<forall>y \<in> set (us @ x # vs). y + 16 < 4294967296" "h' = unlink_free_block (of_nat (x + 8)) h"
  shows "seg (nm h') 0 (us @ vs) 0" "last_free h' = lnk (us @ vs) 0" "same_fields h h'"
    "differs_in (\<Union>y \<in> set (us @ vs). fkeys y) (nm h) (nm h')" "spaced (us @ vs)"
proof -
  note u = unlink_nm [OF assms(1-4), folded assms(5)]
  show "seg (nm h') 0 (us @ vs) 0"
    using seg_unlinked [OF assms(1,2)] seg_same_mem [OF u(1)] assms(4) by simp
  show "differs_in (\<Union>y \<in> set (us @ vs). fkeys y) (nm h) (nm h')" by (rule unlinked_differs [OF u(1)])
  show "spaced (us @ vs)" using assms(2) by simp
  show "last_free h' = lnk (us @ vs) 0" "same_fields h h'" by (fact u)+
qed

lemma heap_unlink:
  assumes inv: "heap_inv P h (xs @ b # ys) fl" and fl: "fl = us @ b_addr b # vs" and b: "b_free b"
    and h': "h' = unlink_free_block (of_nat (b_addr b + 8)) h"
  shows "heap_inv (insert (b_addr b) P) h' (xs @ b\<lparr>b_free := False\<rparr> # ys) (us @ vs)"
    and "same_fields h h'" and "differs_in (\<Union>x \<in> set fl. fkeys x) (nm h) (nm h')"
proof -
  let ?bs = "xs @ b # ys"
  have "\<forall>y \<in> set (us @ b_addr b # vs). y + 16 < 4294967296" using heap_inv_small [OF inv] fl by simp
  note u = unlink_seg [OF _ _ _ this h']
  have l: "seg (nm h) 0 (us @ b_addr b # vs) 0" "spaced (us @ b_addr b # vs)" "last_free h = lnk (us @ b_addr b # vs) 0"
    using inv fl by (simp_all add: heap_inv_def)
  note u = u [OF this]
  show "same_fields h h'" by (fact u)
  show diff: "differs_in (\<Union>x \<in> set fl. fkeys x) (nm h) (nm h')"
    using u(4) by (rule differs_in_mono) (auto simp: fl)
  have "unat (alloc_end h) \<le> 4294967296" using unat_u32_less [of "alloc_end h"] by linarith
  then have "tiles P (nm h') (unat (alloc_start h)) ?bs (unat (alloc_end h))"
    using tkeys_fkeys [OF inv] by (intro tiles_links [OF heap_inv_tiles [OF inv] diff]) blast+
  then have t: "tiles (insert (b_addr b) P) (nm h') (unat (alloc_start h)) (xs @ b\<lparr>b_free := False\<rparr> # ys) (unat (alloc_end h))"
    by (auto simp: tiles_def tiled_append blk_ok_def b_end_def)
  have "b_addr b \<notin> free_addrs xs \<union> free_addrs ys"
    using inv tiled_inj [of "unat (alloc_start h)" ?bs "unat (alloc_end h)" b]
      tiled_distinct [of "unat (alloc_start h)" ?bs "unat (alloc_end h)"]
    by (auto simp: heap_inv_def tiles_def free_addrs_def)
  moreover have "b_addr b \<notin> set (us @ vs)" using spaced_distinct [OF l(2)] by simp
  moreover have "set fl = insert (b_addr b) (free_addrs xs \<union> free_addrs ys)" using inv b by (simp add: heap_inv_def)
  ultimately have "set (us @ vs) = free_addrs xs \<union> free_addrs ys" using fl by (simp add: insert_ident)
  then show "heap_inv (insert (b_addr b) P) h' (xs @ b\<lparr>b_free := False\<rparr> # ys) (us @ vs)"
    using u t inv by (simp add: heap_inv_def same_fields_def)
qed

text \<open>Entering a block into the free list.\<close>

definition push_free :: "u32 \<Rightarrow> kheap \<Rightarrow> kheap" where
  "push_free header h =
     (let fb = GET_CONTENT header;
          h = store (header + 4) TYPE_FREE h;
          h = store fb (last_free h) h;
          h = store (fb + 4) 0 h;
          h = (if last_free h \<noteq> 0 then store (last_free h + 4) fb h else h)
      in h\<lparr>last_free := fb\<rparr>)"

lemma push_free_nm:
  assumes "a + 16 < 4294967296" "\<forall>x \<in> set fl. x + 16 < 4294967296" "last_free h = lnk fl 0"
    "h' = push_free (of_nat a) h"
  shows "same_mem (let N = (nm h)(a + 4 := TYPE_FREE, a + 8 := lnk fl 0, a + 12 := 0)
                   in if fl = [] then N else N(hd fl + 12 := of_nat (a + 8))) (nm h')"
    and "same_fields h h'" and "last_free h' = of_nat (a + 8)"
proof -
  have w: "of_nat a + 4 = (of_nat (a + 4) :: u32)" "GET_CONTENT (of_nat a) = of_nat (a + 8)"
    "of_nat (a + 8) + 4 = (of_nat (a + 12) :: u32)" "of_nat (x + 8) + 4 = (of_nat (x + 12) :: u32)" for x
    by (simp_all add: GET_CONTENT_def of_nat_add)
  have hd: "hd fl + 16 < 4294967296" if "fl \<noteq> []" using assms(2) hd_in_set [OF that] by blast
  then have nz: "lnk fl 0 \<noteq> 0 \<longleftrightarrow> fl \<noteq> []" using of_nat_u32_zero [of "hd fl + 8"] by (auto simp: lnk_def)
  have "fl \<noteq> [] \<Longrightarrow> lnk fl 0 + 4 = of_nat (hd fl + 12)" by (simp add: lnk_def w)
  with nz have "h' = (let h3 = store (of_nat (a + 12)) 0 (store (of_nat (a + 8)) (lnk fl 0) (store (of_nat (a + 4)) TYPE_FREE h))
      in (if fl = [] then h3 else store (of_nat (hd fl + 12)) (of_nat (a + 8)) h3)\<lparr>last_free := of_nat (a + 8)\<rparr>)"
    unfolding assms(4) push_free_def Let_def w by (simp add: assms(3))
  note h' = this
  show "same_mem (let N = (nm h)(a + 4 := TYPE_FREE, a + 8 := lnk fl 0, a + 12 := 0)
                   in if fl = [] then N else N(hd fl + 12 := of_nat (a + 8))) (nm h')"
    using assms(1) hd by (auto simp: h' Let_def same_mem_def nm_store)
  show "same_fields h h'" "last_free h' = of_nat (a + 8)" by (simp_all add: h' Let_def same_fields_def)
qed

lemma heap_push:
  assumes inv: "heap_inv P h (xs @ b # ys) fl" and b: "\<not> b_free b" and h': "h' = push_free (of_nat (b_addr b)) h"
  shows "heap_inv (P - {b_addr b}) h' (xs @ b\<lparr>b_free := True\<rparr> # ys) (b_addr b # fl)"
    and "same_fields h h'" and "differs_in ({b_addr b ..< b_end b} \<union> (\<Union>x \<in> set fl. fkeys x)) (nm h) (nm h')"
proof -
  let ?a = "b_addr b" and ?bs = "xs @ b # ys"
  let ?N = "(nm h)(?a + 4 := TYPE_FREE, ?a + 8 := lnk fl 0, ?a + 12 := 0)"
  have mem: "b \<in> set ?bs" by simp
  note blk = heap_inv_blk [OF inv mem] and e = heap_inv_end [OF inv mem]
  have size: "8 \<le> b_size b" using blk by (simp add: blk_ok_def)
  then have small: "?a + 16 < 4294967296" using e by (simp add: b_end_def)
  have p: "same_mem (if fl = [] then ?N else ?N(hd fl + 12 := of_nat (?a + 8))) (nm h')"
    "same_fields h h'" "last_free h' = of_nat (?a + 8)"
    using push_free_nm [OF small _ _ h', of fl] heap_inv_small [OF inv] inv by (auto simp: heap_inv_def Let_def)
  show "same_fields h h'" by (fact p)
  have K: "(if fl = [] then ?N else ?N(hd fl + 12 := of_nat (?a + 8))) n = nm h n"
    if "n \<notin> {?a ..< b_end b} \<union> (\<Union>x \<in> set fl. fkeys x)" for n
    using that size hd_in_set [of fl] by (auto simp: b_end_def fkeys_def)
  show diff: "differs_in ({?a ..< b_end b} \<union> (\<Union>x \<in> set fl. fkeys x)) (nm h) (nm h')"
    by (rule same_mem_differs [OF p(1) K])
  have dr: "differs_in {?a ..< b_end b} (nm h) ?N" using size by (auto simp: differs_in_def b_end_def)
  note seg = links_outside [OF inv mem b dr]
  have far: "\<forall>y \<in> set fl. ?a + 16 \<le> y \<or> y + 16 \<le> ?a"
  proof
    fix y assume "y \<in> set fl"
    then obtain c where c: "c \<in> set ?bs" "b_free c" "b_addr c = y" using inv heap_inv_free by blast
    then have "b \<noteq> c" using b by auto
    then show "?a + 16 \<le> y \<or> y + 16 \<le> ?a" using heap_inv_apart [OF inv mem c(1)] c(3) by (auto simp: b_end_def)
  qed
  have sp: "spaced fl" using inv by (simp add: heap_inv_def)
  have "seg (if fl = [] then ?N else ?N(hd fl + 12 := of_nat (?a + 8))) 0 (?a # fl) 0"
  proof (cases fl)
    case (Cons y zs)
    have "seg (?N(y + 12 := of_nat (?a + 8))) (of_nat (?a + 8)) fl 0"
      using seg_set_next [of ?N 0 y zs 0] seg sp Cons by simp
    then show ?thesis using far Cons by auto
  qed simp
  moreover have "\<forall>x \<in> set (?a # fl). x + 16 < 4294967296" using heap_inv_small [OF inv] small by simp
  ultimately have "seg (nm h') 0 (?a # fl) 0" using seg_same_mem [OF p(1)] by blast
  moreover have "tiles (P - {?a}) (nm h') (unat (alloc_start h)) (xs @ b\<lparr>b_free := True\<rparr> # ys) (unat (alloc_end h))"
  proof -
    let ?K = "{?a ..< b_end b} \<union> (\<Union>x \<in> set fl. fkeys x)"
    have "blk_ok (P - {?a}) (nm h') c" if c: "c \<in> set xs \<union> set ys" for c
    proof -
      have "tkeys c \<inter> ?K = {}" using heap_inv_other(3) [OF inv c] tkeys_fkeys [OF inv, of c] c by fastforce
      moreover have "n < 4294967296" if "n \<in> tkeys c" for n
        using that heap_inv_end [OF inv, of c] c by (auto simp: tkeys_def b_end_def)
      ultimately have "nm h' n = nm h n" if "n \<in> tkeys c" for n using that diff unfolding differs_in_def by blast
      moreover have "blk_ok P (nm h) c" using heap_inv_blk [OF inv, of c] c by auto
      ultimately show ?thesis using heap_inv_other(2) [OF inv c] by (auto simp: blk_ok_def tkeys_def)
    qed
    moreover have "tkeys b \<inter> fkeys (hd fl) = {}" if "fl \<noteq> []" using tkeys_fkeys [OF inv mem] that by simp
    then have "nm h' ?a = nm h ?a" "nm h' (?a + 4) = TYPE_FREE" "nm h' (?a + 8 + b_size b) = nm h (?a + 8 + b_size b)"
      using p(1) e size by (auto simp: same_mem_def b_end_def tkeys_def fkeys_def)
    then have "blk_ok (P - {?a}) (nm h') (b\<lparr>b_free := True\<rparr>)" using blk by (auto simp: blk_ok_def)
    ultimately show ?thesis
      using heap_inv_tiles [OF inv] by (auto simp: tiles_def tiled_append b_end_def)
  qed
  moreover have "set (?a # fl) = free_addrs (xs @ b\<lparr>b_free := True\<rparr> # ys)"
    using inv b by (auto simp: heap_inv_def)
  ultimately show "heap_inv (P - {?a}) h' (xs @ b\<lparr>b_free := True\<rparr> # ys) (?a # fl)"
    using inv p far by (simp add: heap_inv_def same_fields_def)
qed

text \<open>Growing a block over its right neighbour.\<close>

definition grown :: "blk \<Rightarrow> blk \<Rightarrow> blk" where
  "grown c d = c\<lparr>b_size := b_size c + b_size d + 16\<rparr>"

lemma grown_simps [simp]: "b_addr (grown c d) = b_addr c" "b_free (grown c d) = b_free c"
  "b_end (grown c d) = b_addr c + (b_size c + b_size d + 16) + 16"
  by (simp_all add: grown_def b_end_def)

lemma heap_grow:
  assumes inv: "heap_inv P h (xs @ c # d # ys) fl"
    and h': "h' = set_block (of_nat (b_size c) + FULL_SIZE h (of_nat (b_addr d))) (of_nat (b_addr c)) h"
  shows "tiles (P - {b_addr d}) (nm h') (unat (alloc_start h)) (xs @ grown c d # ys) (unat (alloc_end h))"
    and "seg (nm h') 0 fl 0" and "same_fields h h'" and "last_free h' = last_free h"
    and "differs_in (tkeys c \<union> tkeys d) (nm h) (nm h')"
proof -
  let ?z = "b_size c + b_size d + 16" and ?bs = "xs @ c # d # ys"
  have mem: "c \<in> set ?bs" "d \<in> set ?bs" by simp_all
  note c = heap_inv_blk [OF inv mem(1)] and d = heap_inv_blk [OF inv mem(2)]
  have adj: "b_addr d = b_end c" using inv by (auto simp: heap_inv_def tiles_append tiles_Cons)
  have e: "b_end d < 4294967296" by (rule heap_inv_end [OF inv mem(2)])
  have foot: "b_addr c + 8 + ?z = b_addr d + 8 + b_size d" using adj by (simp add: b_end_def)
  have "of_nat (b_size c) + FULL_SIZE h (of_nat (b_addr d)) = of_nat ?z"
    using heap_inv_size [OF inv mem(2)] by (simp add: FULL_SIZE_def of_nat_add)
  then have h': "h' = set_block (of_nat ?z) (of_nat (b_addr c)) h" by (simp add: h')
  have "b_addr c + 8 + ?z < 4294967296" using e foot by (simp add: b_end_def)
  note s = set_block_nm [OF this, of h, folded h', unfolded foot]
  show "same_fields h h'" "last_free h' = last_free h" by (fact s)+
  show diff: "differs_in (tkeys c \<union> tkeys d) (nm h) (nm h')"
    by (rule same_mem_differs [OF s(1)]) (auto simp: tkeys_def)
  have "same_links (set fl) (nm h) (nm h')"
    unfolding same_links_def
  proof
    fix x assume x: "x \<in> set fl"
    then have "x + 8 \<notin> tkeys c \<union> tkeys d" "x + 12 \<notin> tkeys c \<union> tkeys d" "x + 16 < 4294967296"
      using tkeys_fkeys [OF inv _ x] heap_inv_small [OF inv x] mem by (auto simp: fkeys_def)
    then show "nm h' (x + 8) = nm h (x + 8) \<and> nm h' (x + 12) = nm h (x + 12)"
      using diff by (auto simp: differs_in_def)
  qed
  then show "seg (nm h') 0 fl 0" using inv seg_cong by (simp add: heap_inv_def)
  have reg: "differs_in {b_addr c ..< b_end d} (nm h) (nm h')"
    using diff adj by (rule_tac differs_in_mono) (auto simp: tkeys_def b_end_def)
  have "nm h' (b_addr c) = of_nat ?z" "nm h' (b_addr c + 8 + ?z) = of_nat ?z" "nm h' (b_addr c + 4) = nm h (b_addr c + 4)"
    using s(1) e adj foot by (auto simp: same_mem_def b_end_def)
  then have "tiles (P - {b_addr d}) (nm h') (b_addr c) [grown c d] (b_end d)"
    using c d adj by (auto simp: tiles_Cons blk_ok_def b_end_def) (auto simp: grown_def)
  then have "tiles (P - {b_addr d}) (nm h') (unat (alloc_start h)) (xs @ [grown c d] @ ys) (unat (alloc_end h))"
    using adj unat_u32_less [of "alloc_end h"] heap_inv_tiles [OF inv]
    by (intro tiles_replace [OF _ _ reg, of P _ xs "[c, d]"]) (auto simp: b_end_def simp del: unat_u32_less)
  then show "tiles (P - {b_addr d}) (nm h') (unat (alloc_start h)) (xs @ grown c d # ys) (unat (alloc_end h))" by simp
qed

lemma heap_merge_prev:
  assumes inv: "heap_inv P h (xs @ c # d # ys) fl" and cd: "b_free c" "\<not> b_free d"
    and h': "h' = set_block (of_nat (b_size c) + FULL_SIZE h (of_nat (b_addr d))) (of_nat (b_addr c)) h"
  shows "heap_inv (P - {b_addr d}) h' (xs @ grown c d # ys) fl"
    and "same_fields h h'" and "differs_in (tkeys c \<union> tkeys d) (nm h) (nm h')"
proof -
  note g = heap_grow [OF inv h']
  show "heap_inv (P - {b_addr d}) h' (xs @ grown c d # ys) fl"
    using inv g(1-4) cd by (auto simp: heap_inv_def same_fields_def)
  show "same_fields h h'" "differs_in (tkeys c \<union> tkeys d) (nm h) (nm h')" by (fact g)+
qed

lemma heap_merge_next:
  assumes inv: "heap_inv P h (xs @ c # d # ys) fl" and cd: "b_free c" "b_free d"
    and h1: "h1 = set_block (of_nat (b_size c) + FULL_SIZE h (of_nat (b_addr d))) (of_nat (b_addr c)) h"
    and h': "h' = unlink_free_block (of_nat (b_addr d + 8)) h1"
  shows "\<exists>fl'. heap_inv (P - {b_addr d}) h' (xs @ grown c d # ys) fl'"
    and "same_fields h h'" and "differs_in (tkeys c \<union> tkeys d \<union> (\<Union>x \<in> set fl. fkeys x)) (nm h) (nm h')"
proof -
  let ?bs = "xs @ c # d # ys"
  note g = heap_grow [OF inv h1]
  have d: "b_addr d \<in> set fl" using inv cd by (simp add: heap_inv_def)
  then obtain us vs where fl: "fl = us @ b_addr d # vs" by (meson split_list)
  have sp: "spaced (us @ b_addr d # vs)" and last: "last_free h1 = lnk (us @ b_addr d # vs) 0"
    using inv fl g(4) by (simp_all add: heap_inv_def)
  have "\<forall>y \<in> set (us @ b_addr d # vs). y + 16 < 4294967296" using heap_inv_small [OF inv] fl by simp
  note u = unlink_seg [OF g(2) [unfolded fl] sp last this h']
  show sf: "same_fields h h'" using g(3) u(3) same_fields_trans by blast
  have K: "differs_in (\<Union>x \<in> set fl. fkeys x) (nm h1) (nm h')" using u(4) by (rule differs_in_mono) (auto simp: fl)
  show "differs_in (tkeys c \<union> tkeys d \<union> (\<Union>x \<in> set fl. fkeys x)) (nm h) (nm h')"
    by (rule differs_in_trans [OF differs_in_mono [OF g(5)] differs_in_mono [OF K]]) auto
  have adj: "b_addr d = b_end c" using inv by (auto simp: heap_inv_def tiles_append tiles_Cons)
  have "tkeys b \<inter> (\<Union>x \<in> set fl. fkeys x) = {}" if "b \<in> set (xs @ grown c d # ys)" for b
  proof -
    have "tkeys (grown c d) \<subseteq> tkeys c \<union> tkeys d" using adj by (auto simp: tkeys_def grown_def b_end_def)
    then have "tkeys b \<subseteq> (\<Union>b \<in> set ?bs. tkeys b)" using that by auto
    then show ?thesis using tkeys_fkeys [OF inv] by blast
  qed
  moreover have "unat (alloc_end h) \<le> 4294967296" using unat_u32_less [of "alloc_end h"] by linarith
  ultimately have t: "tiles (P - {b_addr d}) (nm h') (unat (alloc_start h)) (xs @ grown c d # ys) (unat (alloc_end h))"
    by (intro tiles_links [OF g(1) K]) blast+
  have "b_addr d \<notin> free_addrs xs \<union> free_addrs ys \<union> {b_addr c}"
  proof -
    have "\<forall>x \<in> set xs \<union> set ys \<union> {c}. b_addr x \<noteq> b_addr d"
      using heap_inv_other(2) [of P h "xs @ [c]" d ys fl] inv by auto
    then show ?thesis by (fastforce simp: free_addrs_def)
  qed
  moreover have "b_addr d \<notin> set (us @ vs)" using spaced_distinct [OF sp] by simp
  moreover have "insert (b_addr d) (set (us @ vs)) = insert (b_addr d) (free_addrs xs \<union> free_addrs ys \<union> {b_addr c})"
    using inv cd fl by (auto simp: heap_inv_def)
  ultimately have "set (us @ vs) = free_addrs (xs @ grown c d # ys)" using cd by (simp add: insert_ident)
  then have "heap_inv (P - {b_addr d}) h' (xs @ grown c d # ys) (us @ vs)"
    using u t inv sf by (simp add: heap_inv_def same_fields_def)
  then show "\<exists>fl'. heap_inv (P - {b_addr d}) h' (xs @ grown c d # ys) fl'" by blast
qed

section \<open>Freeing a block\<close>

definition merge_left :: "blk list \<Rightarrow> blk \<Rightarrow> blk list \<times> blk" where
  "merge_left xs b =
     (if xs \<noteq> [] \<and> b_free (last xs) then (butlast xs, grown (last xs) b) else (xs, b\<lparr>b_free := True\<rparr>))"

definition merge_right :: "blk \<Rightarrow> blk list \<Rightarrow> blk \<times> blk list" where
  "merge_right c ys = (if ys \<noteq> [] \<and> b_free (hd ys) then (grown c (hd ys), tl ys) else (c, ys))"

text \<open>The abstract effect of \<^verbatim>\<open>free_block\<close>: the block becomes free and is joined with its free neighbours.\<close>

definition freed :: "blk list \<Rightarrow> blk \<Rightarrow> blk list \<Rightarrow> blk list" where
  "freed xs b ys = (case merge_left xs b of (xs', c) \<Rightarrow> case merge_right c ys of (c', ys') \<Rightarrow> xs' @ c' # ys')"

text \<open>Everything \<^verbatim>\<open>free_block\<close> may write to.\<close>

definition footprint :: "blk list \<Rightarrow> blk \<Rightarrow> nat list \<Rightarrow> nat set" where
  "footprint bs b fl = {b_addr b ..< b_end b} \<union> (\<Union>x \<in> set fl. fkeys x) \<union> (\<Union>c \<in> set bs. tkeys c)"

lemma PREV_BLOCK_nm:
  assumes "heap_inv P h (xs @ p # b # ys) fl"
  shows "PREV_BLOCK h (of_nat (b_addr b)) = of_nat (b_addr p)"
proof -
  have "b_addr b = b_end p" using assms by (auto simp: heap_inv_def tiles_append tiles_Cons)
  then have "PREV_FOOTER (of_nat (b_addr b)) = of_nat (b_addr p + 8 + b_size p)"
    by (simp add: PREV_FOOTER_def b_end_def of_nat_add)
  moreover have "kh_mem h (of_nat (b_addr p + 8 + b_size p)) = of_nat (b_size p)"
    using heap_inv_blk [OF assms, of p] by (simp add: blk_ok_def nm_def)
  ultimately show ?thesis by (simp add: PREV_BLOCK_def of_nat_add)
qed

text \<open>The two halves of \<^verbatim>\<open>free_block\<close>.\<close>

definition free_left :: "u32 \<Rightarrow> kheap \<Rightarrow> u32 \<times> kheap" where
  "free_left header h =
     (if alloc_start h < header \<and> mb_type h (PREV_BLOCK h header) = TYPE_FREE
      then (PREV_BLOCK h header,
            set_block (mb_size h (PREV_BLOCK h header) + FULL_SIZE h header) (PREV_BLOCK h header) h)
      else (header, push_free header h))"

definition free_right :: "u32 \<Rightarrow> kheap \<Rightarrow> u32 \<times> kheap" where
  "free_right header h =
     (if NEXT_BLOCK h header < alloc_end h \<and> mb_type h (NEXT_BLOCK h header) = TYPE_FREE
      then (header, unlink_free_block (GET_CONTENT (NEXT_BLOCK h header))
                      (set_block (mb_size h header + FULL_SIZE h (NEXT_BLOCK h header)) header h))
      else (header, h))"

lemma free_block_halves: "free_block header True h = (case free_left header h of (header, h) \<Rightarrow> free_right header h)"
  unfolding free_block_def free_left_def free_right_def push_free_def Let_def by (simp split: if_splits)

lemma type_codes [simp]: "TYPE_USED \<noteq> TYPE_FREE" "TYPE_FREE \<noteq> TYPE_USED"
  by (simp_all add: TYPE_USED_def TYPE_FREE_def)

lemma heap_inv_type:
  assumes "heap_inv P h bs fl" "c \<in> set bs" "b_addr c \<notin> P"
  shows "mb_type h (of_nat (b_addr c)) = TYPE_FREE \<longleftrightarrow> b_free c"
  using heap_inv_blk [OF assms(1,2)] assms(3) by (simp add: members_nm blk_ok_def)

lemma free_left_correct:
  assumes inv: "heap_inv P h (xs @ b # ys) fl" and b: "\<not> b_free b" and P: "P \<subseteq> {b_addr b}"
    and f: "free_left (of_nat (b_addr b)) h = (header, h')" and m: "merge_left xs b = (xs', c)"
  shows "header = of_nat (b_addr c) \<and> b_free c \<and> same_fields h h' \<and>
    (\<exists>fl'. heap_inv {} h' (xs' @ c # ys) fl' \<and> set fl' \<subseteq> insert (b_addr b) (set fl)) \<and>
    differs_in (footprint (xs @ b # ys) b fl) (nm h) (nm h')"
proof (cases "xs \<noteq> [] \<and> b_free (last xs)")
  case True
  then obtain zs p where xs: "xs = zs @ [p]" and p: "b_free p" by (cases xs rule: rev_cases) auto
  have inv': "heap_inv P h (zs @ p # b # ys) fl" using inv xs by simp
  have adj: "b_addr b = b_end p" using inv' by (auto simp: heap_inv_def tiles_append tiles_Cons)
  have start: "unat (alloc_start h) \<le> b_addr p"
    using tiled_bounds [of _ "zs @ p # b # ys"] inv' by (fastforce simp: heap_inv_def tiles_def)
  have "of_nat (b_addr b) > alloc_start h"
    using adj start heap_inv_end [OF inv', of b] unat_of_nat_u32 [of "b_addr b"] by (simp add: u32_less_nat b_end_def)
  moreover have prev: "PREV_BLOCK h (of_nat (b_addr b)) = of_nat (b_addr p)" by (rule PREV_BLOCK_nm [OF inv'])
  moreover have "mb_type h (of_nat (b_addr p)) = TYPE_FREE"
  proof -
    have "b_addr p \<notin> P" using P adj by (auto simp: b_end_def)
    then show ?thesis using heap_inv_type [OF inv', of p] p by simp
  qed
  ultimately have h': "header = of_nat (b_addr p)"
    "h' = set_block (of_nat (b_size p) + FULL_SIZE h (of_nat (b_addr b))) (of_nat (b_addr p)) h"
    using f heap_inv_size [OF inv', of p] by (auto simp: free_left_def)
  note g = heap_merge_prev [OF inv' p b h'(2)]
  have "heap_inv {} h' (xs' @ c # ys) fl" "c = grown p b"
    using g(1) P m True xs by (auto simp: merge_left_def subset_singleton_iff)
  moreover have "differs_in (footprint (xs @ b # ys) b fl) (nm h) (nm h')"
    using g(3) by (rule differs_in_mono) (auto simp: footprint_def xs)
  ultimately show ?thesis using g(2) h'(1) p by auto
next
  case False
  then have c: "xs' = xs" "c = b\<lparr>b_free := True\<rparr>" using m by (auto simp: merge_left_def)
  have "\<not> (alloc_start h < of_nat (b_addr b) \<and> mb_type h (PREV_BLOCK h (of_nat (b_addr b))) = TYPE_FREE)"
  proof (cases xs rule: rev_cases)
    case Nil
    then have "b_addr b = unat (alloc_start h)" using inv by (simp add: heap_inv_def tiles_Cons)
    then show ?thesis by simp
  next
    case (snoc zs p)
    then have inv': "heap_inv P h (zs @ p # b # ys) fl" using inv by simp
    have "b_addr b = b_end p" using inv' by (auto simp: heap_inv_def tiles_append tiles_Cons)
    then have "b_addr p \<notin> P" using P by (auto simp: b_end_def)
    then show ?thesis using heap_inv_type [OF inv', of p] False snoc PREV_BLOCK_nm [OF inv'] by simp
  qed
  then have h': "header = of_nat (b_addr b)" "h' = push_free (of_nat (b_addr b)) h"
    using f by (auto simp: free_left_def)
  note g = heap_push [OF inv b h'(2)]
  have P0: "P - {b_addr b} = {}" using P by blast
  have "heap_inv {} h' (xs' @ c # ys) (b_addr b # fl)" using g(1) unfolding P0 c .
  moreover have "differs_in (footprint (xs @ b # ys) b fl) (nm h) (nm h')"
    using g(3) by (rule differs_in_mono) (auto simp: footprint_def)
  ultimately show ?thesis using g(2) h'(1) c(2) by fastforce
qed

lemma free_right_correct:
  assumes inv: "heap_inv {} h (xs @ c # ys) fl" and c: "b_free c"
    and f: "free_right (of_nat (b_addr c)) h = (header, h')" and m: "merge_right c ys = (c', ys')"
  shows "header = of_nat (b_addr c) \<and> same_fields h h' \<and> (\<exists>fl'. heap_inv {} h' (xs @ c' # ys') fl') \<and>
    differs_in ((\<Union>b \<in> set (c # ys). tkeys b) \<union> (\<Union>x \<in> set fl. fkeys x)) (nm h) (nm h')"
proof -
  have mem: "c \<in> set (xs @ c # ys)" by simp
  have nxt: "NEXT_BLOCK h (of_nat (b_addr c)) = of_nat (b_end c)"
    using NEXT_BLOCK_nm [of h "b_addr c" "b_size c"] heap_inv_blk [OF inv mem] by (simp add: blk_ok_def b_end_def)
  have e: "b_end c < 4294967296" by (rule heap_inv_end [OF inv mem])
  show ?thesis
  proof (cases ys)
    case Nil
    then have "b_end c = unat (alloc_end h)" using inv by (auto simp: heap_inv_def tiles_append tiles_Cons)
    then have "\<not> of_nat (b_end c) < alloc_end h" by simp
    then show ?thesis
      using f m Nil inv unfolding free_right_def nxt merge_right_def
      by (auto simp: same_fields_def differs_in_def)
  next
    case (Cons d zs)
    then have inv': "heap_inv {} h (xs @ c # d # zs) fl" using inv by simp
    have d: "b_addr d = b_end c" using inv' by (auto simp: heap_inv_def tiles_append tiles_Cons)
    have "b_end d \<le> unat (alloc_end h)"
      using tiled_bounds [of _ "xs @ c # d # zs"] inv' by (fastforce simp: heap_inv_def tiles_def)
    then have "of_nat (b_end c) < alloc_end h"
      using d e unat_of_nat_u32 [of "b_end c"] by (simp add: u32_less_nat b_end_def)
    moreover have "mb_type h (of_nat (b_end c)) = TYPE_FREE \<longleftrightarrow> b_free d"
      using heap_inv_type [OF inv', of d] d by simp
    ultimately have fr: "free_right (of_nat (b_addr c)) h = (if b_free d
        then (of_nat (b_addr c), unlink_free_block (GET_CONTENT (of_nat (b_addr d)))
          (set_block (of_nat (b_size c) + FULL_SIZE h (of_nat (b_addr d))) (of_nat (b_addr c)) h))
        else (of_nat (b_addr c), h))"
      using heap_inv_size [OF inv mem] by (simp add: free_right_def nxt d)
    show ?thesis
    proof (cases "b_free d")
      case True
      have w: "GET_CONTENT (of_nat (b_addr d)) = of_nat (b_addr d + 8)" by (simp add: GET_CONTENT_def of_nat_add)
      define h1 where "h1 = set_block (of_nat (b_size c) + FULL_SIZE h (of_nat (b_addr d))) (of_nat (b_addr c)) h"
      have h': "h' = unlink_free_block (of_nat (b_addr d + 8)) h1" "header = of_nat (b_addr c)"
        using f True by (auto simp: fr w h1_def)
      note g = heap_merge_next [OF inv' c True h1_def h'(1)]
      have "differs_in ((\<Union>b \<in> set (c # ys). tkeys b) \<union> (\<Union>x \<in> set fl. fkeys x)) (nm h) (nm h')"
        using g(3) by (rule differs_in_mono) (auto simp: Cons)
      then show ?thesis using g(1,2) h'(2) m Cons True by (auto simp: merge_right_def)
    next
      case False
      then show ?thesis using f fr m Cons inv by (auto simp: merge_right_def same_fields_def differs_in_def)
    qed
  qed
qed

lemma differs_in_two:
  assumes "differs_in K N N'" "differs_in K' N' N''" "K' \<inter> {n. n < 4294967296} \<subseteq> K"
  shows "differs_in K N N''"
  using assms by (auto simp: differs_in_def)

lemma merge_left_keys:
  assumes "heap_inv P h (xs @ b # ys) fl" "merge_left xs b = (xs', c)"
  shows "tkeys c \<subseteq> (\<Union>d \<in> set (xs @ b # ys). tkeys d)"
proof (cases "xs \<noteq> [] \<and> b_free (last xs)")
  case True
  then obtain zs p where xs: "xs = zs @ [p]" by (cases xs rule: rev_cases) auto
  have "b_addr b = b_end p" using assms(1) by (auto simp: xs heap_inv_def tiles_append tiles_Cons)
  moreover have "c = grown p b" using assms(2) True xs by (auto simp: merge_left_def)
  ultimately show ?thesis by (auto simp: xs tkeys_def grown_def b_end_def)
next
  case False
  then show ?thesis using assms(2) by (auto simp: merge_left_def tkeys_def)
qed

lemma free_block_correct:
  assumes inv: "heap_inv P h (xs @ b # ys) fl" and b: "\<not> b_free b" and P: "P \<subseteq> {b_addr b}"
    and f: "free_block (of_nat (b_addr b)) True h = (header, h')"
  shows "(\<exists>fl'. heap_inv {} h' (freed xs b ys) fl') \<and> same_fields h h' \<and>
    differs_in (footprint (xs @ b # ys) b fl) (nm h) (nm h')"
proof -
  obtain hd1 h1 where f1: "free_left (of_nat (b_addr b)) h = (hd1, h1)" by (cases "free_left (of_nat (b_addr b)) h")
  obtain xs' c where m: "merge_left xs b = (xs', c)" by (cases "merge_left xs b")
  obtain c' ys' where r: "merge_right c ys = (c', ys')" by (cases "merge_right c ys")
  obtain fl1 where l: "hd1 = of_nat (b_addr c)" "b_free c" "same_fields h h1" "heap_inv {} h1 (xs' @ c # ys) fl1"
    "set fl1 \<subseteq> insert (b_addr b) (set fl)" "differs_in (footprint (xs @ b # ys) b fl) (nm h) (nm h1)"
    using free_left_correct [OF inv b P f1 m] by auto
  have f2: "free_right (of_nat (b_addr c)) h1 = (header, h')" using f f1 l(1) by (simp add: free_block_halves)
  note r2 = free_right_correct [OF l(4,2) f2 r]
  let ?K2 = "(\<Union>b \<in> set (c # ys). tkeys b) \<union> (\<Union>x \<in> set fl1. fkeys x)"
  have "8 \<le> b_size b" using heap_inv_blk [OF inv, of b] by (simp add: blk_ok_def)
  then have "fkeys (b_addr b) \<subseteq> {b_addr b ..< b_end b}" by (auto simp: fkeys_def b_end_def)
  then have "?K2 \<subseteq> footprint (xs @ b # ys) b fl"
    using merge_left_keys [OF inv m] l(5) by (fastforce simp: footprint_def)
  then have "differs_in (footprint (xs @ b # ys) b fl) (nm h) (nm h')"
    using r2 by (intro differs_in_two [OF l(6), of ?K2]) auto
  moreover have "freed xs b ys = xs' @ c' # ys'" by (simp add: freed_def m r)
  ultimately show ?thesis using r2 l(3) same_fields_trans by auto
qed

section \<open>Used blocks and their contents\<close>

definition used_of :: "blk list \<Rightarrow> (nat \<times> nat) set" where
  "used_of bs = (\<lambda>b. (b_addr b, b_size b)) ` {b \<in> set bs. \<not> b_free b}"

definition content :: "nat \<times> nat \<Rightarrow> nat set" where
  "content u = {fst u + 8 ..< fst u + 8 + snd u}"

definition no_adj :: "blk list \<Rightarrow> bool" where
  "no_adj bs \<longleftrightarrow> successively (\<lambda>b c. \<not> (b_free b \<and> b_free c)) bs"

text \<open>The contents of the blocks \<open>U\<close> are the same in both heaps.\<close>

definition frame :: "(nat \<times> nat) set \<Rightarrow> kheap \<Rightarrow> kheap \<Rightarrow> bool" where
  "frame U h h' \<longleftrightarrow> (\<forall>u \<in> U. \<forall>n \<in> content u. nm h' n = nm h n)"

lemma used_of_simps [simp]: "used_of [] = {}" "used_of (xs @ ys) = used_of xs \<union> used_of ys"
  "used_of (b # bs) = (if b_free b then used_of bs else insert (b_addr b, b_size b) (used_of bs))"
  by (auto simp: used_of_def)

lemma no_adj_simps [simp]: "no_adj []" "no_adj [b]"
  by (simp_all add: no_adj_def)

lemma no_adj_append:
  "no_adj (xs @ ys) \<longleftrightarrow> no_adj xs \<and> no_adj ys \<and> (xs = [] \<or> ys = [] \<or> \<not> (b_free (last xs) \<and> b_free (hd ys)))"
  by (auto simp: no_adj_def successively_append_iff)

lemma no_adj_Cons: "no_adj (b # bs) \<longleftrightarrow> no_adj bs \<and> (bs = [] \<or> \<not> (b_free b \<and> b_free (hd bs)))"
  using no_adj_append [of "[b]" bs] by auto

lemma used_of_freed: "used_of (freed xs b ys) = used_of xs \<union> used_of ys"
proof -
  obtain xs' c where m: "merge_left xs b = (xs', c)" by (cases "merge_left xs b")
  obtain c' ys' where r: "merge_right c ys = (c', ys')" by (cases "merge_right c ys")
  have "b_free c" "used_of xs' = used_of xs"
    using m by (cases xs rule: rev_cases; auto simp: merge_left_def split: if_splits)+
  moreover from this have "b_free c'" "used_of ys' = used_of ys"
    using r by (cases ys; auto simp: merge_right_def split: if_splits)+
  ultimately show ?thesis by (simp add: freed_def m r)
qed

lemma no_adj_freed:
  assumes "no_adj xs" "no_adj ys"
  shows "no_adj (freed xs b ys)"
proof -
  obtain xs' c where m: "merge_left xs b = (xs', c)" by (cases "merge_left xs b")
  obtain c' ys' where r: "merge_right c ys = (c', ys')" by (cases "merge_right c ys")
  have "no_adj xs' \<and> (xs' = [] \<or> \<not> b_free (last xs'))"
    using m assms(1) by (cases xs rule: rev_cases) (auto simp: merge_left_def no_adj_append split: if_splits)
  moreover have "no_adj ys' \<and> (ys' = [] \<or> \<not> b_free (hd ys'))"
    using r assms(2) by (cases ys) (auto simp: merge_right_def no_adj_Cons split: if_splits)
  ultimately show ?thesis by (auto simp: freed_def m r no_adj_append no_adj_Cons)
qed

lemma frame_refl [simp]: "frame U h h"
  by (simp add: frame_def)

lemma frame_trans: "frame U h h' \<Longrightarrow> frame U h' h'' \<Longrightarrow> frame U h h''"
  by (simp add: frame_def)

lemma frame_mono: "frame U h h' \<Longrightarrow> V \<subseteq> U \<Longrightarrow> frame V h h'"
  by (auto simp: frame_def)

lemma footprint_content:
  assumes inv: "heap_inv P h (xs @ b # ys) fl" and c: "c \<in> set xs \<union> set ys" "\<not> b_free c"
  shows "footprint (xs @ b # ys) b fl \<inter> content (b_addr c, b_size c) = {}"
proof -
  let ?bs = "xs @ b # ys"
  have c': "c \<in> set ?bs" using c by auto
  have apart: "b_end d \<le> b_addr c \<or> b_end c \<le> b_addr d" if "d \<in> set ?bs" "d \<noteq> c" for d
    using heap_inv_apart [OF inv that(1) c' that(2)] .
  have "n \<notin> content (b_addr c, b_size c)" if "n \<in> {b_addr b ..< b_end b}" for n
    using that apart [of b] heap_inv_other(1) [OF inv c(1)] by (auto simp: content_def b_end_def)
  moreover have "n \<notin> content (b_addr c, b_size c)" if "n \<in> fkeys x" "x \<in> set fl" for n x
  proof -
    note x = that
    obtain d where d: "d \<in> set ?bs" "b_free d" "b_addr d = x" using inv x(2) heap_inv_free by blast
    then have "d \<noteq> c" using c(2) by auto
    moreover have "8 \<le> b_size d" using heap_inv_blk [OF inv d(1)] by (simp add: blk_ok_def)
    ultimately show ?thesis using apart [OF d(1)] d(3) x(1) by (auto simp: content_def b_end_def fkeys_def)
  qed
  moreover have "n \<notin> content (b_addr c, b_size c)" if "n \<in> tkeys d" "d \<in> set ?bs" for n d
    using that(1) apart [OF that(2)] by (cases "d = c") (auto simp: content_def b_end_def tkeys_def)
  ultimately show ?thesis unfolding footprint_def by blast
qed

lemma footprint_frame:
  assumes inv: "heap_inv P h (xs @ b # ys) fl" and diff: "differs_in K (nm h) (nm h')"
    and K: "K \<subseteq> footprint (xs @ b # ys) b fl"
  shows "frame (used_of (xs @ ys)) h h'"
  unfolding frame_def
proof (intro ballI)
  fix u n assume u: "u \<in> used_of (xs @ ys)" and n: "n \<in> content u"
  from u obtain c where c: "c \<in> set xs \<union> set ys" "\<not> b_free c" "u = (b_addr c, b_size c)"
    by (auto simp: used_of_def)
  then have "n < b_end c" using n by (auto simp: content_def b_end_def)
  moreover have "b_end c < 4294967296" using heap_inv_end [OF inv, of c] c(1) by auto
  moreover have "n \<notin> K" using footprint_content [OF inv c(1,2)] K n c(3) by blast
  ultimately show "nm h' n = nm h n" using diff by (simp add: differs_in_def)
qed

section \<open>Alignment\<close>

definition padded :: "nat \<Rightarrow> nat" where
  "padded off = (if off < 256 then off + 4096 else off)"

lemma padded_facts:
  "256 \<le> padded off" "off \<le> 4096 \<Longrightarrow> padded off \<le> 4352" "8 dvd off \<Longrightarrow> 8 dvd padded off"
  "(x + off) mod 4096 = 0 \<Longrightarrow> (x + padded off) mod 4096 = 0"
proof -
  show "8 dvd off \<Longrightarrow> 8 dvd padded off" by (simp add: padded_def)
  show "(x + off) mod 4096 = 0 \<Longrightarrow> (x + padded off) mod 4096 = 0"
    by (simp add: padded_def add.assoc [symmetric])
qed (simp_all add: padded_def)

definition align_off :: "nat \<Rightarrow> bool \<Rightarrow> nat" where
  "align_off a align =
     (if align \<and> (a + 8) mod 4096 \<noteq> 0 then padded (4096 - (a + 8) mod 4096) else 0)"

lemma align_off_bound: "align_off a align \<le> 4352"
  by (simp add: align_off_def padded_facts)

lemma align_off_min: "align_off a align = 0 \<or> 256 \<le> align_off a align"
  by (simp add: align_off_def padded_facts)

lemma align_off_mult:
  assumes "8 dvd a"
  shows "8 dvd align_off a align"
proof -
  have "8 dvd (a + 8) mod 4096" using assms by (simp add: dvd_mod)
  then have "8 dvd 4096 - (a + 8) mod 4096" by (intro dvd_diff_nat) auto
  then show ?thesis by (simp add: align_off_def padded_facts(3))
qed

lemma align_off_aligned:
  assumes "align"
  shows "(a + 8 + align_off a align) mod 4096 = 0"
proof -
  have "(a + 8 + (4096 - (a + 8) mod 4096)) mod 4096 = 0"
    using mod_less_divisor [of 4096 "a + 8"] mult_div_mod_eq [of 4096 "a + 8"]
    by (metis (no_types, lifting) add.commute le_add_diff_inverse less_imp_le mod_add_right_eq mod_self zero_less_numeral)
  from padded_facts(4) [OF this] show ?thesis using assms by (simp add: align_off_def)
qed

lemma get_alignment_offset_nat:
  assumes "a + 8 \<le> 4294967296 - 4096"
  shows "get_alignment_offset (of_nat a) = of_nat (align_off a True)"
proof -
  let ?c = "of_nat (a + 8) :: u32"
  have c: "GET_CONTENT (of_nat a) = ?c" by (simp add: GET_CONTENT_def of_nat_add)
  have u: "unat ?c = a + 8" using assms by (simp add: unat_of_nat_u32)
  have page: "PAGE_SIZE = mask 12 + 1" "unat PAGE_SIZE = 2 ^ 12" by (simp_all add: PAGE_SIZE_def mask_eq_exp_minus_1)
  have "?c AND (PAGE_SIZE - 1) = take_bit 12 ?c" by (simp add: page(1) take_bit_eq_mask)
  then have z: "?c AND (PAGE_SIZE - 1) \<noteq> 0 \<longleftrightarrow> (a + 8) mod 4096 \<noteq> 0"
    by (simp add: u32_eq_nat unat_take_bit_u32 u del: u32_eq_zero)
  show ?thesis
  proof (cases "(a + 8) mod 4096 = 0")
    case True
    then show ?thesis using z by (simp add: get_alignment_offset_def c align_off_def)
  next
    case False
    obtain off where off: "off = 4096 - (a + 8) mod 4096" by blast
    have "unat (ALIGN ?c PAGE_SIZE) = a + 8 + off"
      using unat_ALIGN [OF page, of ?c] assms u False mod_less_divisor [of 4096 "a + 8"] by (simp add: off)
    then have "ALIGN ?c PAGE_SIZE = ?c + of_nat off" by (metis of_nat_add word_unat_eq_iff unat_of_nat_u32 unat_u32_less)
    then have o: "ALIGN ?c PAGE_SIZE - ?c = of_nat off" by simp
    have "off < 4294967296" by (simp add: off)
    then have "of_nat off < (0x100 :: u32) \<longleftrightarrow> off < 256" by (simp add: u32_less_nat unat_of_nat_u32)
    moreover have "align_off a True = padded off" using False by (simp add: align_off_def off)
    moreover have "of_nat (off + 4096) = of_nat off + PAGE_SIZE" by (simp add: of_nat_add PAGE_SIZE_def)
    ultimately show ?thesis
      using False z unfolding get_alignment_offset_def c o Let_def padded_def by simp
  qed
qed

section \<open>Searching the free list\<close>

definition fits :: "kheap \<Rightarrow> u32 \<Rightarrow> bool \<Rightarrow> nat \<Rightarrow> bool" where
  "fits h sz align x \<longleftrightarrow> fit_size (of_nat x) sz align \<le> nm h x"

lemma find_fit_correct:
  assumes inv: "heap_inv {} h bs fl" and vs: "set vs \<subseteq> set fl" "seg (nm h) nxt vs 0"
  shows "find_fit h (lnk vs 0) sz align =
    Some (case filter (fits h sz align) vs of [] \<Rightarrow> 0 | x # _ \<Rightarrow> of_nat (x + 8))"
  using vs
proof (induction vs arbitrary: nxt)
  case Nil
  then show ?case by (subst find_fit.simps) simp
next
  case (Cons x vs)
  have x: "x \<in> set fl" using Cons.prems by simp
  obtain b where b: "b \<in> set bs" "b_free b" "b_addr b = x" using heap_inv_free [OF inv x] by blast
  have type: "mb_type h (of_nat x) = TYPE_FREE" using heap_inv_type [OF inv b(1)] b by simp
  have nz: "(of_nat (x + 8) :: u32) \<noteq> 0"
    using heap_inv_small [OF inv x] of_nat_u32_zero [of "x + 8"] by simp
  have hd: "GET_HEADER_FROM_FB (of_nat (x + 8)) = of_nat x" by (simp add: GET_HEADER_FROM_FB_def of_nat_add)
  have "fb_prev h (of_nat (x + 8)) = lnk vs 0" using Cons.prems by (simp add: members_nm)
  then show ?case
    using Cons.IH [of "of_nat (x + 8)"] Cons.prems nz
    by (subst find_fit.simps) (simp add: hd Let_def type members_nm(1) fits_def [of _ _ _ x])
qed

end
