(* ===== verification/Kmalloc_Spec.thy ===== *)
theory Kmalloc_Spec
  imports Kmalloc_Inv
begin

text \<open>
  What \<^verbatim>\<open>kmalloc\<close>, \<^verbatim>\<open>kfree\<close> and \<^verbatim>\<open>krealloc\<close> promise: the abstract heap before and after a call, and the
  interface \<open>block_store\<close> that the rest of the kernel relies on.
\<close>

section \<open>The abstract heap\<close>

definition kheap_abs :: "kheap \<Rightarrow> blk list \<Rightarrow> bool" where
  "kheap_abs h bs \<longleftrightarrow> (\<exists>fl. heap_inv {} h bs fl) \<and> no_adj bs"

lemma tiled_dvd:
  "8 dvd s \<Longrightarrow> tiled s bs e \<Longrightarrow> \<forall>b \<in> set bs. 8 dvd b_size b \<Longrightarrow> 8 dvd e \<and> (\<forall>b \<in> set bs. 8 dvd b_addr b)"
proof (induction bs arbitrary: s)
  case (Cons c bs)
  have "8 dvd b_end c" using Cons.prems by (auto simp: b_end_def)
  then show ?case using Cons.prems Cons.IH [of "b_end c"] by auto
qed simp

text \<open>Every header is at a multiple of 8, and so are the words that the model reads and writes at a multiple of 4.\<close>

lemma heap_aligned:
  assumes "heap_inv P h bs fl"
  shows "8 dvd unat (alloc_end h)" "b \<in> set bs \<Longrightarrow> 8 dvd b_addr b"
  using assms tiled_dvd [of "unat (alloc_start h)" bs "unat (alloc_end h)"]
  by (auto simp: heap_inv_def tiles_def blk_ok_def)

lemma no_adj_split: "no_adj (xs @ b # ys) \<Longrightarrow> no_adj xs \<and> no_adj ys"
  by (auto simp: no_adj_append no_adj_Cons)

lemma no_adj_used: "\<not> b_free b \<Longrightarrow> no_adj (xs @ b # ys) \<longleftrightarrow> no_adj xs \<and> no_adj ys"
  by (auto simp: no_adj_append no_adj_Cons)

text \<open>A block \<open>b\<close> of the heap is being handed out: it is used, but its type may not say so yet.\<close>

definition pending :: "kheap \<Rightarrow> blk list \<Rightarrow> blk \<Rightarrow> blk list \<Rightarrow> bool" where
  "pending h xs b ys \<longleftrightarrow>
     (\<exists>P fl. heap_inv P h (xs @ b # ys) fl \<and> P \<subseteq> {b_addr b}) \<and> \<not> b_free b \<and> no_adj xs \<and> no_adj ys"

lemma freed_remainder:
  assumes "\<not> b_free b" "ys = [] \<or> \<not> b_free (hd ys)"
  shows "freed (xs @ [b]) c ys = xs @ b # c\<lparr>b_free := True\<rparr> # ys"
  using assms by (auto simp: freed_def merge_left_def merge_right_def)

lemma carve_correct:
  assumes inv: "heap_inv {} h (xs @ b # ys) fl" and adj: "no_adj (xs @ b # ys)" and b: "b_free b"
    and n: "8 \<le> n" "8 dvd n" "n + align_off (b_addr b) align \<le> b_size b" "n + 8192 < 4294967296"
    and e: "unat (alloc_end h) + 8192 < 4294967296"
    and c: "carve (of_nat (b_addr b + 8)) (of_nat n) align h = (header, h')"
  shows "header = of_nat (b_addr b) \<and> same_fields h h' \<and> frame (used_of (xs @ b # ys)) h h' \<and>
    (\<exists>b' ys'. pending h' xs b' ys' \<and> b_addr b' = b_addr b \<and> n + align_off (b_addr b) align \<le> b_size b' \<and>
       used_of ys' = used_of ys)"
proof -
  let ?a = "b_addr b" and ?off = "align_off (b_addr b) align"
  have mem: "b \<in> set (xs @ b # ys)" by simp
  have used: "used_of (xs @ b # ys) = used_of (xs @ ys)" using b by simp
  have adj': "no_adj xs" "no_adj ys" "ys = [] \<or> \<not> b_free (hd ys)" using adj b by (auto simp: no_adj_append no_adj_Cons)
  have "?a \<in> set fl" using inv b by (simp add: heap_inv_def)
  then obtain us vs where fl: "fl = us @ ?a # vs" by (meson split_list)
  let ?h1 = "unlink_free_block (of_nat (?a + 8)) h" and ?b1 = "b\<lparr>b_free := False\<rparr>"
  note u = heap_unlink [OF inv fl b refl]
  have hd: "GET_HEADER_FROM_FB (of_nat (?a + 8)) = of_nat ?a" by (simp add: GET_HEADER_FROM_FB_def of_nat_add)
  have lim: "b_end b \<le> unat (alloc_end h)"
    using tiled_bounds [OF _ mem] inv by (auto simp: heap_inv_def tiles_def)
  then have "?a + 8 \<le> 4294967296 - 4096" using e lim by (simp add: b_end_def)
  then have off: "of_nat n + fit_offset (of_nat ?a) align = of_nat (n + ?off)"
    by (auto simp: fit_offset_def get_alignment_offset_nat of_nat_add align_off_def)
  obtain new h2 where sp: "split_block (of_nat ?a) (of_nat (n + ?off)) ?h1 = (new, h2)" by fastforce
  have fr1: "frame (used_of (xs @ ys)) h ?h1"
    by (rule footprint_frame [OF inv u(3)]) (auto simp: footprint_def)
  have carve: "carve (of_nat (?a + 8)) (of_nat n) align h =
      (if new \<noteq> 0 then (of_nat ?a, snd (free_block new True (store (of_nat ?a + 4) TYPE_USED h2))) else (of_nat ?a, h2))"
    by (simp add: carve_def hd off sp Let_def)
  show ?thesis
  proof (cases "b_size b < n + ?off + 24")
    case True
    then have "new = 0" "h2 = ?h1"
      using split_block_small [OF u(1), of ?b1 "n + ?off"] n(4) align_off_bound [of ?a align] sp by auto
    then have "header = of_nat ?a" "h' = ?h1" using c carve by auto
    moreover have "pending ?h1 xs ?b1 ys" using u(1) adj' by (auto simp: pending_def)
    ultimately show ?thesis using u(2) fr1 n(3) used by fastforce
  next
    case False
    let ?c = "\<lparr>b_addr = ?a + (n + ?off) + 16, b_size = b_size b - (n + ?off) - 16, b_free = False\<rparr>"
    let ?b2 = "?b1\<lparr>b_size := n + ?off\<rparr>"
    have k: "8 \<le> n + ?off" "8 dvd n + ?off" using n align_off_mult [of ?a align] heap_aligned(2) [OF inv mem] by auto
    have s: "new = of_nat (?a + (n + ?off) + 16)"
      "heap_inv (insert (?a + (n + ?off) + 16) {?a}) h2 (xs @ [?b2, ?c] @ ys) (us @ vs)"
      "same_fields ?h1 h2" "differs_in {?a ..< b_end b} (nm ?h1) (nm h2)"
      using heap_split [OF u(1) _ _ k, of new h2] sp False by (simp_all add: b_end_def)
    let ?h3 = "store (of_nat ?a + 4) TYPE_USED h2"
    have i2: "heap_inv (insert (b_addr ?c) {?a}) h2 (xs @ ?b2 # ?c # ys) (us @ vs)" using s(2) by simp
    note t = heap_set_used [OF i2 _ , of ?h3]
    have i3: "heap_inv {b_addr ?c} ?h3 ((xs @ [?b2]) @ ?c # ys) (us @ vs)" "same_fields h2 ?h3"
      "differs_in {?a ..< b_end ?b2} (nm h2) (nm ?h3)"
      using t by (simp_all add: insert_Diff_if)
    obtain hd4 where f: "free_block (of_nat (b_addr ?c)) True ?h3 = (hd4, snd (free_block new True ?h3))"
      using s(1) by (cases "free_block new True ?h3") simp
    note g = free_block_correct [OF i3(1) _ _ f]
    have lt: "?a + (n + ?off) + 16 < 4294967296" using False lim e by (simp add: b_end_def)
    then have "new \<noteq> 0" using s(1) of_nat_u32_zero by simp
    then have h': "header = of_nat ?a" "h' = snd (free_block new True ?h3)" using c carve by auto
    have "freed (xs @ [?b2]) ?c ys = xs @ ?b2 # ?c\<lparr>b_free := True\<rparr> # ys" by (rule freed_remainder) (use adj' in auto)
    then have "pending h' xs ?b2 (?c\<lparr>b_free := True\<rparr> # ys)"
      using g adj' h'(2) by (auto simp: pending_def no_adj_Cons)
    moreover have "frame (used_of (xs @ ys)) ?h1 h2"
      by (rule footprint_frame [OF u(1) s(4)]) (auto simp: footprint_def b_end_def)
    moreover have "frame (used_of (xs @ ys)) h2 ?h3"
      by (rule frame_mono [OF footprint_frame [OF i2 i3(3)]]) (auto simp: footprint_def)
    moreover have "frame (used_of (xs @ ys)) ?h3 h'"
      using g h'(2) by (intro frame_mono [OF footprint_frame [OF i3(1)]]) auto
    ultimately have "frame (used_of (xs @ ys)) h h'" "pending h' xs ?b2 (?c\<lparr>b_free := True\<rparr> # ys)"
      using fr1 frame_trans by blast+
    moreover have "same_fields h h'" using u(2) s(3) i3(2) g h'(2) same_fields_trans by auto
    ultimately show ?thesis using h'(1) used by fastforce
  qed
qed

lemma freed_used_right: "\<not> b_free c \<Longrightarrow> freed xs b (c # ys) = freed xs b [] @ c # ys"
  by (auto simp: freed_def merge_left_def merge_right_def split: prod.splits)

lemma align_block_correct:
  assumes p: "pending h xs b ys" and off: "off = align_off (b_addr b) True" "off \<noteq> 0"
    and n: "8 \<le> n" "n + off \<le> b_size b" and ab: "align_block (of_nat (b_addr b)) (of_nat off) h = (r, h')"
  shows "r = Some (of_nat (b_addr b + off)) \<and> same_fields h h' \<and> frame (used_of (xs @ ys)) h h' \<and>
    (\<exists>xs' b'. pending h' xs' b' ys \<and> b_addr b' = b_addr b + off \<and> b_size b' = b_size b - off \<and>
       used_of xs' = used_of xs)"
proof -
  obtain P fl where inv: "heap_inv P h (xs @ b # ys) fl" and P: "P \<subseteq> {b_addr b}"
    and b: "\<not> b_free b" and adj: "no_adj xs" "no_adj ys" using p by (auto simp: pending_def)
  let ?a = "b_addr b"
  have mem: "b \<in> set (xs @ b # ys)" by simp
  have o256: "256 \<le> off" using align_off_min [of ?a True] off by auto
  then have k: "8 \<le> off - 16" "8 dvd off - 16" "off - 16 + 24 \<le> b_size b"
    using n align_off_mult [of ?a True] heap_aligned(2) [OF inv mem] off(1) by (auto intro: dvd_diff_nat)
  have w: "(of_nat off - 8 - 8 :: u32) = of_nat (off - 16)" using o256 by (simp add: of_nat_diff)
  obtain new h2 where sp: "split_block (of_nat ?a) (of_nat (off - 16)) h = (new, h2)" by fastforce
  let ?b1 = "b\<lparr>b_size := off - 16\<rparr>" and ?c = "\<lparr>b_addr = ?a + off, b_size = b_size b - off, b_free = False\<rparr>"
  have s: "new = of_nat (?a + off)" "heap_inv (insert (?a + off) P) h2 ((xs @ [?b1]) @ ?c # ys) fl"
    "same_fields h h2" "differs_in {?a ..< b_end b} (nm h) (nm h2)"
    using heap_split [OF inv b k(3,1,2) sp] o256 by simp_all
  let ?h3 = "store (of_nat (b_addr ?c) + 4) TYPE_USED h2"
  note t = heap_set_used [OF s(2) _ refl]
  have "heap_inv (insert (?a + off) P - {?a + off}) ?h3 (xs @ ?b1 # ?c # ys) fl" using t(1) by simp
  moreover have "insert (?a + off) P - {?a + off} \<subseteq> {b_addr ?b1}" using P by auto
  ultimately obtain P3 where i3: "heap_inv P3 ?h3 (xs @ ?b1 # ?c # ys) fl" "P3 \<subseteq> {b_addr ?b1}" by blast
  obtain hd4 h4 where f: "free_block (of_nat (b_addr ?b1)) True ?h3 = (hd4, h4)" by fastforce
  note g = free_block_correct [OF i3(1) _ i3(2) f]
  have "?a + off < 4294967296" using heap_inv_end [OF inv mem] n by (simp add: b_end_def)
  then have "new \<noteq> 0" using s(1) of_nat_u32_zero o256 by simp
  then have h': "r = Some (of_nat (?a + off))" "h' = h4"
    using ab f s(1) by (auto simp: align_block_def w sp)
  have fr: "freed xs ?b1 (?c # ys) = freed xs ?b1 [] @ ?c # ys" by (rule freed_used_right) simp
  have "pending h' (freed xs ?b1 []) ?c ys"
    using g adj no_adj_freed [of xs "[]"] b h'(2) unfolding fr by (auto simp: pending_def)
  moreover have "frame (used_of (xs @ ys)) h h2"
    by (rule footprint_frame [OF inv s(4)]) (auto simp: footprint_def)
  moreover have "frame (used_of (xs @ ys)) h2 ?h3"
    by (rule frame_mono [OF footprint_frame [OF s(2) t(3)]]) (auto simp: footprint_def)
  moreover have "frame (used_of (xs @ ys)) ?h3 h'"
    using g b h'(2) by (intro frame_mono [OF footprint_frame [OF i3(1)]]) auto
  moreover have "same_fields h h'" using s(3) t(2) g b h'(2) same_fields_trans by auto
  moreover have "used_of (freed xs ?b1 []) = used_of xs" by (simp add: used_of_freed)
  ultimately show ?thesis using h'(1) frame_trans by (metis blk.select_convs(1,2))
qed

lemma pending_finish:
  assumes "pending h xs b ys" "h' = store (of_nat (b_addr b) + 4) TYPE_USED h"
  shows "kheap_abs h' (xs @ b # ys) \<and> same_fields h h' \<and> frame (used_of (xs @ ys)) h h'"
proof -
  obtain P fl where inv: "heap_inv P h (xs @ b # ys) fl" and P: "P \<subseteq> {b_addr b}"
    and b: "\<not> b_free b" and adj: "no_adj xs" "no_adj ys" using assms(1) by (auto simp: pending_def)
  note t = heap_set_used [OF inv b assms(2)]
  have P0: "P - {b_addr b} = {}" using P by blast
  have "heap_inv {} h' (xs @ b # ys) fl" using t(1) unfolding P0 .
  moreover have "frame (used_of (xs @ ys)) h h'"
    by (rule footprint_frame [OF inv t(3)]) (auto simp: footprint_def)
  ultimately show ?thesis using t(2) adj b by (auto simp: kheap_abs_def no_adj_used)
qed

section \<open>Choosing a block\<close>

lemma heap_inv_lock [simp]: "heap_inv P (h\<lparr>kmalloc_lock := l\<rparr>) bs fl = heap_inv P h bs fl"
  by (simp add: heap_inv_def)

lemma kheap_abs_lock [simp]: "kheap_abs (h\<lparr>kmalloc_lock := l\<rparr>) bs = kheap_abs h bs"
  by (simp add: kheap_abs_def)

lemma frame_lock [simp]: "frame U (h\<lparr>kmalloc_lock := l\<rparr>) h' = frame U h h'" "frame U h (h'\<lparr>kmalloc_lock := l\<rparr>) = frame U h h'"
  by (simp_all add: frame_def)

lemma fits_nat:
  assumes inv: "heap_inv {} h bs fl" and b: "b \<in> set bs" and n: "n + 8192 < 4294967296"
    and e: "unat (alloc_end h) + 8192 < 4294967296"
  shows "fits h (of_nat n) align (b_addr b) \<longleftrightarrow>
    (if align then n + align_off (b_addr b) align + 16 else n) \<le> b_size b"
proof -
  have lim: "b_end b \<le> unat (alloc_end h)" using tiled_bounds [OF _ b] inv by (auto simp: heap_inv_def tiles_def)
  then have "b_addr b + 8 \<le> 4294967296 - 4096" using e by (simp add: b_end_def)
  then have "fit_size (of_nat (b_addr b)) (of_nat n) align =
      of_nat (if align then n + align_off (b_addr b) align + 16 else n)"
    by (simp add: fit_size_def fit_offset_def get_alignment_offset_nat of_nat_add)
  moreover have "nm h (b_addr b) = of_nat (b_size b)" using heap_inv_blk [OF inv b] by (simp add: blk_ok_def)
  moreover have "b_size b < 4294967296" using lim e by (simp add: b_end_def)
  ultimately show ?thesis
    using n align_off_bound [of "b_addr b" align] unfolding fits_def by (subst of_nat_u32_le [symmetric]) auto
qed

lemma get_free_block_correct:
  assumes abs: "kheap_abs h bs" and n: "8 \<le> n" "8 dvd n" "n + 8192 < 4294967296"
    and e: "unat (alloc_end h) + 8192 < 4294967296"
  obtains (none) "get_free_block (of_nat n) align h = Some (0, h)"
      "\<forall>b \<in> set bs. b_free b \<longrightarrow> b_size b < (if align then n + align_off (b_addr b) align + 16 else n)"
  | (found) h1 xs b ys where "get_free_block (of_nat n) align h = Some (of_nat (b_addr b), h1)"
      "0 < b_addr b" "b_addr b + 8 \<le> 4294967296 - 4096" "pending h1 xs b ys"
      "n + align_off (b_addr b) align \<le> b_size b" "used_of (xs @ ys) = used_of bs"
      "frame (used_of bs) h h1" "same_fields h h1"
proof -
  obtain fl where inv: "heap_inv {} h bs fl" and adj: "no_adj bs" using abs by (auto simp: kheap_abs_def)
  let ?f = "filter (fits h (of_nat n) align) fl"
  have ff: "find_fit h (last_free h) (of_nat n) align = Some (case ?f of [] \<Rightarrow> 0 | x # _ \<Rightarrow> of_nat (x + 8))"
    using find_fit_correct [OF inv order_refl, of 0] inv by (simp add: heap_inv_def)
  show thesis
  proof (cases ?f)
    case Nil
    then have "get_free_block (of_nat n) align h = Some (0, h)" by (simp add: get_free_block_def ff)
    moreover have "b_size b < (if align then n + align_off (b_addr b) align + 16 else n)"
      if b: "b \<in> set bs" "b_free b" for b
    proof -
      have "b_addr b \<in> set fl" using inv b by (auto simp: heap_inv_def free_addrs_def)
      then have "\<not> fits h (of_nat n) align (b_addr b)" using Nil by (auto simp: filter_empty_conv)
      then show ?thesis using fits_nat [OF inv b(1) n(3) e, of align] by (simp only: not_le)
    qed
    ultimately show thesis by (intro none) blast+
  next
    case (Cons x rest)
    then have x: "x \<in> set fl" "fits h (of_nat n) align x" by (auto dest: filter_eq_ConsD)
    obtain b where b: "b \<in> set bs" "b_free b" "b_addr b = x" using heap_inv_free [OF inv x(1)] by blast
    obtain xs ys where bs: "bs = xs @ b # ys" using b(1) by (meson split_list)
    have small: "b_addr b + 16 < 4294967296" using heap_inv_small [OF inv x(1)] b(3) by simp
    have pos: "0 < b_addr b"
      using tiled_bounds [OF _ b(1)] inv by (fastforce simp: heap_inv_def tiles_def)
    have lim: "b_end b \<le> unat (alloc_end h)" using tiled_bounds [OF _ b(1)] inv by (auto simp: heap_inv_def tiles_def)
    have sz: "n + align_off (b_addr b) align \<le> b_size b"
      using fits_nat [OF inv b(1) n(3) e, of align] x(2) b(3) by (auto simp: align_off_def split: if_splits)
    obtain header h1 where c: "carve (of_nat (b_addr b + 8)) (of_nat n) align h = (header, h1)" by fastforce
    note cc = carve_correct [OF inv [unfolded bs] adj [unfolded bs] b(2) n(1,2) sz n(3) e c]
    then obtain b' ys' where b': "pending h1 xs b' ys'" "b_addr b' = b_addr b" "header = of_nat (b_addr b')"
      "n + align_off (b_addr b') align \<le> b_size b'" "used_of ys' = used_of ys" by auto
    have "get_free_block (of_nat n) align h = Some (header, h1)"
      using Cons b(3) c small of_nat_u32_zero [of "b_addr b + 8"] by (simp add: get_free_block_def ff)
    moreover have "b_addr b' + 8 \<le> 4294967296 - 4096" using lim e b'(2) by (simp add: b_end_def)
    ultimately show thesis
      using cc b' pos b(2) by (intro found [where b = b' and xs = xs and ys = ys' and ?h1.0 = h1]) (simp_all add: bs)
  qed
qed

text \<open>
  The block that a request of \<open>n\<close> bytes gets, from the free list or from the end of the heap, before
  the part in front of an aligned content is split off.
\<close>

definition obtain_block :: "u32 \<Rightarrow> bool \<Rightarrow> u32 \<Rightarrow> kheap \<Rightarrow> u32 \<times> u32 \<times> kheap" where
  "obtain_block sz_needed align found h =
     (let off = (if align then get_alignment_offset (if found \<noteq> 0 then found else alloc_end h) else 0);
          (header, h) = (if found = 0 then extend_heap (if align \<and> off \<noteq> 0 then sz_needed + off else sz_needed) h
                         else (found, h))
      in (off, header, h))"

lemma kmalloc_gen_eq:
  assumes "kmalloc_ready h" "\<not> kmalloc_lock h"
    "get_free_block (max (ALIGN sz 8) 8) align (h\<lparr>kmalloc_lock := True\<rparr>) = Some (found, h1)"
    "obtain_block (max (ALIGN sz 8) 8) align found h1 = (off, header, h2)"
  shows "kmalloc_gen sz align zero h =
    (if found = 0 \<and> alloc_max h1 \<le> alloc_end h1 + max (ALIGN sz 8) 8 then Panic
     else case (if align \<and> off \<noteq> 0 then align_block header off h2 else (Some header, h2)) of
            (None, h3) \<Rightarrow> Ret (0, h3)
          | (Some header, h3) \<Rightarrow>
              let h4 = (store (header + 4) TYPE_USED h3)\<lparr>kmalloc_lock := False\<rparr>
              in Ret (GET_CONTENT header, if zero then bzero_at (GET_CONTENT header) sz h4 else h4))"
  using assms unfolding kmalloc_gen_def obtain_block_def
  by (auto simp: Let_def split: option.splits prod.splits)

lemma obtain_block_correct:
  assumes abs: "kheap_abs h bs" and n: "8 \<le> n" "8 dvd n" and e: "unat (alloc_end h) + n + 8192 < 4294967296"
    and g: "get_free_block (of_nat n) align h = Some (found, h1)" and o: "obtain_block (of_nat n) align found h1 = (off, header, h2)"
  shows "\<exists>xs b ys. pending h2 xs b ys \<and> header = of_nat (b_addr b) \<and> off = of_nat (align_off (b_addr b) align) \<and>
    n + align_off (b_addr b) align \<le> b_size b \<and> used_of (xs @ ys) = used_of bs \<and> frame (used_of bs) h h2 \<and>
    kmalloc_ready h2 = kmalloc_ready h \<and> kmalloc_lock h2 = kmalloc_lock h \<and> alloc_max h2 = alloc_max h"
proof -
  have n3: "n + 8192 < 4294967296" and e3: "unat (alloc_end h) + 8192 < 4294967296" using e by simp_all
  from abs n n3 e3 show ?thesis
  proof (cases rule: get_free_block_correct [where align = align])
    case none
    then have z: "found = 0" "h1 = h" using g by auto
    let ?e = "unat (alloc_end h)" and ?o = "align_off (unat (alloc_end h)) align"
    have off: "(if align then get_alignment_offset (alloc_end h) else 0) = of_nat ?o"
      using get_alignment_offset_nat [of ?e] e by (simp add: align_off_def)
    have "?o < 4294967296" using align_off_bound [of ?e align] by simp
    then have "(if align \<and> of_nat ?o \<noteq> (0 :: u32) then of_nat n + of_nat ?o else of_nat n) = (of_nat (n + ?o) :: u32)"
      using of_nat_u32_zero [of ?o] by (auto simp: of_nat_add align_off_def)
    then have "obtain_block (of_nat n) align 0 h = (case extend_heap (of_nat (n + ?o)) h of (k, h') \<Rightarrow> (of_nat ?o, k, h'))"
      unfolding obtain_block_def by (simp only: if_False off Let_def simp_thms if_True)
    then have x: "extend_heap (of_nat (n + ?o)) h = (header, h2)" "off = of_nat ?o"
      using o z by (simp_all split: prod.splits)
    obtain fl where inv: "heap_inv {} h bs fl" and adj: "no_adj bs" using abs by (auto simp: kheap_abs_def)
    have "8 dvd ?e" by (rule heap_aligned(1) [OF inv])
    then have "8 dvd n + ?o" using n(2) align_off_mult by simp
    moreover have "?e + (n + ?o) + 16 < 4294967296" using e align_off_bound [of ?e align] by simp
    ultimately have ex: "header = of_nat ?e"
      "heap_inv {?e} h2 (bs @ [\<lparr>b_addr = ?e, b_size = n + ?o, b_free = False\<rparr>]) fl" "alloc_max h2 = alloc_max h"
      "kmalloc_ready h2 = kmalloc_ready h" "kmalloc_lock h2 = kmalloc_lock h"
      and d: "differs_in {?e ..< ?e + (n + ?o) + 16} (nm h) (nm h2)"
      using heap_extend [OF inv _ _ _ x(1)] n(1) by (auto simp: add.assoc)
    have "frame (used_of bs) h h2"
      unfolding frame_def
    proof (intro ballI)
      fix u k assume "u \<in> used_of bs" "k \<in> content u"
      then obtain b where b: "b \<in> set bs" "k < b_end b" by (auto simp: used_of_def content_def b_end_def)
      then have "k < ?e" using tiled_bounds [OF _ b(1)] inv by (fastforce simp: heap_inv_def tiles_def)
      moreover have "k < 4294967296" using \<open>k < ?e\<close> unat_u32_less [of "alloc_end h"] by linarith
      ultimately show "nm h2 k = nm h k" using d by (auto simp: differs_in_def)
    qed
    then show ?thesis
      using ex x(2) adj
      by (intro exI [of _ bs] exI [of _ "\<lparr>b_addr = ?e, b_size = n + ?o, b_free = False\<rparr>"] exI [of _ "[]"])
         (auto simp: pending_def)
  next
    case (found h1' xs b ys)
    have z: "found = of_nat (b_addr b)" "h1 = h1'" using g found(1) by auto
    have nz: "(of_nat (b_addr b) :: u32) \<noteq> 0" using found(2,3) of_nat_u32_zero [of "b_addr b"] by simp
    have "header = of_nat (b_addr b)" "h2 = h1" "off = of_nat (align_off (b_addr b) align)"
      using o nz found(3) get_alignment_offset_nat [of "b_addr b"]
      by (auto simp: obtain_block_def z(1) Let_def align_off_def split: if_splits)
    then show ?thesis using found z(2) by (auto simp: same_fields_def)
  qed
qed

section \<open>Writing to the content of a used block\<close>

lemma heap_inv_content:
  assumes inv: "heap_inv {} h (xs @ b # ys) fl" and b: "\<not> b_free b" and sf: "same_fields h h'" "last_free h' = last_free h"
    and diff: "differs_in (content (b_addr b, b_size b)) (nm h) (nm h')"
  shows "heap_inv {} h' (xs @ b # ys) fl" "frame (used_of (xs @ ys)) h h'"
proof -
  have mem: "b \<in> set (xs @ b # ys)" by simp
  note blk = heap_inv_blk [OF inv mem] and e = heap_inv_end [OF inv mem]
  have reg: "differs_in {b_addr b ..< b_end b} (nm h) (nm h')"
    using diff by (rule differs_in_mono) (auto simp: content_def b_end_def)
  have "nm h' n = nm h n" if "n \<in> tkeys b" for n
  proof -
    have "n < 4294967296" "n \<notin> content (b_addr b, b_size b)"
      using that e by (auto simp: tkeys_def content_def b_end_def)
    then show ?thesis using diff by (simp add: differs_in_def)
  qed
  then have "tiles {} (nm h') (b_addr b) [b] (b_end b)" using blk by (simp add: tiles_Cons blk_ok_def tkeys_def)
  then have "heap_inv {} h' (xs @ [b] @ ys) fl"
    using b by (intro heap_inv_mid_used [OF inv b sf reg]) auto
  then show "heap_inv {} h' (xs @ b # ys) fl" by simp
  show "frame (used_of (xs @ ys)) h h'" by (rule footprint_frame [OF inv reg]) (auto simp: footprint_def)
qed

lemma unat_of_nat_diff_u32: "q \<le> k \<Longrightarrow> k < 4294967296 \<Longrightarrow> unat (of_nat k - of_nat q :: u32) = k - q"
  by (metis of_nat_diff unat_of_nat_u32 less_imp_diff_less)

lemma in_range_u32:
  assumes "q + unat n \<le> 4294967296" "k < 4294967296"
  shows "of_nat k - of_nat q < (n :: u32) \<longleftrightarrow> q \<le> k \<and> k < q + unat n"
proof (cases "q \<le> k")
  case True
  then show ?thesis using assms(2) by (auto simp: u32_less_nat unat_of_nat_diff_u32)
next
  case False
  then have less: "4294967296 + k - q < 4294967296" using assms(2) by simp
  have "(of_nat (4294967296 + k - q) :: u32) = of_nat (4294967296 + k) - of_nat q"
    using assms(1) by (intro of_nat_diff) simp
  then have "of_nat k - of_nat q = (of_nat (4294967296 + k - q) :: u32)" by (simp add: of_nat_add)
  then have "unat (of_nat k - of_nat q :: u32) = 4294967296 + k - q" using less by (metis unat_of_nat_u32)
  then show ?thesis using False assms by (simp add: u32_less_nat)
qed

lemma bzero_at_nm:
  assumes "q + unat n \<le> 4294967296" "h' = bzero_at (of_nat q) n h"
  shows "differs_in {q ..< q + unat n} (nm h) (nm h')" "q \<le> k \<Longrightarrow> k + 4 \<le> q + unat n \<Longrightarrow> nm h' k = 0"
    "same_fields h h'" "last_free h' = last_free h"
proof -
  have nm: "nm h' k = (if q \<le> k \<and> k < q + unat n then
      if unat (of_nat k - of_nat q :: u32) + 4 \<le> unat n then 0 else nm h k AND NOT (mask (8 * (unat n mod 4))) else nm h k)"
    if "k < 4294967296" for k
    using in_range_u32 [OF assms(1) that] by (simp add: nm_def assms(2) bzero_at_def)
  then show "differs_in {q ..< q + unat n} (nm h) (nm h')" by (auto simp: differs_in_def)
  show "nm h' k = 0" if k: "q \<le> k" "k + 4 \<le> q + unat n"
  proof -
    have "k < 4294967296" "k - q + 4 \<le> unat n" "k < q + unat n" using k assms(1) by linarith+
    then show ?thesis using k(1) nm [of k] by (simp add: unat_of_nat_diff_u32)
  qed
qed (simp_all add: assms(2) bzero_at_def same_fields_def)

section \<open>Allocation\<close>

lemma request_size:
  assumes "unat sz \<le> 4294967288"
  obtains n where "max (ALIGN sz 8) 8 = of_nat n" "8 \<le> n" "8 dvd n" "unat sz \<le> n" "n \<le> unat sz + 8"
proof -
  have "unat (ALIGN sz 8) = (if unat sz mod 8 = 0 then unat sz else unat sz - unat sz mod 8 + 8)"
    using unat_ALIGN [of 8 3 sz] assms by (simp add: mask_eq_exp_minus_1)
  moreover have "8 dvd unat sz - unat sz mod 8 + 8" by (simp add: minus_mod_eq_mult_div)
  moreover have "unat sz mod 8 < 8" by simp
  ultimately have a: "8 dvd unat (ALIGN sz 8)" "unat sz \<le> unat (ALIGN sz 8)" "unat (ALIGN sz 8) \<le> unat sz + 8"
    by (auto split: if_splits)
  show thesis
  proof (rule that [of "max (unat (ALIGN sz 8)) 8"])
    show "max (ALIGN sz 8) 8 = of_nat (max (unat (ALIGN sz 8)) 8)"
      by (simp add: max_def u32_le_nat)
  qed (use a in \<open>auto simp: max_def\<close>)
qed

text \<open>The block \<open>(a, s)\<close> is new, large enough, and its content is at \<open>a + 8\<close>.\<close>

definition allocated :: "kheap \<Rightarrow> blk list \<Rightarrow> u32 \<Rightarrow> bool \<Rightarrow> bool \<Rightarrow> u32 \<Rightarrow> kheap \<Rightarrow> bool" where
  "allocated h bs sz align zero p h' \<longleftrightarrow>
     (\<exists>bs' a s. p = of_nat (a + 8) \<and> 0 < a \<and> a + 16 + s < 4294967296 \<and> unat sz \<le> s \<and>
        kheap_abs h' bs' \<and> used_of bs' = insert (a, s) (used_of bs) \<and> (a, s) \<notin> used_of bs \<and>
        frame (used_of bs) h h' \<and> kmalloc_ready h' \<and> \<not> kmalloc_lock h' \<and>
        (align \<longrightarrow> (a + 8) mod 4096 = 0) \<and>
        (zero \<longrightarrow> (\<forall>k. a + 8 \<le> k \<and> k + 4 \<le> a + 8 + unat sz \<longrightarrow> nm h' k = 0)))"

lemma finish_allocated:
  assumes p: "pending h2 xs b ys" and u: "used_of (xs @ ys) = used_of bs" and fr: "frame (used_of bs) h h2"
    and r: "kmalloc_ready h2" and n: "unat sz \<le> b_size b" and al: "align \<longrightarrow> (b_addr b + 8) mod 4096 = 0"
    and h4: "h4 = (store (of_nat (b_addr b) + 4) TYPE_USED h2)\<lparr>kmalloc_lock := False\<rparr>"
    and h5: "h5 = (if zero then bzero_at (of_nat (b_addr b + 8)) sz h4 else h4)"
  shows "allocated h bs sz align zero (of_nat (b_addr b + 8)) h5"
proof -
  let ?a = "b_addr b" and ?bs = "xs @ b # ys"
  note f = pending_finish [OF p refl]
  have b: "\<not> b_free b" using p by (simp add: pending_def)
  have ok4: "kheap_abs h4 ?bs" and fr4: "frame (used_of bs) h h4" and r4: "kmalloc_ready h4 \<and> \<not> kmalloc_lock h4"
    using f fr u r frame_trans by (auto simp: h4 same_fields_def)
  obtain fl where inv: "heap_inv {} h4 ?bs fl" and adj: "no_adj ?bs" using ok4 by (auto simp: kheap_abs_def)
  have mem: "b \<in> set ?bs" by simp
  have lim: "?a + 16 + b_size b < 4294967296" using heap_inv_end [OF inv mem] by (simp add: b_end_def)
  have "0 < ?a" using tiled_bounds [OF _ mem] inv by (fastforce simp: heap_inv_def tiles_def)
  moreover have "kheap_abs h5 ?bs \<and> frame (used_of bs) h4 h5 \<and> kmalloc_ready h5 \<and> \<not> kmalloc_lock h5 \<and>
      (zero \<longrightarrow> (\<forall>k. ?a + 8 \<le> k \<and> k + 4 \<le> ?a + 8 + unat sz \<longrightarrow> nm h5 k = 0))"
  proof (cases zero)
    case True
    have "?a + 8 + unat sz \<le> 4294967296" using n lim by simp
    note z = bzero_at_nm [OF this, of h5 h4]
    have h5': "h5 = bzero_at (of_nat (?a + 8)) sz h4" using True h5 by simp
    have "differs_in (content (?a, b_size b)) (nm h4) (nm h5)"
      using z(1) [OF h5'] by (rule differs_in_mono) (use n in \<open>auto simp: content_def\<close>)
    note c = heap_inv_content [OF inv b z(3,4) [OF h5'] this]
    then show ?thesis using adj u r4 z(2,3) [OF h5'] by (auto simp: kheap_abs_def same_fields_def)
  qed (use ok4 r4 h5 in simp)
  moreover have "(?a, b_size b) \<notin> used_of bs"
    using heap_inv_other(2) [OF inv] unfolding u [symmetric] by (fastforce simp: used_of_def)
  ultimately show ?thesis
    unfolding allocated_def using lim n al fr4 frame_trans b u
    by (intro exI [of _ ?bs] exI [of _ ?a] exI [of _ "b_size b"]) auto
qed

lemma kmalloc_gen_correct:
  assumes abs: "kheap_abs h bs" and r: "kmalloc_ready h" "\<not> kmalloc_lock h"
    and e: "unat (alloc_end h) + unat sz + 12288 < 4294967296"
  shows "(\<exists>p h'. kmalloc_gen sz align zero h = Ret (p, h') \<and> allocated h bs sz align zero p h') \<or>
    (kmalloc_gen sz align zero h = Panic \<and> unat (alloc_max h) \<le> unat (alloc_end h) + unat sz + 8)"
proof -
  obtain n where n: "max (ALIGN sz 8) 8 = of_nat n" "8 \<le> n" "8 dvd n" "unat sz \<le> n" "n \<le> unat sz + 8"
    using request_size [of sz] e by auto
  let ?h0 = "h\<lparr>kmalloc_lock := True\<rparr>"
  have abs0: "kheap_abs ?h0 bs" and e0: "unat (alloc_end ?h0) + n + 8192 < 4294967296" using abs e n(5) by simp_all
  obtain found h1 where g: "get_free_block (of_nat n) align ?h0 = Some (found, h1)" and max: "found = 0 \<longrightarrow> h1 = ?h0"
  proof -
    have "n + 8192 < 4294967296" "unat (alloc_end ?h0) + 8192 < 4294967296" using e0 by simp_all
    from abs0 n(2,3) this show thesis
    proof (cases rule: get_free_block_correct [where align = align])
      case (found h1 xs b ys)
      have "(of_nat (b_addr b) :: u32) \<noteq> 0" using found(2,3) of_nat_u32_zero [of "b_addr b"] by simp
      then show thesis using found(1) that by blast
    qed (use that in blast)
  qed
  obtain off header h2 where o: "obtain_block (of_nat n) align found h1 = (off, header, h2)" by (metis prod_cases3)
  note k = kmalloc_gen_eq [OF r, of sz align found h1 off header h2 zero, unfolded n(1), OF g o]
  show ?thesis
  proof (cases "found = 0 \<and> alloc_max h1 \<le> alloc_end h1 + of_nat n")
    case True
    have "unat (alloc_end h + of_nat n) = unat (alloc_end h) + n"
      using e n(5) by (subst unat_add_u32) (simp_all add: unat_of_nat_u32)
    then have "unat (alloc_max h) \<le> unat (alloc_end h) + n" using True max by (simp add: u32_le_nat)
    then show ?thesis using k True n(5) by simp
  next
    case False
    obtain xs b ys where b: "pending h2 xs b ys" "header = of_nat (b_addr b)" "off = of_nat (align_off (b_addr b) align)"
      "n + align_off (b_addr b) align \<le> b_size b" "used_of (xs @ ys) = used_of bs" "frame (used_of bs) ?h0 h2"
      "kmalloc_ready h2" using obtain_block_correct [OF abs0 n(2,3) e0 g o] r by auto
    let ?o = "align_off (b_addr b) align"
    have "?o < 4294967296" using align_off_bound [of "b_addr b" align] by simp
    then have offz: "off = 0 \<longleftrightarrow> ?o = 0" using b(3) of_nat_u32_zero by simp
    have content: "GET_CONTENT (of_nat x) = of_nat (x + 8)" for x by (simp add: GET_CONTENT_def of_nat_add)
    show ?thesis
    proof (cases "align \<and> off \<noteq> 0")
      case True
      obtain res h3 where ab: "align_block (of_nat (b_addr b)) (of_nat ?o) h2 = (res, h3)" by fastforce
      have "?o = align_off (b_addr b) True" "?o \<noteq> 0" using True offz by auto
      note a = align_block_correct [OF b(1) this n(2) b(4) ab]
      then obtain xs' b' where b': "pending h3 xs' b' ys" "b_addr b' = b_addr b + ?o" "b_size b' = b_size b - ?o"
        "used_of (xs' @ ys) = used_of bs" "frame (used_of bs) h h3" "kmalloc_ready h3"
        using b(5-7) frame_trans by (auto simp: same_fields_def)
      have al: "(b_addr b' + 8) mod 4096 = 0"
        using align_off_aligned [of align "b_addr b"] True b'(2) by (simp add: ac_simps)
      have "unat sz \<le> b_size b'" using b(4) n(4) b'(3) by simp
      note fin = finish_allocated [OF b'(1,4,5,6) this, of align _ _ zero]
      show ?thesis
        using k False True a ab b(2,3) b'(2) fin [OF _ refl refl] al by (auto simp: Let_def content)
    next
      case no: False
      have "align \<longrightarrow> (b_addr b + 8) mod 4096 = 0" using align_off_aligned [of align "b_addr b"] no offz by auto
      moreover have "unat sz \<le> b_size b" "frame (used_of bs) h h2" using b(4,6) n(4) by simp_all
      ultimately have "allocated h bs sz align zero (of_nat (b_addr b + 8))
          (let h4 = (store (of_nat (b_addr b) + 4) TYPE_USED h2)\<lparr>kmalloc_lock := False\<rparr>
           in if zero then bzero_at (of_nat (b_addr b + 8)) sz h4 else h4)"
        using finish_allocated [OF b(1,5) _ b(7) _ _ refl refl, of h sz align zero] by (simp add: Let_def)
      then show ?thesis using k False no b(2) by (auto simp: Let_def content)
    qed
  qed
qed

section \<open>Freeing\<close>

lemma kheap_abs_used:
  assumes "kheap_abs h bs" "(a, s) \<in> used_of bs"
  obtains xs b ys fl where "bs = xs @ b # ys" "b_addr b = a" "b_size b = s" "\<not> b_free b" "heap_inv {} h (xs @ b # ys) fl"
    "no_adj (xs @ b # ys)" "0 < a" "unat (alloc_start h) \<le> a" "a + s + 16 \<le> unat (alloc_end h)"
proof -
  obtain b where b: "b \<in> set bs" "b_addr b = a" "b_size b = s" "\<not> b_free b" using assms(2) by (auto simp: used_of_def)
  obtain xs ys where bs: "bs = xs @ b # ys" using b(1) by (meson split_list)
  obtain fl where inv: "heap_inv {} h bs fl" "no_adj bs" using assms(1) by (auto simp: kheap_abs_def)
  have "unat (alloc_start h) \<le> a" "a + s + 16 \<le> unat (alloc_end h)"
    using tiled_bounds [OF _ b(1)] inv(1) b by (auto simp: heap_inv_def tiles_def b_end_def)
  moreover from this have "0 < a" using inv(1) unfolding heap_inv_def by linarith
  ultimately show thesis using that [OF bs b(2-4), of fl] inv unfolding bs by blast
qed

lemma used_of_remove:
  assumes "heap_inv {} h (xs @ b # ys) fl" "\<not> b_free b"
  shows "used_of (xs @ ys) = used_of (xs @ b # ys) - {(b_addr b, b_size b)}"
proof -
  have "(b_addr b, b_size b) \<notin> used_of (xs @ ys)"
    using heap_inv_other(2) [OF assms(1)] by (fastforce simp: used_of_def)
  then show ?thesis using assms(2) by auto
qed

lemma kfree_correct:
  assumes abs: "kheap_abs h bs" and l: "\<not> kmalloc_lock h" and u: "(a, s) \<in> used_of bs"
  shows "\<exists>h' bs'. kfree (of_nat (a + 8)) h = Ret h' \<and> kheap_abs h' bs' \<and> used_of bs' = used_of bs - {(a, s)} \<and>
    frame (used_of bs - {(a, s)}) h h' \<and> kmalloc_ready h' = kmalloc_ready h \<and> \<not> kmalloc_lock h' \<and>
    alloc_start h' = alloc_start h \<and> alloc_end h' = alloc_end h \<and> alloc_max h' = alloc_max h"
proof -
  obtain xs b ys fl where bs: "bs = xs @ b # ys" and b: "b_addr b = a" "b_size b = s" "\<not> b_free b"
    and inv: "heap_inv {} h (xs @ b # ys) fl" and adj: "no_adj (xs @ b # ys)"
    and lim: "0 < a" "unat (alloc_start h) \<le> a" "a + s + 16 \<le> unat (alloc_end h)"
    using kheap_abs_used [OF abs u] by metis
  have small: "a + 16 < 4294967296" using lim heap_inv_end [OF inv, of b] heap_inv_blk [OF inv, of b] b by (simp add: blk_ok_def b_end_def)
  have hd: "of_nat (a + 8) - 8 = (of_nat a :: u32)" by (simp add: of_nat_add)
  have "(of_nat (a + 8) :: u32) \<noteq> 0" using of_nat_u32_zero [of "a + 8"] small by simp
  moreover have "\<not> of_nat a < alloc_start h" "\<not> alloc_end h \<le> of_nat (a + 8)"
    using lim small by (simp_all add: u32_less_nat u32_le_nat unat_of_nat_u32)
  moreover have "mb_type h (of_nat a) \<noteq> TYPE_FREE" using heap_inv_type [OF inv, of b] b by simp
  ultimately have k: "kfree (of_nat (a + 8)) h = Ret ((snd (free_block (of_nat a) True h))\<lparr>kmalloc_lock := False\<rparr>)"
    unfolding kfree_def hd using l by (simp add: Let_def hd)
  obtain hd4 h4 where f: "free_block (of_nat (b_addr b)) True h = (hd4, h4)" by fastforce
  note g = free_block_correct [OF inv b(3) _ f]
  have "used_of (freed xs b ys) = used_of bs - {(a, s)}"
    using used_of_remove [OF inv b(3)] b by (simp add: used_of_freed bs)
  moreover have "frame (used_of bs - {(a, s)}) h h4"
    using g footprint_frame [OF inv, of _ h4] used_of_remove [OF inv b(3)] b bs by auto
  moreover have "kheap_abs h4 (freed xs b ys)"
    using g no_adj_freed [of xs ys] no_adj_split [OF adj] by (auto simp: kheap_abs_def)
  ultimately show ?thesis using k f b(1) g l by (auto simp: same_fields_def)
qed

section \<open>The heap determines its blocks\<close>

lemma tiles_unique:
  assumes "tiles {} N s bs e" "tiles {} N s bs' e" "e \<le> 4294967296"
  shows "bs = bs'"
  using assms
proof (induction bs arbitrary: s bs')
  case Nil
  then show ?case using tiled_mono by (cases bs') (fastforce simp: tiles_def b_end_def)+
next
  case (Cons b bs)
  obtain b' rest where bs': "bs' = b' # rest"
    using Cons.prems tiled_mono [of "b_end b" bs e] by (cases bs') (auto simp: tiles_def b_end_def)
  have "b_end b \<le> e" "b_end b' \<le> e" using Cons.prems tiled_mono by (auto simp: bs' tiles_def)
  then have small: "b_size b < 4294967296" "b_size b' < 4294967296" using Cons.prems(3) by (simp_all add: b_end_def)
  have "b_addr b = b_addr b'" using Cons.prems by (simp add: bs' tiles_Cons)
  moreover from this have "b_size b = b_size b'"
    using Cons.prems small of_nat_u32_inj by (auto simp: bs' tiles_Cons blk_ok_def)
  moreover have "b_free b = b_free b'"
    using Cons.prems \<open>b_addr b = b_addr b'\<close> by (auto simp: bs' tiles_Cons blk_ok_def split: if_splits)
  ultimately have "b = b'" by (cases b; cases b') simp
  then show ?case using Cons.IH [of "b_end b" rest] Cons.prems bs' by (simp add: tiles_Cons)
qed

lemma kheap_abs_unique: "kheap_abs h bs \<Longrightarrow> kheap_abs h bs' \<Longrightarrow> bs = bs'"
  using unat_u32_less [of "alloc_end h"] unfolding kheap_abs_def heap_inv_def
  by (metis tiles_unique less_imp_le)

text \<open>The used blocks of a heap, by the address of their header and their size.\<close>

definition used_blocks :: "kheap \<Rightarrow> (nat \<times> nat) set" where
  "used_blocks h = {u. \<exists>bs. kheap_abs h bs \<and> u \<in> used_of bs}"

definition kheap_ok :: "kheap \<Rightarrow> bool" where
  "kheap_ok h \<longleftrightarrow> (\<exists>bs. kheap_abs h bs) \<and> kmalloc_ready h \<and> \<not> kmalloc_lock h"

lemma used_blocks_abs: "kheap_abs h bs \<Longrightarrow> used_blocks h = used_of bs"
  using kheap_abs_unique by (auto simp: used_blocks_def)

lemma used_apart:
  assumes "kheap_abs h bs" "u \<in> used_of bs" "v \<in> used_of bs" "u \<noteq> v"
  shows "content u \<inter> content v = {}"
proof -
  obtain fl where inv: "heap_inv {} h bs fl" using assms(1) by (auto simp: kheap_abs_def)
  obtain b c where "b \<in> set bs" "u = (b_addr b, b_size b)" "c \<in> set bs" "v = (b_addr c, b_size c)"
    using assms(2,3) by (auto simp: used_of_def)
  moreover from this have "b \<noteq> c" using assms(4) by auto
  ultimately show ?thesis using heap_inv_apart [OF inv, of b c] by (auto simp: content_def b_end_def)
qed

section \<open>The interface of a block allocator\<close>

text \<open>
  What the rest of the kernel relies on. A live allocation is a pair of a header address and a size;
  the pointer given to the client is 8 bytes behind the header. \<open>cell\<close> reads the memory.
\<close>

locale block_store =
  fixes ok :: "'s \<Rightarrow> bool"
    and live :: "'s \<Rightarrow> (nat \<times> nat) set"
    and cell :: "'s \<Rightarrow> nat \<Rightarrow> u32"
    and room :: "'s \<Rightarrow> u32 \<Rightarrow> bool"
    and alloc :: "'s \<Rightarrow> u32 \<Rightarrow> (u32 \<times> 's) outcome"
    and release :: "'s \<Rightarrow> u32 \<Rightarrow> 's outcome"
  assumes live_apart: "ok s \<Longrightarrow> u \<in> live s \<Longrightarrow> v \<in> live s \<Longrightarrow> u \<noteq> v \<Longrightarrow> content u \<inter> content v = {}"
    and alloc_live: "ok s \<Longrightarrow> room s n \<Longrightarrow> alloc s n = Ret (p, s') \<Longrightarrow>
      ok s' \<and> (\<exists>u. p = of_nat (fst u + 8) \<and> unat n \<le> snd u \<and> u \<notin> live s \<and> live s' = insert u (live s)) \<and>
      (\<forall>v \<in> live s. \<forall>k \<in> content v. cell s' k = cell s k)"
    and release_live: "ok s \<Longrightarrow> u \<in> live s \<Longrightarrow>
      \<exists>s'. release s (of_nat (fst u + 8)) = Ret s' \<and> ok s' \<and> live s' = live s - {u} \<and>
        (\<forall>v \<in> live s - {u}. \<forall>k \<in> content v. cell s' k = cell s k)"
begin

lemma alloc_release:
  assumes "ok s" "room s n" "alloc s n = Ret (p, s')"
  obtains s'' where "release s' p = Ret s''" "ok s''" "live s'' = live s"
    "\<forall>v \<in> live s. \<forall>k \<in> content v. cell s'' k = cell s k"
proof -
  note a = alloc_live [OF assms]
  then obtain u where u: "p = of_nat (fst u + 8)" "u \<notin> live s" "live s' = insert u (live s)" by blast
  then obtain s'' where "release s' p = Ret s''" "ok s''" "live s'' = live s' - {u}"
    "\<forall>v \<in> live s' - {u}. \<forall>k \<in> content v. cell s'' k = cell s' k"
    using release_live [of s' u] a by auto
  moreover have "live s' - {u} = live s" using u by auto
  ultimately show thesis using that a by simp
qed

lemma alloc_apart:
  assumes "ok s" "room s n" "alloc s n = Ret (p, s')"
  obtains u where "p = of_nat (fst u + 8)" "live s' = insert u (live s)" "\<forall>v \<in> live s. content u \<inter> content v = {}"
proof -
  note a = alloc_live [OF assms]
  then obtain u where u: "p = of_nat (fst u + 8)" "u \<notin> live s" "live s' = insert u (live s)" by blast
  moreover have "content u \<inter> content v = {}" if "v \<in> live s" for v
    using live_apart [of s' u v] a u that by auto
  ultimately show thesis using that by blast
qed

end

definition heap_room :: "kheap \<Rightarrow> u32 \<Rightarrow> bool" where
  "heap_room h sz \<longleftrightarrow> unat (alloc_end h) + unat sz + 12288 < 4294967296"

lemma kmalloc_gen_live:
  assumes "kheap_ok h" "heap_room h sz" "kmalloc_gen sz align zero h = Ret (p, h')"
  shows "kheap_ok h' \<and> (\<exists>u. p = of_nat (fst u + 8) \<and> unat sz \<le> snd u \<and> u \<notin> used_blocks h \<and>
      used_blocks h' = insert u (used_blocks h)) \<and> (\<forall>v \<in> used_blocks h. \<forall>k \<in> content v. nm h' k = nm h k)"
proof -
  obtain bs where bs: "kheap_abs h bs" and r: "kmalloc_ready h" "\<not> kmalloc_lock h" using assms(1) by (auto simp: kheap_ok_def)
  have "allocated h bs sz align zero p h'"
    using kmalloc_gen_correct [OF bs r, of sz align zero] assms(2,3) by (auto simp: heap_room_def)
  then obtain bs' a sz' where new: "p = of_nat (a + 8)" "unat sz \<le> sz'" "kheap_abs h' bs'"
    "used_of bs' = insert (a, sz') (used_of bs)" "(a, sz') \<notin> used_of bs" "frame (used_of bs) h h'"
    "kmalloc_ready h'" "\<not> kmalloc_lock h'" unfolding allocated_def by blast
  have "used_blocks h = used_of bs" "used_blocks h' = used_of bs'" using bs new(3) by (simp_all add: used_blocks_abs)
  moreover have "kheap_ok h'" using new by (auto simp: kheap_ok_def)
  ultimately show ?thesis
    using new by (intro conjI exI [of _ "(a, sz')"]) (simp_all add: frame_def)
qed

lemma kfree_live:
  assumes "kheap_ok h" "u \<in> used_blocks h"
  shows "\<exists>h'. kfree (of_nat (fst u + 8)) h = Ret h' \<and> kheap_ok h' \<and> used_blocks h' = used_blocks h - {u} \<and>
    (\<forall>v \<in> used_blocks h - {u}. \<forall>k \<in> content v. nm h' k = nm h k)"
proof -
  obtain bs where bs: "kheap_abs h bs" and r: "kmalloc_ready h" "\<not> kmalloc_lock h" using assms(1) by (auto simp: kheap_ok_def)
  have u: "(fst u, snd u) \<in> used_of bs" using assms(2) used_blocks_abs [OF bs] by simp
  obtain h' bs' where "kfree (of_nat (fst u + 8)) h = Ret h'" "kheap_abs h' bs'" "used_of bs' = used_of bs - {u}"
    "frame (used_of bs - {u}) h h'" "kmalloc_ready h'" "\<not> kmalloc_lock h'"
    using kfree_correct [OF bs r(2) u] r(1) by auto
  then show ?thesis using used_blocks_abs [OF bs] by (auto simp: kheap_ok_def used_blocks_abs frame_def)
qed

interpretation heap: block_store kheap_ok used_blocks nm heap_room
  "\<lambda>h sz. kmalloc_gen sz False False h" "\<lambda>h p. kfree p h"
proof
  show "content u \<inter> content v = {}" if "kheap_ok h" "u \<in> used_blocks h" "v \<in> used_blocks h" "u \<noteq> v" for h u v
  proof -
    note uv = that
    obtain bs where "kheap_abs h bs" using uv(1) by (auto simp: kheap_ok_def)
    then show ?thesis using used_apart [of h bs u v] uv(2-4) by (simp add: used_blocks_abs)
  qed
qed (use kmalloc_gen_live kfree_live in blast)+

section \<open>Histories of the heap\<close>

text \<open>
  The states reached after \<^verbatim>\<open>kmalloc_init\<close> by any sequence of allocations, frees of live allocations and
  writes into the content of live allocations.
\<close>

inductive heap_run :: "kheap \<Rightarrow> bool" where
  init: "kmalloc_init start h0 = Ret h \<Longrightarrow> 8 dvd unat start \<Longrightarrow> last_free h0 = 0 \<Longrightarrow> \<not> kmalloc_lock h0 \<Longrightarrow> heap_run h"
| alloc: "heap_run h \<Longrightarrow> heap_room h sz \<Longrightarrow> kmalloc_gen sz align zero h = Ret (p, h') \<Longrightarrow> heap_run h'"
| free: "heap_run h \<Longrightarrow> u \<in> used_blocks h \<Longrightarrow> kfree (of_nat (fst u + 8)) h = Ret h' \<Longrightarrow> heap_run h'"
| assign: "heap_run h \<Longrightarrow> u \<in> used_blocks h \<Longrightarrow> k \<in> content u \<Longrightarrow> heap_run (store (of_nat k) v h)"

lemma kmalloc_init_ok:
  assumes "kmalloc_init start h0 = Ret h" "8 dvd unat start" "last_free h0 = 0" "\<not> kmalloc_lock h0"
  shows "kheap_abs h []" "kheap_ok h"
proof -
  have "0 < unat start" "h = h0\<lparr>alloc_start := start, alloc_end := start, alloc_max := start + 0x3200 * PAGE_SIZE, kmalloc_ready := True\<rparr>"
    using assms(1) by (auto simp: kmalloc_init_def u32_eq_nat simp del: u32_eq_zero split: if_splits)
  then show "kheap_abs h []" "kheap_ok h"
    using assms(2-4) by (auto simp: kheap_ok_def kheap_abs_def heap_inv_def intro!: exI [of _ "[]"])
qed

lemma assign_ok:
  assumes ok: "kheap_ok h" and u: "u \<in> used_blocks h" and k: "k \<in> content u"
  shows "kheap_ok (store (of_nat k) v h)"
proof -
  obtain bs where abs: "kheap_abs h bs" and r: "kmalloc_ready h" "\<not> kmalloc_lock h" using ok by (auto simp: kheap_ok_def)
  have "(fst u, snd u) \<in> used_of bs" using u used_blocks_abs [OF abs] by simp
  then obtain xs b ys fl where bs: "bs = xs @ b # ys" and b: "b_addr b = fst u" "b_size b = snd u" "\<not> b_free b"
    and inv: "heap_inv {} h (xs @ b # ys) fl" and adj: "no_adj (xs @ b # ys)" and lim: "fst u + snd u + 16 \<le> unat (alloc_end h)"
    using kheap_abs_used [OF abs] by metis
  have "k < 4294967296" using k lim unat_u32_less [of "alloc_end h"] by (auto simp: content_def simp del: unat_u32_less)
  then have "differs_in (content (b_addr b, b_size b)) (nm h) (nm (store (of_nat k) v h))"
    using k b by (intro same_mem_differs [OF same_mem_store]) (auto simp: content_def)
  from heap_inv_content(1) [OF inv b(3) _ _ this] have "heap_inv {} (store (of_nat k) v h) (xs @ b # ys) fl"
    by (simp add: same_fields_def)
  then show ?thesis using adj r by (auto simp: kheap_ok_def kheap_abs_def)
qed

lemma heap_run_ok: "heap_run h \<Longrightarrow> kheap_ok h"
proof (induction rule: heap_run.induct)
  case (free h u h')
  then show ?case using kfree_live by fastforce
qed (auto dest: kmalloc_init_ok(2) kmalloc_gen_live intro: assign_ok)

section \<open>Properties\<close>

text \<open>The static variables before \<^verbatim>\<open>kmalloc_init\<close>, and an empty heap at 1 MiB.\<close>

definition heap_statics :: kheap where
  "heap_statics = \<lparr>kh_mem = (\<lambda>_. 0), kmalloc_ready = False, kmalloc_lock = False, last_free = 0,
     alloc_start = 0, alloc_end = 0, alloc_max = 0\<rparr>"

definition empty_heap :: kheap where
  "empty_heap = heap_statics\<lparr>alloc_start := 0x100000, alloc_end := 0x100000, alloc_max := 0x3300000, kmalloc_ready := True\<rparr>"

lemma empty_heap_init: "kmalloc_init 0x100000 heap_statics = Ret empty_heap"
  by (simp add: kmalloc_init_def empty_heap_def PAGE_SIZE_def)

lemma empty_heap_ok: "kheap_abs empty_heap []" "kheap_ok empty_heap"
  using kmalloc_init_ok [OF empty_heap_init] by (simp_all add: heap_statics_def)

lemmas heap_eval = kmalloc_gen_def empty_heap_def heap_statics_def ALIGN_def get_free_block_def
  find_fit.simps extend_heap_def set_block_def store_def max_def member_defs block_macros

text \<open>
  C7. In every state reached from \<^verbatim>\<open>kmalloc_init\<close> by allocations, frees of live allocations and writes into
  live allocations, in any order, the heap is well formed (blocks tile it, headers and footers agree,
  the free list links exactly the free blocks, no two free blocks are adjacent), live allocations do
  not overlap, and they lie inside the heap.
\<close>

theorem heap_run_safe:
  assumes "heap_run h"
  shows "kheap_ok h \<and>
    (\<forall>u \<in> used_blocks h. \<forall>v \<in> used_blocks h. u \<noteq> v \<longrightarrow> content u \<inter> content v = {}) \<and>
    (\<forall>u \<in> used_blocks h. unat (alloc_start h) \<le> fst u \<and> fst u + snd u + 16 \<le> unat (alloc_end h))"
proof -
  have ok: "kheap_ok h" by (rule heap_run_ok [OF assms])
  then obtain bs where bs: "kheap_abs h bs" by (auto simp: kheap_ok_def)
  have "unat (alloc_start h) \<le> fst u \<and> fst u + snd u + 16 \<le> unat (alloc_end h)" if "u \<in> used_blocks h" for u
  proof -
    have "(fst u, snd u) \<in> used_of bs" using that used_blocks_abs [OF bs] by simp
    then show ?thesis by (rule kheap_abs_used [OF bs]) auto
  qed
  then show ?thesis using ok heap.live_apart [OF ok] by blast
qed

theorem heap_run_safe_witness: "heap_run empty_heap \<and> kheap_ok empty_heap"
proof -
  have "heap_run empty_heap"
    by (rule heap_run.init [OF empty_heap_init]) (simp_all add: heap_statics_def)
  then show ?thesis using heap_run_safe by blast
qed

text \<open>
  C9. On a well-formed heap \<^verbatim>\<open>kmalloc\<close> (with or without page alignment and zeroing) always comes back
  with a block, unless the heap is exhausted and it panics: the block is new, at least as large as
  asked for, page aligned if asked for and zeroed if asked for; all other allocations and their
  contents stay as they are, and the heap stays well formed with the lock released.
\<close>

theorem kmalloc_contract:
  assumes "kheap_abs h bs" "kmalloc_ready h" "\<not> kmalloc_lock h"
    and "unat (alloc_end h) + unat sz + 12288 < 4294967296"
  shows "(\<exists>p h'. kmalloc_gen sz align zero h = Ret (p, h') \<and> allocated h bs sz align zero p h') \<or>
    (kmalloc_gen sz align zero h = Panic \<and> unat (alloc_max h) \<le> unat (alloc_end h) + unat sz + 8)"
  by (rule kmalloc_gen_correct [OF assms])

theorem kmalloc_contract_witness:
  "\<exists>p h'. kmalloc_gen 100 True True empty_heap = Ret (p, h') \<and> allocated empty_heap [] 100 True True p h'"
  using kmalloc_contract [OF empty_heap_ok(1), of 100 True True]
  by (simp add: empty_heap_def heap_statics_def)

text \<open>
  C10. \<^verbatim>\<open>kfree\<close> of a live allocation succeeds, removes exactly that allocation, joins it with its free
  neighbours so that no two free blocks are adjacent, and leaves the contents of all other
  allocations alone.
\<close>

theorem kfree_contract:
  assumes "kheap_ok h" "(a, s) \<in> used_blocks h"
  shows "\<exists>h' bs. kfree (of_nat (a + 8)) h = Ret h' \<and> kheap_ok h' \<and> kheap_abs h' bs \<and> no_adj bs \<and>
    used_blocks h' = used_blocks h - {(a, s)} \<and>
    (\<forall>v \<in> used_blocks h - {(a, s)}. \<forall>k \<in> content v. nm h' k = nm h k)"
proof -
  obtain h' where h': "kfree (of_nat (a + 8)) h = Ret h'" "kheap_ok h'" "used_blocks h' = used_blocks h - {(a, s)}"
    "\<forall>v \<in> used_blocks h - {(a, s)}. \<forall>k \<in> content v. nm h' k = nm h k"
    using kfree_live [OF assms] by auto
  moreover from h'(2) obtain bs where "kheap_abs h' bs" by (auto simp: kheap_ok_def)
  ultimately show ?thesis by (auto simp: kheap_abs_def)
qed

theorem kfree_contract_witness:
  "\<exists>h a h'. kmalloc_gen 100 True True empty_heap = Ret (of_nat (a + 8), h) \<and> kfree (of_nat (a + 8)) h = Ret h' \<and>
     used_blocks h' = {}"
proof -
  obtain p h where p: "kmalloc_gen 100 True True empty_heap = Ret (p, h)"
    and al: "allocated empty_heap [] 100 True True p h"
    using kmalloc_gen_correct [OF empty_heap_ok(1), of 100 True True] by (auto simp: empty_heap_def heap_statics_def)
  then obtain bs a s where a: "p = of_nat (a + 8)" "kheap_abs h bs" "used_of bs = {(a, s)}" "kmalloc_ready h" "\<not> kmalloc_lock h"
    by (auto simp: allocated_def)
  then have "kheap_ok h" "used_blocks h = {(a, s)}" using used_blocks_abs [OF a(2)] by (auto simp: kheap_ok_def)
  then show ?thesis using kfree_contract [of h a s] p a(1) by auto
qed

lemma mod_8_top: "4294967288 < m \<Longrightarrow> m < 4294967296 \<Longrightarrow> m mod 8 = m - (4294967288::nat)"
proof -
  assume a: "4294967288 < m" "m < 4294967296"
  then have "m = (m - 4294967288) + 8 * 536870911" by simp
  then have "m mod 8 = (m - 4294967288) mod 8" by (metis mod_mult_self2)
  then show ?thesis using a by simp
qed
text \<open>
  Rounding the size up to a multiple of 8 wraps around: a request for more than \<^verbatim>\<open>0xfffffff8\<close> bytes is
  served like a request for 8 bytes instead of failing.
\<close>

lemma kmalloc_size_wraps:
  assumes "0xfffffff8 < sz"
  shows "kmalloc_gen sz align False h = kmalloc_gen 8 align False h"
proof -
  have u: "4294967288 < unat sz" using assms by (simp add: u32_less_nat)
  note m = mod_8_top [OF u unat_u32_less]
  have "unat (ALIGN_DOWN sz 8) = 4294967288"
    using unat_ALIGN_DOWN [of 8 3 sz] m u by (simp add: mask_eq_exp_minus_1)
  then have "ALIGN_DOWN sz 8 = 0xfffffff8" by (simp add: u32_eq_nat)
  moreover have "sz mod 8 \<noteq> 0" using m u by (simp add: u32_eq_nat unat_mod_u32 del: u32_eq_zero)
  ultimately have "max (ALIGN sz 8) 8 = (8 :: u32)" by (simp add: ALIGN_def)
  moreover have "max (ALIGN 8 8) 8 = (8 :: u32)" by (simp add: ALIGN_def)
  ultimately show ?thesis unfolding kmalloc_gen_def by (simp only: Let_def if_False)
qed

lemma kmalloc_size_wraps_example:
  "\<exists>p h. kmalloc_gen 0xffffffff False False empty_heap = Ret (p, h) \<and> mb_size h (p - 8) = 8"
proof -
  have "\<exists>p h. kmalloc_gen 8 False False empty_heap = Ret (p, h) \<and> mb_size h (p - 8) = 8" by (simp add: heap_eval)
  then show ?thesis using kmalloc_size_wraps [of "0xffffffff" False empty_heap] by simp
qed

text \<open>
  The check against \<^verbatim>\<open>alloc_max\<close> counts neither the header nor the footer: a request whose content just
  fits moves the end of the heap past the area reserved for it.
\<close>

lemma kmalloc_past_max:
  assumes "kmalloc_ready h" "\<not> kmalloc_lock h" "last_free h = 0" "8 \<le> sz" "unat sz mod 8 = 0"
    and "unat (alloc_end h) + unat sz < unat (alloc_max h)" "unat (alloc_max h) < unat (alloc_end h) + unat sz + 16"
    and "unat (alloc_end h) + unat sz + 16 < 4294967296"
  shows "\<exists>p h'. kmalloc_gen sz False zero h = Ret (p, h') \<and> alloc_max h' = alloc_max h \<and> alloc_max h' < alloc_end h'"
proof -
  have n: "max (ALIGN sz 8) 8 = sz" using assms(4,5) by (simp add: ALIGN_def max_def u32_eq_nat unat_mod_u32 del: u32_eq_zero)
  have "unat (alloc_end h + sz) = unat (alloc_end h) + unat sz" using assms(8) by (intro unat_add_u32) simp
  then have room: "\<not> alloc_max h \<le> alloc_end h + sz" using assms(6) by (simp add: u32_le_nat)
  have none: "get_free_block sz False (h\<lparr>kmalloc_lock := True\<rparr>) = Some (0, h\<lparr>kmalloc_lock := True\<rparr>)"
    using assms(3) by (simp add: get_free_block_def find_fit.simps)
  have e: "unat (alloc_end h + sz + 16) = unat (alloc_end h) + unat sz + 16"
    using assms(8) by (simp add: unat_add_u32)
  let ?h0 = "h\<lparr>kmalloc_lock := True\<rparr>"
  obtain hd h2 where x: "extend_heap sz ?h0 = (hd, h2)" by fastforce
  then have h2: "alloc_end h2 = alloc_end h + sz + 16" "alloc_max h2 = alloc_max h"
    by (auto simp: extend_heap_def set_block_def store_def GET_FOOTER_def mb_size_def Let_def)
  have ob: "obtain_block (max (ALIGN sz 8) 8) False 0 ?h0 = (0, hd, h2)" by (simp add: obtain_block_def n x)
  have "\<exists>p h'. kmalloc_gen sz False zero h = Ret (p, h') \<and> alloc_end h' = alloc_end h2 \<and> alloc_max h' = alloc_max h2"
    using kmalloc_gen_eq [OF assms(1,2) _ ob, of zero, unfolded n, OF none] room
    by (simp add: Let_def store_def bzero_at_def)
  moreover have "alloc_max h < alloc_end h + sz + 16" using assms(7) e by (simp add: u32_less_nat)
  ultimately show ?thesis using h2 by auto
qed

lemma kmalloc_past_max_example:
  "\<exists>p h'. kmalloc_gen 32 False False (empty_heap\<lparr>alloc_max := 0x100028\<rparr>) = Ret (p, h') \<and> alloc_max h' < alloc_end h'"
  using kmalloc_past_max [of "empty_heap\<lparr>alloc_max := 0x100028\<rparr>" 32 False]
  by (auto simp: empty_heap_def heap_statics_def)

text \<open>
  \<^verbatim>\<open>krealloc\<close> copies as many bytes as the old block holds, also into a smaller one: shrinking a 24-byte
  allocation to 8 bytes overwrites the footer of the new block, which then no longer agrees with its
  header.
\<close>

lemma krealloc_overcopies:
  "\<exists>p h q h'. kmalloc_gen 24 False False empty_heap = Ret (p, h) \<and> krealloc p 8 h = Ret (q, h') \<and>
     mb_size h' (q - 8) = 8 \<and> kh_mem h' (GET_FOOTER h' (q - 8)) = 0"
  by (simp add: heap_eval krealloc_def kfree_def memcpy_at_def free_block_def unlink_free_block_def TYPE_FREE_def TYPE_USED_def Let_def)
end
