(* ===== verification/CString.thy ===== *)
theory CString
  imports Prelude
begin

text \<open>
  The string and memory functions of \<^verbatim>\<open>src/lib/string.c\<close>, \<^verbatim>\<open>src/lib/strcasecmp.c\<close>, \<^verbatim>\<open>src/lib/libgen.h\<close> and
  \<^verbatim>\<open>src/lib/stdlib.h\<close>. A C string is the list of its characters; the byte behind the list is the
  terminating NUL, and a NUL inside the list ends the string as well. Incrementing a pointer is \<open>tl\<close>,
  dereferencing it is \<open>hd0\<close>. Functions that write to a buffer return the bytes they write.
\<close>

section \<open>Reading a string\<close>

definition NUL :: char where "NUL = CHR 0x00"

definition hd0 :: "string \<Rightarrow> char" where
  "hd0 s = (case s of [] \<Rightarrow> NUL | c # _ \<Rightarrow> c)"

lemma hd0_simps [simp]: "hd0 [] = NUL" "hd0 (c # s) = c"
  by (simp_all add: hd0_def)

lemma hd0_tl_less: "hd0 s \<noteq> NUL \<Longrightarrow> length (tl s) < length s"
  by (cases s) simp_all

text \<open>The scan stops at a NUL and also at a byte 0xff, which is -1 as a signed char.\<close>

function strlen :: "string \<Rightarrow> nat" where
  "strlen s = (if hd0 s \<noteq> NUL \<and> hd0 s \<noteq> CHR 0xff then Suc (strlen (tl s)) else 0)"
  by auto
termination by (relation "measure length") (use hd0_tl_less in auto)

fun strnlen :: "string \<Rightarrow> nat \<Rightarrow> nat" where
  "strnlen s 0 = 0"
| "strnlen s (Suc maxlen) = (if hd0 s = NUL then 0 else Suc (strnlen (tl s) maxlen))"

function strcmp :: "string \<Rightarrow> string \<Rightarrow> int" where
  "strcmp s1 s2 =
     (if hd0 s1 = hd0 s2 then (if hd0 s1 = NUL then 0 else strcmp (tl s1) (tl s2))
      else if (of_char (hd0 s1) :: nat) < of_char (hd0 s2) then - 1 else 1)"
  by auto
termination by (relation "measure (length \<circ> fst)") (use hd0_tl_less in auto)

fun strncmp :: "string \<Rightarrow> string \<Rightarrow> nat \<Rightarrow> int" where
  "strncmp s1 s2 0 = 0"
| "strncmp s1 s2 (Suc n) =
     (if hd0 s1 \<noteq> hd0 s2 then of_char (hd0 s1) - of_char (hd0 s2)
      else if hd0 s1 = NUL then 0 else strncmp (tl s1) (tl s2) n)"

text \<open>The 256-entry table maps the upper-case letters to lower case and every other byte to itself.\<close>

definition charmap :: "char \<Rightarrow> nat" where
  "charmap c = (let n = of_char c in if 65 \<le> n \<and> n \<le> 90 then n + 32 else n)"

function strcasecmp :: "string \<Rightarrow> string \<Rightarrow> int" where
  "strcasecmp s1 s2 =
     (if charmap (hd0 s1) = charmap (hd0 s2)
      then (if hd0 s1 = NUL then 0 else strcasecmp (tl s1) (tl s2))
      else int (charmap (hd0 s1)) - int (charmap (hd0 s2)))"
  by auto
termination by (relation "measure (length \<circ> fst)") (use hd0_tl_less in auto)

fun strncasecmp :: "string \<Rightarrow> string \<Rightarrow> nat \<Rightarrow> int" where
  "strncasecmp s1 s2 0 = 0"
| "strncasecmp s1 s2 (Suc n) =
     (if charmap (hd0 s1) \<noteq> charmap (hd0 s2) then int (charmap (hd0 s1)) - int (charmap (hd0 s2))
      else if hd0 s1 = NUL then 0 else strncasecmp (tl s1) (tl s2) n)"

text \<open>Positions instead of pointers; \<open>None\<close> is \<^verbatim>\<open>NULL\<close>.\<close>

function strchr_from :: "string \<Rightarrow> char \<Rightarrow> nat \<Rightarrow> nat option" where
  "strchr_from p ch i =
     (if hd0 p = ch then Some i else if hd0 p = NUL then None else strchr_from (tl p) ch (Suc i))"
  by auto
termination by (relation "measure (length \<circ> fst)") (use hd0_tl_less in auto)

definition strchr :: "string \<Rightarrow> char \<Rightarrow> nat option" where
  "strchr p ch = strchr_from p ch 0"

function strrchr_from :: "string \<Rightarrow> char \<Rightarrow> nat \<Rightarrow> nat option \<Rightarrow> nat option" where
  "strrchr_from p ch i save =
     (let save = (if hd0 p = ch then Some i else save) in
      if hd0 p = NUL then save else strrchr_from (tl p) ch (Suc i) save)"
  by auto
termination by (relation "measure (length \<circ> fst)") (use hd0_tl_less in auto)

definition strrchr :: "string \<Rightarrow> char \<Rightarrow> nat option" where
  "strrchr p ch = strrchr_from p ch 0 None"

function matches_at :: "string \<Rightarrow> string \<Rightarrow> bool" where
  "matches_at p p2 =
     (if hd0 p2 \<noteq> NUL \<and> hd0 p2 = hd0 p then matches_at (tl p) (tl p2) else hd0 p2 = NUL)"
  by auto
termination by (relation "measure (length \<circ> snd)") (use hd0_tl_less in auto)

function find_substr_from :: "string \<Rightarrow> string \<Rightarrow> nat \<Rightarrow> int" where
  "find_substr_from lst item t =
     (if hd0 lst = NUL then - 1
      else if matches_at lst item then int t
      else find_substr_from (tl lst) item (Suc t))"
  by auto
termination by (relation "measure (length \<circ> fst)") (use hd0_tl_less in auto)

definition find_substr :: "string \<Rightarrow> string \<Rightarrow> int" where
  "find_substr lst item = find_substr_from lst item 0"

fun memcmp :: "u8 list \<Rightarrow> u8 list \<Rightarrow> nat \<Rightarrow> int" where
  "memcmp us1 us2 0 = 0"
| "memcmp us1 us2 (Suc n) =
     (if hd us1 \<noteq> hd us2 then (if hd us1 < hd us2 then - 1 else 1) else memcmp (tl us1) (tl us2) n)"

function atoi_loop :: "string \<Rightarrow> u32 \<Rightarrow> u32" where
  "atoi_loop s n =
     (let c = of_char (hd0 s) :: nat in
      if 48 \<le> c \<and> c \<le> 57 then atoi_loop (tl s) (10 * n + of_nat c - 48) else n)"
  by auto
termination
proof (relation "measure (length \<circ> fst)")
  fix s :: string and n c :: nat
  show "((tl s, w), s, n) \<in> measure (length \<circ> fst)" if "c = of_char (hd0 s)" "48 \<le> c \<and> c \<le> 57" for w n
    using that by (cases s) (auto simp: NUL_def)
qed simp

definition atoi :: "string \<Rightarrow> u32" where
  "atoi s = atoi_loop s 0"

section \<open>Writing a string\<close>

function strcpy :: "string \<Rightarrow> string" where
  "strcpy src = (if hd0 src = NUL then [NUL] else hd0 src # strcpy (tl src))"
  by auto
termination by (relation "measure length") (use hd0_tl_less in auto)

fun strncpy :: "string \<Rightarrow> nat \<Rightarrow> string" where
  "strncpy src 0 = []"
| "strncpy src (Suc n) = (if hd0 src = NUL then [NUL] else hd0 src # strncpy (tl src) n)"

text \<open>
  The first loop of \<^verbatim>\<open>strlcpy\<close>, entered with \<open>n\<close> already decremented: the bytes written, the rest of
  the source behind the last byte read, and whether the NUL was reached.
\<close>

fun strlcpy_copy :: "string \<Rightarrow> nat \<Rightarrow> string \<times> string \<times> bool" where
  "strlcpy_copy s 0 = ([], s, False)"
| "strlcpy_copy s (Suc n) =
     (if hd0 s = NUL then ([NUL], s, True)
      else let (w, r, e) = strlcpy_copy (tl s) n in (hd0 s # w, r, e))"

function skip_to_nul :: "string \<Rightarrow> string" where
  "skip_to_nul s = (if hd0 s = NUL then s else skip_to_nul (tl s))"
  by auto
termination by (relation "measure length") (use hd0_tl_less in auto)

text \<open>The bytes written and the return value, the distance to the NUL of the source.\<close>

definition strlcpy :: "string \<Rightarrow> nat \<Rightarrow> string \<times> nat" where
  "strlcpy src siz =
     (let (w, s, ended) = (if siz \<noteq> 0 then strlcpy_copy src (siz - 1) else ([], src, False)) in
      if ended then (w, length src - length s)
      else let w = (if siz \<noteq> 0 then w @ [NUL] else w) in (w, length src - length (skip_to_nul s)))"

text \<open>The string a buffer with these bytes holds.\<close>

definition c_string :: "string \<Rightarrow> string" where
  "c_string s = takeWhile (\<lambda>c. c \<noteq> NUL) s"

definition strcat :: "string \<Rightarrow> string \<Rightarrow> string" where
  "strcat dest src = take (strlen dest) dest @ strcpy src"

definition substr :: "string \<Rightarrow> nat \<Rightarrow> nat \<Rightarrow> string" where
  "substr src start len = take len (drop start src) @ [NUL]"

definition strndup :: "string \<Rightarrow> nat \<Rightarrow> string" where
  "strndup old num = c_string (fst (strlcpy old (num + 1)))"

text \<open>\<^verbatim>\<open>basename\<close> and \<^verbatim>\<open>dirname\<close>; \<open>None\<close> is a null pointer. \<^verbatim>\<open>dirname\<close> cuts its argument off at the last slash.\<close>

definition basename :: "string option \<Rightarrow> string" where
  "basename path =
     (case path of
        None \<Rightarrow> ''.''
      | Some p \<Rightarrow>
          if hd0 p = NUL then ''.''
          else if strcmp p ''/'' = 0 then p
          else (case strrchr p CHR ''/'' of Some i \<Rightarrow> drop (i + 1) p | None \<Rightarrow> p))"

definition dirname :: "string option \<Rightarrow> string" where
  "dirname path =
     (case path of
        None \<Rightarrow> ''.''
      | Some p \<Rightarrow>
          if strcmp p ''/'' = 0 then p
          else (case strrchr p CHR ''/'' of None \<Rightarrow> ''.'' | Some i \<Rightarrow> take i p))"

section \<open>Formatting\<close>

text \<open>\<^verbatim>\<open>%d\<close> for numbers that are not negative, and \<^verbatim>\<open>snprintf\<close> into a buffer of \<open>n\<close> bytes.\<close>

fun decimal :: "nat \<Rightarrow> string" where
  "decimal n = (if n < 10 then [char_of (48 + n)] else decimal (n div 10) @ [char_of (48 + n mod 10)])"

declare decimal.simps [simp del]

definition snprintf :: "nat \<Rightarrow> string \<Rightarrow> string" where
  "snprintf n str = take (n - 1) str"

section \<open>Splitting a string\<close>

text \<open>
  \<^verbatim>\<open>strtok_r\<close>: the characters of \<open>delim\<close> up to its NUL separate the tokens. The result is the token and
  the new value of \<^verbatim>\<open>*last\<close>; the byte behind the token is overwritten by a NUL.
\<close>

definition is_delim :: "string \<Rightarrow> char \<Rightarrow> bool" where
  "is_delim delim c \<longleftrightarrow> c \<in> set (c_string delim)"

lemma is_delim_not_nul: "is_delim delim c \<Longrightarrow> c \<noteq> NUL"
  by (auto simp: is_delim_def c_string_def dest: set_takeWhileD)

function skip_delims :: "string \<Rightarrow> string \<Rightarrow> string" where
  "skip_delims s delim = (if is_delim delim (hd0 s) then skip_delims (tl s) delim else s)"
  by auto
termination by (relation "measure (length \<circ> fst)") (use hd0_tl_less is_delim_not_nul in auto)

text \<open>The token and what is behind it, \<open>None\<close> if the token ends with the string.\<close>

function scan_token :: "string \<Rightarrow> string \<Rightarrow> string \<times> string option" where
  "scan_token s delim =
     (if hd0 s = NUL then ([], None)
      else if is_delim delim (hd0 s) then ([], Some (tl s))
      else let (tok, rest) = scan_token (tl s) delim in (hd0 s # tok, rest))"
  by auto
termination by (relation "measure (length \<circ> fst)") (use hd0_tl_less in auto)

definition strtok_r :: "string option \<Rightarrow> string \<Rightarrow> string option \<times> string option" where
  "strtok_r s delim =
     (case s of
        None \<Rightarrow> (None, None)
      | Some s \<Rightarrow>
          let s = skip_delims s delim in
          if hd0 s = NUL then (None, None)
          else let (tok, rest) = scan_token (tl s) delim in (Some (hd0 s # tok), rest))"

section \<open>Memory\<close>

text \<open>Byte memory; the regions do not wrap around the end of the address space.\<close>

type_synonym memory = "nat \<Rightarrow> u8"

fun memcpy :: "nat \<Rightarrow> nat \<Rightarrow> nat \<Rightarrow> memory \<Rightarrow> memory" where
  "memcpy to_addr from_addr 0 m = m"
| "memcpy to_addr from_addr (Suc sz) m = memcpy (Suc to_addr) (Suc from_addr) sz (m(to_addr := m from_addr))"

fun memset :: "nat \<Rightarrow> u8 \<Rightarrow> nat \<Rightarrow> memory \<Rightarrow> memory" where
  "memset p fill 0 m = m"
| "memset p fill (Suc sz) m = memset (Suc p) fill sz (m(p := fill))"

text \<open>The two backward loops, by bytes and by words of four bytes that are read before they are written.\<close>

fun copy_bytes_down :: "nat \<Rightarrow> nat \<Rightarrow> nat \<Rightarrow> memory \<Rightarrow> memory" where
  "copy_bytes_down d s 0 m = m"
| "copy_bytes_down d s (Suc i) m = copy_bytes_down d s i (m(d + i := m (s + i)))"

definition copy_word :: "nat \<Rightarrow> nat \<Rightarrow> memory \<Rightarrow> memory" where
  "copy_word d s m = m(d := m s, d + 1 := m (s + 1), d + 2 := m (s + 2), d + 3 := m (s + 3))"

fun copy_words_down :: "nat \<Rightarrow> nat \<Rightarrow> nat \<Rightarrow> memory \<Rightarrow> memory" where
  "copy_words_down d s 0 m = m"
| "copy_words_down d s (Suc i) m = copy_words_down d s i (copy_word (d + 4 * i) (s + 4 * i) m)"

definition memmove :: "nat \<Rightarrow> nat \<Rightarrow> nat \<Rightarrow> memory \<Rightarrow> memory" where
  "memmove dst src len m =
     (if dst < src then memcpy dst src len m
      else if dst mod 4 = 0 \<and> src mod 4 = 0 \<and> len mod 4 = 0 then copy_words_down dst src (len div 4) m
      else copy_bytes_down dst src len m)"

section \<open>Comparison\<close>

declare strlen.simps [simp del] strcmp.simps [simp del] strcasecmp.simps [simp del] strchr_from.simps [simp del]
  strrchr_from.simps [simp del] matches_at.simps [simp del] find_substr_from.simps [simp del]
  atoi_loop.simps [simp del] strcpy.simps [simp del] skip_to_nul.simps [simp del]
  skip_delims.simps [simp del] scan_token.simps [simp del]

lemma c_string_rec: "c_string s = (if hd0 s = NUL then [] else hd0 s # c_string (tl s))"
  by (cases s) (simp_all add: c_string_def)

lemma c_string_Nil [simp]: "c_string [] = []" "hd0 s = NUL \<Longrightarrow> c_string s = []"
  by (simp_all add: c_string_rec)

lemma c_string_step: "hd0 s \<noteq> NUL \<Longrightarrow> c_string s = hd0 s # c_string (tl s)"
  using c_string_rec by simp

lemma c_string_id: "NUL \<notin> set s \<Longrightarrow> c_string s = s"
  by (induction s) (auto simp: c_string_def)

lemma c_string_end: "NUL \<notin> set s \<Longrightarrow> c_string (s @ NUL # r) = s"
  by (induction s) (auto simp: c_string_def)

lemma strcmp_zero: "strcmp s t = 0 \<longleftrightarrow> c_string s = c_string t"
proof (induction s t rule: strcmp.induct)
  case (1 s t)
  then show ?case by (subst strcmp.simps, subst (1 2) c_string_rec) auto
qed

lemma strncmp_zero: "strncmp s t n = 0 \<longleftrightarrow> take n (c_string s) = take n (c_string t)"
proof (induction s t n rule: strncmp.induct)
  case (2 s t n)
  have "of_char (hd0 s) = (of_char (hd0 t) :: int) \<longleftrightarrow> hd0 s = hd0 t" by (rule of_char_eq_iff)
  then show ?case using 2 by (subst (1 2) c_string_rec) auto
qed simp

lemma strlen_c_string: "CHR 0xff \<notin> set (c_string s) \<Longrightarrow> strlen s = length (c_string s)"
proof (induction s rule: strlen.induct)
  case (1 s)
  then show ?case by (subst strlen.simps, cases "hd0 s = NUL") (auto simp: c_string_step)
qed

lemma strlcpy_copy_spec:
  "strlcpy_copy s n = (case c_string s of cs \<Rightarrow>
     if length cs < n then (cs @ [NUL], drop (length cs) s, True) else (take n cs, drop n s, False))"
proof (induction s n rule: strlcpy_copy.induct)
  case (2 s n)
  then show ?case by (cases "hd0 s = NUL") (auto simp: c_string_step drop_Suc)
qed simp

lemma skip_to_nul_spec: "skip_to_nul s = drop (length (c_string s)) s"
proof (induction s rule: skip_to_nul.induct)
  case (1 s)
  then show ?case by (subst skip_to_nul.simps, cases "hd0 s = NUL") (auto simp: c_string_step drop_Suc)
qed

lemma length_c_string: "length (c_string s) \<le> length s"
  by (simp add: c_string_def length_takeWhile_le)

lemma c_string_drop: "n \<le> length (c_string s) \<Longrightarrow> c_string (drop n s) = drop n (c_string s)"
proof (induction n arbitrary: s)
  case (Suc n)
  then have "hd0 s \<noteq> NUL" by auto
  then show ?case using Suc by (simp add: c_string_step drop_Suc)
qed simp

lemma strlcpy_spec:
  "strlcpy src siz = (if siz = 0 then [] else take (siz - 1) (c_string src) @ [NUL], length (c_string src))"
proof -
  have "length src - length (skip_to_nul (drop n src)) = length (c_string src)" if "n \<le> length (c_string src)" for n
    using that length_c_string [of src] by (simp add: skip_to_nul_spec c_string_drop)
  from this this [of 0] show ?thesis
    using length_c_string [of src] by (auto simp: strlcpy_def strlcpy_copy_spec Let_def)
qed

section \<open>Plain strings\<close>

text \<open>No NUL and no byte 0xff, which \<^verbatim>\<open>strlen\<close> takes for the end.\<close>

definition plain :: "string \<Rightarrow> bool" where
  "plain s \<longleftrightarrow> NUL \<notin> set s \<and> CHR 0xff \<notin> set s"

lemma plain_simps: "plain s \<Longrightarrow> strlen s = length s" "plain s \<Longrightarrow> c_string s = s"
  by (auto simp: plain_def c_string_id strlen_c_string)

lemma strcmp_plain: "plain s \<Longrightarrow> plain t \<Longrightarrow> strcmp s t = 0 \<longleftrightarrow> s = t"
  by (simp add: strcmp_zero plain_simps)

section \<open>Tokens\<close>

function tokens :: "(char \<Rightarrow> bool) \<Rightarrow> string \<Rightarrow> string list" where
  "tokens P s =
     (case dropWhile P s of
        [] \<Rightarrow> []
      | c # cs \<Rightarrow> (c # takeWhile (\<lambda>x. \<not> P x) cs) # tokens P (dropWhile (\<lambda>x. \<not> P x) cs))"
  by auto
termination
proof (relation "measure (length \<circ> snd)")
  fix P :: "char \<Rightarrow> bool" and s c cs
  assume "dropWhile P s = c # cs"
  then have "length cs < length s" by (metis length_dropWhile_le length_Cons less_eq_Suc_le)
  then show "((P, dropWhile (\<lambda>x. \<not> P x) cs), P, s) \<in> measure (length \<circ> snd)"
    using length_dropWhile_le [of "\<lambda>x. \<not> P x" cs] by simp
qed simp

declare tokens.simps [simp del]

lemma tokens_Nil [simp]: "tokens P [] = []"
  by (simp add: tokens.simps)

lemma skip_delims_spec: "c_string (skip_delims s delim) = dropWhile (is_delim delim) (c_string s)"
proof (induction s delim rule: skip_delims.induct)
  case (1 s delim)
  show ?case
  proof (cases "is_delim delim (hd0 s)")
    case True
    then show ?thesis using 1 is_delim_not_nul [OF True] by (subst skip_delims.simps) (simp add: c_string_step)
  next
    case False
    then show ?thesis by (subst skip_delims.simps) (cases "hd0 s = NUL"; simp add: c_string_step)
  qed
qed

lemma scan_token_spec:
  assumes "scan_token s delim = (tok, rest)"
  shows "tok = takeWhile (\<lambda>x. \<not> is_delim delim x) (c_string s) \<and>
    (case rest of None \<Rightarrow> dropWhile (\<lambda>x. \<not> is_delim delim x) (c_string s) = []
     | Some r \<Rightarrow> length r < length s \<and>
         (\<exists>d. is_delim delim d \<and> dropWhile (\<lambda>x. \<not> is_delim delim x) (c_string s) = d # c_string r))"
  using assms
proof (induction s delim arbitrary: tok rest rule: scan_token.induct)
  case (1 s delim)
  consider "hd0 s = NUL" | "hd0 s \<noteq> NUL" "is_delim delim (hd0 s)" | "hd0 s \<noteq> NUL" "\<not> is_delim delim (hd0 s)" by blast
  then show ?case
  proof cases
    case 3
    obtain t r where tr: "scan_token (tl s) delim = (t, r)" by fastforce
    then have "tok = hd0 s # t" "rest = r" using "1.prems" 3 by (auto simp: scan_token.simps [of s])
    then show ?thesis
      using "1.IH" [OF 3 tr] 3 hd0_tl_less [OF 3(1)] by (auto simp: c_string_step split: option.splits)
  qed (use "1.prems" hd0_tl_less in \<open>auto simp: scan_token.simps [of s] c_string_step\<close>)
qed

text \<open>Calling \<^verbatim>\<open>strtok_r\<close> until it returns \<^verbatim>\<open>NULL\<close>.\<close>

function strtok_all :: "string option \<Rightarrow> string \<Rightarrow> string list" where
  "strtok_all s delim =
     (case strtok_r s delim of (None, _) \<Rightarrow> [] | (Some t, rest) \<Rightarrow> t # strtok_all rest delim)"
  by auto


lemma skip_delims_length: "length (skip_delims s delim) \<le> length s"
proof (induction s delim rule: skip_delims.induct)
  case (1 s delim)
  then show ?case by (subst skip_delims.simps) (cases s; auto)
qed

lemma strtok_r_spec:
  assumes "strtok_r (Some s) delim = (Some t, rest)"
  shows "\<exists>c cs. dropWhile (is_delim delim) (c_string s) = c # cs \<and> t = c # takeWhile (\<lambda>x. \<not> is_delim delim x) cs \<and>
    (case rest of None \<Rightarrow> dropWhile (\<lambda>x. \<not> is_delim delim x) cs = []
     | Some r \<Rightarrow> length r < length s \<and>
         (\<exists>d. is_delim delim d \<and> dropWhile (\<lambda>x. \<not> is_delim delim x) cs = d # c_string r))"
proof -
  let ?s = "skip_delims s delim"
  have nz: "hd0 ?s \<noteq> NUL" using assms by (auto simp: strtok_r_def Let_def split: if_splits)
  obtain tok r where tr: "scan_token (tl ?s) delim = (tok, r)" by fastforce
  have t: "t = hd0 ?s # tok" "rest = r" using assms nz tr by (auto simp: strtok_r_def Let_def)
  have "dropWhile (is_delim delim) (c_string s) = hd0 ?s # c_string (tl ?s)"
    using skip_delims_spec [of s delim] c_string_step [OF nz] by simp
  moreover have "length (tl ?s) \<le> length s" using skip_delims_length [of s delim] by simp
  ultimately show ?thesis
    using scan_token_spec [OF tr] t by (auto split: option.splits intro!: exI [of _ "hd0 ?s"] exI [of _ "c_string (tl ?s)"])
qed

lemma strtok_r_none:
  assumes "strtok_r (Some s) delim = (None, rest)"
  shows "dropWhile (is_delim delim) (c_string s) = []"
proof -
  have "hd0 (skip_delims s delim) = NUL"
    using assms by (auto simp: strtok_r_def Let_def split: if_splits prod.splits)
  then show ?thesis using skip_delims_spec [of s delim] by simp
qed

lemma strtok_r_shorter:
  assumes "strtok_r s delim = (Some t, rest)"
  shows "(case rest of None \<Rightarrow> 0 | Some r \<Rightarrow> Suc (length r)) < (case s of None \<Rightarrow> 0 | Some s \<Rightarrow> Suc (length s))"
proof (cases s)
  case (Some x)
  then show ?thesis using strtok_r_spec [of x delim t rest] assms by (auto split: option.splits)
qed (use assms in \<open>simp add: strtok_r_def\<close>)

termination strtok_all
  by (relation "measure (\<lambda>(s, delim). case s of None \<Rightarrow> 0 | Some s \<Rightarrow> Suc (length s))")
     (auto dest!: strtok_r_shorter [OF sym])

declare strtok_all.simps [simp del]

lemma strtok_all_none [simp]: "strtok_all None delim = []"
  by (simp add: strtok_all.simps strtok_r_def)

section \<open>Memory regions\<close>

lemma memcpy_forward:
  assumes "d < s"
  shows "memcpy d s n m a = (if d \<le> a \<and> a < d + n then m (s + (a - d)) else m a)"
  using assms
proof (induction n arbitrary: d s m)
  case (Suc n)
  have "memcpy (Suc d) (Suc s) n (m(d := m s)) a = (if Suc d \<le> a \<and> a < Suc d + n then (m(d := m s)) (Suc s + (a - Suc d)) else (m(d := m s)) a)"
    using Suc.prems by (intro Suc.IH) simp
  then show ?case using Suc.prems by (cases "a = d") (auto simp: Suc_diff_Suc)
qed auto

lemma copy_bytes_down_spec:
  assumes "s \<le> d"
  shows "copy_bytes_down d s n m a = (if d \<le> a \<and> a < d + n then m (s + (a - d)) else m a)"
proof (induction n arbitrary: m)
  case (Suc n)
  show ?case unfolding copy_bytes_down.simps Suc.IH using assms by (auto simp: less_Suc_eq)
qed auto

lemma copy_words_down_spec:
  assumes "s \<le> d"
  shows "copy_words_down d s n m a = (if d \<le> a \<and> a < d + 4 * n then m (s + (a - d)) else m a)"
proof (induction n arbitrary: m)
  case (Suc n)
  consider "a < d + 4 * n" | "d + 4 * n + 4 \<le> a" | "a = d + 4 * n" | "a = d + 4 * n + 1" | "a = d + 4 * n + 2" | "a = d + 4 * n + 3"
    by linarith
  then show ?case
    unfolding copy_words_down.simps Suc.IH copy_word_def using assms by cases (auto simp: add.assoc)
qed auto

lemma char_of_0: "char_of (0 :: nat) = NUL"
  by (simp add: char_of_def NUL_def)

lemma char_of_byte: "char_of (unat (of_char c :: u8)) = c"
proof -
  have "(of_char c :: u8) = of_nat (of_char c)" by (rule of_nat_of_char [symmetric])
  moreover have "(of_char c :: nat) < 256" using nat_of_char_less_256 [of c] by simp
  ultimately show ?thesis by (simp add: unat_of_nat)
qed

section \<open>Properties\<close>

text \<open>
  Calling \<^verbatim>\<open>strtok_r\<close> until it returns \<^verbatim>\<open>NULL\<close> yields exactly the non-empty fields between the delimiters,
  in order.
\<close>

lemma strtok_tokens: "strtok_all (Some s) delim = tokens (is_delim delim) (c_string s)"
proof (induction "length s" arbitrary: s rule: less_induct)
  case less
  obtain t rest where tr: "strtok_r (Some s) delim = (t, rest)" by fastforce
  show ?case
  proof (cases t)
    case None
    then show ?thesis
      using strtok_r_none [of s delim rest] tr
      by (simp add: strtok_all.simps [of "Some s"] tokens.simps [of _ "c_string s"] del: dropWhile_eq_Nil_conv)
  next
    case (Some x)
    then obtain c cs where c: "dropWhile (is_delim delim) (c_string s) = c # cs" "x = c # takeWhile (\<lambda>x. \<not> is_delim delim x) cs"
      and rest: "case rest of None \<Rightarrow> dropWhile (\<lambda>x. \<not> is_delim delim x) cs = []
         | Some r \<Rightarrow> length r < length s \<and> (\<exists>d. is_delim delim d \<and> dropWhile (\<lambda>x. \<not> is_delim delim x) cs = d # c_string r)"
      using strtok_r_spec [of s delim x rest] tr by auto
    have "strtok_all rest delim = tokens (is_delim delim) (dropWhile (\<lambda>x. \<not> is_delim delim x) cs)"
    proof (cases rest)
      case None
      then show ?thesis using rest by (simp del: dropWhile_eq_Nil_conv)
    next
      case (Some r)
      then obtain d where "length r < length s" "is_delim delim d" "dropWhile (\<lambda>x. \<not> is_delim delim x) cs = d # c_string r"
        using rest by auto
      then show ?thesis using less.hyps [of r] Some by (simp add: tokens.simps [of _ "d # c_string r"] tokens.simps [of _ "c_string r"])
    qed
    then show ?thesis
      using tr Some c by (simp add: strtok_all.simps [of "Some s"] tokens.simps [of _ "c_string s"])
  qed
qed

text \<open>
  \<^verbatim>\<open>memmove\<close> is right for regions that overlap in any way: forward copy, backward copy by words and
  backward copy by bytes all leave the destination with the original bytes of the source and change
  nothing else.
\<close>

lemma memmove_overlap:
  "memmove dst src len m a = (if dst \<le> a \<and> a < dst + len then m (src + (a - dst)) else m a)"
proof -
  have "4 * (len div 4) = len" if "len mod 4 = 0" using that by auto
  then show ?thesis
    by (auto simp: memmove_def memcpy_forward copy_words_down_spec copy_bytes_down_spec)
qed

end
