(* ===== verification/Cmdline.thy ===== *)
theory Cmdline
  imports CString
begin

text \<open>
  The kernel command line (\<^verbatim>\<open>src/lib/cmdline.c\<close>). The options are the strings between single spaces, in
  an array of 50 pointers.
\<close>

definition MAX_OPTIONS :: nat where "MAX_OPTIONS = 50"

text \<open>The loop of \<^verbatim>\<open>cmdline_init\<close>; \<open>prev\<close> is the option read so far. The loop runs once for the NUL.\<close>

fun split_options :: "string \<Rightarrow> string \<Rightarrow> string list" where
  "split_options [] prev = [prev]"
| "split_options (c # cs) prev = (if c = CHR '' '' then prev # split_options cs [] else split_options cs (prev @ [c]))"

text \<open>The array is not checked for overflow.\<close>

definition cmdline_init :: "string \<Rightarrow> string list outcome" where
  "cmdline_init cmdline_string =
     (let cmdline = strndup cmdline_string (strlen cmdline_string);
          options = split_options (take (strlen cmdline) cmdline) []
      in if length options \<le> MAX_OPTIONS then Ret options else Fault)"

text \<open>\<^verbatim>\<open>key_len - 1\<close> is an unsigned number, so it is huge for an empty key.\<close>

definition key_limit :: "nat \<Rightarrow> nat" where
  "key_limit key_len = (if key_len = 0 then 4294967295 else key_len - 1)"

fun cmdline_get :: "string list \<Rightarrow> string \<Rightarrow> string option" where
  "cmdline_get [] key = None"
| "cmdline_get (opt # options) key =
     (let key_len = strlen key in
      if key_len + 2 \<le> strlen opt \<and> strncmp key opt (key_limit key_len) = 0
      then (if opt ! key_len \<noteq> CHR ''='' then cmdline_get options key else Some (drop (key_len + 1) opt))
      else cmdline_get options key)"

fun cmdline_get_bool :: "string list \<Rightarrow> string \<Rightarrow> bool" where
  "cmdline_get_bool [] key = False"
| "cmdline_get_bool (opt # options) key = (strcmp opt key = 0 \<or> cmdline_get_bool options key)"

section \<open>Options\<close>

text \<open>The fields between single spaces.\<close>

fun join :: "string list \<Rightarrow> string" where
  "join [] = []"
| "join [x] = x"
| "join (x # y # xs) = x @ CHR '' '' # join (y # xs)"

lemma split_options_join:
  assumes "\<forall>x \<in> set (y # ys). CHR '' '' \<notin> set x"
  shows "split_options (join (y # ys)) prev = (prev @ y) # ys"
proof -
  have one: "CHR '' '' \<notin> set x \<Longrightarrow> split_options (x @ CHR '' '' # r) prev = (prev @ x) # split_options r []"
    "CHR '' '' \<notin> set x \<Longrightarrow> split_options x prev = [prev @ x]" for x r prev
    by (induction x arbitrary: prev) auto
  show ?thesis using assms
  proof (induction ys arbitrary: y prev)
    case (Cons z zs)
    then show ?case using one(1) [of y "join (z # zs)" prev] Cons.IH [of z "[]"] by simp
  qed (simp add: one)
qed

lemma plain_join: "\<forall>x \<in> set xs. plain x \<Longrightarrow> plain (join xs)"
  by (induction xs rule: join.induct) (auto simp: plain_def NUL_def)

lemma cmdline_init_join:
  assumes "opts \<noteq> []" "length opts \<le> MAX_OPTIONS" "\<forall>x \<in> set opts. plain x \<and> CHR '' '' \<notin> set x"
  shows "cmdline_init (join opts) = Ret opts"
proof -
  obtain y ys where opts: "opts = y # ys" using assms(1) by (cases opts) auto
  have p: "plain (join opts)" using assms(3) by (intro plain_join) blast
  have "strndup (join opts) (length (join opts)) = join opts"
    using p by (simp add: strndup_def strlcpy_spec plain_simps) (simp add: plain_def c_string_end)
  then show ?thesis
    using p split_options_join [of y ys "[]"] assms(2,3) by (simp add: cmdline_init_def plain_simps Let_def opts)
qed

lemma strncmp_plain: "plain s \<Longrightarrow> plain t \<Longrightarrow> strncmp s t n = 0 \<longleftrightarrow> take n s = take n t"
  by (simp add: strncmp_zero plain_simps)

section \<open>Properties\<close>



text \<open>
  \<^verbatim>\<open>cmdline_get\<close> compares one character less than the key has: an earlier option whose key differs only in
  its last character is taken for the option that was asked for.
\<close>

theorem cmdline_get_last_char:
  assumes "plain (k @ [c])" "plain (k @ [d])" "plain val" "val \<noteq> []"
  shows "cmdline_get ((k @ [d] @ ''='' @ val) # options) (k @ [c]) = Some val"
proof -
  have opt: "plain (k @ [d] @ ''='' @ val)" using assms by (auto simp: plain_def NUL_def)
  have "1 \<le> length val" using assms(4) by (cases val) auto
  then show ?thesis
    using plain_simps(1) [OF assms(1)] plain_simps(1) [OF opt] strncmp_plain [OF assms(1) opt]
    by (simp add: Let_def key_limit_def nth_append)
qed

theorem cmdline_get_last_char_witness:
  "cmdline_get [''inix=/bin/false'', ''init=/sbin/init''] ''init'' = Some ''/bin/false''"
  using cmdline_get_last_char [of "''ini''" "CHR ''t''" "CHR ''x''" "''/bin/false''" "[''init=/sbin/init'']"]
  by (simp add: plain_def NUL_def)

end
