(* ===== verification/Buffer.thy ===== *)
theory Buffer
  imports Spinlock
begin

text \<open>
  The growing byte buffer of \<^verbatim>\<open>src/lib/buffer.c\<close>, which pipes and terminals queue their data in. The
  pages come from \<^verbatim>\<open>vm_alloc\<close>, a parameter of the model: it gives zero or more pages of memory with
  arbitrary contents. The locale \<open>byte_queue\<close> is the interface the users of a buffer rely on.
\<close>

section \<open>State and operations\<close>

record buffer =
  bf_data :: "u8 list"
  bf_lock :: bool
  bf_size :: u32
  bf_pages :: u32
  bf_max_pages :: u32

type_synonym vm_alloc = "u32 \<Rightarrow> u8 list option"

text \<open>\<^verbatim>\<open>memcpy(data + off, src, size)\<close>; a copy that leaves the allocation is a fault.\<close>

definition blit :: "nat \<Rightarrow> u8 list \<Rightarrow> u8 list \<Rightarrow> u8 list option" where
  "blit off src data =
     (if off + length src \<le> length data then Some (take off data @ src @ drop (off + length src) data) else None)"

definition buffer_new :: "vm_alloc \<Rightarrow> u32 \<Rightarrow> buffer option" where
  "buffer_new alloc max_pages =
     (case alloc 1 of
        None \<Rightarrow> None
      | Some m \<Rightarrow> Some \<lparr>bf_data = m, bf_lock = False, bf_size = 0, bf_pages = 1, bf_max_pages = max_pages\<rparr>)"

text \<open>The end of \<^verbatim>\<open>buffer_write\<close>: copy the data behind what is there and release the lock.\<close>

definition buffer_append :: "u8 list \<Rightarrow> u32 \<Rightarrow> buffer \<Rightarrow> (u32 \<times> errno option \<times> buffer) outcome" where
  "buffer_append src sz buf =
     (case blit (unat (bf_size buf)) (take (unat sz) src) (bf_data buf) of
        None \<Rightarrow> Fault
      | Some d \<Rightarrow> Ret (sz, None, buf\<lparr>bf_data := d, bf_size := bf_size buf + sz, bf_lock := False\<rparr>))"

text \<open>
  The result is the return value, the error number if one is set, and the buffer. Both error paths
  return with the lock held.
\<close>

definition buffer_write ::
    "vm_alloc \<Rightarrow> buffer \<Rightarrow> u8 list \<Rightarrow> u32 \<Rightarrow> (u32 \<times> errno option \<times> buffer) outcome" where
  "buffer_write alloc buf src sz = acquire (bf_lock buf)
     (let buf = buf\<lparr>bf_lock := True\<rparr>
      in if bf_pages buf * PAGE_SIZE < bf_size buf + sz
         then let size_needed = bf_pages buf + RDIV sz PAGE_SIZE;
                  size_wanted = max (bf_pages buf * 3) size_needed;
                  size_new = min size_wanted (bf_max_pages buf)
              in if bf_max_pages buf < size_needed then Ret (- 1, Some EFBIG, buf)
                 else (case alloc size_new of
                         None \<Rightarrow> Ret (- 1, None, buf)
                       | Some m \<Rightarrow>
                           (case blit 0 (take (unat (bf_size buf)) (bf_data buf)) m of
                              None \<Rightarrow> Fault
                            | Some m' \<Rightarrow> buffer_append src sz (buf\<lparr>bf_data := m', bf_pages := size_new\<rparr>)))
         else buffer_append src sz buf)"

definition do_read :: "buffer \<Rightarrow> u32 \<Rightarrow> u32 \<Rightarrow> u8 list" where
  "do_read buf sz offset =
     (if bf_size buf \<le> offset then []
      else take (unat (min (bf_size buf - offset) sz)) (drop (unat offset) (bf_data buf)))"

text \<open>The number of bytes read is the length of the list.\<close>

definition buffer_read :: "buffer \<Rightarrow> u32 \<Rightarrow> u32 \<Rightarrow> u8 list outcome" where
  "buffer_read buf sz offset = acquire (bf_lock buf) (Ret (do_read buf sz offset))"

text \<open>The rest of the data is moved to the front by \<^verbatim>\<open>memmove(data, data + size, buf->size)\<close>.\<close>

definition buffer_pop :: "buffer \<Rightarrow> u32 \<Rightarrow> (u8 list \<times> buffer) outcome" where
  "buffer_pop buf sz = acquire (bf_lock buf)
     (let out = do_read buf sz 0;
          left = bf_size buf - of_nat (length out)
      in if left \<noteq> 0
         then (case blit 0 (take (unat left) (drop (unat sz) (bf_data buf))) (bf_data buf) of
                 None \<Rightarrow> Fault
               | Some d \<Rightarrow> Ret (out, buf\<lparr>bf_data := d, bf_size := left\<rparr>))
         else Ret (out, buf\<lparr>bf_size := left\<rparr>))"

definition buffer_size :: "buffer \<Rightarrow> u32 outcome" where
  "buffer_size buf = acquire (bf_lock buf) (Ret (bf_size buf))"

section \<open>Invariant and contents\<close>

definition buffer_ok :: "buffer \<Rightarrow> bool" where
  "buffer_ok buf \<longleftrightarrow> length (bf_data buf) = unat (bf_pages buf) * 4096 \<and> unat (bf_size buf) \<le> length (bf_data buf) \<and>
     unat (bf_pages buf) < 2 ^ 16 \<and> unat (bf_max_pages buf) < 2 ^ 16"

definition contents :: "buffer \<Rightarrow> u8 list" where
  "contents buf = take (unat (bf_size buf)) (bf_data buf)"

text \<open>What is known of the allocator: it gives as many pages as it is asked for.\<close>

definition gives_pages :: "vm_alloc \<Rightarrow> bool" where
  "gives_pages alloc \<longleftrightarrow> (\<forall>n m. alloc n = Some m \<longrightarrow> length m = unat n * 4096)"

lemma contents_length: "buffer_ok buf \<Longrightarrow> length (contents buf) = unat (bf_size buf)"
  by (simp add: buffer_ok_def contents_def)

lemma contents_lock [simp]: "contents (buf\<lparr>bf_lock := l\<rparr>) = contents buf" "buffer_ok (buf\<lparr>bf_lock := l\<rparr>) = buffer_ok buf"
  by (simp_all add: contents_def buffer_ok_def)

lemma buffer_new_ok:
  assumes "gives_pages alloc" "unat max_pages < 2 ^ 16" "buffer_new alloc max_pages = Some buf"
  shows "buffer_ok buf \<and> contents buf = [] \<and> \<not> bf_lock buf"
  using assms by (auto simp: buffer_new_def buffer_ok_def contents_def gives_pages_def split: option.splits)

lemma blit_front: "length src \<le> length data \<Longrightarrow> blit 0 src data = Some (src @ drop (length src) data)"
  by (simp add: blit_def)

lemma do_read_contents:
  assumes "buffer_ok buf"
  shows "do_read buf sz offset = take (unat sz) (drop (unat offset) (contents buf))"
proof (cases "bf_size buf \<le> offset")
  case True
  then have "length (contents buf) \<le> unat offset" using contents_length [OF assms] by (simp add: u32_le_nat)
  then show ?thesis using True by (simp add: do_read_def)
next
  case False
  then have "unat (bf_size buf - offset) = unat (bf_size buf) - unat offset" by (simp add: unat_sub_u32)
  moreover have "unat (min (bf_size buf - offset) sz) = min (unat (bf_size buf - offset)) (unat sz)"
    by (simp add: min_def u32_le_nat)
  ultimately show ?thesis using False by (simp add: do_read_def contents_def drop_take min.commute)
qed

lemma buffer_pop_correct:
  assumes "buffer_ok buf" "\<not> bf_lock buf"
  shows "\<exists>buf'. buffer_pop buf sz = Ret (take (unat sz) (contents buf), buf') \<and> buffer_ok buf' \<and>
    \<not> bf_lock buf' \<and> contents buf' = drop (unat sz) (contents buf) \<and> bf_max_pages buf' = bf_max_pages buf"
proof -
  let ?out = "take (unat sz) (contents buf)"
  let ?left = "bf_size buf - of_nat (length ?out)"
  note len = contents_length [OF assms(1)]
  have out: "do_read buf sz 0 = ?out" using do_read_contents [OF assms(1), of sz 0] by simp
  have l: "length ?out = min (unat sz) (unat (bf_size buf))" by (simp add: len min.commute)
  then have "unat (of_nat (length ?out) :: u32) = length ?out"
    using unat_u32_less [of sz] by (simp add: unat_of_nat_u32 del: unat_u32_less)
  then have left: "unat ?left = unat (bf_size buf) - min (unat sz) (unat (bf_size buf))"
    using l by (subst unat_sub_u32) (simp_all add: u32_le_nat)
  have fit: "unat (bf_size buf) \<le> length (bf_data buf)" using assms(1) by (simp add: buffer_ok_def)
  show ?thesis
  proof (cases "?left = 0")
    case True
    then have "unat (bf_size buf) \<le> unat sz" using left by (simp add: u32_eq_nat del: u32_eq_zero)
    then have "drop (unat sz) (contents buf) = []" using len by simp
    then show ?thesis
      using assms True unfolding buffer_pop_def out by (auto simp: Let_def buffer_ok_def contents_def)
  next
    case False
    then have "unat ?left \<noteq> 0" by (simp add: u32_eq_nat del: u32_eq_zero)
    then have small: "unat sz < unat (bf_size buf)" and left': "unat ?left = unat (bf_size buf) - unat sz"
      using left by (auto simp: min_def split: if_splits)
    let ?rest = "take (unat ?left) (drop (unat sz) (bf_data buf))"
    have rest: "?rest = drop (unat sz) (contents buf)" using left' by (simp add: contents_def drop_take)
    have rl: "length ?rest = unat ?left" using fit small left' by simp
    then have "blit 0 ?rest (bf_data buf) = Some (?rest @ drop (length ?rest) (bf_data buf))"
      using fit small left' by (intro blit_front) simp
    then show ?thesis
      using assms False rest rl unfolding buffer_pop_def out
      by (auto simp: Let_def buffer_ok_def contents_def)
  qed
qed

lemma buffer_append_correct:
  assumes "buffer_ok buf" "unat (bf_size buf) + length src \<le> length (bf_data buf)" "length src = unat sz"
  shows "\<exists>buf'. buffer_append src sz buf = Ret (sz, None, buf') \<and> buffer_ok buf' \<and> \<not> bf_lock buf' \<and>
    contents buf' = contents buf @ src \<and> bf_max_pages buf' = bf_max_pages buf"
proof -
  have "length (bf_data buf) < 2 ^ 16 * 4096" using assms(1) by (simp add: buffer_ok_def)
  then have "unat (bf_size buf + sz) = unat (bf_size buf) + unat sz"
    using assms(2,3) by (intro unat_add_u32) simp
  then show ?thesis using assms by (simp add: buffer_append_def blit_def buffer_ok_def contents_def)
qed

lemma unat_RDIV_page:
  assumes "unat sz \<le> 2 ^ 28"
  shows "unat (RDIV sz PAGE_SIZE) = (unat sz + 4095) div 4096"
  using assms by (simp add: RDIV_def PAGE_SIZE_def unat_div_u32 unat_add_u32)

lemma buffer_grow:
  assumes ok: "buffer_ok buf" and m: "length m = unat pages * 4096" "unat (bf_size buf) \<le> unat pages * 4096" "unat pages < 2 ^ 16"
  shows "\<exists>m'. blit 0 (take (unat (bf_size buf)) (bf_data buf)) m = Some m' \<and> length m' = length m \<and>
    buffer_ok (buf\<lparr>bf_data := m', bf_pages := pages\<rparr>) \<and> contents (buf\<lparr>bf_data := m', bf_pages := pages\<rparr>) = contents buf"
proof -
  have "length (take (unat (bf_size buf)) (bf_data buf)) = unat (bf_size buf)" using ok by (simp add: buffer_ok_def)
  then show ?thesis using ok m by (auto simp: blit_def buffer_ok_def contents_def)
qed

lemma buffer_write_correct:
  assumes alloc: "gives_pages alloc" and ok: "buffer_ok buf" "\<not> bf_lock buf"
    and src: "length src = unat sz" "unat sz \<le> 2 ^ 28"
  shows "(\<exists>buf'. buffer_write alloc buf src sz = Ret (sz, None, buf') \<and> buffer_ok buf' \<and> \<not> bf_lock buf' \<and>
           contents buf' = contents buf @ src \<and> bf_max_pages buf' = bf_max_pages buf) \<or>
    ((\<exists>e. buffer_write alloc buf src sz = Ret (- 1, e, buf\<lparr>bf_lock := True\<rparr>)) \<and>
     unat (bf_pages buf) * 4096 < unat (bf_size buf) + unat sz)"
proof -
  have p16: "unat (bf_pages buf) < 2 ^ 16" "unat (bf_max_pages buf) < 2 ^ 16" "unat (bf_size buf) \<le> unat (bf_pages buf) * 4096"
    using ok(1) by (simp_all add: buffer_ok_def)
  have page: "unat (bf_pages buf * PAGE_SIZE) = unat (bf_pages buf) * 4096"
    using p16 by (simp add: PAGE_SIZE_def unat_mult_u32)
  have sum: "unat (bf_size buf + sz) = unat (bf_size buf) + unat sz" using p16 src by (intro unat_add_u32) simp
  show ?thesis
  proof (cases "unat (bf_pages buf) * 4096 < unat (bf_size buf) + unat sz")
    case False
    then have "\<not> bf_pages buf * PAGE_SIZE < bf_size buf + sz" by (simp add: u32_less_nat page sum)
    moreover have "unat (bf_size buf) + length src \<le> length (bf_data buf)" using False src ok(1) by (simp add: buffer_ok_def)
    ultimately show ?thesis
      using ok buffer_append_correct [of "buf\<lparr>bf_lock := True\<rparr>" src sz] src(1) by (auto simp: buffer_write_def Let_def)
  next
    case grow: True
    then have g: "bf_pages buf * PAGE_SIZE < bf_size buf + sz" by (simp add: u32_less_nat page sum)
    define need where "need = bf_pages buf + RDIV sz PAGE_SIZE"
    define pages where "pages = min (max (bf_pages buf * 3) need) (bf_max_pages buf)"
    have "(unat sz + 4095) div 4096 \<le> 2 ^ 16" using src by simp
    then have need: "unat need = unat (bf_pages buf) + (unat sz + 4095) div 4096"
      using p16 by (simp add: need_def unat_add_u32 unat_RDIV_page [OF src(2)])
    have w: "buffer_write alloc buf src sz = (if bf_max_pages buf < need then Ret (- 1, Some EFBIG, buf\<lparr>bf_lock := True\<rparr>)
        else case alloc pages of None \<Rightarrow> Ret (- 1, None, buf\<lparr>bf_lock := True\<rparr>)
        | Some m \<Rightarrow> (case blit 0 (take (unat (bf_size buf)) (bf_data buf)) m of None \<Rightarrow> Fault
          | Some m' \<Rightarrow> buffer_append src sz (buf\<lparr>bf_lock := True, bf_data := m', bf_pages := pages\<rparr>)))"
      using ok(2) g by (simp add: buffer_write_def Let_def need_def pages_def cong: option.case_cong)
    show ?thesis
    proof (cases "bf_max_pages buf < need \<or> alloc pages = None")
      case True
      then show ?thesis using w grow by auto
    next
      case False
      then obtain m where m: "alloc pages = Some m" and le: "need \<le> bf_max_pages buf" by auto
      have ge: "unat need \<le> unat pages" "unat pages < 2 ^ 16"
        using le p16(2) by (auto simp: pages_def min_def max_def u32_le_nat not_le split: if_splits)
      have lm: "length m = unat pages * 4096" using alloc m by (simp add: gives_pages_def)
      have cap: "unat (bf_size buf) + unat sz \<le> unat pages * 4096"
      proof -
        have "unat sz \<le> (unat sz + 4095) div 4096 * 4096" by simp
        then have "unat (bf_size buf) + unat sz \<le> unat need * 4096" using p16(3) need by simp
        then show ?thesis using ge(1) by (meson le_trans mult_le_mono1)
      qed
      then obtain m' where m': "blit 0 (take (unat (bf_size buf)) (bf_data buf)) m = Some m'" "length m' = length m"
        "buffer_ok (buf\<lparr>bf_lock := True, bf_data := m', bf_pages := pages\<rparr>)"
        "contents (buf\<lparr>bf_lock := True, bf_data := m', bf_pages := pages\<rparr>) = contents buf"
        using buffer_grow [of "buf\<lparr>bf_lock := True\<rparr>" m pages] ok(1) lm ge(2) by auto
      then show ?thesis
        using buffer_append_correct [OF m'(3), of src sz] m w le cap src(1) lm by auto
    qed
  qed
qed

section \<open>The interface of a byte queue\<close>

datatype queue_op = Put "u8 list" | Get u32

text \<open>\<open>put\<close> may fail; \<open>get\<close> returns as many bytes as there are, at most the number asked for.\<close>

locale byte_queue =
  fixes ok :: "'b \<Rightarrow> bool"
    and queued :: "'b \<Rightarrow> u8 list"
    and put :: "'b \<Rightarrow> u8 list \<Rightarrow> 'b option"
    and get :: "'b \<Rightarrow> u32 \<Rightarrow> (u8 list \<times> 'b) option"
  assumes put_queued: "ok b \<Longrightarrow> put b xs = Some b' \<Longrightarrow> ok b' \<and> queued b' = queued b @ xs"
    and get_queued: "ok b \<Longrightarrow> \<exists>b'. get b n = Some (take (unat n) (queued b), b') \<and> ok b' \<and> queued b' = drop (unat n) (queued b)"
begin

text \<open>The bytes put in, the bytes got out and the queue after a sequence of operations; a failed \<open>put\<close> stops it.\<close>

fun run :: "'b \<Rightarrow> queue_op list \<Rightarrow> (u8 list \<times> u8 list \<times> 'b) option" where
  "run b [] = Some ([], [], b)"
| "run b (Put xs # ops) =
     (case put b xs of None \<Rightarrow> None | Some b1 \<Rightarrow>
        (case run b1 ops of None \<Rightarrow> None | Some (i, out, b2) \<Rightarrow> Some (xs @ i, out, b2)))"
| "run b (Get n # ops) =
     (case get b n of None \<Rightarrow> None | Some (ys, b1) \<Rightarrow>
        (case run b1 ops of None \<Rightarrow> None | Some (i, out, b2) \<Rightarrow> Some (i, ys @ out, b2)))"

lemma fifo:
  assumes "ok b" "run b ops = Some (i, out, b')"
  shows "ok b' \<and> queued b @ i = out @ queued b'"
  using assms
proof (induction b ops arbitrary: i out b' rule: run.induct)
  case (2 b xs ops)
  then obtain b1 i1 where b1: "put b xs = Some b1" "run b1 ops = Some (i1, out, b')" "i = xs @ i1"
    by (auto split: option.splits)
  then have "ok b1 \<and> queued b1 = queued b @ xs" using put_queued "2.prems"(1) by blast
  then show ?case using "2.IH" [OF b1(1) _ b1(2)] b1(3) by auto
next
  case (3 b n ops)
  obtain b1 where b1: "get b n = Some (take (unat n) (queued b), b1)" "ok b1" "queued b1 = drop (unat n) (queued b)"
    using get_queued "3.prems"(1) by blast
  then obtain out1 where out: "run b1 ops = Some (i, out1, b')" "out = take (unat n) (queued b) @ out1"
    using "3.prems"(2) by (auto split: option.splits)
  have "ok b' \<and> queued b1 @ i = out1 @ queued b'" using "3.IH" [OF b1(1) refl b1(2) out(1)] .
  then show ?case using b1(3) out(2) by (metis append.assoc append_take_drop_id)
qed simp

lemma get_all: "ok b \<Longrightarrow> length (queued b) \<le> unat n \<Longrightarrow> \<exists>b'. get b n = Some (queued b, b') \<and> queued b' = []"
  using get_queued [of b n] by auto

end

text \<open>The allocations of the right size.\<close>

definition sized :: "vm_alloc \<Rightarrow> vm_alloc" where
  "sized alloc n = (case alloc n of None \<Rightarrow> None | Some m \<Rightarrow> if length m = unat n * 4096 then Some m else None)"

lemma sized_gives_pages [simp]: "gives_pages (sized alloc)"
  by (auto simp: gives_pages_def sized_def split: option.splits if_splits)

lemma sized_id: "gives_pages alloc \<Longrightarrow> sized alloc = alloc"
  by (auto simp: gives_pages_def sized_def fun_eq_iff split: option.splits)

definition buffer_usable :: "buffer \<Rightarrow> bool" where
  "buffer_usable buf \<longleftrightarrow> buffer_ok buf \<and> \<not> bf_lock buf"

definition buffer_put :: "vm_alloc \<Rightarrow> buffer \<Rightarrow> u8 list \<Rightarrow> buffer option" where
  "buffer_put alloc buf xs =
     (if length xs \<le> 2 ^ 28
      then (case buffer_write (sized alloc) buf xs (of_nat (length xs)) of
              Ret (n, _, buf') \<Rightarrow> if n = - 1 then None else Some buf' | _ \<Rightarrow> None)
      else None)"

definition buffer_get :: "buffer \<Rightarrow> u32 \<Rightarrow> (u8 list \<times> buffer) option" where
  "buffer_get buf n = (case buffer_pop buf n of Ret r \<Rightarrow> Some r | _ \<Rightarrow> None)"

interpretation buf: byte_queue buffer_usable contents "buffer_put alloc" buffer_get for alloc
proof
  fix b xs b' assume b: "buffer_usable b" and put: "buffer_put alloc b xs = Some b'"
  then have small: "length xs \<le> 2 ^ 28" by (auto simp: buffer_put_def split: if_splits)
  then have "length xs = unat (of_nat (length xs) :: u32)" by (simp add: unat_of_nat_u32)
  then show "buffer_usable b' \<and> contents b' = contents b @ xs"
    using buffer_write_correct [OF sized_gives_pages, of b xs "of_nat (length xs)" alloc] b put small
    by (auto simp: buffer_usable_def buffer_put_def split: if_splits)
next
  show "\<exists>b'. buffer_get b n = Some (take (unat n) (contents b), b') \<and> buffer_usable b' \<and> contents b' = drop (unat n) (contents b)"
    if "buffer_usable b" for b n
    using buffer_pop_correct [of b n] that by (auto simp: buffer_usable_def buffer_get_def)
qed

section \<open>Properties\<close>

text \<open>A sequence of \<^verbatim>\<open>buffer_write\<close> and \<^verbatim>\<open>buffer_pop\<close> calls, with the bytes written and the bytes popped.\<close>

inductive buffer_run :: "vm_alloc \<Rightarrow> buffer \<Rightarrow> u8 list \<Rightarrow> u8 list \<Rightarrow> buffer \<Rightarrow> bool" for alloc buf where
  start: "buffer_run alloc buf [] [] buf"
| put: "buffer_run alloc buf i out b \<Longrightarrow> length xs \<le> 2 ^ 28 \<Longrightarrow>
    buffer_write alloc b xs (of_nat (length xs)) = Ret (n, e, b') \<Longrightarrow> n \<noteq> - 1 \<Longrightarrow> buffer_run alloc buf (i @ xs) out b'"
| taken: "buffer_run alloc buf i out b \<Longrightarrow> buffer_pop b n = Ret (ys, b') \<Longrightarrow> buffer_run alloc buf i (out @ ys) b'"

lemma buffer_run_fifo:
  assumes "buffer_run alloc buf i out b" "gives_pages alloc" "buffer_usable buf"
  shows "buffer_usable b \<and> contents buf @ i = out @ contents b"
  using assms
proof induction
  case (put i out b xs n e b')
  then have "buffer_put alloc b xs = Some b'" by (simp add: buffer_put_def sized_id)
  then show ?case using buf.put_queued put by (metis append.assoc)
next
  case (taken i out b n ys b')
  then have "buffer_get b n = Some (ys, b')" by (simp add: buffer_get_def)
  then have "ys = take (unat n) (contents b) \<and> buffer_usable b' \<and> contents b' = drop (unat n) (contents b)"
    using buf.get_queued [of b n] taken by auto
  then show ?case using taken by (metis append.assoc append_take_drop_id)
qed simp

text \<open>
  C16. A buffer is a FIFO: whatever sequence of writes and pops succeeds, also across reallocations, the
  bytes that came out followed by the bytes still in the buffer are the bytes that were in it followed
  by the bytes written, in order, and the buffer stays well formed and unlocked.
\<close>

theorem buffer_fifo:
  assumes "gives_pages alloc" "buffer_ok buf" "\<not> bf_lock buf" "buffer_run alloc buf written popped buf'"
  shows "buffer_ok buf' \<and> \<not> bf_lock buf' \<and> contents buf @ written = popped @ contents buf'"
  using buffer_run_fifo [OF assms(4,1)] assms(2,3) by (simp add: buffer_usable_def)

definition zero_pages :: vm_alloc where
  "zero_pages n = Some (replicate (unat n * 4096) 0)"

definition fresh_buffer :: buffer where
  "fresh_buffer = \<lparr>bf_data = replicate 4096 0, bf_lock = False, bf_size = 0, bf_pages = 1, bf_max_pages = 150\<rparr>"

lemma zero_pages_ok: "gives_pages zero_pages"
  by (simp add: gives_pages_def zero_pages_def)

lemma fresh_buffer_ok: "buffer_ok fresh_buffer" "\<not> bf_lock fresh_buffer" "contents fresh_buffer = []"
  by (simp_all add: fresh_buffer_def buffer_ok_def contents_def)

theorem buffer_fifo_witness:
  "\<exists>buf'. buffer_run zero_pages fresh_buffer [1, 2, 3] [1, 2] buf' \<and> contents buf' = [3]"
proof -
  obtain b1 where b1: "buffer_write zero_pages fresh_buffer [1, 2, 3] 3 = Ret (3, None, b1)" "buffer_ok b1" "\<not> bf_lock b1"
    "contents b1 = [1, 2, 3]"
    using buffer_write_correct [OF zero_pages_ok fresh_buffer_ok(1,2), of "[1, 2, 3]" 3] fresh_buffer_ok(3)
    by (auto simp: fresh_buffer_def)
  obtain b2 where b2: "buffer_pop b1 2 = Ret ([1, 2], b2)" using buffer_pop_correct [OF b1(2,3), of 2] b1(4) by auto
  have "buffer_run zero_pages fresh_buffer ([] @ [1, 2, 3]) ([] @ [1, 2]) b2"
    by (rule buffer_run.taken [OF buffer_run.put [OF buffer_run.start _ _] b2]) (use b1(1) in auto)
  then show ?thesis
    using buffer_fifo [OF zero_pages_ok fresh_buffer_ok(1,2), of "[1, 2, 3]" "[1, 2]" b2] fresh_buffer_ok(3) by auto
qed

text \<open>
  \<^verbatim>\<open>buffer_write\<close> appends all bytes, growing the buffer if needed, or fails because the data does not fit
  in the pages there are; a failure leaves the contents alone but the lock taken, so every later call
  on the buffer spins forever.
\<close>

lemma buffer_write_result:
  assumes "gives_pages alloc" "buffer_ok buf" "\<not> bf_lock buf" "length src = unat sz" "unat sz \<le> 2 ^ 28"
  shows "(\<exists>buf'. buffer_write alloc buf src sz = Ret (sz, None, buf') \<and> buffer_ok buf' \<and> contents buf' = contents buf @ src) \<or>
    (\<exists>e buf'. buffer_write alloc buf src sz = Ret (- 1, e, buf') \<and>
       unat (bf_pages buf) * 4096 < unat (bf_size buf) + unat sz \<and> contents buf' = contents buf \<and>
       (\<forall>xs n k. buffer_write alloc buf' xs n = Spin \<and> buffer_read buf' n k = Spin \<and> buffer_pop buf' n = Spin \<and>
          buffer_size buf' = Spin))"
  using buffer_write_correct [OF assms]
  by (auto simp: buffer_write_def buffer_read_def buffer_pop_def buffer_size_def)

lemma buffer_write_result_example:
  "\<exists>e buf'. buffer_write zero_pages (fresh_buffer\<lparr>bf_max_pages := 1\<rparr>) (replicate 5000 7) 5000 = Ret (- 1, e, buf') \<and>
     buffer_pop buf' 1 = Spin"
proof -
  let ?b = "fresh_buffer\<lparr>bf_max_pages := 1\<rparr>"
  have "buffer_write zero_pages ?b (replicate 5000 7) 5000 = Ret (- 1, Some EFBIG, ?b\<lparr>bf_lock := True\<rparr>)"
    by (simp add: buffer_write_def fresh_buffer_def PAGE_SIZE_def RDIV_def Let_def)
  then show ?thesis
    using buffer_write_result [OF zero_pages_ok, of ?b "replicate 5000 7" 5000]
    by (auto simp: fresh_buffer_def buffer_ok_def)
qed

end
