(* ===== verification/Vfs_Types.thy ===== *)
theory Vfs_Types
  imports CString "HOL-Library.Monad_Syntax"
begin

text \<open>
  The data of the virtual file system: \<^verbatim>\<open>src/fs/vfs.h\<close> and \<^verbatim>\<open>src/fs/mount.h\<close>. Function pointers are
  addresses; the code behind them is a parameter (\<open>drivers\<close>), because it belongs to the file system that
  is mounted. A file is named by its position in the caller's file table, and a pointer to a mount point
  is its address. \<open>None\<close> as the result of an operation means that the kernel does not come back from it in
  a defined way: it writes behind a buffer, or it recurses for ever.
\<close>

section \<open>Constants\<close>

definition VFS_SEEK_SET :: int where "VFS_SEEK_SET = 0"
definition VFS_SEEK_CUR :: int where "VFS_SEEK_CUR = 1"
definition VFS_SEEK_END :: int where "VFS_SEEK_END = 2"

definition FT_IFSOCK :: u32 where "FT_IFSOCK = 0xC000"
definition FT_IFLNK :: u32 where "FT_IFLNK = 0xA000"
definition FT_IFREG :: u32 where "FT_IFREG = 0x8000"
definition FT_IFBLK :: u32 where "FT_IFBLK = 0x6000"
definition FT_IFDIR :: u32 where "FT_IFDIR = 0x4000"
definition FT_IFCHR :: u32 where "FT_IFCHR = 0x2000"
definition FT_IFIFO :: u32 where "FT_IFIFO = 0x1000"
definition FT_IFPIPE :: u32 where "FT_IFPIPE = 0x2001"

definition O_RDONLY :: u32 where "O_RDONLY = 0"
definition O_WRONLY :: u32 where "O_WRONLY = 1"
definition O_RDWR :: u32 where "O_RDWR = 2"
definition O_APPEND :: u32 where "O_APPEND = 0x0008"
definition O_CREAT :: u32 where "O_CREAT = 0x0200"
definition O_TRUNC :: u32 where "O_TRUNC = 0x0400"
definition O_EXCL :: u32 where "O_EXCL = 0x0800"
definition O_NONBLOCK :: u32 where "O_NONBLOCK = 0x4000"
definition O_CLOEXEC :: u32 where "O_CLOEXEC = 0x80000"

definition R_OK :: u32 where "R_OK = 4"
definition W_OK :: u32 where "W_OK = 2"
definition X_OK :: u32 where "X_OK = 1"

definition F_DUPFD :: int where "F_DUPFD = 0"
definition F_GETFD :: int where "F_GETFD = 1"
definition F_SETFD :: int where "F_SETFD = 2"
definition F_GETFL :: int where "F_GETFL = 3"
definition F_SETFL :: int where "F_SETFL = 4"
definition F_GETPATH :: int where "F_GETPATH = 15"

definition VFS_NAME_MAX :: nat where "VFS_NAME_MAX = 255"
definition VFS_PATH_MAX :: nat where "VFS_PATH_MAX = 1024"

lemmas vfs_consts =
  VFS_SEEK_SET_def VFS_SEEK_CUR_def VFS_SEEK_END_def FT_IFSOCK_def FT_IFLNK_def FT_IFREG_def FT_IFBLK_def
  FT_IFDIR_def FT_IFCHR_def FT_IFIFO_def FT_IFPIPE_def O_RDONLY_def O_WRONLY_def O_RDWR_def O_APPEND_def
  O_CREAT_def O_TRUNC_def O_EXCL_def O_NONBLOCK_def O_CLOEXEC_def R_OK_def W_OK_def X_OK_def F_DUPFD_def
  F_GETFD_def F_SETFD_def F_GETFL_def F_SETFL_def F_GETPATH_def VFS_NAME_MAX_def VFS_PATH_MAX_def

definition vfs_mode_to_filetype :: "u32 \<Rightarrow> u32" where
  "vfs_mode_to_filetype mode = mode AND 0xf000"

section \<open>Structures\<close>

record vfs_stat_t =
  st_dev :: u16
  st_ino :: u16
  st_mode :: u32
  st_nlink :: u16
  st_uid :: u16
  st_gid :: u16
  st_rdev :: u16
  st_size :: u32
  st_atime :: u64
  st_mtime :: u64
  st_ctime :: u64
  st_blksize :: u32
  st_blocks :: u32

record vfs_callbacks =
  cb_open :: u32
  cb_access :: u32
  cb_read :: u32
  cb_write :: u32
  cb_getdents :: u32
  cb_stat :: u32
  cb_mkdir :: u32
  cb_symlink :: u32
  cb_unlink :: u32
  cb_chmod :: u32
  cb_chown :: u32
  cb_utimes :: u32
  cb_link :: u32
  cb_readlink :: u32
  cb_rmdir :: u32
  cb_ioctl :: u32
  cb_poll :: u32
  cb_build_path_tree :: u32

definition no_callbacks :: vfs_callbacks where
  "no_callbacks = \<lparr>cb_open = 0, cb_access = 0, cb_read = 0, cb_write = 0, cb_getdents = 0, cb_stat = 0, cb_mkdir = 0,
     cb_symlink = 0, cb_unlink = 0, cb_chmod = 0, cb_chown = 0, cb_utimes = 0, cb_link = 0, cb_readlink = 0,
     cb_rmdir = 0, cb_ioctl = 0, cb_poll = 0, cb_build_path_tree = 0\<rparr>"

record vfs_mountpoint =
  mp_addr :: u32
  mp_path :: string
  mp_instance :: u32
  mp_type :: string
  mp_dev :: "nat option"
  mp_callbacks :: vfs_callbacks

record vfs_file =
  refs :: u32
  dup_target :: int
  f_type :: u16
  f_num :: nat
  f_path :: string
  f_mount_path :: string
  f_mp :: u32
  f_mount_instance :: u32
  f_callbacks :: vfs_callbacks
  f_flags :: u32
  f_offset :: u64
  f_inode :: u32
  f_meta :: u32

text \<open>A file structure after \<^verbatim>\<open>bzero\<close>.\<close>

definition zero_file :: vfs_file where
  "zero_file = \<lparr>refs = 0, dup_target = 0, f_type = 0, f_num = 0, f_path = [], f_mount_path = [], f_mp = 0, f_mount_instance = 0,
     f_callbacks = no_callbacks, f_flags = 0, f_offset = 0, f_inode = 0, f_meta = 0\<rparr>"

record vfs_callback_ctx =
  ctx_fp :: "nat option"
  ctx_orig_path :: string
  ctx_path :: string
  ctx_mp :: u32

text \<open>
  What a file system call works on: the table of open files of its caller (\<^verbatim>\<open>task->files\<close>, or
  \<^verbatim>\<open>kernel_files\<close> when \<^verbatim>\<open>task\<close> is \<^verbatim>\<open>NULL\<close>), the fields of the task it uses, the mount points, the
  numbers of the block devices whose \<^verbatim>\<open>mounted\<close> flag is set, \<^verbatim>\<open>sc_errno\<close>, and the rest of the machine, which only callbacks touch.
\<close>

record 'w vfs =
  files :: "vfs_file list"
  is_task :: bool
  cwd :: string
  euid :: u16
  ctty :: u32
  mountpoints :: "vfs_mountpoint list"
  mounted :: "nat set"
  sc_errno :: "errno option"
  world :: 'w

type_synonym ('a, 'w) call = "'w vfs \<Rightarrow> ('a \<times> 'w vfs) option"

text \<open>The code behind the function pointers, and the routines of other subsystems that the file system calls.\<close>

record 'w drivers =
  do_open :: "u32 \<Rightarrow> vfs_callback_ctx \<Rightarrow> u32 \<Rightarrow> (nat option, 'w) call"
  do_access :: "u32 \<Rightarrow> vfs_callback_ctx \<Rightarrow> u32 \<Rightarrow> (int, 'w) call"
  do_io :: "u32 \<Rightarrow> vfs_callback_ctx \<Rightarrow> u32 \<Rightarrow> u32 \<Rightarrow> (u32, 'w) call"
  do_stat :: "u32 \<Rightarrow> vfs_callback_ctx \<Rightarrow> (int \<times> vfs_stat_t, 'w) call"
  do_mode :: "u32 \<Rightarrow> vfs_callback_ctx \<Rightarrow> u32 \<Rightarrow> (int, 'w) call"
  do_plain :: "u32 \<Rightarrow> vfs_callback_ctx \<Rightarrow> (int, 'w) call"
  do_chown :: "u32 \<Rightarrow> vfs_callback_ctx \<Rightarrow> u16 \<Rightarrow> u16 \<Rightarrow> (int, 'w) call"
  do_utimes :: "u32 \<Rightarrow> vfs_callback_ctx \<Rightarrow> u32 \<Rightarrow> (int, 'w) call"
  do_link :: "u32 \<Rightarrow> vfs_callback_ctx \<Rightarrow> string \<Rightarrow> (int, 'w) call"
  do_readlink :: "u32 \<Rightarrow> vfs_callback_ctx \<Rightarrow> u32 \<Rightarrow> u32 \<Rightarrow> (int, 'w) call"
  do_ioctl :: "u32 \<Rightarrow> vfs_callback_ctx \<Rightarrow> int \<Rightarrow> u32 \<Rightarrow> (int, 'w) call"
  net_vfs_close_cb :: "nat \<Rightarrow> (int, 'w) call"
  map_user :: "u32 \<Rightarrow> 'w \<Rightarrow> bool"
  signal_segv :: "'w \<Rightarrow> 'w"
  ext2_mount :: "nat \<Rightarrow> string \<Rightarrow> (int, 'w) call"
  put_path :: "u32 \<Rightarrow> string \<Rightarrow> 'w \<Rightarrow> 'w"

text \<open>\<^verbatim>\<open>sc_errno = e; return -1;\<close>\<close>

definition fail :: "errno \<Rightarrow> (int, 'w) call" where
  "fail e s = Some (- 1, s\<lparr>sc_errno := Some e\<rparr>)"

definition fail_size :: "errno \<Rightarrow> (u32, 'w) call" where
  "fail_size e s = Some (- 1, s\<lparr>sc_errno := Some e\<rparr>)"

text \<open>Update of one file of the table.\<close>

definition upd_file :: "nat \<Rightarrow> (vfs_file \<Rightarrow> vfs_file) \<Rightarrow> 'w vfs \<Rightarrow> 'w vfs" where
  "upd_file i f s = s\<lparr>files := (files s)[i := f (files s ! i)]\<rparr>"

lemma upd_file_simps [simp]:
  "length (files (upd_file i f s)) = length (files s)" "mountpoints (upd_file i f s) = mountpoints s"
  "sc_errno (upd_file i f s) = sc_errno s" "world (upd_file i f s) = world s" "cwd (upd_file i f s) = cwd s"
  "is_task (upd_file i f s) = is_task s" "euid (upd_file i f s) = euid s" "mounted (upd_file i f s) = mounted s"
  by (simp_all add: upd_file_def)

lemma files_upd_file: "files (upd_file i f s) = (files s)[i := f (files s ! i)]"
  by (simp add: upd_file_def)

lemma nth_upd_file:
  "j < length (files s) \<Longrightarrow> files (upd_file i f s) ! j = (if j = i then f (files s ! i) else files s ! j)"
  by (simp add: upd_file_def)

end
