(* ===== verification/Path.thy ===== *)
theory Path
  imports CString
begin

text \<open>
  Path normalisation (\<^verbatim>\<open>vfs_normalize_path\<close> of \<^verbatim>\<open>src/fs/vfs.c\<close>). The code scans the path backwards and counts
  the parent directories it still has to skip; the specification resolves the segments forwards on a
  stack.
\<close>

section \<open>The scan\<close>

text \<open>
  \<open>i\<close> characters are left to look at; the slashes behind them have been replaced by NULs. \<open>nptr\<close> is the
  string that has been written to the end of the new buffer, and \<open>n_set\<close> counts its segments.
\<close>

fun norm_loop :: "string \<Rightarrow> nat \<Rightarrow> string \<Rightarrow> nat \<Rightarrow> nat \<Rightarrow> string \<times> nat" where
  "norm_loop path 0 nptr skip n_set = (nptr, n_set)"
| "norm_loop path (Suc i) nptr skip n_set =
     (if path ! i \<noteq> CHR ''/'' then norm_loop path i nptr skip n_set
      else let path = path[i := NUL]; seg = c_string (drop (Suc i) path) in
           if seg = [] \<or> strcmp seg ''.'' = 0 then norm_loop path i nptr skip n_set
           else if strcmp seg ''..'' = 0 then norm_loop path i nptr (Suc skip) n_set
           else if skip \<noteq> 0 then norm_loop path i nptr (skip - 1) n_set
           else norm_loop path i (CHR ''/'' # take (strlen seg) seg @ nptr) skip (Suc n_set))"

definition vfs_normalize_path :: "string \<Rightarrow> string \<Rightarrow> string" where
  "vfs_normalize_path orig_path cwd =
     (if strcmp orig_path ''.'' = 0 then c_string cwd
      else let path = (if hd0 orig_path \<noteq> CHR ''/''
                       then ''/'' @ c_string cwd @ ''/'' @ c_string orig_path else c_string orig_path);
               (nptr, n_set) = norm_loop path (strlen path) [] 0 0
           in if n_set = 0 then CHR ''/'' # nptr else nptr)"

section \<open>Segments\<close>

text \<open>The text between a slash and the next one, for every slash before position \<open>i\<close>.\<close>

definition seg_at :: "string \<Rightarrow> nat \<Rightarrow> string" where
  "seg_at path j = takeWhile (\<lambda>c. c \<noteq> CHR ''/'') (drop (Suc j) path)"

definition segs_upto :: "string \<Rightarrow> nat \<Rightarrow> string list" where
  "segs_upto path i = map (seg_at path) (filter (\<lambda>j. path ! j = CHR ''/'') [0..<i])"

definition segments :: "string \<Rightarrow> string list" where
  "segments path = segs_upto path (length path)"

text \<open>Forward resolution: empty segments and \<open>.\<close> mean nothing, \<open>..\<close> leaves the directory, if there is one.\<close>

definition enter :: "string list \<Rightarrow> string \<Rightarrow> string list" where
  "enter st s = (if s = [] \<or> s = ''.'' then st else if s = ''..'' then butlast st else st @ [s])"

definition resolve :: "string list \<Rightarrow> string list" where
  "resolve ss = foldl enter [] ss"

definition render :: "string list \<Rightarrow> string" where
  "render st = concat (map (\<lambda>s. CHR ''/'' # s) st)"

text \<open>The loop on the list of segments, last one first.\<close>

fun pick :: "string list \<Rightarrow> nat \<Rightarrow> string list \<Rightarrow> string list" where
  "pick [] skip acc = acc"
| "pick (s # ss) skip acc =
     (if s = [] \<or> s = ''.'' then pick ss skip acc
      else if s = ''..'' then pick ss (Suc skip) acc
      else if skip \<noteq> 0 then pick ss (skip - 1) acc
      else pick ss 0 (s # acc))"

lemma resolve_snoc: "resolve (ss @ [s]) = enter (resolve ss) s"
  by (simp add: resolve_def)

lemma pick_resolve: "pick (rev ss) skip acc = take (length (resolve ss) - skip) (resolve ss) @ acc"
proof (induction ss arbitrary: skip acc rule: rev_induct)
  case Nil
  then show ?case by (simp add: resolve_def)
next
  case (snoc s ss)
  let ?st = "resolve ss"
  consider "s = [] \<or> s = ''.''" | "s = ''..''" | "\<not> (s = [] \<or> s = ''.'' \<or> s = ''..'')" by blast
  then show ?case
  proof cases
    case 2
    then have "pick (rev (ss @ [s])) skip acc = take (length ?st - Suc skip) ?st @ acc" using snoc by simp
    moreover have "resolve (ss @ [s]) = butlast ?st" using 2 by (simp add: resolve_snoc enter_def)
    ultimately show ?thesis by (simp add: butlast_conv_take min_def)
  next
    case 3
    then have st: "resolve (ss @ [s]) = ?st @ [s]" by (simp add: resolve_snoc enter_def)
    show ?thesis using 3 snoc by (cases skip) (simp_all add: st Suc_diff_le)
  qed (use snoc in \<open>auto simp: resolve_snoc enter_def\<close>)
qed

lemma segs_upto_Suc: "segs_upto path (Suc i) = segs_upto path i @ (if path ! i = CHR ''/'' then [seg_at path i] else [])"
  by (simp add: segs_upto_def)

text \<open>The path during the scan: the slashes from position \<open>i\<close> on have become NULs.\<close>

definition cut :: "string \<Rightarrow> nat \<Rightarrow> string" where
  "cut path i = take i path @ map (\<lambda>c. if c = CHR ''/'' then NUL else c) (drop i path)"

lemma length_cut [simp]: "length (cut path i) = length path"
  by (simp add: cut_def)

lemma nth_cut: "j < length path \<Longrightarrow> cut path i ! j = (if i \<le> j \<and> path ! j = CHR ''/'' then NUL else path ! j)"
  by (auto simp: cut_def nth_append)

lemma cut_keep: "path ! i \<noteq> CHR ''/'' \<Longrightarrow> i < length path \<Longrightarrow> cut path (Suc i) = cut path i"
  by (rule nth_equalityI) (auto simp: nth_cut le_less Suc_le_eq)

lemma cut_slash: "path ! i = CHR ''/'' \<Longrightarrow> i < length path \<Longrightarrow> (cut path (Suc i))[i := NUL] = cut path i"
  by (rule nth_equalityI) (auto simp: nth_cut nth_list_update)

lemma c_string_cut:
  assumes "NUL \<notin> set path"
  shows "c_string (drop (Suc i) (cut path i)) = seg_at path i"
proof -
  have "drop (Suc i) (cut path i) = map (\<lambda>c. if c = CHR ''/'' then NUL else c) (drop (Suc i) path)"
    by (cases "i < length path") (auto simp: cut_def drop_map Suc_diff_le)
  moreover have "NUL \<notin> set xs \<Longrightarrow> c_string (map (\<lambda>c. if c = CHR ''/'' then NUL else c) xs) = takeWhile (\<lambda>c. c \<noteq> CHR ''/'') xs" for xs
    by (induction xs) (auto simp: c_string_def)
  ultimately show ?thesis using assms by (simp add: seg_at_def) (meson in_set_dropD)
qed

lemma plain_seg: "plain path \<Longrightarrow> plain (seg_at path i)"
  by (auto simp: plain_def seg_at_def dest!: set_takeWhileD in_set_dropD)

lemma plain_dots: "plain ''.''" "plain ''..''"
  by (simp_all add: plain_def NUL_def)

lemma norm_loop_pick:
  assumes "plain path" "i \<le> length path"
  shows "norm_loop (cut path i) i (render acc) skip (length acc) =
    (render (pick (rev (segs_upto path i)) skip acc), length (pick (rev (segs_upto path i)) skip acc))"
  using assms(2)
proof (induction i arbitrary: acc skip)
  case 0
  then show ?case by (simp add: segs_upto_def)
next
  case (Suc i)
  have nth: "cut path (Suc i) ! i = path ! i" using Suc.prems by (simp add: nth_cut)
  show ?case
  proof (cases "path ! i = CHR ''/''")
    case False
    then show ?thesis using Suc nth by (simp add: cut_keep segs_upto_Suc)
  next
    case True
    have seg: "c_string (drop (Suc i) (cut path i)) = seg_at path i"
      using assms(1) by (intro c_string_cut) (simp add: plain_def)
    have ps: "plain (seg_at path i)" by (rule plain_seg [OF assms(1)])
    have cons: "CHR ''/'' # seg_at path i @ render acc = render (seg_at path i # acc)" by (simp add: render_def)
    show ?thesis
      using Suc.IH [of acc] Suc.IH [of "seg_at path i # acc" 0] Suc.prems True nth
      by (simp add: cut_slash seg Let_def strcmp_plain [OF ps] plain_dots segs_upto_Suc plain_simps(1) [OF ps] cons)
  qed
qed

definition full_path :: "string \<Rightarrow> string \<Rightarrow> string" where
  "full_path orig_path cwd = (if hd0 orig_path = CHR ''/'' then orig_path else ''/'' @ cwd @ ''/'' @ orig_path)"

definition absolute :: "string list \<Rightarrow> string" where
  "absolute st = (if st = [] then ''/'' else render st)"

lemma vfs_normalize_path_spec:
  assumes "plain orig_path" "plain cwd" "orig_path \<noteq> ''.''"
  shows "vfs_normalize_path orig_path cwd = absolute (resolve (segments (full_path orig_path cwd)))"
proof -
  let ?p = "full_path orig_path cwd"
  have p: "plain ?p" using assms(1,2) by (auto simp: full_path_def plain_def NUL_def)
  have "cut ?p (length ?p) = ?p" by (simp add: cut_def)
  then have "norm_loop ?p (length ?p) [] 0 0 = (render (resolve (segments ?p)), length (resolve (segments ?p)))"
    using norm_loop_pick [OF p order_refl, of "[]" 0] by (simp add: pick_resolve segments_def render_def)
  then show ?thesis
    using assms p
    by (auto simp: vfs_normalize_path_def strcmp_plain plain_dots plain_simps Let_def full_path_def absolute_def render_def split: if_splits)
qed

section \<open>Normal form\<close>

definition normal_seg :: "string \<Rightarrow> bool" where
  "normal_seg s \<longleftrightarrow> s \<noteq> [] \<and> s \<noteq> ''.'' \<and> s \<noteq> ''..'' \<and> CHR ''/'' \<notin> set s"

lemma seg_at_no_slash: "CHR ''/'' \<notin> set (seg_at path i)"
  by (auto simp: seg_at_def dest: set_takeWhileD)

lemma resolve_normal: "\<forall>s \<in> set ss. CHR ''/'' \<notin> set s \<Longrightarrow> \<forall>s \<in> set (resolve ss). normal_seg s"
proof (induction ss rule: rev_induct)
  case (snoc s ss)
  then show ?case
    by (auto simp: resolve_snoc enter_def normal_seg_def dest: in_set_butlastD)
qed (simp add: resolve_def)

lemma resolve_id: "\<forall>s \<in> set ss. normal_seg s \<Longrightarrow> resolve ss = ss"
  by (induction ss rule: rev_induct) (auto simp: resolve_snoc enter_def normal_seg_def, simp add: resolve_def)

lemma segments_Cons:
  "segments (c # cs) = (if c = CHR ''/'' then takeWhile (\<lambda>c. c \<noteq> CHR ''/'') cs # segments cs else segments cs)"
proof -
  have "filter (\<lambda>j. (c # cs) ! j = CHR ''/'') [0..<length (c # cs)]
      = (if c = CHR ''/'' then [0] else []) @ map Suc (filter (\<lambda>j. cs ! j = CHR ''/'') [0..<length cs])"
    by (simp add: upt_conv_Cons map_Suc_upt [symmetric] filter_map comp_def del: upt_Suc)
  moreover have "map (seg_at (c # cs)) (map Suc js) = map (seg_at cs) js" for js
    by (simp add: seg_at_def)
  ultimately show ?thesis by (simp add: segments_def segs_upto_def seg_at_def del: upt_Suc)
qed

lemma segments_Nil: "segments [] = []"
  by (simp add: segments_def segs_upto_def)

lemma segments_seg: "CHR ''/'' \<notin> set s \<Longrightarrow> segments (s @ r) = segments r"
  by (induction s) (auto simp: segments_Cons)

lemma takeWhile_seg: "CHR ''/'' \<notin> set s \<Longrightarrow> r = [] \<or> hd r = CHR ''/'' \<Longrightarrow> takeWhile (\<lambda>c. c \<noteq> CHR ''/'') (s @ r) = s"
  by (induction s) (auto simp: takeWhile_eq_Nil_iff)

lemma segments_render: "\<forall>s \<in> set st. CHR ''/'' \<notin> set s \<Longrightarrow> segments (render st) = st"
proof (induction st)
  case Nil
  then show ?case by (simp add: render_def segments_def segs_upto_def)
next
  case (Cons s st)
  have "render st = [] \<or> hd (render st) = CHR ''/''" by (cases st) (simp_all add: render_def)
  moreover have "render (s # st) = CHR ''/'' # s @ render st" by (simp add: render_def)
  ultimately show ?case using Cons by (simp add: segments_Cons takeWhile_seg segments_seg)
qed

lemma hd0_absolute: "hd0 (absolute st) = CHR ''/''"
  by (cases st) (simp_all add: hd0_def absolute_def render_def)

lemma plain_absolute: "\<forall>s \<in> set st. plain s \<Longrightarrow> plain (absolute st)"
  by (auto simp: absolute_def render_def plain_def NUL_def)

lemma resolve_plain: "\<forall>s \<in> set ss. plain s \<Longrightarrow> \<forall>s \<in> set (resolve ss). plain s"
proof (induction ss rule: rev_induct)
  case (snoc s ss)
  then show ?case by (auto simp: resolve_snoc enter_def dest: in_set_butlastD)
qed (simp add: resolve_def)

lemma resolve_absolute: "\<forall>s \<in> set st. normal_seg s \<Longrightarrow> absolute (resolve (segments (absolute st))) = absolute st"
proof (cases st)
  case Nil
  have "segments ''/'' = [seg_at ''/'' 0]" by (simp add: segments_def segs_upto_def)
  then have "resolve (segments ''/'') = []" by (simp add: seg_at_def resolve_def enter_def)
  then show ?thesis using Nil by (simp add: absolute_def)
next
  case Cons
  assume n: "\<forall>s \<in> set st. normal_seg s"
  then have "segments (absolute st) = st" using Cons by (simp add: absolute_def segments_render normal_seg_def)
  then show ?thesis by (simp add: resolve_id [OF n])
qed

section \<open>Properties\<close>

text \<open>
  C18. \<^verbatim>\<open>vfs_normalize_path\<close>, which scans backwards with a skip counter, computes the forward resolution of the
  path: relative paths start at the working directory, empty segments and \<^verbatim>\<open>.\<close> are dropped, \<^verbatim>\<open>..\<close> removes the
  segment before it and stops at the root. The result is absolute and contains only normal segments.
\<close>

theorem normalize_path_resolves:
  assumes "plain orig_path" "plain cwd" "orig_path \<noteq> ''.''"
  shows "vfs_normalize_path orig_path cwd = absolute (resolve (segments (full_path orig_path cwd))) \<and>
    (\<forall>s \<in> set (resolve (segments (full_path orig_path cwd))). normal_seg s)"
proof -
  have "\<forall>s \<in> set (segments p). CHR ''/'' \<notin> set s" for p
    by (auto simp: segments_def segs_upto_def seg_at_no_slash)
  then show ?thesis using vfs_normalize_path_spec [OF assms] resolve_normal by blast
qed

theorem normalize_path_resolves_witness:
  "vfs_normalize_path ''../lib//./x/../../src'' ''/home/user'' = ''/home/src''"
proof -
  have seg: "segments (full_path ''../lib//./x/../../src'' ''/home/user'') =
      [[], ''home'', ''user'', ''..'', ''lib'', [], ''.'', ''x'', ''..'', ''..'', ''src'']"
    by (simp add: full_path_def hd0_def segments_Cons segments_Nil)
  show ?thesis
    using normalize_path_resolves [of "''../lib//./x/../../src''" "''/home/user''", unfolded seg]
    by (simp add: plain_def NUL_def resolve_def enter_def absolute_def render_def)
qed

text \<open>
  Normalisation is idempotent: a normalised path is a fixed point, whatever the working directory is.
\<close>

lemma normalize_path_idempotent:
  assumes "plain orig_path" "plain cwd" "orig_path \<noteq> ''.''" "plain cwd'"
  shows "vfs_normalize_path (vfs_normalize_path orig_path cwd) cwd' = vfs_normalize_path orig_path cwd"
proof -
  let ?st = "resolve (segments (full_path orig_path cwd))"
  have n: "\<forall>s \<in> set ?st. normal_seg s"
    by (rule resolve_normal) (auto simp: segments_def segs_upto_def seg_at_no_slash)
  have "plain (full_path orig_path cwd)" using assms(1,2) by (auto simp: full_path_def plain_def NUL_def)
  then have p: "\<forall>s \<in> set ?st. plain s"
    by (intro resolve_plain) (auto simp: segments_def segs_upto_def intro: plain_seg)
  have "plain (absolute ?st)" by (rule plain_absolute [OF p])
  moreover have "absolute ?st \<noteq> ''.''" using hd0_absolute [of ?st] by (auto simp: hd0_def)
  ultimately have "vfs_normalize_path (absolute ?st) cwd' = absolute (resolve (segments (absolute ?st)))"
    using vfs_normalize_path_spec [of "absolute ?st" cwd'] assms(4) by (simp add: full_path_def hd0_absolute)
  then show ?thesis
    by (simp only: vfs_normalize_path_spec [OF assms(1-3)] resolve_absolute [OF n])
qed

lemma normalize_path_idempotent_example:
  "vfs_normalize_path (vfs_normalize_path ''a/../b'' ''/c'') ''/elsewhere'' = vfs_normalize_path ''a/../b'' ''/c''"
  by (rule normalize_path_idempotent) (simp_all add: plain_def NUL_def)

end
