(* ===== verification/Mount.thy ===== *)
theory Mount
  imports Vfs_Types Path "HOL-Library.Sublist"
begin

text \<open>
  The list of mount points and the lookup of the one a path belongs to (\<^verbatim>\<open>src/fs/mount.c\<close>). The doubly linked
  list is the list of its elements, newest first.
\<close>

section \<open>Registration and lookup\<close>

text \<open>
  \<open>addr\<close> is what \<^verbatim>\<open>kmalloc\<close> returned. The two \<^verbatim>\<open>strcpy\<close> calls have targets of 265 and 50 bytes.
\<close>

definition vfs_mount_register ::
    "u32 \<Rightarrow> nat option \<Rightarrow> string \<Rightarrow> u32 \<Rightarrow> string \<Rightarrow> vfs_callbacks \<Rightarrow> (int, 'w) call" where
  "vfs_mount_register addr dev path inst type cbs s =
     (if 265 \<le> length (c_string path) \<or> 50 \<le> length (c_string type) then None
      else let s = (case dev of None \<Rightarrow> s | Some d \<Rightarrow> s\<lparr>mounted := insert d (mounted s)\<rparr>);
               m = \<lparr>mp_addr = addr, mp_path = c_string path, mp_instance = inst, mp_type = c_string type, mp_dev = dev,
                    mp_callbacks = cbs\<rparr>
           in Some (0, s\<lparr>mountpoints := m # mountpoints s\<rparr>))"

text \<open>
  The best match so far with the path below it. The comparison leaves out the last character of the mount path, and
  \<^verbatim>\<open>strlen(path) - plen > 0\<close> is an unsigned comparison: a path shorter than the mount path passes it, and its
  \<^verbatim>\<open>path + plen\<close> points behind the terminating NUL (\<open>None\<close>).
\<close>

definition mount_tail :: "string \<Rightarrow> nat \<Rightarrow> string option" where
  "mount_tail path plen =
     (if strlen path = plen then Some ''/'' else if strlen path < plen then None else Some (drop plen path))"

fun mount_loop ::
    "string \<Rightarrow> vfs_mountpoint list \<Rightarrow> vfs_mountpoint option \<Rightarrow> nat \<Rightarrow> string option
      \<Rightarrow> vfs_mountpoint option \<times> string option" where
  "mount_loop path [] found match_len mpath = (found, mpath)"
| "mount_loop path (cur # rest) found match_len mpath =
     (let plen = strlen (mp_path cur) in
      if strncmp path (mp_path cur) (plen - 1) = 0 \<and> match_len < plen
      then mount_loop path rest (Some cur) plen (mount_tail path plen)
      else mount_loop path rest found match_len mpath)"

text \<open>
  \<open>Some None\<close>: no mount point. \<open>None\<close>: the path below the mount point would be read from behind the
  end of the string.
\<close>

definition vfs_mount_get :: "vfs_mountpoint list \<Rightarrow> string \<Rightarrow> (vfs_mountpoint \<times> string) option option" where
  "vfs_mount_get mps path =
     (case mount_loop path mps None 0 None of
        (None, _) \<Rightarrow> Some None
      | (Some m, None) \<Rightarrow> None
      | (Some m, Some p) \<Rightarrow> Some (Some (m, p)))"

text \<open>With a \<^verbatim>\<open>NULL\<close> second argument only the mount point is looked up.\<close>

definition vfs_mount_get_mp :: "vfs_mountpoint list \<Rightarrow> string \<Rightarrow> vfs_mountpoint option" where
  "vfs_mount_get_mp mps path = fst (mount_loop path mps None 0 None)"

definition vfs_umount :: "string \<Rightarrow> (int, 'w) call" where
  "vfs_umount target s =
     (if euid s \<noteq> 0 then fail EPERM s
      else case vfs_mount_get_mp (mountpoints s) target of
        None \<Rightarrow> fail EINVAL s
      | Some m \<Rightarrow>
          if strcmp (mp_path m) ''/'' = 0 then fail EBUSY s
          else let s = s\<lparr>mountpoints := remove1 m (mountpoints s)\<rparr> in
               Some (0, case mp_dev m of None \<Rightarrow> s | Some d \<Rightarrow> s\<lparr>mounted := mounted s - {d}\<rparr>))"

section \<open>Which mount point is found\<close>

text \<open>A path matches when it agrees with the mount path up to its last character.\<close>

definition mount_matches :: "string \<Rightarrow> vfs_mountpoint \<Rightarrow> bool" where
  "mount_matches path m \<longleftrightarrow> mp_path m \<noteq> [] \<and> prefix (butlast (mp_path m)) path"

definition mount_wf :: "vfs_mountpoint list \<Rightarrow> bool" where
  "mount_wf mps \<longleftrightarrow> (\<forall>m \<in> set mps. plain (mp_path m) \<and> mp_path m \<noteq> [])"

lemma take_eq_prefix: "n \<le> length t \<Longrightarrow> take n s = take n t \<longleftrightarrow> prefix (take n t) s"
  by (metis length_take min.absorb2 prefix_def take_is_prefix append_eq_conv_conj)

lemma mount_test:
  assumes "plain p" "plain (mp_path m)" "mp_path m \<noteq> []"
  shows "strncmp p (mp_path m) (length (mp_path m) - Suc 0) = 0 \<longleftrightarrow> mount_matches p m"
proof -
  have "take (length (mp_path m) - 1) p = take (length (mp_path m) - 1) (mp_path m)
      \<longleftrightarrow> prefix (take (length (mp_path m) - 1) (mp_path m)) p" by (rule take_eq_prefix) simp
  then show ?thesis
    using assms by (simp add: strncmp_zero plain_simps mount_matches_def butlast_conv_take)
qed

text \<open>The longest of the matching mount paths, the newest one among equals.\<close>

fun best_mount :: "string \<Rightarrow> vfs_mountpoint list \<Rightarrow> vfs_mountpoint option" where
  "best_mount path [] = None"
| "best_mount path (m # ms) =
     (case best_mount path ms of
        None \<Rightarrow> if mount_matches path m then Some m else None
      | Some b \<Rightarrow> if mount_matches path m \<and> length (mp_path b) \<le> length (mp_path m) then Some m else Some b)"

lemma best_mount_none: "best_mount path ms = None \<longleftrightarrow> (\<forall>m \<in> set ms. \<not> mount_matches path m)"
  by (induction ms) (auto split: option.splits)

lemma best_mount_some:
  "best_mount path ms = Some b \<Longrightarrow>
     b \<in> set ms \<and> mount_matches path b \<and> (\<forall>m \<in> set ms. mount_matches path m \<longrightarrow> length (mp_path m) \<le> length (mp_path b))"
proof (induction ms arbitrary: b)
  case (Cons m ms)
  show ?case
  proof (cases "best_mount path ms")
    case None
    then have "\<forall>m \<in> set ms. \<not> mount_matches path m" by (simp add: best_mount_none)
    then show ?thesis using Cons.prems None by (auto split: if_splits)
  next
    case (Some c)
    then show ?thesis using Cons.IH [OF Some] Cons.prems by (fastforce split: if_splits)
  qed
qed simp

lemma mount_loop_spec:
  assumes "plain p" "mount_wf ms"
  shows "mount_loop p ms found l t =
    (case best_mount p ms of
       None \<Rightarrow> (found, t)
     | Some b \<Rightarrow> if l < length (mp_path b) then (Some b, mount_tail p (length (mp_path b))) else (found, t))"
  using assms(2)
proof (induction ms arbitrary: found l t)
  case (Cons m ms)
  have w: "plain (mp_path m)" "mp_path m \<noteq> []" "mount_wf ms" using Cons.prems by (auto simp: mount_wf_def)
  have IH: "\<And>found l t. mount_loop p ms found l t =
    (case best_mount p ms of
       None \<Rightarrow> (found, t)
     | Some b \<Rightarrow> if l < length (mp_path b) then (Some b, mount_tail p (length (mp_path b))) else (found, t))"
    by (rule Cons.IH [OF w(3)])
  show ?case
    using w(2) by (auto simp: Let_def mount_test [OF assms(1) w(1,2)] IH plain_simps(1) [OF w(1)] split: option.splits)
qed simp

lemma mount_get_mp_best: "plain p \<Longrightarrow> mount_wf ms \<Longrightarrow> vfs_mount_get_mp ms p = best_mount p ms"
proof (cases "best_mount p ms")
  case (Some b)
  moreover assume "plain p" "mount_wf ms"
  moreover have "0 < length (mp_path b)" using best_mount_some [OF Some] \<open>mount_wf ms\<close> by (auto simp: mount_wf_def)
  ultimately show ?thesis by (simp add: vfs_mount_get_mp_def mount_loop_spec)
qed (simp add: vfs_mount_get_mp_def mount_loop_spec)

lemma mount_get_best:
  assumes "plain p" "mount_wf ms"
  shows "vfs_mount_get ms p =
    (case best_mount p ms of
       None \<Rightarrow> Some None
     | Some b \<Rightarrow> (case mount_tail p (length (mp_path b)) of None \<Rightarrow> None | Some t \<Rightarrow> Some (Some (b, t))))"
proof (cases "best_mount p ms")
  case None
  then show ?thesis using assms by (simp add: vfs_mount_get_def mount_loop_spec)
next
  case (Some b)
  then have "0 < length (mp_path b)" using best_mount_some assms(2) by (auto simp: mount_wf_def)
  then show ?thesis using assms Some by (simp add: vfs_mount_get_def mount_loop_spec split: option.splits)
qed

lemma mount_register_wf:
  assumes "mount_wf (mountpoints s)" "plain path" "path \<noteq> []"
      "vfs_mount_register addr dev path inst type cbs s = Some (r, s')"
  shows "mount_wf (mountpoints s')"
  using assms by (auto simp: vfs_mount_register_def mount_wf_def Let_def plain_simps split: if_splits option.splits)

section \<open>Properties\<close>


definition test_mount :: "u32 \<Rightarrow> string \<Rightarrow> vfs_mountpoint" where
  "test_mount a p = \<lparr>mp_addr = a, mp_path = p, mp_instance = 0, mp_type = ''sysfs'', mp_dev = None, mp_callbacks = no_callbacks\<rparr>"


text \<open>
  The last character of the mount path is never compared: with \<^verbatim>\<open>/dev\<close> mounted, \<^verbatim>\<open>/del\<close> is the root of the
  device file system, a file \<^verbatim>\<open>/devices\<close> is looked up there as \<^verbatim>\<open>ices\<close>, and looking up \<^verbatim>\<open>/de\<close> reads behind the
  end of the string.
\<close>

lemma mount_get_sibling:
  "vfs_mount_get [test_mount 2 ''/dev'', test_mount 1 ''/''] ''/del'' = Some (Some (test_mount 2 ''/dev'', ''/''))"
  "vfs_mount_get [test_mount 2 ''/dev'', test_mount 1 ''/''] ''/devices'' = Some (Some (test_mount 2 ''/dev'', ''ices''))"
  "vfs_mount_get [test_mount 2 ''/dev'', test_mount 1 ''/''] ''/de'' = None"
  by (simp_all add: mount_get_best plain_def NUL_def mount_wf_def test_mount_def mount_matches_def mount_tail_def plain_simps)

end
