(* ===== verification/Block.thy ===== *)
theory Block
  imports CString
begin

text \<open>
  The block device layer (\<^verbatim>\<open>src/block/block.c\<close>, \<^verbatim>\<open>src/block/part.c\<close>). A driver's callbacks are
  parameters: \<open>read_cb\<close> and \<open>write_cb\<close> act on the state \<open>'d\<close> of the medium and return the number of blocks
  they have transferred.
\<close>

record vfs_block_dev =
  bd_name :: string
  bd_block_size :: int
  bd_number :: nat
  bd_start_offset :: u64

section \<open>Devices\<close>

text \<open>The list of devices, newest first.\<close>

fun find_dev :: "vfs_block_dev list \<Rightarrow> string \<Rightarrow> vfs_block_dev option" where
  "find_dev [] name = None"
| "find_dev (d # ds) name = (if strcmp (bd_name d) name = 0 then Some d else find_dev ds name)"

definition vfs_block_get_dev :: "vfs_block_dev list \<Rightarrow> string \<Rightarrow> vfs_block_dev option" where
  "vfs_block_get_dev devs path =
     (if strlen path < 6 \<or> strncmp path ''/dev/'' 5 \<noteq> 0 then None else find_dev devs (drop 5 path))"

section \<open>Reading and writing blocks and bytes\<close>

type_synonym 'd read_cb = "u64 \<Rightarrow> u64 \<Rightarrow> 'd \<Rightarrow> u64 \<times> u8 list"
type_synonym 'd write_cb = "u64 \<Rightarrow> u64 \<Rightarrow> u8 list \<Rightarrow> 'd \<Rightarrow> u64 \<times> 'd"

definition vfs_block_read :: "'d read_cb \<Rightarrow> vfs_block_dev \<Rightarrow> 'd read_cb" where
  "vfs_block_read rd dev start_block num_blocks = rd (start_block + bd_start_offset dev) num_blocks"

definition vfs_block_write :: "'d write_cb \<Rightarrow> vfs_block_dev \<Rightarrow> 'd write_cb" where
  "vfs_block_write wr dev start_block num_blocks = wr (start_block + bd_start_offset dev) num_blocks"

text \<open>
  The block numbers are computed in 64 bits and stored in an \<^verbatim>\<open>int\<close>; \<open>as_int\<close> is that conversion, and \<open>of_int_u64\<close>
  the one back when the number is passed on.
\<close>

definition as_int :: "u64 \<Rightarrow> int" where
  "as_int x = sint (ucast x :: u32)"

definition block_span :: "vfs_block_dev \<Rightarrow> u64 \<Rightarrow> u64 \<Rightarrow> int \<times> u64 \<times> int" where
  "block_span dev position sz =
     (let bs = word_of_int (bd_block_size dev); off = position mod bs in
      (as_int (position div bs), off, as_int ((sz + off + bs - 1) div bs)))"

text \<open>
  \<open>None\<close> is the failed assertion \<^verbatim>\<open>buffer_size >= size\<close>. The result is the return value and the bytes written to
  \<^verbatim>\<open>buf\<close>.
\<close>

definition vfs_block_sread :: "'d read_cb \<Rightarrow> vfs_block_dev \<Rightarrow> u64 \<Rightarrow> u64 \<Rightarrow> 'd \<Rightarrow> (u64 \<times> u8 list) option" where
  "vfs_block_sread rd dev position sz w =
     (let (start_block, off, num_blocks) = block_span dev position sz;
          bs = word_of_int (bd_block_size dev);
          sb = word_of_int start_block; nb = word_of_int num_blocks
      in if off = 0 \<and> sz mod bs = 0
         then let (n, bytes) = vfs_block_read rd dev sb nb w in Some (n * bs, bytes)
         else if word_of_int (signed_take_bit 31 (num_blocks * bd_block_size dev)) < sz then None
         else let (n, bytes) = vfs_block_read rd dev sb nb w in
              if n < nb then Some (- 1, []) else Some (sz, take (unat sz) (drop (unat off) bytes)))"

definition vfs_block_swrite ::
    "'d read_cb \<Rightarrow> 'd write_cb \<Rightarrow> vfs_block_dev \<Rightarrow> u64 \<Rightarrow> u64 \<Rightarrow> u8 list \<Rightarrow> 'd \<Rightarrow> u64 \<times> 'd" where
  "vfs_block_swrite rd wr dev position sz buf w =
     (let (start_block, off, num_blocks) = block_span dev position sz;
          bs = word_of_int (bd_block_size dev);
          sb = word_of_int start_block; nb = word_of_int num_blocks
      in if off = 0 \<and> sz mod bs = 0
         then let (n, w) = vfs_block_write wr dev sb nb (take (unat sz) buf) w in (n * bs, w)
         else let (n, bytes) = vfs_block_read rd dev sb nb w in
              if n < nb then (- 1, w)
              else let int_buf = take (unat off) bytes @ take (unat sz) buf @ drop (unat off + unat sz) bytes;
                       (n, w) = vfs_block_write wr dev sb nb int_buf w
                   in if n < nb then (- 1, w) else (sz, w))"

text \<open>
  The read and write callbacks of the files below \<^verbatim>\<open>/dev\<close>. Only a result of zero is an error for them: the -1 of a
  failed transfer counts as success.
\<close>

definition sfs_block_read :: "'d read_cb \<Rightarrow> vfs_block_dev option \<Rightarrow> u64 \<Rightarrow> u32 \<Rightarrow> 'd \<Rightarrow> (u32 \<times> u8 list) option" where
  "sfs_block_read rd dev offset sz w =
     (case dev of
        None \<Rightarrow> Some (- 1, [])
      | Some d \<Rightarrow>
          map_option (\<lambda>(r, bytes). (if r = 0 then - 1 else sz, bytes)) (vfs_block_sread rd d offset (ucast sz) w))"

definition sfs_block_write ::
    "'d read_cb \<Rightarrow> 'd write_cb \<Rightarrow> vfs_block_dev option \<Rightarrow> u64 \<Rightarrow> u8 list \<Rightarrow> u32 \<Rightarrow> 'd \<Rightarrow> u32 \<times> 'd" where
  "sfs_block_write rd wr dev offset src sz w =
     (case dev of
        None \<Rightarrow> (- 1, w)
      | Some d \<Rightarrow> let (r, w) = vfs_block_swrite rd wr d offset (ucast sz) src w in (if r = 0 then - 1 else sz, w))"

section \<open>Registration and partitions\<close>

text \<open>\<^verbatim>\<open>struct mbr_partition\<close>, read from the four slots of the table at offset 0x1be of block 0.\<close>

record mbr_partition =
  part_type :: u8
  part_start :: u32
  part_size :: u32

definition le32 :: "u8 list \<Rightarrow> nat \<Rightarrow> u32" where
  "le32 b i = (\<Sum>k < 4. ucast (b ! (i + k)) * 256 ^ k)"

definition read_partition :: "u8 list \<Rightarrow> nat \<Rightarrow> mbr_partition" where
  "read_partition buf i =
     (let p = 0x1be + 16 * (i - 1) in \<lparr>part_type = buf ! (p + 4), part_start = le32 buf (p + 8), part_size = le32 buf (p + 12)\<rparr>)"

definition digit :: "nat \<Rightarrow> char" where
  "digit i = char_of (48 + i)"

text \<open>
  \<^verbatim>\<open>vfs_block_register_dev\<close> without the probe; the names and start offsets of the partitions that the probe of a
  device finds; and the registration of a whole disk with its partitions. A partition has a start offset other than
  zero, so registering it does not probe again.
\<close>

definition add_dev :: "string \<Rightarrow> u64 \<Rightarrow> vfs_block_dev list \<Rightarrow> vfs_block_dev list" where
  "add_dev name start_offset devs =
     \<lparr>bd_name = c_string name, bd_block_size = 512, bd_number = Suc (length devs), bd_start_offset = start_offset\<rparr> # devs"

definition vfs_part_probe :: "'d read_cb \<Rightarrow> vfs_block_dev \<Rightarrow> 'd \<Rightarrow> vfs_block_dev list \<Rightarrow> vfs_block_dev list" where
  "vfs_part_probe rd dev w devs =
     (let (n, buf) = rd 0 1 w in
      if n < 1 then devs
      else fold (\<lambda>i devs. let part = read_partition buf i in
                  if part_type part = 0 \<or> part_size part = 0 \<or> part_start part = 0 then devs
                  else add_dev (bd_name dev @ ''p'' @ [digit i]) (ucast (part_start part)) devs) [1, 2, 3, 4] devs)"

definition vfs_block_register_dev :: "'d read_cb \<Rightarrow> string \<Rightarrow> u64 \<Rightarrow> 'd \<Rightarrow> vfs_block_dev list \<Rightarrow> vfs_block_dev list" where
  "vfs_block_register_dev rd name start_offset w devs =
     (let devs = add_dev name start_offset devs in
      if start_offset = 0 then vfs_part_probe rd (hd devs) w devs else devs)"

section \<open>Bytes of a device\<close>

text \<open>
  What a driver promises: \<open>disk\<close> is the content of the medium, and a transfer inside it moves all blocks that are asked
  for.
\<close>

definition good_driver :: "'d read_cb \<Rightarrow> 'd write_cb \<Rightarrow> ('d \<Rightarrow> u8 list) \<Rightarrow> bool" where
  "good_driver rd wr disk \<longleftrightarrow>
     (\<forall>lba n w. 512 * (unat lba + unat n) \<le> length (disk w) \<longrightarrow>
        rd lba n w = (n, take (512 * unat n) (drop (512 * unat lba) (disk w)))) \<and>
     (\<forall>lba n buf w. 512 * (unat lba + unat n) \<le> length (disk w) \<and> length buf = 512 * unat n \<longrightarrow>
        (\<exists>w'. wr lba n buf w = (n, w') \<and>
           disk w' = take (512 * unat lba) (disk w) @ buf @ drop (512 * (unat lba + unat n)) (disk w)))"

definition byte_range :: "vfs_block_dev \<Rightarrow> u64 \<Rightarrow> u64 \<Rightarrow> nat \<Rightarrow> bool" where
  "byte_range dev position sz len \<longleftrightarrow> bd_block_size dev = 512 \<and> unat position < 2 ^ 39 \<and> unat sz < 2 ^ 30 \<and>
     unat (bd_start_offset dev) < 2 ^ 40 \<and>
     512 * (unat (bd_start_offset dev) + (unat position + unat sz + 511) div 512) \<le> len"

definition first_byte :: "vfs_block_dev \<Rightarrow> u64 \<Rightarrow> nat" where
  "first_byte dev position = 512 * unat (bd_start_offset dev) + unat position"

lemma as_int_small:
  assumes "unat x < 2 ^ 31"
  shows "as_int x = int (unat x)"
proof -
  have u: "uint x < 2 ^ 31" 
  proof -
    have "int (unat x) < int (2 ^ 31)" using assms by (simp only: of_nat_less_iff)
    then show ?thesis by simp
  qed
  have "as_int x = signed_take_bit 31 (take_bit 32 (uint x))" by (simp add: as_int_def sint_uint unsigned_ucast_eq)
  also have "take_bit 32 (uint x) = int (unat x)" using u by (simp add: take_bit_int_eq_self)
  also have "signed_take_bit 31 (int (unat x)) = int (unat x)"
  proof (rule signed_take_bit_int_eq_self)
    show "- (2 ^ 31) \<le> int (unat x)" by (rule order_trans [of _ 0]) simp_all
  qed (use u in simp)
  finally show ?thesis .
qed

lemma unat_u64_add: "unat x + unat y < 2 ^ 64 \<Longrightarrow> unat ((x :: u64) + y) = unat x + unat y"
  by (subst unat_add_lem [symmetric]) simp_all

lemma block_span_eq:
  assumes "byte_range dev position sz len"
  shows "block_span dev position sz =
      (int (unat position div 512), position mod 512, int ((unat sz + unat position mod 512 + 511) div 512))"
    "unat (position mod 512) = unat position mod 512"
proof -
  have b: "bd_block_size dev = 512" "unat position < 2 ^ 39" "unat sz < 2 ^ 30" using assms by (auto simp: byte_range_def)
  show m: "unat (position mod 512) = unat position mod 512" by (simp add: unat_mod)
  have ml: "unat position mod 512 < 512" by simp
  have s1: "unat (sz + position mod 512) = unat sz + unat position mod 512"
    using b(3) ml by (subst unat_u64_add) (simp_all add: m)
  have s2: "unat (sz + position mod 512 + 511) = unat sz + unat position mod 512 + 511"
    using b(3) ml by (subst unat_u64_add) (simp_all add: s1)
  have e: "sz + position mod 512 + 512 - 1 = sz + position mod 512 + 511" by simp
  have "unat (position div 512) = unat position div 512" by (simp add: unat_div)
  moreover have "unat position div 512 < 2 ^ 31" using b(2) by (simp add: div_less_iff_less_mult)
  moreover have "unat ((sz + position mod 512 + 511) div 512) = (unat sz + unat position mod 512 + 511) div 512"
    by (simp only: unat_div s2) simp
  moreover have "(unat sz + unat position mod 512 + 511) div 512 < 2 ^ 31"
    using b(3) ml by (simp add: div_less_iff_less_mult)
  ultimately show "block_span dev position sz =
      (int (unat position div 512), position mod 512, int ((unat sz + unat position mod 512 + 511) div 512))"
    by (simp add: block_span_def b(1) Let_def e as_int_small)
qed

text \<open>The blocks that contain the bytes.\<close>

lemma byte_range_blocks:
  fixes P S base :: nat
  defines "nb \<equiv> (S + P mod 512 + 511) div 512"
  shows "P mod 512 + S \<le> 512 * nb" "base + P div 512 + nb = base + (P + S + 511) div 512"
    "P mod 512 = 0 \<Longrightarrow> S mod 512 = 0 \<Longrightarrow> 512 * nb = S"
proof -
  have p: "P = 512 * (P div 512) + P mod 512" by simp
  show "P mod 512 + S \<le> 512 * nb" unfolding nb_def by simp
  have "(P + S + 511) div 512 = (512 * (P div 512) + (S + P mod 512 + 511)) div 512"
    by (rule arg_cong [where f = "\<lambda>x. x div 512"]) (use p in linarith)
  also have "\<dots> = P div 512 + nb" unfolding nb_def by (rule div_mult_self4) simp
  finally show "base + P div 512 + nb = base + (P + S + 511) div 512" by simp
  show "P mod 512 = 0 \<Longrightarrow> S mod 512 = 0 \<Longrightarrow> 512 * nb = S" unfolding nb_def by auto
qed

lemma splice_bytes:
  assumes "off + length buf \<le> n" "a + n \<le> length D" and b: "bytes = take n (drop a D)"
  shows "take a D @ (take off bytes @ buf @ drop (off + length buf) bytes) @ drop (a + n) D =
    take (a + off) D @ buf @ drop (a + off + length buf) D"
proof -
  have "take off bytes = take off (drop a D)" using assms by (simp add: min_def)
  moreover have "drop (off + length buf) bytes = take (n - (off + length buf)) (drop (a + off + length buf) D)"
    unfolding b by (simp add: drop_take add.commute add.left_commute)
  moreover have "drop (a + n) D = drop (n - (off + length buf)) (drop (a + off + length buf) D)" using assms by (simp add: add.commute)
  ultimately show ?thesis by (simp only: take_add append_assoc append_take_drop_id)
qed

lemma byte_range_start:
  assumes "byte_range dev position sz len"
  shows "unat (word_of_int (int (unat position div 512)) + bd_start_offset dev :: u64) = unat (bd_start_offset dev) + unat position div 512"
    "unat (word_of_int (int ((unat sz + unat position mod 512 + 511) div 512)) :: u64) = (unat sz + unat position mod 512 + 511) div 512"
proof -
  have b: "unat position < 2 ^ 39" "unat sz < 2 ^ 30" "unat (bd_start_offset dev) < 2 ^ 40"
    using assms by (auto simp: byte_range_def)
  have n: "unat (of_nat k :: u64) = k" if "k < 2 ^ 64" for k using that by (simp add: unat_of_nat take_bit_nat_eq_self)
  have "unat position div 512 < 2 ^ 40" "(unat sz + unat position mod 512 + 511) div 512 < 2 ^ 40"
    using b by (simp_all add: div_less_iff_less_mult mod_less_divisor less_le_trans)
  then show "unat (word_of_int (int (unat position div 512)) + bd_start_offset dev :: u64) = unat (bd_start_offset dev) + unat position div 512"
    "unat (word_of_int (int ((unat sz + unat position mod 512 + 511) div 512)) :: u64) = (unat sz + unat position mod 512 + 511) div 512"
    using b by (simp_all add: n unat_u64_add)
qed

lemma byte_transfer:
  assumes r: "byte_range dev position sz (length (disk w))" and D: "good_driver rd wr disk"
  defines "a \<equiv> 512 * (unat (bd_start_offset dev) + unat position div 512)"
    and "nb \<equiv> (unat sz + unat position mod 512 + 511) div 512"
  shows "vfs_block_read rd dev (word_of_int (int (unat position div 512))) (word_of_int (int nb)) w =
      (word_of_int (int nb), take (512 * nb) (drop a (disk w)))"
    "length buf = 512 * nb \<Longrightarrow> \<exists>w'. vfs_block_write wr dev (word_of_int (int (unat position div 512))) (word_of_int (int nb)) buf w =
      (word_of_int (int nb), w') \<and> disk w' = take a (disk w) @ buf @ drop (a + 512 * nb) (disk w)"
    "a + unat position mod 512 = first_byte dev position" "a + 512 * nb \<le> length (disk w)"
proof -
  note u = byte_range_start [OF r, folded nb_def]
  have l: "512 * (unat (bd_start_offset dev) + unat position div 512 + nb) \<le> length (disk w)"
    using r byte_range_blocks(2) [where base = "unat (bd_start_offset dev)" and P = "unat position" and S = "unat sz", folded nb_def]
    by (simp add: byte_range_def)
  then show "a + 512 * nb \<le> length (disk w)" by (simp add: a_def algebra_simps)
  show "a + unat position mod 512 = first_byte dev position"
    unfolding a_def first_byte_def by (simp add: distrib_left)
  show "vfs_block_read rd dev (word_of_int (int (unat position div 512))) (word_of_int (int nb)) w =
      (word_of_int (int nb), take (512 * nb) (drop a (disk w)))"
    using D l unfolding good_driver_def vfs_block_read_def a_def by (metis u)
  show "\<exists>w'. vfs_block_write wr dev (word_of_int (int (unat position div 512))) (word_of_int (int nb)) buf w =
      (word_of_int (int nb), w') \<and> disk w' = take a (disk w) @ buf @ drop (a + 512 * nb) (disk w)" if "length buf = 512 * nb"
  proof -
    have "\<exists>w'. wr (word_of_int (int (unat position div 512)) + bd_start_offset dev) (word_of_int (int nb)) buf w = (word_of_int (int nb), w') \<and>
        disk w' = take (512 * (unat (bd_start_offset dev) + unat position div 512)) (disk w) @ buf @
          drop (512 * (unat (bd_start_offset dev) + unat position div 512 + nb)) (disk w)"
      using D l that unfolding good_driver_def by (metis u)
    then show ?thesis unfolding vfs_block_write_def a_def by (simp add: distrib_left)
  qed
qed

lemma u64_mult_512: "k < 2 ^ 40 \<Longrightarrow> unat (word_of_int (int k) * 512 :: u64) = 512 * k"
  by (simp add: unat_mult_lem [THEN iffD1] unat_of_nat take_bit_nat_eq_self)

text \<open>Transfers of bytes.\<close>

lemma transfer_bytes:
  assumes r: "byte_range dev position sz (length (disk w))" and D: "good_driver rd wr disk" and "length buf = unat sz"
  shows "vfs_block_sread rd dev position sz w = Some (sz, take (unat sz) (drop (first_byte dev position) (disk w))) \<and>
    (\<exists>w'. vfs_block_swrite rd wr dev position sz buf w = (sz, w') \<and>
       disk w' = take (first_byte dev position) (disk w) @ buf @ drop (first_byte dev position + unat sz) (disk w))"
proof -
  define nb where "nb = (unat sz + unat position mod 512 + 511) div 512"
  define a where "a = 512 * (unat (bd_start_offset dev) + unat position div 512)"
  define off where "off = unat position mod 512"
  note t = byte_transfer [OF r D, folded nb_def a_def off_def]
  note sp = block_span_eq [OF r, folded nb_def off_def]
  note bb = byte_range_blocks [where P = "unat position" and S = "unat sz", folded nb_def off_def]
  have bs: "bd_block_size dev = 512" "unat sz < 2 ^ 30" using r by (auto simp: byte_range_def)
  have o: "position mod 512 = 0 \<longleftrightarrow> off = 0" using sp(2) by (metis unat_eq_zero)
  have m: "sz mod 512 = 0 \<longleftrightarrow> unat sz mod 512 = 0" 
  proof -
    have "unat (sz mod 512) = unat sz mod 512" by (simp add: unat_mod)
    then show ?thesis by (metis unat_eq_zero)
  qed
  show ?thesis
  proof (cases "off = 0 \<and> unat sz mod 512 = 0")
    case True
    then have n: "512 * nb = unat sz" using bb(3) by simp
    then have "word_of_int (int nb) * 512 = sz" using u64_mult_512 [of nb] bs(2) by (simp add: word_unat_eq_iff)
    then show ?thesis
      using True t(1) t(2) [of buf] t(3) n o m assms(3)
      by (auto simp: vfs_block_sread_def vfs_block_swrite_def sp Let_def bs)
  next
    case False
    have nb31: "int nb * 512 < 2 ^ 31"
    proof -
      have "nb * 512 \<le> unat sz + off + 511" unfolding nb_def off_def by simp
      moreover have "off < 512" by (simp add: off_def)
      ultimately have "nb * 512 < 2 ^ 31" using bs(2) by simp
      then have "int (nb * 512) < int (2 ^ 31)" by (simp only: of_nat_less_iff)
      then show ?thesis by simp
    qed
    have "signed_take_bit 31 (int nb * 512) = int nb * 512"
      by (rule signed_take_bit_int_eq_self) (use nb31 in \<open>auto intro: order_trans [of _ 0]\<close>)
    then have "unat (word_of_int (signed_take_bit 31 (int nb * 512)) :: u64) = 512 * nb"
      using u64_mult_512 [of nb] nb31 by simp
    then have c: "\<not> word_of_int (signed_take_bit 31 (int nb * 512)) < sz" using bb(1) by (simp add: word_less_nat_alt)
    let ?bytes = "take (512 * nb) (drop a (disk w))"
    have rd: "take (unat sz) (drop off ?bytes) = take (unat sz) (drop (first_byte dev position) (disk w))"
      using bb(1) t(3) by (simp add: drop_take min_def add.commute)
    let ?buf = "take off ?bytes @ buf @ drop (off + unat sz) ?bytes"
    have "length ?buf = 512 * nb" using bb(1) t(4) assms(3) by simp
    from t(2) [OF this] obtain w' where w': "vfs_block_write wr dev (word_of_int (int (unat position div 512))) (word_of_int (int nb)) ?buf w =
        (word_of_int (int nb), w')" "disk w' = take a (disk w) @ ?buf @ drop (a + 512 * nb) (disk w)" by blast
    have "disk w' = take (first_byte dev position) (disk w) @ buf @ drop (first_byte dev position + unat sz) (disk w)"
      using splice_bytes [of off buf "512 * nb" a "disk w" ?bytes] bb(1) t(3,4) assms(3) w'(2) by simp
    then show ?thesis
      using False t(1) c rd w'(1) assms(3) o m sp(2) by (auto simp: vfs_block_sread_def vfs_block_swrite_def sp(1) Let_def bs)
  qed
qed

text \<open>Only the bytes that are written matter.\<close>

lemma swrite_take: "vfs_block_swrite rd wr dev position sz (take (unat sz) buf) w = vfs_block_swrite rd wr dev position sz buf w"
  by (simp only: vfs_block_swrite_def take_take min.idem)

section \<open>Properties\<close>

text \<open>
  C24. Over a driver that transfers whole blocks, a device is an array of bytes: \<^verbatim>\<open>vfs_block_sread\<close> returns exactly the bytes at a
  position, and \<^verbatim>\<open>vfs_block_swrite\<close> replaces exactly these bytes and no others of the blocks it has to rewrite,
  wherever the position and the size fall in the blocks. Positions count from the start of the partition.
\<close>

theorem block_bytes:
  assumes r: "byte_range dev position sz (length (disk w))" and D: "good_driver rd wr disk" and "length buf = unat sz"
  shows "vfs_block_sread rd dev position sz w = Some (sz, take (unat sz) (drop (first_byte dev position) (disk w))) \<and>
    (\<exists>w'. vfs_block_swrite rd wr dev position sz buf w = (sz, w') \<and>
       disk w' = take (first_byte dev position) (disk w) @ buf @ drop (first_byte dev position + unat sz) (disk w))"
  by (rule transfer_bytes [OF assms])

text \<open>A medium in memory.\<close>

definition ram_read :: "u8 list read_cb" where
  "ram_read lba n w = (n, take (512 * unat n) (drop (512 * unat lba) w))"

definition ram_write :: "u8 list write_cb" where
  "ram_write lba n buf w = (n, take (512 * unat lba) w @ buf @ drop (512 * (unat lba + unat n)) w)"

definition test_dev :: vfs_block_dev where
  "test_dev = \<lparr>bd_name = ''ide1p1'', bd_block_size = 512, bd_number = 2, bd_start_offset = 1\<rparr>"

lemma ram_driver: "good_driver ram_read ram_write id"
  by (simp add: good_driver_def ram_read_def ram_write_def)

theorem block_bytes_witness:
  "\<exists>w'. vfs_block_swrite ram_read ram_write test_dev 510 4 [1, 2, 3, 4] (replicate 2048 0) = (4, w') \<and>
     take 4 (drop 1022 w') = [1, 2, 3, 4]"
proof -
  have "byte_range test_dev 510 4 (length (id (replicate 2048 (0 :: u8))))" by (simp add: byte_range_def test_dev_def)
  then show ?thesis
    using block_bytes [of test_dev 510 4 id "replicate 2048 0" ram_read ram_write "[1, 2, 3, 4]"] ram_driver
    by (auto simp: first_byte_def test_dev_def)
qed

end
