(* ===== verification/Vfs.thy ===== *)
theory Vfs
  imports Mount Block
begin

text \<open>
  The system calls of the virtual file system (\<^verbatim>\<open>src/fs/vfs.c\<close> and \<^verbatim>\<open>vfs_mount\<close> of \<^verbatim>\<open>src/fs/mount.c\<close>), one
  definition per call. A context is freed on every path out of a call and has no further effect; it is
  the argument of the callback only.
\<close>

section \<open>File numbers\<close>

text \<open>A duplicate refers to another entry of the table; the lookup follows the references and need not end.\<close>

partial_function (option) vfs_get_from_id :: "vfs_file list \<Rightarrow> int \<Rightarrow> nat option option" where
  "vfs_get_from_id fs fd =
     (if fd < 0 \<or> int (length fs) \<le> fd then Some None
      else if refs (fs ! nat fd) = 0 then Some None
      else if dup_target (fs ! nat fd) \<noteq> 0 then vfs_get_from_id fs (dup_target (fs ! nat fd))
      else Some (Some (nat fd)))"

function alloc_loop :: "vfs_file list \<Rightarrow> nat \<Rightarrow> nat option" where
  "alloc_loop fs i =
     (if i < length fs then if refs (fs ! i) = 0 then Some i else alloc_loop fs (Suc i) else None)"
  by auto
termination by (relation "measure (\<lambda>(fs, i). length fs - i)") auto

declare alloc_loop.simps [simp del]

definition vfs_alloc_fileno :: "nat \<Rightarrow> 'w vfs \<Rightarrow> nat option \<times> 'w vfs" where
  "vfs_alloc_fileno lo s =
     (case alloc_loop (files s) lo of
        Some i \<Rightarrow> (Some i, upd_file i (\<lambda>f. f\<lparr>refs := 1, f_num := i\<rparr>) s)
      | None \<Rightarrow> (None, s\<lparr>sc_errno := Some ENFILE\<rparr>))"

section \<open>Contexts\<close>

definition vfs_context_from_fd :: "int \<Rightarrow> 'w vfs \<Rightarrow> (nat \<times> vfs_callback_ctx) option option" where
  "vfs_context_from_fd fd s =
     map_option (map_option (\<lambda>i. (i,
       \<lparr>ctx_fp = Some i, ctx_orig_path = f_path (files s ! i), ctx_path = f_mount_path (files s ! i),
        ctx_mp = f_mp (files s ! i)\<rparr>))) (vfs_get_from_id (files s) fd)"

definition vfs_context_from_path :: "string \<Rightarrow> ((vfs_mountpoint \<times> vfs_callback_ctx) option, 'w) call" where
  "vfs_context_from_path path s =
     (let orig = vfs_normalize_path path (if is_task s then cwd s else ''/'') in do {
        r \<leftarrow> vfs_mount_get (mountpoints s) orig;
        (case r of
           None \<Rightarrow> Some (None, s\<lparr>sc_errno := Some ENOENT\<rparr>)
         | Some (m, p) \<Rightarrow>
             Some (Some (m, \<lparr>ctx_fp = None, ctx_orig_path = orig, ctx_path = p, ctx_mp = mp_addr m\<rparr>), s))
      })"

section \<open>Calls on open files\<close>

definition vfs_fstat :: "'w drivers \<Rightarrow> int \<Rightarrow> (int \<times> vfs_stat_t option, 'w) call" where
  "vfs_fstat D fd s = do {
     r \<leftarrow> vfs_context_from_fd fd s;
     (case r of
        None \<Rightarrow> Some ((- 1, None), s\<lparr>sc_errno := Some EBADF\<rparr>)
      | Some (i, ctx) \<Rightarrow>
          let cb = cb_stat (f_callbacks (files s ! i)) in
          if cb = 0 then Some ((- 1, None), s\<lparr>sc_errno := Some ENOSYS\<rparr>)
          else do { ((r, st), s) \<leftarrow> do_stat D cb ctx s; Some ((r, Some st), s) })
   }"

text \<open>
  \<^verbatim>\<open>offset\<close> is a \<^verbatim>\<open>size_t\<close>, so the test \<^verbatim>\<open>offset < 0\<close> never holds. The result is the low half of the 64-bit
  file offset.
\<close>

definition seek_result :: "nat \<Rightarrow> (int, 'w) call" where
  "seek_result i s = Some (sint (ucast (f_offset (files s ! i)) :: u32), s)"

definition vfs_seek :: "'w drivers \<Rightarrow> int \<Rightarrow> u32 \<Rightarrow> int \<Rightarrow> (int, 'w) call" where
  "vfs_seek D fd offset origin s = do {
     r \<leftarrow> vfs_get_from_id (files s) fd;
     (case r of
        None \<Rightarrow> fail EBADF s
      | Some i \<Rightarrow>
          if origin = VFS_SEEK_SET then seek_result i (upd_file i (\<lambda>f. f\<lparr>f_offset := ucast offset\<rparr>) s)
          else if origin = VFS_SEEK_CUR
          then seek_result i (upd_file i (\<lambda>f. f\<lparr>f_offset := f_offset f + ucast offset\<rparr>) s)
          else if origin = VFS_SEEK_END
          then do {
            ((r, st), s) \<leftarrow> vfs_fstat D (int (f_num (files s ! i))) s;
            (case st of
               None \<Rightarrow> Some (- 1, s)
             | Some st \<Rightarrow>
                 if r < 0 then Some (- 1, s)
                 else seek_result i (upd_file i (\<lambda>f. f\<lparr>f_offset := ucast (st_size st + offset)\<rparr>) s))
          }
          else seek_result i s)
   }"

text \<open>\<^verbatim>\<open>dest\<close> and \<^verbatim>\<open>source\<close> are user addresses; the callback moves the data.\<close>

definition vfs_read :: "'w drivers \<Rightarrow> int \<Rightarrow> u32 \<Rightarrow> u32 \<Rightarrow> (u32, 'w) call" where
  "vfs_read D fd dest sz s =
     (if dest = 0 \<and> sz \<noteq> 0 then fail_size EINVAL s
      else do {
        r \<leftarrow> vfs_context_from_fd fd s;
        (case r of
           None \<Rightarrow> fail_size EBADF s
         | Some (i, ctx) \<Rightarrow>
             let file = files s ! i; cb = cb_read (f_callbacks file) in
             if f_flags file AND O_WRONLY \<noteq> 0 then fail_size EBADF s
             else if cb = 0 then fail_size ENOSYS s
             else if sz = 0 then Some (0, s)
             else do {
               (n, s) \<leftarrow> do_io D cb ctx dest sz s;
               Some (n, upd_file i (\<lambda>f. f\<lparr>f_offset := f_offset f + ucast n\<rparr>) s)
             })
      })"

definition vfs_write :: "'w drivers \<Rightarrow> int \<Rightarrow> u32 \<Rightarrow> u32 \<Rightarrow> (u32, 'w) call" where
  "vfs_write D fd source sz s =
     (if source = 0 \<and> sz \<noteq> 0 then fail_size EINVAL s
      else do {
        r \<leftarrow> vfs_context_from_fd fd s;
        (case r of
           None \<Rightarrow> fail_size EBADF s
         | Some (i, ctx) \<Rightarrow>
             let file = files s ! i; cb = cb_write (f_callbacks file) in
             if f_flags file AND O_RDONLY \<noteq> 0 then fail_size EBADF s
             else if cb = 0 then fail_size ENOSYS s
             else if sz = 0 then Some (0, s)
             else do {
               (n, s) \<leftarrow> do_io D cb ctx source sz s;
               Some (n, upd_file i (\<lambda>f. f\<lparr>f_offset := f_offset f + ucast n\<rparr>) s)
             })
      })"

definition vfs_getdents :: "'w drivers \<Rightarrow> int \<Rightarrow> u32 \<Rightarrow> u32 \<Rightarrow> (u32, 'w) call" where
  "vfs_getdents D fd dest sz s = do {
     r \<leftarrow> vfs_context_from_fd fd s;
     (case r of
        None \<Rightarrow> fail_size EBADF s
      | Some (i, ctx) \<Rightarrow>
          let cb = cb_getdents (f_callbacks (files s ! i)) in
          if cb = 0 then fail_size ENOSYS s else do_io D cb ctx dest sz s)
   }"

definition vfs_ioctl :: "'w drivers \<Rightarrow> int \<Rightarrow> int \<Rightarrow> u32 \<Rightarrow> (int, 'w) call" where
  "vfs_ioctl D fd request arg s = do {
     r \<leftarrow> vfs_context_from_fd fd s;
     (case r of
        None \<Rightarrow> fail EBADF s
      | Some (i, ctx) \<Rightarrow>
          let cb = cb_ioctl (f_callbacks (files s ! i)) in
          if cb = 0 then fail ENOSYS s else do_ioctl D cb ctx request arg s)
   }"

text \<open>The reference count of the file behind \<^verbatim>\<open>fd\<close> is decremented; at zero the entry is cleared.\<close>

partial_function (option) vfs_close :: "'w drivers \<Rightarrow> int \<Rightarrow> (int, 'w) call" where
  "vfs_close D fd s = do {
     r \<leftarrow> vfs_get_from_id (files s) fd;
     (case r of
        None \<Rightarrow> fail EBADF s
      | Some i \<Rightarrow>
          let s = upd_file i (\<lambda>f. f\<lparr>refs := refs f - 1\<rparr>) s; file = files s ! i in
          if refs file \<noteq> 0 then Some (0, s)
          else do {
            (_, s) \<leftarrow> (if dup_target file \<noteq> 0 then vfs_close D (dup_target file) s else Some (0, s));
            (r, s) \<leftarrow> (if f_type file = ucast FT_IFSOCK then net_vfs_close_cb D i s else Some (0, s));
            if r < 0 then Some (r, s) else Some (0, upd_file i (\<lambda>_. zero_file) s)
          })
   }"

text \<open>For \<^verbatim>\<open>F_GETPATH\<close>, \<open>map_user\<close> says whether the user's buffer can be mapped.\<close>

definition vfs_fcntl :: "'w drivers \<Rightarrow> int \<Rightarrow> int \<Rightarrow> int \<Rightarrow> (int, 'w) call" where
  "vfs_fcntl D fd cmd arg3 s = do {
     r \<leftarrow> vfs_get_from_id (files s) fd;
     (case r of
        None \<Rightarrow> fail EBADF s
      | Some i \<Rightarrow>
          let file = files s ! i; bits = (word_of_int arg3 :: u32) in
          if cmd = F_DUPFD then
            (case vfs_alloc_fileno (nat (max 3 arg3)) s of
               (None, s) \<Rightarrow> Some (- 1, s)
             | (Some j, s) \<Rightarrow>
                 let s = upd_file i (\<lambda>f. f\<lparr>refs := refs f + 1\<rparr>) s;
                     s = upd_file j (\<lambda>f. f\<lparr>dup_target := int (f_num (files s ! i))\<rparr>) s
                 in Some (int (f_num (files s ! j)), s))
          else if cmd = F_GETFL then Some (sint (f_flags file), s)
          else if cmd = F_SETFL then
            Some (0, upd_file i (\<lambda>f. f\<lparr>f_flags :=
              if bits AND O_NONBLOCK \<noteq> 0 then f_flags f OR O_NONBLOCK else f_flags f AND NOT O_NONBLOCK\<rparr>) s)
          else if cmd = F_GETFD then Some (sint (f_flags file AND O_CLOEXEC), s)
          else if cmd = F_SETFD then
            Some (0, upd_file i (\<lambda>f. f\<lparr>f_flags :=
              if bits AND 1 \<noteq> 0 then f_flags f OR O_CLOEXEC else f_flags f AND NOT O_CLOEXEC\<rparr>) s)
          else if cmd = F_GETPATH then
            (if \<not> is_task s then None
             else if \<not> map_user D bits (world s) then fail EFAULT (s\<lparr>world := signal_segv D (world s)\<rparr>)
             else let (str, n) = strlcpy (f_path file) VFS_PATH_MAX in
                  Some (int n, s\<lparr>world := put_path D bits str (world s)\<rparr>))
          else fail ENOSYS s)
   }"

text \<open>
  \<^verbatim>\<open>fd2\<close> is not checked: outside the table the call accesses foreign memory (\<open>None\<close>), as does the assignment to
  \<^verbatim>\<open>task->ctty\<close> without a task.
\<close>

definition dup2_finish :: "nat \<Rightarrow> nat \<Rightarrow> (int, 'w) call" where
  "dup2_finish i fd2 s =
     (let s = upd_file fd2 (\<lambda>f. f\<lparr>f_num := fd2\<rparr>) s;
          s = upd_file i (\<lambda>f. f\<lparr>refs := refs f + 1\<rparr>) s;
          s = upd_file fd2 (\<lambda>f. f\<lparr>dup_target := int (f_num (files s ! i))\<rparr>) s
      in Some (0, s))"

definition vfs_dup2 :: "'w drivers \<Rightarrow> int \<Rightarrow> int \<Rightarrow> (int, 'w) call" where
  "vfs_dup2 D fd1 fd2 s = do {
     r \<leftarrow> vfs_get_from_id (files s) fd1;
     (case r of
        None \<Rightarrow> fail EBADF s
      | Some i \<Rightarrow>
          let tty = fd2 \<le> 2 \<and> strncmp (f_path (files s ! i)) ''/dev/pts'' 8 = 0 in
          if tty \<and> \<not> is_task s then None
          else let s = (if tty then s\<lparr>ctty := f_meta (files s ! i)\<rparr> else s) in
          if fd2 < 0 \<or> int (length (files s)) \<le> fd2 then None
          else let j = nat fd2 in
          if refs (files s ! j) = 0 then dup2_finish i j (upd_file j (\<lambda>f. f\<lparr>refs := 1\<rparr>) s)
          else if 1 < sint (refs (files s ! j)) then fail EIO s
          else do {
            (_, s) \<leftarrow> vfs_close D fd2 s;
            if refs (files s ! j) = 0 then dup2_finish i j (upd_file j (\<lambda>f. f\<lparr>refs := 1\<rparr>) s)
            else if 2 < fd2 then fail EIO s
            else dup2_finish i j s
          })
   }"

section \<open>Calls on paths\<close>

text \<open>
  The common shape of the calls that take a path: find the mount point, check that it has the callback, call it.
  \<open>ctx_err\<close> is the error the call sets when there is no mount point; \<open>None\<close> keeps what
  \<^verbatim>\<open>vfs_context_from_path\<close> has set.
\<close>

definition on_path ::
    "errno option \<Rightarrow> string \<Rightarrow> (vfs_callbacks \<Rightarrow> u32) \<Rightarrow> (u32 \<Rightarrow> vfs_callback_ctx \<Rightarrow> (int, 'w) call) \<Rightarrow> (int, 'w) call" where
  "on_path ctx_err path sel call s = do {
     (r, s) \<leftarrow> vfs_context_from_path path s;
     (case r of
        None \<Rightarrow> (case ctx_err of None \<Rightarrow> Some (- 1, s) | Some e \<Rightarrow> fail e s)
      | Some (m, ctx) \<Rightarrow>
          if sel (mp_callbacks m) = 0 then fail ENOSYS s else call (sel (mp_callbacks m)) ctx s)
   }"

definition vfs_stat :: "'w drivers \<Rightarrow> string \<Rightarrow> (int \<times> vfs_stat_t option, 'w) call" where
  "vfs_stat D path s = do {
     (r, s) \<leftarrow> vfs_context_from_path path s;
     (case r of
        None \<Rightarrow> Some ((- 1, None), s\<lparr>sc_errno := Some EBADF\<rparr>)
      | Some (m, ctx) \<Rightarrow>
          let cb = cb_stat (mp_callbacks m) in
          if cb = 0 then Some ((- 1, None), s\<lparr>sc_errno := Some ENOSYS\<rparr>)
          else do { ((r, st), s) \<leftarrow> do_stat D cb ctx s; Some ((r, Some st), s) })
   }"

definition vfs_unlink :: "'w drivers \<Rightarrow> string \<Rightarrow> (int, 'w) call" where
  "vfs_unlink D path = on_path (Some EBADF) path cb_unlink (do_plain D)"

definition vfs_chmod :: "'w drivers \<Rightarrow> string \<Rightarrow> u32 \<Rightarrow> (int, 'w) call" where
  "vfs_chmod D path mode = on_path (Some EBADF) path cb_chmod (\<lambda>cb ctx. do_mode D cb ctx mode)"

definition vfs_chown :: "'w drivers \<Rightarrow> string \<Rightarrow> u16 \<Rightarrow> u16 \<Rightarrow> (int, 'w) call" where
  "vfs_chown D path uid gid = on_path (Some EBADF) path cb_chown (\<lambda>cb ctx. do_chown D cb ctx uid gid)"

definition vfs_mkdir :: "'w drivers \<Rightarrow> string \<Rightarrow> u32 \<Rightarrow> (int, 'w) call" where
  "vfs_mkdir D path mode = on_path (Some EBADF) path cb_mkdir (\<lambda>cb ctx. do_mode D cb ctx mode)"

definition vfs_access :: "'w drivers \<Rightarrow> string \<Rightarrow> u32 \<Rightarrow> (int, 'w) call" where
  "vfs_access D path amode = on_path None path cb_access (\<lambda>cb ctx. do_access D cb ctx amode)"

text \<open>The normalised path goes to the user address \<open>dest\<close>; \<open>put_path\<close> stores it in the machine's memory.\<close>

definition vfs_realpath :: "'w drivers \<Rightarrow> string \<Rightarrow> u32 \<Rightarrow> (int, 'w) call" where
  "vfs_realpath D path dest s = do {
     (r, s) \<leftarrow> vfs_context_from_path path s;
     (case r of
        None \<Rightarrow> Some (- 1, s)
      | Some (m, ctx) \<Rightarrow>
          Some (0, s\<lparr>world := put_path D dest (fst (strlcpy (ctx_orig_path ctx) VFS_PATH_MAX)) (world s)\<rparr>))
   }"

definition vfs_utimes :: "'w drivers \<Rightarrow> string \<Rightarrow> u32 \<Rightarrow> (int, 'w) call" where
  "vfs_utimes D path tv = on_path (Some EBADF) path cb_utimes (\<lambda>cb ctx. do_utimes D cb ctx tv)"

definition vfs_readlink :: "'w drivers \<Rightarrow> string \<Rightarrow> u32 \<Rightarrow> u32 \<Rightarrow> (int, 'w) call" where
  "vfs_readlink D path buf sz = on_path None path cb_readlink (\<lambda>cb ctx. do_readlink D cb ctx buf sz)"

definition vfs_rmdir :: "'w drivers \<Rightarrow> string \<Rightarrow> (int, 'w) call" where
  "vfs_rmdir D path = on_path (Some EBADF) path cb_rmdir (do_plain D)"

text \<open>The two paths have to be below the same mount point; the pointers are compared.\<close>

definition vfs_link :: "'w drivers \<Rightarrow> string \<Rightarrow> string \<Rightarrow> (int, 'w) call" where
  "vfs_link D old_path new_path s = do {
     (r, s) \<leftarrow> vfs_context_from_path old_path s;
     (case r of
        None \<Rightarrow> fail EBADF s
      | Some (m, ctx) \<Rightarrow>
          if cb_link (mp_callbacks m) = 0 then fail ENOSYS s
          else do {
            n \<leftarrow> vfs_mount_get (mountpoints s) (vfs_normalize_path new_path (if is_task s then cwd s else ''/''));
            (case n of
               None \<Rightarrow> fail EXDEV s
             | Some (m', p') \<Rightarrow>
                 if mp_addr m \<noteq> mp_addr m' then fail EXDEV s else do_link D (cb_link (mp_callbacks m)) ctx p' s)
          })
   }"

text \<open>
  \<^verbatim>\<open>strcpy\<close> into the 512-byte fields \<^verbatim>\<open>path\<close> and \<^verbatim>\<open>mount_path\<close>. The file the callback has allocated is filled in
  afterwards.
\<close>

definition open_finish :: "'w drivers \<Rightarrow> vfs_mountpoint \<Rightarrow> vfs_callback_ctx \<Rightarrow> u32 \<Rightarrow> nat \<Rightarrow> (int, 'w) call" where
  "open_finish D m ctx flags i s =
     (if 512 \<le> length (c_string (ctx_orig_path ctx)) \<or> 512 \<le> length (c_string (ctx_path ctx)) then None
      else let s = upd_file i (\<lambda>f. f\<lparr>f_path := c_string (ctx_orig_path ctx), f_mount_path := c_string (ctx_path ctx)\<rparr>) s;
               s = (if strlen (f_mount_path (files s ! i)) = 0
                    then upd_file i (\<lambda>f. f\<lparr>f_mount_instance := mp_instance m\<rparr>) s else s);
               s = upd_file i (\<lambda>f. f\<lparr>f_mp := mp_addr m, f_flags := flags\<rparr>) s
           in do {
             (_, s) \<leftarrow> (if flags AND O_APPEND \<noteq> 0
                        then vfs_seek D (int (f_num (files s ! i))) 0 VFS_SEEK_END s else Some (0, s));
             Some (int (f_num (files s ! i)), s)
           })"

definition vfs_open :: "'w drivers \<Rightarrow> string option \<Rightarrow> u32 \<Rightarrow> (int, 'w) call" where
  "vfs_open D path flags s =
     (case path of
        None \<Rightarrow> fail ENOENT s
      | Some p \<Rightarrow>
          if hd0 p = NUL then fail ENOENT s
          else do {
            (r, s) \<leftarrow> vfs_context_from_path p s;
            (case r of
               None \<Rightarrow> Some (- 1, s)
             | Some (m, ctx) \<Rightarrow>
                 if cb_open (mp_callbacks m) = 0 then fail ENOSYS s
                 else do {
                   (f, s) \<leftarrow> do_open D (cb_open (mp_callbacks m)) ctx flags s;
                   (case f of None \<Rightarrow> Some (- 1, s) | Some i \<Rightarrow> open_finish D m ctx flags i s)
                 })
          })"

section \<open>Mounting\<close>

text \<open>The directory check on the target: \<open>Inl\<close> is the value returned on failure, \<open>Inr\<close> the normalised target.\<close>

definition mount_target :: "'w drivers \<Rightarrow> string \<Rightarrow> (int + string, 'w) call" where
  "mount_target D target s =
     (if strcmp target ''/'' = 0 then Some (Inr ''/'', s)
      else do {
        (r, s) \<leftarrow> vfs_context_from_path target s;
        (case r of
           None \<Rightarrow> Some (Inl (- 1), s\<lparr>sc_errno := Some EBADF\<rparr>)
         | Some (m, ctx) \<Rightarrow>
             if cb_stat (mp_callbacks m) = 0 then Some (Inl (- 1), s\<lparr>sc_errno := Some ENOSYS\<rparr>)
             else do {
               ((r, st), s) \<leftarrow> do_stat D (cb_stat (mp_callbacks m)) ctx s;
               if r < 0 then Some (Inl (- 1), s)
               else if st_mode st AND FT_IFDIR = 0 then Some (Inl (- 1), s\<lparr>sc_errno := Some ENOTDIR\<rparr>)
               else Some (Inr (c_string (ctx_orig_path ctx)), s)
             })
      })"

definition vfs_mount :: "'w drivers \<Rightarrow> vfs_block_dev list \<Rightarrow> string \<Rightarrow> string \<Rightarrow> (int, 'w) call" where
  "vfs_mount D devs source target s =
     (if is_task s \<and> euid s \<noteq> 0 then fail EPERM s
      else do {
        (t, s) \<leftarrow> mount_target D target s;
        (case t of
           Inl r \<Rightarrow> Some (r, s)
         | Inr mnt_target \<Rightarrow>
             (case vfs_block_get_dev devs source of
                None \<Rightarrow> fail ENOENT s
              | Some d \<Rightarrow>
                  if bd_number d \<in> mounted s then fail EBUSY s else ext2_mount D (bd_number d) mnt_target s))
      })"

end
