(* ===== verification/Vfs_Props.thy ===== *)
theory Vfs_Props
  imports Vfs
begin

text \<open>
  The table of open files: the duplicates form no cycle under any sequence of calls except \<^verbatim>\<open>dup2\<close> of a file onto
  itself, so that every lookup ends; what duplicating and closing a file does to the table.
\<close>

section \<open>Lookup\<close>

lemma get_from_id_root:
  assumes "vfs_get_from_id fs fd = Some r"
  shows "case r of None \<Rightarrow> True | Some i \<Rightarrow> i < length fs \<and> refs (fs ! i) \<noteq> 0 \<and> dup_target (fs ! i) = 0"
proof (rule vfs_get_from_id.raw_induct [where P = "\<lambda>fs fd r. case r of None \<Rightarrow> True
      | Some i \<Rightarrow> i < length fs \<and> refs (fs ! i) \<noteq> 0 \<and> dup_target (fs ! i) = 0", OF _ assms])
  fix get fs fd r
  assume IH: "\<And>fs fd r. get fs fd = Some r \<Longrightarrow>
      case r of None \<Rightarrow> True | Some i \<Rightarrow> i < length fs \<and> refs (fs ! i) \<noteq> 0 \<and> dup_target (fs ! i) = 0"
    and eq: "(if fd < 0 \<or> int (length fs) \<le> fd then Some None
          else if refs (fs ! nat fd) = 0 then Some None
          else if dup_target (fs ! nat fd) \<noteq> 0 then get fs (dup_target (fs ! nat fd)) else Some (Some (nat fd))) = Some r"
  show "case r of None \<Rightarrow> True | Some i \<Rightarrow> i < length fs \<and> refs (fs ! i) \<noteq> 0 \<and> dup_target (fs ! i) = 0"
    using eq IH [of fs "dup_target (fs ! nat fd)" r] by (auto split: if_splits option.splits)
qed

lemma get_from_idD:
  assumes "vfs_get_from_id fs fd = Some (Some i)"
  shows "i < length fs" "refs (fs ! i) \<noteq> 0" "dup_target (fs ! i) = 0"
  using get_from_id_root [OF assms] by simp_all

text \<open>The references from duplicates to their targets.\<close>

definition dup_rel :: "vfs_file list \<Rightarrow> (nat \<times> nat) set" where
  "dup_rel fs = {(nat (dup_target (fs ! i)), i) | i. i < length fs \<and> refs (fs ! i) \<noteq> 0 \<and> 0 < dup_target (fs ! i)}"

definition entry_ok :: "nat \<Rightarrow> vfs_file \<Rightarrow> bool" where
  "entry_ok i f \<longleftrightarrow> (refs f = 0 \<longrightarrow> dup_target f = 0) \<and> (f_num f = i \<or> f_num f = 0)"

definition table_ok :: "vfs_file list \<Rightarrow> bool" where
  "table_ok fs \<longleftrightarrow> wf (dup_rel fs) \<and> (\<forall>i < length fs. entry_ok i (fs ! i))"

lemma table_okD: "table_ok fs \<Longrightarrow> i < length fs \<Longrightarrow> entry_ok i (fs ! i)"
  by (simp add: table_ok_def)

lemma lookup_ends:
  assumes "table_ok fs"
  shows "\<exists>r. vfs_get_from_id fs fd = Some r"
proof (cases "fd < 0")
  case True
  then show ?thesis by (subst vfs_get_from_id.simps) simp
next
  case False
  have "wf (dup_rel fs)" using assms by (simp add: table_ok_def)
  then have "\<exists>r. vfs_get_from_id fs (int i) = Some r" for i
  proof (induction i rule: wf_induct_rule)
    case (less i)
    show ?case
    proof (cases "i < length fs \<and> refs (fs ! i) \<noteq> 0 \<and> 0 < dup_target (fs ! i)")
      case True
      then have "(nat (dup_target (fs ! i)), i) \<in> dup_rel fs" by (auto simp: dup_rel_def)
      then show ?thesis using less True by (subst vfs_get_from_id.simps) fastforce
    next
      case f: False
      have "dup_target (fs ! i) < 0 \<Longrightarrow> vfs_get_from_id fs (dup_target (fs ! i)) = Some None"
        by (subst vfs_get_from_id.simps) simp
      then show ?thesis using f by (subst vfs_get_from_id.simps) (auto simp: not_less le_less)
    qed
  qed
  then show ?thesis using False by (metis nat_0_le not_less)
qed

section \<open>Changes of the table\<close>

text \<open>A file that is not a duplicate can change in any way that leaves it so.\<close>

lemma table_ok_root:
  assumes ok: "table_ok fs" and "dup_target (fs ! i) = 0 \<or> refs (fs ! i) = 0"
    and "dup_target f = 0" "entry_ok i f"
  shows "table_ok (fs[i := f])"
proof (cases "i < length fs")
  case True
  have "dup_rel (fs[i := f]) \<subseteq> dup_rel fs"
    using assms(3) True by (auto simp: dup_rel_def nth_list_update split: if_splits)
  moreover have "\<forall>k < length fs. entry_ok k (fs[i := f] ! k)"
    using ok assms(4) True by (simp add: table_ok_def nth_list_update)
  ultimately show ?thesis using ok by (auto simp: table_ok_def intro: wf_subset)
qed (use ok in \<open>simp add: list_update_beyond\<close>)

text \<open>Making a duplicate of a file that is not one.\<close>

lemma table_ok_dup:
  assumes ok: "table_ok fs" and j: "j < length fs"
    and i: "dup_target (fs ! i) = 0" "i \<noteq> j"
    and f: "dup_target f = int i \<or> dup_target f = 0" "entry_ok j f"
  shows "table_ok (fs[j := f])"
proof -
  let ?R = "dup_rel fs"
  have sub: "dup_rel (fs[j := f]) \<subseteq> insert (i, j) ?R"
    using f j by (auto simp: dup_rel_def nth_list_update split: if_splits)
  have "(a, b) \<in> ?R\<^sup>* \<Longrightarrow> b = i \<Longrightarrow> a = i" for a b
    by (induction rule: rtrancl_induct) (auto simp: dup_rel_def i)
  then have "(j, i) \<notin> ?R\<^sup>*" using i(2) by auto
  then have "wf (insert (i, j) ?R)" using ok by (simp add: table_ok_def wf_insert)
  moreover have "\<forall>k < length fs. entry_ok k (fs[j := f] ! k)"
    using ok f(2) j by (simp add: table_ok_def nth_list_update)
  ultimately show ?thesis using sub by (auto simp: table_ok_def intro: wf_subset)
qed

lemma alloc_loop_least:
  "alloc_loop fs i = Some j \<Longrightarrow> i \<le> j \<and> j < length fs \<and> refs (fs ! j) = 0 \<and> (\<forall>k. i \<le> k \<and> k < j \<longrightarrow> refs (fs ! k) \<noteq> 0)"
proof (induction fs i rule: alloc_loop.induct)
  case (1 fs i)
  show ?case
  proof (cases "i < length fs \<and> refs (fs ! i) \<noteq> 0")
    case True
    then have "alloc_loop fs (Suc i) = Some j" using 1(2) by (subst (asm) alloc_loop.simps) simp
    then have IH: "Suc i \<le> j \<and> j < length fs \<and> refs (fs ! j) = 0 \<and> (\<forall>k. Suc i \<le> k \<and> k < j \<longrightarrow> refs (fs ! k) \<noteq> 0)"
      using 1(1) True by simp
    have "refs (fs ! k) \<noteq> 0" if "i \<le> k" "k < j" for k
      using that IH True by (cases "k = i") simp_all
    then show ?thesis using IH by simp
  next
    case False
    then show ?thesis using 1(2) by (subst (asm) alloc_loop.simps) (auto split: if_splits)
  qed
qed

lemma alloc_loop_full: "alloc_loop fs i = None \<longleftrightarrow> (\<forall>k. i \<le> k \<and> k < length fs \<longrightarrow> refs (fs ! k) \<noteq> 0)"
proof (induction fs i rule: alloc_loop.induct)
  case (1 fs i)
  show ?case
  proof (cases "i < length fs \<and> refs (fs ! i) \<noteq> 0")
    case True
    then have "alloc_loop fs i = alloc_loop fs (Suc i)" by (subst alloc_loop.simps) simp
    moreover have "(\<forall>k. i \<le> k \<and> k < length fs \<longrightarrow> refs (fs ! k) \<noteq> 0) \<longleftrightarrow>
        (\<forall>k. Suc i \<le> k \<and> k < length fs \<longrightarrow> refs (fs ! k) \<noteq> 0)"
      using True by (auto simp: Suc_le_eq) (metis le_neq_implies_less)
    ultimately show ?thesis using 1 True by simp
  next
    case False
    then show ?thesis by (subst alloc_loop.simps) auto
  qed
qed

text \<open>
  What the callbacks may do to the table: they leave the entries in use alone, and an entry they take from the
  free ones is no duplicate.
\<close>

definition table_ext :: "vfs_file list \<Rightarrow> vfs_file list \<Rightarrow> bool" where
  "table_ext fs fs' \<longleftrightarrow> length fs' = length fs \<and>
     (\<forall>i < length fs.
        (refs (fs ! i) \<noteq> 0 \<longrightarrow> refs (fs' ! i) = refs (fs ! i) \<and> dup_target (fs' ! i) = dup_target (fs ! i) \<and> f_num (fs' ! i) = f_num (fs ! i)) \<and>
        (refs (fs ! i) = 0 \<longrightarrow> dup_target (fs' ! i) = 0 \<and> (f_num (fs' ! i) = i \<or> f_num (fs' ! i) = 0)))"

lemma table_ext_ok:
  assumes "table_ok fs" "table_ext fs fs'"
  shows "table_ok fs'"
proof -
  have "dup_rel fs' \<subseteq> dup_rel fs"
  proof
    fix x assume "x \<in> dup_rel fs'"
    then obtain i where i: "x = (nat (dup_target (fs' ! i)), i)" "i < length fs'" "0 < dup_target (fs' ! i)"
      by (auto simp: dup_rel_def)
    then have "refs (fs ! i) \<noteq> 0" "dup_target (fs' ! i) = dup_target (fs ! i)"
      using assms(2) by (auto simp: table_ext_def)
    then show "x \<in> dup_rel fs" using i assms(2) by (auto simp: dup_rel_def table_ext_def)
  qed
  moreover have "entry_ok i (fs' ! i)" if "i < length fs'" for i
    using that assms by (cases "refs (fs ! i) = 0") (auto simp: table_ext_def table_ok_def entry_ok_def)
  ultimately show ?thesis using assms(1) by (auto simp: table_ok_def intro: wf_subset)
qed

definition well_behaved :: "('a, 'w) call \<Rightarrow> bool" where
  "well_behaved c \<longleftrightarrow> (\<forall>s r s'. table_ok (files s) \<longrightarrow> c s = Some (r, s') \<longrightarrow> table_ext (files s) (files s'))"

definition drivers_ok :: "'w drivers \<Rightarrow> bool" where
  "drivers_ok D \<longleftrightarrow>
     (\<forall>cb ctx fl. well_behaved (do_open D cb ctx fl)) \<and> (\<forall>cb ctx a n. well_behaved (do_io D cb ctx a n)) \<and>
     (\<forall>cb ctx. well_behaved (do_stat D cb ctx)) \<and> (\<forall>cb ctx r a. well_behaved (do_ioctl D cb ctx r a)) \<and>
     (\<forall>i. well_behaved (net_vfs_close_cb D i))"

lemma drivers_okD:
  assumes "drivers_ok D" "table_ok (files s)"
  shows "do_open D cb ctx fl s = Some (x, s') \<Longrightarrow> table_ext (files s) (files s')"
    "do_io D cb ctx a n s = Some (y, s') \<Longrightarrow> table_ext (files s) (files s')"
    "do_stat D cb ctx s = Some ((z, st), s') \<Longrightarrow> table_ext (files s) (files s')"
    "do_ioctl D cb ctx rq a s = Some (r, s') \<Longrightarrow> table_ext (files s) (files s')"
    "net_vfs_close_cb D i s = Some (r, s') \<Longrightarrow> table_ext (files s) (files s')"
  using assms by (auto simp: drivers_ok_def well_behaved_def)

text \<open>An update that keeps the three fields.\<close>

definition same_refs :: "vfs_file \<Rightarrow> vfs_file \<Rightarrow> bool" where
  "same_refs f g \<longleftrightarrow> refs g = refs f \<and> dup_target g = dup_target f \<and> f_num g = f_num f"

lemma table_ok_same:
  assumes "table_ok fs" "same_refs (fs ! i) f"
  shows "table_ok (fs[i := f])"
proof (cases "i < length fs")
  case True
  then have "dup_rel (fs[i := f]) = dup_rel fs"
    using assms(2) by (auto simp: dup_rel_def nth_list_update same_refs_def split: if_splits)
  moreover have "\<forall>k < length fs. entry_ok k (fs[i := f] ! k)"
    using assms True by (auto simp: table_ok_def nth_list_update same_refs_def entry_ok_def)
  ultimately show ?thesis using assms(1) by (simp add: table_ok_def)
qed (use assms in \<open>simp add: list_update_beyond\<close>)

lemma upd_file_same: "table_ok (files s) \<Longrightarrow> same_refs (files s ! i) (f (files s ! i)) \<Longrightarrow> table_ok (files (upd_file i f s))"
  by (simp add: files_upd_file table_ok_same)

section \<open>Every call keeps the table acyclic\<close>

text \<open>A file that is found is no duplicate: the recursive call of \<^verbatim>\<open>vfs_close\<close> is never reached.\<close>

lemma vfs_close_unfold:
  assumes "vfs_get_from_id (files s) fd = Some (Some i)"
  shows "vfs_close D fd s =
    (let s = upd_file i (\<lambda>f. f\<lparr>refs := refs f - 1\<rparr>) s; file = files s ! i in
     if refs file \<noteq> 0 then Some (0, s)
     else do {
       (r, s) \<leftarrow> (if f_type file = ucast FT_IFSOCK then net_vfs_close_cb D i s else Some (0, s));
       if r < 0 then Some (r, s) else Some (0, upd_file i (\<lambda>_. zero_file) s)
     })"
  using get_from_idD [OF assms] by (subst vfs_close.simps) (simp add: assms nth_upd_file Let_def)

lemma close_ok:
  assumes D: "drivers_ok D" and ok: "table_ok (files s)" and c: "vfs_close D fd s = Some (r, s')"
  shows "table_ok (files s')" "length (files s') = length (files s)"
    "k < length (files s) \<Longrightarrow> dup_target (files s ! k) = 0 \<Longrightarrow> dup_target (files s' ! k) = 0"
proof -
  obtain x where x: "vfs_get_from_id (files s) fd = Some x" using lookup_ends [OF ok] by blast
  have "table_ok (files s') \<and> length (files s') = length (files s) \<and>
    (\<forall>k < length (files s). dup_target (files s ! k) = 0 \<longrightarrow> dup_target (files s' ! k) = 0)"
  proof (cases x)
    case None
    then show ?thesis using c x ok by (subst (asm) vfs_close.simps) (auto simp: fail_def)
  next
    case (Some i)
    have g: "vfs_get_from_id (files s) fd = Some (Some i)" using x Some by simp
    note i = get_from_idD [OF g]
    let ?s1 = "upd_file i (\<lambda>f. f\<lparr>refs := refs f - 1\<rparr>) s"
    have e: "entry_ok i (files s ! i)" using ok i(1) by (rule table_okD)
    have ok1: "table_ok (files ?s1)" unfolding files_upd_file
      by (rule table_ok_root [OF ok]) (use i e in \<open>auto simp: entry_ok_def\<close>)
    have keep1: "dup_target (files s ! k) = 0 \<Longrightarrow> dup_target (files ?s1 ! k) = 0" if "k < length (files s)" for k
      using that by (auto simp: nth_upd_file)
    show ?thesis
    proof (cases "refs (files ?s1 ! i) = 0")
      case False
      then have "s' = ?s1" using c by (simp add: vfs_close_unfold [OF g] Let_def)
      then show ?thesis using ok1 keep1 by simp
    next
      case True
      have ext: "table_ext (files ?s1) (files ?s1)"
        using ok1 by (auto simp: table_ext_def table_ok_def entry_ok_def)
      obtain r2 s2 where s2: "(if f_type (files ?s1 ! i) = ucast FT_IFSOCK then net_vfs_close_cb D i ?s1 else Some (0, ?s1)) = Some (r2, s2)"
          "(if r2 < 0 then Some (r2, s2) else Some (0, upd_file i (\<lambda>_. zero_file) s2)) = Some (r, s')"
        using c True by (auto simp: vfs_close_unfold [OF g] Let_def bind_eq_Some_conv)
      then have x2: "table_ext (files ?s1) (files s2)"
        using drivers_okD(5) [OF D ok1] ext by (auto split: if_splits)
      have ok2: "table_ok (files s2)" by (rule table_ext_ok [OF ok1 x2])
      have keep2: "dup_target (files ?s1 ! k) = 0 \<Longrightarrow> dup_target (files s2 ! k) = 0" if "k < length (files s)" for k
        using that x2 by (cases "refs (files ?s1 ! k) = 0") (auto simp: table_ext_def)
      have l2: "length (files s2) = length (files s)" using x2 by (simp add: table_ext_def)
      have d: "dup_target (files s2 ! i) = 0" using keep2 keep1 i by blast
      have z: "table_ok (files (upd_file i (\<lambda>_. zero_file) s2))" unfolding files_upd_file
        by (rule table_ok_root [OF ok2]) (auto simp: d zero_file_def entry_ok_def)
      have "s' = s2 \<or> s' = upd_file i (\<lambda>_. zero_file) s2" using s2(2) by (auto split: if_splits)
      then show ?thesis using ok2 z keep1 keep2 l2 by (auto simp: nth_upd_file zero_file_def)
    qed
  qed
  then show "table_ok (files s')" "length (files s') = length (files s)"
    "k < length (files s) \<Longrightarrow> dup_target (files s ! k) = 0 \<Longrightarrow> dup_target (files s' ! k) = 0" by auto
qed

lemma context_from_fd_Some:
  "vfs_context_from_fd fd s = Some (Some (i, ctx)) \<Longrightarrow> vfs_get_from_id (files s) fd = Some (Some i)"
  by (auto simp: vfs_context_from_fd_def)

lemma fstat_ok:
  "drivers_ok D \<Longrightarrow> table_ok (files s) \<Longrightarrow> vfs_fstat D fd s = Some (x, s') \<Longrightarrow> table_ok (files s') \<and> table_ext (files s) (files s')"
proof -
  assume a: "drivers_ok D" "table_ok (files s)" "vfs_fstat D fd s = Some (x, s')"
  have "table_ext (files s) (files s)" using a(2) by (auto simp: table_ext_def table_ok_def entry_ok_def)
  then show ?thesis using a table_ext_ok drivers_okD(3) [OF a(1,2)]
    by (fastforce simp: vfs_fstat_def bind_eq_Some_conv Let_def split: option.splits if_splits prod.splits)
qed

lemma seek_ok:
  assumes "drivers_ok D" "table_ok (files s)" "vfs_seek D fd off origin s = Some (r, s')"
  shows "table_ok (files s')"
proof -
  obtain x where x: "vfs_get_from_id (files s) fd = Some x" using lookup_ends [OF assms(2)] by blast
  show ?thesis
  proof (cases x)
    case None
    then show ?thesis using assms x by (auto simp: vfs_seek_def fail_def)
  next
    case (Some i)
    have st: "vfs_fstat D n s = Some (y, s1) \<Longrightarrow> table_ok (files s1)" for n y s1
      using fstat_ok [OF assms(1,2)] by blast
    show ?thesis
    proof (cases "origin = VFS_SEEK_END")
      case True
      then obtain r1 st1 s1 where s1: "vfs_fstat D (int (f_num (files s ! i))) s = Some ((r1, st1), s1)"
          "(case st1 of None \<Rightarrow> Some (- 1, s1)
             | Some st \<Rightarrow> if r1 < 0 then Some (- 1, s1)
                 else seek_result i (upd_file i (\<lambda>f. f\<lparr>f_offset := ucast (st_size st + off)\<rparr>) s1)) = Some (r, s')"
        using assms(3) x Some by (auto simp: vfs_seek_def bind_eq_Some_conv vfs_consts)
      then show ?thesis using st [OF s1(1)]
        by (auto simp: seek_result_def same_refs_def intro!: upd_file_same split: option.splits if_splits)
    next
      case False
      then show ?thesis using assms x Some
        by (auto simp: vfs_seek_def seek_result_def same_refs_def intro!: upd_file_same split: if_splits)
    qed
  qed
qed

lemma alloc_fileno_ok:
  assumes "table_ok (files s)" "vfs_alloc_fileno lo s = (x, s')"
  shows "table_ok (files s')"
proof (cases "alloc_loop (files s) lo")
  case (Some i)
  have i: "i < length (files s)" "refs (files s ! i) = 0" using alloc_loop_least [OF Some] by auto
  then have "dup_target (files s ! i) = 0" using table_okD [OF assms(1), of i] by (simp add: entry_ok_def)
  then have "table_ok (files (upd_file i (\<lambda>f. f\<lparr>refs := 1, f_num := i\<rparr>) s))"
    unfolding files_upd_file by (intro table_ok_root [OF assms(1)]) (auto simp: entry_ok_def)
  then show ?thesis using assms(2) Some by (auto simp: vfs_alloc_fileno_def)
qed (use assms in \<open>auto simp: vfs_alloc_fileno_def\<close>)

lemma dup_finish_ok:
  assumes ok: "table_ok (files s)" and i: "i < length (files s)" "dup_target (files s ! i) = 0"
    and j: "j < length (files s)" "i \<noteq> j" "refs (files s ! j) \<noteq> 0"
  defines "s1 \<equiv> upd_file i (\<lambda>f. f\<lparr>refs := refs f + 1\<rparr>) s"
  shows "table_ok (files (upd_file j (\<lambda>f. f\<lparr>dup_target := int (f_num (files s1 ! i))\<rparr>) s1))"
proof -
  have ei: "entry_ok i (files s ! i)" and ej: "entry_ok j (files s ! j)" using ok i(1) j(1) by (auto intro: table_okD)
  have ok1: "table_ok (files s1)" unfolding s1_def files_upd_file
    by (rule table_ok_root [OF ok]) (use i ei in \<open>auto simp: entry_ok_def\<close>)
  have n: "f_num (files s1 ! i) = f_num (files s ! i)" "dup_target (files s1 ! i) = 0" "files s1 ! j = files s ! j"
    using i j by (simp_all add: s1_def nth_upd_file)
  have e: "entry_ok j ((files s1 ! j)\<lparr>dup_target := d\<rparr>)" for d using ej j(3) n(3) by (simp add: entry_ok_def)
  have "f_num (files s ! i) = i \<or> f_num (files s ! i) = 0" using ei by (auto simp: entry_ok_def)
  then show ?thesis
    unfolding files_upd_file [of j] using n j i e
    by (intro table_ok_dup [OF ok1, of j i]) (auto simp: s1_def)
qed

lemma fcntl_ok:
  assumes D: "drivers_ok D" and ok: "table_ok (files s)" and c: "vfs_fcntl D fd cmd a s = Some (r, s')"
  shows "table_ok (files s')"
proof -
  obtain x where x: "vfs_get_from_id (files s) fd = Some x" using lookup_ends [OF ok] by blast
  show ?thesis
  proof (cases x)
    case None
    then show ?thesis using c x ok by (auto simp: vfs_fcntl_def fail_def)
  next
    case (Some i)
    have g: "vfs_get_from_id (files s) fd = Some (Some i)" using x Some by simp
    note i = get_from_idD [OF g]
    show ?thesis
    proof (cases "cmd = F_DUPFD")
      case False
      then show ?thesis using c ok
        by (auto simp: vfs_fcntl_def g Let_def fail_def same_refs_def intro!: upd_file_same split: if_splits prod.splits)
    next
      case True
      show ?thesis
      proof (cases "alloc_loop (files s) (nat (max 3 a))")
        case None
        then show ?thesis using c ok True by (auto simp: vfs_fcntl_def g Let_def vfs_alloc_fileno_def)
      next
        case (Some j)
        let ?s1 = "upd_file j (\<lambda>f. f\<lparr>refs := 1, f_num := j\<rparr>) s"
        have j: "j < length (files s)" "refs (files s ! j) = 0" using alloc_loop_least [OF Some] by auto
        have ij: "i \<noteq> j" using i(2) j(2) by auto
        have a: "vfs_alloc_fileno (nat (max 3 a)) s = (Some j, ?s1)" by (simp add: vfs_alloc_fileno_def Some)
        have "table_ok (files ?s1)" by (rule alloc_fileno_ok [OF ok a])
        from dup_finish_ok [OF this, of i j] i j ij
        have "table_ok (files (upd_file j (\<lambda>f. f\<lparr>dup_target := int (f_num (files (upd_file i (\<lambda>f. f\<lparr>refs := refs f + 1\<rparr>) ?s1) ! i))\<rparr>)
            (upd_file i (\<lambda>f. f\<lparr>refs := refs f + 1\<rparr>) ?s1)))"
          by (simp add: nth_upd_file)
        then show ?thesis using c True by (simp add: vfs_fcntl_def g Let_def a)
      qed
    qed
  qed
qed

lemma io_ok:
  assumes D: "drivers_ok D" and ok: "table_ok (files s)" and "do_io D cb ctx a n s = Some (r, s')"
  shows "table_ok (files s')" "table_ok (files (upd_file i (\<lambda>f. f\<lparr>f_offset := f_offset f + ucast r\<rparr>) s'))"
proof -
  show 1: "table_ok (files s')" by (rule table_ext_ok [OF ok drivers_okD(2) [OF D ok assms(3)]])
  show "table_ok (files (upd_file i (\<lambda>f. f\<lparr>f_offset := f_offset f + ucast r\<rparr>) s'))"
    by (rule upd_file_same [OF 1]) (simp add: same_refs_def)
qed

text \<open>Case distinction on a context that may be missing.\<close>

lemma ctx_cases:
  assumes "do { r \<leftarrow> X; (case r of None \<Rightarrow> A | Some (i, ctx) \<Rightarrow> B i ctx) } = Some y"
  obtains "X = Some None" "A = Some y" | i ctx where "X = Some (Some (i, ctx))" "B i ctx = Some y"
  using assms by (cases X; cases "the X"; auto)

lemma path_cases:
  assumes "do { (r, s) \<leftarrow> X; (case r of None \<Rightarrow> A s | Some (i, ctx) \<Rightarrow> B i ctx s) } = Some y"
  obtains s where "X = Some (None, s)" "A s = Some y" | i ctx s where "X = Some (Some (i, ctx), s)" "B i ctx s = Some y"
  using assms by (cases X; cases "fst (the X)"; auto)

lemma read_ok:
  assumes "drivers_ok D" "table_ok (files s)" "vfs_read D fd a n s = Some (r, s')"
  shows "table_ok (files s')"
proof (cases "a = 0 \<and> n \<noteq> 0")
  case False
  show ?thesis using assms(3) unfolding vfs_read_def if_not_P [OF False]
    by (rule ctx_cases) (use assms(1,2) in \<open>auto simp: fail_size_def bind_eq_Some_conv Let_def intro: io_ok split: if_splits\<close>)
qed (use assms in \<open>auto simp: vfs_read_def fail_size_def\<close>)

lemma write_ok:
  assumes "drivers_ok D" "table_ok (files s)" "vfs_write D fd a n s = Some (r, s')"
  shows "table_ok (files s')"
proof (cases "a = 0 \<and> n \<noteq> 0")
  case False
  show ?thesis using assms(3) unfolding vfs_write_def if_not_P [OF False]
    by (rule ctx_cases) (use assms(1,2) in \<open>auto simp: fail_size_def bind_eq_Some_conv Let_def intro: io_ok split: if_splits\<close>)
qed (use assms in \<open>auto simp: vfs_write_def fail_size_def\<close>)

lemma getdents_ok:
  assumes "drivers_ok D" "table_ok (files s)" "vfs_getdents D fd a n s = Some (r, s')"
  shows "table_ok (files s')"
  using assms(3) unfolding vfs_getdents_def
  by (rule ctx_cases) (use assms(1,2) in \<open>auto simp: fail_size_def Let_def intro: io_ok split: if_splits\<close>)

lemma ioctl_ok:
  assumes "drivers_ok D" "table_ok (files s)" "vfs_ioctl D fd rq a s = Some (r, s')"
  shows "table_ok (files s')"
  using assms(3) unfolding vfs_ioctl_def
  by (rule ctx_cases) (use assms(1,2) in \<open>auto simp: fail_def Let_def intro: table_ext_ok drivers_okD(4) split: if_splits\<close>)

lemma context_from_path_files: "vfs_context_from_path p s = Some (r, s') \<Longrightarrow> files s' = files s"
  unfolding vfs_context_from_path_def Let_def by (erule ctx_cases) auto

lemma open_finish_ok:
  assumes D: "drivers_ok D" and ok: "table_ok (files s)" and c: "open_finish D m ctx fl i s = Some (r, s')"
  shows "table_ok (files s')"
proof -
  let ?s1 = "upd_file i (\<lambda>f. f\<lparr>f_path := c_string (ctx_orig_path ctx), f_mount_path := c_string (ctx_path ctx)\<rparr>) s"
  let ?s2 = "if strlen (f_mount_path (files ?s1 ! i)) = 0 then upd_file i (\<lambda>f. f\<lparr>f_mount_instance := mp_instance m\<rparr>) ?s1 else ?s1"
  let ?s3 = "upd_file i (\<lambda>f. f\<lparr>f_mp := mp_addr m, f_flags := fl\<rparr>) ?s2"
  have 1: "table_ok (files ?s1)" by (rule upd_file_same [OF ok]) (simp add: same_refs_def)
  have 2: "table_ok (files ?s2)" using 1 by (auto simp: same_refs_def intro!: upd_file_same)
  have 3: "table_ok (files ?s3)" by (rule upd_file_same [OF 2]) (simp add: same_refs_def)
  obtain x where "(if fl AND O_APPEND \<noteq> 0 then vfs_seek D (int (f_num (files ?s3 ! i))) 0 VFS_SEEK_END ?s3 else Some (0, ?s3)) = Some (x, s')"
    using c by (auto simp: open_finish_def Let_def bind_eq_Some_conv split: if_splits)
  then show ?thesis using seek_ok [OF D 3] 3 by (auto split: if_splits)
qed

lemma open_ok:
  assumes D: "drivers_ok D" and ok: "table_ok (files s)" and c: "vfs_open D p fl s = Some (r, s')"
  shows "table_ok (files s')"
proof (cases "p = None \<or> hd0 (the p) = NUL")
  case True
  then show ?thesis using c ok by (cases p) (auto simp: vfs_open_def fail_def)
next
  case False
  then obtain q where q: "p = Some q" "hd0 q \<noteq> NUL" by auto
  have opened: "table_ok (files t)" if "vfs_context_from_path q s = Some (x, s1)" "do_open D cb ctx fl s1 = Some (y, t)" for x s1 cb ctx y t
  proof -
    have ok1: "table_ok (files s1)" using context_from_path_files [OF that(1)] ok by simp
    show ?thesis by (rule table_ext_ok [OF ok1 drivers_okD(1) [OF D ok1 that(2)]])
  qed
  show ?thesis using c unfolding vfs_open_def q(1) option.case if_not_P [OF q(2)]
    by (rule path_cases)
      (use ok in \<open>auto simp: fail_def bind_eq_Some_conv context_from_path_files split: if_splits option.splits
        intro: opened open_finish_ok [OF D]\<close>)
qed

lemma dup2_finish_ok:
  assumes ok: "table_ok (files s)" and i: "i < length (files s)" "dup_target (files s ! i) = 0"
    and j: "j < length (files s)" "i \<noteq> j" "refs (files s ! j) \<noteq> 0" and c: "dup2_finish i j s = Some (r, s')"
  shows "table_ok (files s')"
proof -
  let ?s1 = "upd_file j (\<lambda>f. f\<lparr>f_num := j\<rparr>) s"
  have d: "dup_rel (files ?s1) = dup_rel (files s)"
    using j(1) by (auto simp: dup_rel_def nth_upd_file split: if_splits)
  have "\<forall>k < length (files s). entry_ok k (files ?s1 ! k)"
    using ok by (auto simp: table_ok_def nth_upd_file entry_ok_def)
  then have "table_ok (files ?s1)" using ok d by (simp add: table_ok_def)
  from dup_finish_ok [OF this, of i j] i j
  have "table_ok (files (upd_file j (\<lambda>f. f\<lparr>dup_target := int (f_num (files (upd_file i (\<lambda>f. f\<lparr>refs := refs f + 1\<rparr>) ?s1) ! i))\<rparr>)
            (upd_file i (\<lambda>f. f\<lparr>refs := refs f + 1\<rparr>) ?s1)))" by (simp add: nth_upd_file)
  then show ?thesis using c by (simp add: dup2_finish_def Let_def)
qed

lemma take_entry_ok:
  assumes "table_ok (files s)" "j < length (files s)" "refs (files s ! j) = 0"
  shows "table_ok (files (upd_file j (\<lambda>f. f\<lparr>refs := 1\<rparr>) s))"
  unfolding files_upd_file using table_okD [OF assms(1,2)] assms(3)
  by (intro table_ok_root [OF assms(1)]) (auto simp: entry_ok_def)

lemma dup2_ok:
  assumes D: "drivers_ok D" and ok: "table_ok (files s)" and c: "vfs_dup2 D fd1 fd2 s = Some (r, s')"
    and self: "vfs_get_from_id (files s) fd1 \<noteq> Some (Some (nat fd2))"
  shows "table_ok (files s')"
proof -
  obtain x where x: "vfs_get_from_id (files s) fd1 = Some x" using lookup_ends [OF ok] by blast
  show ?thesis
  proof (cases x)
    case None
    then show ?thesis using c x ok by (auto simp: vfs_dup2_def fail_def)
  next
    case (Some i)
    have g: "vfs_get_from_id (files s) fd1 = Some (Some i)" using x Some by simp
    note i = get_from_idD [OF g]
    define tty where "tty \<longleftrightarrow> fd2 \<le> 2 \<and> strncmp (f_path (files s ! i)) ''/dev/pts'' 8 = 0"
    define s1 where "s1 = (if tty then s\<lparr>ctty := f_meta (files s ! i)\<rparr> else s)"
    have f1: "files s1 = files s" by (simp add: s1_def)
    define j where "j = nat fd2"
    have ij: "i \<noteq> j" using self g by (auto simp: j_def)
    have *: "\<not> (tty \<and> \<not> is_task s)" "0 \<le> fd2" "fd2 < int (length (files s))"
      "(if refs (files s ! j) = 0 then dup2_finish i j (upd_file j (\<lambda>f. f\<lparr>refs := 1\<rparr>) s1)
        else if 1 < sint (refs (files s ! j)) then fail EIO s1
        else do {
          (_, s) \<leftarrow> vfs_close D fd2 s1;
          if refs (files s ! j) = 0 then dup2_finish i j (upd_file j (\<lambda>f. f\<lparr>refs := 1\<rparr>) s)
          else if 2 < fd2 then fail EIO s else dup2_finish i j s
        }) = Some (r, s')"
      using c by (simp_all add: vfs_dup2_def g tty_def [symmetric] s1_def [symmetric] Let_def f1 j_def [symmetric] split: if_splits)
    have j: "j < length (files s)" using *(2,3) by (simp add: j_def)
    have fin0: "table_ok (files s')" if "table_ok (files t)" "length (files t) = length (files s)"
        "dup_target (files t ! i) = 0" "refs (files t ! j) = 0" "dup2_finish i j (upd_file j (\<lambda>f. f\<lparr>refs := 1\<rparr>) t) = Some (r, s')" for t
      by (rule dup2_finish_ok [OF take_entry_ok [OF that(1)], of j i])
        (use that i j ij in \<open>simp_all add: nth_upd_file\<close>)
    have fin1: "table_ok (files s')" if "table_ok (files t)" "length (files t) = length (files s)"
        "dup_target (files t ! i) = 0" "refs (files t ! j) \<noteq> 0" "dup2_finish i j t = Some (r, s')" for t
      by (rule dup2_finish_ok [OF that(1)]) (use that i j ij in simp_all)
    have closed: "table_ok (files t) \<and> length (files t) = length (files s) \<and> dup_target (files t ! i) = 0"
      if "vfs_close D fd2 s1 = Some (y, t)" for y t
      using close_ok [OF D _ that] ok i f1 by simp
    show ?thesis
    proof (cases "refs (files s ! j) = 0")
      case True
      then show ?thesis using *(4) fin0 [of s1] ok i f1 by simp
    next
      case False
      then show ?thesis using *(4) ok f1 closed fin0 fin1
        by (auto simp: fail_def bind_eq_Some_conv split: if_splits)
    qed
  qed
qed

section \<open>Sequences of calls\<close>

datatype vfs_op =
    Open "string option" u32 | Read int u32 u32 | Write int u32 u32 | Getdents int u32 u32 | Seek int u32 int
  | Fcntl int int int | Dup2 int int | Ioctl int int u32 | Fstat int | Close int

fun exec :: "'w drivers \<Rightarrow> vfs_op \<Rightarrow> 'w vfs \<Rightarrow> 'w vfs option" where
  "exec D (Open p fl) s = map_option snd (vfs_open D p fl s)"
| "exec D (Read fd a n) s = map_option snd (vfs_read D fd a n s)"
| "exec D (Write fd a n) s = map_option snd (vfs_write D fd a n s)"
| "exec D (Getdents fd a n) s = map_option snd (vfs_getdents D fd a n s)"
| "exec D (Seek fd off origin) s = map_option snd (vfs_seek D fd off origin s)"
| "exec D (Fcntl fd cmd a) s = map_option snd (vfs_fcntl D fd cmd a s)"
| "exec D (Dup2 fd1 fd2) s = map_option snd (vfs_dup2 D fd1 fd2 s)"
| "exec D (Ioctl fd rq a) s = map_option snd (vfs_ioctl D fd rq a s)"
| "exec D (Fstat fd) s = map_option snd (vfs_fstat D fd s)"
| "exec D (Close fd) s = map_option snd (vfs_close D fd s)"

text \<open>\<^verbatim>\<open>dup2\<close> of a file onto the entry that holds it.\<close>

fun self_dup :: "vfs_op \<Rightarrow> 'w vfs \<Rightarrow> bool" where
  "self_dup (Dup2 fd1 fd2) s \<longleftrightarrow> vfs_get_from_id (files s) fd1 = Some (Some (nat fd2))"
| "self_dup _ s \<longleftrightarrow> False"

inductive vfs_step :: "'w drivers \<Rightarrow> 'w vfs \<Rightarrow> 'w vfs \<Rightarrow> bool" for D where
  step: "exec D op s = Some s' \<Longrightarrow> \<not> self_dup op s \<Longrightarrow> vfs_step D s s'"

lemmas calls_ok = open_ok read_ok write_ok getdents_ok seek_ok fcntl_ok ioctl_ok close_ok(1)

lemma step_ok:
  assumes "drivers_ok D" "vfs_step D s s'" "table_ok (files s)"
  shows "table_ok (files s')"
proof -
  obtain op where "exec D op s = Some s'" "\<not> self_dup op s" using assms(2) by (auto elim: vfs_step.cases)
  then show ?thesis using assms(1,3)
    by (cases op) (auto intro: calls_ok dup2_ok dest: fstat_ok)
qed

lemma steps_ok: "(vfs_step D)\<^sup>*\<^sup>* s s' \<Longrightarrow> drivers_ok D \<Longrightarrow> table_ok (files s) \<Longrightarrow> table_ok (files s')"
  by (induction rule: rtranclp_induct) (auto intro: step_ok)

lemma fresh_table_ok: "table_ok (replicate n zero_file)"
proof -
  have "dup_rel (replicate n zero_file) = {}" by (auto simp: dup_rel_def zero_file_def)
  then show ?thesis by (simp add: table_ok_def zero_file_def entry_ok_def)
qed

section \<open>A file system with one kind of file\<close>

text \<open>Its \<^verbatim>\<open>open\<close> takes the first free entry, as the drivers of the kernel do; input and output transfer everything.\<close>

definition test_drivers :: "unit drivers" where
  "test_drivers = \<lparr>do_open = (\<lambda>_ _ _ s. Some (vfs_alloc_fileno 0 s)), do_access = (\<lambda>_ _ _ s. Some (0, s)),
     do_io = (\<lambda>_ _ _ n s. Some (n, s)), do_stat = (\<lambda>_ _ s. None), do_mode = (\<lambda>_ _ _ s. Some (0, s)),
     do_plain = (\<lambda>_ _ s. Some (0, s)), do_chown = (\<lambda>_ _ _ _ s. Some (0, s)), do_utimes = (\<lambda>_ _ _ s. Some (0, s)),
     do_link = (\<lambda>_ _ _ s. Some (0, s)), do_readlink = (\<lambda>_ _ _ _ s. Some (0, s)), do_ioctl = (\<lambda>_ _ _ _ s. Some (0, s)),
     net_vfs_close_cb = (\<lambda>_ s. Some (0, s)), map_user = (\<lambda>_ _. True), signal_segv = id,
     ext2_mount = (\<lambda>_ _ s. Some (0, s)), put_path = (\<lambda>_ _ w. w)\<rparr>"

lemma table_ext_refl: "table_ok fs \<Longrightarrow> table_ext fs fs"
  by (auto simp: table_ext_def table_ok_def entry_ok_def)

lemma alloc_fileno_ext:
  assumes "table_ok (files s)" "vfs_alloc_fileno lo s = (x, s')"
  shows "table_ext (files s) (files s')"
proof (cases "alloc_loop (files s) lo")
  case (Some i)
  have "i < length (files s)" "refs (files s ! i) = 0" using alloc_loop_least [OF Some] by auto
  moreover have "s' = upd_file i (\<lambda>f. f\<lparr>refs := 1, f_num := i\<rparr>) s" using assms(2) Some by (auto simp: vfs_alloc_fileno_def)
  ultimately show ?thesis using table_okD [OF assms(1)]
    by (simp add: table_ext_def nth_upd_file entry_ok_def)
qed (use assms table_ext_refl in \<open>auto simp: vfs_alloc_fileno_def\<close>)

lemma test_drivers_ok: "drivers_ok test_drivers"
  by (auto simp: drivers_ok_def well_behaved_def test_drivers_def table_ext_refl intro: alloc_fileno_ext)

definition test_state :: "nat \<Rightarrow> unit vfs" where
  "test_state n = \<lparr>files = replicate n zero_file, is_task = True, cwd = ''/'', euid = 0, ctty = 0,
     mountpoints = [test_mount 1 ''/''], mounted = {}, sc_errno = None, world = ()\<rparr>"

section \<open>Properties\<close>



text \<open>
  \<^verbatim>\<open>fcntl(F_DUPFD)\<close> on a file: the lowest free number from \<^verbatim>\<open>max(3, arg)\<close> on becomes a second name of it, both
  names find the same entry, whose reference count has grown by one, and nothing else in the table changes. Without a
  free number the call fails with \<^verbatim>\<open>ENFILE\<close> and changes nothing.
\<close>

lemma fcntl_dup_shares:
  assumes "table_ok (files s)" and g: "vfs_get_from_id (files s) fd = Some (Some i)"
    and "0 < i" "f_num (files s ! i) = i" "refs (files s ! i) \<noteq> - 1"
  shows "case alloc_loop (files s) (nat (max 3 arg)) of
      None \<Rightarrow> vfs_fcntl D fd F_DUPFD arg s = Some (- 1, s\<lparr>sc_errno := Some ENFILE\<rparr>)
    | Some j \<Rightarrow> \<exists>s'. vfs_fcntl D fd F_DUPFD arg s = Some (int j, s') \<and> j \<noteq> i \<and>
        nat (max 3 arg) \<le> j \<and> refs (files s ! j) = 0 \<and> (\<forall>k. nat (max 3 arg) \<le> k \<and> k < j \<longrightarrow> refs (files s ! k) \<noteq> 0) \<and>
        vfs_get_from_id (files s') (int j) = Some (Some i) \<and> vfs_get_from_id (files s') (int i) = Some (Some i) \<and>
        files s' ! i = (files s ! i)\<lparr>refs := refs (files s ! i) + 1\<rparr> \<and>
        (\<forall>k < length (files s). k \<noteq> i \<and> k \<noteq> j \<longrightarrow> files s' ! k = files s ! k)"
proof (cases "alloc_loop (files s) (nat (max 3 arg))")
  case None
  then show ?thesis using g by (simp add: vfs_fcntl_def Let_def vfs_alloc_fileno_def)
next
  case (Some j)
  note i = get_from_idD [OF g] and j = alloc_loop_least [OF Some]
  have ij: "i \<noteq> j" using i j by auto
  define s' where "s' = (let s = upd_file j (\<lambda>f. f\<lparr>refs := 1, f_num := j\<rparr>) s; s = upd_file i (\<lambda>f. f\<lparr>refs := refs f + 1\<rparr>) s
     in upd_file j (\<lambda>f. f\<lparr>dup_target := int (f_num (files s ! i))\<rparr>) s)"
  have c: "vfs_fcntl D fd F_DUPFD arg s = Some (int j, s')"
    using g i j ij by (simp add: vfs_fcntl_def vfs_alloc_fileno_def Some Let_def s'_def nth_upd_file)
  have l: "length (files s') = length (files s)" by (simp add: s'_def Let_def)
  have fj: "files s' ! j = (files s ! j)\<lparr>refs := 1, f_num := j, dup_target := int i\<rparr>"
    using i j ij assms(4) by (simp add: s'_def Let_def nth_upd_file)
  have fi: "files s' ! i = (files s ! i)\<lparr>refs := refs (files s ! i) + 1\<rparr>"
    using i j ij by (simp add: s'_def Let_def nth_upd_file)
  have nz: "refs (files s ! i) + 1 \<noteq> 0" using assms(5) by (simp add: eq_neg_iff_add_eq_0)
  have ri: "vfs_get_from_id (files s') (int i) = Some (Some i)"
    using i nz by (subst vfs_get_from_id.simps) (simp add: l fi)
  have rj: "vfs_get_from_id (files s') (int j) = Some (Some i)"
    using j ri assms(3) by (subst vfs_get_from_id.simps) (simp add: l fj)
  have "\<forall>k < length (files s). k \<noteq> i \<and> k \<noteq> j \<longrightarrow> files s' ! k = files s ! k"
    by (simp add: s'_def Let_def nth_upd_file)
  then show ?thesis using Some c ij j ri rj fi by simp
qed

definition two_files :: "unit vfs" where
  "two_files = (test_state 6)\<lparr>files := (replicate 6 zero_file)[3 := zero_file\<lparr>refs := 1, f_num := 3, f_path := ''/a''\<rparr>]\<rparr>"

lemma two_files_ok: "table_ok (files two_files)" "vfs_get_from_id (files two_files) 3 = Some (Some 3)"
proof -
  show "table_ok (files two_files)"
    unfolding two_files_def
    by (simp, rule table_ok_root [OF fresh_table_ok]) (simp_all add: zero_file_def entry_ok_def)
  show "vfs_get_from_id (files two_files) 3 = Some (Some 3)"
    by (subst vfs_get_from_id.simps) (simp add: two_files_def zero_file_def)
qed

lemma fcntl_dup_shares_example:
  "\<exists>s'. vfs_fcntl test_drivers 3 F_DUPFD 0 two_files = Some (4, s') \<and> vfs_get_from_id (files s') 4 = Some (Some 3)"
proof -
  have "alloc_loop (files two_files) (nat (max 3 0)) = Some 4"
    by (subst alloc_loop.simps, subst alloc_loop.simps) (simp add: two_files_def zero_file_def)
  then show ?thesis
    using fcntl_dup_shares [OF two_files_ok, where arg = 0 and D = test_drivers] by (fastforce simp: two_files_def zero_file_def)
qed

text \<open>
  \<^verbatim>\<open>vfs_close\<close> takes one reference from the file behind the number and clears the file's entry with the last one.
  It never frees the number it is given when that number is a duplicate: the entry of the duplicate stays in use and
  keeps referring to the file, which a second close of the same number then takes away from its other owner.
\<close>

lemma close_drops_reference:
  assumes g: "vfs_get_from_id (files s) fd = Some (Some i)" and "f_type (files s ! i) \<noteq> ucast FT_IFSOCK"
  shows "\<exists>s'. vfs_close D fd s = Some (0, s') \<and>
    files s' ! i = (if refs (files s ! i) = 1 then zero_file else (files s ! i)\<lparr>refs := refs (files s ! i) - 1\<rparr>) \<and>
    (\<forall>k < length (files s). k \<noteq> i \<longrightarrow> files s' ! k = files s ! k) \<and>
    (dup_target (files s ! nat fd) \<noteq> 0 \<longrightarrow> files s' ! nat fd = files s ! nat fd)"
proof -
  note i = get_from_idD [OF g]
  have n: "dup_target (files s ! nat fd) \<noteq> 0 \<Longrightarrow> nat fd \<noteq> i" using i(3) by auto
  have fd: "nat fd < length (files s)" using g by (subst (asm) vfs_get_from_id.simps) (auto split: if_splits)
  have r: "refs (files s ! i) - 1 = 0 \<longleftrightarrow> refs (files s ! i) = 1" by simp
  show ?thesis
    using i assms(2) n fd by (simp add: vfs_close_unfold [OF g] Let_def nth_upd_file r)
qed

lemma close_drops_reference_example:
  "\<exists>s'. vfs_close test_drivers 3 two_files = Some (0, s') \<and> files s' ! 3 = zero_file"
  using close_drops_reference [OF two_files_ok(2), of test_drivers] by (auto simp: two_files_def zero_file_def vfs_consts)

text \<open>
  C37. \<^verbatim>\<open>dup2(fd, fd)\<close> on an open file other than number 0 that is not duplicated yet makes its entry a duplicate of itself. The
  call succeeds, and after it the lookup of \<^verbatim>\<open>fd\<close> recurses without end, in every call that takes this number.
\<close>

theorem dup2_self_never_ends:
  assumes g: "vfs_get_from_id (files s) fd = Some (Some (nat fd))" and "0 < fd" "is_task s"
    and "refs (files s ! nat fd) = 1" "f_type (files s ! nat fd) \<noteq> ucast FT_IFSOCK"
  shows "\<exists>s'. vfs_dup2 D fd fd s = Some (0, s') \<and> vfs_get_from_id (files s') fd = None"
proof -
  define i where "i = nat fd"
  note i = get_from_idD [OF g, folded i_def]
  define s1 where "s1 = (if fd \<le> 2 \<and> strncmp (f_path (files s ! i)) ''/dev/pts'' 8 = 0 then s\<lparr>ctty := f_meta (files s ! i)\<rparr> else s)"
  have f1: "files s1 = files s" by (simp add: s1_def)
  obtain s2 where s2: "vfs_close D fd s1 = Some (0, s2)" "files s2 ! i = zero_file" "length (files s2) = length (files s)"
  proof -
    have "vfs_close D fd s1 = Some (0, upd_file i (\<lambda>_. zero_file) (upd_file i (\<lambda>f. f\<lparr>refs := refs f - 1\<rparr>) s1))"
      using assms i by (simp add: vfs_close_unfold [of s1 fd i] f1 i_def [symmetric] Let_def nth_upd_file)
    then show thesis using that i by (simp add: nth_upd_file f1)
  qed
  obtain s' where s': "dup2_finish i i (upd_file i (\<lambda>f. f\<lparr>refs := 1\<rparr>) s2) = Some (0, s')" "refs (files s' ! i) = 2"
      "dup_target (files s' ! i) = int i" "length (files s') = length (files s)"
    using s2 i by (simp add: dup2_finish_def Let_def nth_upd_file)
  have "fs = files s' \<longrightarrow> x \<noteq> int i" if "vfs_get_from_id fs x = Some r" for fs x r
  proof (rule vfs_get_from_id.raw_induct [OF _ that, where P = "\<lambda>fs x r. fs = files s' \<longrightarrow> x \<noteq> int i"])
    fix get fs x r
    assume "\<And>fs x r. get fs x = Some r \<Longrightarrow> fs = files s' \<longrightarrow> x \<noteq> int i"
      and "(if x < 0 \<or> int (length fs) \<le> x then Some None else if refs (fs ! nat x) = 0 then Some None
          else if dup_target (fs ! nat x) \<noteq> 0 then get fs (dup_target (fs ! nat x)) else Some (Some (nat x))) = Some r"
    then show "fs = files s' \<longrightarrow> x \<noteq> int i" using s' i assms(2) by (auto split: if_splits simp: i_def)
  qed
  then have "vfs_get_from_id (files s') (int i) = None" by (metis option.exhaust)
  moreover have fd: "int i = fd" using assms(2) by (simp add: i_def)
  then have "fd < int (length (files s))" using i(1) by linarith
  then have "vfs_dup2 D fd fd s = Some (0, s')"
    using assms i s2 s' by (simp add: vfs_dup2_def i_def [symmetric] s1_def [symmetric] f1 zero_file_def Let_def)
  ultimately show ?thesis using fd by auto
qed

theorem dup2_self_never_ends_witness:
  "\<exists>s'. vfs_dup2 test_drivers 3 3 two_files = Some (0, s') \<and> vfs_get_from_id (files s') 3 = None"
  by (rule dup2_self_never_ends) (use two_files_ok in \<open>simp_all add: two_files_def zero_file_def test_state_def vfs_consts\<close>)

text \<open>
  Reading and writing advance the offset by what the callback returns, also when that is the error value -1, which
  moves the offset 4294967295 bytes ahead. Reading is refused on a file opened write-only, but writing is passed on whatever
  mode the file was opened with, because \<^verbatim>\<open>flags & O_RDONLY\<close> is zero.
\<close>

lemma io_moves_offset:
  assumes g: "vfs_get_from_id (files s) fd = Some (Some i)" and "buf \<noteq> 0" "sz \<noteq> 0"
    and "cb_read (f_callbacks (files s ! i)) = cb" "cb_write (f_callbacks (files s ! i)) = cb" "cb \<noteq> 0"
    and ctx: "ctx = \<lparr>ctx_fp = Some i, ctx_orig_path = f_path (files s ! i), ctx_path = f_mount_path (files s ! i), ctx_mp = f_mp (files s ! i)\<rparr>"
    and io: "do_io D cb ctx buf sz s = Some (n, s1)"
  shows "vfs_write D fd buf sz s = Some (n, upd_file i (\<lambda>f. f\<lparr>f_offset := f_offset f + ucast n\<rparr>) s1) \<and>
    vfs_read D fd buf sz s =
      (if f_flags (files s ! i) AND O_WRONLY \<noteq> 0 then Some (- 1, s\<lparr>sc_errno := Some EBADF\<rparr>)
       else Some (n, upd_file i (\<lambda>f. f\<lparr>f_offset := f_offset f + ucast n\<rparr>) s1)) \<and>
    (n = - 1 \<longrightarrow> (ucast n :: u64) = 4294967295)"
proof -
  have c: "vfs_context_from_fd fd s = Some (Some (i, ctx))" using g by (simp add: vfs_context_from_fd_def ctx)
  have "(ucast (0xffffffff :: u32) :: u64) = 4294967295" by simp
  then have "(ucast (- 1 :: u32) :: u64) = 4294967295" by (simp only: u32_all_ones)
  then show ?thesis using assms by (auto simp: vfs_write_def vfs_read_def c Let_def O_RDONLY_def fail_size_def)
qed

definition disk_file :: "unit vfs" where
  "disk_file = two_files\<lparr>files := (files two_files)[3 := (files two_files ! 3)\<lparr>f_callbacks := no_callbacks\<lparr>cb_read := 7, cb_write := 7\<rparr>\<rparr>]\<rparr>"

lemma io_moves_offset_example:
  "\<exists>s'. vfs_write test_drivers 3 0x1000 5 disk_file = Some (5, s') \<and> f_offset (files s' ! 3) = 5"
proof -
  have g: "vfs_get_from_id (files disk_file) 3 = Some (Some 3)"
    by (subst vfs_get_from_id.simps) (simp add: disk_file_def two_files_def zero_file_def)
  show ?thesis
    using io_moves_offset [OF g, of "0x1000" 5 7 _ test_drivers 5 disk_file]
    by (simp add: disk_file_def two_files_def zero_file_def test_drivers_def nth_upd_file)
qed

end
