(* ===== verification/Signal.thy ===== *)
theory Signal
  imports Bitmap
begin

text \<open>
  Tasks and signals: \<^verbatim>\<open>src/tasks/task.h\<close>, \<^verbatim>\<open>src/tasks/signal.c\<close> and the calls of \<^verbatim>\<open>src/tasks/task.c\<close> that work on one
  task. Pointers to tasks are addresses, zero is \<^verbatim>\<open>NULL\<close>. The user memory of a task is a function from addresses
  to words; whether \<^verbatim>\<open>vm_map\<close> can map the user stack is a parameter.
\<close>

section \<open>Data\<close>

datatype task_state =
    TERMINATED | ZOMBIE | REAPED | STOPPED | REPLACED | RUNNING | WAITING | SLEEPING | SYSCALL

record sigaction =
  sa_flags :: int
  sa_mask :: u32
  sa_handler :: u32

record isf =
  edi :: u32
  esi :: u32
  ebp :: u32
  ebx :: u32
  edx :: u32
  ecx :: u32
  eax :: u32
  esp :: u32

record iret =
  iret_eip :: u32
  iret_user_esp :: u32

record task =
  t_pid :: u32
  t_uid :: u16
  t_gid :: u16
  t_euid :: u16
  t_egid :: u16
  t_parent :: nat
  t_qentry :: nat
  t_state :: isf
  t_iret :: iret
  t_mem :: "u32 \<Rightarrow> u32"
  t_ctty :: nat
  task_state :: task_state
  t_exit_code :: u32
  t_signal_handlers :: "sigaction list"
  t_signal_mask :: u32
  t_wait_for :: u32
  t_wait_res_pid :: u32
  t_stat_loc :: u32
  t_interrupt_yield :: bool
  t_sleep_until :: u32
  t_strace_observer :: nat
  t_strace_fd :: int

definition NSIG :: int where "NSIG = 32"
definition SIGKILL :: int where "SIGKILL = 9"
definition SIGSEGV :: int where "SIGSEGV = 11"
definition SIGURG :: int where "SIGURG = 16"
definition SIGSTOP :: int where "SIGSTOP = 17"
definition SIGCONT :: int where "SIGCONT = 19"
definition SIGCHLD :: int where "SIGCHLD = 20"
definition SIG_DFL :: u32 where "SIG_DFL = 0"
definition SIG_IGN :: u32 where "SIG_IGN = 1"
definition SIG_SETMASK :: int where "SIG_SETMASK = 0"
definition SIG_BLOCK :: int where "SIG_BLOCK = 1"
definition SIG_UNBLOCK :: int where "SIG_UNBLOCK = 2"

lemmas signal_consts = NSIG_def SIGKILL_def SIGURG_def SIGSTOP_def SIGCONT_def SIGCHLD_def SIG_DFL_def SIG_IGN_def
  SIG_SETMASK_def SIG_BLOCK_def SIG_UNBLOCK_def

section \<open>Delivering a signal\<close>

text \<open>
  The words below the user stack pointer: the handler and its argument, the registers that \<^verbatim>\<open>task_sigjmp_crt0\<close>
  pops, and the address to return to.
\<close>

definition signal_frame :: "int \<Rightarrow> u32 \<Rightarrow> isf \<Rightarrow> u32 \<Rightarrow> u32 list" where
  "signal_frame sig handler st eip =
     [handler, word_of_int sig, edi st, esi st, ebp st, 0, ebx st, edx st, ecx st, eax st, eip]"

fun write_words :: "u32 \<Rightarrow> u32 list \<Rightarrow> (u32 \<Rightarrow> u32) \<Rightarrow> u32 \<Rightarrow> u32" where
  "write_words a [] m = m"
| "write_words a (w # ws) m = write_words (a + 4) ws (m(a := w))"

text \<open>
  \<open>t_iret\<close> is the structure at \<^verbatim>\<open>kernel_stack + PAGE_SIZE - sizeof(iret_t)\<close>. \<open>task_sigjmp_crt0\<close> is the address of that
  routine. The stack pointer is lowered before the stack is mapped, also when that fails.
\<close>

definition deliver :: "(u32 \<Rightarrow> bool) \<Rightarrow> u32 \<Rightarrow> int \<Rightarrow> u32 \<Rightarrow> task \<Rightarrow> int \<times> task" where
  "deliver can_map task_sigjmp_crt0 sig handler t =
     (let sp = iret_user_esp (t_iret t) - 44;
          t = t\<lparr>t_iret := (t_iret t)\<lparr>iret_user_esp := sp\<rparr>\<rparr>
      in if \<not> can_map sp then (- 1, t)
         else (0, t\<lparr>t_mem := write_words sp (signal_frame sig handler (t_state t) (iret_eip (t_iret t))) (t_mem t),
                    t_iret := (t_iret t)\<lparr>iret_eip := task_sigjmp_crt0\<rparr>, task_state := RUNNING\<rparr>))"

text \<open>
  \<open>Inl e\<close> sets \<^verbatim>\<open>sc_errno\<close> and returns -1, \<open>None\<close> is an access outside the table of handlers: only the upper bound
  of the signal number is checked. On the i386 the shift in \<^verbatim>\<open>bit_get\<close> uses the number modulo 32.
\<close>

definition task_signal :: "(u32 \<Rightarrow> bool) \<Rightarrow> u32 \<Rightarrow> int \<Rightarrow> task \<Rightarrow> (errno + int \<times> task) option" where
  "task_signal can_map crt0 sig t =
     (if NSIG < sig then Some (Inl EINVAL)
      else if sig = SIGKILL \<or> sig = SIGSTOP
      then Some (Inr (0, t\<lparr>task_state := (if sig = SIGKILL then TERMINATED else STOPPED), t_interrupt_yield := True\<rparr>))
      else if bit_get (t_signal_mask t) (nat (sig mod 32)) \<noteq> 0 then Some (Inr (0, t))
      else if sig < 0 then None
      else let handler = sa_handler (t_signal_handlers t ! nat sig) in
           if handler = SIG_IGN then Some (Inr (0, t))
           else if handler \<noteq> 0 \<and> handler \<noteq> SIG_DFL then Some (Inr (deliver can_map crt0 sig handler t))
           else if sig = SIGCONT \<and> task_state t = STOPPED then Some (Inr (0, t\<lparr>task_state := RUNNING\<rparr>))
           else if sig = SIGCHLD \<or> sig = SIGCONT \<or> sig = SIGURG then Some (Inr (0, t))
           else Some (Inr (0, t\<lparr>task_state := TERMINATED, t_exit_code := 0x100 OR word_of_int sig, t_interrupt_yield := True\<rparr>)))"

text \<open>The old mask is returned for \<^verbatim>\<open>oset\<close>.\<close>

definition task_sigprocmask :: "int \<Rightarrow> u32 option \<Rightarrow> task \<Rightarrow> u32 \<times> task" where
  "task_sigprocmask how newset t =
     (t_signal_mask t,
      case newset of
        None \<Rightarrow> t
      | Some m \<Rightarrow>
          if how = SIG_SETMASK then t\<lparr>t_signal_mask := m\<rparr>
          else if how = SIG_BLOCK then t\<lparr>t_signal_mask := t_signal_mask t OR m\<rparr>
          else if how = SIG_UNBLOCK then t\<lparr>t_signal_mask := t_signal_mask t AND NOT m\<rparr>
          else t)"

definition task_sigaction :: "int \<Rightarrow> sigaction option \<Rightarrow> task \<Rightarrow> (errno + sigaction \<times> task) option" where
  "task_sigaction sig act t =
     (if NSIG < sig then Some (Inl EINVAL)
      else if sig < 0 then None
      else Some (Inr (t_signal_handlers t ! nat sig,
        case act of None \<Rightarrow> t | Some a \<Rightarrow> t\<lparr>t_signal_handlers := (t_signal_handlers t)[nat sig := a]\<rparr>)))"

section \<open>Leaving and changing identity\<close>

definition task_exit :: "u32 \<Rightarrow> task \<Rightarrow> task" where
  "task_exit code t = t\<lparr>task_state := TERMINATED, t_exit_code := push_bit 8 code, t_interrupt_yield := True\<rparr>"

definition task_setid :: "int \<Rightarrow> u32 \<Rightarrow> task \<Rightarrow> errno + task" where
  "task_setid which ident t =
     (if t_euid t \<noteq> 0 then Inl EPERM
      else if which = 0 then Inr (t\<lparr>t_uid := ucast ident, t_euid := ucast ident\<rparr>)
      else if which = 1 then Inr (t\<lparr>t_gid := ucast ident, t_egid := ucast ident\<rparr>)
      else Inl EINVAL)"

text \<open>\<^verbatim>\<open>tv_sec\<close> is a 64-bit number; the duration is computed modulo \<open>2 ^ 32\<close>. \<open>None\<close> is the division by zero for a timer rate above 1000.\<close>

definition task_sleep :: "u32 \<Rightarrow> u32 \<Rightarrow> u64 \<Rightarrow> u32 \<Rightarrow> task \<Rightarrow> task option" where
  "task_sleep tick rate tv_sec tv_usec t =
     (let duration = ucast (tv_sec * ucast rate) in
      if tv_usec \<noteq> 0 \<and> 1000 div rate * 1000 = 0 then None
      else let duration = (if tv_usec \<noteq> 0 then duration + tv_usec div (1000 div rate * 1000) else duration) in
           Some (t\<lparr>t_sleep_until := tick + duration, task_state := SLEEPING\<rparr>))"

section \<open>Properties\<close>

text \<open>Words are written in ascending order, without overlap as long as they do not wrap around.\<close>

lemma write_words_other: "\<forall>i < length ws. a + 4 * of_nat i \<noteq> x \<Longrightarrow> write_words a ws m x = m x"
proof (induction ws arbitrary: a m)
  case (Cons w ws)
  have "a \<noteq> x" using Cons.prems by (auto dest: spec [of _ 0])
  moreover have "\<forall>i < length ws. a + 4 + 4 * of_nat i \<noteq> x"
  proof (intro allI impI)
    fix i assume "i < length ws"
    then have "a + 4 * of_nat (Suc i) \<noteq> x" using Cons.prems by (metis length_Cons Suc_less_eq)
    moreover have "a + 4 * of_nat (Suc i) = a + 4 + 4 * of_nat i" by (simp add: algebra_simps)
    ultimately show "a + 4 + 4 * of_nat i \<noteq> x" by metis
  qed
  then have "write_words (a + 4) ws (m(a := w)) x = (m(a := w)) x" by (rule Cons.IH)
  ultimately show ?case by simp
qed simp

lemma write_words_nth:
  assumes "i < length ws" "length ws < 2 ^ 30"
  shows "write_words a ws m (a + 4 * of_nat i) = ws ! i"
  using assms
proof (induction ws arbitrary: a m i)
  case (Cons w ws)
  show ?case
  proof (cases i)
    case 0
    have "a + 4 + 4 * of_nat j \<noteq> a" if "j < length ws" for j
    proof -
      have "unat (4 * of_nat (Suc j) :: u32) = 4 * Suc j"
        using that Cons.prems(2) by (simp add: unat_of_nat_u32 unat_mult_u32 flip: of_nat_Suc)
      then have "(4 * of_nat (Suc j) :: u32) \<noteq> 0" by auto
      then show ?thesis by (simp add: algebra_simps)
    qed
    then show ?thesis using write_words_other [of ws "a + 4" a "m(a := w)"] 0 by simp
  next
    case (Suc j)
    have "write_words (a + 4) ws (m(a := w)) (a + 4 + 4 * of_nat j) = ws ! j"
      by (rule Cons.IH) (use Suc Cons.prems in simp_all)
    moreover have "a + 4 * of_nat i = a + 4 + 4 * of_nat j" by (simp add: Suc algebra_simps)
    ultimately show ?thesis by (simp only: write_words.simps Suc nth_Cons_Suc)
  qed
qed simp


definition signalled_task :: task where
  "signalled_task = \<lparr>t_pid = 7, t_uid = 0, t_gid = 0, t_euid = 0, t_egid = 0, t_parent = 0, t_qentry = 0,
     t_state = \<lparr>edi = 1, esi = 2, ebp = 3, ebx = 4, edx = 5, ecx = 6, eax = 7, esp = 8\<rparr>,
     t_iret = \<lparr>iret_eip = 0x1000, iret_user_esp = 0x8000\<rparr>, t_mem = (\<lambda>_. 0), t_ctty = 0, task_state = SYSCALL, t_exit_code = 0,
     t_signal_handlers = replicate 33 \<lparr>sa_flags = 0, sa_mask = 0, sa_handler = 0x3000\<rparr>, t_signal_mask = 0, t_wait_for = 0,
     t_wait_res_pid = 0, t_stat_loc = 0, t_interrupt_yield = False, t_sleep_until = 0, t_strace_observer = 0, t_strace_fd = 0\<rparr>"


end
