(* ===== verification/Sched.thy ===== *)
theory Sched
  imports Signal "HOL-Library.Monad_Syntax"
begin

text \<open>
  The scheduler (\<^verbatim>\<open>src/tasks/scheduler.c\<close>), waiting for children (\<^verbatim>\<open>src/tasks/wait.c\<close>) and the end of a task
  (\<^verbatim>\<open>task_userland_eol\<close> of \<^verbatim>\<open>src/tasks/task.c\<close>). The queue is a ring of entries in an explicit store: addresses are
  numbers, zero is \<^verbatim>\<open>NULL\<close>. \<open>None\<close> as a result means that the call does not return: a loop without end, a panic,
  or a dereferenced \<^verbatim>\<open>NULL\<close>.
\<close>

section \<open>State\<close>

record scheduler_qentry =
  qe_next :: nat
  qe_prev :: nat
  qe_task :: nat
  qe_worker :: nat

datatype scheduler_state = SCHEDULER_OFF | SCHEDULER_INITIALIZING | SCHEDULER_INITIALIZED

text \<open>
  \<open>idle_qentry\<close> is the address of that static variable, \<open>fg_task\<close> the foreground task of each terminal, \<open>stopped\<close> the
  flag of each worker, \<open>freed\<close> the tasks whose memory has been released, \<open>kmem\<close> the words the kernel writes to
  through \<^verbatim>\<open>stat_loc\<close>, and \<open>closed_fds\<close> records the \<^verbatim>\<open>vfs_close\<close> calls on behalf of an observing task.
\<close>

record sched =
  tasks :: "nat \<Rightarrow> task"
  qes :: "nat \<Rightarrow> scheduler_qentry"
  stopped :: "nat \<Rightarrow> bool"
  fg_task :: "nat \<Rightarrow> nat"
  current_entry :: nat
  idle_qentry :: nat
  scheduler_state :: scheduler_state
  tick :: u32
  freed :: "nat set"
  kmem :: "u32 \<Rightarrow> u32"
  closed_fds :: "(nat \<times> int) list"

definition upd_task :: "nat \<Rightarrow> (task \<Rightarrow> task) \<Rightarrow> sched \<Rightarrow> sched" where
  "upd_task t f k = k\<lparr>tasks := (tasks k)(t := f (tasks k t))\<rparr>"

definition upd_qe :: "nat \<Rightarrow> (scheduler_qentry \<Rightarrow> scheduler_qentry) \<Rightarrow> sched \<Rightarrow> sched" where
  "upd_qe e f k = k\<lparr>qes := (qes k)(e := f (qes k e))\<rparr>"

lemma upd_simps [simp]:
  "qes (upd_task t f k) = qes k" "tasks (upd_task t f k) = (tasks k)(t := f (tasks k t))"
  "qes (upd_qe e g k) = (qes k)(e := g (qes k e))" "tasks (upd_qe e g k) = tasks k"
  "stopped (upd_task t f k) = stopped k" "stopped (upd_qe e g k) = stopped k"
  "current_entry (upd_task t f k) = current_entry k" "current_entry (upd_qe e g k) = current_entry k"
  "tick (upd_task t f k) = tick k" "tick (upd_qe e g k) = tick k"
  "freed (upd_task t f k) = freed k" "freed (upd_qe e g k) = freed k"
  "idle_qentry (upd_task t f k) = idle_qentry k" "idle_qentry (upd_qe e g k) = idle_qentry k"
  "scheduler_state (upd_task t f k) = scheduler_state k" "scheduler_state (upd_qe e g k) = scheduler_state k"
  by (simp_all add: upd_task_def upd_qe_def)

section \<open>The ring\<close>

text \<open>\<open>entry\<close> is the address \<^verbatim>\<open>kmalloc\<close> returned; the shared part of \<^verbatim>\<open>scheduler_add\<close> and \<^verbatim>\<open>scheduler_add_worker\<close>.\<close>

definition link_entry :: "nat \<Rightarrow> nat \<Rightarrow> nat \<Rightarrow> sched \<Rightarrow> sched" where
  "link_entry entry task worker k =
     (let k = upd_qe entry (\<lambda>e. e\<lparr>qe_task := task, qe_worker := worker\<rparr>) k in
      if current_entry k = 0
      then upd_qe entry (\<lambda>e. e\<lparr>qe_next := entry, qe_prev := entry\<rparr>) (k\<lparr>current_entry := entry\<rparr>)
      else let cur = current_entry k;
               k = upd_qe entry (\<lambda>e. e\<lparr>qe_next := qe_next (qes k cur)\<rparr>) k;
               k = upd_qe (qe_next (qes k entry)) (\<lambda>e. e\<lparr>qe_prev := entry\<rparr>) k;
               k = upd_qe entry (\<lambda>e. e\<lparr>qe_prev := cur\<rparr>) k
           in upd_qe cur (\<lambda>e. e\<lparr>qe_next := entry\<rparr>) k)"

definition scheduler_add :: "nat \<Rightarrow> nat \<Rightarrow> sched \<Rightarrow> sched" where
  "scheduler_add entry task k =
     (let k = link_entry entry task 0 (upd_task task (\<lambda>t. t\<lparr>t_qentry := entry\<rparr>) k);
          tty = t_ctty (tasks k task)
      in if tty \<noteq> 0 then k\<lparr>fg_task := (fg_task k)(tty := task)\<rparr> else k)"

definition scheduler_add_worker :: "nat \<Rightarrow> nat \<Rightarrow> sched \<Rightarrow> sched" where
  "scheduler_add_worker entry worker k = link_entry entry 0 worker k"

definition scheduler_get_current :: "sched \<Rightarrow> nat" where
  "scheduler_get_current k = (if current_entry k \<noteq> 0 then qe_task (qes k (current_entry k)) else 0)"

definition findable :: "u32 \<Rightarrow> task \<Rightarrow> bool" where
  "findable pid t \<longleftrightarrow> t_pid t = pid \<and> task_state t \<notin> {REPLACED, TERMINATED, REAPED}"

text \<open>The loop ends before the entry whose successor is \<^verbatim>\<open>start\<close> has been looked at.\<close>

partial_function (option) pid_loop :: "sched \<Rightarrow> u32 \<Rightarrow> nat \<Rightarrow> nat \<Rightarrow> nat option" where
  "pid_loop k pid start entry =
     (if qe_next (qes k entry) = start then Some 0
      else let t = qe_task (qes k entry) in
           if t = 0 then pid_loop k pid start (qe_next (qes k entry))
           else if findable pid (tasks k t) then Some t
           else if qe_next (qes k entry) = entry then Some 0
           else pid_loop k pid start (qe_next (qes k entry)))"

definition scheduler_find :: "sched \<Rightarrow> u32 \<Rightarrow> nat option" where
  "scheduler_find k pid = (if current_entry k = 0 then None else pid_loop k pid (current_entry k) (current_entry k))"

text \<open>\<^verbatim>\<open>task_cleanup\<close> releases the task's memory. Removing the last entry is a panic.\<close>

definition unlink :: "nat \<Rightarrow> sched \<Rightarrow> sched option" where
  "unlink entry k =
     (if qe_next (qes k entry) = entry \<or> qe_prev (qes k entry) = entry then None
      else let nx = qe_next (qes k entry); pv = qe_prev (qes k entry);
               k = upd_qe nx (\<lambda>e. e\<lparr>qe_prev := pv\<rparr>) k;
               k = upd_qe pv (\<lambda>e. e\<lparr>qe_next := nx\<rparr>) k;
               t = qe_task (qes k entry)
           in Some (if t \<noteq> 0 then k\<lparr>freed := insert t (freed k)\<rparr> else k))"

section \<open>Signals by process number, waiting, and the end of a task\<close>

text \<open>What the delivery of signals needs: which user stacks can be mapped, and the address of the trampoline.\<close>

record machine =
  can_map :: "nat \<Rightarrow> u32 \<Rightarrow> bool"
  crt0 :: u32

definition signal_task :: "machine \<Rightarrow> nat \<Rightarrow> int \<Rightarrow> sched \<Rightarrow> ((errno + int) \<times> sched) option" where
  "signal_task M t sig k = do {
     r \<leftarrow> task_signal (can_map M t) (crt0 M) sig (tasks k t);
     Some (case r of Inl e \<Rightarrow> (Inl e, k) | Inr (v, task) \<Rightarrow> (Inr v, upd_task t (\<lambda>_. task) k))
   }"

definition task_signal_syscall :: "machine \<Rightarrow> nat \<Rightarrow> u32 \<Rightarrow> int \<Rightarrow> sched \<Rightarrow> ((errno + int) \<times> sched) option" where
  "task_signal_syscall M source target_pid sig k = do {
     t \<leftarrow> scheduler_find k target_pid;
     if t = 0 then Some (Inl ESRCH, k)
     else if t_euid (tasks k t) \<noteq> t_euid (tasks k source) then Some (Inl EPERM, k)
     else if sig = 0 then Some (Inr 0, k)
     else signal_task M t sig k
   }"

definition wait_finish :: "nat \<Rightarrow> nat \<Rightarrow> sched \<Rightarrow> sched" where
  "wait_finish task child k =
     (let w = tasks k task; c = tasks k child in
      if t_wait_for w \<noteq> 0 \<and> t_wait_for w \<noteq> t_pid c then k
      else let k = upd_task task (\<lambda>t. t\<lparr>t_wait_res_pid := t_pid c\<rparr>) k;
               k = (if t_stat_loc w \<noteq> 0 then k\<lparr>kmem := (kmem k)(t_stat_loc w := t_exit_code c)\<rparr> else k);
               k = upd_task child (\<lambda>t. t\<lparr>task_state := REAPED\<rparr>) k
           in upd_task task (\<lambda>t. t\<lparr>task_state := RUNNING\<rparr>) k)"

partial_function (option) children_loop :: "sched \<Rightarrow> nat \<Rightarrow> nat \<Rightarrow> nat \<Rightarrow> bool option" where
  "children_loop k task first e =
     (if qe_next (qes k e) = first then Some False
      else let i = qe_task (qes k e) in
           if i \<noteq> 0 \<and> t_parent (tasks k i) = task \<and> task_state (tasks k i) \<notin> {REPLACED, REAPED} then Some True
           else children_loop k task first (qe_next (qes k e)))"

text \<open>
  The call up to the loop that waits for \<^verbatim>\<open>wait_finish\<close>. \<open>child_pid\<close> is positive or means any child.
\<close>

definition task_waitpid :: "nat \<Rightarrow> int \<Rightarrow> u32 \<Rightarrow> sched \<Rightarrow> ((errno + unit) \<times> sched) option" where
  "task_waitpid task child_pid stat_loc k = do {
     have_child \<leftarrow>
       (if 0 < child_pid then do {
          t \<leftarrow> scheduler_find k (word_of_int child_pid);
          Some (t \<noteq> 0 \<and> t_parent (tasks k t) = task)
        }
        else let first = qe_next (qes k (t_qentry (tasks k task))) in children_loop k task first first);
     if \<not> have_child then Some (Inl ECHILD, k)
     else Some (Inr (), upd_task task (\<lambda>t. t\<lparr>t_wait_for := (if 0 < child_pid then word_of_int child_pid else 0),
       t_stat_loc := stat_loc, task_state := WAITING, t_interrupt_yield := True, t_wait_res_pid := 0\<rparr>) k)
   }"

partial_function (option) reparent_loop :: "nat \<Rightarrow> nat \<Rightarrow> nat \<Rightarrow> nat \<Rightarrow> sched \<Rightarrow> sched option" where
  "reparent_loop t init first e k =
     (if qe_next (qes k e) = first then Some k
      else let i = qe_task (qes k e);
               k = (if i \<noteq> 0 \<and> t_parent (tasks k i) = t then upd_task i (\<lambda>c. c\<lparr>t_parent := init\<rparr>) k else k)
           in reparent_loop t init first (qe_next (qes k e)) k)"

definition notify_parent :: "machine \<Rightarrow> nat \<Rightarrow> sched \<Rightarrow> sched option" where
  "notify_parent M t k =
     (let p = t_parent (tasks k t) in
      if p = 0 then Some k
      else let k = (if task_state (tasks k p) = WAITING then wait_finish p t k else k)
           in map_option snd (signal_task M p SIGCHLD k))"

definition task_userland_eol :: "machine \<Rightarrow> nat \<Rightarrow> sched \<Rightarrow> sched option" where
  "task_userland_eol M t k = do {
     let k = upd_task t (\<lambda>x. x\<lparr>task_state := ZOMBIE\<rparr>) k;
     init \<leftarrow> scheduler_find k 1;
     let first = qe_next (qes k (t_qentry (tasks k t)));
     k \<leftarrow> reparent_loop t init first first k;
     k \<leftarrow> notify_parent M t k;
     let tty = t_ctty (tasks k t);
     let k = (if tty \<noteq> 0 \<and> fg_task k tty = t then k\<lparr>fg_task := (fg_task k)(tty := t_parent (tasks k t))\<rparr> else k);
     Some (if t_strace_observer (tasks k t) \<noteq> 0 \<and> t_strace_fd (tasks k t) \<noteq> 0
           then k\<lparr>closed_fds := closed_fds k @ [(t_strace_observer (tasks k t), t_strace_fd (tasks k t))]\<rparr> else k)
   }"

section \<open>Selecting the next entry\<close>

datatype verdict = Run | Skip | Reap | Finish

text \<open>What the loop does with an entry.\<close>

definition judge :: "sched \<Rightarrow> nat \<Rightarrow> verdict" where
  "judge k e =
     (let q = qes k e; t = tasks k (qe_task q) in
      if qe_worker q \<noteq> 0 then if stopped k (qe_worker q) then Reap else Run
      else if qe_task q \<noteq> 0 then
        if task_state t = TERMINATED then Finish
        else if task_state t = REAPED \<or> task_state t = REPLACED then Reap
        else if task_state t = STOPPED \<or> task_state t = WAITING \<or> task_state t = ZOMBIE then Skip
        else if task_state t = SLEEPING \<and> tick k < t_sleep_until t then Skip
        else Run
      else Run)"

partial_function (option) runnable_loop :: "machine \<Rightarrow> nat \<Rightarrow> bool \<Rightarrow> nat \<Rightarrow> sched \<Rightarrow> (nat \<times> sched) option" where
  "runnable_loop M orig initial qe k =
     (if qe = 0 then None
      else if qe = orig \<and> \<not> initial then Some (0, k)
      else (case judge k qe of
              Run \<Rightarrow> Some (qe, k)
            | Skip \<Rightarrow> runnable_loop M orig False (qe_next (qes k qe)) k
            | Reap \<Rightarrow> do { k' \<leftarrow> unlink qe k; runnable_loop M orig False (qe_next (qes k' qe)) k' }
            | Finish \<Rightarrow> do { k' \<leftarrow> task_userland_eol M (qe_task (qes k qe)) k;
                             runnable_loop M orig False (qe_next (qes k' qe)) k' }))"

definition find_runnable_qentry :: "machine \<Rightarrow> nat \<Rightarrow> sched \<Rightarrow> (nat \<times> sched) option" where
  "find_runnable_qentry M start k = runnable_loop M (qe_next (qes k start)) True (qe_next (qes k start)) k"

text \<open>The end of \<^verbatim>\<open>scheduler_select\<close>; the result is the address of the state to return to, of a task or of a worker.\<close>

datatype target = ToTask nat | ToWorker nat | ToNone

definition select_current :: "sched \<Rightarrow> target \<times> sched" where
  "select_current k =
     (let q = qes k (current_entry k) in
      if qe_task q \<noteq> 0 then (ToTask (qe_task q), upd_task (qe_task q) (\<lambda>t. t\<lparr>task_state := RUNNING\<rparr>) k)
      else if qe_worker q \<noteq> 0 then (ToWorker (qe_worker q), k)
      else (ToNone, k))"

definition scheduler_select :: "machine \<Rightarrow> sched \<Rightarrow> (target \<times> sched) option" where
  "scheduler_select M k =
     (case scheduler_state k of
        SCHEDULER_OFF \<Rightarrow> Some (ToNone, k)
      | SCHEDULER_INITIALIZING \<Rightarrow>
          if current_entry k = 0 then None
          else Some (select_current (k\<lparr>scheduler_state := SCHEDULER_INITIALIZED\<rparr>))
      | SCHEDULER_INITIALIZED \<Rightarrow>
          if current_entry k = 0 then None
          else do {
            (qe, k) \<leftarrow> find_runnable_qentry M (current_entry k) k;
            Some (select_current
              (if qe \<noteq> 0 then k\<lparr>current_entry := qe\<rparr>
               else (upd_qe (idle_qentry k) (\<lambda>e. e\<lparr>qe_next := qe_next (qes k (current_entry k)), qe_prev := current_entry k\<rparr>) k)
                      \<lparr>current_entry := idle_qentry k\<rparr>))
          })"

end
