(* ===== verification/Sched_Props.thy ===== *)
theory Sched_Props
  imports Sched
begin

text \<open>
  The ring of the scheduler as the list of its entries, starting with the current one: adding and removing entries, the order in
  which entries are selected, what a search by process number sees, and the handshake between a waiting parent and
  a child that ends.
\<close>

section \<open>The ring as a list\<close>

definition links :: "'a list \<Rightarrow> ('a \<times> 'a) set" where
  "links xs = set (zip xs (rotate1 xs))"

definition ring :: "sched \<Rightarrow> nat list \<Rightarrow> bool" where
  "ring k xs \<longleftrightarrow> xs \<noteq> [] \<and> distinct xs \<and> 0 \<notin> set xs \<and>
     (\<forall>(a, b) \<in> links xs. qe_next (qes k a) = b \<and> qe_prev (qes k b) = a)"

lemma links_Cons: "links (x # xs) = set (zip (x # xs) (xs @ [x]))"
  by (simp add: links_def)

lemma zip_snoc: "length ys = length zs \<Longrightarrow> set (zip (ys @ [y]) (zs @ [z])) = insert (y, z) (set (zip ys zs))"
  by auto

lemma links_rotate1: "links (rotate1 xs) = links xs"
proof (cases xs)
  case (Cons x ys)
  show ?thesis
  proof (cases ys)
    case y: (Cons y zs)
    have "links xs = insert (x, y) (set (zip ys (zs @ [x])))" by (simp add: Cons y links_def)
    moreover have "links (rotate1 xs) = set (zip (ys @ [x]) ((zs @ [x]) @ [y]))" by (simp add: Cons y links_def)
    moreover have "\<dots> = insert (x, y) (set (zip ys (zs @ [x])))" by (rule zip_snoc) (simp add: y)
    ultimately show ?thesis by simp
  qed (simp add: Cons links_def)
qed (simp add: links_def)

lemma ring_rotate1: "ring k (rotate1 xs) \<longleftrightarrow> ring k xs"
  by (simp add: ring_def links_rotate1)

lemma ring_rotate: "ring k (xs @ ys) \<longleftrightarrow> ring k (ys @ xs)"
proof -
  have "ring k (rotate n zs) \<longleftrightarrow> ring k zs" for n zs by (induction n) (simp_all add: rotate_def ring_rotate1)
  from this [of "length xs" "xs @ ys"] show ?thesis by (simp add: rotate_append)
qed

lemma links_two: "links (x # y # ys) = insert (x, y) (set (zip (y # ys) (ys @ [x])))"
  by (simp add: links_def)

lemma links_split: "links (x # y # ys) = insert (x, y) (insert (last (y # ys), x) (set (zip (butlast (y # ys)) ys)))"
proof -
  have "set (zip (y # ys) (ys @ [x])) = insert (last (y # ys), x) (set (zip (butlast (y # ys)) ys))"
    using zip_snoc [of "butlast (y # ys)" ys "last (y # ys)" x] by (metis append_butlast_last_id length_butlast length_Cons diff_Suc_1 list.distinct(1))
  then show ?thesis by (simp add: links_two)
qed

lemma ring_next: "ring k (x # y # ys) \<Longrightarrow> qe_next (qes k x) = y \<and> qe_prev (qes k y) = x"
  by (simp add: ring_def links_two)

lemma ring_next_in: "ring k (xs @ x # y # ys) \<Longrightarrow> qe_next (qes k x) = y"
proof -
  assume "ring k (xs @ x # y # ys)"
  then have "ring k (x # y # ys @ xs)" using ring_rotate [of k xs "x # y # ys"] by simp
  then show ?thesis by (simp add: ring_next)
qed

lemma ring_one: "ring k [x] \<longleftrightarrow> x \<noteq> 0 \<and> qe_next (qes k x) = x \<and> qe_prev (qes k x) = x"
  by (auto simp: ring_def links_def)

lemma ring_last: "ring k (x # xs) \<Longrightarrow> qe_next (qes k (last (x # xs))) = x \<and> qe_prev (qes k x) = last (x # xs)"
proof (cases xs)
  case (Cons y ys)
  moreover assume "ring k (x # xs)"
  ultimately show ?thesis by (simp add: ring_def links_split)
qed (simp add: ring_one)

text \<open>The pairs of a list that are not affected by a change at its ends.\<close>

lemma ring_cong:
  assumes "ring k xs" "\<forall>x \<in> set xs. qe_next (qes k' x) = qe_next (qes k x) \<and> qe_prev (qes k' x) = qe_prev (qes k x)"
  shows "ring k' xs"
proof -
  have "a \<in> set xs \<and> b \<in> set xs" if "(a, b) \<in> links xs" for a b
    using that set_zip_leftD [of a b xs "rotate1 xs"] set_zip_rightD [of a b xs "rotate1 xs"] by (simp add: links_def)
  then show ?thesis using assms by (fastforce simp: ring_def)
qed

lemma ring_add:
  assumes r: "ring k (c # xs)" and e: "e \<noteq> 0" "e \<notin> set (c # xs)" and c: "current_entry k = c"
  shows "ring (link_entry e t w k) (c # e # xs)"
proof -
  have c0: "c \<noteq> 0" using r by (auto simp: ring_def)
  have ec: "e \<noteq> c" using e by auto
  show ?thesis
  proof (cases xs)
    case Nil
    then show ?thesis using r e c c0 by (auto simp: link_entry_def Let_def ring_one ring_def links_def)
  next
    case (Cons y ys)
    define nx where "nx = (\<lambda>x. if x = c then e else if x = e then y else qe_next (qes k x))"
    define pv where "pv = (\<lambda>x. if x = y then e else if x = e then c else qe_prev (qes k x))"
    have n: "qe_next (qes k c) = y" using ring_next r Cons by blast
    have ye: "y \<noteq> e" "y \<noteq> c" using e r Cons by (auto simp: ring_def)
    have f: "qe_next (qes (link_entry e t w k) x) = nx x" "qe_prev (qes (link_entry e t w k) x) = pv x" for x
      using c c0 ec n ye by (auto simp: link_entry_def Let_def nx_def pv_def)
    have d: "distinct (c # y # ys)" using r Cons by (simp add: ring_def)
    have old: "qe_next (qes k a) = b \<and> qe_prev (qes k b) = a" if "(a, b) \<in> set (zip (y # ys) (ys @ [c]))" for a b
      using r that Cons by (auto simp: ring_def links_two)
    have "nx a = b \<and> pv b = a" if ab: "(a, b) \<in> set (zip (y # ys) (ys @ [c]))" for a b
    proof -
      have "a \<in> set (y # ys)" "b \<in> set (ys @ [c])" using ab by (auto dest: set_zip_leftD set_zip_rightD)
      then have "a \<noteq> c" "a \<noteq> e" "b \<noteq> y" "b \<noteq> e" using d e Cons ec by auto
      then show ?thesis using old [OF ab] by (simp add: nx_def pv_def)
    qed
    moreover have "links (c # e # y # ys) = insert (c, e) (insert (e, y) (set (zip (y # ys) (ys @ [c]))))" by (simp add: links_def)
    moreover have "nx c = e" "pv e = c" "nx e = y" "pv y = e" using ec ye by (auto simp: nx_def pv_def)
    ultimately show ?thesis using r e Cons by (auto simp: ring_def f)
  qed
qed

lemma ring_unlink:
  assumes r: "ring k (e # xs)" and "xs \<noteq> []"
  shows "\<exists>k'. unlink e k = Some k' \<and> ring k' xs \<and> tasks k' = tasks k \<and> stopped k' = stopped k \<and> tick k' = tick k \<and>
    qe_next (qes k' e) = qe_next (qes k e) \<and> (\<forall>x. qe_task (qes k' x) = qe_task (qes k x) \<and> qe_worker (qes k' x) = qe_worker (qes k x)) \<and>
    current_entry k' = current_entry k \<and> idle_qentry k' = idle_qentry k \<and> scheduler_state k' = scheduler_state k"
proof -
  obtain y ys where xs: "xs = y # ys" using assms(2) by (cases xs) auto
  have d: "distinct (e # y # ys)" using r xs by (simp add: ring_def)
  have n: "qe_next (qes k e) = y" "qe_prev (qes k e) = last xs" using ring_next ring_last r xs by force+
  have l: "last xs \<in> set xs" using assms(2) by (rule last_in_set)
  have le: "last xs \<noteq> e" "y \<noteq> e" using l d xs by auto
  define k' where "k' = upd_qe (last xs) (\<lambda>x. x\<lparr>qe_next := y\<rparr>) (upd_qe y (\<lambda>x. x\<lparr>qe_prev := last xs\<rparr>) k)"
  have old: "qe_next (qes k a) = b \<and> qe_prev (qes k b) = a" if "(a, b) \<in> set (zip (butlast (y # ys)) ys)" for a b
    using r that xs by (auto simp: ring_def links_split)
  have new: "qe_next (qes k' a) = b \<and> qe_prev (qes k' b) = a" if ab: "(a, b) \<in> set (zip (butlast (y # ys)) ys)" for a b
  proof -
    have a: "a \<in> set (butlast (y # ys))" and b: "b \<in> set ys" using ab by (auto dest: set_zip_leftD set_zip_rightD)
    have "distinct (butlast (y # ys) @ [last (y # ys)])" using d by (metis append_butlast_last_id distinct.simps(2) list.distinct(1))
    then have "a \<noteq> last xs" using a xs by auto
    moreover have "b \<noteq> y" using b d by auto
    ultimately show ?thesis using old [OF ab] by (auto simp: k'_def)
  qed
  have "ring k' xs"
  proof (cases ys)
    case Nil
    then show ?thesis using r xs le by (auto simp: k'_def ring_def links_def)
  next
    case (Cons z zs)
    have "links xs = set (zip (butlast (y # ys)) ys) \<union> {(last (y # ys), y)}"
    proof -
      have "butlast (y # ys) @ [last (y # ys)] = y # ys" by (rule append_butlast_last_id) simp
      then have "links (y # ys) = set (zip (butlast (y # ys) @ [last (y # ys)]) (ys @ [y]))"
        by (simp only: links_Cons)
      then show ?thesis unfolding xs by (subst (asm) zip_snoc) (simp, blast)
    qed
    moreover have "qe_next (qes k' (last xs)) = y" "qe_prev (qes k' y) = last xs" by (auto simp: k'_def)
    ultimately show ?thesis using new d xs r by (auto simp: ring_def)
  qed
  moreover have "unlink e k = Some (if qe_task (qes k' e) \<noteq> 0 then k'\<lparr>freed := insert (qe_task (qes k' e)) (freed k')\<rparr> else k')"
    using n le by (simp add: unlink_def Let_def k'_def)
  moreover have "ring (k'\<lparr>freed := F\<rparr>) xs \<longleftrightarrow> ring k' xs" for F by (simp add: ring_def)
  ultimately show ?thesis using le n by (auto simp: k'_def)
qed

section \<open>The order of selection\<close>

text \<open>No entry has to be removed or finished.\<close>

definition quiet :: "sched \<Rightarrow> nat list \<Rightarrow> bool" where
  "quiet k xs \<longleftrightarrow> (\<forall>e \<in> set xs. judge k e = Run \<or> judge k e = Skip)"

fun next_run :: "sched \<Rightarrow> nat list \<Rightarrow> nat" where
  "next_run k [] = 0"
| "next_run k (e # es) = (if judge k e = Run then e else next_run k es)"

lemma runnable_loop_quiet:
  assumes r: "ring k (ys @ zs)" and "ys \<noteq> []" and q: "quiet k zs"
  shows "runnable_loop M (hd ys) False (if zs = [] then hd ys else hd zs) k = Some (next_run k zs, k)"
  using assms
proof (induction zs arbitrary: ys)
  case Nil
  then have "0 \<notin> set ys" by (simp add: ring_def)
  then have "hd ys \<noteq> 0" using hd_in_set [OF Nil(2)] by metis
  then show ?case by (subst runnable_loop.simps) simp
next
  case (Cons z zs)
  have z: "z \<noteq> 0" "z \<noteq> hd ys" using Cons.prems(1,2) by (auto simp: ring_def dest: hd_in_set)
  show ?case
  proof (cases "judge k z = Run")
    case True
    then show ?thesis using z by (subst runnable_loop.simps) simp
  next
    case False
    then have skip: "judge k z = Skip" using Cons.prems(3) by (auto simp: quiet_def)
    have nx: "qe_next (qes k z) = (if zs = [] then hd ys else hd zs)"
    proof (cases zs)
      case Nil
      then have "ring k (hd ys # tl ys @ [z])" using Cons.prems by (cases ys) simp_all
      from ring_last [OF this] show ?thesis using Nil by simp
    next
      case (Cons z' zs')
      then show ?thesis using ring_next_in [of k ys z z' zs'] \<open>ring k (ys @ z # zs)\<close> by simp
    qed
    have "runnable_loop M (hd (ys @ [z])) False (if zs = [] then hd (ys @ [z]) else hd zs) k = Some (next_run k zs, k)"
      by (rule Cons.IH) (use Cons.prems in \<open>simp_all add: quiet_def\<close>)
    then show ?thesis using z skip Cons.prems(2) nx by (subst runnable_loop.simps) (cases zs, simp_all)
  qed
qed

lemma find_runnable_quiet:
  assumes r: "ring k (c # xs)" and q: "quiet k (c # xs)"
  shows "find_runnable_qentry M c k = Some (next_run k (xs @ [c]), k)"
proof -
  obtain y ys where y: "xs @ [c] = y # ys" by (cases xs) auto
  have ry: "ring k (y # ys)" using r ring_rotate1 [of k "c # xs"] y by simp
  have qy: "quiet k (y # ys)" using q y by (auto simp: quiet_def simp flip: y)
  have n: "qe_next (qes k c) = y" using r y by (cases xs) (auto simp: ring_one dest: ring_next)
  have y0: "y \<noteq> 0" using ry by (auto simp: ring_def)
  have "runnable_loop M y True y k = Some (next_run k (y # ys), k)"
  proof (cases "judge k y = Run")
    case True
    then show ?thesis using y0 by (subst runnable_loop.simps) simp
  next
    case False
    then have "judge k y = Skip" using qy by (auto simp: quiet_def)
    moreover have "qe_next (qes k y) = (if ys = [] then y else hd ys)"
      using ry by (cases ys) (auto simp: ring_one dest: ring_next)
    moreover have "runnable_loop M y False (if ys = [] then y else hd ys) k = Some (next_run k ys, k)"
      using runnable_loop_quiet [of k "[y]" ys M] ry qy by (cases ys) (simp_all add: quiet_def)
    ultimately show ?thesis using y0 False by (subst runnable_loop.simps) simp
  qed
  then show ?thesis by (simp add: find_runnable_qentry_def n y)
qed

lemma next_run_split:
  "e \<in> set xs \<Longrightarrow> judge k e = Run \<Longrightarrow> \<exists>pre r post. xs = pre @ r # post \<and> next_run k xs = r \<and> judge k r = Run \<and> (e = r \<or> e \<in> set post)"
proof (induction xs)
  case (Cons x xs)
  show ?case
  proof (cases "judge k x = Run")
    case True
    then show ?thesis using Cons.prems by (intro exI [of _ "[]"]) auto
  next
    case False
    then have "e \<in> set xs" using Cons.prems by auto
    with Cons.IH Cons.prems(2) obtain pre r post where
      "xs = pre @ r # post" "next_run k xs = r" "judge k r = Run" "e = r \<or> e \<in> set post" by blast
    then show ?thesis using False by (intro exI [of _ "x # pre"]) auto
  qed
qed simp

text \<open>Selecting an entry that can run changes no verdict.\<close>

lemma select_current_judge:
  assumes "judge k r = Run" "current_entry k = r" "qe_task (qes k r) = 0 \<or> qe_worker (qes k r) = 0"
  shows "judge (snd (select_current k)) e = judge k e" "qes (snd (select_current k)) = qes k"
    "current_entry (snd (select_current k)) = r" "scheduler_state (snd (select_current k)) = scheduler_state k"
proof -
  have "judge (upd_task t (\<lambda>x. x\<lparr>task_state := RUNNING\<rparr>) k) e = judge k e" if "t = qe_task (qes k r)" "t \<noteq> 0" for t
    using that assms by (auto simp: judge_def Let_def split: if_splits)
  then show "judge (snd (select_current k)) e = judge k e" by (auto simp: select_current_def Let_def assms(2))
qed (use assms in \<open>auto simp: select_current_def Let_def\<close>)

fun selects :: "machine \<Rightarrow> nat \<Rightarrow> sched \<Rightarrow> sched option" where
  "selects M 0 k = Some k"
| "selects M (Suc n) k = do { (_, k) \<leftarrow> scheduler_select M k; selects M n k }"

definition well_formed :: "sched \<Rightarrow> nat list \<Rightarrow> bool" where
  "well_formed k xs \<longleftrightarrow> ring k xs \<and> scheduler_state k = SCHEDULER_INITIALIZED \<and> current_entry k = hd xs \<and>
     (\<forall>e \<in> set xs. qe_task (qes k e) = 0 \<or> qe_worker (qes k e) = 0)"

lemma select_next:
  assumes w: "well_formed k (c # xs)" and q: "quiet k (c # xs)" and e: "e \<in> set (c # xs)" "judge k e = Run"
  shows "\<exists>pre r post t k'. xs @ [c] = pre @ r # post \<and> (e = r \<or> e \<in> set post) \<and> r = next_run k (xs @ [c]) \<and>
    scheduler_select M k = Some (t, k') \<and> well_formed k' (r # post @ pre) \<and> (\<forall>x. judge k' x = judge k x)"
proof -
  have r: "ring k (c # xs)" and c: "current_entry k = c" "scheduler_state k = SCHEDULER_INITIALIZED" "c \<noteq> 0"
    using w by (auto simp: well_formed_def ring_def)
  obtain pre r' post where s: "xs @ [c] = pre @ r' # post" "next_run k (xs @ [c]) = r'" "judge k r' = Run" "e = r' \<or> e \<in> set post"
    using next_run_split [of e "xs @ [c]" k] e by auto
  have rr: "ring k (r' # post @ pre)"
    using r ring_rotate1 [of k "c # xs"] s(1) ring_rotate [of k pre "r' # post"] by simp
  have sets: "set (r' # post @ pre) = set (c # xs)" using arg_cong [OF s(1), of set] by auto
  have r0: "r' \<noteq> 0" using rr by (auto simp: ring_def)
  define k1 where "k1 = k\<lparr>current_entry := r'\<rparr>"
  have j1: "judge k1 x = judge k x" for x by (simp add: k1_def judge_def Let_def)
  have tw: "qe_task (qes k1 r') = 0 \<or> qe_worker (qes k1 r') = 0"
  proof -
    have "\<forall>x \<in> set (c # xs). qe_task (qes k x) = 0 \<or> qe_worker (qes k x) = 0" using w by (simp add: well_formed_def)
    moreover have "r' \<in> set (c # xs)" unfolding sets [symmetric] by simp
    ultimately have "qe_task (qes k r') = 0 \<or> qe_worker (qes k r') = 0" by (rule bspec)
    then show ?thesis by (simp add: k1_def)
  qed
  note sel = select_current_judge [of k1 r', OF _ _ tw]
  have sel': "judge (snd (select_current k1)) x = judge k x" "qes (snd (select_current k1)) = qes k"
    "current_entry (snd (select_current k1)) = r'" "scheduler_state (snd (select_current k1)) = scheduler_state k" for x
    using sel j1 s(3) by (auto simp: k1_def)
  have "scheduler_select M k = Some (select_current k1)"
    using find_runnable_quiet [OF r q] c r0 s(2) by (simp add: scheduler_select_def k1_def)
  moreover have "well_formed (snd (select_current k1)) (r' # post @ pre)"
    unfolding well_formed_def sets using w rr sel' by (auto simp: well_formed_def ring_def)
  ultimately show ?thesis using s sel'(1) by (metis prod.collapse)
qed

lemma quiet_judge: "quiet k xs \<Longrightarrow> \<forall>x. judge k' x = judge k x \<Longrightarrow> set ys = set xs \<Longrightarrow> quiet k' ys"
  by (simp add: quiet_def)

lemma round_robin_within:
  assumes "well_formed k (c # xs)" "quiet k (c # xs)" "judge k e = Run" "xs @ [c] = as @ e # bs"
  shows "\<exists>n k'. 0 < n \<and> n \<le> Suc (length as) \<and> selects M n k = Some k' \<and> current_entry k' = e"
  using assms
proof (induction "length as" arbitrary: k c xs as bs rule: less_induct)
  case less
  have e: "e \<in> set (c # xs)" using arg_cong [OF less.prems(4), of set] by auto
  obtain pre r post t k1 where s: "xs @ [c] = pre @ r # post" "e = r \<or> e \<in> set post"
      "scheduler_select M k = Some (t, k1)" "well_formed k1 (r # post @ pre)" "\<forall>x. judge k1 x = judge k x"
    using select_next [OF less.prems(1,2) e less.prems(3), of M] by blast
  have d: "distinct (xs @ [c])" using less.prems(1) by (auto simp: well_formed_def ring_def)
  show ?case
  proof (cases "e = r")
    case True
    have "current_entry k1 = e" using s(4) True by (simp add: well_formed_def)
    then show ?thesis using s(3) by (intro exI [of _ 1]) simp
  next
    case False
    then obtain as' bs' where p: "post = as' @ e # bs'" using s(2) by (auto simp: in_set_conv_decomp)
    have "as = pre @ r # as'"
    proof -
      have eq: "as @ e # bs = (pre @ r # as') @ e # bs'" using s(1) less.prems(4) p by simp
      have "e \<notin> set as" "e \<notin> set bs" using d less.prems(4) by auto
      from append_Cons_eq_iff [OF this, of "pre @ r # as'" bs'] show ?thesis using eq by simp
    qed
    then have l: "length as' < length as" by simp
    have q: "quiet k1 (r # post @ pre)"
      by (rule quiet_judge [OF less.prems(2) s(5)]) (use arg_cong [OF s(1), of set] in auto)
    have "\<exists>n k'. 0 < n \<and> n \<le> Suc (length as') \<and> selects M n k1 = Some k' \<and> current_entry k' = e"
      by (rule less.hyps [OF l s(4) q, of "bs' @ pre @ [r]"]) (use s(5) less.prems(3) p in simp_all)
    then obtain n k' where "0 < n" "n \<le> Suc (length as')" "selects M n k1 = Some k'" "current_entry k' = e" by blast
    then show ?thesis using s(3) l by (intro exI [of _ "Suc n"] exI [of _ k']) simp
  qed
qed

section \<open>Searching the ring\<close>

fun search :: "sched \<Rightarrow> u32 \<Rightarrow> nat list \<Rightarrow> nat" where
  "search k pid [] = 0"
| "search k pid (e # es) =
     (let t = qe_task (qes k e) in if t \<noteq> 0 \<and> findable pid (tasks k t) then t else search k pid es)"

lemma ring_next_or_first:
  assumes "ring k (ys @ z # zs)"
  shows "qe_next (qes k z) = (if zs = [] then hd (ys @ [z]) else hd zs)"
proof (cases zs)
  case Nil
  then show ?thesis using assms ring_last [of k "hd ys" "tl ys @ [z]"] by (cases ys) (simp_all add: ring_one)
next
  case (Cons z' zs')
  then show ?thesis using assms ring_next_in [of k ys z z' zs'] by simp
qed

lemma pid_loop_ring:
  "ring k (ys @ z # zs) \<Longrightarrow> pid_loop k pid (hd (ys @ [z])) z = Some (search k pid (butlast (z # zs)))"
proof (induction zs arbitrary: ys z)
  case Nil
  then show ?case using ring_next_or_first [OF Nil] by (subst pid_loop.simps) simp
next
  case (Cons z' zs)
  have n: "qe_next (qes k z) = z'" using ring_next_or_first [OF Cons.prems] by simp
  have d: "z' \<noteq> hd (ys @ [z])" "z' \<noteq> z" using Cons.prems by (cases ys; auto simp: ring_def)+
  have "pid_loop k pid (hd ((ys @ [z]) @ [z'])) z' = Some (search k pid (butlast (z' # zs)))"
    by (rule Cons.IH) (use Cons.prems in simp)
  moreover have "hd ((ys @ [z]) @ [z']) = hd (ys @ [z])" by (cases ys) simp_all
  ultimately show ?case using n d by (subst pid_loop.simps) (simp add: Let_def)
qed

lemma scheduler_find_ring:
  assumes "ring k (c # xs)" "current_entry k = c"
  shows "scheduler_find k pid = Some (search k pid (butlast (c # xs)))"
proof -
  have "c \<noteq> 0" using assms(1) by (auto simp: ring_def)
  then show ?thesis using pid_loop_ring [of k "[]" c xs pid] assms by (simp add: scheduler_find_def)
qed

section \<open>The end of a task\<close>

lemma ring_upd_task [simp]: "ring (upd_task t f k) xs \<longleftrightarrow> ring k xs"
  by (simp add: ring_def)

lemma reparent_loop_ring:
  "ring k (ys @ z # zs) \<Longrightarrow>
    \<exists>k'. reparent_loop t init (hd (ys @ [z])) z k = Some k' \<and> qes k' = qes k \<and> fg_task k' = fg_task k \<and> kmem k' = kmem k \<and>
      (\<forall>i. \<exists>p. tasks k' i = (tasks k i)\<lparr>t_parent := p\<rparr> \<and>
         p = (if i \<noteq> 0 \<and> i \<in> (qe_task \<circ> qes k) ` set (butlast (z # zs)) \<and> t_parent (tasks k i) = t then init else t_parent (tasks k i)))"
proof (induction zs arbitrary: ys z k)
  case Nil
  have "qe_next (qes k z) = hd (ys @ [z])" using ring_next_or_first [OF Nil] by simp
  then have "reparent_loop t init (hd (ys @ [z])) z k = Some k" by (subst reparent_loop.simps) simp
  then show ?case by simp
next
  case (Cons z' zs)
  define i where "i = qe_task (qes k z)"
  define k1 where "k1 = (if i \<noteq> 0 \<and> t_parent (tasks k i) = t then upd_task i (\<lambda>c. c\<lparr>t_parent := init\<rparr>) k else k)"
  have n: "qe_next (qes k z) = z'" using ring_next_or_first [OF Cons.prems] by simp
  have d: "z' \<noteq> hd (ys @ [z])" using Cons.prems by (cases ys; auto simp: ring_def)
  have r1: "ring k1 ((ys @ [z]) @ z' # zs)" using Cons.prems by (simp add: k1_def)
  have q1: "qes k1 = qes k" "fg_task k1 = fg_task k" "kmem k1 = kmem k" by (simp_all add: k1_def upd_task_def)
  have h: "hd ((ys @ [z]) @ [z']) = hd (ys @ [z])" by (cases ys) simp_all
  from Cons.IH [OF r1] obtain k' where k': "reparent_loop t init (hd (ys @ [z])) z' k1 = Some k'" "qes k' = qes k"
      "fg_task k' = fg_task k" "kmem k' = kmem k"
      "\<And>j. \<exists>p. tasks k' j = (tasks k1 j)\<lparr>t_parent := p\<rparr> \<and>
         p = (if j \<noteq> 0 \<and> j \<in> (qe_task \<circ> qes k) ` set (butlast (z' # zs)) \<and> t_parent (tasks k1 j) = t then init else t_parent (tasks k1 j))"
    unfolding h q1 by auto
  have step: "reparent_loop t init (hd (ys @ [z])) z k = Some k'"
    using k'(1) d n unfolding k1_def by (subst reparent_loop.simps) (auto simp: Let_def i_def)
  have "\<exists>p. tasks k' j = (tasks k j)\<lparr>t_parent := p\<rparr> \<and>
      p = (if j \<noteq> 0 \<and> j \<in> (qe_task \<circ> qes k) ` set (butlast (z # z' # zs)) \<and> t_parent (tasks k j) = t then init else t_parent (tasks k j))" for j
    using k'(5) [of j] by (auto simp: k1_def i_def)
  then show ?case using step k'(2-4) by blast
qed

lemma signal_default_child:
  assumes "sa_handler (t_signal_handlers t ! 20) \<in> {SIG_DFL, SIG_IGN}" "task_state t \<noteq> STOPPED"
  shows "task_signal cm c SIGCHLD t = Some (Inr (0, t))"
  using assms by (auto simp: task_signal_def signal_consts Let_def)

definition awaits :: "sched \<Rightarrow> nat \<Rightarrow> nat \<Rightarrow> bool" where
  "awaits k p t \<longleftrightarrow> task_state (tasks k p) = WAITING \<and> (t_wait_for (tasks k p) = 0 \<or> t_wait_for (tasks k p) = t_pid (tasks k t))"

lemma notify_waiting:
  assumes "t_parent (tasks k t) = p" "p \<noteq> 0" "p \<noteq> t" "awaits k p t"
    and h: "sa_handler (t_signal_handlers (tasks k p) ! 20) \<in> {SIG_DFL, SIG_IGN}"
  shows "\<exists>k'. notify_parent M t k = Some k' \<and> task_state (tasks k' t) = REAPED \<and> task_state (tasks k' p) = RUNNING \<and>
    t_wait_res_pid (tasks k' p) = t_pid (tasks k t) \<and>
    kmem k' = (if t_stat_loc (tasks k p) \<noteq> 0 then (kmem k)(t_stat_loc (tasks k p) := t_exit_code (tasks k t)) else kmem k) \<and>
    (\<forall>i. t_parent (tasks k' i) = t_parent (tasks k i))"
proof -
  define w where "w = wait_finish p t k"
  have w: "task_state (tasks w t) = REAPED" "task_state (tasks w p) = RUNNING" "t_wait_res_pid (tasks w p) = t_pid (tasks k t)"
      "kmem w = (if t_stat_loc (tasks k p) \<noteq> 0 then (kmem k)(t_stat_loc (tasks k p) := t_exit_code (tasks k t)) else kmem k)"
      "\<forall>i. t_parent (tasks w i) = t_parent (tasks k i)"
      "t_signal_handlers (tasks w p) = t_signal_handlers (tasks k p)"
    using assms(3,4) by (auto simp: w_def wait_finish_def Let_def awaits_def upd_task_def)
  have "task_signal (can_map M p) (crt0 M) SIGCHLD (tasks w p) = Some (Inr (0, tasks w p))"
    by (rule signal_default_child) (use h w in auto)
  then have "signal_task M p SIGCHLD w = Some (Inr 0, upd_task p (\<lambda>_. tasks w p) w)" by (simp add: signal_task_def)
  moreover have "upd_task p (\<lambda>_. tasks w p) w = w" by (simp add: upd_task_def)
  ultimately have "notify_parent M t k = Some w"
    using assms by (simp add: notify_parent_def Let_def awaits_def w_def)
  then show ?thesis using w by blast
qed

section \<open>Properties\<close>

text \<open>
  C21. The queue stays a ring: a new task or worker is linked directly behind the current entry, and removing an entry closes
  the ring around it, for every ring of two or more entries and every position.
\<close>

theorem ring_operations:
  assumes "ring k (c # xs)" "current_entry k = c" "e \<noteq> 0" "e \<notin> set (c # xs)"
  shows "ring (scheduler_add e t k) (c # e # xs) \<and> ring (scheduler_add_worker e w k) (c # e # xs) \<and>
    (\<forall>ys d zs. c # xs = ys @ d # zs \<and> ys @ zs \<noteq> [] \<longrightarrow> (\<exists>k'. unlink d k = Some k' \<and> ring k' (ys @ zs)))"
proof (intro conjI allI impI)
  have "ring (link_entry e t 0 (upd_task t (\<lambda>x. x\<lparr>t_qentry := e\<rparr>) k)) (c # e # xs)"
    using assms by (intro ring_add) simp_all
  then show "ring (scheduler_add e t k) (c # e # xs)" by (simp add: scheduler_add_def Let_def ring_def)
  show "ring (scheduler_add_worker e w k) (c # e # xs)"
    unfolding scheduler_add_worker_def using assms by (intro ring_add) simp_all
next
  fix ys d zs assume a: "c # xs = ys @ d # zs \<and> ys @ zs \<noteq> []"
  then have "ring k (d # zs @ ys)" using assms(1) ring_rotate [of k ys "d # zs"] by simp
  from ring_unlink [OF this] a obtain k' where "unlink d k = Some k'" "ring k' (zs @ ys)" by auto
  then show "\<exists>k'. unlink d k = Some k' \<and> ring k' (ys @ zs)" using ring_rotate by blast
qed

definition test_task :: "u32 \<Rightarrow> nat \<Rightarrow> nat \<Rightarrow> task" where
  "test_task pid parent q = \<lparr>t_pid = pid, t_uid = 0, t_gid = 0, t_euid = 0, t_egid = 0, t_parent = parent, t_qentry = q,
     t_state = \<lparr>edi = 0, esi = 0, ebp = 0, ebx = 0, edx = 0, ecx = 0, eax = 0, esp = 0\<rparr>,
     t_iret = \<lparr>iret_eip = 0x1000, iret_user_esp = 0x8000\<rparr>, t_mem = (\<lambda>_. 0), t_ctty = 0, task_state = RUNNING, t_exit_code = 0,
     t_signal_handlers = replicate 33 \<lparr>sa_flags = 0, sa_mask = 0, sa_handler = 0\<rparr>, t_signal_mask = 0, t_wait_for = 0,
     t_wait_res_pid = 0, t_stat_loc = 0, t_interrupt_yield = False, t_sleep_until = 0, t_strace_observer = 0, t_strace_fd = 0\<rparr>"

text \<open>Three tasks: 101 is \<^verbatim>\<open>init\<close>, 102 its child, 103 a child of 102; their entries are 1, 2 and 3 and the first is current.\<close>

definition three_tasks :: "task_state \<Rightarrow> task_state \<Rightarrow> task_state \<Rightarrow> sched" where
  "three_tasks s1 s2 s3 =
     \<lparr>tasks = (\<lambda>t. if t = 101 then (test_task 1 0 1)\<lparr>task_state := s1\<rparr> else if t = 102 then (test_task 2 101 2)\<lparr>task_state := s2\<rparr>
        else (test_task 3 102 3)\<lparr>task_state := s3\<rparr>),
      qes = (\<lambda>e. if e = 1 then \<lparr>qe_next = 2, qe_prev = 3, qe_task = 101, qe_worker = 0\<rparr>
        else if e = 2 then \<lparr>qe_next = 3, qe_prev = 1, qe_task = 102, qe_worker = 0\<rparr>
        else \<lparr>qe_next = 1, qe_prev = 2, qe_task = 103, qe_worker = 0\<rparr>),
      stopped = (\<lambda>_. False), fg_task = (\<lambda>_. 0), current_entry = 1, idle_qentry = 9, scheduler_state = SCHEDULER_INITIALIZED,
      tick = 0, freed = {}, kmem = (\<lambda>_. 0), closed_fds = []\<rparr>"

definition test_machine :: machine where
  "test_machine = \<lparr>can_map = (\<lambda>_ _. True), crt0 = 0x7000\<rparr>"

lemma three_ring: "ring (three_tasks s1 s2 s3) [1, 2, 3]" "well_formed (three_tasks s1 s2 s3) [1, 2, 3]"
  by (auto simp: ring_def links_def three_tasks_def well_formed_def)

theorem ring_operations_witness:
  "ring (scheduler_add 4 104 (three_tasks RUNNING RUNNING RUNNING)) [1, 4, 2, 3]"
  using ring_operations [OF three_ring(1) [of RUNNING RUNNING RUNNING], where e = 4 and t = 104] by (simp add: three_tasks_def)

text \<open>
  C11. Round robin: as long as no entry has to be removed, every entry that can run is selected within as many selections as the
  ring has entries.
\<close>

theorem scheduler_round_robin:
  assumes "well_formed k (c # xs)" "quiet k (c # xs)" "e \<in> set (c # xs)" "judge k e = Run"
  shows "\<exists>n k'. 0 < n \<and> n \<le> length (c # xs) \<and> selects M n k = Some k' \<and> current_entry k' = e"
proof -
  have "e \<in> set (xs @ [c])" using assms(3) by auto
  then obtain as bs where s: "xs @ [c] = as @ e # bs" by (metis split_list)
  have "length as < length (c # xs)" using arg_cong [OF s, of length] by simp
  moreover obtain n k' where "0 < n" "n \<le> Suc (length as)" "selects M n k = Some k'" "current_entry k' = e"
    using round_robin_within [OF assms(1,2,4) s, of M] by blast
  ultimately show ?thesis by (intro exI [of _ n] exI [of _ k']) simp
qed

theorem scheduler_round_robin_witness:
  "\<exists>n k'. 0 < n \<and> n \<le> 3 \<and> selects test_machine n (three_tasks WAITING WAITING RUNNING) = Some k' \<and> current_entry k' = 3"
proof -
  have "judge (three_tasks WAITING WAITING RUNNING) 1 = Skip" "judge (three_tasks WAITING WAITING RUNNING) 2 = Skip"
      "judge (three_tasks WAITING WAITING RUNNING) 3 = Run"
    by (simp_all add: judge_def three_tasks_def test_task_def)
  then show ?thesis
    using scheduler_round_robin [OF three_ring(2), of WAITING WAITING RUNNING 3 test_machine]
    by (simp add: quiet_def numeral_3_eq_3)
qed

text \<open>
  \<^verbatim>\<open>scheduler_find\<close> returns and finds the first task with the number among all entries of the ring except the last one, the
  predecessor of the current entry: a task there is reported as missing, and with one entry in the ring every search fails.
\<close>

lemma scheduler_find_misses_last:
  assumes "ring k (c # xs)" "current_entry k = c"
  shows "scheduler_find k pid = Some (search k pid (butlast (c # xs)))"
  by (rule scheduler_find_ring [OF assms])

lemma scheduler_find_misses_last_example:
  "scheduler_find (three_tasks RUNNING RUNNING RUNNING) 2 = Some 102 \<and> scheduler_find (three_tasks RUNNING RUNNING RUNNING) 3 = Some 0"
  using scheduler_find_misses_last [OF three_ring(1), of RUNNING RUNNING RUNNING] 
  by (simp add: three_tasks_def test_task_def findable_def)


definition waiting_parent :: sched where
  "waiting_parent = (let k = three_tasks RUNNING WAITING TERMINATED in
     upd_task 102 (\<lambda>t. t\<lparr>t_stat_loc := 0x500\<rparr>) (upd_task 103 (\<lambda>t. t\<lparr>t_exit_code := 0x700\<rparr>) k))"


text \<open>
  When the entry behind the current one has to be removed (its task was reaped or replaced, or its worker stopped) and no other entry
  can run at the moment, \<^verbatim>\<open>scheduler_select\<close> never returns: the loop ends only when it comes back to that entry, which is no longer in
  the ring.
\<close>

lemma scheduler_select_hangs:
  assumes r: "ring k (c # d # ys)" "current_entry k = c" "scheduler_state k = SCHEDULER_INITIALIZED"
    and d: "judge k d = Reap" and skip: "\<forall>e \<in> set (c # ys). judge k e = Skip"
  shows "scheduler_select M k = None"
proof -
  have rd: "ring k (d # ys @ [c])" using r(1) ring_rotate1 [of k "c # d # ys"] by simp
  obtain k' where k': "unlink d k = Some k'" "ring k' (ys @ [c])" "qe_next (qes k' d) = qe_next (qes k d)"
      "tasks k' = tasks k" "stopped k' = stopped k" "tick k' = tick k"
      "\<forall>x. qe_task (qes k' x) = qe_task (qes k x) \<and> qe_worker (qes k' x) = qe_worker (qes k x)"
    using ring_unlink [OF rd] by auto
  have j: "judge k' x = judge k x" for x by (simp add: judge_def Let_def k'(4-6) k'(7) [rule_format])
  have d0: "d \<noteq> 0" "d \<notin> set (ys @ [c])" "c \<noteq> 0" using rd by (auto simp: ring_def)
  have nx: "qe_next (qes k' q) \<in> set (ys @ [c])" if q: "q \<in> set (ys @ [c])" for q
  proof -
    obtain as bs where s: "ys @ [c] = as @ q # bs" using split_list [OF q] by blast
    then have n: "qe_next (qes k' q) = (if bs = [] then hd (as @ [q]) else hd bs)" using ring_next_or_first [of k' as q bs] k'(2) by simp
    show ?thesis unfolding s n by (cases as; cases bs) simp_all
  qed
  have "\<not> (orig = d \<and> \<not> initial \<and> q \<in> set (ys @ [c]) \<and> kk = k')" if "runnable_loop M orig initial q kk = Some res" for M orig initial q kk res
  proof (rule runnable_loop.raw_induct [OF _ that, where P = "\<lambda>M orig initial q kk res. \<not> (orig = d \<and> \<not> initial \<and> q \<in> set (ys @ [c]) \<and> kk = k')"])
    fix loop M orig initial q kk res
    assume IH: "\<And>M orig initial q kk res. loop M orig initial q kk = Some res \<Longrightarrow> \<not> (orig = d \<and> \<not> initial \<and> q \<in> set (ys @ [c]) \<and> kk = k')"
      and eq: "(if q = 0 then None
      else if q = orig \<and> \<not> initial then Some (0, kk)
      else (case judge kk q of
              Run \<Rightarrow> Some (q, kk)
            | Skip \<Rightarrow> loop M orig False (qe_next (qes kk q)) kk
            | Reap \<Rightarrow> do { k' \<leftarrow> unlink q kk; loop M orig False (qe_next (qes k' q)) k' }
            | Finish \<Rightarrow> do { k' \<leftarrow> task_userland_eol M (qe_task (qes kk q)) kk;
                             loop M orig False (qe_next (qes k' q)) k' })) = Some res"
    show "\<not> (orig = d \<and> \<not> initial \<and> q \<in> set (ys @ [c]) \<and> kk = k')"
    proof
      assume a: "orig = d \<and> \<not> initial \<and> q \<in> set (ys @ [c]) \<and> kk = k'"
      then have "judge kk q = Skip" "q \<noteq> orig" using skip j d0(2) by auto
      then have "loop M orig False (qe_next (qes kk q)) kk = Some res" using eq by (auto split: if_splits)
      then show False using IH nx a by blast
    qed
  qed
  from this [of M d False _ k'] have never: "runnable_loop M d False q k' = None" if "q \<in> set (ys @ [c])" for q
    using that by (cases "runnable_loop M d False q k'") auto
  have n: "qe_next (qes k c) = d" "qe_next (qes k d) \<in> set (ys @ [c])"
  proof -
    show "qe_next (qes k c) = d" using ring_next [OF r(1)] by simp
    show "qe_next (qes k d) \<in> set (ys @ [c])" using rd by (cases ys) (auto dest: ring_next)
  qed
  have "runnable_loop M d True d k = None"
    using d0 d k'(1,3) never [OF n(2)] by (subst runnable_loop.simps) simp
  then show ?thesis using r(2,3) d0(3) n(1) by (simp add: scheduler_select_def find_runnable_qentry_def)
qed

lemma scheduler_select_hangs_example:
  "scheduler_select test_machine (three_tasks WAITING REPLACED WAITING) = None"
  using scheduler_select_hangs [OF three_ring(1), of WAITING REPLACED WAITING test_machine]
  by (simp add: three_tasks_def judge_def test_task_def)

end
