(* ===== verification/Pipe.thy ===== *)
theory Pipe
  imports Vfs_Props Buffer
begin

text \<open>
  Pipes (\<^verbatim>\<open>src/fs/pipe.c\<close>) and polling (\<^verbatim>\<open>src/fs/poll.c\<close>). The loops that yield to the scheduler see a new state in each
  round: what the round \<open>i\<close> finds is given by a function of \<open>i\<close>.
\<close>

section \<open>Creating a pipe\<close>

record pipe =
  pipe_buf :: buffer
  pipe_fd0 :: nat
  pipe_fd1 :: nat

text \<open>The addresses of the four callbacks.\<close>

record pipe_fns =
  pipe_read_fn :: u32
  pipe_write_fn :: u32
  pipe_poll_fn :: u32
  pipe_stat_fn :: u32

text \<open>
  \<open>addr\<close> is what \<^verbatim>\<open>zmalloc\<close> returned. When the buffer cannot be allocated, both files stay open.
\<close>

definition vfs_pipe :: "'w drivers \<Rightarrow> pipe_fns \<Rightarrow> vm_alloc \<Rightarrow> u32 \<Rightarrow> (int \<times> pipe option, 'w) call" where
  "vfs_pipe D fns alloc addr s =
     (case vfs_alloc_fileno 3 s of
        (None, s) \<Rightarrow> Some ((- 1, None), s\<lparr>sc_errno := Some EMFILE\<rparr>)
      | (Some i, s) \<Rightarrow>
          (case vfs_alloc_fileno (f_num (files s ! i)) s of
             (None, s) \<Rightarrow> do {
               (_, s) \<leftarrow> vfs_close D (int (f_num (files s ! i))) s;
               Some ((- 1, None), s\<lparr>sc_errno := Some EMFILE\<rparr>)
             }
           | (Some j, s) \<Rightarrow>
               (case buffer_new alloc 150 of
                  None \<Rightarrow> Some ((- 1, None), s)
                | Some b \<Rightarrow>
                    let p = \<lparr>pipe_buf = b, pipe_fd0 = f_num (files s ! i), pipe_fd1 = f_num (files s ! j)\<rparr>;
                        s = upd_file i (\<lambda>f. f\<lparr>f_callbacks := (f_callbacks f)\<lparr>cb_read := pipe_read_fn fns, cb_poll := pipe_poll_fn fns,
                              cb_stat := pipe_stat_fn fns\<rparr>, f_flags := O_RDONLY, f_mount_instance := addr, f_type := ucast FT_IFPIPE\<rparr>) s;
                        s = upd_file j (\<lambda>f. f\<lparr>f_callbacks := (f_callbacks f)\<lparr>cb_write := pipe_write_fn fns, cb_poll := pipe_poll_fn fns,
                              cb_stat := pipe_stat_fn fns\<rparr>, f_flags := O_WRONLY, f_mount_instance := addr, f_type := ucast FT_IFPIPE\<rparr>) s
                    in Some ((0, Some p), s))))"

section \<open>Reading, writing and polling\<close>

datatype pipe_result = Eof | Again | Data "u8 list" pipe

text \<open>
  Round \<open>i\<close> sees the pipe and the file table \<open>view i\<close>. \<open>None\<close>: the loop does not end, a lookup does not end, or the
  lock of the buffer is not released.
\<close>

partial_function (option) pipe_read :: "(nat \<Rightarrow> pipe \<times> vfs_file list) \<Rightarrow> u32 \<Rightarrow> u32 \<Rightarrow> nat \<Rightarrow> pipe_result option" where
  "pipe_read view flags sz i =
     (let (p, fs) = view i in
      case buffer_size (pipe_buf p) of
        Ret n \<Rightarrow>
          if n = 0 then do {
            w \<leftarrow> vfs_get_from_id fs (int (pipe_fd1 p));
            (case w of
               None \<Rightarrow> Some Eof
             | Some _ \<Rightarrow> if flags AND O_NONBLOCK \<noteq> 0 then Some Again else pipe_read view flags sz (Suc i))
          }
          else (case buffer_pop (pipe_buf p) sz of
                  Ret (bytes, b) \<Rightarrow> Some (Data bytes (p\<lparr>pipe_buf := b\<rparr>))
                | _ \<Rightarrow> None)
      | _ \<Rightarrow> None)"

definition pipe_write :: "vm_alloc \<Rightarrow> pipe \<Rightarrow> u8 list \<Rightarrow> u32 \<Rightarrow> (u32 \<times> errno option \<times> pipe) outcome" where
  "pipe_write alloc p src sz =
     (case buffer_write alloc (pipe_buf p) src sz of
        Ret (n, e, b) \<Rightarrow> Ret (n, e, p\<lparr>pipe_buf := b\<rparr>) | Spin \<Rightarrow> Spin | Panic \<Rightarrow> Panic | Fault \<Rightarrow> Fault)"

definition POLLIN :: u32 where "POLLIN = 1"

definition pipe_poll :: "pipe option \<Rightarrow> u32 \<Rightarrow> (errno + u32) outcome" where
  "pipe_poll p events =
     (case p of
        None \<Rightarrow> Ret (Inl EINVAL)
      | Some p \<Rightarrow>
          if events AND POLLIN \<noteq> 0
          then (case buffer_size (pipe_buf p) of Ret n \<Rightarrow> Ret (Inr (if n \<noteq> 0 then POLLIN else 0))
                | Spin \<Rightarrow> Spin | Panic \<Rightarrow> Panic | Fault \<Rightarrow> Fault)
          else Ret (Inr 0))"

definition pipe_stat :: "u32 \<Rightarrow> vfs_stat_t" where
  "pipe_stat t = \<lparr>st_dev = 3, st_ino = 1, st_mode = FT_IFIFO OR 0x1b6, st_nlink = 2, st_uid = 0, st_gid = 0, st_rdev = 0,
     st_size = 0, st_atime = ucast t, st_mtime = ucast t, st_ctime = ucast t, st_blksize = 1024, st_blocks = 2\<rparr>"

section \<open>The poll system call\<close>

text \<open>The contexts of all files are built first.\<close>

fun poll_contexts :: "'w vfs \<Rightarrow> int list \<Rightarrow> (errno + unit) option" where
  "poll_contexts s [] = Some (Inr ())"
| "poll_contexts s (fd # fds) = do {
     r \<leftarrow> vfs_context_from_fd fd s;
     (case r of
        None \<Rightarrow> Some (Inl EBADF)
      | Some (i, _) \<Rightarrow> if cb_poll (f_callbacks (files s ! i)) = 0 then Some (Inl ENOSYS) else poll_contexts s fds)
   }"

text \<open>The first file whose callback returns a positive number, with that number. \<open>poll i\<close> is the result for file \<open>i\<close>.\<close>

fun poll_round :: "(nat \<Rightarrow> int) \<Rightarrow> nat \<Rightarrow> nat \<Rightarrow> (nat \<times> int) option" where
  "poll_round poll 0 i = None"
| "poll_round poll (Suc n) i = (if 0 < poll i then Some (i, poll i) else poll_round poll n (Suc i))"

partial_function (option) poll_loop :: "(nat \<Rightarrow> nat \<Rightarrow> int) \<Rightarrow> (nat \<Rightarrow> u32) \<Rightarrow> nat \<Rightarrow> u32 \<Rightarrow> nat \<Rightarrow> (nat \<times> int) option option" where
  "poll_loop poll tick nfds timeout_end i =
     (case poll_round (poll i) nfds 0 of
        Some hit \<Rightarrow> Some (Some hit)
      | None \<Rightarrow>
          if timeout_end \<noteq> 0 \<and> timeout_end < tick i then Some None
          else poll_loop poll tick nfds timeout_end (Suc i))"

text \<open>
  The result is the return value and, if it is 1, the position and \<^verbatim>\<open>revents\<close> of the file. A timeout of zero at tick
  zero counts as no timeout at all, because \<^verbatim>\<open>timeout_end\<close> is zero then. \<open>None\<close>: it waits for ever, or it divides by a timer rate of zero.
\<close>

definition poll_timeout_end :: "int \<Rightarrow> u32 \<Rightarrow> u32 \<Rightarrow> u32" where
  "poll_timeout_end timeout now rate = (if 0 \<le> timeout then now + word_of_int (timeout * 1000) div rate else 0)"

definition vfs_poll ::
    "'w vfs \<Rightarrow> int list \<Rightarrow> int \<Rightarrow> u32 \<Rightarrow> u32 \<Rightarrow> (nat \<Rightarrow> nat \<Rightarrow> int) \<Rightarrow> (nat \<Rightarrow> u32) \<Rightarrow> (errno + int \<times> (nat \<times> int) option) option" where
  "vfs_poll s fds timeout now rate poll tick =
     (if 0 \<le> timeout \<and> rate = 0 then None
      else do {
        c \<leftarrow> poll_contexts s fds;
        (case c of
           Inl e \<Rightarrow> Some (Inl e)
         | Inr _ \<Rightarrow> do {
             r \<leftarrow> poll_loop poll tick (length fds) (poll_timeout_end timeout now rate) 0;
             Some (Inr (case r of None \<Rightarrow> (0, None) | Some hit \<Rightarrow> (1, Some hit)))
           })
      })"

section \<open>Facts\<close>

lemma poll_round_first:
  "poll_round poll n i = (if \<exists>j. i \<le> j \<and> j < i + n \<and> 0 < poll j
     then (let j = LEAST j. i \<le> j \<and> j < i + n \<and> 0 < poll j in Some (j, poll j)) else None)"
proof (induction n arbitrary: i)
  case (Suc n)
  show ?case
  proof (cases "0 < poll i")
    case True
    have "(LEAST j. i \<le> j \<and> j < i + Suc n \<and> 0 < poll j) = i" by (rule Least_equality) (use True in auto)
    moreover have "\<exists>j. i \<le> j \<and> j < i + Suc n \<and> 0 < poll j" using True by (intro exI [of _ i]) simp
    ultimately show ?thesis using True by (simp add: Let_def)
  next
    case False
    have "i \<le> j \<and> j < i + Suc n \<and> 0 < poll j \<longleftrightarrow> Suc i \<le> j \<and> j < Suc i + n \<and> 0 < poll j" for j
      using False by (auto simp: le_less Suc_le_eq)
    then have "(\<exists>j. i \<le> j \<and> j < i + Suc n \<and> 0 < poll j) \<longleftrightarrow> (\<exists>j. Suc i \<le> j \<and> j < Suc i + n \<and> 0 < poll j)"
        "(LEAST j. i \<le> j \<and> j < i + Suc n \<and> 0 < poll j) = (LEAST j. Suc i \<le> j \<and> j < Suc i + n \<and> 0 < poll j)"
      by presburger+
    then show ?thesis using False Suc.IH [of "Suc i"] by (simp only: poll_round.simps if_False)
  qed
qed auto

text \<open>With a timeout that the tick counter passes, polling ends.\<close>

lemma poll_loop_ends:
  assumes "e \<noteq> 0" "e < tick (i + m)"
  shows "\<exists>r. poll_loop poll tick nfds e i = Some r"
  using assms(2)
proof (induction m arbitrary: i)
  case 0
  then show ?case using assms(1) by (subst poll_loop.simps) (auto split: option.splits)
next
  case (Suc m)
  then have "\<exists>r. poll_loop poll tick nfds e (Suc i) = Some r" by simp
  then show ?case by (subst poll_loop.simps) (auto split: option.splits)
qed

lemma pipe_read_now:
  assumes "view i = (p, fs)" "buffer_usable (pipe_buf p)" "contents (pipe_buf p) \<noteq> []"
  shows "\<exists>b. pipe_read view flags sz i = Some (Data (take (unat sz) (contents (pipe_buf p))) (p\<lparr>pipe_buf := b\<rparr>)) \<and>
    buffer_usable b \<and> contents b = drop (unat sz) (contents (pipe_buf p))"
proof -
  have ok: "buffer_ok (pipe_buf p)" "\<not> bf_lock (pipe_buf p)" using assms(2) by (auto simp: buffer_usable_def)
  have "bf_size (pipe_buf p) \<noteq> 0" using assms(3) contents_length [OF ok(1)] by auto
  moreover obtain b where "buffer_get (pipe_buf p) sz = Some (take (unat sz) (contents (pipe_buf p)), b)"
      "buffer_usable b" "contents b = drop (unat sz) (contents (pipe_buf p))"
    using buf.get_queued [OF assms(2)] by blast
  moreover from this(1) have "buffer_pop (pipe_buf p) sz = Ret (take (unat sz) (contents (pipe_buf p)), b)"
    by (auto simp: buffer_get_def split: outcome.splits)
  ultimately show ?thesis using assms(1) ok(2)
    by (subst pipe_read.simps) (auto simp: buffer_size_def)
qed

lemma pipe_read_empty:
  assumes "view i = (p, fs)" "buffer_usable (pipe_buf p)" "contents (pipe_buf p) = []"
  shows "vfs_get_from_id fs (int (pipe_fd1 p)) = Some None \<Longrightarrow> pipe_read view flags sz i = Some Eof"
    "vfs_get_from_id fs (int (pipe_fd1 p)) = Some (Some j) \<Longrightarrow> flags AND O_NONBLOCK \<noteq> 0 \<Longrightarrow> pipe_read view flags sz i = Some Again"
    "vfs_get_from_id fs (int (pipe_fd1 p)) = Some (Some j) \<Longrightarrow> flags AND O_NONBLOCK = 0 \<Longrightarrow>
      pipe_read view flags sz i = pipe_read view flags sz (Suc i)"
proof -
  have ok: "buffer_ok (pipe_buf p)" "\<not> bf_lock (pipe_buf p)" using assms(2) by (auto simp: buffer_usable_def)
  have z: "bf_size (pipe_buf p) = 0" using assms(3) contents_length [OF ok(1)] by (simp add: unat_eq_0)
  show "vfs_get_from_id fs (int (pipe_fd1 p)) = Some None \<Longrightarrow> pipe_read view flags sz i = Some Eof"
    "vfs_get_from_id fs (int (pipe_fd1 p)) = Some (Some j) \<Longrightarrow> flags AND O_NONBLOCK \<noteq> 0 \<Longrightarrow> pipe_read view flags sz i = Some Again"
    "vfs_get_from_id fs (int (pipe_fd1 p)) = Some (Some j) \<Longrightarrow> flags AND O_NONBLOCK = 0 \<Longrightarrow>
      pipe_read view flags sz i = pipe_read view flags sz (Suc i)"
    using assms(1) ok(2) z by (subst pipe_read.simps, simp add: buffer_size_def)+
qed

section \<open>Properties\<close>

text \<open>
  C29. A pipe delivers what is written to it: after a write that succeeds, a read returns the oldest bytes, those that were in the pipe before
  first, at most as many as it asks for, and leaves the rest. On an empty pipe a read reports the end of the file when the
  writing end is closed, and \<^verbatim>\<open>EAGAIN\<close> when it must not wait.
\<close>

theorem pipe_transfer:
  assumes "gives_pages alloc" "buffer_usable (pipe_buf p)" "length xs = unat sz" "unat sz \<le> 2 ^ 28"
    and w: "pipe_write alloc p xs sz = Ret (n, e, p')" "n \<noteq> - 1" and view: "view i = (p', fs)"
  shows "n = sz \<and> pipe_fd1 p' = pipe_fd1 p \<and>
    (contents (pipe_buf p) @ xs \<noteq> [] \<longrightarrow>
      (\<exists>b. pipe_read view flags m i = Some (Data (take (unat m) (contents (pipe_buf p) @ xs)) (p'\<lparr>pipe_buf := b\<rparr>)) \<and>
         contents b = drop (unat m) (contents (pipe_buf p) @ xs))) \<and>
    (contents (pipe_buf p) @ xs = [] \<longrightarrow>
      (vfs_get_from_id fs (int (pipe_fd1 p)) = Some None \<longrightarrow> pipe_read view flags m i = Some Eof) \<and>
      (\<forall>j. vfs_get_from_id fs (int (pipe_fd1 p)) = Some (Some j) \<and> flags AND O_NONBLOCK \<noteq> 0 \<longrightarrow> pipe_read view flags m i = Some Again))"
proof -
  obtain b where b: "buffer_write alloc (pipe_buf p) xs sz = Ret (n, e, b)" "p' = p\<lparr>pipe_buf := b\<rparr>"
    using w(1) by (auto simp: pipe_write_def split: outcome.splits prod.splits)
  then have u: "n = sz" "buffer_usable b" "contents b = contents (pipe_buf p) @ xs"
    using buffer_write_correct [OF assms(1) _ _ assms(3,4), of "pipe_buf p"] assms(2) w(2)
    by (auto simp: buffer_usable_def)
  have p': "pipe_buf p' = b" "pipe_fd1 p' = pipe_fd1 p" using b(2) by simp_all
  have "contents b \<noteq> [] \<Longrightarrow> \<exists>b'. pipe_read view flags m i = Some (Data (take (unat m) (contents b)) (p'\<lparr>pipe_buf := b'\<rparr>)) \<and> contents b' = drop (unat m) (contents b)"
    using pipe_read_now [of view i p' fs flags m, OF view] u(2) p'(1) by auto
  moreover have "contents b = [] \<Longrightarrow> vfs_get_from_id fs (int (pipe_fd1 p)) = Some None \<Longrightarrow> pipe_read view flags m i = Some Eof"
    "contents b = [] \<Longrightarrow> vfs_get_from_id fs (int (pipe_fd1 p)) = Some (Some j) \<Longrightarrow> flags AND O_NONBLOCK \<noteq> 0 \<Longrightarrow> pipe_read view flags m i = Some Again" for j
    using pipe_read_empty [of view i p' fs, OF view] u(2) p' by auto
  ultimately show ?thesis using u p'(2) by auto
qed

theorem pipe_transfer_witness:
  "\<exists>n e p' b. pipe_write zero_pages \<lparr>pipe_buf = fresh_buffer, pipe_fd0 = 3, pipe_fd1 = 4\<rparr> [1, 2, 3] 3 = Ret (n, e, p') \<and>
     pipe_read (\<lambda>_. (p', [])) 0 2 0 = Some (Data [1, 2] (p'\<lparr>pipe_buf := b\<rparr>)) \<and> contents b = [3]"
proof -
  let ?p = "\<lparr>pipe_buf = fresh_buffer, pipe_fd0 = 3, pipe_fd1 = 4\<rparr>"
  have u: "buffer_usable fresh_buffer" using fresh_buffer_ok by (simp add: buffer_usable_def)
  have "\<not> unat (bf_pages fresh_buffer) * 4096 < unat (bf_size fresh_buffer) + unat (3 :: u32)" by (simp add: fresh_buffer_def)
  then obtain b where b: "buffer_write zero_pages fresh_buffer [1, 2, 3] 3 = Ret (3, None, b)"
    using buffer_write_correct [OF zero_pages_ok, of fresh_buffer "[1, 2, 3]" 3] fresh_buffer_ok by auto
  then have w: "pipe_write zero_pages ?p [1, 2, 3] 3 = Ret (3, None, ?p\<lparr>pipe_buf := b\<rparr>)" by (simp add: pipe_write_def)
  have "contents fresh_buffer = []" by (rule fresh_buffer_ok)
  then show ?thesis
    using pipe_transfer [OF zero_pages_ok, of ?p "[1, 2, 3]" 3 3 None "?p\<lparr>pipe_buf := b\<rparr>" "\<lambda>_. (?p\<lparr>pipe_buf := b\<rparr>, [])" 0 "[]" 0 2] u w
    by auto
qed

end
