(* ===== verification/Time.thy ===== *)
theory Time
  imports Prelude
begin

text \<open>
  The clock (\<^verbatim>\<open>src/lib/time.c\<close>): reading the registers of the real-time clock until two readings agree, converting them to a
  Unix timestamp, and counting on with the timer. The registers are inputs of the model.
\<close>

section \<open>Reading and converting\<close>

record rtc =
  r_second :: u8
  r_minute :: u8
  r_hour :: u8
  r_day :: u8
  r_month :: u8
  r_year :: u8

text \<open>\<open>sample i\<close> is what the registers hold in the \<open>i\<close>-th reading. The century register is not used (\<^verbatim>\<open>century_register\<close> is zero).\<close>

partial_function (option) stable_loop :: "(nat \<Rightarrow> rtc) \<Rightarrow> rtc \<Rightarrow> nat \<Rightarrow> rtc option" where
  "stable_loop sample last_read i =
     (if sample i \<noteq> last_read then stable_loop sample (sample i) (Suc i) else Some (sample i))"

definition from_bcd :: "u8 \<Rightarrow> u8" where
  "from_bcd x = (x AND 0x0F) + (x div 16) * 10"

definition bcd_hour :: "u8 \<Rightarrow> u8" where
  "bcd_hour h = ((h AND 0x0F) + ((h AND 0x70) div 16) * 10) OR (h AND 0x80)"

definition CURRENT_YEAR :: u32 where "CURRENT_YEAR = 2018"

definition full_year :: "u32 \<Rightarrow> u32" where
  "full_year year = (let year = year + (CURRENT_YEAR div 100) * 100 in if year < CURRENT_YEAR then year + 100 else year)"

text \<open>Days since the epoch, seconds added; \<open>year\<close> is the four-digit year. January and February belong to the year before.\<close>

definition unix_time :: "u32 \<Rightarrow> u8 \<Rightarrow> u8 \<Rightarrow> u8 \<Rightarrow> u8 \<Rightarrow> u8 \<Rightarrow> u32" where
  "unix_time year month day hour minute second =
     (let (month, year) = (if month \<le> 2 then (month + 12, year - 1) else (month, year));
          m = (ucast month :: u32);
          t = 365 * year + year div 4 - year div 100 + year div 400;
          t = t + (30 * m + 3 * (m + 1) div 5 + ucast day);
          t = t - 719561;
          t = t * 86400
      in t + (3600 * ucast hour + 60 * ucast minute + ucast second))"

definition rtc_time :: "u8 \<Rightarrow> rtc \<Rightarrow> u32" where
  "rtc_time registerB r =
     (let bcd = registerB AND 0x04 = 0;
          conv = (\<lambda>x. if bcd then from_bcd x else x);
          hour = (if bcd then bcd_hour (r_hour r) else r_hour r);
          hour = (if registerB AND 0x02 = 0 \<and> hour AND 0x80 \<noteq> 0 then ((hour AND 0x7F) + 12) mod 24 else hour)
      in unix_time (full_year (ucast (conv (r_year r)))) (conv (r_month r)) (conv (r_day r)) hour (conv (r_minute r)) (conv (r_second r)))"

definition read_rtc :: "(nat \<Rightarrow> rtc) \<Rightarrow> u8 \<Rightarrow> u32 option" where
  "read_rtc sample registerB = map_option (rtc_time registerB) (stable_loop sample (sample 0) 1)"

section \<open>Counting on\<close>

record clock =
  last_timestamp :: u32
  last_tick :: u64

text \<open>\<open>None\<close> is the division by a timer rate of zero.\<close>

definition time_get :: "u32 \<Rightarrow> u32 \<Rightarrow> clock \<Rightarrow> (u32 \<times> clock) option" where
  "time_get timer_tick timer_rate c =
     (if (ucast timer_tick :: u64) \<le> last_tick c + ucast timer_rate then Some (last_timestamp c, c)
      else if timer_rate = 0 then None
      else let offset = (ucast (ucast timer_tick - last_tick c) :: u32);
               c = c\<lparr>last_timestamp := last_timestamp c + offset div timer_rate, last_tick := ucast timer_tick\<rparr>
           in Some (last_timestamp c, c))"

definition time_init :: "u32 \<Rightarrow> (nat \<Rightarrow> rtc) \<Rightarrow> u8 \<Rightarrow> clock option" where
  "time_init timer_tick sample registerB =
     map_option (\<lambda>t. \<lparr>last_timestamp = t, last_tick = ucast timer_tick\<rparr>) (read_rtc sample registerB)"

section \<open>The calendar\<close>

definition leap :: "nat \<Rightarrow> bool" where
  "leap y \<longleftrightarrow> (y mod 4 = 0 \<and> y mod 100 \<noteq> 0) \<or> y mod 400 = 0"

definition month_days :: "nat \<Rightarrow> nat \<Rightarrow> nat" where
  "month_days y m = (if m = 2 then if leap y then 29 else 28 else if m \<in> {4, 6, 9, 11} then 30 else 31)"

definition year_days :: "nat \<Rightarrow> nat" where
  "year_days y = (\<Sum>m = 1..12. month_days y m)"

text \<open>Days from the first of January 1970 to the given day.\<close>

definition days_since_epoch :: "nat \<Rightarrow> nat \<Rightarrow> nat \<Rightarrow> nat" where
  "days_since_epoch y m d = (\<Sum>k = 1970..<y. year_days k) + (\<Sum>k = 1..<m. month_days y k) + (d - 1)"

definition leaps :: "nat \<Rightarrow> nat" where
  "leaps y = y div 4 + y div 400 - y div 100"

lemma leaps_le: "y div 100 \<le> (y :: nat) div 4"
  by (rule div_le_mono2) simp_all

lemma leaps_Suc: "leaps (Suc y) = leaps y + (if leap (Suc y) then 1 else 0)"
proof -
  have "Suc y mod 400 = 0 \<Longrightarrow> Suc y mod 100 = 0" "Suc y mod 100 = 0 \<Longrightarrow> Suc y mod 4 = 0"
    unfolding mod_eq_0_iff_dvd by (erule dvd_trans [rotated], simp)+
  then show ?thesis using leaps_le [of y] by (auto simp: leaps_def leap_def div_Suc)
qed

lemma year_days_eq: "year_days y = 365 + (if leap y then 1 else 0)"
  by (simp add: year_days_def month_days_def numeral_eq_Suc atLeastAtMostSuc_conv)

lemma years_sum: "1969 \<le> y \<Longrightarrow> (\<Sum>k = 1970..<Suc y. year_days k) + 365 * 1969 + leaps 1969 = 365 * y + leaps y"
proof (induction y rule: dec_induct)
  case (step y)
  then have "(\<Sum>k = 1970..<Suc (Suc y). year_days k) = (\<Sum>k = 1970..<Suc y. year_days k) + year_days (Suc y)"
    by (simp del: One_nat_def)
  then show ?case using step.IH by (simp only: year_days_eq leaps_Suc) simp
qed simp

text \<open>The sum that \<^verbatim>\<open>read_rtc\<close> computes, on natural numbers.\<close>

definition day_number :: "nat \<Rightarrow> nat \<Rightarrow> nat \<Rightarrow> nat" where
  "day_number y m d = 365 * y + leaps y + 30 * m + 3 * (m + 1) div 5 + d"

lemma months_sum:
  "(\<Sum>k = 1..<1. month_days y k) = 0" "(\<Sum>k = 1..<2. month_days y k) = 31"
  "(\<Sum>k = 1..<3. month_days y k) = 59 + (if leap y then 1 else 0)" "(\<Sum>k = 1..<4. month_days y k) = 90 + (if leap y then 1 else 0)"
  "(\<Sum>k = 1..<5. month_days y k) = 120 + (if leap y then 1 else 0)" "(\<Sum>k = 1..<6. month_days y k) = 151 + (if leap y then 1 else 0)"
  "(\<Sum>k = 1..<7. month_days y k) = 181 + (if leap y then 1 else 0)" "(\<Sum>k = 1..<8. month_days y k) = 212 + (if leap y then 1 else 0)"
  "(\<Sum>k = 1..<9. month_days y k) = 243 + (if leap y then 1 else 0)" "(\<Sum>k = 1..<10. month_days y k) = 273 + (if leap y then 1 else 0)"
  "(\<Sum>k = 1..<11. month_days y k) = 304 + (if leap y then 1 else 0)" "(\<Sum>k = 1..<12. month_days y k) = 334 + (if leap y then 1 else 0)"
  by (simp_all add: month_days_def numeral_eq_Suc)

lemma day_number_calendar:
  assumes y: "1970 \<le> y" and m: "1 \<le> m" "m \<le> 12" and d: "1 \<le> d"
  shows "day_number (if m \<le> 2 then y - 1 else y) (if m \<le> 2 then m + 12 else m) d = 719561 + days_since_epoch y m d"
proof -
  obtain x where x: "y = Suc x" using y by (cases y) auto
  have l: "leaps 1969 = 477" by (simp add: leaps_def)
  have s: "(\<Sum>k = 1970..<y. year_days k) + 719162 = 365 * x + leaps x" using years_sum [of x] y by (simp add: x l)
  have ly: "leaps y = leaps x + (if leap y then 1 else 0)" using leaps_Suc [of x] by (simp add: x)
  have "m \<in> {1, 2, 3, 4, 5, 6, 7, 8, 9, 10, 11, 12}"
    unfolding insert_iff empty_iff using m by presburger
  then show ?thesis using s ly d
    by (elim insertE emptyE; simp only: day_number_def days_since_epoch_def months_sum; simp add: x)
qed

section \<open>The timestamp is the calendar's\<close>

lemma ucast_of_nat8: "n < 256 \<Longrightarrow> (ucast (of_nat n :: u8) :: u32) = of_nat n"
  by (simp add: word_unat_eq_iff unsigned_ucast_eq unat_of_nat take_bit_nat_def take_bit_word_eq_self unsigned_of_nat)

lemma of_nat_div32:
  assumes "a < 2 ^ 32" "b < 2 ^ 32"
  shows "(of_nat a :: u32) div of_nat b = of_nat (a div b)"
proof -
  have "a div b < 2 ^ 32" using assms(1) by (rule le_less_trans [OF div_le_dividend])
  then show ?thesis using assms by (simp add: word_unat_eq_iff unat_div unat_of_nat)
qed

lemma of_nat_le8: "m < 256 \<Longrightarrow> n < 256 \<Longrightarrow> (of_nat m :: u8) \<le> of_nat n \<longleftrightarrow> m \<le> n"
  by (simp add: word_le_nat_alt unat_of_nat)

text \<open>The day number that the words compute, for a year that is not far beyond the range of the timestamp.\<close>

definition day_word :: "u32 \<Rightarrow> u32 \<Rightarrow> u32 \<Rightarrow> u32" where
  "day_word y m d = 365 * y + y div 4 - y div 100 + y div 400 + (30 * m + 3 * (m + 1) div 5 + d)"

lemma day_word_of_nat:
  assumes "y < 3000" "m < 256"
  shows "day_word (of_nat y) (of_nat m) (of_nat d) = of_nat (day_number y m d)"
proof -
  have dv: "(of_nat y :: u32) div 4 = of_nat (y div 4)" "(of_nat y :: u32) div 100 = of_nat (y div 100)"
    "(of_nat y :: u32) div 400 = of_nat (y div 400)"
    using assms of_nat_div32 [of y 4] of_nat_div32 [of y 100] of_nat_div32 [of y 400] by simp_all
  have md: "3 * ((of_nat m :: u32) + 1) div 5 = of_nat (3 * (m + 1) div 5)"
    using assms of_nat_div32 [of "3 * (m + 1)" 5] by (simp add: algebra_simps)
  have l: "(of_nat (leaps y) :: u32) = of_nat (y div 4) + of_nat (y div 400) - of_nat (y div 100)"
    unfolding leaps_def using leaps_le [of y] by (subst of_nat_diff) simp_all
  show ?thesis unfolding day_word_def day_number_def dv md by (simp add: l)
qed

lemma unix_time_days:
  assumes "m < 200"
  shows "unix_time (of_nat y) (of_nat m) d h mi s =
    (day_word (if m \<le> 2 then of_nat y - 1 else of_nat y) (of_nat (if m \<le> 2 then m + 12 else m)) (ucast d) - 719561) * 86400
      + (3600 * ucast h + 60 * ucast mi + ucast s)"
proof -
  have le: "(of_nat m :: u8) \<le> 2 \<longleftrightarrow> m \<le> 2" using of_nat_le8 [of m 2] assms by simp
  have p: "(of_nat m :: u8) + 12 = of_nat (m + 12)" by simp
  show ?thesis
    using assms ucast_of_nat8 [of m] ucast_of_nat8 [of "m + 12"]
    by (simp add: unix_time_def le p day_word_def Let_def del: of_nat_add)
qed

lemma unix_time_calendar:
  assumes y: "1970 \<le> y" "y < 3000" and m: "1 \<le> m" "m \<le> 12" and d: "1 \<le> d" "d \<le> 31" and t: "h < 24" "mi < 60" "s < 60"
  shows "unix_time (of_nat y) (of_nat m) (of_nat d) (of_nat h) (of_nat mi) (of_nat s) =
    of_nat (86400 * days_since_epoch y m d + 3600 * h + 60 * mi + s)"
proof -
  let ?y = "if m \<le> 2 then y - 1 else y" and ?m = "if m \<le> 2 then m + 12 else m"
  have yy: "(if m \<le> 2 then of_nat y - 1 else of_nat y :: u32) = of_nat ?y" using y by (simp add: of_nat_diff)
  have "unix_time (of_nat y) (of_nat m) (of_nat d) (of_nat h) (of_nat mi) (of_nat s) =
      (day_word (of_nat ?y) (of_nat ?m) (of_nat d) - 719561) * 86400 + (3600 * of_nat h + 60 * of_nat mi + of_nat s)"
    using m d t by (simp only: unix_time_days yy ucast_of_nat8)
  also have "day_word (of_nat ?y) (of_nat ?m) (of_nat d) = of_nat (day_number ?y ?m d)"
    using y m by (intro day_word_of_nat) auto
  also have "day_number ?y ?m d = 719561 + days_since_epoch y m d" using y m d by (intro day_number_calendar) auto
  finally show ?thesis by (simp add: algebra_simps)
qed

lemma leaps_mono: "x \<le> y \<Longrightarrow> leaps x \<le> leaps y"
  by (rule lift_Suc_mono_le [where f = leaps]) (simp_all add: leaps_Suc)

lemma days_bound:
  assumes y: "1970 \<le> y" "y \<le> 2105" and m: "1 \<le> m" "m \<le> 12" and d: "1 \<le> d" "d \<le> 31"
  shows "days_since_epoch y m d \<le> 49672"
proof -
  have l: "leaps 2104 = 510" "leaps 2105 = 510" by (simp_all add: leaps_def)
  have "3 * (m + 12 + 1) div 5 \<le> 3 * (2 + 12 + 1) div (5 :: nat)" if "m \<le> 2" using that by (intro div_le_mono) simp
  moreover have "3 * (m + 1) div 5 \<le> 3 * (12 + 1) div (5 :: nat)" using m by (intro div_le_mono) simp
  moreover have "leaps y \<le> 510" "leaps (y - 1) \<le> 510"
    using leaps_mono [of y 2105] leaps_mono [of "y - 1" 2104] y by (simp_all add: l)
  ultimately show ?thesis
    using day_number_calendar [OF y(1) m d(1)] y m d unfolding day_number_def by (cases "m \<le> 2") simp_all
qed

text \<open>What the clock writes into its registers: binary or two decimal digits, according to the third bit of register B.\<close>

definition to_bcd :: "nat \<Rightarrow> u8" where
  "to_bcd n = of_nat (16 * (n div 10) + n mod 10)"

definition rtc_field :: "u8 \<Rightarrow> nat \<Rightarrow> u8" where
  "rtc_field registerB n = (if registerB AND 0x04 = 0 then to_bcd n else of_nat n)"

definition rtc_of :: "u8 \<Rightarrow> nat \<Rightarrow> nat \<Rightarrow> nat \<Rightarrow> nat \<Rightarrow> nat \<Rightarrow> nat \<Rightarrow> rtc" where
  "rtc_of registerB y m d h mi s =
     \<lparr>r_second = rtc_field registerB s, r_minute = rtc_field registerB mi, r_hour = rtc_field registerB h,
      r_day = rtc_field registerB d, r_month = rtc_field registerB m, r_year = rtc_field registerB (y mod 100)\<rparr>"

lemma from_to_bcd: "n < 100 \<Longrightarrow> from_bcd (to_bcd n) = of_nat n"
proof -
  have "list_all (\<lambda>n. from_bcd (to_bcd n) = of_nat n) [0..<100]" by code_simp
  then show "n < 100 \<Longrightarrow> from_bcd (to_bcd n) = of_nat n" by (simp add: list_all_iff del: upt_rec_numeral)
qed

lemma bcd_hour_to_bcd: "n < 24 \<Longrightarrow> bcd_hour (to_bcd n) = of_nat n"
proof -
  have "list_all (\<lambda>n. bcd_hour (to_bcd n) = of_nat n) [0..<24]" by code_simp
  then show "n < 24 \<Longrightarrow> bcd_hour (to_bcd n) = of_nat n" by (simp add: list_all_iff del: upt_rec_numeral)
qed

lemma full_year_two_digits:
  assumes "2018 \<le> y" "y \<le> 2105"
  shows "full_year (ucast (of_nat (y mod 100) :: u8)) = of_nat y"
proof -
  let ?k = "y mod 100"
  have k: "y = 2000 + ?k \<and> 18 \<le> ?k \<or> y = 2100 + ?k \<and> ?k < 18"
  proof (cases "y < 2100")
    case True
    then have "y div 100 = 20" using assms by (intro div_nat_eqI) simp_all
    then show ?thesis using assms mult_div_mod_eq [of 100 y] by simp
  next
    case False
    then have "y div 100 = 21" using assms by (intro div_nat_eqI) simp_all
    then show ?thesis using assms mult_div_mod_eq [of 100 y] by simp
  qed
  have c: "(ucast (of_nat ?k :: u8) :: u32) = of_nat ?k" by (rule ucast_of_nat8) (simp add: less_trans [OF mod_less_divisor])
  have "unat (of_nat (?k + 2000) :: u32) = ?k + 2000" 
  proof -
    have "?k + 2000 < 2 ^ LENGTH(32)" using mod_less_divisor [of 100 y] by simp
    then show ?thesis by (simp only: unat_of_nat mod_less)
  qed
  then have "(of_nat ?k :: u32) + 2000 < 2018 \<longleftrightarrow> ?k < 18" by (simp add: word_less_nat_alt)
  moreover have "(of_nat y :: u32) = of_nat ?k + (if ?k < 18 then 2100 else 2000)"
    by (rule disjE [OF k]) (elim conjE; erule ssubst [where P = "\<lambda>z. of_nat z = _"]; simp)+
  ultimately show ?thesis by (simp add: full_year_def CURRENT_YEAR_def c)
qed

lemma rtc_time_of:
  assumes y: "2018 \<le> y" "y \<le> 2105" and m: "1 \<le> m" "m \<le> 12" and d: "1 \<le> d" "d \<le> 31" and t: "h < 24" "mi < 60" "s < 60"
    and b: "registerB AND 0x02 \<noteq> 0"
  shows "rtc_time registerB (rtc_of registerB y m d h mi s) = of_nat (86400 * days_since_epoch y m d + 3600 * h + 60 * mi + s)"
proof -
  have "rtc_time registerB (rtc_of registerB y m d h mi s) =
    unix_time (full_year (ucast (of_nat (y mod 100) :: u8))) (of_nat m) (of_nat d) (of_nat h) (of_nat mi) (of_nat s)"
    using assms by (cases "registerB AND 0x04 = 0") (simp_all add: rtc_time_def rtc_of_def rtc_field_def from_to_bcd bcd_hour_to_bcd Let_def)
  then show ?thesis using assms by (simp add: full_year_two_digits unix_time_calendar)
qed

lemma stable_loop_first:
  assumes "\<And>j. j < n \<Longrightarrow> sample (Suc (i + j)) \<noteq> sample (i + j)" "sample (Suc (i + n)) = sample (i + n)"
  shows "stable_loop sample (sample i) (Suc i) = Some (sample (i + n))"
  using assms
proof (induction n arbitrary: i)
  case 0
  then show ?case by (simp add: stable_loop.simps)
next
  case (Suc n)
  have "sample (Suc i) \<noteq> sample i" using Suc.prems(1) [of 0] by simp
  moreover have "stable_loop sample (sample (Suc i)) (Suc (Suc i)) = Some (sample (Suc i + n))"
    using Suc.prems by (intro Suc.IH) (metis add_Suc add_Suc_right Suc_less_eq)+
  ultimately show ?case by (simp add: stable_loop.simps [of _ "sample i"])
qed

text \<open>
  C25. The clock read at boot is the calendar's. When two consecutive readings of the registers agree for the first time, and they hold a
  valid date between 2018 and 2105 and a time in 24-hour mode, as binary numbers or as decimal digits, then \<^verbatim>\<open>read_rtc\<close> returns the
  number of seconds since the first of January 1970 in the Gregorian calendar, and this number fits the 32-bit timestamp.
\<close>

theorem read_rtc_calendar:
  assumes "2018 \<le> y" "y \<le> 2105" "1 \<le> m" "m \<le> 12" "1 \<le> d" "d \<le> month_days y m" "h < 24" "mi < 60" "s < 60"
    and "registerB AND 0x02 \<noteq> 0"
    and "\<And>j. j < n \<Longrightarrow> sample (Suc j) \<noteq> sample j" "sample (Suc n) = sample n" "sample n = rtc_of registerB y m d h mi s"
  shows "\<exists>t. read_rtc sample registerB = Some t \<and> unat t = 86400 * days_since_epoch y m d + 3600 * h + 60 * mi + s"
proof -
  have d: "d \<le> 31" using assms(6) by (simp add: month_days_def split: if_splits)
  have "stable_loop sample (sample 0) (Suc 0) = Some (sample n)" using stable_loop_first [of n sample 0] assms(11,12) by simp
  moreover have "days_since_epoch y m d \<le> 49672" using assms d by (intro days_bound) auto
  then have "86400 * days_since_epoch y m d + 3600 * h + 60 * mi + s < 2 ^ LENGTH(32)" using assms by simp
  then have "unat (of_nat (86400 * days_since_epoch y m d + 3600 * h + 60 * mi + s) :: u32) = 86400 * days_since_epoch y m d + 3600 * h + 60 * mi + s"
    by (simp only: unat_of_nat mod_less)
  ultimately show ?thesis using assms d
    by (intro exI [of _ "rtc_time registerB (sample n)"]) (simp add: read_rtc_def rtc_time_of del: of_nat_add of_nat_mult)
qed

theorem read_rtc_calendar_witness:
  "\<exists>t. read_rtc (\<lambda>i. if i = 0 then rtc_of 2 2024 2 28 23 59 59 else rtc_of 2 2024 2 29 0 0 0) 2 = Some t \<and> unat t = 1709164800"
proof -
  have ne: "rtc_of 2 2024 2 29 0 0 0 \<noteq> rtc_of 2 2024 2 28 23 59 59" by code_simp
  have de: "days_since_epoch 2024 2 29 = 19782"
    using day_number_calendar [of 2024 2 29] by (simp add: day_number_def leaps_def)
  show ?thesis
    using read_rtc_calendar [where sample = "\<lambda>i. if i = 0 then rtc_of 2 2024 2 28 23 59 59 else rtc_of 2 2024 2 29 0 0 0"
        and registerB = 2 and n = 1 and y = 2024 and m = 2 and d = 29 and h = 0 and mi = 0 and s = 0] ne
    by (simp add: de month_days_def leap_def)
qed

end
