(* ===== verification/Sysfs.thy ===== *)
theory Sysfs
  imports Vfs
begin

text \<open>
  The file system of kernel files and devices (\<^verbatim>\<open>src/fs/sysfs.c\<close>): two doubly linked tables of named files, kept as
  pointers in a store, their registration and removal, and the callbacks that the virtual file system calls.
\<close>

section \<open>State\<close>

record sysfs_file =
  sf_name :: string
  sf_cb :: vfs_callbacks
  sf_meta :: u32
  sf_type :: u16
  sf_next :: u32
  sf_prev :: u32

text \<open>
  The two tables \<^verbatim>\<open>sys_files\<close> and \<^verbatim>\<open>dev_files\<close>, the addresses of these two variables (a mount point refers to its table by
  that address), the store, and the memory that directory entries are written to.
\<close>

record sysfs =
  sys_files :: u32
  dev_files :: u32
  sys_files_addr :: u32
  dev_files_addr :: u32
  sf_heap :: "u32 \<rightharpoonup> sysfs_file"
  sf_mem :: memory

datatype sf_table = Sys | Dev

fun table_head :: "sf_table \<Rightarrow> 'x sysfs_scheme \<Rightarrow> u32" where
  "table_head Sys s = sys_files s"
| "table_head Dev s = dev_files s"

fun set_table_head :: "sf_table \<Rightarrow> u32 \<Rightarrow> 'x sysfs_scheme \<Rightarrow> 'x sysfs_scheme" where
  "set_table_head Sys a s = s\<lparr>sys_files := a\<rparr>"
| "set_table_head Dev a s = s\<lparr>dev_files := a\<rparr>"

section \<open>Registration\<close>

definition upd_sf :: "u32 \<Rightarrow> (sysfs_file \<Rightarrow> sysfs_file) \<Rightarrow> 'x sysfs_scheme \<Rightarrow> 'x sysfs_scheme option" where
  "upd_sf a f s = (case sf_heap s a of None \<Rightarrow> None | Some x \<Rightarrow> Some (s\<lparr>sf_heap := (sf_heap s)(a \<mapsto> f x)\<rparr>))"

text \<open>
  \<open>fp\<close> is what \<^verbatim>\<open>zmalloc\<close> returned; the result is not checked. \<open>None\<close>: an access through an invalid pointer, or a name that does not fit the
  40 bytes of the structure.
\<close>

definition add_file :: "u32 \<Rightarrow> sf_table \<Rightarrow> string \<Rightarrow> vfs_callbacks \<Rightarrow> 'x sysfs_scheme \<Rightarrow> 'x sysfs_scheme option" where
  "add_file fp table name cb s =
     (if fp = 0 \<or> 40 \<le> length (c_string name) then None
      else let f = \<lparr>sf_name = c_string name, sf_cb = cb, sf_meta = 0, sf_type = ucast (if table = Sys then FT_IFREG else FT_IFCHR),
                    sf_next = 0, sf_prev = 0\<rparr>;
               s = s\<lparr>sf_heap := (sf_heap s)(fp \<mapsto> f)\<rparr>
           in do {
             s \<leftarrow> (if table_head table s \<noteq> 0
                   then do { s \<leftarrow> upd_sf fp (\<lambda>f. f\<lparr>sf_next := table_head table s\<rparr>) s;
                             upd_sf (table_head table s) (\<lambda>f. f\<lparr>sf_prev := fp\<rparr>) s }
                   else Some s);
             Some (set_table_head table fp s)
           })"

text \<open>\<^verbatim>\<open>kfree\<close> takes the structure out of the store.\<close>

definition remove_file :: "sf_table \<Rightarrow> u32 \<Rightarrow> 'x sysfs_scheme \<Rightarrow> 'x sysfs_scheme option" where
  "remove_file table fp s =
     (if fp = 0 then Some s
      else do {
        f \<leftarrow> sf_heap s fp;
        s \<leftarrow> (if sf_prev f \<noteq> 0 then upd_sf (sf_prev f) (\<lambda>p. p\<lparr>sf_next := sf_next f\<rparr>) s else Some s);
        s \<leftarrow> (if sf_next f \<noteq> 0 then upd_sf (sf_next f) (\<lambda>n. n\<lparr>sf_prev := sf_prev f\<rparr>) s else Some s);
        s \<leftarrow> Some (if table_head table s = fp then set_table_head table (sf_next f) s else s);
        Some (s\<lparr>sf_heap := (sf_heap s)(fp := None)\<rparr>)
      })"

definition sysfs_add_file :: "u32 \<Rightarrow> string \<Rightarrow> vfs_callbacks \<Rightarrow> 'x sysfs_scheme \<Rightarrow> 'x sysfs_scheme option" where
  "sysfs_add_file fp name cb = add_file fp Sys name cb"

definition sysfs_add_dev :: "u32 \<Rightarrow> string \<Rightarrow> vfs_callbacks \<Rightarrow> 'x sysfs_scheme \<Rightarrow> 'x sysfs_scheme option" where
  "sysfs_add_dev fp name cb = add_file fp Dev name cb"

definition sysfs_rm_file :: "u32 \<Rightarrow> 'x sysfs_scheme \<Rightarrow> 'x sysfs_scheme option" where
  "sysfs_rm_file = remove_file Sys"

definition sysfs_rm_dev :: "u32 \<Rightarrow> 'x sysfs_scheme \<Rightarrow> 'x sysfs_scheme option" where
  "sysfs_rm_dev = remove_file Dev"

section \<open>Lookup\<close>

definition is_root :: "string \<Rightarrow> bool" where
  "is_root path \<longleftrightarrow> strncmp path ''/'' 2 = 0"

partial_function (option) get_file_loop :: "string \<Rightarrow> u32 \<Rightarrow> (u32 \<rightharpoonup> sysfs_file) \<Rightarrow> u32 option" where
  "get_file_loop path file h =
     (if file = 0 then Some 0
      else case h file of
        None \<Rightarrow> None
      | Some f \<Rightarrow> if strcmp (sf_name f) path = 0 then Some file else get_file_loop path (sf_next f) h)"

text \<open>Zero is \<^verbatim>\<open>NULL\<close>.\<close>

definition get_file :: "string \<Rightarrow> u32 \<Rightarrow> (u32 \<rightharpoonup> sysfs_file) \<Rightarrow> u32 option" where
  "get_file path first h =
     (if first = 0 \<or> is_root path then Some 0
      else get_file_loop (if hd0 path = CHR ''/'' then tl path else path) first h)"

section \<open>Callbacks\<close>

text \<open>\<^verbatim>\<open>*(struct sysfs_file**)ctx->mp->instance\<close>\<close>

definition ctx_first :: "vfs_callback_ctx \<Rightarrow> 'x sysfs_scheme vfs \<Rightarrow> u32 option" where
  "ctx_first ctx s = do {
     m \<leftarrow> find (\<lambda>m. mp_addr m = ctx_mp ctx) (mountpoints s);
     if mp_instance m = sys_files_addr (world s) then Some (sys_files (world s))
     else if mp_instance m = dev_files_addr (world s) then Some (dev_files (world s)) else None
   }"

definition ctx_file :: "vfs_callback_ctx \<Rightarrow> 'x sysfs_scheme vfs \<Rightarrow> u32 option" where
  "ctx_file ctx s = do { first \<leftarrow> ctx_first ctx s; get_file (ctx_path ctx) first (sf_heap (world s)) }"

text \<open>The structure that both \<^verbatim>\<open>sysfs_stat\<close> and \<^verbatim>\<open>sysfs_build_path_tree\<close> fill in; \<open>t\<close> is the time.\<close>

definition stat_fields :: "u32 \<Rightarrow> sysfs_file option \<Rightarrow> vfs_stat_t" where
  "stat_fields t file =
     \<lparr>st_dev = 2, st_ino = 1,
      st_mode = (case file of
          None \<Rightarrow> FT_IFDIR OR 0x16d
        | Some f \<Rightarrow> let mode = ucast (sf_type f);
                        mode = (if cb_read (sf_cb f) \<noteq> 0 then mode OR 0x124 else mode)
                    in if cb_write (sf_cb f) \<noteq> 0 then mode OR 0x92 else mode),
      st_nlink = 1, st_uid = 0, st_gid = 0, st_rdev = 0, st_size = 0,
      st_atime = ucast t, st_mtime = ucast t, st_ctime = ucast t, st_blksize = 1024, st_blocks = 2\<rparr>"

definition sysfs_stat :: "'x sysfs_scheme drivers \<Rightarrow> u32 \<Rightarrow> vfs_callback_ctx \<Rightarrow> (int \<times> vfs_stat_t option, 'x sysfs_scheme) call" where
  "sysfs_stat D t ctx s = do {
     file \<leftarrow> ctx_file ctx s;
     if \<not> is_root (ctx_path ctx) \<and> file = 0 then do { (r, s) \<leftarrow> fail ENOENT s; Some ((r, None), s) }
     else if file = 0 then Some ((0, Some (stat_fields t None)), s)
     else do {
       f \<leftarrow> sf_heap (world s) file;
       if cb_stat (sf_cb f) \<noteq> 0 then do { ((r, st), s) \<leftarrow> do_stat D (cb_stat (sf_cb f)) ctx s; Some ((r, Some st), s) }
       else Some ((0, Some (stat_fields t (Some f))), s)
     }
   }"

text \<open>\<open>insert_path\<close> is \<^verbatim>\<open>vfs_ftree_insert_path\<close>, or no operation when the file tree is not configured.\<close>

definition sysfs_build_path_tree ::
    "'x sysfs_scheme drivers \<Rightarrow> (string \<Rightarrow> vfs_stat_t \<Rightarrow> 'x sysfs_scheme \<Rightarrow> 'x sysfs_scheme) \<Rightarrow> u32 \<Rightarrow> vfs_callback_ctx \<Rightarrow> (int, 'x sysfs_scheme) call" where
  "sysfs_build_path_tree D insert_path t ctx s = do {
     file \<leftarrow> ctx_file ctx s;
     if \<not> is_root (ctx_path ctx) \<and> file = 0 then fail ENOENT s
     else do {
       (st, s) \<leftarrow>
         (if file = 0 then Some (stat_fields t None, s)
          else do {
            f \<leftarrow> sf_heap (world s) file;
            if cb_stat (sf_cb f) \<noteq> 0 then do { ((_, st), s) \<leftarrow> do_stat D (cb_stat (sf_cb f)) ctx s; Some (st, s) }
            else Some (stat_fields t (Some f), s)
          });
       Some (0, s\<lparr>world := insert_path (ctx_orig_path ctx) st (world s)\<rparr>)
     }
   }"

definition sysfs_access :: "vfs_callback_ctx \<Rightarrow> u32 \<Rightarrow> (int, 'x sysfs_scheme) call" where
  "sysfs_access ctx amode s =
     (if is_root (ctx_path ctx) then Some (0, s)
      else if amode AND X_OK \<noteq> 0 then fail EACCES s
      else do {
        file \<leftarrow> ctx_file ctx s;
        if file = 0 then fail ENOENT s else Some (0, s)
      })"

definition sysfs_readlink :: "'x sysfs_scheme drivers \<Rightarrow> vfs_callback_ctx \<Rightarrow> u32 \<Rightarrow> u32 \<Rightarrow> (int, 'x sysfs_scheme) call" where
  "sysfs_readlink D ctx buf sz s = do {
     file \<leftarrow> ctx_file ctx s;
     if file = 0 then fail ENOENT s
     else do {
       f \<leftarrow> sf_heap (world s) file;
       if cb_readlink (sf_cb f) = 0 then fail ENOSYS s else do_readlink D (cb_readlink (sf_cb f)) ctx buf sz s
     }
   }"

definition sysfs_chmod :: "vfs_callback_ctx \<Rightarrow> u32 \<Rightarrow> (int, 'x sysfs_scheme) call" where
  "sysfs_chmod ctx mode s = Some (0, s)"

definition sysfs_chown :: "vfs_callback_ctx \<Rightarrow> u16 \<Rightarrow> u16 \<Rightarrow> (int, 'x sysfs_scheme) call" where
  "sysfs_chown ctx uid gid s = Some (0, s)"

section \<open>Directory entries\<close>

fun put_bytes :: "nat \<Rightarrow> u8 list \<Rightarrow> memory \<Rightarrow> memory" where
  "put_bytes a [] m = m"
| "put_bytes a (b # bs) m = put_bytes (Suc a) bs (m(a := b))"

text \<open>The bytes of a word, least significant first.\<close>

definition le_bytes :: "nat \<Rightarrow> 'a :: len word \<Rightarrow> u8 list" where
  "le_bytes n w = map (\<lambda>k. ucast (drop_bit (8 * k) w)) [0..<n]"

text \<open>
  \<^verbatim>\<open>vfs_dirent_t\<close> is \<^verbatim>\<open>d_ino\<close> (0), \<^verbatim>\<open>d_off\<close> (4), \<^verbatim>\<open>d_reclen\<close> (8), \<^verbatim>\<open>d_type\<close> (10) and \<^verbatim>\<open>d_name\<close> (11), its size is 12. The fields
  \<^verbatim>\<open>d_off\<close> and \<^verbatim>\<open>d_type\<close> are not written.
\<close>

definition put_dirent :: "nat \<Rightarrow> string \<Rightarrow> u32 \<Rightarrow> u32 \<Rightarrow> memory \<Rightarrow> memory" where
  "put_dirent dir name i rec_len m =
     put_bytes (dir + 8) (le_bytes 2 (ucast rec_len :: u16))
       (put_bytes dir (le_bytes 4 i)
         ((put_bytes (dir + 11) (map of_char (take (strlen name) name)) m)(dir + 11 + strlen name := 0)))"

text \<open>Returns the total length, the number of records and the memory.\<close>

partial_function (option) dents_loop ::
    "(u32 \<rightharpoonup> sysfs_file) \<Rightarrow> u32 \<Rightarrow> u32 \<Rightarrow> u32 \<Rightarrow> nat \<Rightarrow> u32 \<Rightarrow> u64 \<Rightarrow> memory \<Rightarrow> (u32 \<times> u64 \<times> memory) option" where
  "dents_loop h sz file i dir total_length offset m =
     (if file = 0 then Some (total_length, offset, m)
      else case h file of
        None \<Rightarrow> None
      | Some f \<Rightarrow>
          let rec_len = 12 + of_nat (strlen (sf_name f)) + 1 in
          if sz < total_length + rec_len then Some (total_length, offset, m)
          else dents_loop h sz (sf_next f) (i + 1) (dir + unat (ucast rec_len :: u16)) (total_length + rec_len) (offset + 1)
                 (put_dirent dir (sf_name f) i rec_len m))"

definition sysfs_getdents :: "vfs_callback_ctx \<Rightarrow> u32 \<Rightarrow> u32 \<Rightarrow> (u32, 'x sysfs_scheme) call" where
  "sysfs_getdents ctx dest sz s = do {
     file \<leftarrow> ctx_first ctx s;
     fp \<leftarrow> ctx_fp ctx;
     if file = 0 \<or> f_offset (files s ! fp) \<noteq> 0 then Some (0, s)
     else do {
       (total_length, offset, m) \<leftarrow> dents_loop (sf_heap (world s)) sz file 2 (unat dest) 0 (f_offset (files s ! fp)) (sf_mem (world s));
       Some (total_length, upd_file fp (\<lambda>v. v\<lparr>f_offset := offset\<rparr>) (s\<lparr>world := (world s)\<lparr>sf_mem := m\<rparr>\<rparr>))
     }
   }"

text \<open>The addresses of the functions of this file.\<close>

record sysfs_fns =
  sysfs_open_fn :: u32
  sysfs_stat_fn :: u32
  sysfs_access_fn :: u32
  sysfs_readlink_fn :: u32
  sysfs_build_path_tree_fn :: u32
  sysfs_chmod_fn :: u32
  sysfs_chown_fn :: u32
  sysfs_getdents_fn :: u32

definition sysfs_callbacks :: "sysfs_fns \<Rightarrow> vfs_callbacks" where
  "sysfs_callbacks fns = no_callbacks\<lparr>cb_open := sysfs_open_fn fns, cb_stat := sysfs_stat_fn fns, cb_access := sysfs_access_fn fns,
     cb_readlink := sysfs_readlink_fn fns, cb_build_path_tree := sysfs_build_path_tree_fn fns, cb_chmod := sysfs_chmod_fn fns,
     cb_chown := sysfs_chown_fn fns\<rparr>"

definition sysfs_open :: "'x sysfs_scheme drivers \<Rightarrow> sysfs_fns \<Rightarrow> vfs_callback_ctx \<Rightarrow> u32 \<Rightarrow> (nat option, 'x sysfs_scheme) call" where
  "sysfs_open D fns ctx flags s = do {
     file \<leftarrow> ctx_file ctx s;
     if file = 0 \<and> \<not> is_root (ctx_path ctx) then Some (None, s\<lparr>sc_errno := Some ENOENT\<rparr>)
     else do {
       f \<leftarrow> (if file = 0 then Some None else map_option Some (sf_heap (world s) file));
       (case f of
          Some f \<Rightarrow>
            if cb_open (sf_cb f) \<noteq> 0 then do_open D (cb_open (sf_cb f)) ctx flags s
            else (case vfs_alloc_fileno 0 s of
                    (None, s) \<Rightarrow> Some (None, s)
                  | (Some i, s) \<Rightarrow>
                      let cb = sf_cb f;
                          cb = (if cb_stat cb = 0 then cb\<lparr>cb_stat := sysfs_stat_fn fns\<rparr> else cb);
                          cb = (if cb_access cb = 0 then cb\<lparr>cb_access := sysfs_access_fn fns\<rparr> else cb)
                      in Some (Some i, upd_file i (\<lambda>v. v\<lparr>f_inode := 1, f_type := sf_type f, f_meta := sf_meta f, f_callbacks := cb\<rparr>) s))
        | None \<Rightarrow>
            (case vfs_alloc_fileno 0 s of
               (None, s) \<Rightarrow> Some (None, s)
             | (Some i, s) \<Rightarrow>
                 Some (Some i, upd_file i (\<lambda>v. v\<lparr>f_inode := 1, f_type := ucast FT_IFDIR,
                   f_callbacks := (sysfs_callbacks fns)\<lparr>cb_getdents := sysfs_getdents_fn fns\<rparr>\<rparr>) s)))
     }
   }"

text \<open>The mount points get the addresses \<open>m1\<close> and \<open>m2\<close> from \<^verbatim>\<open>kmalloc\<close>.\<close>

definition sysfs_init :: "sysfs_fns \<Rightarrow> u32 \<Rightarrow> u32 \<Rightarrow> (int, 'x sysfs_scheme) call" where
  "sysfs_init fns m1 m2 s = do {
     (_, s) \<leftarrow> vfs_mount_register m1 None ''/sys'' (sys_files_addr (world s)) ''sysfs'' (sysfs_callbacks fns) s;
     vfs_mount_register m2 None ''/dev'' (dev_files_addr (world s)) ''sysfs'' (sysfs_callbacks fns) s
   }"

end
