(* ===== verification/Sysfs_Props.thy ===== *)
theory Sysfs_Props
  imports Sysfs
begin

text \<open>
  The tables of \<^verbatim>\<open>src/fs/sysfs.c\<close> as lists: registration, removal and lookup refine lists of named entries, and reading a
  directory yields the names of its table.
\<close>

section \<open>Chains of nodes\<close>

text \<open>The nodes \<open>xs\<close> from \<open>a\<close>, linked in both directions; \<open>p\<close> is in front of them and \<open>b\<close> behind.\<close>

fun sf_seg :: "(u32 \<rightharpoonup> sysfs_file) \<Rightarrow> u32 \<Rightarrow> u32 \<Rightarrow> u32 list \<Rightarrow> u32 \<Rightarrow> bool" where
  "sf_seg h p a [] b \<longleftrightarrow> a = b"
| "sf_seg h p a (x # xs) b \<longleftrightarrow> a = x \<and> x \<noteq> 0 \<and> (\<exists>f. h x = Some f \<and> sf_prev f = p \<and> sf_seg h x (sf_next f) xs b)"

fun sf_last :: "u32 \<Rightarrow> u32 list \<Rightarrow> u32" where
  "sf_last p [] = p"
| "sf_last p (x # xs) = sf_last x xs"

lemma sf_seg_cong: "\<forall>x \<in> set xs. h' x = h x \<Longrightarrow> sf_seg h' p a xs b \<longleftrightarrow> sf_seg h p a xs b"
  by (induction xs arbitrary: p a) auto

lemma sf_seg_upd [simp]: "y \<notin> set xs \<Longrightarrow> sf_seg (h(y := v)) p a xs b \<longleftrightarrow> sf_seg h p a xs b"
  by (rule sf_seg_cong) auto

lemma sf_seg_node: "sf_seg h p a xs b \<Longrightarrow> x \<in> set xs \<Longrightarrow> x \<noteq> 0 \<and> (\<exists>f. h x = Some f)"
  by (induction xs arbitrary: p a) auto

lemma sf_seg_append: "sf_seg h p a (xs @ ys) b \<longleftrightarrow> (\<exists>c. sf_seg h p a xs c \<and> sf_seg h (sf_last p xs) c ys b)"
  by (induction xs arbitrary: p a) auto

lemma sf_last_in: "xs \<noteq> [] \<Longrightarrow> sf_last p xs \<in> set xs"
  by (induction xs arbitrary: p) (auto, metis sf_last.simps(1))

lemma sf_seg_set_next:
  assumes "sf_seg h p a xs b" "xs \<noteq> []" "distinct xs" "h (sf_last p xs) = Some f"
  shows "sf_seg (h(sf_last p xs \<mapsto> f\<lparr>sf_next := c\<rparr>)) p a xs c"
  using assms
proof (induction xs arbitrary: p a)
  case (Cons x xs)
  then show ?case
  proof (cases xs)
    case (Cons y ys)
    moreover have "sf_last x xs \<in> set xs" using Cons by (intro sf_last_in) simp
    ultimately show ?thesis using Cons.prems Cons.IH [of x] by (auto simp del: sf_last.simps simp: sf_last.simps(2) [of p])
  qed auto
qed simp

lemma sf_seg_set_prev:
  assumes "sf_seg h p a (x # xs) b" "x \<notin> set xs" "h x = Some f"
  shows "sf_seg (h(x \<mapsto> f\<lparr>sf_prev := q\<rparr>)) q a (x # xs) b"
  using assms by simp

section \<open>The interface of the tables\<close>

text \<open>
  Named entries in several tables. An entry is found under its name in the table it was added to, the newest one first. The clients
  of the tables rely on these laws only.
\<close>

locale name_tables =
  fixes rep :: "'s \<Rightarrow> ('t \<Rightarrow> (string \<times> 'v) list) \<Rightarrow> bool"
    and name_ok :: "string \<Rightarrow> bool"
    and fresh :: "'v \<Rightarrow> ('t \<Rightarrow> (string \<times> 'v) list) \<Rightarrow> bool"
    and lookup :: "'t \<Rightarrow> string \<Rightarrow> 's \<Rightarrow> 'v option option"
    and add :: "'t \<Rightarrow> string \<Rightarrow> 'v \<Rightarrow> 's \<Rightarrow> 's option"
    and rm :: "'t \<Rightarrow> 'v \<Rightarrow> 's \<Rightarrow> 's option"
  assumes lookup_law: "rep s T \<Longrightarrow> name_ok n \<Longrightarrow> lookup t n s = Some (map_of (T t) n)"
    and add_law: "rep s T \<Longrightarrow> name_ok n \<Longrightarrow> fresh v T \<Longrightarrow> \<exists>s'. add t n v s = Some s' \<and> rep s' (T(t := (n, v) # T t))"
    and rm_law: "rep s T \<Longrightarrow> T t = xs @ (n, v) # ys \<Longrightarrow> \<exists>s'. rm t v s = Some s' \<and> rep s' (T(t := xs @ ys))"

text \<open>Sequences of registrations and removals; a removal names the position of the entry in its table.\<close>

datatype ('t, 'v) table_op = Add 't string 'v | Remove 't nat

fun abs_op :: "('t, 'v) table_op \<Rightarrow> ('t \<Rightarrow> (string \<times> 'v) list) \<Rightarrow> 't \<Rightarrow> (string \<times> 'v) list" where
  "abs_op (Add t n v) T = T(t := (n, v) # T t)"
| "abs_op (Remove t i) T = T(t := take i (T t) @ drop (Suc i) (T t))"

fun op_ok :: "(string \<Rightarrow> bool) \<Rightarrow> ('v \<Rightarrow> ('t \<Rightarrow> (string \<times> 'v) list) \<Rightarrow> bool) \<Rightarrow> ('t, 'v) table_op \<Rightarrow> ('t \<Rightarrow> (string \<times> 'v) list) \<Rightarrow> bool" where
  "op_ok nok fr (Add t n v) T \<longleftrightarrow> nok n \<and> fr v T"
| "op_ok nok fr (Remove t i) T \<longleftrightarrow> i < length (T t)"

fun ops_ok :: "(string \<Rightarrow> bool) \<Rightarrow> ('v \<Rightarrow> ('t \<Rightarrow> (string \<times> 'v) list) \<Rightarrow> bool) \<Rightarrow> ('t, 'v) table_op list \<Rightarrow> ('t \<Rightarrow> (string \<times> 'v) list) \<Rightarrow> bool" where
  "ops_ok nok fr [] T \<longleftrightarrow> True"
| "ops_ok nok fr (x # xs) T \<longleftrightarrow> op_ok nok fr x T \<and> ops_ok nok fr xs (abs_op x T)"

text \<open>The same operations on the code; a removal is given the entry at that position.\<close>

fun run_ops ::
    "('t \<Rightarrow> string \<Rightarrow> 'v \<Rightarrow> 's \<Rightarrow> 's option) \<Rightarrow> ('t \<Rightarrow> 'v \<Rightarrow> 's \<Rightarrow> 's option) \<Rightarrow> ('t, 'v) table_op list \<Rightarrow> ('t \<Rightarrow> (string \<times> 'v) list) \<Rightarrow> 's \<Rightarrow> 's option" where
  "run_ops ad re [] T s = Some s"
| "run_ops ad re (x # xs) T s = do {
     s \<leftarrow> (case x of Add t n v \<Rightarrow> ad t n v s | Remove t i \<Rightarrow> re t (snd (T t ! i)) s);
     run_ops ad re xs (abs_op x T) s
   }"

context name_tables
begin

lemma step_refines:
  assumes "rep s T" "op_ok name_ok fresh x T"
  shows "\<exists>s'. (case x of Add t n v \<Rightarrow> add t n v s | Remove t i \<Rightarrow> rm t (snd (T t ! i)) s) = Some s' \<and> rep s' (abs_op x T)"
proof (cases x)
  case (Add t n v)
  then show ?thesis using add_law assms by simp
next
  case (Remove t i)
  have "T t = take i (T t) @ (fst (T t ! i), snd (T t ! i)) # drop (Suc i) (T t)"
    using assms(2) Remove by (simp add: id_take_nth_drop)
  from rm_law [OF assms(1) this] show ?thesis using Remove by simp
qed

lemma run_refines:
  "rep s T \<Longrightarrow> ops_ok name_ok fresh xs T \<Longrightarrow> \<exists>s'. run_ops add rm xs T s = Some s' \<and> rep s' (fold abs_op xs T)"
proof (induction xs arbitrary: s T)
  case (Cons x xs)
  then obtain s' where "(case x of Add t n v \<Rightarrow> add t n v s | Remove t i \<Rightarrow> rm t (snd (T t ! i)) s) = Some s'" "rep s' (abs_op x T)"
    using step_refines [of s T x] by auto
  then show ?case using Cons.IH [of s' "abs_op x T"] Cons.prems by simp
qed simp

lemma lookup_after_run:
  assumes "rep s T" "ops_ok name_ok fresh xs T" "name_ok n"
  shows "\<exists>s'. run_ops add rm xs T s = Some s' \<and> lookup t n s' = Some (map_of (fold abs_op xs T t) n)"
  using run_refines [OF assms(1,2)] lookup_law [OF _ assms(3)] by blast

end

section \<open>The tables of the code\<close>

type_synonym sf_entries = "sf_table \<Rightarrow> (string \<times> u32 \<times> vfs_callbacks) list"

definition addrs :: "(string \<times> u32 \<times> vfs_callbacks) list \<Rightarrow> u32 list" where
  "addrs E = map (\<lambda>(_, a, _). a) E"

lemma addrs_simps [simp]: "addrs [] = []" "addrs ((n, a, c) # E) = a # addrs E" "addrs (E @ F) = addrs E @ addrs F"
  by (simp_all add: addrs_def)

definition sysfs_name :: "string \<Rightarrow> bool" where
  "sysfs_name n \<longleftrightarrow> n \<noteq> [] \<and> NUL \<notin> set n \<and> length n < 40"

definition entry_ok :: "(u32 \<rightharpoonup> sysfs_file) \<Rightarrow> string \<times> u32 \<times> vfs_callbacks \<Rightarrow> bool" where
  "entry_ok h e \<longleftrightarrow> (case e of (n, a, cb) \<Rightarrow> sysfs_name n \<and> (case h a of None \<Rightarrow> False | Some f \<Rightarrow> sf_name f = n \<and> sf_cb f = cb))"

definition sysfs_rep :: "'x sysfs_scheme \<Rightarrow> sf_entries \<Rightarrow> bool" where
  "sysfs_rep s T \<longleftrightarrow>
     (\<forall>t. sf_seg (sf_heap s) 0 (table_head t s) (addrs (T t)) 0 \<and> list_all (entry_ok (sf_heap s)) (T t)) \<and>
     distinct (addrs (T Sys @ T Dev))"

definition sysfs_fresh :: "u32 \<times> vfs_callbacks \<Rightarrow> sf_entries \<Rightarrow> bool" where
  "sysfs_fresh v T \<longleftrightarrow> fst v \<noteq> 0 \<and> fst v \<notin> set (addrs (T Sys @ T Dev))"

definition sysfs_lookup :: "sf_table \<Rightarrow> string \<Rightarrow> 'x sysfs_scheme \<Rightarrow> (u32 \<times> vfs_callbacks) option option" where
  "sysfs_lookup t n s = do {
     a \<leftarrow> get_file (CHR ''/'' # n) (table_head t s) (sf_heap s);
     if a = 0 then Some None else do { f \<leftarrow> sf_heap s a; Some (Some (a, sf_cb f)) }
   }"

lemma list_all_entry_cong:
  "\<forall>a \<in> set (addrs E). rel_option (\<lambda>f g. sf_name f = sf_name g \<and> sf_cb f = sf_cb g) (h' a) (h a) \<Longrightarrow>
    list_all (entry_ok h') E \<longleftrightarrow> list_all (entry_ok h) E"
proof (induction E)
  case (Cons e E)
  obtain n a c where "e = (n, a, c)" by (cases e)
  then show ?case using Cons by (cases "h a"; cases "h' a") (auto simp: entry_ok_def)
qed simp

lemma get_file_loop_finds:
  assumes "sf_seg h p a (addrs E) 0" "list_all (entry_ok h) E" "NUL \<notin> set n"
  shows "get_file_loop n a h = Some (case map_of E n of None \<Rightarrow> 0 | Some (x, _) \<Rightarrow> x)"
  using assms(1,2)
proof (induction E arbitrary: p a)
  case Nil
  then show ?case by (simp add: get_file_loop.simps)
next
  case (Cons e E)
  obtain m b c where e: "e = (m, b, c)" by (cases e)
  obtain f where f: "h b = Some f" "a = b" "b \<noteq> 0" "sf_seg h b (sf_next f) (addrs E) 0" "sf_name f = m" "sysfs_name m"
    using Cons.prems by (auto simp: e entry_ok_def)
  have "strcmp m n = 0 \<longleftrightarrow> m = n" using f(6) assms(3) by (simp add: strcmp_zero c_string_id sysfs_name_def)
  then show ?case using f Cons.IH [OF f(4)] Cons.prems by (subst get_file_loop.simps) (simp add: e)
qed

lemma map_of_entry:
  "list_all (entry_ok h) E \<Longrightarrow> map_of E n = Some (a, c) \<Longrightarrow> \<exists>f. h a = Some f \<and> sf_cb f = c"
  by (induction E) (auto simp: entry_ok_def split: if_splits option.splits)

lemma sysfs_lookup_entries:
  assumes "sysfs_rep s T" "sysfs_name n"
  shows "sysfs_lookup t n s = Some (map_of (T t) n)"
proof -
  have r: "sf_seg (sf_heap s) 0 (table_head t s) (addrs (T t)) 0" "list_all (entry_ok (sf_heap s)) (T t)"
    using assms(1) by (auto simp: sysfs_rep_def)
  have n: "n \<noteq> []" "NUL \<notin> set n" using assms(2) by (auto simp: sysfs_name_def)
  have "\<not> is_root (CHR ''/'' # n)"
    unfolding is_root_def strncmp_zero using n by (cases n) (auto simp: c_string_id NUL_def numeral_2_eq_2)
  moreover have "table_head t s = 0 \<Longrightarrow> T t = []" using r(1) by (cases "addrs (T t)") (auto simp: addrs_def)
  ultimately have g: "get_file (CHR ''/'' # n) (table_head t s) (sf_heap s) = Some (case map_of (T t) n of None \<Rightarrow> 0 | Some (x, _) \<Rightarrow> x)"
    using get_file_loop_finds [OF r n(2)] by (auto simp: get_file_def)
  show ?thesis
  proof (cases "map_of (T t) n")
    case None
    then show ?thesis using g by (simp add: sysfs_lookup_def)
  next
    case (Some v)
    obtain a c where v: "v = (a, c)" by (cases v)
    obtain f where "sf_heap s a = Some f" "sf_cb f = c" using map_of_entry [OF r(2), of n a c] Some v by auto
    moreover have "a \<in> set (addrs (T t))" using map_of_SomeD [OF Some] v by (force simp: addrs_def)
    then have "a \<noteq> 0" using sf_seg_node [OF r(1)] by simp
    ultimately show ?thesis using g Some v by (simp add: sysfs_lookup_def)
  qed
qed

lemma rep_other:
  assumes "sysfs_rep s T" "t' \<noteq> t" "x \<in> set (addrs (T t))"
  shows "x \<notin> set (addrs (T t'))"
  using assms by (cases t; cases t') (auto simp: sysfs_rep_def)

text \<open>An operation on one table that keeps names and callbacks of all other entries.\<close>

lemma sysfs_repI:
  assumes r: "sysfs_rep s T"
    and seg: "sf_seg (sf_heap s') 0 (table_head t s') (addrs E) 0" "list_all (entry_ok (sf_heap s')) E" "distinct (addrs E)"
    and sub: "set (addrs E) - {x} \<subseteq> set (addrs (T t))" "\<And>t'. t' \<noteq> t \<Longrightarrow> x \<notin> set (addrs (T t'))"
    and frame: "\<And>a. a \<noteq> x \<Longrightarrow> a \<notin> set (addrs (T t)) \<Longrightarrow> sf_heap s' a = sf_heap s a" "\<And>t'. t' \<noteq> t \<Longrightarrow> table_head t' s' = table_head t' s"
  shows "sysfs_rep s' (T(t := E))"
proof -
  have "sf_heap s' a = sf_heap s a" if "t' \<noteq> t" "a \<in> set (addrs (T t'))" for t' a
    using that rep_other [OF r] sub(2) [OF that(1)] by (intro frame(1)) auto
  then have "sf_seg (sf_heap s') 0 (table_head t' s') (addrs (T t')) 0 \<and> list_all (entry_ok (sf_heap s')) (T t')" if "t' \<noteq> t" for t'
    using that r frame(2) [OF that] sf_seg_cong [of "addrs (T t')" "sf_heap s'" "sf_heap s"]
      list_all_entry_cong [of "T t'" "sf_heap s'" "sf_heap s"]
    by (auto simp: sysfs_rep_def option.rel_refl)
  moreover have "distinct (addrs ((T(t := E)) Sys @ (T(t := E)) Dev))"
    using r seg(3) sub by (cases t) (auto simp: sysfs_rep_def)
  ultimately show ?thesis using seg by (auto simp: sysfs_rep_def)
qed

lemma table_head_set [simp]: "table_head t' (set_table_head t a s) = (if t' = t then a else table_head t' s)"
  "sf_heap (set_table_head t a s) = sf_heap s"
  by (cases t; cases t'; simp)+

lemma table_head_heap [simp]: "table_head t (s\<lparr>sf_heap := h\<rparr>) = table_head t s"
  by (cases t) simp_all

lemma rep_table:
  assumes "sysfs_rep s T"
  shows "sf_seg (sf_heap s) 0 (table_head t s) (addrs (T t)) 0 \<and> list_all (entry_ok (sf_heap s)) (T t) \<and> distinct (addrs (T t))"
  using assms by (cases t) (simp_all add: sysfs_rep_def del: table_head.simps)

lemma fresh_tables: "sysfs_fresh v T \<Longrightarrow> fst v \<notin> set (addrs (T t))"
  by (cases t) (simp_all add: sysfs_fresh_def)

lemma add_file_rep:
  assumes r: "sysfs_rep s T" and n: "sysfs_name n" and v: "sysfs_fresh (a, cb) T"
  shows "\<exists>s'. add_file a t n cb s = Some s' \<and> sysfs_rep s' (T(t := (n, a, cb) # T t))"
proof -
  let ?h = "sf_heap s" and ?f = "\<lambda>nx. \<lparr>sf_name = n, sf_cb = cb, sf_meta = 0, sf_type = ucast (if t = Sys then FT_IFREG else FT_IFCHR), sf_next = nx, sf_prev = 0\<rparr>"
  have a: "a \<noteq> 0" "\<And>t'. a \<notin> set (addrs (T t'))"
    using v fresh_tables [OF v] by (simp_all add: sysfs_fresh_def)
  have seg: "sf_seg ?h 0 (table_head t s) (addrs (T t)) 0" "list_all (entry_ok ?h) (T t)" "distinct (addrs (T t))"
    using rep_table [OF r] by blast+
  have nn: "c_string n = n" "length n < 40" using n by (simp_all add: sysfs_name_def c_string_id)
  show ?thesis
  proof (cases "T t")
    case Nil
    let ?s = "set_table_head t a (s\<lparr>sf_heap := ?h(a \<mapsto> ?f 0)\<rparr>)"
    have "add_file a t n cb s = Some ?s" using a(1) nn seg(1) Nil by (simp add: add_file_def Let_def)
    moreover have "sysfs_rep ?s (T(t := (n, a, cb) # T t))"
      by (rule sysfs_repI [OF r, where x = a]) (use a n in \<open>simp_all add: entry_ok_def Nil\<close>)
    ultimately show ?thesis by blast
  next
    case (Cons e E)
    obtain m b c where e: "e = (m, b, c)" by (cases e)
    obtain f where f: "?h b = Some f" "table_head t s = b" "b \<noteq> 0" using seg(1) by (auto simp: Cons e)
    have ab: "a \<noteq> b" "b \<notin> set (addrs E)" using a(2) [of t] seg(3) by (auto simp: Cons e)
    let ?g = "?h(a \<mapsto> ?f b, b \<mapsto> f\<lparr>sf_prev := a\<rparr>)"
    let ?s = "set_table_head t a (s\<lparr>sf_heap := ?g\<rparr>)"
    have "add_file a t n cb s = Some ?s" using a(1) nn f ab by (simp add: add_file_def Let_def upd_sf_def)
    moreover have "sf_seg ?g a b (b # addrs E) 0"
      using sf_seg_set_prev [of "?h(a \<mapsto> ?f b)" 0 b b "addrs E" 0 f a] seg(1) ab a(2) [of t] f by (simp add: Cons e)
    moreover have "list_all (entry_ok ?g) (T t) \<longleftrightarrow> list_all (entry_ok ?h) (T t)"
      using a(2) [of t] f ab by (intro list_all_entry_cong) (auto intro: option.rel_refl)
    ultimately have "sysfs_rep ?s (T(t := (n, a, cb) # T t))"
      using a a(2) [of t] n seg ab by (intro sysfs_repI [OF r, where x = a]) (simp_all add: entry_ok_def Cons e)
    then show ?thesis using \<open>add_file a t n cb s = Some ?s\<close> by blast
  qed
qed

text \<open>The two halves of unlinking. \<open>same\<close> relates files that differ in their links only.\<close>

abbreviation same :: "(u32 \<rightharpoonup> sysfs_file) \<Rightarrow> (u32 \<rightharpoonup> sysfs_file) \<Rightarrow> bool" where
  "same h' h \<equiv> (\<forall>y. rel_option (\<lambda>f g. sf_name f = sf_name g \<and> sf_cb f = sf_cb g) (h' y) (h y))"

lemma same_refl: "same h h"
  by (simp add: option.rel_refl)

lemma same_upd: "h x = Some f \<Longrightarrow> sf_name g = sf_name f \<Longrightarrow> sf_cb g = sf_cb f \<Longrightarrow> same (h(x \<mapsto> g)) h"
  by (auto intro: option.rel_refl)

lemma unlink_front:
  assumes "sf_seg (sf_heap s) 0 x xs a" "distinct xs"
  shows "\<exists>h. (if sf_last 0 xs \<noteq> 0 then upd_sf (sf_last 0 xs) (\<lambda>p. p\<lparr>sf_next := c\<rparr>) s else Some s) = Some (s\<lparr>sf_heap := h\<rparr>) \<and>
    sf_seg h 0 (if xs = [] then c else x) xs c \<and> (\<forall>y. y \<notin> set xs \<longrightarrow> h y = sf_heap s y) \<and> same h (sf_heap s)"
proof (cases "xs = []")
  case True
  then show ?thesis by (intro exI [of _ "sf_heap s"]) (simp add: same_refl)
next
  case False
  then have l: "sf_last 0 xs \<in> set xs" by (rule sf_last_in)
  obtain p where p: "sf_heap s (sf_last 0 xs) = Some p" "sf_last 0 xs \<noteq> 0" using sf_seg_node [OF assms(1) l] by blast
  then show ?thesis
    using sf_seg_set_next [OF assms(1) False assms(2) p(1), of c] l False
    by (intro exI [of _ "(sf_heap s)(sf_last 0 xs \<mapsto> p\<lparr>sf_next := c\<rparr>)"]) (auto simp: upd_sf_def intro: option.rel_refl)
qed

lemma unlink_back:
  assumes "sf_seg (sf_heap s) a x xs 0" "distinct xs"
  shows "\<exists>h. (if x \<noteq> 0 then upd_sf x (\<lambda>n. n\<lparr>sf_prev := q\<rparr>) s else Some s) = Some (s\<lparr>sf_heap := h\<rparr>) \<and>
    sf_seg h q x xs 0 \<and> (\<forall>y. y \<notin> set xs \<longrightarrow> h y = sf_heap s y) \<and> same h (sf_heap s)"
proof (cases xs)
  case Nil
  then show ?thesis using assms(1) by (intro exI [of _ "sf_heap s"]) (simp add: same_refl)
next
  case (Cons y ys)
  then obtain f where f: "sf_heap s y = Some f" "x = y" "y \<noteq> 0" using assms(1) by auto
  then show ?thesis
    using sf_seg_set_prev [of "sf_heap s" a x y ys 0 f q] assms Cons
    by (intro exI [of _ "(sf_heap s)(y \<mapsto> f\<lparr>sf_prev := q\<rparr>)"]) (auto simp: upd_sf_def intro: option.rel_refl)
qed

lemma remove_file_rep:
  assumes r: "sysfs_rep s T" and T: "T t = E @ (n, a, cb) # F"
  shows "\<exists>s'. remove_file t a s = Some s' \<and> sysfs_rep s' (T(t := E @ F))"
proof -
  let ?h = "sf_heap s" and ?p = "sf_last 0 (addrs E)"
  have seg: "sf_seg ?h 0 (table_head t s) (addrs E) a" "list_all (entry_ok ?h) E" "list_all (entry_ok ?h) F"
    and d: "distinct (addrs E)" "distinct (addrs F)" "a \<notin> set (addrs E)" "a \<notin> set (addrs F)" "set (addrs E) \<inter> set (addrs F) = {}"
    and a: "a \<noteq> 0" and "\<exists>f. ?h a = Some f \<and> sf_prev f = ?p \<and> sf_seg ?h a (sf_next f) (addrs F) 0"
    using rep_table [OF r, of t] by (auto simp: T sf_seg_append)
  then obtain f where f: "?h a = Some f" "sf_prev f = ?p" and F: "sf_seg ?h a (sf_next f) (addrs F) 0" by blast
  let ?x = "if addrs E = [] then sf_next f else table_head t s"
  obtain h1 where h1: "(if ?p \<noteq> 0 then upd_sf ?p (\<lambda>p. p\<lparr>sf_next := sf_next f\<rparr>) s else Some s) = Some (s\<lparr>sf_heap := h1\<rparr>)"
      "sf_seg h1 0 ?x (addrs E) (sf_next f)" "\<forall>y. y \<notin> set (addrs E) \<longrightarrow> h1 y = ?h y" "same h1 ?h"
    using unlink_front [OF seg(1) d(1), of "sf_next f"] by blast
  have "sf_seg h1 a (sf_next f) (addrs F) 0" using F h1(3) d(5) sf_seg_cong [of "addrs F" h1 ?h] by blast
  then obtain h2 where h2: "(if sf_next f \<noteq> 0 then upd_sf (sf_next f) (\<lambda>n. n\<lparr>sf_prev := ?p\<rparr>) (s\<lparr>sf_heap := h1\<rparr>) else Some (s\<lparr>sf_heap := h1\<rparr>)) = Some (s\<lparr>sf_heap := h2\<rparr>)"
      "sf_seg h2 ?p (sf_next f) (addrs F) 0" "\<forall>y. y \<notin> set (addrs F) \<longrightarrow> h2 y = h1 y" "same h2 h1"
    using unlink_back [of "s\<lparr>sf_heap := h1\<rparr>" a "sf_next f" "addrs F" ?p] d(2) by auto
  have hd: "table_head t s = a \<longleftrightarrow> addrs E = []" using seg(1) d(3) by (cases "addrs E") auto
  let ?s = "(if addrs E = [] then set_table_head t (sf_next f) (s\<lparr>sf_heap := h2\<rparr>) else s\<lparr>sf_heap := h2\<rparr>)\<lparr>sf_heap := h2(a := None)\<rparr>"
  have "remove_file t a s = Some ?s"
    using a by (simp only: remove_file_def f h1(1) h2(1) if_False Option.bind.simps) (simp add: hd)
  moreover have sE: "sf_seg h2 0 ?x (addrs E) (sf_next f)" using h1(2) h2(3) d(5) sf_seg_cong [of "addrs E" h2 h1] by blast
  have "sf_seg (h2(a := None)) 0 ?x (addrs (E @ F)) 0" using sE h2(2) d by (auto simp: sf_seg_append)
  moreover have "list_all (entry_ok (h2(a := None))) (E @ F) \<longleftrightarrow> list_all (entry_ok ?h) (E @ F)"
  proof (rule list_all_entry_cong, rule ballI)
    fix y assume "y \<in> set (addrs (E @ F))"
    then have "y \<noteq> a" using d by auto
    moreover have "rel_option (\<lambda>f g. sf_name f = sf_name g \<and> sf_cb f = sf_cb g) (h2 y) (?h y)"
      using h1(4) [rule_format, of y] h2(4) [rule_format, of y] by (cases "h2 y"; cases "h1 y"; cases "?h y") auto
    ultimately show "rel_option (\<lambda>f g. sf_name f = sf_name g \<and> sf_cb f = sf_cb g) ((h2(a := None)) y) (?h y)" by simp
  qed
  moreover have "(h2(a := None)) y = ?h y" if "y \<noteq> a" "y \<notin> set (addrs (T t))" for y using that h1(3) h2(3) by (simp add: T)
  moreover have "table_head t ?s = ?x" "sf_heap ?s = h2(a := None)" "\<And>t'. t' \<noteq> t \<Longrightarrow> table_head t' ?s = table_head t' s" by simp_all
  ultimately have "sysfs_rep ?s (T(t := E @ F))"
    using seg d rep_other [OF r, of _ t a] by (intro sysfs_repI [OF r, where x = a]) (auto simp: T simp del: table_head.simps)
  then show ?thesis using \<open>remove_file t a s = Some ?s\<close> by blast
qed

interpretation sf: name_tables sysfs_rep sysfs_name sysfs_fresh sysfs_lookup "\<lambda>t n v. add_file (fst v) t n (snd v)" "\<lambda>t v. remove_file t (fst v)"
proof unfold_locales
  fix s :: "'a sysfs_scheme" and T t n v
  assume "sysfs_rep s T" "sysfs_name n" "sysfs_fresh v T"
  then show "\<exists>s'. add_file (fst v) t n (snd v) s = Some s' \<and> sysfs_rep s' (T(t := (n, v) # T t))"
    using add_file_rep [of s T n "fst v" "snd v" t] by simp
next
  fix s :: "'a sysfs_scheme" and T t xs n v ys
  assume "sysfs_rep s T" "T t = xs @ (n, v) # ys"
  then show "\<exists>s'. remove_file t (fst v) s = Some s' \<and> sysfs_rep s' (T(t := xs @ ys))"
    using remove_file_rep [of s T t xs n "fst v" "snd v" ys] by simp
qed (rule sysfs_lookup_entries)

section \<open>Directory records\<close>

lemma put_bytes_at: "put_bytes a bs m x = (if a \<le> x \<and> x < a + length bs then bs ! (x - a) else m x)"
  by (induction bs arbitrary: a m) (auto simp: nth_Cons' Suc_diff_le not_le)

text \<open>How a program reads the records: the fields at their offsets, the next record behind \<^verbatim>\<open>d_reclen\<close> bytes.\<close>

definition rd16 :: "memory \<Rightarrow> nat \<Rightarrow> u16" where
  "rd16 m a = ucast (m a) OR push_bit 8 (ucast (m (a + 1)))"

definition rd32 :: "memory \<Rightarrow> nat \<Rightarrow> u32" where
  "rd32 m a = ucast (m a) OR push_bit 8 (ucast (m (a + 1))) OR push_bit 16 (ucast (m (a + 2))) OR push_bit 24 (ucast (m (a + 3)))"

lemma rd16_le: "rd16 (put_bytes a (le_bytes 2 (w :: u16)) m) a = w"
  by (rule bit_word_eqI) (auto simp: rd16_def put_bytes_at le_bytes_def numeral_2_eq_2 bit_simps)

lemma rd32_le: "rd32 (put_bytes a (le_bytes 4 (w :: u32)) m) a = w"
proof (rule bit_word_eqI)
  fix n assume n: "n < LENGTH(32)"
  consider "n < 16" | k where "n = 16 + k" "k < 8" | k where "n = 24 + k" "k < 8"
    using n less_diff_conv [of n 16 8] less_diff_conv [of n 24 8] by (cases "n < 16"; cases "n < 24") (force simp: not_less dest: le_Suc_ex)+
  then show "bit (rd32 (put_bytes a (le_bytes 4 w) m) a) n = bit w n"
    by cases (auto simp: rd32_def put_bytes_at le_bytes_def bit_simps)
qed
function read_dents :: "memory \<Rightarrow> nat \<Rightarrow> nat \<Rightarrow> (u32 \<times> string) list" where
  "read_dents m a e =
     (if e \<le> a \<or> rd16 m (a + 8) = 0 then []
      else (rd32 m a, c_string (map (\<lambda>k. char_of (unat (m k))) [a + 11..<a + unat (rd16 m (a + 8))])) # read_dents m (a + unat (rd16 m (a + 8))) e)"
  by auto
termination by (relation "measure (\<lambda>(m, a, e). e - a)") (auto simp: unat_gt_0 intro: diff_less_mono2)

declare read_dents.simps [simp del]

lemma rd16_cong: "m' a = m a \<Longrightarrow> m' (a + 1) = m (a + 1) \<Longrightarrow> rd16 m' a = rd16 m a"
  by (simp add: rd16_def)

lemma rd32_cong: "m' a = m a \<Longrightarrow> m' (a + 1) = m (a + 1) \<Longrightarrow> m' (a + 2) = m (a + 2) \<Longrightarrow> m' (a + 3) = m (a + 3) \<Longrightarrow> rd32 m' a = rd32 m a"
  by (simp add: rd32_def)

definition dent_len :: "string \<Rightarrow> nat" where
  "dent_len n = 13 + length n"

lemma put_dirent_reads:
  fixes a :: nat and i :: u32 and m :: memory
  assumes "plain n" "length n < 40"
  defines "m' \<equiv> put_dirent a n i (12 + of_nat (strlen n) + 1) m"
  shows "rd32 m' a = i" "unat (rd16 m' (a + 8)) = dent_len n"
    "c_string (map (\<lambda>k. char_of (unat (m' k))) [a + 11..<a + dent_len n]) = n"
    "\<And>x. \<not> (a \<le> x \<and> x < a + dent_len n) \<Longrightarrow> m' x = m x"
proof -
  have st: "strlen n = length n" "c_string n = n" using assms(1) by (simp_all add: plain_simps)
  let ?r = "12 + of_nat (length n) + 1 :: u32"
  have ur: "unat ?r = dent_len n"
  proof -
    have "?r = of_nat (dent_len n)" by (simp add: dent_len_def)
    then show ?thesis using assms(2) by (simp only: unat_of_nat) (simp add: dent_len_def)
  qed
  have l: "length (le_bytes 2 w) = 2" "length (le_bytes 4 v) = 4" for w :: u16 and v :: u32 by (simp_all add: le_bytes_def)
  show "rd32 m' a = i"
  proof -
    let ?m = "(put_bytes (a + 11) (map of_char (take (strlen n) n)) m)(a + 11 + strlen n := 0)"
    have "rd32 m' a = rd32 (put_bytes a (le_bytes 4 i) ?m) a"
      by (rule rd32_cong) (simp_all add: m'_def put_dirent_def put_bytes_at l)
    then show ?thesis by (simp only: rd32_le)
  qed
  show "unat (rd16 m' (a + 8)) = dent_len n"
  proof -
    have "rd16 m' (a + 8) = ucast ?r" by (simp add: m'_def put_dirent_def rd16_le st)
    then show ?thesis using ur assms(2) by (simp add: unsigned_ucast_eq take_bit_nat_eq_self dent_len_def)
  qed
  show "\<And>x. \<not> (a \<le> x \<and> x < a + dent_len n) \<Longrightarrow> m' x = m x"
    by (auto simp: m'_def put_dirent_def put_bytes_at l st dent_len_def)
  have "map (\<lambda>k. char_of (unat (m' k))) [a + 11..<a + dent_len n] = n @ NUL # [char_of (unat (m' (a + 12 + length n)))]"
  proof (rule nth_equalityI)
    fix k assume "k < length (map (\<lambda>k. char_of (unat (m' k))) [a + 11..<a + dent_len n])"
    then have "k < length n \<or> k = length n \<or> k = Suc (length n)" by (auto simp: dent_len_def)
    then show "map (\<lambda>k. char_of (unat (m' k))) [a + 11..<a + dent_len n] ! k = (n @ NUL # [char_of (unat (m' (a + 12 + length n)))]) ! k"
      by (auto simp: m'_def put_dirent_def put_bytes_at l st dent_len_def nth_append char_of_byte char_of_0 ac_simps)
  qed (simp add: dent_len_def)
  then show "c_string (map (\<lambda>k. char_of (unat (m' k))) [a + 11..<a + dent_len n]) = n"
    using assms(1) by (simp add: c_string_end plain_def)
qed

text \<open>The records of a table: numbered from \<open>i\<close>, with the names.\<close>

fun dent_list :: "u32 \<Rightarrow> string list \<Rightarrow> (u32 \<times> string) list" where
  "dent_list i [] = []"
| "dent_list i (n # ns) = (i, n) # dent_list (i + 1) ns"

definition dents_len :: "string list \<Rightarrow> nat" where
  "dents_len ns = sum_list (map dent_len ns)"

lemma dents_len_simps [simp]: "dents_len [] = 0" "dents_len (n # ns) = dent_len n + dents_len ns"
  by (simp_all add: dents_len_def)

lemma dents_len_ge: "length ns \<le> dents_len ns"
  by (induction ns) (simp_all add: dent_len_def)

lemma read_dents_first:
  assumes "rd32 m a = i" "unat (rd16 m (a + 8)) = dent_len n" "c_string (map (\<lambda>k. char_of (unat (m k))) [a + 11..<a + dent_len n]) = n"
  shows "read_dents m a (a + (dent_len n + l)) = (i, n) # read_dents m (a + dent_len n) (a + dent_len n + l)"
proof -
  have "dent_len n \<noteq> 0" by (simp add: dent_len_def)
  moreover from this have "rd16 m (a + 8) \<noteq> 0" using assms(2) by auto
  ultimately show ?thesis using assms by (subst read_dents.simps) (simp add: add.assoc)
qed

lemma dents_loop_reads:
  assumes "sf_seg h p fl (addrs E) 0" "list_all (entry_ok h) E" "list_all (\<lambda>e. plain (fst e)) E"
    and "unat tl0 \<le> unat sz" "unat sz < 2 ^ 31"
  shows "\<exists>k tot m'. dents_loop h sz fl i a tl0 ofs m = Some (tot, ofs + of_nat k, m') \<and> k \<le> length E \<and>
    unat tot = unat tl0 + dents_len (take k (map fst E)) \<and> unat tot \<le> unat sz \<and>
    (k < length E \<longrightarrow> unat sz < unat tot + dent_len (fst (E ! k))) \<and>
    read_dents m' a (a + dents_len (take k (map fst E))) = dent_list i (take k (map fst E)) \<and>
    (\<forall>x. \<not> (a \<le> x \<and> x < a + dents_len (take k (map fst E))) \<longrightarrow> m' x = m x)"
  using assms(1-4)
proof (induction E arbitrary: p fl i a tl0 ofs m)
  case Nil
  then show ?case by (intro exI [of _ 0] exI [of _ tl0] exI [of _ m]) (simp add: dents_loop.simps read_dents.simps)
next
  case (Cons e E)
  obtain n b c where e: "e = (n, b, c)" by (cases e)
  obtain f where f: "h b = Some f" "fl = b" "b \<noteq> 0" "sf_seg h b (sf_next f) (addrs E) 0" "sf_name f = n" "sysfs_name n"
    using Cons.prems by (auto simp: e entry_ok_def)
  have n: "plain n" "length n < 40" "strlen n = length n" using Cons.prems(3) f(6) by (auto simp: e sysfs_name_def plain_simps)
  let ?r = "12 + of_nat (strlen n) + 1 :: u32"
  have "?r = of_nat (dent_len n)" by (simp add: n dent_len_def)
  then have ur: "unat ?r = dent_len n" using n(2) by (simp only: unat_of_nat) (simp add: dent_len_def)
  have dl: "dent_len n < 53" using n(2) by (simp add: dent_len_def)
  have ut: "unat (tl0 + ?r) = unat tl0 + dent_len n"
    using Cons.prems(4) assms(5) dl ur by (subst unat_add_u32) simp_all
  have u16: "unat (ucast ?r :: u16) = dent_len n" using ur dl by (simp add: unsigned_ucast_eq take_bit_nat_eq_self)
  show ?case
  proof (cases "sz < tl0 + ?r")
    case True
    then have "dents_loop h sz fl i a tl0 ofs m = Some (tl0, ofs, m)"
      using f by (subst dents_loop.simps) (simp add: Let_def)
    then show ?thesis using True ut Cons.prems(4)
      by (intro exI [of _ 0] exI [of _ tl0] exI [of _ m]) (simp add: read_dents.simps e u32_less_nat)
  next
    case False
    let ?m = "put_dirent a n i ?r m"
    have "unat (tl0 + ?r) \<le> unat sz" using False by (simp add: u32_less_nat)
    then obtain k tot m' where IH: "dents_loop h sz (sf_next f) (i + 1) (a + dent_len n) (tl0 + ?r) (ofs + 1) ?m = Some (tot, ofs + 1 + of_nat k, m')"
        "k \<le> length E" "unat tot = unat (tl0 + ?r) + dents_len (take k (map fst E))" "unat tot \<le> unat sz"
        "k < length E \<longrightarrow> unat sz < unat tot + dent_len (fst (E ! k))"
        "read_dents m' (a + dent_len n) (a + dent_len n + dents_len (take k (map fst E))) = dent_list (i + 1) (take k (map fst E))"
        "\<And>x. \<not> (a + dent_len n \<le> x \<and> x < a + dent_len n + dents_len (take k (map fst E))) \<Longrightarrow> m' x = ?m x"
      using Cons.IH [OF f(4), of "tl0 + ?r" "i + 1" "a + dent_len n" "ofs + 1" ?m] Cons.prems(2,3) by auto
    have run: "dents_loop h sz fl i a tl0 ofs m = Some (tot, ofs + of_nat (Suc k), m')"
      using f False IH(1) u16 by (subst dents_loop.simps) (simp add: Let_def add.assoc)
    have low: "m' x = ?m x" if "x < a + dent_len n" for x using that by (intro IH(7)) simp
    note put = put_dirent_reads [OF n(1,2), where a = a and i = i and m = m]
    have ge: "13 \<le> dent_len n" by (simp add: dent_len_def)
    have "rd32 m' a = rd32 ?m a" "rd16 m' (a + 8) = rd16 ?m (a + 8)"
      using ge by (intro rd32_cong rd16_cong low; simp)+
    moreover have "map (\<lambda>k. char_of (unat (m' k))) [a + 11..<a + dent_len n] = map (\<lambda>k. char_of (unat (?m k))) [a + 11..<a + dent_len n]"
      using low by (intro map_cong) simp_all
    ultimately have "read_dents m' a (a + (dent_len n + dents_len (take k (map fst E)))) =
        (i, n) # read_dents m' (a + dent_len n) (a + dent_len n + dents_len (take k (map fst E)))"
      using put(1-3) by (intro read_dents_first) (simp_all only:)
    moreover have "m' x = m x" if "\<not> (a \<le> x \<and> x < a + (dent_len n + dents_len (take k (map fst E))))" for x
      using that put(4) [of x] IH(7) [of x] by auto
    ultimately show ?thesis using run IH(2-6) ut
      by (intro exI [of _ "Suc k"] exI [of _ tot] exI [of _ m']) (auto simp: e)
  qed
qed

section \<open>Properties\<close>

definition no_files :: "sysfs" where
  "no_files = \<lparr>sys_files = 0, dev_files = 0, sys_files_addr = 16, dev_files_addr = 20, sf_heap = Map.empty, sf_mem = (\<lambda>_. 0)\<rparr>"

lemma no_files_rep: "sysfs_rep no_files (\<lambda>_. [])"
  unfolding sysfs_rep_def
proof (intro conjI allI)
  fix t show "sf_seg (sf_heap no_files) 0 (table_head t no_files) (addrs []) 0" by (cases t) (simp_all add: no_files_def)
qed simp_all

text \<open>
  C27. The tables behind \<^verbatim>\<open>/sys\<close> and \<^verbatim>\<open>/dev\<close> implement lists of named entries. From any state in which the linked structures
  represent such lists, every sequence of registrations (under valid names, with new structures) and removals of registered files succeeds, and
  afterwards \<^verbatim>\<open>get_file\<close> finds under \<^verbatim>\<open>/name\<close> exactly the newest file of that name in that table, with the callbacks it was
  registered with, or nothing if there is none.
\<close>

theorem sysfs_tables_refine:
  assumes "sysfs_rep s T" "ops_ok sysfs_name sysfs_fresh xs T" "sysfs_name n"
  shows "\<exists>s'. run_ops (\<lambda>t n v. add_file (fst v) t n (snd v)) (\<lambda>t v. remove_file t (fst v)) xs T s = Some s' \<and>
    sysfs_rep s' (fold abs_op xs T) \<and> sysfs_lookup t n s' = Some (map_of (fold abs_op xs T t) n)"
  using sf.run_refines [OF assms(1,2)] sf.lookup_law [OF _ assms(3)] by blast

theorem sysfs_tables_refine_witness:
  "\<exists>s'. run_ops (\<lambda>t n v. add_file (fst v) t n (snd v)) (\<lambda>t v. remove_file t (fst v))
       [Add Dev ''null'' (100, no_callbacks), Add Sys ''time'' (200, no_callbacks), Add Dev ''tty'' (300, no_callbacks), Remove Dev 1] (\<lambda>_. []) no_files = Some s' \<and>
     sysfs_lookup Dev ''tty'' s' = Some (Some (300, no_callbacks))"
  using sysfs_tables_refine [OF no_files_rep, of "[Add Dev ''null'' (100, no_callbacks), Add Sys ''time'' (200, no_callbacks), Add Dev ''tty'' (300, no_callbacks), Remove Dev 1]" "''tty''" Dev]
  by (auto simp: sysfs_name_def sysfs_fresh_def NUL_def)

text \<open>
  Reading a directory lists its table. On a file whose offset is zero, \<^verbatim>\<open>sysfs_getdents\<close> writes, into the buffer only, records that read
  back as the first \<open>k\<close> names of the table in order, numbered from 2, and it stops only at the end of the table or before a record that
  does not fit. Its return value is the length of the records and the offset becomes \<open>k\<close>; therefore every further call on the file returns 0 once
  a record was delivered, and names that did not fit are never listed.
\<close>

lemma sysfs_getdents_lists:
  assumes r: "sysfs_rep (world s) T" "list_all (\<lambda>e. plain (fst e)) (T t)"
    and c: "ctx_first ctx s = Some (table_head t (world s))" "ctx_fp ctx = Some fp" "fp < length (files s)"
    and z: "f_offset (files s ! fp) = 0" "unat sz < 2 ^ 31"
  shows "\<exists>k tot s'. sysfs_getdents ctx dest sz s = Some (tot, s') \<and>
    read_dents (sf_mem (world s')) (unat dest) (unat dest + unat tot) = dent_list 2 (take k (map fst (T t))) \<and>
    k \<le> length (T t) \<and> unat tot = dents_len (take k (map fst (T t))) \<and> unat tot \<le> unat sz \<and> (k < length (T t) \<longrightarrow> unat sz < unat tot + dent_len (fst (T t ! k))) \<and>
    (\<forall>x. \<not> (unat dest \<le> x \<and> x < unat dest + unat tot) \<longrightarrow> sf_mem (world s') x = sf_mem (world s) x) \<and>
    f_offset (files s' ! fp) = of_nat k \<and>
    (0 < k \<longrightarrow> (\<forall>dest' sz'. sysfs_getdents ctx dest' sz' s' = Some (0, s')))"
proof (cases "T t")
  case Nil
  then have "table_head t (world s) = 0" using rep_table [OF r(1), of t] by simp
  then have "sysfs_getdents ctx dest sz s = Some (0, s)" using c by (simp add: sysfs_getdents_def)
  then show ?thesis using Nil z by (intro exI [of _ 0] exI [of _ 0] exI [of _ s]) (simp add: read_dents.simps)
next
  case (Cons e E)
  have seg: "sf_seg (sf_heap (world s)) 0 (table_head t (world s)) (addrs (T t)) 0" "list_all (entry_ok (sf_heap (world s))) (T t)"
    using rep_table [OF r(1), of t] by blast+
  have h0: "table_head t (world s) \<noteq> 0" using seg(1) Cons by (cases e) auto
  obtain k tot m' where k: "dents_loop (sf_heap (world s)) sz (table_head t (world s)) 2 (unat dest) 0 0 (sf_mem (world s)) = Some (tot, of_nat k, m')"
      "k \<le> length (T t)" "unat tot = dents_len (take k (map fst (T t)))" "unat tot \<le> unat sz"
      "k < length (T t) \<longrightarrow> unat sz < unat tot + dent_len (fst (T t ! k))"
      "read_dents m' (unat dest) (unat dest + unat tot) = dent_list 2 (take k (map fst (T t)))"
      "\<forall>x. \<not> (unat dest \<le> x \<and> x < unat dest + unat tot) \<longrightarrow> m' x = sf_mem (world s) x"
    using dents_loop_reads [OF seg r(2) _ z(2), of 0 2 "unat dest" 0 "sf_mem (world s)"] by auto
  let ?s = "upd_file fp (\<lambda>v. v\<lparr>f_offset := of_nat k\<rparr>) (s\<lparr>world := (world s)\<lparr>sf_mem := m'\<rparr>\<rparr>)"
  have run: "sysfs_getdents ctx dest sz s = Some (tot, ?s)" using c z(1) h0 k(1) by (simp add: sysfs_getdents_def)
  have "length (take k (map fst (T t))) \<le> dents_len (take k (map fst (T t)))" by (rule dents_len_ge)
  then have "k < 2 ^ 64" using k(2-4) z(2) by simp
  then have "k \<noteq> 0 \<Longrightarrow> (of_nat k :: u64) \<noteq> 0" by (simp add: word_unat_eq_iff unat_of_nat)
  moreover have "ctx_first ctx ?s = ctx_first ctx s" by (simp add: ctx_first_def cong: if_cong)
  moreover have "f_offset (files ?s ! fp) = of_nat k" using c(3) by (simp add: nth_upd_file)
  ultimately have "\<forall>dest' sz'. sysfs_getdents ctx dest' sz' ?s = Some (0, ?s)" if "0 < k" using that c by (simp add: sysfs_getdents_def)
  then show ?thesis using run k(2-7) \<open>f_offset (files ?s ! fp) = of_nat k\<close>
    by (intro exI [of _ k] exI [of _ tot] exI [of _ ?s]) simp
qed

definition two_files :: sysfs where
  "two_files = \<lparr>sys_files = 100, dev_files = 0, sys_files_addr = 16, dev_files_addr = 20,
     sf_heap = [100 \<mapsto> \<lparr>sf_name = ''time'', sf_cb = no_callbacks, sf_meta = 0, sf_type = 0x8000, sf_next = 200, sf_prev = 0\<rparr>,
                200 \<mapsto> \<lparr>sf_name = ''version'', sf_cb = no_callbacks, sf_meta = 0, sf_type = 0x8000, sf_next = 0, sf_prev = 100\<rparr>],
     sf_mem = (\<lambda>_. 0)\<rparr>"

definition two_files_vfs :: "sysfs vfs" where
  "two_files_vfs = \<lparr>files = [zero_file], is_task = True, cwd = ''/'', euid = 0, ctty = 0,
     mountpoints = [\<lparr>mp_addr = 1, mp_path = ''/sys'', mp_instance = 16, mp_type = ''sysfs'', mp_dev = None, mp_callbacks = no_callbacks\<rparr>],
     mounted = {}, sc_errno = None, world = two_files\<rparr>"

lemma sysfs_getdents_lists_example:
  "\<exists>tot s'. sysfs_getdents \<lparr>ctx_fp = Some 0, ctx_orig_path = ''/sys'', ctx_path = ''/'', ctx_mp = 1\<rparr> 1000 30 two_files_vfs = Some (tot, s') \<and>
     read_dents (sf_mem (world s')) 1000 (1000 + unat tot) = [(2, ''time'')]"
proof -
  let ?T = "(\<lambda>_. [])(Sys := [(''time'', 100, no_callbacks), (''version'', 200, no_callbacks)]) :: sf_entries"
  have "sf_seg (sf_heap two_files) 0 (table_head t two_files) (addrs (?T t)) 0 \<and> list_all (entry_ok (sf_heap two_files)) (?T t)" for t
    by (cases t) (auto simp: two_files_def entry_ok_def sysfs_name_def NUL_def)
  then have rep: "sysfs_rep (world two_files_vfs) ?T" by (simp add: sysfs_rep_def two_files_vfs_def)
  have pl: "list_all (\<lambda>e. plain (fst e)) (?T Sys)" by (simp add: plain_def NUL_def)
  have cx: "ctx_first \<lparr>ctx_fp = Some 0, ctx_orig_path = ''/sys'', ctx_path = ''/'', ctx_mp = 1\<rparr> two_files_vfs = Some (table_head Sys (world two_files_vfs))"
    by (simp add: ctx_first_def two_files_vfs_def two_files_def)
  have fs: "files two_files_vfs = [zero_file]" by (simp add: two_files_vfs_def)
  let ?ctx = "\<lparr>ctx_fp = Some 0, ctx_orig_path = ''/sys'', ctx_path = ''/'', ctx_mp = 1\<rparr>"
  have "\<exists>k tot s'. sysfs_getdents ?ctx 1000 30 two_files_vfs = Some (tot, s') \<and>
      read_dents (sf_mem (world s')) 1000 (1000 + unat tot) = dent_list 2 (take k [''time'', ''version'']) \<and>
      k \<le> Suc (Suc 0) \<and> unat tot = dents_len (take k [''time'', ''version'']) \<and> unat tot \<le> 30 \<and>
      (k < Suc (Suc 0) \<longrightarrow> 30 < unat tot + dent_len (fst (?T Sys ! k)))"
    using sysfs_getdents_lists [OF rep pl cx, of 0 30 1000] by (simp add: fs zero_file_def) blast
  then obtain k tot s' where k: "sysfs_getdents ?ctx 1000 30 two_files_vfs = Some (tot, s')"
      "read_dents (sf_mem (world s')) 1000 (1000 + unat tot) = dent_list 2 (take k [''time'', ''version''])"
      "k \<le> Suc (Suc 0)" "unat tot = dents_len (take k [''time'', ''version''])" "unat tot \<le> 30"
      "k < Suc (Suc 0) \<longrightarrow> 30 < unat tot + dent_len (fst (?T Sys ! k))" by blast
  have "k = 0 \<or> k = 1 \<or> k = 2" using k(3) by linarith
  then have "k = 1" using k(4-6) by (auto simp: dent_len_def)
  then show ?thesis using k(1,2) by auto
qed

end
