(* ===== verification/Bytes.thy ===== *)
theory Bytes
  imports Prelude
begin

text \<open>
  Little-endian fields of structures in byte buffers, as the C code sees them through packed structures.
\<close>

definition get16 :: "u8 list \<Rightarrow> nat \<Rightarrow> u16" where
  "get16 b i = ucast (b ! i) OR push_bit 8 (ucast (b ! (i + 1)))"

definition get32 :: "u8 list \<Rightarrow> nat \<Rightarrow> u32" where
  "get32 b i = ucast (b ! i) OR push_bit 8 (ucast (b ! (i + 1))) OR push_bit 16 (ucast (b ! (i + 2))) OR push_bit 24 (ucast (b ! (i + 3)))"

definition put16 :: "nat \<Rightarrow> u16 \<Rightarrow> u8 list \<Rightarrow> u8 list" where
  "put16 i v b = b[i := ucast v, i + 1 := ucast (drop_bit 8 v)]"

definition put32 :: "nat \<Rightarrow> u32 \<Rightarrow> u8 list \<Rightarrow> u8 list" where
  "put32 i v b = b[i := ucast v, i + 1 := ucast (drop_bit 8 v), i + 2 := ucast (drop_bit 16 v), i + 3 := ucast (drop_bit 24 v)]"

text \<open>\<^verbatim>\<open>memcpy\<close> of a list to the start of a buffer and to a position in it.\<close>

definition overlay :: "u8 list \<Rightarrow> u8 list \<Rightarrow> u8 list" where
  "overlay new b = new @ drop (length new) b"

definition overlay_at :: "nat \<Rightarrow> u8 list \<Rightarrow> u8 list \<Rightarrow> u8 list" where
  "overlay_at i new b = take i b @ overlay new (drop i b)"

lemma put_length [simp]: "length (put16 i v b) = length b" "length (put32 i w b) = length b"
  by (simp_all add: put16_def put32_def)

lemma overlay_length [simp]: "length (overlay new b) = max (length new) (length b)"
  by (simp add: overlay_def)

lemma overlay_at_length [simp]: "i + length new \<le> length b \<Longrightarrow> length (overlay_at i new b) = length b"
  by (simp add: overlay_at_def)

lemma nth_overlay: "overlay new b ! k = (if k < length new then new ! k else b ! k)" if "k < length b"
  using that by (auto simp: overlay_def nth_append)

lemma nth_overlay_at:
  "i + length new \<le> length b \<Longrightarrow> k < length b \<Longrightarrow> overlay_at i new b ! k = (if i \<le> k \<and> k < i + length new then new ! (k - i) else b ! k)"
  by (auto simp: overlay_at_def overlay_def nth_append min_def)

lemma get_put16 [simp]: "i + 2 \<le> length b \<Longrightarrow> get16 (put16 i v b) i = v"
  by (rule bit_word_eqI) (auto simp: get16_def put16_def bit_simps nth_list_update)

lemma get_put32 [simp]:
  assumes "i + 4 \<le> length b"
  shows "get32 (put32 i v b) i = v"
proof (rule bit_word_eqI)
  fix n assume n: "n < LENGTH(32)"
  consider "n < 8" | "8 \<le> n" "n < 16" | "16 \<le> n" "n < 24" | "24 \<le> n" using n by force
  then show "bit (get32 (put32 i v b) i) n \<longleftrightarrow> bit v n"
    by cases (use assms n in \<open>auto simp: get32_def put32_def bit_simps nth_list_update\<close>)
qed

text \<open>A field depends on its bytes only.\<close>

lemma get16_cong: "b ! i = c ! j \<Longrightarrow> b ! (i + 1) = c ! (j + 1) \<Longrightarrow> get16 b i = get16 c j"
  by (simp add: get16_def)

lemma get32_cong:
  "b ! i = c ! j \<Longrightarrow> b ! (i + 1) = c ! (j + 1) \<Longrightarrow> b ! (i + 2) = c ! (j + 2) \<Longrightarrow> b ! (i + 3) = c ! (j + 3) \<Longrightarrow> get32 b i = get32 c j"
  by (simp add: get32_def)

lemma nth_put16: "k < i \<or> i + 2 \<le> k \<Longrightarrow> put16 i v b ! k = b ! k"
  by (auto simp: put16_def)

lemma nth_put32: "k < i \<or> i + 4 \<le> k \<Longrightarrow> put32 i v b ! k = b ! k"
  by (auto simp: put32_def)

lemma get_put_other [simp]:
  "j + 2 \<le> i \<or> i + 2 \<le> j \<Longrightarrow> get16 (put16 i v b) j = get16 b j"
  "j + 2 \<le> i \<or> i + 4 \<le> j \<Longrightarrow> get16 (put32 i w b) j = get16 b j"
  "j + 4 \<le> i \<or> i + 2 \<le> j \<Longrightarrow> get32 (put16 i v b) j = get32 b j"
  "j + 4 \<le> i \<or> i + 4 \<le> j \<Longrightarrow> get32 (put32 i w b) j = get32 b j"
  by (intro get16_cong get32_cong nth_put16 nth_put32; linarith)+

lemma get_take: "i + 2 \<le> n \<Longrightarrow> get16 (take n b) i = get16 b i" "i + 4 \<le> n \<Longrightarrow> get32 (take n b) i = get32 b i"
  by (simp_all add: get16_def get32_def)

lemma get_drop: "n \<le> length b \<Longrightarrow> get16 (drop n b) i = get16 b (n + i)" "n \<le> length b \<Longrightarrow> get32 (drop n b) i = get32 b (n + i)"
  by (simp_all add: get16_def get32_def add.assoc)

end
