(* ===== verification/Ext2_Inode.thy ===== *)
theory Ext2_Inode
  imports Block Bytes
begin

text \<open>
  The ext2 file system below directories: bitmaps and blocks (\<^verbatim>\<open>src/fs/ext2_misc.c\<close>), inodes and their data
  (\<^verbatim>\<open>src/fs/ext2_inode.c\<close>). The superblock, the block group table and inodes are the packed structures the code reads from the device, kept as
  bytes. The outcome \<open>Fault\<close> is an access outside of a buffer, \<open>Panic\<close> the failed assertion in \<^verbatim>\<open>vfs_block_sread\<close>.
\<close>

section \<open>State\<close>

text \<open>The surroundings: the driver of the device, the contents of memory that \<^verbatim>\<open>kmalloc\<close> returns, and the time.\<close>

record 'd ext2_env =
  e_read :: "'d read_cb"
  e_write :: "'d write_cb"
  e_dev :: vfs_block_dev
  e_junk :: "nat \<Rightarrow> u8 list"
  e_now :: u32

record 'd ext2_fs =
  medium :: 'd
  superblock :: "u8 list"
  blockgroup_table :: "u8 list"
  root_inode :: "u8 list option"
  inode_cache :: "(u32 \<times> u8 list) list"
  inode_cache_end :: u32
  e2_errno :: "errno option"

definition ROOT_INODE :: u32 where "ROOT_INODE = 2"
definition INODE_CACHE_MAX :: u32 where "INODE_CACHE_MAX = 0x100"

text \<open>\<^verbatim>\<open>sizeof(struct inode)\<close>, which is two bytes more than the inodes of revision 0 and of many file systems of revision 1 have.\<close>

definition sizeof_inode :: nat where "sizeof_inode = 130"

definition sb_free_blocks :: "'d ext2_fs \<Rightarrow> u32" where "sb_free_blocks s = get32 (superblock s) 12"
definition sb_free_inodes :: "'d ext2_fs \<Rightarrow> u32" where "sb_free_inodes s = get32 (superblock s) 16"
definition block_count :: "'d ext2_fs \<Rightarrow> u32" where "block_count s = get32 (superblock s) 4"
definition blocks_per_group :: "'d ext2_fs \<Rightarrow> u32" where "blocks_per_group s = get32 (superblock s) 32"
definition inodes_per_group :: "'d ext2_fs \<Rightarrow> u32" where "inodes_per_group s = get32 (superblock s) 40"
definition inode_size :: "'d ext2_fs \<Rightarrow> u16" where "inode_size s = get16 (superblock s) 88"

definition set_sb32 :: "nat \<Rightarrow> u32 \<Rightarrow> 'd ext2_fs \<Rightarrow> 'd ext2_fs" where
  "set_sb32 i v s = s\<lparr>superblock := put32 i v (superblock s)\<rparr>"

text \<open>Positions of the fields of a block group's entry and of an inode.\<close>

definition bg_block_bitmap :: nat where "bg_block_bitmap = 0"
definition bg_inode_bitmap :: nat where "bg_inode_bitmap = 4"
definition bg_inode_table :: nat where "bg_inode_table = 8"
definition bg_free_blocks :: nat where "bg_free_blocks = 12"
definition bg_free_inodes :: nat where "bg_free_inodes = 14"
definition bg_used_directories :: nat where "bg_used_directories = 16"

definition bg32 :: "'d ext2_fs \<Rightarrow> nat \<Rightarrow> nat \<Rightarrow> u32" where
  "bg32 s n i = get32 (blockgroup_table s) (32 * n + i)"

definition bg16 :: "'d ext2_fs \<Rightarrow> nat \<Rightarrow> nat \<Rightarrow> u16" where
  "bg16 s n i = get16 (blockgroup_table s) (32 * n + i)"

definition set_bg16 :: "nat \<Rightarrow> nat \<Rightarrow> u16 \<Rightarrow> 'd ext2_fs \<Rightarrow> 'd ext2_fs" where
  "set_bg16 n i v s = s\<lparr>blockgroup_table := put16 (32 * n + i) v (blockgroup_table s)\<rparr>"

definition has_group :: "'d ext2_fs \<Rightarrow> nat \<Rightarrow> bool" where
  "has_group s n \<longleftrightarrow> 32 * n + 32 \<le> length (blockgroup_table s)"

definition in_mode :: nat where "in_mode = 0"
definition in_uid :: nat where "in_uid = 2"
definition in_size :: nat where "in_size = 4"
definition in_atime :: nat where "in_atime = 8"
definition in_ctime :: nat where "in_ctime = 12"
definition in_mtime :: nat where "in_mtime = 16"
definition in_dtime :: nat where "in_dtime = 20"
definition in_gid :: nat where "in_gid = 24"
definition in_link_count :: nat where "in_link_count = 26"
definition in_block_count :: nat where "in_block_count = 28"
definition in_flags :: nat where "in_flags = 32"
definition in_blocks :: nat where "in_blocks = 40"

lemmas ext2_fields =
  bg_block_bitmap_def bg_inode_bitmap_def bg_inode_table_def bg_free_blocks_def bg_free_inodes_def bg_used_directories_def
  in_mode_def in_uid_def in_size_def in_atime_def in_ctime_def in_mtime_def in_dtime_def in_gid_def in_link_count_def
  in_block_count_def in_flags_def in_blocks_def

section \<open>Blocks\<close>

text \<open>\<^verbatim>\<open>1024 << block_size\<close> is defined up to a shift by 20.\<close>

definition blk :: "'d ext2_fs \<Rightarrow> u64" where
  "blk s = push_bit (unat (get32 (superblock s) 24)) 1024"

definition bl_off :: "'d ext2_fs \<Rightarrow> u64 \<Rightarrow> u64" where
  "bl_off s b = b * blk s"

definition bl_size :: "'d ext2_fs \<Rightarrow> u64 \<Rightarrow> u64" where
  "bl_size s b = b div blk s"

definition bl_mod :: "'d ext2_fs \<Rightarrow> u64 \<Rightarrow> u64" where
  "bl_mod s b = b mod blk s"

definition inode_to_blockgroup :: "'d ext2_fs \<Rightarrow> u32 \<Rightarrow> u32" where
  "inode_to_blockgroup s ino = (ino - 1) div inodes_per_group s"

definition sread :: "'d ext2_env \<Rightarrow> u64 \<Rightarrow> u64 \<Rightarrow> 'd ext2_fs \<Rightarrow> (u64 \<times> u8 list) outcome" where
  "sread E pos n s = (case vfs_block_sread (e_read E) (e_dev E) pos n (medium s) of None \<Rightarrow> Panic | Some r \<Rightarrow> Ret r)"

definition swrite :: "'d ext2_env \<Rightarrow> u64 \<Rightarrow> u64 \<Rightarrow> u8 list \<Rightarrow> 'd ext2_fs \<Rightarrow> u64 \<times> 'd ext2_fs" where
  "swrite E pos n buf s =
     (let (r, w) = vfs_block_swrite (e_read E) (e_write E) (e_dev E) pos n buf (medium s) in (r, s\<lparr>medium := w\<rparr>))"

definition blockgroup_table_start :: "'d ext2_fs \<Rightarrow> u64" where
  "blockgroup_table_start s = (if bl_off s 1 = 1024 then 2 else 1)"

definition blockgroup_table_size :: "'d ext2_fs \<Rightarrow> u64" where
  "blockgroup_table_size s = bl_size s (ucast (block_count s div blocks_per_group s * 32)) + 1"

definition write_superblock :: "'d ext2_env \<Rightarrow> 'd ext2_fs \<Rightarrow> 'd ext2_fs" where
  "write_superblock E s = snd (swrite E 1024 1024 (superblock s) s)"

definition write_blockgroup_table :: "'d ext2_env \<Rightarrow> 'd ext2_fs \<Rightarrow> 'd ext2_fs" where
  "write_blockgroup_table E s =
     snd (swrite E (bl_off s (blockgroup_table_start s)) (bl_off s (blockgroup_table_size s)) (blockgroup_table s) s)"

section \<open>Bitmaps\<close>

text \<open>The first clear bit of a bitmap of \<open>n\<close> bytes and the bitmap with the bit set; zero if there is none.\<close>

definition claim_search :: "u8 list \<Rightarrow> nat \<Rightarrow> nat \<times> u8 list" where
  "claim_search bm n =
     (case find (\<lambda>i. bm ! i \<noteq> 0xff) [0..<n] of
        None \<Rightarrow> (0, bm)
      | Some i \<Rightarrow>
          (case find (\<lambda>j. \<not> bit (bm ! i) j) [0..<8] of
             None \<Rightarrow> (0, bm)
           | Some j \<Rightarrow> (i * 8 + j, bm[i := bm ! i OR push_bit j 1])))"

definition read_block :: "'d ext2_env \<Rightarrow> u32 \<Rightarrow> u8 list \<Rightarrow> 'd ext2_fs \<Rightarrow> u8 list outcome" where
  "read_block E num buf s = obind (sread E (bl_off s (ucast num)) (bl_off s 1) s) (\<lambda>(_, bytes). Ret (overlay bytes buf))"

definition write_block :: "'d ext2_env \<Rightarrow> u32 \<Rightarrow> u8 list \<Rightarrow> 'd ext2_fs \<Rightarrow> 'd ext2_fs" where
  "write_block E num buf s = snd (swrite E (bl_off s (ucast num)) (bl_off s 1) buf s)"

definition ext2_bitmap_search_and_claim :: "'d ext2_env \<Rightarrow> u32 \<Rightarrow> 'd ext2_fs \<Rightarrow> (u32 \<times> 'd ext2_fs) outcome" where
  "ext2_bitmap_search_and_claim E bitmap_block s =
     obind (read_block E bitmap_block (e_junk E (unat (bl_off s 1))) s) (\<lambda>bitmap.
       let (result, bitmap) = claim_search bitmap (unat (bl_off s 1)) in
       Ret (of_nat result, if result \<noteq> 0 then write_block E bitmap_block bitmap s else s))"

definition ext2_bitmap_free :: "'d ext2_env \<Rightarrow> u32 \<Rightarrow> u32 \<Rightarrow> 'd ext2_fs \<Rightarrow> 'd ext2_fs outcome" where
  "ext2_bitmap_free E bitmap_block b s =
     obind (read_block E bitmap_block (e_junk E (unat (bl_off s 1))) s) (\<lambda>bitmap.
       let i = unat (b div 8) in
       if length bitmap \<le> i then Fault
       else Ret (write_block E bitmap_block (bitmap[i := bitmap ! i AND NOT (push_bit (unat (b mod 8)) 1)]) s))"

definition ext2_block_new :: "'d ext2_env \<Rightarrow> u32 \<Rightarrow> 'd ext2_fs \<Rightarrow> (u32 \<times> 'd ext2_fs) outcome" where
  "ext2_block_new E neighbor s =
     (let pref_blockgroup = unat (inode_to_blockgroup s neighbor) in
      if \<not> has_group s pref_blockgroup then Fault
      else if bg32 s pref_blockgroup bg_inode_table = 0 then Ret (0, s)
      else obind (ext2_bitmap_search_and_claim E (bg32 s pref_blockgroup bg_block_bitmap) s) (\<lambda>(block_num, s).
        if block_num = 0 then Ret (0, s)
        else let s = set_sb32 12 (sb_free_blocks s - 1) s;
                 s = set_bg16 pref_blockgroup bg_free_blocks (bg16 s pref_blockgroup bg_free_blocks - 1) s in
             Ret (block_num, write_blockgroup_table E (write_superblock E s))))"

section \<open>Inodes\<close>

text \<open>The position of an inode on the device, zero if there is none.\<close>

definition find_inode :: "'d ext2_fs \<Rightarrow> u32 \<Rightarrow> u64 outcome" where
  "find_inode s inode_num =
     (let blockgroup_num = inode_to_blockgroup s inode_num in
      if block_count s div blocks_per_group s < blockgroup_num then Ret 0
      else if \<not> has_group s (unat blockgroup_num) then Fault
      else let inode_table = bg32 s (unat blockgroup_num) bg_inode_table in
           if inode_table = 0 then Ret 0
           else Ret (bl_off s (ucast inode_table) + ucast ((inode_num - 1) mod inodes_per_group s * ucast (inode_size s))))"

fun cache_index :: "(u32 \<times> u8 list) list \<Rightarrow> u32 \<Rightarrow> nat \<Rightarrow> nat option" where
  "cache_index [] inode_num i = None"
| "cache_index ((num, _) # cs) inode_num i =
     (if num = 0 then None else if num = inode_num then Some i else cache_index cs inode_num (Suc i))"

definition check_cache :: "'d ext2_fs \<Rightarrow> u32 \<Rightarrow> nat option" where
  "check_cache s inode_num = cache_index (inode_cache s) inode_num 0"

text \<open>A buffer for an inode as \<^verbatim>\<open>kmalloc\<close> returns it.\<close>

definition inode_buf :: "'d ext2_env \<Rightarrow> 'd ext2_fs \<Rightarrow> u8 list" where
  "inode_buf E s = e_junk E (unat (inode_size s))"

text \<open>The result is the return value and the new contents of the buffer.\<close>

definition ext2_inode_read :: "'d ext2_env \<Rightarrow> u8 list \<Rightarrow> u32 \<Rightarrow> 'd ext2_fs \<Rightarrow> (bool \<times> u8 list \<times> 'd ext2_fs) outcome" where
  "ext2_inode_read E buf inode_num s =
     (case (if inode_num = ROOT_INODE then root_inode s else None) of
        Some root \<Rightarrow> Ret (True, overlay (take (unat (inode_size s)) root) buf, s)
      | None \<Rightarrow>
          (case check_cache s inode_num of
             Some i \<Rightarrow> if length buf < sizeof_inode then Fault else Ret (True, overlay (snd (inode_cache s ! i)) buf, s)
           | None \<Rightarrow>
               obind (find_inode s inode_num) (\<lambda>inode_off.
                 if inode_off = 0 then Ret (False, buf, s)
                 else obind (sread E inode_off (ucast (inode_size s)) s) (\<lambda>(n, bytes).
                   let buf = overlay bytes buf in
                   if n < ucast (inode_size s) then Ret (False, buf, s)
                   else if length buf < sizeof_inode then Fault
                   else Ret (True, buf,
                     s\<lparr>inode_cache := (inode_cache s)[unat (inode_cache_end s) := (inode_num, take sizeof_inode buf)],
                       inode_cache_end := (inode_cache_end s + 1) mod INODE_CACHE_MAX\<rparr>)))))"

definition ext2_inode_write :: "'d ext2_env \<Rightarrow> u8 list \<Rightarrow> u32 \<Rightarrow> 'd ext2_fs \<Rightarrow> (bool \<times> 'd ext2_fs) outcome" where
  "ext2_inode_write E buf inode_num s =
     (let s = (if inode_num = ROOT_INODE
               then s\<lparr>root_inode := map_option (overlay (take (unat (inode_size s)) buf)) (root_inode s)\<rparr> else s) in
      obind (find_inode s inode_num) (\<lambda>inode_off.
        if inode_off = 0 then Ret (False, s)
        else obind (case check_cache s inode_num of
                      None \<Rightarrow> Ret s
                    | Some i \<Rightarrow>
                        if length buf < sizeof_inode then Fault
                        else Ret (s\<lparr>inode_cache := (inode_cache s)[i := (inode_num, take sizeof_inode buf)]\<rparr>))
               (\<lambda>s. let (r, s) = swrite E inode_off (ucast (inode_size s)) buf s in Ret (r \<noteq> 0, s))))"

text \<open>The result is the number of the inode and the contents of the caller's buffer. The group's first inode is not added to the number.\<close>

definition ext2_inode_new :: "'d ext2_env \<Rightarrow> u16 \<Rightarrow> 'd ext2_fs \<Rightarrow> (u32 \<times> u8 list \<times> 'd ext2_fs) outcome" where
  "ext2_inode_new E mode s =
     (case find (\<lambda>n. bg16 s n bg_free_inodes \<noteq> 0) [0..<length (blockgroup_table s) div 32] of
        None \<Rightarrow> Fault
      | Some n \<Rightarrow>
          obind (ext2_bitmap_search_and_claim E (bg32 s n bg_inode_bitmap) s) (\<lambda>(r, s).
            let inode_num = r + 1;
                inode = put16 in_mode mode (replicate (unat (inode_size s)) 0);
                inode = put32 in_atime (e_now E) (put32 in_mtime (e_now E) (put32 in_ctime (e_now E) inode)) in
            obind (ext2_inode_write E inode inode_num s) (\<lambda>(_, s).
              let s = set_sb32 16 (sb_free_inodes s - 1) s;
                  s = set_bg16 n bg_free_inodes (bg16 s n bg_free_inodes - 1) s in
              Ret (inode_num, inode, write_blockgroup_table E (write_superblock E s)))))"

section \<open>Data of an inode\<close>

record resolver_cache =
  indirect_table :: "u8 list option"
  double_table :: "u8 list option"
  double_second_block :: u32
  double_second_table :: "u8 list option"

definition new_resolver_cache :: resolver_cache where
  "new_resolver_cache = \<lparr>indirect_table = None, double_table = None, double_second_block = 0, double_second_table = None\<rparr>"

definition entries_per_block :: "'d ext2_fs \<Rightarrow> u32" where
  "entries_per_block s = ucast (bl_off s 1 div 4)"

definition zero_block :: "'d ext2_fs \<Rightarrow> u8 list" where
  "zero_block s = replicate (unat (bl_off s 1)) 0"

definition load_table :: "'d ext2_env \<Rightarrow> u32 \<Rightarrow> u8 list option \<Rightarrow> 'd ext2_fs \<Rightarrow> u8 list outcome" where
  "load_table E num tab s = (case tab of Some t \<Rightarrow> Ret t | None \<Rightarrow> read_block E num (zero_block s) s)"

definition inode_block :: "u8 list \<Rightarrow> nat \<Rightarrow> u32" where
  "inode_block inode i = get32 inode (in_blocks + 4 * i)"

definition resolve_double ::
    "'d ext2_env \<Rightarrow> u8 list \<Rightarrow> u32 \<Rightarrow> resolver_cache \<Rightarrow> 'd ext2_fs \<Rightarrow> (u32 \<times> resolver_cache) outcome" where
  "resolve_double E inode n cache s =
     (let epb = entries_per_block s in
      obind (load_table E (inode_block inode 13) (double_table cache) s) (\<lambda>dt.
        let cache = cache\<lparr>double_table := Some dt\<rparr>; indir_block_num = get32 dt (4 * unat (n div epb)) in
        if indir_block_num = 0 then Ret (0, cache)
        else let st = (case double_second_table cache of None \<Rightarrow> zero_block s | Some t \<Rightarrow> t) in
             obind (if double_second_block cache \<noteq> indir_block_num then read_block E indir_block_num st s else Ret st) (\<lambda>st.
               Ret (get32 st (4 * unat (n mod epb)), cache\<lparr>double_second_table := Some st, double_second_block := indir_block_num\<rparr>))))"

definition ext2_resolve_blocknum ::
    "'d ext2_env \<Rightarrow> u8 list \<Rightarrow> u32 \<Rightarrow> resolver_cache \<Rightarrow> 'd ext2_fs \<Rightarrow> (u32 \<times> resolver_cache) outcome" where
  "ext2_resolve_blocknum E inode block_num cache s =
     (let epb = entries_per_block s in
      if block_num < 12 then Ret (inode_block inode (unat block_num), cache)
      else if block_num < epb + 12
      then if inode_block inode 12 = 0 then Ret (0, cache)
           else obind (load_table E (inode_block inode 12) (indirect_table cache) s) (\<lambda>t.
                  Ret (get32 t (4 * unat (block_num - 12)), cache\<lparr>indirect_table := Some t\<rparr>))
      else if block_num < epb * epb + 12
      then if inode_block inode 13 = 0 then Ret (0, cache)
           else resolve_double E inode (block_num - epb - 12) cache s
      else Ret (0, cache))"

text \<open>
  \<^verbatim>\<open>ext2_inode_data_rw\<close>. A length of whole blocks at an offset inside of a block is counted one block short.
\<close>

definition rw_num_blocks :: "'d ext2_fs \<Rightarrow> u64 \<Rightarrow> u32 \<Rightarrow> u32" where
  "rw_num_blocks s offset len =
     (let len = ucast len; n = ucast (bl_size s len);
          n = (if bl_mod s len \<noteq> 0 then n + 1 else n) in
      if bl_mod s offset \<noteq> 0 \<and> bl_off s 1 < bl_mod s offset + bl_mod s len then n + 1 else n)"

text \<open>
  A missing block is allocated when writing. It is entered at the index \<open>i\<close> of the round, not at its number in the file. The result is
  the number of the block, zero on failure, and the inode.
\<close>

definition rw_block ::
    "'d ext2_env \<Rightarrow> u8 list \<Rightarrow> u32 \<Rightarrow> nat \<Rightarrow> u32 \<Rightarrow> 'd ext2_fs \<Rightarrow> (u32 \<times> u8 list \<times> 'd ext2_fs) outcome" where
  "rw_block E inode write_inode_num i block_num s =
     (if block_num \<noteq> 0 then Ret (block_num, inode, s)
      else if write_inode_num = 0 then Ret (0, inode, s)
      else obind (ext2_block_new E write_inode_num s) (\<lambda>(block_num, s).
        if block_num = 0 then Ret (0, inode, s)
        else let inode = put32 in_block_count (get32 inode in_block_count + 8) inode in
             if 12 \<le> i then Ret (0, inode, s)
             else let inode = put32 (in_blocks + 4 * i) block_num inode in
                  obind (ext2_inode_write E inode write_inode_num s) (\<lambda>(_, s). Ret (block_num, inode, s))))"

text \<open>The part of the block that belongs to the transfer.\<close>

definition rw_window :: "'d ext2_fs \<Rightarrow> nat \<Rightarrow> u64 \<Rightarrow> u32 \<Rightarrow> u32 \<Rightarrow> u32 \<Rightarrow> u64 \<times> u64" where
  "rw_window s i offset len buf_offset block_num =
     (let skip = (if i = 0 then bl_mod s offset else 0);
          wr_offset = bl_off s (ucast block_num) + skip; wr_size = bl_off s 1 - skip in
      (wr_offset, if ucast (len - buf_offset) < wr_size then ucast (len - buf_offset) else wr_size))"

definition rw_transfer ::
    "'d ext2_env \<Rightarrow> u32 \<Rightarrow> u64 \<times> u64 \<Rightarrow> nat \<Rightarrow> u8 list \<Rightarrow> 'd ext2_fs \<Rightarrow> (bool \<times> u8 list \<times> 'd ext2_fs) outcome" where
  "rw_transfer E write_inode_num w buf_offset buf s =
     (let (wr_offset, wr_size) = w in
      obind (if write_inode_num \<noteq> 0
             then let (n, s) = swrite E wr_offset wr_size (drop buf_offset buf) s in Ret (n, buf, s)
             else obind (sread E wr_offset wr_size s) (\<lambda>(n, bytes). Ret (n, overlay_at buf_offset bytes buf, s)))
        (\<lambda>(n, buf, s). Ret (\<not> word_of_int (as_int n) < wr_size, buf, s)))"

fun rw_loop ::
    "'d ext2_env \<Rightarrow> u32 \<Rightarrow> u64 \<Rightarrow> u32 \<Rightarrow> nat \<Rightarrow> nat \<Rightarrow> u32 \<Rightarrow> resolver_cache \<Rightarrow> u8 list \<Rightarrow> u8 list \<Rightarrow> 'd ext2_fs \<Rightarrow>
     (bool \<times> u8 list \<times> u8 list \<times> 'd ext2_fs) outcome" where
  "rw_loop E wnum offset len 0 i buf_offset cache inode buf s = Ret (True, buf, inode, s)"
| "rw_loop E wnum offset len (Suc n) i buf_offset cache inode buf s =
     obind (ext2_resolve_blocknum E inode (ucast (of_nat i + bl_size s offset)) cache s) (\<lambda>(block_num, cache).
     obind (rw_block E inode wnum i block_num s) (\<lambda>(block_num, inode, s).
       if block_num = 0 then Ret (False, buf, inode, s)
       else let w = rw_window s i offset len buf_offset block_num in
            obind (rw_transfer E wnum w (unat buf_offset) buf s) (\<lambda>(ok, buf, s).
              if ok then rw_loop E wnum offset len n (Suc i) (buf_offset + ucast (snd w)) cache inode buf s
              else Ret (False, buf, inode, s))))"

text \<open>The result: whether the call succeeded, and the contents of the buffer and of the inode afterwards.\<close>

definition ext2_inode_data_rw ::
    "'d ext2_env \<Rightarrow> u8 list \<Rightarrow> u32 \<Rightarrow> u64 \<Rightarrow> u32 \<Rightarrow> u8 list \<Rightarrow> 'd ext2_fs \<Rightarrow> (bool \<times> u8 list \<times> u8 list \<times> 'd ext2_fs) outcome" where
  "ext2_inode_data_rw E inode wnum offset len buf s =
     rw_loop E wnum offset len (unat (rw_num_blocks s offset len)) 0 0 new_resolver_cache inode buf s"

definition ext2_inode_read_data ::
    "'d ext2_env \<Rightarrow> u8 list \<Rightarrow> u64 \<Rightarrow> u32 \<Rightarrow> u8 list \<Rightarrow> 'd ext2_fs \<Rightarrow> (bool \<times> u8 list \<times> 'd ext2_fs) outcome" where
  "ext2_inode_read_data E inode offset len buf s =
     obind (ext2_inode_data_rw E inode 0 offset len buf s) (\<lambda>(ok, buf, _, s). Ret (ok, buf, s))"

section \<open>Permissions\<close>

definition PERM_CHECK_READ :: nat where "PERM_CHECK_READ = 2"
definition PERM_CHECK_WRITE :: nat where "PERM_CHECK_WRITE = 1"
definition PERM_CHECK_EXEC :: nat where "PERM_CHECK_EXEC = 0"

text \<open>The task is \<open>None\<close> for the kernel, otherwise its effective user and group.\<close>

definition ext2_inode_check_perm :: "nat \<Rightarrow> u8 list \<Rightarrow> (u16 \<times> u16) option \<Rightarrow> int" where
  "ext2_inode_check_perm op inode task =
     (case task of
        None \<Rightarrow> 0
      | Some (uid, gid) \<Rightarrow>
          if uid = 0 then 0
          else let bit_offset = (if uid = get16 inode in_uid then 6 else if gid = get16 inode in_gid then 3 else 0) in
               if bit (get16 inode in_mode) (bit_offset + op) then 0 else - 1)"

end
