(* ===== verification/Ext2_Dirent.thy ===== *)
theory Ext2_Dirent
  imports Ext2_Inode
begin

text \<open>
  Directories of ext2 (\<^verbatim>\<open>src/fs/ext2_dirent.c\<close>): reading entries through a window of 512 bytes, path lookup, adding and removing entries. An entry
  is a \<^verbatim>\<open>struct dirent\<close>: inode (4 bytes), \<^verbatim>\<open>record_len\<close> (2), \<^verbatim>\<open>name_len\<close>, \<^verbatim>\<open>type\<close>, and the name. The tree of
  \<^verbatim>\<open>ftree.c\<close> that the lookup fills on the way is left out.
\<close>

section \<open>Entries\<close>

definition sizeof_dirent :: nat where "sizeof_dirent = 8"

definition ent_inode :: "u8 list \<Rightarrow> nat \<Rightarrow> u32" where "ent_inode b p = get32 b p"
definition ent_record_len :: "u8 list \<Rightarrow> nat \<Rightarrow> u16" where "ent_record_len b p = get16 b (p + 4)"
definition ent_name_len :: "u8 list \<Rightarrow> nat \<Rightarrow> nat" where "ent_name_len b p = unat (b ! (p + 6))"
definition ent_type :: "u8 list \<Rightarrow> nat \<Rightarrow> u8" where "ent_type b p = b ! (p + 7)"

definition chars :: "u8 list \<Rightarrow> string" where "chars = map (\<lambda>x. char_of (unat x))"
definition unchars :: "string \<Rightarrow> u8 list" where "unchars = map of_char"

definition ent_name :: "u8 list \<Rightarrow> nat \<Rightarrow> string" where
  "ent_name b p = chars (take (ent_name_len b p) (drop (p + 8) b))"

section \<open>Reading\<close>

record rd_r =
  rd_buf :: "u8 list"
  read_len :: u32
  read_off :: u32
  last_len :: u32

definition new_rd_r :: rd_r where
  "new_rd_r = \<lparr>rd_buf = replicate 0x200 0, read_len = 0, read_off = 0, last_len = 0\<rparr>"

text \<open>The macro \<^verbatim>\<open>dirent_off\<close>, and the first part of the loop: reads the window at \<open>offset\<close> if the header of the entry is not inside of the current one. \<open>False\<close>: \<^verbatim>\<open>return NULL\<close>.\<close>

definition dirent_off :: "u64 \<Rightarrow> rd_r \<Rightarrow> u64" where
  "dirent_off offset r = offset - ucast (read_off r)"

definition readdir_fill :: "'d ext2_env \<Rightarrow> u8 list \<Rightarrow> u64 \<Rightarrow> rd_r \<Rightarrow> 'd ext2_fs \<Rightarrow> (bool \<times> rd_r \<times> 'd ext2_fs) outcome" where
  "readdir_fill E inode offset r s =
     (if dirent_off offset r + 8 < ucast (read_len r) then Ret (True, r, s)
      else if ucast (get32 inode in_size) \<le> offset then Ret (False, r, s)
      else let rsize = ucast (min 0x200 (ucast (get32 inode in_size) - offset)) in
           obind (ext2_inode_read_data E inode offset rsize (rd_buf r) s) (\<lambda>(ok, buf, s).
             if ok then Ret (True, r\<lparr>rd_buf := buf, read_off := ucast offset, read_len := rsize\<rparr>, s)
             else Ret (False, r\<lparr>rd_buf := buf\<rparr>, s)))"

text \<open>The entry at \<open>p\<close> of the window as a \<^verbatim>\<open>vfs_dirent_t\<close>: inode (4 bytes), offset (4), length (2), type, name.\<close>

definition to_vfs_dirent :: "u8 list \<Rightarrow> nat \<Rightarrow> u8 list" where
  "to_vfs_dirent b p =
     (let name_len = ent_name_len b p; len = 11 + name_len + 2;
          result = put16 8 (of_nat len) ((put32 0 (ent_inode b p) (replicate len 0))[10 := ent_type b p]) in
      (overlay_at 11 (take name_len (drop (p + 8) b)) result)[11 + name_len := 0])"

text \<open>
  The whole loop. The result is the entry (\<open>None\<close> for \<^verbatim>\<open>NULL\<close>) and the new offset; \<open>None\<close> outside: the loop does not end, which happens for an entry that
  fills the directory to its last byte.
\<close>

partial_function (option) readdir_loop ::
    "'d ext2_env \<Rightarrow> u8 list \<Rightarrow> u64 \<Rightarrow> rd_r \<Rightarrow> 'd ext2_fs \<Rightarrow> (u8 list option \<times> u64 \<times> rd_r \<times> 'd ext2_fs) outcome option" where
  "readdir_loop E inode offset r s =
     (case readdir_fill E inode offset r s of
        Spin \<Rightarrow> Some Spin | Panic \<Rightarrow> Some Panic | Fault \<Rightarrow> Some Fault
      | Ret (ok, r, s) \<Rightarrow>
          if \<not> ok then Some (Ret (None, offset, r, s))
          else let p = unat (dirent_off offset r) in
               if length (rd_buf r) < p + 8 then Some Fault
               else if unat (read_len r) \<le> p + 8 + ent_name_len (rd_buf r) p then readdir_loop E inode offset (r\<lparr>read_len := 0\<rparr>) s
               else let r = r\<lparr>last_len := ucast (ent_record_len (rd_buf r) p)\<rparr>;
                        offset = offset + ucast (ent_record_len (rd_buf r) p) in
                    if ent_inode (rd_buf r) p = 0 then readdir_loop E inode offset r s
                    else Some (Ret (Some (to_vfs_dirent (rd_buf r) p), offset, r, s)))"

definition ext2_readdir_r ::
    "'d ext2_env \<Rightarrow> u8 list \<Rightarrow> u64 \<Rightarrow> rd_r \<Rightarrow> 'd ext2_fs \<Rightarrow> (u8 list option \<times> u64 \<times> rd_r \<times> 'd ext2_fs) outcome" where
  "ext2_readdir_r E inode offset r s = (case readdir_loop E inode offset r s of None \<Rightarrow> Spin | Some x \<Rightarrow> x)"

definition d_name :: "u8 list \<Rightarrow> string" where
  "d_name ent = chars (drop 11 ent)"

partial_function (option) search_loop ::
    "'d ext2_env \<Rightarrow> u8 list \<Rightarrow> string \<Rightarrow> u64 \<Rightarrow> rd_r \<Rightarrow> 'd ext2_fs \<Rightarrow> (u8 list option \<times> 'd ext2_fs) outcome option" where
  "search_loop E inode search offset r s =
     (case ext2_readdir_r E inode offset r s of
        Spin \<Rightarrow> Some Spin | Panic \<Rightarrow> Some Panic | Fault \<Rightarrow> Some Fault
      | Ret (ent, offset, r, s) \<Rightarrow>
          (case ent of
             None \<Rightarrow> Some (Ret (None, s))
           | Some ent \<Rightarrow> if strcmp (d_name ent) search = 0 then Some (Ret (Some ent, s)) else search_loop E inode search offset r s))"

text \<open>
  The result is the \<^verbatim>\<open>vfs_dirent_t\<close> that was found; the callers take it for a \<^verbatim>\<open>struct dirent\<close>, of which only the inode is at the same place. The
  type they see is the last byte of the offset field.
\<close>

definition search_dir :: "'d ext2_env \<Rightarrow> u8 list \<Rightarrow> string \<Rightarrow> 'd ext2_fs \<Rightarrow> (u8 list option \<times> 'd ext2_fs) outcome" where
  "search_dir E inode search s = (case search_loop E inode search 0 new_rd_r s of None \<Rightarrow> Spin | Some x \<Rightarrow> x)"

text \<open>The loop over the segments of the path. The result is the last entry and the inode of its parent (\<^verbatim>\<open>*parent_ino\<close>).\<close>

fun dirent_walk ::
    "'d ext2_env \<Rightarrow> (u16 \<times> u16) option \<Rightarrow> string list \<Rightarrow> u8 list option \<Rightarrow> u8 list \<Rightarrow> u32 \<Rightarrow> 'd ext2_fs \<Rightarrow>
     (u8 list option \<times> u32 \<times> 'd ext2_fs) outcome" where
  "dirent_walk E task [] dirent inode parent s = Ret (dirent, parent, s)"
| "dirent_walk E task (pch # ps) dirent inode parent s =
     (let parent = (case dirent of None \<Rightarrow> ROOT_INODE | Some d \<Rightarrow> ent_inode d 0) in
      obind (search_dir E inode pch s) (\<lambda>(d, s).
        case d of
          None \<Rightarrow> Ret (None, parent, s\<lparr>e2_errno := Some ENOENT\<rparr>)
        | Some d \<Rightarrow>
            obind (ext2_inode_read E inode (ent_inode d 0) s) (\<lambda>(ok, inode, s).
              if \<not> ok then Ret (None, parent, s\<lparr>e2_errno := Some ENOENT\<rparr>)
              else if ext2_inode_check_perm PERM_CHECK_EXEC inode task < 0 then Ret (None, parent, s\<lparr>e2_errno := Some EACCES\<rparr>)
              else dirent_walk E task ps (Some d) inode parent s)))"

definition ext2_dirent_find ::
    "'d ext2_env \<Rightarrow> string \<Rightarrow> (u16 \<times> u16) option \<Rightarrow> 'd ext2_fs \<Rightarrow> (u8 list option \<times> u32 \<times> 'd ext2_fs) outcome" where
  "ext2_dirent_find E path task s =
     (let path = (if strcmp ''/'' path = 0 then ''/.'' else path);
          tokens = strtok_all (Some (strndup path 500)) ''/'' in
      obind (ext2_inode_read E (inode_buf E s) ROOT_INODE s) (\<lambda>(ok, inode, s).
        if ok then dirent_walk E task tokens None inode 0 s else Ret (None, 0, s)))"

section \<open>Removing\<close>

lemma record_advances: "\<not> n < p + 8 + k \<Longrightarrow> (r :: u16) \<noteq> 0 \<Longrightarrow> n - (p + unat r) < n - p"
  using unat_gt_0 [of r] by linarith

text \<open>
  The search for a name: the position of the entry and of the one before it. A record of length zero is visited for ever. An entry that reaches behind the
  end of the buffer is an access outside of it.
\<close>

function rm_search :: "u8 list \<Rightarrow> string \<Rightarrow> nat \<Rightarrow> nat option \<Rightarrow> (nat \<times> nat option) option outcome" where
  "rm_search b name p prev =
     (if length b \<le> p then Ret None
      else if length b < p + 8 + (if ent_inode b p \<noteq> 0 then ent_name_len b p else 0) then Fault
      else if ent_inode b p \<noteq> 0 \<and> strcmp name (strndup (ent_name b p) (ent_name_len b p)) = 0 then Ret (Some (p, prev))
      else if ent_record_len b p = 0 then Spin
      else rm_search b name (p + unat (ent_record_len b p)) (Some p))"
  by auto
termination
  by (relation "measure (\<lambda>(b, name, p, prev). length b - p)") (auto simp del: if_split intro: record_advances)

declare rm_search.simps [simp del]

definition rm_entry :: "nat \<Rightarrow> nat option \<Rightarrow> u8 list \<Rightarrow> u8 list" where
  "rm_entry p prev b =
     (let b = put32 p 0 b in
      case prev of None \<Rightarrow> b | Some q \<Rightarrow> put16 (q + 4) (ent_record_len b q + ent_record_len b p) b)"

text \<open>The contents of a directory in a new buffer.\<close>

definition read_dir :: "'d ext2_env \<Rightarrow> u8 list \<Rightarrow> 'd ext2_fs \<Rightarrow> (bool \<times> u8 list \<times> 'd ext2_fs) outcome" where
  "read_dir E inode s = ext2_inode_read_data E inode 0 (get32 inode in_size) (e_junk E (unat (get32 inode in_size))) s"

definition ext2_dirent_rm :: "'d ext2_env \<Rightarrow> u32 \<Rightarrow> string \<Rightarrow> 'd ext2_fs \<Rightarrow> 'd ext2_fs outcome" where
  "ext2_dirent_rm E inode_num name s =
     obind (ext2_inode_read E (inode_buf E s) inode_num s) (\<lambda>(ok, inode, s).
       if \<not> ok then Ret s
       else obind (read_dir E inode s) (\<lambda>(ok, dirent_block, s).
         if \<not> ok then Ret s
         else obind (rm_search dirent_block name 0 None) (\<lambda>r.
           case r of
             None \<Rightarrow> Ret s
           | Some (p, prev) \<Rightarrow>
               obind (ext2_inode_data_rw E inode inode_num 0 (get32 inode in_size) (rm_entry p prev dirent_block) s)
                 (\<lambda>(_, _, _, s). Ret s))))"

section \<open>Adding\<close>

definition align_dirent_len :: "u32 \<Rightarrow> u32" where
  "align_dirent_len dlen = (if dlen \<le> 12 then 12 else if dlen mod 4 \<noteq> 0 then (dlen AND - 4) + 4 else dlen)"

text \<open>The first entry with enough space behind its name, or without an inode and long enough. At the end of the directory the search stops without one.\<close>

function add_search :: "u8 list \<Rightarrow> u32 \<Rightarrow> nat \<Rightarrow> bool \<Rightarrow> (nat \<times> bool) outcome" where
  "add_search b dlen p recycled =
     (if length b \<le> p then Ret (p, recycled)
      else if length b < p + 8 then Fault
      else let recycled = (ent_inode b p = 0);
               free_space = (if recycled then ucast (ent_record_len b p)
                             else ucast (ent_record_len b p) - align_dirent_len (of_nat (8 + ent_name_len b p))) in
           if dlen < free_space then Ret (p, recycled)
           else if ent_record_len b p = 0 then Spin
           else add_search b dlen (p + unat (ent_record_len b p)) recycled)"
  by auto
termination
  by (relation "measure (\<lambda>(b, dlen, p, recycled). length b - p)") (auto simp del: if_split intro: record_advances [where k = 0, simplified])

declare add_search.simps [simp del]

text \<open>The fields of the new entry except its length; the name is cut to the length that is stored in a byte.\<close>

definition fill_entry :: "u32 \<Rightarrow> string \<Rightarrow> u8 \<Rightarrow> nat \<Rightarrow> u8 list \<Rightarrow> u8 list" where
  "fill_entry inode_num name type p b =
     (let name_len = word_of_nat (strlen name) :: u8 in
      overlay_at (p + 8) (take (unat name_len) (unchars name)) ((put32 p inode_num b)[p + 6 := name_len, p + 7 := type]))"

definition add_entry :: "nat \<Rightarrow> bool \<Rightarrow> u32 \<Rightarrow> u32 \<Rightarrow> string \<Rightarrow> u8 \<Rightarrow> u8 list \<Rightarrow> u8 list outcome" where
  "add_entry p recycled dlen inode_num name type b =
     (if recycled
      then if length b < p + 8 + unat (word_of_nat (strlen name) :: u8) then Fault else Ret (fill_entry inode_num name type p b)
      else if length b < p + 8 then Fault
      else let new_dirent = fill_entry inode_num name type 0 (replicate (unat dlen) 0);
               old_len = ent_record_len b p;
               rec_len = ucast (align_dirent_len (of_nat (8 + ent_name_len b p)));
               new_dirent = put16 4 (old_len - rec_len) new_dirent;
               b = put16 (p + 4) rec_len b in
           if length b < p + unat rec_len + unat dlen then Fault
           else Ret (overlay_at (p + unat rec_len) new_dirent b))"

definition EXT2_INDEX_FL :: u32 where "EXT2_INDEX_FL = 0x1000"

text \<open>The link count of the new entry's inode.\<close>

definition dirent_count_link :: "'d ext2_env \<Rightarrow> u32 \<Rightarrow> 'd ext2_fs \<Rightarrow> 'd ext2_fs outcome" where
  "dirent_count_link E inode_num s =
     obind (ext2_inode_read E (inode_buf E s) inode_num s) (\<lambda>(ok, inode, s).
       if \<not> ok then Ret s
       else obind (ext2_inode_write E (put16 in_link_count (get16 inode in_link_count + 1) inode) inode_num s) (\<lambda>(_, s). Ret s))"

definition ext2_dirent_add :: "'d ext2_env \<Rightarrow> u32 \<Rightarrow> u32 \<Rightarrow> string \<Rightarrow> u8 \<Rightarrow> 'd ext2_fs \<Rightarrow> 'd ext2_fs outcome" where
  "ext2_dirent_add E dir_num inode_num name type s =
     obind (ext2_inode_read E (inode_buf E s) dir_num s) (\<lambda>(ok, dir, s).
       if \<not> ok \<or> get32 dir in_flags AND EXT2_INDEX_FL \<noteq> 0 then Ret s
       else obind (read_dir E dir s) (\<lambda>(ok, dirents, s).
         if \<not> ok then Ret s
         else let dlen = align_dirent_len (of_nat (8 + strlen name + 1)) in
              obind (add_search dirents dlen 0 False) (\<lambda>(p, recycled).
              obind (add_entry p recycled dlen inode_num name type dirents) (\<lambda>dirents.
              obind (ext2_inode_data_rw E dir dir_num 0 (get32 dir in_size) dirents s) (\<lambda>(_, _, _, s).
                dirent_count_link E inode_num s)))))"

end
