(* ===== verification/Ext2.thy ===== *)
theory Ext2
  imports Ext2_Dirent Vfs
begin

text \<open>
  The callbacks of the ext2 file system (\<^verbatim>\<open>src/fs/ext2.c\<close>). The task is \<open>None\<close> for the kernel, otherwise its effective user and group. \<^verbatim>\<open>sc_errno\<close> is the field
  \<open>e2_errno\<close>. Buffers that the code frees have no counterpart; where a freed buffer is used again, its contents then are a parameter.
\<close>

type_synonym task_id = "(u16 \<times> u16) option"
type_synonym ('a, 'd) ext2_call = "'d ext2_fs \<Rightarrow> ('a \<times> 'd ext2_fs) outcome"

definition e2_fail :: "errno \<Rightarrow> (int, 'd) ext2_call" where
  "e2_fail e s = Ret (- 1, s\<lparr>e2_errno := Some e\<rparr>)"

definition e2_fail_size :: "errno \<Rightarrow> u8 list \<Rightarrow> (u32 \<times> u8 list, 'd) ext2_call" where
  "e2_fail_size e buf s = Ret ((- 1, buf), s\<lparr>e2_errno := Some e\<rparr>)"

definition filetype :: "u8 list \<Rightarrow> u32" where
  "filetype inode = vfs_mode_to_filetype (ucast (get16 inode in_mode))"

section \<open>Attributes\<close>

text \<open>The directory entry of a path and its inode, or \<^verbatim>\<open>ENOENT\<close>; the beginning of most callbacks.\<close>

definition lookup_inode :: "'d ext2_env \<Rightarrow> string \<Rightarrow> task_id \<Rightarrow> ((u8 list \<times> u8 list) option, 'd) ext2_call" where
  "lookup_inode E path task s =
     obind (ext2_dirent_find E path task s) (\<lambda>(dirent, _, s).
       case dirent of
         None \<Rightarrow> Ret (None, s\<lparr>e2_errno := Some ENOENT\<rparr>)
       | Some d \<Rightarrow>
           obind (ext2_inode_read E (inode_buf E s) (ent_inode d 0) s) (\<lambda>(ok, inode, s).
             if ok then Ret (Some (inode, d), s) else Ret (None, s\<lparr>e2_errno := Some ENOENT\<rparr>)))"

definition get_inode_and_check_owner :: "'d ext2_env \<Rightarrow> string \<Rightarrow> task_id \<Rightarrow> ((u8 list \<times> u8 list) option, 'd) ext2_call" where
  "get_inode_and_check_owner E path task s =
     obind (lookup_inode E path task s) (\<lambda>(r, s).
       case r of
         None \<Rightarrow> Ret (None, s)
       | Some (inode, d) \<Rightarrow>
           (case task of
              None \<Rightarrow> Fault
            | Some (uid, _) \<Rightarrow>
                if get16 inode in_uid \<noteq> uid then Ret (None, s\<lparr>e2_errno := Some EPERM\<rparr>) else Ret (Some (inode, d), s)))"

definition put_inode :: "'d ext2_env \<Rightarrow> u8 list \<Rightarrow> u32 \<Rightarrow> (int, 'd) ext2_call" where
  "put_inode E inode num s = obind (ext2_inode_write E inode num s) (\<lambda>(_, s). Ret (0, s))"

definition ext2_chmod :: "'d ext2_env \<Rightarrow> string \<Rightarrow> u32 \<Rightarrow> task_id \<Rightarrow> (int, 'd) ext2_call" where
  "ext2_chmod E path mode task s =
     obind (get_inode_and_check_owner E path task s) (\<lambda>(r, s).
       case r of
         None \<Rightarrow> Ret (- 1, s)
       | Some (inode, d) \<Rightarrow> put_inode E (put16 in_mode (ucast (filetype inode OR (mode AND 0xfff))) inode) (ent_inode d 0) s)"

text \<open>The arguments are unsigned and so never equal -1.\<close>

definition ext2_chown :: "'d ext2_env \<Rightarrow> string \<Rightarrow> u16 \<Rightarrow> u16 \<Rightarrow> task_id \<Rightarrow> (int, 'd) ext2_call" where
  "ext2_chown E path uid gid task s =
     obind (get_inode_and_check_owner E path task s) (\<lambda>(r, s).
       case r of
         None \<Rightarrow> Ret (- 1, s)
       | Some (inode, d) \<Rightarrow> put_inode E (put16 in_gid gid (put16 in_uid uid inode)) (ent_inode d 0) s)"

definition ext2_stat :: "'d ext2_env \<Rightarrow> string \<Rightarrow> task_id \<Rightarrow> (vfs_stat_t option, 'd) ext2_call" where
  "ext2_stat E path task s =
     obind (lookup_inode E path task s) (\<lambda>(r, s).
       Ret (map_option (\<lambda>(inode, d).
         \<lparr>st_dev = of_nat (bd_number (e_dev E)), st_ino = ucast (ent_inode d 0), st_mode = ucast (get16 inode in_mode),
          st_nlink = get16 inode in_link_count, st_uid = get16 inode in_uid, st_gid = get16 inode in_gid, st_rdev = 0,
          st_size = get32 inode in_size, st_atime = ucast (get32 inode in_atime), st_mtime = ucast (get32 inode in_mtime),
          st_ctime = ucast (get32 inode in_ctime), st_blksize = ucast (bl_off s 1), st_blocks = get32 inode in_block_count\<rparr>) r, s))"

definition ext2_utimes :: "'d ext2_env \<Rightarrow> string \<Rightarrow> (u32 \<times> u32) option \<Rightarrow> task_id \<Rightarrow> (int, 'd) ext2_call" where
  "ext2_utimes E path tv task s =
     obind (lookup_inode E path task s) (\<lambda>(r, s).
       case r of
         None \<Rightarrow> Ret (- 1, s)
       | Some (inode, d) \<Rightarrow>
           if ext2_inode_check_perm PERM_CHECK_WRITE inode task < 0 then e2_fail EACCES s
           else let (a, m) = (case tv of Some t \<Rightarrow> t | None \<Rightarrow> (e_now E, e_now E)) in
                put_inode E (put32 in_ctime m (put32 in_mtime m (put32 in_atime a inode))) (ent_inode d 0) s)"

definition perm_if :: "u32 \<Rightarrow> u32 \<Rightarrow> nat \<Rightarrow> u8 list \<Rightarrow> task_id \<Rightarrow> int" where
  "perm_if amode flag op inode task = (if amode AND flag \<noteq> 0 then ext2_inode_check_perm op inode task else 0)"

definition ext2_access :: "'d ext2_env \<Rightarrow> string \<Rightarrow> u32 \<Rightarrow> task_id \<Rightarrow> (int, 'd) ext2_call" where
  "ext2_access E path amode task s =
     obind (lookup_inode E path task s) (\<lambda>(r, s).
       case r of
         None \<Rightarrow> Ret (- 1, s)
       | Some (inode, d) \<Rightarrow>
           if perm_if amode R_OK PERM_CHECK_READ inode task + perm_if amode W_OK PERM_CHECK_WRITE inode task +
              perm_if amode X_OK PERM_CHECK_EXEC inode task < 0
           then e2_fail EACCES s else Ret (0, s))"

text \<open>The target of a symbolic link is stored where the block numbers of a file are.\<close>

definition link_target :: "u8 list \<Rightarrow> string" where
  "link_target inode = chars (drop in_blocks inode)"

definition ext2_readlink :: "'d ext2_env \<Rightarrow> string \<Rightarrow> u32 \<Rightarrow> task_id \<Rightarrow> (int \<times> string, 'd) ext2_call" where
  "ext2_readlink E path sz task s =
     obind (lookup_inode E path task s) (\<lambda>(r, s).
       case r of
         None \<Rightarrow> Ret ((- 1, []), s)
       | Some (inode, d) \<Rightarrow>
           if ext2_inode_check_perm PERM_CHECK_READ inode task < 0 then Ret ((- 1, []), s\<lparr>e2_errno := Some EACCES\<rparr>)
           else if filetype inode \<noteq> FT_IFLNK then Ret ((- 1, []), s\<lparr>e2_errno := Some EINVAL\<rparr>)
           else let (written, len) = strlcpy (link_target inode) (unat sz) in Ret ((int len, written), s))"

section \<open>Directories\<close>

definition FT_DIR :: u8 where "FT_DIR = 2"
definition FT_REG_FILE :: u8 where "FT_REG_FILE = 1"

text \<open>\<^verbatim>\<open>S_IRUSR | S_IWUSR | S_IXUSR | S_IRGRP | S_IXGRP | S_IROTH | S_IXOTH\<close> and \<^verbatim>\<open>S_IRUSR | S_IWUSR | S_IRGRP | S_IROTH\<close>.\<close>

definition DIR_MODE :: u16 where "DIR_MODE = 0x4000 OR 0x100 OR 0x80 OR 0x40 OR 0x20 OR 0x8 OR 0x4 OR 0x1"
definition REG_MODE :: u16 where "REG_MODE = 0x8000 OR 0x100 OR 0x80 OR 0x20 OR 0x4"

definition set_owner :: "task_id \<Rightarrow> u8 list \<Rightarrow> u8 list" where
  "set_owner task inode = (case task of None \<Rightarrow> put16 in_gid 0 (put16 in_uid 0 inode) | Some (uid, gid) \<Rightarrow> put16 in_gid gid (put16 in_uid uid inode))"

text \<open>The new inode with its first block, the three entries and the counter of the group.\<close>

definition mkdir_create :: "'d ext2_env \<Rightarrow> string \<Rightarrow> u32 \<Rightarrow> task_id \<Rightarrow> (int, 'd) ext2_call" where
  "mkdir_create E path parent_num task s =
     obind (ext2_inode_new E DIR_MODE s) (\<lambda>(inode_num, inode, s).
     obind (ext2_inode_data_rw E inode inode_num 0 8 (put16 4 (ucast (bl_off s 1)) (zero_block s)) s) (\<lambda>(ok, _, inode, s).
       if \<not> ok then e2_fail ENOENT s
       else obind (ext2_inode_write E (set_owner task (put32 in_size (ucast (bl_off s 1)) inode)) inode_num s) (\<lambda>(_, s).
            obind (ext2_dirent_add E parent_num inode_num (basename (Some path)) FT_DIR s) (\<lambda>s.
            obind (ext2_dirent_add E inode_num inode_num ''.'' FT_DIR s) (\<lambda>s.
            obind (ext2_dirent_add E inode_num parent_num ''..'' FT_DIR s) (\<lambda>s.
              let n = unat (inode_to_blockgroup s inode_num) in
              if \<not> has_group s n then Fault
              else Ret (0, write_blockgroup_table E (set_bg16 n bg_used_directories (bg16 s n bg_used_directories + 1) s))))))))"

definition ext2_mkdir :: "'d ext2_env \<Rightarrow> string \<Rightarrow> task_id \<Rightarrow> (int, 'd) ext2_call" where
  "ext2_mkdir E path task s =
     obind (lookup_inode E (dirname (Some path)) task s) (\<lambda>(r, s).
       case r of
         None \<Rightarrow> Ret (- 1, s)
       | Some (parent_inode, parent) \<Rightarrow>
           if ext2_inode_check_perm PERM_CHECK_WRITE parent_inode task < 0 then e2_fail EACCES s
           else obind (ext2_dirent_find E path task s) (\<lambda>(check, _, s).
                  case check of
                    Some _ \<Rightarrow> e2_fail EEXIST s
                  | None \<Rightarrow> mkdir_create E path (ent_inode parent 0) task s))"

text \<open>The blocks of a file are freed one after the other, up to the first that is missing.\<close>

partial_function (option) free_blocks ::
    "'d ext2_env \<Rightarrow> u8 list \<Rightarrow> nat \<Rightarrow> u32 \<Rightarrow> resolver_cache \<Rightarrow> 'd ext2_fs \<Rightarrow> 'd ext2_fs outcome option" where
  "free_blocks E inode n i cache s =
     (case ext2_resolve_blocknum E inode i cache s of
        Spin \<Rightarrow> Some Spin | Panic \<Rightarrow> Some Panic | Fault \<Rightarrow> Some Fault
      | Ret (num, cache) \<Rightarrow>
          if num = 0 then Some (Ret s)
          else (case ext2_bitmap_free E (bg32 s n bg_block_bitmap) (num mod blocks_per_group s) s of
                  Spin \<Rightarrow> Some Spin | Panic \<Rightarrow> Some Panic | Fault \<Rightarrow> Some Fault
                | Ret s \<Rightarrow> free_blocks E inode n (i + 1) cache s))"

definition decrease_links :: "'d ext2_env \<Rightarrow> u32 \<Rightarrow> (bool, 'd) ext2_call" where
  "decrease_links E dir_ino s =
     obind (ext2_inode_read E (inode_buf E s) dir_ino s) (\<lambda>(ok, dir, s).
       if \<not> ok then Ret (False, s\<lparr>e2_errno := Some ENOENT\<rparr>)
       else obind (ext2_inode_write E (put16 in_link_count (get16 dir in_link_count - 1) dir) dir_ino s) (\<lambda>(_, s). Ret (True, s)))"

text \<open>The last link is gone: the blocks, the inode and the counters are freed. \<open>False\<close>: the parent could not be read.\<close>

definition purge_inode :: "'d ext2_env \<Rightarrow> u8 list \<Rightarrow> u32 \<Rightarrow> u32 \<Rightarrow> bool \<Rightarrow> (bool, 'd) ext2_call" where
  "purge_inode E inode num dir_ino is_dir s =
     (let n = unat (inode_to_blockgroup s num) in
      if \<not> has_group s n then Fault
      else obind (case free_blocks E inode n 0 new_resolver_cache s of None \<Rightarrow> Spin | Some x \<Rightarrow> x) (\<lambda>s.
           obind (ext2_bitmap_free E (bg32 s n bg_inode_bitmap) ((num - 1) mod inodes_per_group s) s) (\<lambda>s.
             let blocks = get32 inode in_block_count div 8;
                 s = set_sb32 12 (sb_free_blocks s + blocks) (set_sb32 16 (sb_free_inodes s + 1) s);
                 s = set_bg16 n bg_free_inodes (bg16 s n bg_free_inodes + 1) s;
                 s = set_bg16 n bg_free_blocks (bg16 s n bg_free_blocks + ucast blocks) s in
             obind (if is_dir
                    then decrease_links E dir_ino (set_bg16 n bg_used_directories (bg16 s n bg_used_directories - 1) s)
                    else Ret (True, s)) (\<lambda>(ok, s).
               if ok then Ret (True, write_blockgroup_table E (write_superblock E s)) else Ret (False, s)))))"

text \<open>After the checks: the entry is removed, and with the last link the file. The counter is kept as an integer, so that it can become negative.\<close>

definition unlink_entry :: "'d ext2_env \<Rightarrow> string \<Rightarrow> u8 list \<Rightarrow> u32 \<Rightarrow> u32 \<Rightarrow> bool \<Rightarrow> (int, 'd) ext2_call" where
  "unlink_entry E path inode num dir_ino is_dir s =
     obind (ext2_dirent_rm E dir_ino (basename (Some path)) s) (\<lambda>s.
       let link_count = int (unat (get16 inode in_link_count)) - (if is_dir then 2 else 0) - 1 in
       if link_count < 1
       then let inode = put16 in_link_count 0 (put32 in_dtime (e_now E) inode) in
            obind (purge_inode E inode num dir_ino is_dir s) (\<lambda>(ok, s). if ok then put_inode E inode num s else Ret (- 1, s))
       else put_inode E (put16 in_link_count (get16 inode in_link_count - 1) inode) num s)"

definition do_unlink :: "'d ext2_env \<Rightarrow> string \<Rightarrow> bool \<Rightarrow> task_id \<Rightarrow> (int, 'd) ext2_call" where
  "do_unlink E path is_dir task s =
     obind (ext2_dirent_find E path task s) (\<lambda>(dirent, dir_ino, s).
       case dirent of
         None \<Rightarrow> e2_fail ENOENT s
       | Some d \<Rightarrow>
           if dir_ino = 0 then e2_fail ENOENT s
           else if ent_inode d 0 = ROOT_INODE then e2_fail EACCES s
           else obind (ext2_inode_read E (inode_buf E s) (ent_inode d 0) s) (\<lambda>(ok, inode, s).
             if \<not> ok then e2_fail ENOENT s
             else if ext2_inode_check_perm PERM_CHECK_WRITE inode task < 0 then e2_fail EACCES s
             else if is_dir \<and> filetype inode \<noteq> FT_IFDIR then e2_fail ENOTDIR s
             else if is_dir \<and> 2 < get16 inode in_link_count then e2_fail ENOTEMPTY s
             else if \<not> is_dir \<and> filetype inode = FT_IFDIR then e2_fail EISDIR s
             else unlink_entry E path inode (ent_inode d 0) dir_ino is_dir s))"

definition ext2_unlink :: "'d ext2_env \<Rightarrow> string \<Rightarrow> task_id \<Rightarrow> (int, 'd) ext2_call" where
  "ext2_unlink E path = do_unlink E path False"

definition ext2_rmdir :: "'d ext2_env \<Rightarrow> string \<Rightarrow> task_id \<Rightarrow> (int, 'd) ext2_call" where
  "ext2_rmdir E path = do_unlink E path True"

text \<open>The new name is part of a buffer that is freed before the name is used; \<open>stale\<close> is what it reads then.\<close>

definition ext2_link :: "'d ext2_env \<Rightarrow> (string \<Rightarrow> string) \<Rightarrow> string \<Rightarrow> string \<Rightarrow> task_id \<Rightarrow> (int, 'd) ext2_call" where
  "ext2_link E stale path new_path task s =
     obind (ext2_dirent_find E path task s) (\<lambda>(dirent, _, s).
     obind (ext2_dirent_find E (dirname (Some new_path)) task s) (\<lambda>(dir_dirent, _, s).
       case (dirent, dir_dirent) of
         (Some d, Some dir) \<Rightarrow>
           if ent_type d 0 = FT_DIR then e2_fail EACCES s
           else obind (ext2_dirent_add E (ent_inode dir 0) (ent_inode d 0) (stale (basename (Some new_path))) (ent_type d 0) s) (\<lambda>s. Ret (0, s))
       | _ \<Rightarrow> e2_fail ENOENT s))"

definition ext2_build_path_tree :: "'d ext2_env \<Rightarrow> string \<Rightarrow> task_id \<Rightarrow> (int, 'd) ext2_call" where
  "ext2_build_path_tree E path task s =
     obind (ext2_dirent_find E path task s) (\<lambda>(dirent, _, s). if dirent = None then e2_fail ENOENT s else Ret (0, s))"

section \<open>Open files\<close>

text \<open>The file is its inode and its offset; the results are the return value, and the buffer or the offset afterwards.\<close>

definition ext2_read :: "'d ext2_env \<Rightarrow> u32 \<Rightarrow> u64 \<Rightarrow> u8 list \<Rightarrow> u32 \<Rightarrow> task_id \<Rightarrow> (u32 \<times> u8 list, 'd) ext2_call" where
  "ext2_read E fp_inode offset dest sz task s =
     (if fp_inode = 0 then e2_fail_size EBADF dest s
      else obind (ext2_inode_read E (inode_buf E s) fp_inode s) (\<lambda>(ok, inode, s).
        if \<not> ok then e2_fail_size EBADF dest s
        else if ext2_inode_check_perm PERM_CHECK_READ inode task < 0 then e2_fail_size EACCES dest s
        else if filetype inode \<noteq> FT_IFREG then e2_fail_size EISDIR dest s
        else let isize = ucast (get32 inode in_size) in
             if isize < 1 \<or> isize \<le> offset then Ret ((0, dest), s)
             else let sz = (if isize < offset + ucast sz then ucast (isize - offset) else sz) in
                  obind (ext2_inode_read_data E inode offset sz dest s) (\<lambda>(ok, dest, s). Ret ((if ok then sz else 0, dest), s))))"

text \<open>The size is set to the end of what was written, also when that is inside of the file.\<close>

definition ext2_write :: "'d ext2_env \<Rightarrow> u32 \<Rightarrow> u64 \<Rightarrow> u8 list \<Rightarrow> u32 \<Rightarrow> task_id \<Rightarrow> (u32 \<times> u8 list, 'd) ext2_call" where
  "ext2_write E fp_inode offset source sz task s =
     (if fp_inode = 0 then e2_fail_size EBADF source s
      else obind (ext2_inode_read E (inode_buf E s) fp_inode s) (\<lambda>(ok, inode, s).
        if \<not> ok then e2_fail_size EBADF source s
        else if ext2_inode_check_perm PERM_CHECK_WRITE inode task < 0 then e2_fail_size EACCES source s
        else if filetype inode \<noteq> FT_IFREG then e2_fail_size EISDIR source s
        else obind (ext2_inode_data_rw E inode fp_inode offset sz source s) (\<lambda>(ok, _, inode, s).
          if \<not> ok then Ret ((- 1, source), s)
          else obind (ext2_inode_write E (put32 in_mtime (e_now E) (put32 in_size (ucast (offset + ucast sz)) inode)) fp_inode s)
                 (\<lambda>(_, s). Ret ((sz, source), s)))))"

definition d_reclen :: "u8 list \<Rightarrow> u16" where
  "d_reclen ent = get16 ent 8"

text \<open>The loop of \<^verbatim>\<open>ext2_getdents\<close>: the bytes written, the offset of the file, the buffer.\<close>

partial_function (option) getdents_loop ::
    "'d ext2_env \<Rightarrow> u8 list \<Rightarrow> u32 \<Rightarrow> u64 \<Rightarrow> u64 \<Rightarrow> rd_r \<Rightarrow> u8 list \<Rightarrow> 'd ext2_fs \<Rightarrow> (u32 \<times> u64 \<times> u8 list \<times> 'd ext2_fs) outcome option" where
  "getdents_loop E inode sz offset fp_offset r buf s =
     (case ext2_readdir_r E inode fp_offset r s of
        Spin \<Rightarrow> Some Spin | Panic \<Rightarrow> Some Panic | Fault \<Rightarrow> Some Fault
      | Ret (ent, fp_offset, r, s) \<Rightarrow>
          (case ent of
             None \<Rightarrow> Some (Ret (ucast offset, fp_offset, buf, s))
           | Some ent \<Rightarrow>
               let next = offset + ucast (d_reclen ent) in
               if ucast sz \<le> next then Some (Ret (ucast offset, fp_offset - ucast (last_len r), buf, s))
               else getdents_loop E inode sz next fp_offset r
                      (put32 (unat offset + 4) (ucast next) (overlay_at (unat offset) (take (unat (d_reclen ent)) ent) buf)) s))"

definition ext2_getdents :: "'d ext2_env \<Rightarrow> u32 \<Rightarrow> u64 \<Rightarrow> u8 list \<Rightarrow> u32 \<Rightarrow> task_id \<Rightarrow> (u32 \<times> u64 \<times> u8 list, 'd) ext2_call" where
  "ext2_getdents E fp_inode fp_offset buf sz task s =
     obind (ext2_inode_read E (inode_buf E s) fp_inode s) (\<lambda>(ok, inode, s).
       if \<not> ok then Ret ((- 1, fp_offset, buf), s\<lparr>e2_errno := Some EBADF\<rparr>)
       else if ext2_inode_check_perm PERM_CHECK_EXEC inode task < 0 then Ret ((- 1, fp_offset, buf), s\<lparr>e2_errno := Some EACCES\<rparr>)
       else if filetype inode \<noteq> FT_IFDIR then Ret ((- 1, fp_offset, buf), s\<lparr>e2_errno := Some ENOTDIR\<rparr>)
       else obind (case getdents_loop E inode sz 0 fp_offset new_rd_r buf s of None \<Rightarrow> Spin | Some x \<Rightarrow> x)
              (\<lambda>(n, fp_offset, buf, s). Ret ((n, fp_offset, buf), s)))"

section \<open>Opening\<close>

text \<open>Ends with the type and inode of the file, with \<^verbatim>\<open>NULL\<close>, or with the path a symbolic link leads to.\<close>

datatype open_result = Opened u16 u32 | Failed | Follow string

definition handle_symlink :: "u8 list \<Rightarrow> string \<Rightarrow> open_result" where
  "handle_symlink inode path =
     (let sym_path = link_target inode in
      if 60 < get32 inode in_size then Failed
      else if hd0 sym_path \<noteq> CHR ''/'' then Follow (vfs_normalize_path sym_path (dirname (Some path)))
      else Follow (c_string sym_path))"

text \<open>The owner of a new file is set after the inode was written, and not written again.\<close>

definition open_inode :: "'d ext2_env \<Rightarrow> string \<Rightarrow> u32 \<Rightarrow> task_id \<Rightarrow> u32 \<Rightarrow> u8 list option \<Rightarrow> ((u32 \<times> u8 list) option, 'd) ext2_call" where
  "open_inode E path flags task parent_inode dirent s =
     (case dirent of
        Some d \<Rightarrow>
          if ent_inode d 0 \<noteq> 0
          then if flags AND O_CREAT \<noteq> 0 \<and> flags AND O_EXCL \<noteq> 0 then Ret (None, s\<lparr>e2_errno := Some EEXIST\<rparr>)
               else obind (ext2_inode_read E (inode_buf E s) (ent_inode d 0) s) (\<lambda>(ok, inode, s).
                 if \<not> ok then Ret (None, s\<lparr>e2_errno := Some ENOENT\<rparr>)
                 else if (flags AND O_WRONLY \<noteq> 0 \<or> flags AND O_RDWR \<noteq> 0) \<and> ext2_inode_check_perm PERM_CHECK_WRITE inode task < 0
                 then Ret (None, s\<lparr>e2_errno := Some EACCES\<rparr>)
                 else Ret (Some (ent_inode d 0, inode), s))
          else obind (ext2_inode_new E REG_MODE s) (\<lambda>(num, inode, s).
                 obind (ext2_dirent_add E parent_inode num (basename (Some path)) FT_REG_FILE s) (\<lambda>s. Ret (Some (num, inode), s)))
      | None \<Rightarrow>
          obind (ext2_inode_new E REG_MODE s) (\<lambda>(num, inode, s).
            obind (ext2_dirent_add E parent_inode num (basename (Some path)) FT_REG_FILE s) (\<lambda>s. Ret (Some (num, inode), s))))"

definition open_step :: "'d ext2_env \<Rightarrow> string \<Rightarrow> u32 \<Rightarrow> task_id \<Rightarrow> (open_result, 'd) ext2_call" where
  "open_step E path flags task s =
     (if strcmp path [] = 0 then Ret (Failed, s\<lparr>e2_errno := Some EINVAL\<rparr>)
      else obind (ext2_dirent_find E (dirname (Some path)) task s) (\<lambda>(parent, _, s).
        case parent of
          None \<Rightarrow> Ret (Failed, s\<lparr>e2_errno := Some ENOENT\<rparr>)
        | Some parent \<Rightarrow>
            if ent_inode parent 0 = 0 then Ret (Failed, s\<lparr>e2_errno := Some ENOENT\<rparr>)
            else obind (ext2_dirent_find E path task s) (\<lambda>(dirent, _, s).
              if dirent = None \<and> (e2_errno s \<noteq> Some ENOENT \<or> flags AND O_CREAT = 0)
              then Ret (Failed, s\<lparr>e2_errno := Some ENOENT\<rparr>)
              else obind (open_inode E path flags task (ent_inode parent 0) dirent s) (\<lambda>(r, s).
                case r of
                  None \<Rightarrow> Ret (Failed, s)
                | Some (num, inode) \<Rightarrow>
                    if filetype inode = FT_IFDIR \<and> (flags AND O_WRONLY \<noteq> 0 \<or> flags AND O_RDWR \<noteq> 0)
                    then Ret (Failed, s\<lparr>e2_errno := Some EISDIR\<rparr>)
                    else if filetype inode = FT_IFLNK then Ret (handle_symlink inode path, s)
                    else Ret (Opened (ucast (filetype inode)) num, s)))))"

text \<open>Links are followed without a limit.\<close>

partial_function (option) open_loop :: "'d ext2_env \<Rightarrow> string \<Rightarrow> u32 \<Rightarrow> task_id \<Rightarrow> 'd ext2_fs \<Rightarrow> ((u16 \<times> u32) option \<times> 'd ext2_fs) outcome option" where
  "open_loop E path flags task s =
     (case open_step E path flags task s of
        Spin \<Rightarrow> Some Spin | Panic \<Rightarrow> Some Panic | Fault \<Rightarrow> Some Fault
      | Ret (r, s) \<Rightarrow>
          (case r of
             Opened ft num \<Rightarrow> Some (Ret (Some (ft, num), s))
           | Failed \<Rightarrow> Some (Ret (None, s))
           | Follow path \<Rightarrow> open_loop E path flags task s))"

text \<open>The file system is the world of the calling file system call; the result is the index of the new file.\<close>

definition ext2_open :: "'d ext2_env \<Rightarrow> u16 \<Rightarrow> vfs_callbacks \<Rightarrow> string \<Rightarrow> u32 \<Rightarrow> 'd ext2_fs vfs \<Rightarrow> (nat option \<times> 'd ext2_fs vfs) outcome" where
  "ext2_open E egid cb path flags v =
     (let task = (if is_task v then Some (euid v, egid) else None);
          s = (world v)\<lparr>e2_errno := sc_errno v\<rparr> in
      obind (case open_loop E path flags task s of None \<Rightarrow> Spin | Some x \<Rightarrow> x) (\<lambda>(r, s).
        let v = v\<lparr>world := s, sc_errno := e2_errno s\<rparr> in
        case r of
          None \<Rightarrow> Ret (None, v)
        | Some (ft, num) \<Rightarrow>
            (case vfs_alloc_fileno 3 v of
               (None, v) \<Rightarrow> Ret (None, v)
             | (Some i, v) \<Rightarrow> Ret (Some i, (upd_file i (\<lambda>f. f\<lparr>f_type := ft, f_inode := num, f_callbacks := cb\<rparr>) v)\<lparr>sc_errno := None\<rparr>))))"

section \<open>Mounting\<close>

definition SUPERBLOCK_MAGIC :: u16 where "SUPERBLOCK_MAGIC = 0xEF53"
definition SUPERBLOCK_STATE_CLEAN :: u16 where "SUPERBLOCK_STATE_CLEAN = 1"

text \<open>
  The file system after reading superblock, block group table and root inode; \<open>Inl\<close> is a return of -1 with its error number, if it sets one. The result
  of \<^verbatim>\<open>vfs_block_read\<close> is unsigned, so the test for a negative one does nothing. A zeroed inode cache has 256 entries.
\<close>

definition load_fs :: "'d ext2_env \<Rightarrow> 'd \<Rightarrow> (errno option + 'd ext2_fs) outcome" where
  "load_fs E w =
     (let sb = overlay (snd (vfs_block_read (e_read E) (e_dev E) 2 2 w)) (e_junk E 1024);
          s = \<lparr>medium = w, superblock = sb, blockgroup_table = [], root_inode = None,
               inode_cache = replicate 256 (0, replicate sizeof_inode 0), inode_cache_end = 0, e2_errno = None\<rparr> in
      if get16 sb 56 \<noteq> SUPERBLOCK_MAGIC then Ret (Inl (Some EINVAL))
      else if get32 sb 76 \<noteq> 1 then Ret (Inl (Some EINVAL))
      else if get16 sb 58 \<noteq> SUPERBLOCK_STATE_CLEAN then Ret (Inl (Some EINVAL))
      else let len = bl_off s (blockgroup_table_size s) in
           obind (sread E (bl_off s (blockgroup_table_start s)) len s) (\<lambda>(n, bytes).
             if n = 0 then Ret (Inl None)
             else let s = s\<lparr>blockgroup_table := overlay bytes (e_junk E (unat len))\<rparr> in
                  obind (ext2_inode_read E (inode_buf E s) ROOT_INODE s) (\<lambda>(ok, root, s).
                    if \<not> ok then Ret (Inl None)
                    else let s = s\<lparr>root_inode := Some root, superblock := put32 44 (e_now E) (put16 52 (get16 sb 52 + 1) sb)\<rparr> in
                         Ret (Inr (write_superblock E s)))))"

end
