(* ===== verification/Ext2_Data.thy ===== *)
theory Ext2_Data
  imports Ext2_Inode
begin

text \<open>
  The data of ext2 files: an inode stands for an array of bytes, wherever its blocks are on the device and whatever the cache of the resolver has seen.
\<close>

section \<open>The device as bytes\<close>

text \<open>The driver transfers what is asked for, and new buffers have the length that was asked for.\<close>

definition dev_ok :: "'d ext2_env \<Rightarrow> ('d \<Rightarrow> u8 list) \<Rightarrow> bool" where
  "dev_ok E disk \<longleftrightarrow> good_driver (e_read E) (e_write E) disk \<and> bd_block_size (e_dev E) = 512 \<and> unat (bd_start_offset (e_dev E)) < 2 ^ 40 \<and>
     (\<forall>n. length (e_junk E n) = n)"

definition base :: "'d ext2_env \<Rightarrow> nat" where
  "base E = 512 * unat (bd_start_offset (e_dev E))"

text \<open>The bytes from \<open>pos\<close> on are on the medium \<open>D\<close>.\<close>

definition inside :: "'d ext2_env \<Rightarrow> u8 list \<Rightarrow> nat \<Rightarrow> nat \<Rightarrow> bool" where
  "inside E D pos n \<longleftrightarrow> pos < 2 ^ 39 \<and> n < 2 ^ 30 \<and> 512 * (unat (bd_start_offset (e_dev E)) + (pos + n + 511) div 512) \<le> length D"

definition part :: "'d ext2_env \<Rightarrow> u8 list \<Rightarrow> nat \<Rightarrow> nat \<Rightarrow> u8 list" where
  "part E D pos n = take n (drop (base E + pos) D)"

lemma inside_length: "inside E D pos n \<Longrightarrow> base E + pos + n \<le> length D"
proof -
  assume i: "inside E D pos n"
  have "pos + n \<le> 512 * ((pos + n + 511) div 512)" by simp
  then show ?thesis using i unfolding inside_def base_def distrib_left by linarith
qed

lemma part_length [simp]: "inside E D pos n \<Longrightarrow> length (part E D pos n) = n"
  using inside_length by (fastforce simp: part_def)

lemma part_nth: "inside E D pos n \<Longrightarrow> k < n \<Longrightarrow> part E D pos n ! k = D ! (base E + pos + k)"
  using inside_length by (fastforce simp: part_def)

lemma inside_less: "inside E D pos n \<Longrightarrow> m \<le> n \<Longrightarrow> inside E D pos m"
  unfolding inside_def by (auto elim!: order_trans [rotated] intro!: add_le_mono div_le_mono)

lemma inside_sub: "inside E D pos n \<Longrightarrow> a + m \<le> n \<Longrightarrow> pos + a < 2 ^ 39 \<Longrightarrow> inside E D (pos + a) m"
  unfolding inside_def by (auto elim!: order_trans [rotated] intro!: add_le_mono div_le_mono)

lemma byte_range_inside:
  "dev_ok E disk \<Longrightarrow> inside E (disk w) (unat pos) (unat n) \<Longrightarrow> byte_range (e_dev E) pos n (length (disk w))"
  by (auto simp: dev_ok_def inside_def byte_range_def)

lemma sread_ok:
  assumes "dev_ok E disk" "inside E (disk (medium s)) (unat pos) (unat n)"
  shows "sread E pos n s = Ret (n, part E (disk (medium s)) (unat pos) (unat n))"
proof -
  have g: "good_driver (e_read E) (e_write E) disk" using assms(1) by (simp add: dev_ok_def)
  from transfer_bytes [OF byte_range_inside [OF assms] g, of "replicate (unat n) 0"]
  show ?thesis by (simp add: sread_def part_def base_def first_byte_def)
qed

lemma swrite_ok:
  assumes "dev_ok E disk" "inside E (disk (medium s)) (unat pos) (unat n)" "unat n \<le> length buf"
  obtains w where "swrite E pos n buf s = (n, s\<lparr>medium := w\<rparr>)"
    "disk w = take (base E + unat pos) (disk (medium s)) @ take (unat n) buf @ drop (base E + unat pos + unat n) (disk (medium s))"
proof -
  have g: "good_driver (e_read E) (e_write E) disk" using assms(1) by (simp add: dev_ok_def)
  have l: "length (take (unat n) buf) = unat n" using assms(3) by simp
  from transfer_bytes [OF byte_range_inside [OF assms(1,2)] g l] obtain w where
    w: "vfs_block_swrite (e_read E) (e_write E) (e_dev E) pos n (take (unat n) buf) (medium s) = (n, w)"
      "disk w = take (first_byte (e_dev E) pos) (disk (medium s)) @ take (unat n) buf @ drop (first_byte (e_dev E) pos + unat n) (disk (medium s))"
    by blast
  show ?thesis using that [of w] w by (simp add: swrite_def swrite_take first_byte_def base_def)
qed

section \<open>Blocks\<close>

text \<open>Blocks of 1024, 2048 or 4096 bytes.\<close>

definition blk_ok :: "'d ext2_fs \<Rightarrow> bool" where
  "blk_ok s \<longleftrightarrow> unat (get32 (superblock s) 24) \<le> 2"

abbreviation bsz :: "'d ext2_fs \<Rightarrow> nat" where
  "bsz s \<equiv> unat (blk s)"

lemma blk_cases:
  assumes "blk_ok s"
  obtains "blk s = 1024" | "blk s = 2048" | "blk s = 4096"
proof -
  consider "unat (get32 (superblock s) 24) = 0" | "unat (get32 (superblock s) 24) = 1" | "unat (get32 (superblock s) 24) = 2"
    using assms unfolding blk_ok_def by linarith
  then show thesis by cases (use that in \<open>simp_all add: blk_def push_bit_eq_mult\<close>)
qed

lemma bsz_bounds: "blk_ok s \<Longrightarrow> 1024 \<le> bsz s \<and> bsz s \<le> 4096 \<and> bsz s mod 4 = 0"
  by (erule blk_cases) simp_all

lemma unat_ucast64 [simp]: "unat (ucast (x :: u32) :: u64) = unat x"
  using unat_u32_less [of x] by (simp add: unsigned_ucast_eq take_bit_nat_eq_self del: unat_u32_less)

lemma unat_bl_off:
  assumes "blk_ok s"
  shows "unat (bl_off s (ucast (num :: u32))) = unat num * bsz s"
proof -
  have "unat num * bsz s \<le> 4294967295 * 4096" using bsz_bounds [OF assms] unat_u32_le [of num] by (intro mult_le_mono) auto
  then have "unat num * bsz s < 2 ^ 64" by simp
  then show ?thesis unfolding bl_off_def by (simp add: unat_mult_lem [THEN iffD1])
qed

lemma bl_off_1 [simp]: "bl_off s 1 = blk s"
  by (simp add: bl_off_def)

definition block_inside :: "'d ext2_env \<Rightarrow> u8 list \<Rightarrow> 'd ext2_fs \<Rightarrow> u32 \<Rightarrow> bool" where
  "block_inside E D s num \<longleftrightarrow> inside E D (unat num * bsz s) (bsz s) \<and> unat num * bsz s + bsz s \<le> 2 ^ 39"

definition block_at :: "'d ext2_env \<Rightarrow> u8 list \<Rightarrow> 'd ext2_fs \<Rightarrow> u32 \<Rightarrow> u8 list" where
  "block_at E D s num = part E D (unat num * bsz s) (bsz s)"

lemma block_at_length [simp]: "block_inside E D s num \<Longrightarrow> length (block_at E D s num) = bsz s"
  by (simp add: block_at_def block_inside_def)

lemma read_block_ok:
  assumes "dev_ok E disk" "blk_ok s" "block_inside E (disk (medium s)) s num" "length buf = bsz s"
  shows "read_block E num buf s = Ret (block_at E (disk (medium s)) s num)"
proof -
  have "inside E (disk (medium s)) (unat (bl_off s (ucast num))) (unat (blk s))"
    using assms(3) by (simp add: block_inside_def unat_bl_off [OF assms(2)])
  from sread_ok [OF assms(1) this] show ?thesis
    using assms(3,4) by (simp add: read_block_def overlay_def block_at_def block_inside_def unat_bl_off [OF assms(2)])
qed

section \<open>Block numbers\<close>

definition epb :: "'d ext2_fs \<Rightarrow> nat" where
  "epb s = bsz s div 4"

text \<open>The number of block \<open>n\<close> of an inode: from the inode itself, from the table in block 12, or from a table listed in block 13.\<close>

definition block_num_of :: "'d ext2_env \<Rightarrow> u8 list \<Rightarrow> 'd ext2_fs \<Rightarrow> u8 list \<Rightarrow> nat \<Rightarrow> u32" where
  "block_num_of E D s inode n =
     (if n < 12 then inode_block inode n
      else if n < epb s + 12
      then if inode_block inode 12 = 0 then 0 else get32 (block_at E D s (inode_block inode 12)) (4 * (n - 12))
      else if n < epb s * epb s + 12
      then let m = n - epb s - 12;
               t = (if inode_block inode 13 = 0 then 0 else get32 (block_at E D s (inode_block inode 13)) (4 * (m div epb s))) in
           if t = 0 then 0 else get32 (block_at E D s t) (4 * (m mod epb s))
      else 0)"

text \<open>All tables of an inode are on the device.\<close>

definition tables_inside :: "'d ext2_env \<Rightarrow> u8 list \<Rightarrow> 'd ext2_fs \<Rightarrow> u8 list \<Rightarrow> bool" where
  "tables_inside E D s inode \<longleftrightarrow>
     (inode_block inode 12 \<noteq> 0 \<longrightarrow> block_inside E D s (inode_block inode 12)) \<and>
     (inode_block inode 13 \<noteq> 0 \<longrightarrow> block_inside E D s (inode_block inode 13) \<and>
        (\<forall>k < epb s. get32 (block_at E D s (inode_block inode 13)) (4 * k) \<noteq> 0 \<longrightarrow>
           block_inside E D s (get32 (block_at E D s (inode_block inode 13)) (4 * k))))"

text \<open>The blocks that hold tables of an inode.\<close>

definition is_table :: "'d ext2_env \<Rightarrow> u8 list \<Rightarrow> 'd ext2_fs \<Rightarrow> u8 list \<Rightarrow> u32 \<Rightarrow> bool" where
  "is_table E D s inode t \<longleftrightarrow> t \<noteq> 0 \<and> (t = inode_block inode 12 \<or> t = inode_block inode 13 \<or>
     inode_block inode 13 \<noteq> 0 \<and> (\<exists>k < epb s. t = get32 (block_at E D s (inode_block inode 13)) (4 * k)))"

lemma table_inside: "tables_inside E D s inode \<Longrightarrow> is_table E D s inode t \<Longrightarrow> block_inside E D s t"
  by (auto simp: tables_inside_def is_table_def)

text \<open>What the resolver has cached is what the device holds.\<close>

definition cache_ok :: "'d ext2_env \<Rightarrow> u8 list \<Rightarrow> 'd ext2_fs \<Rightarrow> u8 list \<Rightarrow> resolver_cache \<Rightarrow> bool" where
  "cache_ok E D s inode c \<longleftrightarrow>
     (\<forall>t. indirect_table c = Some t \<longrightarrow> inode_block inode 12 \<noteq> 0 \<and> t = block_at E D s (inode_block inode 12)) \<and>
     (\<forall>t. double_table c = Some t \<longrightarrow> inode_block inode 13 \<noteq> 0 \<and> t = block_at E D s (inode_block inode 13)) \<and>
     (\<forall>t. double_second_table c = Some t \<longrightarrow> length t = bsz s) \<and>
     (double_second_block c \<noteq> 0 \<longrightarrow> is_table E D s inode (double_second_block c) \<and> double_second_table c = Some (block_at E D s (double_second_block c)))"

lemma cache_ok_new: "cache_ok E D s inode new_resolver_cache"
  by (simp add: cache_ok_def new_resolver_cache_def)

lemma unat_epb:
  assumes "blk_ok s"
  shows "unat (entries_per_block s) = epb s" "epb s \<le> 1024" "256 \<le> epb s" "4 * epb s = bsz s"
proof -
  show "unat (entries_per_block s) = epb s" using assms by (rule blk_cases) (simp_all add: entries_per_block_def epb_def)
  show "epb s \<le> 1024" "256 \<le> epb s" "4 * epb s = bsz s" using assms by (rule blk_cases, simp_all add: epb_def)+
qed

lemma load_table_ok:
  assumes "dev_ok E disk" "blk_ok s" "block_inside E (disk (medium s)) s num" "\<And>t. tab = Some t \<Longrightarrow> t = block_at E (disk (medium s)) s num"
  shows "load_table E num tab s = Ret (block_at E (disk (medium s)) s num)"
  using assms read_block_ok [OF assms(1,2,3), of "zero_block s"] by (auto simp: load_table_def zero_block_def split: option.splits)

lemma resolve_double_ok:
  assumes "dev_ok E disk" "blk_ok s" and t: "tables_inside E (disk (medium s)) s inode" "inode_block inode 13 \<noteq> 0"
    and c: "cache_ok E (disk (medium s)) s inode c" and n: "unat n < epb s * epb s"
  defines "x \<equiv> get32 (block_at E (disk (medium s)) s (inode_block inode 13)) (4 * (unat n div epb s))"
  shows "\<exists>c'. resolve_double E inode n c s =
      Ret (if x = 0 then 0 else get32 (block_at E (disk (medium s)) s x) (4 * (unat n mod epb s)), c') \<and>
    cache_ok E (disk (medium s)) s inode c'"
proof -
  let ?D = "disk (medium s)"
  note e = unat_epb [OF assms(2)]
  have d: "unat (n div entries_per_block s) = unat n div epb s" "unat (n mod entries_per_block s) = unat n mod epb s"
    by (simp_all add: unat_div_u32 unat_mod_u32 e)
  have lt: "unat n div epb s < epb s" using n by (simp add: less_mult_imp_div_less)
  have l: "load_table E (inode_block inode 13) (double_table c) s = Ret (block_at E ?D s (inode_block inode 13))"
    using t c by (intro load_table_ok assms(1,2)) (auto simp: tables_inside_def cache_ok_def)
  show ?thesis
  proof (cases "x = 0")
    case True
    then show ?thesis using l c t(2) by (auto simp: resolve_double_def Let_def d x_def [symmetric] cache_ok_def)
  next
    case False
    then have it: "is_table E ?D s inode x" using t(2) lt by (auto simp: is_table_def x_def)
    then have bi: "block_inside E ?D s x" by (rule table_inside [OF t(1)])
    let ?st = "case double_second_table c of None \<Rightarrow> zero_block s | Some t \<Rightarrow> t"
    have "length ?st = bsz s" using c by (auto simp: cache_ok_def zero_block_def split: option.splits)
    then have r: "read_block E x ?st s = Ret (block_at E ?D s x)" by (rule read_block_ok [OF assms(1,2) bi])
    have "?st = block_at E ?D s x" if "double_second_block c = x" using c that False by (auto simp: cache_ok_def)
    then have "(if double_second_block c \<noteq> x then read_block E x ?st s else Ret ?st) = Ret (block_at E ?D s x)" using r by auto
    then show ?thesis using l c False bi it t(2)
      by (auto simp: resolve_double_def Let_def d x_def [symmetric] cache_ok_def cong: if_cong option.case_cong)
  qed
qed

lemma resolve_ok:
  assumes dev: "dev_ok E disk" "blk_ok s" and t: "tables_inside E (disk (medium s)) s inode"
    and c: "cache_ok E (disk (medium s)) s inode c"
  shows "\<exists>c'. ext2_resolve_blocknum E inode n c s = Ret (block_num_of E (disk (medium s)) s inode (unat n), c') \<and>
    cache_ok E (disk (medium s)) s inode c'"
proof -
  let ?D = "disk (medium s)" and ?e = "entries_per_block s"
  note e = unat_epb [OF dev(2)]
  have sq: "epb s * epb s \<le> 1024 * 1024" using e(2) by (intro mult_le_mono)
  have u1: "unat (?e + 12) = epb s + 12" using e by (subst unat_add_u32) simp_all
  have u2: "unat (?e * ?e) = epb s * epb s" using e sq by (subst unat_mult_u32) simp_all
  have u3: "unat (?e * ?e + 12) = epb s * epb s + 12" using sq by (subst unat_add_u32) (simp_all add: u2)
  consider "unat n < 12" | "12 \<le> unat n" "unat n < epb s + 12" | "epb s + 12 \<le> unat n" "unat n < epb s * epb s + 12" | "epb s * epb s + 12 \<le> unat n" "epb s + 12 \<le> unat n"
    by linarith
  then show ?thesis
  proof cases
    case 1
    then show ?thesis using c by (simp add: ext2_resolve_blocknum_def block_num_of_def Let_def u32_less_nat)
  next
    case 2
    have un: "unat (n - 12) = unat n - 12" using 2 by (subst unat_sub_u32) (simp_all add: u32_le_nat)
    show ?thesis
    proof (cases "inode_block inode 12 = 0")
      case False
      then have "load_table E (inode_block inode 12) (indirect_table c) s = Ret (block_at E ?D s (inode_block inode 12))"
        using t c by (intro load_table_ok dev) (auto simp: tables_inside_def cache_ok_def)
      then show ?thesis using 2 False c u1
        by (simp add: ext2_resolve_blocknum_def block_num_of_def Let_def u32_less_nat un) (auto simp: cache_ok_def)
    qed (use 2 c u1 in \<open>simp add: ext2_resolve_blocknum_def block_num_of_def Let_def u32_less_nat\<close>)
  next
    case 3
    have un: "unat (n - ?e - 12) = unat n - epb s - 12"
    proof -
      have "unat (n - ?e) = unat n - epb s" using 3 e by (subst unat_sub_u32) (simp_all add: u32_le_nat)
      then show ?thesis using 3 by (subst unat_sub_u32) (simp_all add: u32_le_nat)
    qed
    show ?thesis
    proof (cases "inode_block inode 13 = 0")
      case False
      have "unat (n - ?e - 12) < epb s * epb s" using 3 un by simp
      from resolve_double_ok [OF dev t False c this, unfolded un] show ?thesis
        using 3 False u1 u3 by (simp add: ext2_resolve_blocknum_def block_num_of_def Let_def u32_less_nat cong: if_cong)
    qed (use 3 c u1 u3 in \<open>simp add: ext2_resolve_blocknum_def block_num_of_def Let_def u32_less_nat\<close>)
  next
    case 4
    then show ?thesis using c u1 u3 by (simp add: ext2_resolve_blocknum_def block_num_of_def Let_def u32_less_nat)
  qed
qed

section \<open>Reading\<close>

text \<open>Byte \<open>x\<close> of the file.\<close>

definition file_byte :: "'d ext2_env \<Rightarrow> u8 list \<Rightarrow> 'd ext2_fs \<Rightarrow> u8 list \<Rightarrow> nat \<Rightarrow> u8" where
  "file_byte E D s inode x = D ! (base E + unat (block_num_of E D s inode (x div bsz s)) * bsz s + x mod bsz s)"

text \<open>The block with byte \<open>x\<close> is there.\<close>

definition file_block :: "'d ext2_env \<Rightarrow> u8 list \<Rightarrow> 'd ext2_fs \<Rightarrow> u8 list \<Rightarrow> nat \<Rightarrow> bool" where
  "file_block E D s inode n \<longleftrightarrow> block_num_of E D s inode n \<noteq> 0 \<and> block_inside E D s (block_num_of E D s inode n)"

lemma unat_u64_sub: "y \<le> (x :: u64) \<Longrightarrow> unat (x - y) = unat x - unat y"
  by (simp add: unat_sub)

lemma unat_bl_mod: "unat (bl_mod s x) = unat x mod bsz s" and unat_bl_size: "unat (bl_size s x) = unat x div bsz s"
  by (simp_all add: bl_mod_def bl_size_def unat_mod unat_div)

text \<open>The window of a round in numbers.\<close>

lemma rw_window_nat:
  fixes offset :: u64 and i :: nat
  assumes "blk_ok s" "bo \<le> len" "unat num * bsz s + bsz s < 2 ^ 64"
  defines "skip \<equiv> (if i = 0 then unat offset mod bsz s else 0)"
  shows "unat (fst (rw_window s i offset len bo num)) = unat num * bsz s + skip"
    "unat (snd (rw_window s i offset len bo num)) = min (bsz s - skip) (unat len - unat bo)"
proof -
  let ?sk = "if i = 0 then bl_mod s offset else 0"
  have sk: "unat ?sk = skip" by (simp add: skip_def unat_bl_mod)
  have lt: "skip < bsz s" using bsz_bounds [OF assms(1)] by (auto simp: skip_def)
  have "unat (bl_off s (ucast num) + ?sk) = unat num * bsz s + skip"
    using assms(3) lt by (subst unat_u64_add) (simp_all add: unat_bl_off [OF assms(1)] sk)
  then show "unat (fst (rw_window s i offset len bo num)) = unat num * bsz s + skip" by (simp add: rw_window_def Let_def)
  have "unat (blk s - ?sk) = bsz s - skip" using lt by (subst unat_u64_sub) (simp_all add: word_le_nat_alt sk)
  moreover have "unat (ucast (len - bo) :: u64) = unat len - unat bo" using assms(2) by (simp add: unat_sub_u32)
  ultimately show "unat (snd (rw_window s i offset len bo num)) = min (bsz s - skip) (unat len - unat bo)"
    by (auto simp: rw_window_def Let_def word_less_nat_alt min_def)
qed

lemma rw_transfer_read:
  assumes "dev_ok E disk" "inside E (disk (medium s)) (unat a) (unat n)" "p + unat n \<le> length buf"
  shows "rw_transfer E 0 (a, n) p buf s = Ret (True, overlay_at p (part E (disk (medium s)) (unat a) (unat n)) buf, s)"
proof -
  have "unat n < 2 ^ 31" using assms(2) by (simp add: inside_def)
  then have "word_of_int (as_int n) = n" by (simp add: as_int_small)
  then show ?thesis using sread_ok [OF assms(1,2)] by (simp add: rw_transfer_def)
qed

text \<open>The round \<open>i\<close> starts at byte \<open>i * B - m\<close> of the buffer, where \<open>m\<close> is the offset in the first block.\<close>

lemma round_bytes:
  fixes B i m L k :: nat
  assumes "m < B" "i * B - m < L"
  defines "skip \<equiv> (if i = 0 then m else 0)"
  shows "i * B - m + min (B - skip) (L - (i * B - m)) = min L (Suc i * B - m)"
    "i * B - m \<le> k \<Longrightarrow> k < min L (Suc i * B - m) \<Longrightarrow> (q * B + m + k) div B = q + i \<and> (q * B + m + k) mod B = skip + (k - (i * B - m))"
proof -
  show "i * B - m + min (B - skip) (L - (i * B - m)) = min L (Suc i * B - m)"
  proof (cases i)
    case (Suc j)
    then have "m \<le> i * B" using assms(1) by simp
    then show ?thesis using Suc assms by (simp add: min_def) linarith
  qed (use assms in \<open>simp add: min_def\<close>)
  assume k: "i * B - m \<le> k" "k < min L (Suc i * B - m)"
  have "q * B + m + k = (q + i) * B + (skip + (k - (i * B - m)))"
  proof (cases i)
    case (Suc j)
    then have "m \<le> i * B" using assms(1) by simp
    then show ?thesis using Suc k assms by (simp add: algebra_simps)
  qed (use assms in simp)
  moreover have "skip + (k - (i * B - m)) < B" using k assms by (cases i) auto
  ultimately show "(q * B + m + k) div B = q + i \<and> (q * B + m + k) mod B = skip + (k - (i * B - m))" by simp
qed

text \<open>The numbers of one round: the block that is transferred, the window in it and the position in the buffer.\<close>

lemma rw_round:
  fixes offset :: u64 and i :: nat
  assumes dev: "dev_ok E disk" "blk_ok s" and t: "tables_inside E (disk (medium s)) s inode" and q: "unat offset + unat len \<le> 2 ^ 32"
    and c: "cache_ok E (disk (medium s)) s inode c" and bo0: "unat bo = min (unat len) (i * bsz s - unat offset mod bsz s)"
    and lt: "i * bsz s - unat offset mod bsz s < unat len" and fb: "file_block E (disk (medium s)) s inode (unat offset div bsz s + i)"
  defines "m \<equiv> unat offset mod bsz s" and "num \<equiv> block_num_of E (disk (medium s)) s inode (unat offset div bsz s + i)"
    and "skip \<equiv> (if i = 0 then unat offset mod bsz s else 0)"
  obtains c' a w where "ext2_resolve_blocknum E inode (ucast (of_nat i + bl_size s offset)) c s = Ret (num, c')" "cache_ok E (disk (medium s)) s inode c'"
    "num \<noteq> 0" "block_inside E (disk (medium s)) s num" "rw_window s i offset len bo num = (a, w)" "unat a = unat num * bsz s + skip" "skip + unat w \<le> bsz s"
    "inside E (disk (medium s)) (unat a) (unat w)" "unat bo = i * bsz s - m" "unat bo + unat w = min (unat len) (Suc i * bsz s - m)"
    "unat (bo + ucast w) = min (unat len) (Suc i * bsz s - m)" "unat offset + unat bo = (unat offset div bsz s + i) * bsz s + skip"
proof -
  let ?D = "disk (medium s)" and ?B = "bsz s" and ?q = "unat offset div bsz s"
  have here: "i * ?B - m < unat len" "num \<noteq> 0" "block_inside E ?D s num" using lt fb by (simp_all add: m_def num_def file_block_def)
  have B: "1024 \<le> ?B" "?B \<le> 4096" using bsz_bounds [OF dev(2)] by simp_all
  have m: "m < ?B" using B by (simp add: m_def)
  have bo: "unat bo = i * ?B - m" using bo0 here(1) by (simp add: m_def)
  have off: "unat offset = ?q * ?B + m" by (simp add: m_def)
  have i: "?q + i < 2 ^ 32"
  proof -
    have "(?q + i) * ?B < ?q * ?B + m + unat len" using here(1) by (simp add: distrib_right)
    then have lt: "(?q + i) * ?B < 2 ^ 32" using q off by linarith
    have "?q + i \<le> (?q + i) * ?B" using B by simp
    then show ?thesis using lt by (rule le_less_trans)
  qed
  have "unat (of_nat i + bl_size s offset) = ?q + i"
    using i by (subst unat_u64_add) (simp_all add: unat_bl_size unat_of_nat take_bit_nat_eq_self)
  then have ui: "unat (ucast (of_nat i + bl_size s offset) :: u32) = ?q + i" using i by (simp add: unsigned_ucast_eq take_bit_nat_eq_self)
  obtain c' where c': "ext2_resolve_blocknum E inode (ucast (of_nat i + bl_size s offset)) c s = Ret (num, c')" "cache_ok E ?D s inode c'"
    using resolve_ok [OF dev t c, of "ucast (of_nat i + bl_size s offset)"] by (auto simp: ui num_def)
  obtain a w where aw: "rw_window s i offset len bo num = (a, w)" by fastforce
  have le: "bo \<le> len" using bo here(1) by (simp add: u32_le_nat)
  have nb: "unat num * ?B + ?B < 2 ^ 64" using here(3) B by (simp add: block_inside_def inside_def)
  have a: "unat a = unat num * ?B + skip" and w: "unat w = min (?B - skip) (unat len - (i * ?B - m))"
    using rw_window_nat [OF dev(2) le nb, of i offset] by (simp_all add: aw skip_def bo)
  have sm: "skip = (if i = 0 then m else 0)" by (simp add: skip_def m_def)
  have w2: "unat bo + unat w = min (unat len) (Suc i * ?B - m)" using round_bytes(1) [OF m here(1)] bo w by (simp add: sm)
  have sw: "skip + unat w \<le> ?B" using w m by (auto simp: sm)
  have ins: "inside E ?D (unat a) (unat w)"
    unfolding a using here(3) w m sm by (intro inside_sub [of E ?D "unat num * ?B" ?B]) (auto simp: block_inside_def)
  have "unat w < 2 ^ 32" using w B by simp
  then have uw: "unat (ucast w :: u32) = unat w" by (simp add: unsigned_ucast_eq take_bit_nat_eq_self)
  have "unat bo + unat w < 2 ^ 32" unfolding w2 using unat_u32_less [of len] by (simp add: min_less_iff_disj del: unat_u32_less)
  then have bo': "unat (bo + ucast w) = min (unat len) (Suc i * ?B - m)" using uw w2 by (simp add: unat_add_u32)
  have ob: "unat offset + unat bo = (?q + i) * ?B + skip"
  proof (cases i)
    case (Suc j)
    then have "m \<le> i * ?B" using m by simp
    then show ?thesis using Suc bo off by (simp add: sm distrib_right)
  qed (use bo off in \<open>simp add: sm\<close>)
  show thesis by (rule that [OF c' here(2,3) aw a sw ins bo w2 bo' ob])
qed

lemma rw_loop_read:
  fixes offset :: u64
  assumes dev: "dev_ok E disk" "blk_ok s" and t: "tables_inside E (disk (medium s)) s inode" and L: "unat len \<le> length buf0"
    and q: "unat offset + unat len \<le> 2 ^ 32"
  defines "m \<equiv> unat offset mod bsz s"
  shows "cache_ok E (disk (medium s)) s inode c \<Longrightarrow> length buf = length buf0 \<Longrightarrow> unat bo = min (unat len) (i * bsz s - m) \<Longrightarrow>
    (\<And>j. j < n \<Longrightarrow> (i + j) * bsz s - m < unat len \<and> file_block E (disk (medium s)) s inode (unat offset div bsz s + (i + j))) \<Longrightarrow>
    \<exists>buf'. rw_loop E 0 offset len n i bo c inode buf s = Ret (True, buf', inode, s) \<and> length buf' = length buf \<and>
      (\<forall>k < length buf. buf' ! k = (if unat bo \<le> k \<and> k < min (unat len) ((i + n) * bsz s - m)
         then file_byte E (disk (medium s)) s inode (unat offset + k) else buf ! k))"
proof (induction n arbitrary: i bo c buf)
  case 0
  then show ?case by (auto simp: min_def)
next
  case (Suc n)
  let ?D = "disk (medium s)" and ?B = "bsz s" and ?q = "unat offset div bsz s"
  have here: "i * ?B - unat offset mod ?B < unat len" "file_block E ?D s inode (?q + i)" using Suc.prems(4) [of 0] by (simp_all add: m_def)
  define num where "num = block_num_of E ?D s inode (?q + i)"
  define skip where "skip = (if i = 0 then unat offset mod ?B else 0)"
  obtain c' a w where r: "ext2_resolve_blocknum E inode (ucast (of_nat i + bl_size s offset)) c s = Ret (num, c')" "cache_ok E ?D s inode c'" "num \<noteq> 0"
      "rw_window s i offset len bo num = (a, w)" "inside E ?D (unat a) (unat w)"
    and a: "unat a = unat num * ?B + skip" and bo: "unat bo = i * ?B - m"
    and w2: "unat bo + unat w = min (unat len) (Suc i * ?B - m)" and bo': "unat (bo + ucast w) = min (unat len) (Suc i * ?B - m)"
    using rw_round [OF dev t q Suc.prems(1,3) [unfolded m_def] here] unfolding num_def skip_def m_def by metis
  let ?buf = "overlay_at (unat bo) (part E ?D (unat a) (unat w)) buf"
  have wl: "unat bo + unat w \<le> length buf" using w2 L Suc.prems(2) by simp
  have tr: "rw_transfer E 0 (a, w) (unat bo) buf s = Ret (True, ?buf, s)" by (rule rw_transfer_read [OF dev(1) r(5) wl])
  have nx: "(Suc i + j) * ?B - m < unat len \<and> file_block E ?D s inode (?q + (Suc i + j))" if "j < n" for j
    using Suc.prems(4) [of "Suc j"] that by simp
  have lb: "length ?buf = length buf" using wl r(5) by simp
  obtain buf' where ih: "rw_loop E 0 offset len n (Suc i) (bo + ucast w) c' inode ?buf s = Ret (True, buf', inode, s)" "length buf' = length ?buf"
      "\<forall>k < length ?buf. buf' ! k = (if unat (bo + ucast w) \<le> k \<and> k < min (unat len) ((Suc i + n) * ?B - m)
         then file_byte E ?D s inode (unat offset + k) else ?buf ! k)"
    using Suc.IH [OF r(2) _ bo' nx, of ?buf] lb Suc.prems(2) by auto
  have m: "m < ?B" and off: "unat offset = ?q * ?B + m" using bsz_bounds [OF dev(2)] by (simp_all add: m_def)
  note rb = round_bytes(2) [OF m here(1) [folded m_def]]
  have byte: "?buf ! k = file_byte E ?D s inode (unat offset + k)" if "unat bo \<le> k" "k < unat bo + unat w" for k
  proof -
    have "k < min (unat len) (Suc i * ?B - m)" using that(2) w2 by simp
    then have "(unat offset + k) div ?B = ?q + i \<and> (unat offset + k) mod ?B = skip + (k - (i * ?B - m))"
      using rb [of k ?q] that(1) bo off by (simp add: skip_def m_def)
    then show ?thesis using that r(5) wl a bo by (simp add: nth_overlay_at file_byte_def part_nth num_def [symmetric] add.assoc)
  qed
  have "buf' ! k = (if unat bo \<le> k \<and> k < min (unat len) ((i + Suc n) * ?B - m) then file_byte E ?D s inode (unat offset + k) else buf ! k)"
    if "k < length buf" for k
  proof -
    have mono: "Suc i * ?B - m \<le> (i + Suc n) * ?B - m" by (intro diff_le_mono mult_le_mono) simp_all
    have "k < unat bo \<or> unat bo + unat w \<le> k \<Longrightarrow> ?buf ! k = buf ! k" using that wl r(5) by (auto simp: nth_overlay_at)
    then show ?thesis using ih(3) lb that byte [of k] bo' w2 mono by (auto simp: min_def split: if_splits)
  qed
  moreover have "rw_loop E 0 offset len (Suc n) i bo c inode buf s = Ret (True, buf', inode, s)"
    using r tr ih(1) by (simp add: rw_block_def)
  ultimately show ?case using ih(2) lb by auto
qed

text \<open>The rounds cover exactly the bytes asked for, unless whole blocks are read from inside of a block.\<close>

lemma rounds_cover:
  fixes B a r m :: nat
  assumes "m < B" "r < B" "r = 0 \<longrightarrow> m = 0"
  defines "N \<equiv> a + (if r \<noteq> 0 then 1 else 0) + (if m \<noteq> 0 \<and> B < m + r then 1 else 0)"
  shows "a * B + r \<le> N * B - m" "j < N \<Longrightarrow> 0 < a * B + r \<Longrightarrow> j * B - m < a * B + r"
proof -
  show "a * B + r \<le> N * B - m" using assms by (auto simp: N_def algebra_simps)
  assume j: "j < N" "0 < a * B + r"
  show "j * B - m < a * B + r"
  proof (cases "j \<le> a")
    case True
    then have le: "j * B \<le> a * B" by (rule mult_le_mono1)
    show ?thesis
    proof (cases "r = 0")
      case True
      then have "j < a" "m = 0" using assms j by (auto simp: N_def)
      then have "j * B < a * B" using assms(1) by simp
      then show ?thesis by linarith
    qed (use le in linarith)
  next
    case False
    then have "j = Suc a" "m \<noteq> 0" "B < m + r" using j by (auto simp: N_def split: if_splits)
    then show ?thesis using assms(1) by simp
  qed
qed

lemma unat_num_blocks:
  fixes len :: u32
  assumes "blk_ok s"
  defines "B \<equiv> bsz s"
  shows "unat (rw_num_blocks s offset len) =
    unat len div B + (if unat len mod B \<noteq> 0 then 1 else 0) + (if unat offset mod B \<noteq> 0 \<and> B < unat offset mod B + unat len mod B then 1 else 0)"
proof -
  note b = bsz_bounds [OF assms(1), folded B_def]
  let ?n = "ucast (bl_size s (ucast len)) :: u32"
  have d: "unat len div B \<le> 4194304"
  proof -
    have "unat len div B \<le> unat len div 1024" using b by (intro div_le_mono2) simp_all
    moreover have "unat len div 1024 \<le> 4294967296 div 1024" using unat_u32_less [of len] by (intro div_le_mono) (simp del: unat_u32_less)
    ultimately show ?thesis by simp
  qed
  then have n: "unat ?n = unat len div B" by (simp add: unsigned_ucast_eq unat_bl_size B_def take_bit_nat_eq_self)
  have l: "bl_mod s (ucast len) \<noteq> 0 \<longleftrightarrow> unat len mod B \<noteq> 0" "bl_mod s offset \<noteq> 0 \<longleftrightarrow> unat offset mod B \<noteq> 0"
    using unat_bl_mod [of s "ucast len"] unat_bl_mod [of s offset] by (simp_all add: word_unat_eq_iff B_def)
  have "unat offset mod B < B" "unat len mod B < B" using b by simp_all
  then have "unat offset mod B + unat len mod B < 8192" using b by linarith
  then have "unat (bl_mod s offset + bl_mod s (ucast len)) = unat offset mod B + unat len mod B"
    by (subst unat_u64_add) (simp_all add: unat_bl_mod B_def)
  then have g: "blk s < bl_mod s offset + bl_mod s (ucast len) \<longleftrightarrow> B < unat offset mod B + unat len mod B" by (simp add: word_less_nat_alt B_def)
  have "unat (?n + 1) = unat ?n + 1" using n d by (subst unat_add_u32) simp_all
  moreover from this have "unat (?n + 1 + 1) = unat ?n + 2" using n d by (subst unat_add_u32) simp_all
  ultimately show ?thesis using n by (simp add: rw_num_blocks_def Let_def l g)
qed

text \<open>The bytes \<open>offset\<close> up to \<open>offset + len\<close> can be read.\<close>

definition readable :: "'d ext2_env \<Rightarrow> u8 list \<Rightarrow> 'd ext2_fs \<Rightarrow> u8 list \<Rightarrow> nat \<Rightarrow> nat \<Rightarrow> bool" where
  "readable E D s inode offset len \<longleftrightarrow> blk_ok s \<and> tables_inside E D s inode \<and> offset + len \<le> 2 ^ 32 \<and>
     (\<forall>x. offset \<le> x \<and> x < offset + len \<longrightarrow> file_block E D s inode (x div bsz s)) \<and>
     (len mod bsz s = 0 \<longrightarrow> offset mod bsz s = 0)"

lemma rounds_ok:
  assumes r: "readable E D s inode (unat offset) (unat len)"
  defines "m \<equiv> unat offset mod bsz s" and "N \<equiv> unat (rw_num_blocks s offset len)"
  shows "j < N \<Longrightarrow> (0 + j) * bsz s - m < unat len \<and> file_block E D s inode (unat offset div bsz s + (0 + j))"
    "min (unat len) ((0 + N) * bsz s - m) = unat len"
proof -
  let ?B = "bsz s" and ?L = "unat len"
  have ok: "blk_ok s" "?L mod ?B = 0 \<longrightarrow> m = 0"
    and fb: "\<And>x. unat offset \<le> x \<Longrightarrow> x < unat offset + ?L \<Longrightarrow> file_block E D s inode (x div ?B)" using r by (auto simp: readable_def m_def)
  have B: "m < ?B" "?L mod ?B < ?B" using bsz_bounds [OF ok(1)] by (simp_all add: m_def)
  note rc = rounds_cover [OF B ok(2), where a = "?L div ?B", unfolded m_def, folded unat_num_blocks [OF ok(1)], unfolded div_mult_mod_eq, folded N_def m_def]
  show "min ?L ((0 + N) * ?B - m) = ?L" using rc(1) by simp
  assume j: "j < N"
  have "0 < ?L"
  proof (rule ccontr)
    assume "\<not> 0 < ?L"
    then show False using j B(1) by (simp add: N_def m_def unat_num_blocks [OF ok(1)] split: if_splits)
  qed
  then have lt: "j * ?B - m < ?L" using rc(2) [OF j] by simp
  let ?x = "unat offset + (j * ?B - m)"
  have "?x div ?B = unat offset div ?B + j"
  proof (cases j)
    case (Suc i)
    then have "m \<le> j * ?B" using B(1) by simp
    then have "?x = (unat offset div ?B + j) * ?B"
      using div_mult_mod_eq [of "unat offset" ?B] unfolding distrib_right m_def by linarith
    then show ?thesis using B(1) by (metis div_mult_self_is_m gr_implies_not0 neq0_conv)
  qed simp
  then show "(0 + j) * ?B - m < ?L \<and> file_block E D s inode (unat offset div ?B + (0 + j))" using fb [of ?x] lt by simp
qed

lemma read_data_ok:
  assumes dev: "dev_ok E disk" and r: "readable E (disk (medium s)) s inode (unat offset) (unat len)" and l: "unat len \<le> length buf"
  shows "\<exists>buf'. ext2_inode_read_data E inode offset len buf s = Ret (True, buf', s) \<and> length buf' = length buf \<and>
    (\<forall>k < length buf. buf' ! k = (if k < unat len then file_byte E (disk (medium s)) s inode (unat offset + k) else buf ! k))"
proof -
  let ?D = "disk (medium s)" and ?B = "bsz s" and ?L = "unat len" and ?m = "unat offset mod bsz s" and ?N = "unat (rw_num_blocks s offset len)"
  have ok: "blk_ok s" "tables_inside E ?D s inode" "unat offset + ?L \<le> 2 ^ 32" using r by (auto simp: readable_def)
  note rnd = rounds_ok [OF r]
  have "unat (0 :: u32) = min ?L (0 * ?B - ?m)" by simp
  from rw_loop_read [OF dev ok(1,2) l ok(3) cache_ok_new refl this rnd(1)]
  obtain buf' where b: "rw_loop E 0 offset len ?N 0 0 new_resolver_cache inode buf s = Ret (True, buf', inode, s)" "length buf' = length buf"
      "\<forall>k < length buf. buf' ! k = (if unat (0 :: u32) \<le> k \<and> k < min ?L ((0 + ?N) * ?B - ?m) then file_byte E ?D s inode (unat offset + k) else buf ! k)"
    by blast
  then show ?thesis unfolding rnd(2) by (intro exI [of _ buf']) (simp add: ext2_inode_read_data_def ext2_inode_data_rw_def)
qed

section \<open>Bitmaps\<close>

text \<open>Bit \<open>k\<close> of a bitmap, the least significant bit of a byte first.\<close>

definition map_bit :: "u8 list \<Rightarrow> nat \<Rightarrow> bool" where
  "map_bit bm k = bit (bm ! (k div 8)) (k mod 8)"

lemma u8_full: "(w :: u8) = 0xff \<longleftrightarrow> (\<forall>j < 8. bit w j)"
proof -
  have "(0xff :: u8) = - 1" by simp
  then show ?thesis by (simp only: bit_eq_iff bit_minus_1_iff) (auto dest: bit_imp_le_length)
qed

lemma claim_search_first:
  assumes n: "n \<le> length bm" and c: "claim_search bm n = (r, bm')"
  shows "(\<forall>k < 8 * n. map_bit bm k) \<and> r = 0 \<and> bm' = bm \<or>
    r < 8 * n \<and> \<not> map_bit bm r \<and> (\<forall>k < r. map_bit bm k) \<and> length bm' = length bm \<and> (\<forall>k. map_bit bm' k \<longleftrightarrow> k = r \<or> map_bit bm k)"
proof (cases "find (\<lambda>i. bm ! i \<noteq> 0xff) [0..<n]")
  case None
  then have f: "\<forall>i < n. bm ! i = 0xff" by (simp add: find_None_iff)
  have "map_bit bm k" if "k < 8 * n" for k
  proof -
    have "bm ! (k div 8) = 0xff" using f that by (simp add: less_mult_imp_div_less mult.commute)
    then show ?thesis unfolding map_bit_def u8_full by simp
  qed
  then show ?thesis using c None by (simp add: claim_search_def)
next
  case (Some i)
  then have i: "i < n" "bm ! i \<noteq> 0xff" "\<forall>j < i. bm ! j = 0xff" by (auto simp: find_Some_iff)
  then obtain j0 where "j0 < 8" "\<not> bit (bm ! i) j0" unfolding u8_full by blast
  then obtain j where fj: "find (\<lambda>j. \<not> bit (bm ! i) j) [0..<8] = Some j" by (metis find_None_iff atLeastLessThan_iff le0 not_None_eq set_upt)
  then have j: "j < 8" "\<not> bit (bm ! i) j" "\<forall>k < j. bit (bm ! i) k" by (auto simp: find_Some_iff)
  have r: "r = i * 8 + j" "bm' = bm[i := bm ! i OR push_bit j 1]" using c Some fj by (simp_all add: claim_search_def)
  have rd: "r div 8 = i" "r mod 8 = j" using r j by simp_all
  have "map_bit bm k" if "k < r" for k
  proof (cases "k div 8 = i")
    case True
    then have "k mod 8 < j" using that r(1) div_mult_mod_eq [of k 8] by linarith
    then show ?thesis using j(3) True by (simp add: map_bit_def)
  next
    case False
    then have "k div 8 < i" using that rd(1) div_le_mono [of k r 8] by linarith
    then have "bm ! (k div 8) = 0xff" using i(3) by simp
    then show ?thesis unfolding map_bit_def u8_full by simp
  qed
  moreover have "map_bit bm' k \<longleftrightarrow> k = r \<or> map_bit bm k" for k
  proof (cases "k div 8 = i")
    case True
    then have "map_bit bm' k \<longleftrightarrow> k mod 8 = j \<or> map_bit bm k" using r(2) i(1) n by (auto simp: map_bit_def bit_simps)
    moreover have "k = r \<longleftrightarrow> k mod 8 = j" using True rd by (metis div_mult_mod_eq)
    ultimately show ?thesis by simp
  next
    case False
    then show ?thesis using r(2) rd by (auto simp: map_bit_def)
  qed
  moreover have "r < 8 * n" using i(1) j(1) r(1) by simp
  ultimately show ?thesis using j(2) rd r(2) by (auto simp: map_bit_def)
qed

text \<open>A medium after some of its bytes were replaced.\<close>

definition replace_bytes :: "u8 list \<Rightarrow> nat \<Rightarrow> u8 list \<Rightarrow> u8 list" where
  "replace_bytes D pos buf = take pos D @ buf @ drop (pos + length buf) D"

lemma replace_bytes_length [simp]: "pos + length buf \<le> length D \<Longrightarrow> length (replace_bytes D pos buf) = length D"
  by (simp add: replace_bytes_def)

lemma replace_bytes_same: "pos + n \<le> length D \<Longrightarrow> take n (drop pos (replace_bytes D pos buf)) = buf" if "length buf = n"
  using that by (simp add: replace_bytes_def)

lemma replace_bytes_restore:
  assumes "pos + n \<le> length D" "length buf = n"
  shows "replace_bytes (replace_bytes D pos buf) pos (take n (drop pos D)) = D"
proof -
  have "replace_bytes (replace_bytes D pos buf) pos (take n (drop pos D)) = (take pos D @ take n (drop pos D)) @ drop (pos + n) D"
    using assms by (auto simp: replace_bytes_def min_def)
  also have "\<dots> = D" by (simp only: take_add [symmetric] append_take_drop_id)
  finally show ?thesis .
qed

lemma inside_cong: "length D' = length D \<Longrightarrow> inside E D' pos n = inside E D pos n"
  by (simp add: inside_def)

lemma write_block_ok:
  assumes "dev_ok E disk" "blk_ok s" "block_inside E (disk (medium s)) s num" "length buf = bsz s"
  obtains w where "write_block E num buf s = s\<lparr>medium := w\<rparr>" "disk w = replace_bytes (disk (medium s)) (base E + unat num * bsz s) buf"
proof -
  let ?p = "bl_off s (ucast num)"
  have "inside E (disk (medium s)) (unat ?p) (unat (blk s))" "unat (blk s) \<le> length buf"
    using assms(3,4) by (simp_all add: block_inside_def unat_bl_off [OF assms(2)])
  from swrite_ok [OF assms(1) this] obtain w where
    "swrite E ?p (blk s) buf s = (blk s, s\<lparr>medium := w\<rparr>)"
    "disk w = take (base E + unat ?p) (disk (medium s)) @ take (unat (blk s)) buf @ drop (base E + unat ?p + unat (blk s)) (disk (medium s))" .
  then show thesis using that [of w] assms(4) by (simp add: write_block_def replace_bytes_def unat_bl_off [OF assms(2)])
qed

lemma block_inside_write:
  assumes "block_inside E D s num" "length buf = bsz s"
  shows "block_inside E (replace_bytes D (base E + unat num * bsz s) buf) s num" "block_at E (replace_bytes D (base E + unat num * bsz s) buf) s num = buf"
proof -
  have l: "base E + unat num * bsz s + bsz s \<le> length D" using assms(1) inside_length by (fastforce simp: block_inside_def)
  then show "block_inside E (replace_bytes D (base E + unat num * bsz s) buf) s num"
    using assms inside_cong [of "replace_bytes D (base E + unat num * bsz s) buf" D E] by (simp add: block_inside_def)
  show "block_at E (replace_bytes D (base E + unat num * bsz s) buf) s num = buf"
    unfolding block_at_def part_def using replace_bytes_same [OF assms(2), of "base E + unat num * bsz s" D] l by simp
qed

lemma clear_claimed:
  assumes "length bm = n" "length bm' = n" "r < 8 * n" "\<not> map_bit bm r" "\<And>k. map_bit bm' k \<longleftrightarrow> k = r \<or> map_bit bm k"
  shows "bm'[r div 8 := bm' ! (r div 8) AND NOT (push_bit (r mod 8) 1)] = bm"
proof (rule nth_equalityI)
  fix i assume "i < length (bm'[r div 8 := bm' ! (r div 8) AND NOT (push_bit (r mod 8) 1)])"
  then have i: "i < n" using assms(2) by simp
  have b: "bit (bm' ! i) j \<longleftrightarrow> 8 * i + j = r \<or> bit (bm ! i) j" if "j < 8" for j
    using assms(5) [of "8 * i + j"] that by (simp add: map_bit_def)
  have nb: "\<not> bit (bm ! i) j" if "j < 8" "8 * i + j = r" for j using assms(4) that by (auto simp: map_bit_def)
  show "bm'[r div 8 := bm' ! (r div 8) AND NOT (push_bit (r mod 8) 1)] ! i = bm ! i"
  proof (rule bit_word_eqI)
    fix j assume "j < LENGTH(8)"
    then have j: "j < 8" by simp
    then have "8 * i + j = r \<longleftrightarrow> r div 8 = i \<and> r mod 8 = j" by auto
    then show "bit (bm'[r div 8 := bm' ! (r div 8) AND NOT (push_bit (r mod 8) 1)] ! i) j \<longleftrightarrow> bit (bm ! i) j"
      using b [OF j] nb [OF j] i assms(2) j by (cases "r div 8 = i") (auto simp: bit_simps)
  qed
qed (use assms in simp)

text \<open>
  C31. Bitmaps of blocks and inodes: \<^verbatim>\<open>ext2_bitmap_search_and_claim\<close> returns the first clear bit of the bitmap and sets exactly this bit on the device, and
  \<^verbatim>\<open>ext2_bitmap_free\<close> of the result restores the device. If the first clear bit is bit 0, or none is clear, the result is 0 and nothing changes.
\<close>

theorem bitmap_claim_free:
  assumes dev: "dev_ok E disk" "blk_ok s" and bi: "block_inside E (disk (medium s)) s num"
  shows "\<exists>r s'. ext2_bitmap_search_and_claim E num s = Ret (r, s') \<and>
    (if r = 0 then s' = s \<and> (\<not> map_bit (block_at E (disk (medium s)) s num) 0 \<or> (\<forall>k < 8 * bsz s. map_bit (block_at E (disk (medium s)) s num) k))
     else unat r < 8 * bsz s \<and> \<not> map_bit (block_at E (disk (medium s)) s num) (unat r) \<and>
       (\<forall>k < unat r. map_bit (block_at E (disk (medium s)) s num) k) \<and>
       (\<exists>buf. disk (medium s') = replace_bytes (disk (medium s)) (base E + unat num * bsz s) buf \<and> length buf = bsz s \<and>
          (\<forall>k < 8 * bsz s. map_bit buf k \<longleftrightarrow> k = unat r \<or> map_bit (block_at E (disk (medium s)) s num) k)) \<and>
       (\<exists>s''. ext2_bitmap_free E num r s' = Ret s'' \<and> disk (medium s'') = disk (medium s)))"
proof -
  let ?D = "disk (medium s)" and ?B = "bsz s" and ?p = "base E + unat num * bsz s"
  define bm where "bm = block_at E ?D s num"
  have lb: "length bm = ?B" using bi by (simp add: bm_def)
  have jl: "length (e_junk E ?B) = ?B" using dev(1) by (simp add: dev_ok_def)
  have rd: "read_block E num (e_junk E ?B) s = Ret bm" unfolding bm_def by (rule read_block_ok [OF dev bi jl])
  obtain r bm' where c: "claim_search bm ?B = (r, bm')" by fastforce
  note cs = claim_search_first [OF _ c] 
  have cl: "ext2_bitmap_search_and_claim E num s = Ret (of_nat r, if r \<noteq> 0 then write_block E num bm' s else s)"
    using rd c by (simp add: ext2_bitmap_search_and_claim_def)
  show ?thesis
  proof (cases "r = 0")
    case True
    then have "\<not> map_bit bm 0 \<or> (\<forall>k < 8 * ?B. map_bit bm k)" using cs lb by auto
    then show ?thesis using cl True by (auto simp: bm_def [symmetric])
  next
    case False
    then have f: "r < 8 * ?B" "\<not> map_bit bm r" "\<forall>k < r. map_bit bm k" "length bm' = ?B" "\<And>k. map_bit bm' k \<longleftrightarrow> k = r \<or> map_bit bm k"
      using cs lb by auto
    have ur: "unat (of_nat r :: u32) = r" using f(1) bsz_bounds [OF dev(2)] by (simp add: unat_of_nat take_bit_nat_eq_self)
    obtain w where w: "write_block E num bm' s = s\<lparr>medium := w\<rparr>" "disk w = replace_bytes ?D ?p bm'"
      using write_block_ok [OF dev bi f(4)] .
    let ?s = "s\<lparr>medium := w\<rparr>"
    have simps: "blk ?s = blk s" "blk_ok ?s" using dev(2) by (simp_all add: blk_def blk_ok_def)
    have bi': "block_inside E (disk (medium ?s)) ?s num" and ba: "block_at E (disk (medium ?s)) ?s num = bm'"
      using block_inside_write [OF bi f(4)] w(2) by (simp_all add: block_inside_def block_at_def simps)
    have rd': "read_block E num (e_junk E ?B) ?s = Ret bm'"
      using read_block_ok [OF dev(1) simps(2) bi'] jl by (simp add: ba [simplified] simps(1))
    have ri: "unat ((of_nat r :: u32) div 8) = r div 8" "unat ((of_nat r :: u32) mod 8) = r mod 8" by (simp_all add: unat_div_u32 unat_mod_u32 ur)
    have rl: "r div 8 < ?B" using f(1) by (simp add: less_mult_imp_div_less mult.commute)
    have cm: "bm'[r div 8 := bm' ! (r div 8) AND NOT (push_bit (r mod 8) 1)] = bm" by (rule clear_claimed [OF lb f(4,1,2,5)])
    have lb': "length bm = bsz ?s" using lb simps by simp
    obtain w' where w': "write_block E num bm ?s = ?s\<lparr>medium := w'\<rparr>" "disk w' = replace_bytes (disk (medium ?s)) (base E + unat num * bsz ?s) bm"
      using write_block_ok [OF dev(1) simps(2) bi' lb'] .
    have free: "ext2_bitmap_free E num (of_nat r) ?s = Ret (?s\<lparr>medium := w'\<rparr>)"
      using rd' f(4) rl w'(1) cm by (simp add: ext2_bitmap_free_def simps(1) ri Let_def)
    have "?p + ?B \<le> length ?D" using bi inside_length by (fastforce simp: block_inside_def)
    then have "disk w' = ?D" using w'(2) w(2) replace_bytes_restore [of ?p ?B ?D bm'] f(4) by (simp add: simps(1) bm_def block_at_def part_def)
    then have s2: "\<exists>s''. ext2_bitmap_free E num (of_nat r) ?s = Ret s'' \<and> disk (medium s'') = ?D" using free by auto
    have "(of_nat r :: u32) \<noteq> 0" using ur False by (metis unat_0)
    then show ?thesis using cl False w f ur s2 by (auto simp: bm_def [symmetric])
  qed
qed

section \<open>A small file system\<close>

text \<open>Blocks of 1024 bytes and inodes of 256 bytes in a partition that starts at the second sector of a disk in memory.\<close>

definition ram_env :: "u8 list ext2_env" where
  "ram_env = \<lparr>e_read = ram_read, e_write = ram_write, e_dev = test_dev, e_junk = \<lambda>n. replicate n 0, e_now = 0\<rparr>"

definition ram_fs :: "u8 list option \<Rightarrow> u8 list \<Rightarrow> u8 list ext2_fs" where
  "ram_fs root D = \<lparr>medium = D, superblock = put16 88 256 (replicate 1024 0), blockgroup_table = [], root_inode = root, inode_cache = [], inode_cache_end = 0, e2_errno = None\<rparr>"

lemma ram_simps [simp]:
  "dev_ok ram_env id" "base ram_env = 512" "medium (ram_fs r D) = D" "blk_ok (ram_fs r D)" "blk (ram_fs r D) = 1024" "epb (ram_fs r D) = 256"
  "inode_size (ram_fs r D) = 256"
proof -
  show "dev_ok ram_env id" using ram_driver by (simp add: dev_ok_def ram_env_def test_dev_def)
  show "base ram_env = 512" "medium (ram_fs r D) = D" by (simp_all add: base_def ram_env_def test_dev_def ram_fs_def)
  show "blk_ok (ram_fs r D)" "blk (ram_fs r D) = 1024" "epb (ram_fs r D) = 256" "inode_size (ram_fs r D) = 256"
    by (simp_all add: blk_ok_def blk_def epb_def inode_size_def ram_fs_def) (simp_all add: get32_def)
qed

lemma ram_block_inside: "num < 2 ^ 20 \<Longrightarrow> 512 + 1024 * (unat num + 1) \<le> length D \<Longrightarrow> block_inside ram_env D (ram_fs r D') num"
proof -
  assume a: "num < 2 ^ 20" "512 + 1024 * (unat num + 1) \<le> length D"
  have "unat num < 2 ^ 20" using a(1) by (simp add: word_less_nat_alt)
  moreover have "(unat num * 1024 + 1024 + 511) div 512 = 2 * unat num + 2" by simp
  ultimately show ?thesis using a(2) by (simp add: block_inside_def inside_def ram_env_def test_dev_def)
qed

theorem bitmap_claim_free_witness:
  "\<exists>s' s''. ext2_bitmap_search_and_claim ram_env 3 (ram_fs None ((replicate 8704 0)[3584 := 1])) = Ret (1, s') \<and>
     ext2_bitmap_free ram_env 3 1 s' = Ret s'' \<and> medium s'' = (replicate 8704 0)[3584 := 1]"
proof -
  let ?D = "(replicate 8704 0)[3584 := 1] :: u8 list" and ?s = "ram_fs None ((replicate 8704 0)[3584 := 1])"
  let ?bm = "block_at ram_env ?D ?s 3"
  have bi: "block_inside ram_env (id (medium ?s)) ?s 3" by (simp add: ram_block_inside)
  have "?bm ! 0 = 1" using bi by (simp add: block_at_def block_inside_def part_nth)
  then have b: "map_bit ?bm 0" "\<not> map_bit ?bm 1" by (simp_all add: map_bit_def)
  obtain r s' where r: "ext2_bitmap_search_and_claim ram_env 3 ?s = Ret (r, s')"
      "if r = 0 then s' = ?s \<and> (\<not> map_bit ?bm 0 \<or> (\<forall>k < 8 * 1024. map_bit ?bm k))
       else \<not> map_bit ?bm (unat r) \<and> (\<forall>k < unat r. map_bit ?bm k) \<and>
         (\<exists>s''. ext2_bitmap_free ram_env 3 r s' = Ret s'' \<and> medium s'' = ?D)"
    using bitmap_claim_free [OF ram_simps(1,4) bi] by (auto split: if_splits)
  have "r \<noteq> 0" using r(2) b by (auto dest: spec [of _ 1])
  moreover from this have "unat r = 1" using r(2) b by (metis less_one linorder_neqE_nat unat_eq_zero)
  then have "r = 1" by (simp add: word_unat_eq_iff)
  ultimately show ?thesis using r by auto
qed

end
