(* ===== verification/Ext2_Write.thy ===== *)
theory Ext2_Write
  imports Ext2_Data
begin

text \<open>
  Writing to ext2 files in place: a write changes the bytes it is given and nothing else of the file, provided that the blocks of the file are there, are
  all different and are not used as tables of the file.
\<close>

section \<open>Changing one block\<close>

text \<open>Only bytes of block \<open>num\<close> are different.\<close>

definition differs_in :: "'d ext2_env \<Rightarrow> 'd ext2_fs \<Rightarrow> u32 \<Rightarrow> u8 list \<Rightarrow> u8 list \<Rightarrow> bool" where
  "differs_in E s num D D' \<longleftrightarrow> length D' = length D \<and>
     (\<forall>y. y < base E + unat num * bsz s \<or> base E + unat num * bsz s + bsz s \<le> y \<longrightarrow> D' ! y = D ! y)"

lemma other_block: "(a :: nat) \<noteq> b \<Longrightarrow> k < B \<Longrightarrow> a * B + k < b * B \<or> b * B + B \<le> a * B + k"
proof -
  assume "a \<noteq> b" "k < B"
  then consider "Suc a \<le> b" | "Suc b \<le> a" by linarith
  then show ?thesis
  proof cases
    case 1
    then have "Suc a * B \<le> b * B" by (rule mult_le_mono1)
    then show ?thesis using \<open>k < B\<close> by simp
  next
    case 2
    then have "Suc b * B \<le> a * B" by (rule mult_le_mono1)
    then show ?thesis by simp
  qed
qed

lemma differs_nth:
  assumes "differs_in E s num D D'" "t \<noteq> num" "k < bsz s"
  shows "D' ! (base E + unat t * bsz s + k) = D ! (base E + unat t * bsz s + k)"
proof -
  have "unat t \<noteq> unat num" using assms(2) by (simp add: word_unat_eq_iff)
  from other_block [OF this assms(3)] show ?thesis using assms(1) unfolding differs_in_def by (metis add.assoc nat_add_left_cancel_le nat_add_left_cancel_less)
qed

lemma differs_inside: "differs_in E s num D D' \<Longrightarrow> block_inside E D' s t = block_inside E D s t"
  by (simp add: differs_in_def block_inside_def inside_def)

lemma differs_block_at: "differs_in E s num D D' \<Longrightarrow> block_inside E D s t \<Longrightarrow> t \<noteq> num \<Longrightarrow> block_at E D' s t = block_at E D s t"
proof (rule nth_equalityI)
  assume a: "differs_in E s num D D'" "block_inside E D s t" "t \<noteq> num"
  then have i: "block_inside E D' s t" by (simp add: differs_inside)
  then show "length (block_at E D' s t) = length (block_at E D s t)" using a(2) by simp
  fix k assume "k < length (block_at E D' s t)"
  then have "k < bsz s" using i by simp
  then show "block_at E D' s t ! k = block_at E D s t ! k"
    using a(2) i differs_nth [OF a(1,3)] by (simp add: block_at_def part_nth block_inside_def)
qed

section \<open>Tables stay\<close>

text \<open>Writing to a block that is not a table does not move the blocks of the file.\<close>

lemma differs_tables:
  assumes d: "differs_in E s num D D'" and t: "tables_inside E D s inode" "\<not> is_table E D s inode num"
  shows "is_table E D' s inode u = is_table E D s inode u" "tables_inside E D' s inode"
    "block_num_of E D' s inode n = block_num_of E D s inode n" "cache_ok E D s inode c \<Longrightarrow> cache_ok E D' s inode c"
    "is_table E D s inode v \<Longrightarrow> block_at E D' s v = block_at E D s v"
proof -
  have same: "block_at E D' s v = block_at E D s v" if "is_table E D s inode v" for v
    using that t by (intro differs_block_at [OF d] table_inside [OF t(1)]) auto
  have b12: "inode_block inode 12 \<noteq> 0 \<Longrightarrow> block_at E D' s (inode_block inode 12) = block_at E D s (inode_block inode 12)"
    and b13: "inode_block inode 13 \<noteq> 0 \<Longrightarrow> block_at E D' s (inode_block inode 13) = block_at E D s (inode_block inode 13)"
    by (rule same; simp add: is_table_def)+
  show it: "is_table E D' s inode u = is_table E D s inode u" for u using b13 by (auto simp: is_table_def)
  show "tables_inside E D' s inode" using t(1) b13 by (auto simp: tables_inside_def differs_inside [OF d])
  show "is_table E D s inode v \<Longrightarrow> block_at E D' s v = block_at E D s v" by (rule same)
  show "cache_ok E D s inode c \<Longrightarrow> cache_ok E D' s inode c" using b12 b13 same by (simp add: cache_ok_def it)
  show "block_num_of E D' s inode n = block_num_of E D s inode n"
  proof (cases "epb s + 12 \<le> n \<and> n < epb s * epb s + 12 \<and> inode_block inode 13 \<noteq> 0")
    case True
    let ?m = "n - epb s - 12" and ?t = "get32 (block_at E D s (inode_block inode 13)) (4 * ((n - epb s - 12) div epb s))"
    have "?m < epb s * epb s" using True by linarith
    then have "?m div epb s < epb s" by (simp add: less_mult_imp_div_less)
    then have "?t \<noteq> 0 \<Longrightarrow> is_table E D s inode ?t" using True by (auto simp: is_table_def)
    then show ?thesis using True b13 same [of ?t] by (simp add: block_num_of_def Let_def)
  qed (use b12 in \<open>auto simp: block_num_of_def Let_def\<close>)
qed

text \<open>The blocks of a file are its own: no block is used twice, and none of them is a table of the file.\<close>

definition own_blocks :: "'d ext2_env \<Rightarrow> u8 list \<Rightarrow> 'd ext2_fs \<Rightarrow> u8 list \<Rightarrow> bool" where
  "own_blocks E D s inode \<longleftrightarrow> (\<forall>n n'. block_num_of E D s inode n \<noteq> 0 \<longrightarrow>
     \<not> is_table E D s inode (block_num_of E D s inode n) \<and> (block_num_of E D s inode n = block_num_of E D s inode n' \<longrightarrow> n = n'))"

lemma own_blocks_cong:
  "(\<And>n. block_num_of E D' s inode n = block_num_of E D s inode n) \<Longrightarrow> (\<And>u. is_table E D' s inode u = is_table E D s inode u) \<Longrightarrow>
   own_blocks E D' s inode = own_blocks E D s inode"
  by (simp add: own_blocks_def)

text \<open>None of these depends on the medium of the state, which is given separately.\<close>

lemma medium_simps [simp]:
  "blk (s\<lparr>medium := w\<rparr>) = blk s" "blk_ok (s\<lparr>medium := w\<rparr>) = blk_ok s" "epb (s\<lparr>medium := w\<rparr>) = epb s" "bl_size (s\<lparr>medium := w\<rparr>) = bl_size s"
  "block_inside E D (s\<lparr>medium := w\<rparr>) = block_inside E D s" "block_at E D (s\<lparr>medium := w\<rparr>) = block_at E D s"
  "block_num_of E D (s\<lparr>medium := w\<rparr>) = block_num_of E D s" "tables_inside E D (s\<lparr>medium := w\<rparr>) = tables_inside E D s"
  "is_table E D (s\<lparr>medium := w\<rparr>) = is_table E D s" "cache_ok E D (s\<lparr>medium := w\<rparr>) = cache_ok E D s"
  "file_block E D (s\<lparr>medium := w\<rparr>) = file_block E D s" "file_byte E D (s\<lparr>medium := w\<rparr>) = file_byte E D s"
  "own_blocks E D (s\<lparr>medium := w\<rparr>) = own_blocks E D s" "rw_window (s\<lparr>medium := w\<rparr>) = rw_window s"
  "readable E D (s\<lparr>medium := w\<rparr>) = readable E D s"
proof -
  show b: "blk (s\<lparr>medium := w\<rparr>) = blk s" and "blk_ok (s\<lparr>medium := w\<rparr>) = blk_ok s" by (simp_all add: blk_def blk_ok_def)
  show e: "epb (s\<lparr>medium := w\<rparr>) = epb s" by (simp add: epb_def b)
  show "bl_size (s\<lparr>medium := w\<rparr>) = bl_size s" by (rule ext) (simp add: bl_size_def b)
  show i: "block_inside E D (s\<lparr>medium := w\<rparr>) = block_inside E D s" and a: "block_at E D (s\<lparr>medium := w\<rparr>) = block_at E D s"
    by (rule ext, simp add: block_inside_def block_at_def b)+
  show n: "block_num_of E D (s\<lparr>medium := w\<rparr>) = block_num_of E D s" and t: "is_table E D (s\<lparr>medium := w\<rparr>) = is_table E D s"
    and ti: "tables_inside E D (s\<lparr>medium := w\<rparr>) = tables_inside E D s"
    by (intro ext, simp add: block_num_of_def is_table_def tables_inside_def a e i cong: if_cong)+
  show "cache_ok E D (s\<lparr>medium := w\<rparr>) = cache_ok E D s" by (intro ext) (simp add: cache_ok_def a b t)
  show f: "file_block E D (s\<lparr>medium := w\<rparr>) = file_block E D s" "file_byte E D (s\<lparr>medium := w\<rparr>) = file_byte E D s"
    by (intro ext, simp add: file_block_def file_byte_def n i b)+
  show "own_blocks E D (s\<lparr>medium := w\<rparr>) = own_blocks E D s" by (rule ext) (simp add: own_blocks_def n t)
  show "rw_window (s\<lparr>medium := w\<rparr>) = rw_window s" by (intro ext) (simp add: rw_window_def bl_mod_def bl_off_def b)
  show "readable E D (s\<lparr>medium := w\<rparr>) = readable E D s" by (intro ext) (simp add: readable_def blk_ok_def ti f b)
qed

section \<open>One round\<close>

lemma rw_transfer_write:
  assumes "dev_ok E disk" "inside E (disk (medium s)) (unat a) (unat n)" "p + unat n \<le> length buf" "wnum \<noteq> 0"
  obtains w where "rw_transfer E wnum (a, n) p buf s = Ret (True, buf, s\<lparr>medium := w\<rparr>)"
    "disk w = replace_bytes (disk (medium s)) (base E + unat a) (take (unat n) (drop p buf))"
proof -
  have "unat n < 2 ^ 31" using assms(2) by (simp add: inside_def)
  then have i: "word_of_int (as_int n) = n" by (simp add: as_int_small)
  have l: "unat n \<le> length (drop p buf)" using assms(3) by simp
  obtain w where w: "swrite E a n (drop p buf) s = (n, s\<lparr>medium := w\<rparr>)"
      "disk w = take (base E + unat a) (disk (medium s)) @ take (unat n) (drop p buf) @ drop (base E + unat a + unat n) (disk (medium s))"
    using swrite_ok [OF assms(1,2) l] .
  show thesis using that [of w] w i assms(4) l by (simp add: rw_transfer_def replace_bytes_def)
qed

lemma replace_nth:
  "pos + length b \<le> length D \<Longrightarrow> replace_bytes D pos b ! y = (if pos \<le> y \<and> y < pos + length b then b ! (y - pos) else D ! y)"
proof -
  assume l: "pos + length b \<le> length D"
  consider "y < pos" | "pos \<le> y" "y < pos + length b" | "pos + length b \<le> y" by linarith
  then show ?thesis
  proof cases
    case 2
    then have "y - pos < length b" by linarith
    then show ?thesis using 2 l by (simp add: replace_bytes_def nth_append)
  next
    case 3
    then have "\<not> y - pos < length b" "pos + length b + (y - pos - length b) = y" by linarith+
    then show ?thesis using 3 l by (simp add: replace_bytes_def nth_append)
  qed (use l in \<open>simp add: replace_bytes_def nth_append\<close>)
qed

text \<open>What a round does to the bytes of the file.\<close>

lemma round_effect:
  fixes B :: nat
  assumes d: "D' = replace_bytes D (base E + unat num * bsz s + skip) b" and ins: "block_inside E D s num"
    and l: "skip + length b \<le> bsz s" "bsz s = B" "0 < B" and t: "tables_inside E D s inode" "own_blocks E D s inode"
    and num: "num = block_num_of E D s inode q" "num \<noteq> 0"
  shows "differs_in E s num D D'"
    "file_byte E D' s inode x = (if q * B + skip \<le> x \<and> x < q * B + skip + length b then b ! (x - (q * B + skip)) else file_byte E D s inode x)"
proof -
  have ln: "base E + unat num * B + B \<le> length D" using ins inside_length l(2) by (fastforce simp: block_inside_def)
  have nt: "D' ! y = (if base E + unat num * B + skip \<le> y \<and> y < base E + unat num * B + skip + length b
      then b ! (y - (base E + unat num * B + skip)) else D ! y)" for y
    unfolding d using ln l by (subst replace_nth) simp_all
  have "length D' = length D" unfolding d using ln l by (subst replace_bytes_length) simp_all
  then show dif: "differs_in E s num D D'" using l by (simp add: differs_in_def nt)
  have nt': "\<not> is_table E D s inode num" using t(2) num by (simp add: own_blocks_def)
  have fb: "file_byte E D' s inode x = D' ! (base E + unat (block_num_of E D s inode (x div B)) * B + x mod B)"
    by (simp add: file_byte_def differs_tables(3) [OF dif t(1) nt'] l(2))
  have x: "x = (x div B) * B + x mod B" "x mod B < B" using l(3) by simp_all
  show "file_byte E D' s inode x = (if q * B + skip \<le> x \<and> x < q * B + skip + length b then b ! (x - (q * B + skip)) else file_byte E D s inode x)"
  proof (cases "x div B = q")
    case True
    then have x': "x = q * B + x mod B" using x(1) by simp
    then have "q * B + skip \<le> x \<longleftrightarrow> skip \<le> x mod B" "x < q * B + skip + length b \<longleftrightarrow> x mod B < skip + length b" "x - (q * B + skip) = x mod B - skip"
      by linarith+
    then show ?thesis using True fb num(1) nt [of "base E + unat num * B + x mod B"] by (auto simp: file_byte_def l(2))
  next
    case False
    let ?u = "block_num_of E D s inode (x div B)"
    have "?u \<noteq> num" using t(2) num False by (auto simp: own_blocks_def)
    then have "file_byte E D' s inode x = file_byte E D s inode x" using fb differs_nth [OF dif, of ?u "x mod B"] x(2) by (simp add: file_byte_def l(2))
    moreover have "\<not> (q * B + skip \<le> x \<and> x < q * B + skip + length b)"
    proof
      assume a: "q * B + skip \<le> x \<and> x < q * B + skip + length b"
      from other_block [OF False x(2)] show False using a l x(1) by linarith
    qed
    ultimately show ?thesis by auto
  qed
qed

section \<open>The loop\<close>

text \<open>Byte \<open>y\<close> of the medium belongs to a block of the file.\<close>

definition own_byte :: "'d ext2_env \<Rightarrow> u8 list \<Rightarrow> 'd ext2_fs \<Rightarrow> u8 list \<Rightarrow> nat \<Rightarrow> bool" where
  "own_byte E D s inode y \<longleftrightarrow> (\<exists>n. block_num_of E D s inode n \<noteq> 0 \<and>
     base E + unat (block_num_of E D s inode n) * bsz s \<le> y \<and> y < base E + unat (block_num_of E D s inode n) * bsz s + bsz s)"

text \<open>The file after a part of it was written: its layout is the same, and the bytes from \<open>lo\<close> up to \<open>hi\<close> are those of the buffer.\<close>

definition written :: "'d ext2_env \<Rightarrow> 'd ext2_fs \<Rightarrow> u8 list \<Rightarrow> nat \<Rightarrow> u8 list \<Rightarrow> nat \<Rightarrow> nat \<Rightarrow> u8 list \<Rightarrow> u8 list \<Rightarrow> bool" where
  "written E s inode offset buf lo hi D D' \<longleftrightarrow> length D' = length D \<and> tables_inside E D' s inode \<and> own_blocks E D' s inode \<and>
     block_num_of E D' s inode = block_num_of E D s inode \<and>
     (\<forall>x. file_byte E D' s inode x = (if offset + lo \<le> x \<and> x < offset + hi then buf ! (x - offset) else file_byte E D s inode x)) \<and>
     (\<forall>y. D' ! y \<noteq> D ! y \<longrightarrow> own_byte E D s inode y)"

lemma written_refl: "tables_inside E D s inode \<Longrightarrow> own_blocks E D s inode \<Longrightarrow> hi \<le> lo \<Longrightarrow> written E s inode offset buf lo hi D D"
  by (auto simp: written_def)

lemma written_trans:
  "written E s inode offset buf a b D D' \<Longrightarrow> written E s inode offset buf b c D' D'' \<Longrightarrow> a \<le> b \<Longrightarrow> b \<le> c \<Longrightarrow> written E s inode offset buf a c D D''"
proof -
  assume w: "written E s inode offset buf a b D D'" "written E s inode offset buf b c D' D''" and l: "a \<le> b" "b \<le> c"
  have "own_byte E D' s inode y = own_byte E D s inode y" for y using w(1) by (simp add: written_def own_byte_def)
  moreover have "file_byte E D'' s inode x = (if offset + a \<le> x \<and> x < offset + c then buf ! (x - offset) else file_byte E D s inode x)" for x
    using w l by (auto simp: written_def)
  ultimately show ?thesis using w unfolding written_def by metis
qed

lemma written_file_block: "written E s inode offset buf a b D D' \<Longrightarrow> file_block E D' s inode n = file_block E D s inode n"
  by (simp add: written_def file_block_def block_inside_def inside_def)

lemma round_written:
  assumes D': "D' = replace_bytes D (base E + unat num * bsz s + skip) (take n (drop bo buf))"
    and num: "num = block_num_of E D s inode q" "num \<noteq> 0" "block_inside E D s num" and t: "tables_inside E D s inode" "own_blocks E D s inode"
    and l: "skip + n \<le> bsz s" "0 < bsz s" "bo + n \<le> length buf" and o: "offset + bo = q * bsz s + skip"
  shows "written E s inode offset buf bo (bo + n) D D'" "cache_ok E D s inode c \<Longrightarrow> cache_ok E D' s inode c"
proof -
  let ?b = "take n (drop bo buf)"
  have lb: "length ?b = n" using l(3) by simp
  have sk: "skip + length ?b \<le> bsz s" using l(1) lb by simp
  note r = round_effect [OF D' num(3) sk refl l(2) t num(1,2)]
  have nt: "\<not> is_table E D s inode num" using t(2) num by (simp add: own_blocks_def)
  note d = differs_tables [OF r(1) t(1) nt]
  show "cache_ok E D s inode c \<Longrightarrow> cache_ok E D' s inode c" by (rule d(4))
  show "written E s inode offset buf bo (bo + n) D D'"
    unfolding written_def
  proof (intro conjI allI impI)
    show "length D' = length D" using r(1) by (simp add: differs_in_def)
    show "tables_inside E D' s inode" by (rule d(2))
    show "own_blocks E D' s inode" using t(2) own_blocks_cong [OF d(3) d(1)] by simp
    show "block_num_of E D' s inode = block_num_of E D s inode" by (rule ext) (rule d(3))
    fix x
    have bx: "?b ! (x - (q * bsz s + skip)) = buf ! (x - offset)" if "offset + bo \<le> x" "x < offset + (bo + n)"
    proof -
      have "x - (q * bsz s + skip) < n" "bo + (x - (q * bsz s + skip)) = x - offset" using that o by linarith+
      then show ?thesis using l(3) by simp
    qed
    have c: "(q * bsz s + skip \<le> x \<and> x < q * bsz s + skip + n) = (offset + bo \<le> x \<and> x < offset + (bo + n))" using o by linarith
    show "file_byte E D' s inode x = (if offset + bo \<le> x \<and> x < offset + (bo + n) then buf ! (x - offset) else file_byte E D s inode x)"
    proof (cases "offset + bo \<le> x \<and> x < offset + (bo + n)")
      case True
      then show ?thesis using r(2) [of x, unfolded lb c] bx by (simp only: if_True)
    next
      case False
      then show ?thesis using r(2) [of x, unfolded lb c] by (simp only: if_False)
    qed
  next
    fix y assume "D' ! y \<noteq> D ! y"
    then have "base E + unat num * bsz s \<le> y \<and> y < base E + unat num * bsz s + bsz s" using r(1) unfolding differs_in_def by (meson not_le)
    then show "own_byte E D s inode y" using num unfolding own_byte_def by blast
  qed
qed

lemma rw_loop_write:
  fixes offset :: u64
  assumes dev: "dev_ok E disk" and L: "unat len \<le> length buf" "wnum \<noteq> 0" and q: "unat offset + unat len \<le> 2 ^ 32"
  defines "m s \<equiv> unat offset mod bsz s"
  shows "blk_ok s \<Longrightarrow> tables_inside E (disk (medium s)) s inode \<Longrightarrow> own_blocks E (disk (medium s)) s inode \<Longrightarrow>
    cache_ok E (disk (medium s)) s inode c \<Longrightarrow> unat bo = min (unat len) (i * bsz s - m s) \<Longrightarrow>
    (\<And>j. j < n \<Longrightarrow> (i + j) * bsz s - m s < unat len \<and> file_block E (disk (medium s)) s inode (unat offset div bsz s + (i + j))) \<Longrightarrow>
    \<exists>w. rw_loop E wnum offset len n i bo c inode buf s = Ret (True, buf, inode, s\<lparr>medium := w\<rparr>) \<and>
      written E s inode (unat offset) buf (unat bo) (min (unat len) ((i + n) * bsz s - m s)) (disk (medium s)) (disk w)"
proof (induction n arbitrary: i bo c s)
  case 0
  then show ?case by (intro exI [of _ "medium s"]) (simp add: written_refl)
next
  case (Suc n)
  let ?D = "disk (medium s)" and ?B = "bsz s" and ?q = "unat offset div bsz s"
  have here: "i * ?B - unat offset mod ?B < unat len" "file_block E ?D s inode (?q + i)" using Suc.prems(6) [of 0] by (simp_all add: m_def)
  define num where "num = block_num_of E ?D s inode (?q + i)"
  define skip where "skip = (if i = 0 then unat offset mod ?B else 0)"
  obtain c' a w where r: "ext2_resolve_blocknum E inode (ucast (of_nat i + bl_size s offset)) c s = Ret (num, c')" "cache_ok E ?D s inode c'" "num \<noteq> 0"
      "rw_window s i offset len bo num = (a, w)" "inside E ?D (unat a) (unat w)" "block_inside E ?D s num"
    and a: "unat a = unat num * ?B + skip" "skip + unat w \<le> ?B" "unat offset + unat bo = (?q + i) * ?B + skip" and bo: "unat bo = i * ?B - m s"
    and w2: "unat bo + unat w = min (unat len) (Suc i * ?B - m s)" and bo': "unat (bo + ucast w) = min (unat len) (Suc i * ?B - m s)"
    using rw_round [OF dev Suc.prems(1,2) q Suc.prems(4,5) [unfolded m_def] here] unfolding num_def skip_def m_def by metis
  have wl: "unat bo + unat w \<le> length buf" using w2 L by simp
  obtain v where v: "rw_transfer E wnum (a, w) (unat bo) buf s = Ret (True, buf, s\<lparr>medium := v\<rparr>)"
      "disk v = replace_bytes ?D (base E + unat a) (take (unat w) (drop (unat bo) buf))"
    using rw_transfer_write [OF dev r(5) wl L(2)] .
  have B: "0 < ?B" using bsz_bounds [OF Suc.prems(1)] by simp
  have dv: "disk v = replace_bytes ?D (base E + unat num * ?B + skip) (take (unat w) (drop (unat bo) buf))" using v(2) a(1) by (simp add: add.assoc)
  note rw = round_written [OF dv num_def r(3,6) Suc.prems(2,3) a(2) B wl a(3)]
  let ?s = "s\<lparr>medium := v\<rparr>"
  have ms: "m ?s = m s" by (simp add: m_def)
  have nx: "(Suc i + j) * bsz ?s - m ?s < unat len \<and> file_block E (disk (medium ?s)) ?s inode (unat offset div bsz ?s + (Suc i + j))" if "j < n" for j
    using Suc.prems(6) [of "Suc j"] that written_file_block [OF rw(1)] by (simp add: ms)
  have inv: "blk_ok ?s" "tables_inside E (disk (medium ?s)) ?s inode" "own_blocks E (disk (medium ?s)) ?s inode" "cache_ok E (disk (medium ?s)) ?s inode c'"
    "unat (bo + ucast w) = min (unat len) (Suc i * bsz ?s - m ?s)"
    using Suc.prems(1) rw r(2) bo' by (simp_all add: written_def ms)
  obtain u where u: "rw_loop E wnum offset len n (Suc i) (bo + ucast w) c' inode buf ?s = Ret (True, buf, inode, ?s\<lparr>medium := u\<rparr>)"
      "written E ?s inode (unat offset) buf (unat (bo + ucast w)) (min (unat len) ((Suc i + n) * bsz ?s - m ?s)) (disk (medium ?s)) (disk u)"
    using Suc.IH [OF inv nx] by blast
  have mono: "Suc i * ?B - m s \<le> (i + Suc n) * ?B - m s" by (intro diff_le_mono mult_le_mono) simp_all
  have "written E s inode (unat offset) buf (unat bo + unat w) (min (unat len) ((i + Suc n) * ?B - m s)) (disk v) (disk u)"
    using u(2) by (simp add: w2 bo' ms written_def own_byte_def)
  then have "written E s inode (unat offset) buf (unat bo) (min (unat len) ((i + Suc n) * ?B - m s)) ?D (disk u)"
    using mono w2 by (intro written_trans [OF rw(1)]) (auto simp: min_def)
  moreover have "rw_loop E wnum offset len (Suc n) i bo c inode buf s = Ret (True, buf, inode, s\<lparr>medium := u\<rparr>)"
    using r v(1) u(1) by (simp add: rw_block_def)
  ultimately show ?case by blast
qed

lemma write_data_ok:
  assumes dev: "dev_ok E disk" and r: "readable E (disk (medium s)) s inode (unat offset) (unat len)" and l: "unat len \<le> length buf" "wnum \<noteq> 0"
    and o: "own_blocks E (disk (medium s)) s inode"
  shows "\<exists>w. ext2_inode_data_rw E inode wnum offset len buf s = Ret (True, buf, inode, s\<lparr>medium := w\<rparr>) \<and>
    written E s inode (unat offset) buf 0 (unat len) (disk (medium s)) (disk w)"
proof -
  have ok: "blk_ok s" "tables_inside E (disk (medium s)) s inode" "unat offset + unat len \<le> 2 ^ 32" using r by (auto simp: readable_def)
  note rnd = rounds_ok [OF r]
  have "unat (0 :: u32) = min (unat len) (0 * bsz s - unat offset mod bsz s)" by simp
  from rw_loop_write [where n = "unat (rw_num_blocks s offset len)", OF dev l ok(3) ok(1,2) o cache_ok_new this rnd(1)]
  show ?thesis unfolding rnd(2) by (simp add: ext2_inode_data_rw_def)
qed

section \<open>Writing and reading back\<close>


text \<open>A file with the blocks 4 and 5.\<close>

definition test_inode :: "u32 \<Rightarrow> u8 list" where
  "test_inode sz = put32 (in_blocks + 4) 5 (put32 in_blocks 4 (put32 in_size sz (replicate 256 0)))"

lemma get32_replicate: "k + 4 \<le> n \<Longrightarrow> get32 (replicate n 0) k = 0"
  by (simp add: get32_def)

lemma test_inode_block: "n < 14 \<Longrightarrow> inode_block (test_inode sz) n = (if n = 0 then 4 else if n = 1 then 5 else 0)"
  by (simp add: inode_block_def test_inode_def in_blocks_def in_size_def get32_replicate)

lemma test_layout:
  "block_num_of E D s (test_inode sz) n = (if n = 0 then 4 else if n = 1 then 5 else 0)" "tables_inside E D s (test_inode sz)" "\<not> is_table E D s (test_inode sz) t"
  "own_blocks E D s (test_inode sz)"
proof -
  show b: "block_num_of E D s (test_inode sz) n = (if n = 0 then 4 else if n = 1 then 5 else 0)" for n
    by (simp add: block_num_of_def test_inode_block Let_def)
  show "tables_inside E D s (test_inode sz)" by (simp add: tables_inside_def test_inode_block)
  show "\<not> is_table E D s (test_inode sz) t" for t by (auto simp: is_table_def test_inode_block)
  then show "own_blocks E D s (test_inode sz)" by (auto simp: own_blocks_def b split: if_splits)
qed


end
