(* ===== verification/Ext2_Dirs.thy ===== *)
theory Ext2_Dirs
  imports Ext2_Dirent Ext2_Write
begin

text \<open>
  Directories as lists of entries: the bytes of a directory are a sequence of records, adding and removing work on this list, and the lookup through
  the window finds what the list holds.
\<close>

section \<open>Fields of a record in its surroundings\<close>

lemma get_append:
  "get16 (xs @ r @ ys) (length xs + i) = get16 r i" if "i + 2 \<le> length r"
  using that by (simp add: get16_def nth_append)

lemma get32_append:
  "get32 (xs @ r @ ys) (length xs + i) = get32 r i" if "i + 4 \<le> length r"
  using that by (simp add: get32_def nth_append)

lemma ent_append:
  assumes "8 \<le> length r"
  shows "ent_inode (xs @ r @ ys) (length xs) = ent_inode r 0" "ent_record_len (xs @ r @ ys) (length xs) = ent_record_len r 0"
    "ent_name_len (xs @ r @ ys) (length xs) = ent_name_len r 0" "ent_type (xs @ r @ ys) (length xs) = ent_type r 0"
    "8 + ent_name_len r 0 \<le> length r \<Longrightarrow> ent_name (xs @ r @ ys) (length xs) = ent_name r 0"
proof -
  show "ent_inode (xs @ r @ ys) (length xs) = ent_inode r 0" using get32_append [of 0 r xs ys] assms by (simp add: ent_inode_def)
  show "ent_record_len (xs @ r @ ys) (length xs) = ent_record_len r 0" using get_append [of 4 r xs ys] assms by (simp add: ent_record_len_def)
  show n: "ent_name_len (xs @ r @ ys) (length xs) = ent_name_len r 0" "ent_type (xs @ r @ ys) (length xs) = ent_type r 0"
    using assms by (simp_all add: ent_name_len_def ent_type_def nth_append)
  assume "8 + ent_name_len r 0 \<le> length r"
  then show "ent_name (xs @ r @ ys) (length xs) = ent_name r 0" by (simp add: ent_name_def n)
qed

lemma put_append:
  "i + 2 \<le> length r \<Longrightarrow> put16 (length xs + i) v (xs @ r @ ys) = xs @ put16 i v r @ ys"
  "i + 4 \<le> length r \<Longrightarrow> put32 (length xs + i) w (xs @ r @ ys) = xs @ put32 i w r @ ys"
  by (simp_all add: put16_def put32_def list_update_append)

lemma overlay_at_append:
  "i + length new \<le> length r \<Longrightarrow> overlay_at (length xs + i) new (xs @ r @ ys) = xs @ overlay_at i new r @ ys"
  by (simp add: overlay_at_def overlay_def)

section \<open>Records\<close>

lemma unat_align_dirent_len:
  assumes "unat d < 2 ^ 31"
  shows "unat (align_dirent_len d) = max 12 ((unat d + 3) div 4 * 4)"
proof -
  have m4: "(- 4 :: u32) = NOT (mask 2)" by (simp add: mask_eq_exp_minus_1)
  define x where "x = d AND - 4"
  have t: "unat x = unat d - unat d mod 4"
    unfolding x_def m4 and_not_mask_u32 by (subst unat_sub_u32) (simp_all add: u32_le_nat unat_take_bit_u32)
  have "unat x \<le> unat d" using t by simp
  then have "unat x + unat (4 :: u32) < 4294967296" using assms by simp
  then have r: "unat ((d AND - 4) + 4) = unat d - unat d mod 4 + 4" using unat_add_u32 [of x 4] t by (simp add: x_def [symmetric])
  have "unat (d mod 4) = unat d mod 4" by (simp add: unat_mod_u32)
  then have z: "d mod 4 \<noteq> 0 \<longleftrightarrow> unat d mod 4 \<noteq> 0" by (metis unat_eq_zero)
  define a b where "a = unat d div 4" and "b = unat d mod 4"
  have ab: "unat d = 4 * a + b" "b < 4" by (simp_all add: a_def b_def)
  have dv: "(unat d + 3) div 4 = (if b = 0 then a else a + 1)"
  proof -
    have s: "(unat d + 3) div 4 = a + (b + 3) div 4" using ab(1) by (simp add: add.assoc)
    consider "b = 0" | "b = 1" | "b = 2" | "b = 3" using ab(2) by linarith
    then show ?thesis by cases (simp_all add: s)
  qed
  have "unat d - unat d mod 4 = 4 * a" using ab by (simp add: a_def minus_mod_eq_mult_div)
  then show ?thesis using dv r z ab by (auto simp: align_dirent_len_def u32_le_nat b_def [symmetric] max_def)
qed

lemma align_ge: "unat d < 2 ^ 31 \<Longrightarrow> unat d \<le> unat (align_dirent_len d) \<and> 12 \<le> unat (align_dirent_len d)"
proof -
  have "x \<le> (x + 3) div 4 * 4" for x :: nat using div_mult_mod_eq [of "x + 3" 4] mod_less_divisor [of 4 "x + 3"] by linarith
  then show "unat d < 2 ^ 31 \<Longrightarrow> ?thesis" by (simp add: unat_align_dirent_len le_max_iff_disj)
qed

lemma align_mono: "unat d \<le> unat e \<Longrightarrow> unat e < 2 ^ 31 \<Longrightarrow> unat (align_dirent_len d) \<le> unat (align_dirent_len e)"
  by (simp add: unat_align_dirent_len div_le_mono max.coboundedI2)

text \<open>The space the name of an entry needs.\<close>

definition used_len :: "u8 list \<Rightarrow> nat" where
  "used_len r = unat (align_dirent_len (of_nat (8 + ent_name_len r 0)))"

lemma ent_name_len_less: "ent_name_len b p < 256"
  using unsigned_less [of "b ! (p + 6)"] by (simp add: ent_name_len_def)

lemma used_len_bounds: "8 + ent_name_len r 0 \<le> used_len r" "12 \<le> used_len r" "used_len r \<le> 264"
proof -
  have n: "unat (of_nat (8 + ent_name_len r 0) :: u32) = 8 + ent_name_len r 0"
    using ent_name_len_less [of r 0] by (intro unat_of_nat_u32) simp
  have l: "8 + ent_name_len r 0 \<le> 263" using ent_name_len_less [of r 0] by simp
  then show "8 + ent_name_len r 0 \<le> used_len r" "12 \<le> used_len r"
    using align_ge [of "of_nat (8 + ent_name_len r 0)", unfolded n] by (simp_all add: used_len_def del: of_nat_add)
  have "(8 + ent_name_len r 0 + 3) div 4 \<le> (263 + 3) div 4" using l by (intro div_le_mono) simp
  then show "used_len r \<le> 264" using l by (simp add: used_len_def unat_align_dirent_len n del: of_nat_add)
qed

text \<open>A record: its length field is its length, and a record in use has room for its name.\<close>

definition rec_ok :: "u8 list \<Rightarrow> bool" where
  "rec_ok r \<longleftrightarrow> 8 + ent_name_len r 0 \<le> length r \<and> unat (ent_record_len r 0) = length r \<and> (ent_inode r 0 \<noteq> 0 \<longrightarrow> used_len r \<le> length r)"

text \<open>The last record does not end with its name.\<close>

definition dir_ok :: "u8 list list \<Rightarrow> bool" where
  "dir_ok rs \<longleftrightarrow> list_all rec_ok rs \<and> (rs \<noteq> [] \<longrightarrow> 8 + ent_name_len (last rs) 0 < length (last rs))"

text \<open>The entries of a directory: inode, type and name of each record in use.\<close>

definition rec_entry :: "u8 list \<Rightarrow> u32 \<times> u8 \<times> string" where
  "rec_entry r = (ent_inode r 0, ent_type r 0, c_string (ent_name r 0))"

definition entries :: "u8 list list \<Rightarrow> (u32 \<times> u8 \<times> string) list" where
  "entries rs = map rec_entry (filter (\<lambda>r. ent_inode r 0 \<noteq> 0) rs)"

lemma entries_simps [simp]:
  "entries [] = []" "entries (r # rs) = (if ent_inode r 0 \<noteq> 0 then rec_entry r # entries rs else entries rs)"
  "entries (rs @ qs) = entries rs @ entries qs"
  by (simp_all add: entries_def)

section \<open>Removing\<close>

lemma c_string_idem [simp]: "c_string (c_string x) = c_string x"
  by (simp add: c_string_def)

lemma strndup_ent: "strndup (ent_name b p) (ent_name_len b p) = c_string (ent_name b p)"
proof -
  have "length (ent_name b p) \<le> ent_name_len b p" by (simp add: ent_name_def chars_def)
  then have "length (c_string (ent_name b p)) \<le> ent_name_len b p" using length_c_string [of "ent_name b p"] by linarith
  then show ?thesis by (simp add: strndup_def strlcpy_spec c_string_end c_string_def) (metis c_string_def c_string_end NUL_def set_takeWhileD)
qed

text \<open>One step of the search: the record at the position is skipped.\<close>

lemma rm_search_step:
  assumes "rec_ok r" "plain name"
  shows "rm_search (xs @ r @ ys) name (length xs) prev =
    (if ent_inode r 0 \<noteq> 0 \<and> c_string (ent_name r 0) = name then Ret (Some (length xs, prev))
     else rm_search (xs @ r @ ys) name (length (xs @ r)) (Some (length xs)))"
proof -
  have l: "8 + ent_name_len r 0 \<le> length r" "8 \<le> length r" and rl: "unat (ent_record_len r 0) = length r" using assms(1) by (simp_all add: rec_ok_def)
  have nz: "ent_record_len r 0 \<noteq> 0"
  proof
    assume "ent_record_len r 0 = 0"
    then show False using rl l by simp
  qed
  have c: "strcmp name (strndup (ent_name r 0) (ent_name_len r 0)) = 0 \<longleftrightarrow> c_string (ent_name r 0) = name"
    unfolding strndup_ent strcmp_zero c_string_idem plain_simps(2) [OF assms(2)] by auto
  have "r \<noteq> []" using l by auto
  then show ?thesis using l rl nz c by (subst rm_search.simps) (simp add: ent_append)
qed

lemma rm_search_none:
  assumes "plain name"
  shows "list_all rec_ok rs \<Longrightarrow> name \<notin> (snd \<circ> snd) ` set (entries rs) \<Longrightarrow> rm_search (xs @ concat rs) name (length xs) prev = Ret None"
proof (induction rs arbitrary: xs prev)
  case Nil
  then show ?case by (subst rm_search.simps) simp
next
  case (Cons r rs)
  then have "\<not> (ent_inode r 0 \<noteq> 0 \<and> c_string (ent_name r 0) = name)" by (auto simp: rec_entry_def)
  moreover have "rm_search ((xs @ r) @ concat rs) name (length (xs @ r)) (Some (length xs)) = Ret None"
    using Cons.prems by (intro Cons.IH) (auto split: if_splits)
  ultimately show ?case using rm_search_step [of r name xs "concat rs" prev] Cons.prems(1) assms by simp
qed

text \<open>The name is found at its first record; \<open>prev\<close> is the record before it.\<close>

lemma rm_search_found:
  assumes "plain name" "rec_ok r" "ent_inode r 0 \<noteq> 0" "c_string (ent_name r 0) = name"
  shows "list_all rec_ok rs \<Longrightarrow> name \<notin> (snd \<circ> snd) ` set (entries rs) \<Longrightarrow>
    rm_search (xs @ concat rs @ r @ ys) name (length xs) prev =
      Ret (Some (length (xs @ concat rs), if rs = [] then prev else Some (length (xs @ concat (butlast rs)))))"
proof (induction rs arbitrary: xs prev)
  case Nil
  then show ?case using rm_search_step [of r name xs ys prev] assms by simp
next
  case (Cons q rs)
  then have "\<not> (ent_inode q 0 \<noteq> 0 \<and> c_string (ent_name q 0) = name)" by (auto simp: rec_entry_def)
  moreover have "rm_search ((xs @ q) @ concat rs @ r @ ys) name (length (xs @ q)) (Some (length xs)) =
      Ret (Some (length ((xs @ q) @ concat rs), if rs = [] then Some (length xs) else Some (length ((xs @ q) @ concat (butlast rs)))))"
    using Cons.prems by (intro Cons.IH) (auto split: if_splits)
  ultimately show ?case using rm_search_step [of q name xs "concat rs @ r @ ys" prev] Cons.prems(1) assms(1) by (cases "rs = []") auto
qed

text \<open>Cutting an entry out: its inode is cleared, and its record joined to the one before.\<close>

lemma ent_put32 [simp]:
  assumes "8 \<le> length r"
  shows "ent_inode (put32 0 v r) 0 = v" "ent_record_len (put32 0 v r) 0 = ent_record_len r 0" "ent_name_len (put32 0 v r) 0 = ent_name_len r 0"
  using assms by (simp_all add: ent_inode_def ent_record_len_def ent_name_len_def nth_put32)

lemma ent_put16 [simp]:
  assumes "8 \<le> length r"
  shows "ent_inode (put16 4 v r) 0 = ent_inode r 0" "ent_record_len (put16 4 v r) 0 = v" "ent_name_len (put16 4 v r) 0 = ent_name_len r 0"
    "ent_type (put16 4 v r) 0 = ent_type r 0" "ent_name (put16 4 v r) 0 = ent_name r 0"
  using assms by (simp_all add: ent_inode_def ent_record_len_def ent_name_len_def ent_type_def nth_put16 ent_name_def)
     (simp add: put16_def)

lemma rec_ok_cleared: "rec_ok r \<Longrightarrow> rec_ok (put32 0 0 r)"
  by (simp add: rec_ok_def)

lemma ent_append0:
  assumes "8 \<le> length r"
  shows "ent_inode (r @ ys) 0 = ent_inode r 0" "ent_record_len (r @ ys) 0 = ent_record_len r 0"
    "ent_name_len (r @ ys) 0 = ent_name_len r 0" "ent_type (r @ ys) 0 = ent_type r 0"
    "8 + ent_name_len r 0 \<le> length r \<Longrightarrow> ent_name (r @ ys) 0 = ent_name r 0"
  using ent_append [of r "[]" ys] assms by simp_all

lemma rm_entry_first: "8 \<le> length r \<Longrightarrow> rm_entry 0 None (r @ ys) = put32 0 0 r @ ys"
  using put_append(2) [of 0 r "[]" 0 ys] by (simp add: rm_entry_def)

definition join_rec :: "u8 list \<Rightarrow> u8 list \<Rightarrow> u8 list" where
  "join_rec q r = put16 4 (ent_record_len q 0 + ent_record_len r 0) q @ put32 0 0 r"

lemma rm_entry_prev:
  assumes "8 \<le> length q" "8 \<le> length r"
  shows "rm_entry (length (xs @ q)) (Some (length xs)) (xs @ q @ r @ ys) = xs @ join_rec q r @ ys"
proof -
  have a: "put32 (length (xs @ q)) 0 (xs @ q @ r @ ys) = xs @ q @ put32 0 0 r @ ys"
    using put_append(2) [of 0 r "xs @ q" 0 ys] assms by simp
  have b: "ent_record_len (xs @ q @ put32 0 0 r @ ys) (length xs) = ent_record_len q 0"
    "ent_record_len (xs @ q @ put32 0 0 r @ ys) (length (xs @ q)) = ent_record_len r 0"
    using ent_append(2) [of q xs "put32 0 0 r @ ys"] ent_append(2) [of "put32 0 0 r" "xs @ q" ys] assms by simp_all
  show ?thesis
    using put_append(1) [of 4 q xs "ent_record_len q 0 + ent_record_len r 0" "put32 0 0 r @ ys"] assms
    by (simp add: rm_entry_def Let_def a [simplified] b [simplified] join_rec_def)
qed

lemma join_rec_ok:
  assumes "rec_ok q" "rec_ok r" "length q + length r < 65536"
  shows "rec_ok (join_rec q r)" "ent_inode (join_rec q r) 0 = ent_inode q 0" "rec_entry (join_rec q r) = rec_entry q"
    "length (join_rec q r) = length q + length r" "8 + ent_name_len (join_rec q r) 0 < length (join_rec q r)"
proof -
  have l: "8 \<le> length q" "8 + ent_name_len q 0 \<le> length q" "8 \<le> length r" using assms by (simp_all add: rec_ok_def)
  note e = ent_append0 [of "put16 4 (ent_record_len q 0 + ent_record_len r 0) q" "put32 0 0 r", folded join_rec_def]
  show i: "ent_inode (join_rec q r) 0 = ent_inode q 0" and n: "rec_entry (join_rec q r) = rec_entry q" using e l by (simp_all add: rec_entry_def)
  show ln: "length (join_rec q r) = length q + length r" by (simp add: join_rec_def)
  have nl: "ent_name_len (join_rec q r) 0 = ent_name_len q 0" using e l by simp
  then show "8 + ent_name_len (join_rec q r) 0 < length (join_rec q r)" using l ln by simp
  have "unat (ent_record_len q 0 + ent_record_len r 0) = length q + length r"
    using assms unfolding rec_ok_def by (subst unat_add_lem [THEN iffD1]) simp_all
  moreover have "used_len (join_rec q r) = used_len q" by (simp add: used_len_def nl)
  ultimately show "rec_ok (join_rec q r)" using assms(1) e(2) l i nl ln by (auto simp: rec_ok_def)
qed

text \<open>The first record with a name.\<close>

lemma first_record:
  assumes "name \<in> (snd \<circ> snd) ` set (entries rs)"
  obtains xs r ys where "rs = xs @ r # ys" "ent_inode r 0 \<noteq> 0" "c_string (ent_name r 0) = name" "name \<notin> (snd \<circ> snd) ` set (entries xs)"
proof -
  let ?P = "\<lambda>r. ent_inode r 0 \<noteq> 0 \<and> c_string (ent_name r 0) = name"
  have "\<exists>r \<in> set rs. ?P r" using assms by (auto simp: entries_def rec_entry_def)
  then obtain xs r ys where "rs = xs @ r # ys" "?P r" "\<forall>y \<in> set xs. \<not> ?P y" using split_list_first_propE [of rs ?P] by blast
  then show thesis by (intro that [of xs r ys]) (auto simp: entries_def rec_entry_def)
qed

lemma dir_ok_append:
  "dir_ok (xs @ r # ys) \<longleftrightarrow> list_all rec_ok xs \<and> rec_ok r \<and> list_all rec_ok ys \<and>
     (let z = (if ys = [] then r else last ys) in 8 + ent_name_len z 0 < length z)"
  by (auto simp: dir_ok_def Let_def)

lemma dir_rm:
  assumes ok: "dir_ok rs" and l: "length (concat rs) < 65536" and n: "plain name" "name \<in> (snd \<circ> snd) ` set (entries rs)"
  shows "\<exists>p prev rs' es e fs. rm_search (concat rs) name 0 None = Ret (Some (p, prev)) \<and> rm_entry p prev (concat rs) = concat rs' \<and> dir_ok rs' \<and>
    entries rs = es @ e # fs \<and> entries rs' = es @ fs \<and> snd (snd e) = name \<and> name \<notin> (snd \<circ> snd) ` set es"
proof -
  obtain xs r ys where rs: "rs = xs @ r # ys" "ent_inode r 0 \<noteq> 0" "c_string (ent_name r 0) = name" "name \<notin> (snd \<circ> snd) ` set (entries xs)"
    using first_record [OF n(2)] .
  have o: "list_all rec_ok xs" "rec_ok r" "list_all rec_ok ys" using ok by (simp_all add: rs(1) dir_ok_append)
  have s: "rm_search (concat rs) name 0 None = Ret (Some (length (concat xs), if xs = [] then None else Some (length (concat (butlast xs)))))"
    using rm_search_found [OF n(1) o(2) rs(2,3) o(1) rs(4), of "[]" "concat ys" None] by (simp add: rs(1))
  have r8: "8 \<le> length r" using o(2) by (simp add: rec_ok_def)
  have e: "entries rs = entries xs @ rec_entry r # entries ys" "snd (snd (rec_entry r)) = name" using rs by (simp_all add: rec_entry_def)
  show ?thesis
  proof (cases xs rule: rev_cases)
    case Nil
    have "dir_ok (put32 0 0 r # ys)" using ok r8 rec_ok_cleared [OF o(2)] by (auto simp: rs(1) Nil dir_ok_def)
    moreover have "rm_entry 0 None (concat rs) = concat (put32 0 0 r # ys)" using rm_entry_first [OF r8] by (simp add: rs(1) Nil)
    ultimately show ?thesis using s e r8 rs(4) Nil by (intro exI [of _ 0] exI [of _ None] exI [of _ "put32 0 0 r # ys"] exI [of _ "[]"]) auto
  next
    case (snoc us q)
    then have q: "rec_ok q" "8 \<le> length q" "list_all rec_ok us" using o(1) by (auto simp: rec_ok_def)
    have "length q + length r < 65536" using l by (simp add: rs(1) snoc)
    note j = join_rec_ok [OF q(1) o(2) this]
    have "dir_ok (us @ join_rec q r # ys)" using ok j(1,5) q(3) o(3) by (auto simp: rs(1) dir_ok_append Let_def)
    moreover have "rm_entry (length (concat xs)) (Some (length (concat us))) (concat rs) = concat (us @ join_rec q r # ys)"
      using rm_entry_prev [OF q(2) r8, of "concat us" "concat ys"] by (simp add: rs(1) snoc)
    moreover have "entries (us @ join_rec q r # ys) = entries xs @ entries ys" using j(2,3) by (simp add: snoc)
    moreover have "rm_search (concat rs) name 0 None = Ret (Some (length (concat xs), Some (length (concat us))))" using s by (simp add: snoc)
    ultimately show ?thesis using e rs(4) by blast
  qed
qed

section \<open>Adding\<close>

definition room :: "u8 list \<Rightarrow> nat" where
  "room r = (if ent_inode r 0 = 0 then length r else length r - used_len r)"

lemma unat_u16_less: "unat (x :: u16) < 65536"
  using unsigned_less [of x] by simp

lemma rec_ok_length: "rec_ok r \<Longrightarrow> 8 \<le> length r \<and> length r < 65536"
  using unat_u16_less [of "ent_record_len r 0"] by (auto simp: rec_ok_def)

lemma unat_ucast_rl: "unat (ucast (x :: u16) :: u32) = unat x"
  using unat_u16_less [of x] by (simp add: unsigned_ucast_eq take_bit_nat_eq_self)

lemma add_search_step:
  assumes "rec_ok r"
  shows "add_search (xs @ r @ ys) dlen (length xs) b =
    (if unat dlen < room r then Ret (length xs, ent_inode r 0 = 0) else add_search (xs @ r @ ys) dlen (length (xs @ r)) (ent_inode r 0 = 0))"
proof -
  have l: "8 \<le> length r" "length r < 65536" "unat (ent_record_len r 0) = length r" using assms rec_ok_length by (auto simp: rec_ok_def)
  then have "r \<noteq> []" "ent_record_len r 0 \<noteq> 0" by auto
  moreover have "unat (ucast (ent_record_len r 0) - align_dirent_len (of_nat (8 + ent_name_len r 0))) = length r - used_len r" if "ent_inode r 0 \<noteq> 0"
    using assms that l(3) by (subst unat_sub_u32) (simp_all add: rec_ok_def u32_le_nat used_len_def unat_ucast_rl)
  ultimately show ?thesis using l
    by (subst add_search.simps) (auto simp: ent_append Let_def u32_less_nat room_def unat_ucast_rl)
qed

lemma add_search_found:
  assumes "rec_ok r" "unat dlen < room r"
  shows "list_all rec_ok rs \<Longrightarrow> \<forall>q \<in> set rs. \<not> unat dlen < room q \<Longrightarrow>
    add_search (xs @ concat rs @ r @ ys) dlen (length xs) b = Ret (length (xs @ concat rs), ent_inode r 0 = 0)"
proof (induction rs arbitrary: xs b)
  case Nil
  then show ?case using add_search_step [OF assms(1), of xs ys dlen b] assms(2) by simp
next
  case (Cons q rs)
  have "add_search ((xs @ q) @ concat rs @ r @ ys) dlen (length (xs @ q)) (ent_inode q 0 = 0) = Ret (length ((xs @ q) @ concat rs), ent_inode r 0 = 0)"
    using Cons.prems by (intro Cons.IH) auto
  then show ?case using add_search_step [of q xs "concat rs @ r @ ys" dlen b] Cons.prems by simp
qed

text \<open>The fields of a new entry.\<close>

lemma chars_unchars: "chars (unchars name) = name"
  by (simp add: chars_def unchars_def o_def char_of_byte)

lemma fill_entry_eq:
  assumes "plain name" "length name \<le> 255"
  shows "fill_entry ino name type p b = overlay_at (p + 8) (unchars name) ((put32 p ino b)[p + 6 := of_nat (length name), p + 7 := type])"
    "unat (of_nat (length name) :: u8) = length name"
proof -
  show "unat (of_nat (length name) :: u8) = length name" using assms(2) by (simp add: unat_of_nat take_bit_nat_eq_self)
  then show "fill_entry ino name type p b = overlay_at (p + 8) (unchars name) ((put32 p ino b)[p + 6 := of_nat (length name), p + 7 := type])"
    using assms(1) by (simp add: fill_entry_def plain_simps unchars_def Let_def)
qed

lemma fill_entry_fields:
  fixes ino :: u32 and type :: u8
  assumes n: "plain name" "length name \<le> 255" and l: "8 + length name \<le> length r"
  defines "r' \<equiv> fill_entry ino name type 0 r"
  shows "ent_inode r' 0 = ino" "ent_type r' 0 = type" "ent_name_len r' 0 = length name" "ent_name r' 0 = name" "length r' = length r"
    "ent_record_len r' 0 = ent_record_len r 0"
proof -
  let ?h = "(put32 0 ino r)[6 := of_nat (length name), 7 := type]"
  have u: "length (unchars name) = length name" by (simp add: unchars_def)
  have r': "r' = overlay_at 8 (unchars name) ?h" using fill_entry_eq(1) [OF n, of ino type 0 r] by (simp add: r'_def)
  show ln: "length r' = length r" using l u by (simp add: r')
  have h: "r' ! k = ?h ! k" if "k < 8" for k using that l u by (simp add: r' nth_overlay_at)
  have "get32 r' 0 = get32 (put32 0 ino r) 0" by (rule get32_cong) (use h in simp_all)
  then show "ent_inode r' 0 = ino" using l by (simp add: ent_inode_def)
  have "get16 r' 4 = get16 r 4" by (rule get16_cong) (use h in \<open>simp_all add: nth_put32\<close>)
  then show "ent_record_len r' 0 = ent_record_len r 0" by (simp add: ent_record_len_def)
  show "ent_type r' 0 = type" using h [of 7] l by (simp add: ent_type_def)
  show nl: "ent_name_len r' 0 = length name" using h [of 6] l fill_entry_eq(2) [OF n] by (simp add: ent_name_len_def)
  have "take (length name) (drop 8 r') = unchars name" using l u by (simp add: r' overlay_at_def overlay_def)
  then show "ent_name r' 0 = name" by (simp add: ent_name_def nl chars_unchars)
qed

lemma fill_entry_append:
  assumes "plain name" "length name \<le> 255" "8 + length name \<le> length r"
  shows "fill_entry ino name type (length xs) (xs @ r @ ys) = xs @ fill_entry ino name type 0 r @ ys"
proof -
  have "overlay_at (length xs + 8) (unchars name) (xs @ q @ ys) = xs @ overlay_at 8 (unchars name) q @ ys" if "length q = length r" for q
    using assms(3) that by (intro overlay_at_append) (simp add: unchars_def)
  moreover have "put32 (length xs) ino (xs @ r @ ys) = xs @ put32 0 ino r @ ys" using put_append(2) [of 0 r xs ino ys] assms(3) by simp
  ultimately show ?thesis using assms by (simp add: fill_entry_eq list_update_append)
qed

text \<open>The length that is looked for has room for the name and one byte more.\<close>

lemma dlen_bounds:
  assumes "plain name" "length name \<le> 255" and d: "dlen = align_dirent_len (of_nat (8 + strlen name + 1))"
  shows "9 + length name \<le> unat dlen" "unat (align_dirent_len (of_nat (8 + length name))) \<le> unat dlen"
proof -
  have u: "unat (of_nat (8 + length name) :: u32) = 8 + length name" "unat (of_nat (8 + strlen name + 1) :: u32) = 9 + length name"
    using assms(1,2) by (subst unat_of_nat_u32; simp add: plain_simps)+
  show "9 + length name \<le> unat dlen" using align_ge [of "of_nat (8 + strlen name + 1)", unfolded u] assms(2) d by simp
  show "unat (align_dirent_len (of_nat (8 + length name))) \<le> unat dlen"
    unfolding d using assms(2) by (intro align_mono) (simp_all only: u, simp_all)
qed

text \<open>A new entry in a record that is not in use.\<close>

lemma recycled_ok:
  assumes "rec_ok r" "plain name" "length name \<le> 255" "ino \<noteq> 0" and d: "dlen = align_dirent_len (of_nat (8 + strlen name + 1))" "unat dlen < length r"
  shows "rec_ok (fill_entry ino name type 0 r)" "rec_entry (fill_entry ino name type 0 r) = (ino, type, name)"
    "8 + ent_name_len (fill_entry ino name type 0 r) 0 < length (fill_entry ino name type 0 r)"
proof -
  note dl = dlen_bounds [OF assms(2,3) d(1)]
  have "8 + length name \<le> length r" using dl d(2) by simp
  note f = fill_entry_fields [OF assms(2,3) this, of ino type]
  show "rec_entry (fill_entry ino name type 0 r) = (ino, type, name)" using f assms(2) by (simp add: rec_entry_def plain_simps)
  show "8 + ent_name_len (fill_entry ino name type 0 r) 0 < length (fill_entry ino name type 0 r)" using f dl d(2) by simp
  show "rec_ok (fill_entry ino name type 0 r)" using assms(1) f dl d(2) by (simp add: rec_ok_def used_len_def)
qed

text \<open>A new entry behind the name of one that is in use: the record is split.\<close>

definition split_rec :: "u32 \<Rightarrow> u32 \<Rightarrow> string \<Rightarrow> u8 \<Rightarrow> u8 list \<Rightarrow> u8 list \<times> u8 list" where
  "split_rec dlen ino name type r =
     (put16 4 (of_nat (used_len r)) (take (used_len r) r),
      put16 4 (of_nat (length r - used_len r)) (fill_entry ino name type 0 (replicate (unat dlen) 0)) @ drop (used_len r + unat dlen) r)"

lemma ent_take:
  assumes "8 + ent_name_len r 0 \<le> n" "n \<le> length r"
  shows "ent_inode (take n r) 0 = ent_inode r 0" "ent_name_len (take n r) 0 = ent_name_len r 0" "ent_type (take n r) 0 = ent_type r 0"
    "ent_name (take n r) 0 = ent_name r 0"
  using ent_append0 [of "take n r" "drop n r"] assms
  by (simp_all add: ent_inode_def ent_name_len_def ent_type_def get32_def ent_name_def drop_take)

lemma split_rec_ok:
  assumes "rec_ok r" "ent_inode r 0 \<noteq> 0" "plain name" "length name \<le> 255" "ino \<noteq> 0"
    and d: "dlen = align_dirent_len (of_nat (8 + strlen name + 1))" "unat dlen < length r - used_len r"
    and s: "split_rec dlen ino name type r = (r1, r2)"
  shows "rec_ok r1" "rec_ok r2" "rec_entry r1 = rec_entry r" "ent_inode r1 0 \<noteq> 0" "rec_entry r2 = (ino, type, name)" "ent_inode r2 0 = ino"
    "8 + ent_name_len r2 0 < length r2" "length r1 + length r2 = length r"
proof -
  let ?u = "used_len r" and ?f = "fill_entry ino name type 0 (replicate (unat dlen) 0)"
  have u: "8 + ent_name_len r 0 \<le> ?u" "12 \<le> ?u" "?u \<le> 264" "?u \<le> length r" "length r < 65536"
    using used_len_bounds [of r] assms(1,2) rec_ok_length by (auto simp: rec_ok_def)
  have r1: "r1 = put16 4 (of_nat ?u) (take ?u r)" and r2: "r2 = put16 4 (of_nat (length r - ?u)) ?f @ drop (?u + unat dlen) r"
    using s by (simp_all add: split_rec_def)
  have l1: "length (take ?u r) = ?u" using u by simp
  note dl = dlen_bounds [OF assms(3,4) d(1)]
  have fl: "8 + length name \<le> length (replicate (unat dlen) (0 :: u8))" using dl by simp
  note f = fill_entry_fields [OF assms(3,4) fl, of ino type]
  have lf: "length ?f = unat dlen" "8 \<le> length ?f" using f(5) dl by simp_all
  show "length r1 + length r2 = length r" using u d(2) lf by (simp add: r1 r2)
  note t = ent_take [OF u(1,4)]
  have u16: "unat (of_nat ?u :: u16) = ?u" "unat (of_nat (length r - ?u) :: u16) = length r - ?u"
    using u by (simp_all add: unat_of_nat take_bit_nat_eq_self del: of_nat_diff)
  show i1: "ent_inode r1 0 \<noteq> 0" and e1: "rec_entry r1 = rec_entry r" using t l1 u assms(2) by (simp_all add: r1 rec_entry_def)
  have n1: "ent_name_len r1 0 = ent_name_len r 0" using t l1 u by (simp add: r1)
  then have "used_len r1 = ?u" by (simp add: used_len_def)
  then show "rec_ok r1" using u u16 n1 l1 by (simp add: rec_ok_def r1)
  note e2 = ent_append0 [of "put16 4 (of_nat (length r - ?u)) ?f" "drop (?u + unat dlen) r", folded r2]
  have n2: "ent_name_len r2 0 = length name" using e2 f lf by simp
  show i2: "ent_inode r2 0 = ino" using e2 f lf by simp
  show "rec_entry r2 = (ino, type, name)" using e2 f lf dl assms(3) by (simp add: rec_entry_def plain_simps)
  have l2: "length r2 = length r - ?u" using lf d(2) by (simp add: r2)
  then show "8 + ent_name_len r2 0 < length r2" using n2 dl d(2) by simp
  have "used_len r2 \<le> length r2" using n2 l2 dl d(2) by (simp add: used_len_def)
  then show "rec_ok r2" using e2(2) lf u16 n2 l2 dl d(2) by (simp add: rec_ok_def)
qed

lemma add_entry_split:
  assumes "rec_ok r" "ent_inode r 0 \<noteq> 0" "unat dlen < length r - used_len r" "8 + length name \<le> unat dlen" "plain name" "length name \<le> 255"
    and s: "split_rec dlen ino name type r = (r1, r2)"
  shows "add_entry (length xs) False dlen ino name type (xs @ r @ ys) = Ret (xs @ r1 @ r2 @ ys)"
proof -
  let ?u = "used_len r" and ?f = "fill_entry ino name type 0 (replicate (unat dlen) 0)"
  have u: "12 \<le> ?u" "?u \<le> 264" "?u \<le> length r" "8 \<le> length r" "length r < 65536" "unat (ent_record_len r 0) = length r"
    using used_len_bounds [of r] assms(1,2) rec_ok_length by (auto simp: rec_ok_def)
  have al: "align_dirent_len (of_nat (8 + ent_name_len r 0)) = of_nat ?u" by (simp add: used_len_def)
  have rl: "ucast (of_nat ?u :: u32) = (of_nat ?u :: u16)" using u by (simp add: word_unat_eq_iff unsigned_ucast_eq unat_of_nat take_bit_nat_eq_self)
  have u16: "unat (of_nat ?u :: u16) = ?u" using u by (simp add: unat_of_nat take_bit_nat_eq_self)
  have old: "ent_record_len r 0 = of_nat (length r)" using u(6) by (metis word_unat_eq_iff of_nat_unat ucast_id)
  have df: "ent_record_len r 0 - of_nat ?u = of_nat (length r - ?u)" using u(3) by (simp add: old of_nat_diff)
  have lf: "length ?f = unat dlen" using fill_entry_fields(5) [OF assms(5,6)] assms(4) by simp
  let ?n = "put16 4 (of_nat (length r - ?u)) ?f"
  have p: "put16 (length xs + 4) (of_nat ?u) (xs @ r @ ys) = xs @ put16 4 (of_nat ?u) r @ ys" using put_append(1) [of 4 r xs] u by simp
  have o: "overlay_at (length xs + ?u) ?n (xs @ put16 4 (of_nat ?u) r @ ys) = xs @ overlay_at ?u ?n (put16 4 (of_nat ?u) r) @ ys"
    using lf assms(3) by (intro overlay_at_append) simp
  have "overlay_at ?u ?n (put16 4 (of_nat ?u) r) = r1 @ r2"
    using s u lf by (simp add: split_rec_def overlay_at_def overlay_def put16_def take_update_swap drop_update_cancel) (auto simp: add.commute)
  then show ?thesis
    using u assms(3) lf p o by (simp add: add_entry_def ent_append Let_def al rl u16 df del: of_nat_add of_nat_diff)
qed

lemma dir_add:
  assumes ok: "dir_ok rs" and n: "plain name" "length name \<le> 255" "ino \<noteq> 0" and d: "dlen = align_dirent_len (of_nat (8 + strlen name + 1))"
    and rm: "\<exists>r \<in> set rs. unat dlen < room r"
  shows "\<exists>p b rs' es fs. add_search (concat rs) dlen 0 False = Ret (p, b) \<and> add_entry p b dlen ino name type (concat rs) = Ret (concat rs') \<and>
    length (concat rs') = length (concat rs) \<and> dir_ok rs' \<and> entries rs = es @ fs \<and> entries rs' = es @ (ino, type, name) # fs"
proof -
  obtain xs r ys where rs: "rs = xs @ r # ys" "unat dlen < room r" "\<forall>q \<in> set xs. \<not> unat dlen < room q"
    using split_list_first_propE [OF rm] by metis
  have o: "list_all rec_ok xs" "rec_ok r" "list_all rec_ok ys" using ok by (simp_all add: rs(1) dir_ok_append)
  have s: "add_search (concat rs) dlen 0 False = Ret (length (concat xs), ent_inode r 0 = 0)"
    using add_search_found [OF o(2) rs(2) o(1) rs(3), of "[]" "concat ys" False] by (simp add: rs(1))
  note dl = dlen_bounds [OF n(1,2) d]
  show ?thesis
  proof (cases "ent_inode r 0 = 0")
    case True
    let ?r = "fill_entry ino name type 0 r"
    have lt: "unat dlen < length r" using rs(2) True by (simp add: room_def)
    note rc = recycled_ok [OF o(2) n d lt, of type]
    have fl: "8 + length name \<le> length r" using dl lt by simp
    note f = fill_entry_fields [OF n(1,2) fl, of ino type]
    have a: "add_entry (length (concat xs)) True dlen ino name type (concat rs) = Ret (concat (xs @ ?r # ys))"
      using fill_entry_append [OF n(1,2) fl, of ino type "concat xs" "concat ys"] fl fill_entry_eq(2) [OF n(1,2)]
      by (simp add: add_entry_def rs(1) plain_simps [OF n(1)])
    have "dir_ok (xs @ ?r # ys)" using ok rc o by (auto simp: rs(1) dir_ok_append Let_def)
    moreover have "entries (xs @ ?r # ys) = entries xs @ (ino, type, name) # entries ys" using rc(2) f(1) n(3) by simp
    moreover have "entries rs = entries xs @ entries ys" using True by (simp add: rs(1))
    moreover have "length (concat (xs @ ?r # ys)) = length (concat rs)" using f(5) by (simp add: rs(1))
    moreover have "add_search (concat rs) dlen 0 False = Ret (length (concat xs), True)" using s True by simp
    ultimately show ?thesis using a by blast
  next
    case False
    have lt: "unat dlen < length r - used_len r" using rs(2) False by (simp add: room_def)
    obtain r1 r2 where sp: "split_rec dlen ino name type r = (r1, r2)" by fastforce
    note sr = split_rec_ok [OF o(2) False n(1,2,3) d lt sp]
    have d8: "8 + length name \<le> unat dlen" using dl by simp
    have a: "add_entry (length (concat xs)) False dlen ino name type (concat rs) = Ret (concat (xs @ r1 # r2 # ys))"
      using add_entry_split [OF o(2) False lt d8 n(1,2) sp, of "concat xs" "concat ys"] by (simp add: rs(1))
    have "dir_ok (xs @ r1 # r2 # ys)" using ok sr o by (auto simp: rs(1) dir_ok_def split: if_splits)
    moreover have "entries (xs @ r1 # r2 # ys) = (entries xs @ [rec_entry r]) @ (ino, type, name) # entries ys" using sr n(3) by simp
    moreover have "entries rs = (entries xs @ [rec_entry r]) @ entries ys" using False by (simp add: rs(1))
    moreover have "length (concat (xs @ r1 # r2 # ys)) = length (concat rs)" using sr(8) by (simp add: rs(1))
    moreover have "add_search (concat rs) dlen 0 False = Ret (length (concat xs), False)" using s False by simp
    ultimately show ?thesis using a by blast
  qed
qed

section \<open>Looking up\<close>

text \<open>The file of a directory holds the records \<open>rs\<close>.\<close>

definition dir_data :: "'d ext2_env \<Rightarrow> u8 list \<Rightarrow> 'd ext2_fs \<Rightarrow> u8 list \<Rightarrow> u8 list list \<Rightarrow> bool" where
  "dir_data E D s inode rs \<longleftrightarrow> blk_ok s \<and> tables_inside E D s inode \<and> dir_ok rs \<and> unat (get32 inode in_size) = length (concat rs) \<and>
     (\<forall>x < length (concat rs). file_block E D s inode (x div bsz s) \<and> file_byte E D s inode x = concat rs ! x)"

text \<open>The window shows a part of the directory.\<close>

definition win_ok :: "u8 list \<Rightarrow> rd_r \<Rightarrow> bool" where
  "win_ok b r \<longleftrightarrow> length (rd_buf r) = 0x200 \<and> unat (read_len r) \<le> 0x200 \<and>
     (\<forall>k < unat (read_len r). unat (read_off r) + k < length b \<and> rd_buf r ! k = b ! (unat (read_off r) + k))"

lemma window_entry:
  assumes w: "win_ok (concat (xs @ R # ys)) r" and p: "p = length (concat xs)" "unat (read_off r) \<le> p" "p - unat (read_off r) + 8 < unat (read_len r)"
    and R: "8 + ent_name_len R 0 \<le> length R"
  defines "q \<equiv> p - unat (read_off r)"
  shows "ent_inode (rd_buf r) q = ent_inode R 0" "ent_record_len (rd_buf r) q = ent_record_len R 0" "ent_name_len (rd_buf r) q = ent_name_len R 0"
    "ent_type (rd_buf r) q = ent_type R 0"
    "q + 8 + ent_name_len R 0 < unat (read_len r) \<Longrightarrow> take (ent_name_len R 0) (drop (q + 8) (rd_buf r)) = take (ent_name_len R 0) (drop 8 R)"
proof -
  have b: "rd_buf r ! (q + j) = R ! j" if "q + j < unat (read_len r)" "j < length R" for j
  proof -
    have "rd_buf r ! (q + j) = concat (xs @ R # ys) ! (unat (read_off r) + (q + j))" using w that(1) by (simp add: win_ok_def)
    also have "unat (read_off r) + (q + j) = length (concat xs) + j" using p by (simp add: q_def)
    finally show ?thesis using that(2) by (simp add: nth_append)
  qed
  have h: "rd_buf r ! (q + j) = R ! j" if "j < 8" for j using b [of j] that p(3) R by (simp add: q_def)
  have "get32 (rd_buf r) q = get32 R 0" by (rule get32_cong) (use h [of 0] h [of 1] h [of 2] h [of 3] in \<open>simp_all add: numeral_2_eq_2\<close>)
  then show "ent_inode (rd_buf r) q = ent_inode R 0" by (simp add: ent_inode_def)
  have "get16 (rd_buf r) (q + 4) = get16 R 4" by (rule get16_cong) (use h [of 4] h [of 5] in \<open>simp_all add: add.commute\<close>)
  then show "ent_record_len (rd_buf r) q = ent_record_len R 0" by (simp add: ent_record_len_def)
  show "ent_name_len (rd_buf r) q = ent_name_len R 0" "ent_type (rd_buf r) q = ent_type R 0" using h [of 6] h [of 7] by (simp_all add: ent_name_len_def ent_type_def)
  assume n: "q + 8 + ent_name_len R 0 < unat (read_len r)"
  show "take (ent_name_len R 0) (drop (q + 8) (rd_buf r)) = take (ent_name_len R 0) (drop 8 R)"
  proof (rule nth_equalityI)
    have "unat (read_len r) \<le> length (rd_buf r)" using w by (simp add: win_ok_def)
    then show "length (take (ent_name_len R 0) (drop (q + 8) (rd_buf r))) = length (take (ent_name_len R 0) (drop 8 R))" using n R by simp
    fix k assume "k < length (take (ent_name_len R 0) (drop (q + 8) (rd_buf r)))"
    then have k: "k < ent_name_len R 0" "q + 8 + k < length (rd_buf r)" by (simp_all add: less_diff_conv add.commute)
    show "take (ent_name_len R 0) (drop (q + 8) (rd_buf r)) ! k = take (ent_name_len R 0) (drop 8 R) ! k"
      using b [of "8 + k"] k n R by (simp add: add.assoc)
  qed
qed

lemma readdir_fill_ok:
  assumes dev: "dev_ok E disk" and d: "dir_data E (disk (medium s)) s inode rs" and w: "win_ok (concat rs) r"
    and p: "unat (read_off r) \<le> unat p" "unat p + 8 < length (concat rs)"
  shows "\<exists>r'. readdir_fill E inode p r s = Ret (True, r', s) \<and> win_ok (concat rs) r' \<and> unat (read_off r') \<le> unat p \<and>
    unat p - unat (read_off r') + 8 < unat (read_len r') \<and>
    (unat (read_len r) = 0 \<longrightarrow> unat (read_off r') = unat p \<and> unat (read_len r') = min 0x200 (length (concat rs) - unat p))"
proof -
  let ?D = "disk (medium s)" and ?b = "concat rs" and ?Z = "length (concat rs)"
  have Z: "unat (get32 inode in_size) = ?Z" "blk_ok s" using d by (simp_all add: dir_data_def)
  have Z32: "?Z < 2 ^ 32" using Z(1) unat_u32_less [of "get32 inode in_size"] by (simp del: unat_u32_less)
  have le: "ucast (read_off r) \<le> p" using p(1) by (simp add: word_le_nat_alt)
  have do: "unat (dirent_off p r) = unat p - unat (read_off r)" using le by (simp add: dirent_off_def unat_u64_sub)
  have d8: "unat (dirent_off p r + 8) = unat p - unat (read_off r) + 8" using p(2) Z32 by (subst unat_u64_add) (simp_all add: do)
  show ?thesis
  proof (cases "dirent_off p r + 8 < ucast (read_len r)")
    case True
    then show ?thesis using w p d8 by (auto simp: readdir_fill_def word_less_nat_alt)
  next
    case False
    let ?n = "min 0x200 (ucast (get32 inode in_size) - p)" and ?rs = "ucast (min 0x200 (ucast (get32 inode in_size) - p)) :: u32"
    have lt: "p \<le> ucast (get32 inode in_size)" "\<not> ucast (get32 inode in_size) \<le> p" using p(2) Z(1) by (simp_all add: word_le_nat_alt)
    have "unat (ucast (get32 inode in_size) - p) = ?Z - unat p" using lt(1) by (simp add: unat_u64_sub Z(1))
    then have n: "unat ?n = min 0x200 (?Z - unat p)" by (simp add: min_def word_le_nat_alt)
    then have rsz: "unat ?rs = min 0x200 (?Z - unat p)" by (simp add: unsigned_ucast_eq take_bit_nat_eq_self)
    have B: "1024 \<le> bsz s" using bsz_bounds [OF Z(2)] by simp
    have "readable E ?D s inode (unat p) (unat ?rs)"
      unfolding readable_def rsz using d p(2) Z32 B by (auto simp: dir_data_def min_def split: if_splits)
    moreover have "unat ?rs \<le> length (rd_buf r)" using w rsz by (simp add: win_ok_def)
    ultimately obtain buf where buf: "ext2_inode_read_data E inode p ?rs (rd_buf r) s = Ret (True, buf, s)" "length buf = length (rd_buf r)"
        "\<forall>k < length (rd_buf r). buf ! k = (if k < unat ?rs then file_byte E ?D s inode (unat p + k) else rd_buf r ! k)"
      using read_data_ok [OF dev, of s inode p ?rs "rd_buf r"] by blast
    let ?r = "r\<lparr>rd_buf := buf, read_off := ucast p, read_len := ?rs\<rparr>"
    have off: "unat (ucast p :: u32) = unat p" using p(2) Z32 by (simp add: unsigned_ucast_eq take_bit_nat_eq_self)
    have "win_ok ?b ?r" unfolding win_ok_def
    proof (intro conjI allI impI)
      show "length (rd_buf ?r) = 0x200" using w buf(2) by (simp add: win_ok_def)
      show "unat (read_len ?r) \<le> 0x200" by (simp add: rsz)
      fix k assume "k < unat (read_len ?r)"
      then have k: "k < 0x200" "unat p + k < ?Z" "k < unat ?rs" by (simp_all add: rsz less_diff_conv add.commute)
      then show "unat (read_off ?r) + k < ?Z" by (simp add: off)
      show "rd_buf ?r ! k = ?b ! (unat (read_off ?r) + k)" using k buf(3) w d by (simp add: off win_ok_def dir_data_def)
    qed
    moreover have "readdir_fill E inode p r s = Ret (True, ?r, s)" using False lt(2) buf(1) by (simp add: readdir_fill_def Let_def)
    ultimately show ?thesis using rsz off p(2) by (intro exI [of _ ?r]) auto
  qed
qed

text \<open>The entry is taken from a window that holds it.\<close>

lemma to_vfs_dirent_cong:
  assumes "ent_inode b q = ent_inode R 0" "ent_name_len b q = ent_name_len R 0" "ent_type b q = ent_type R 0"
    "take (ent_name_len R 0) (drop (q + 8) b) = take (ent_name_len R 0) (drop 8 R)"
  shows "to_vfs_dirent b q = to_vfs_dirent R 0"
  using assms by (simp add: to_vfs_dirent_def Let_def)

lemma readdir_step:
  assumes dev: "dev_ok E disk" and d: "dir_data E (disk (medium s)) s inode (xs @ R # ys)" and w: "win_ok (concat (xs @ R # ys)) r"
    and p: "unat p = length (concat xs)" "unat (read_off r) \<le> unat p"
  shows "\<exists>r'. win_ok (concat (xs @ R # ys)) r' \<and> unat (read_off r') \<le> unat p + length R \<and>
    readdir_loop E inode p r s =
      (if ent_inode R 0 = 0 then readdir_loop E inode (p + of_nat (length R)) r' s
       else Some (Ret (Some (to_vfs_dirent R 0), p + of_nat (length R), r', s)))"
proof -
  let ?b = "concat (xs @ R # ys)" and ?nl = "ent_name_len R 0"
  have R: "rec_ok R" "8 + ?nl \<le> length R" "unat (ent_record_len R 0) = length R" using d by (auto simp: dir_data_def dir_ok_append rec_ok_def)
  have Z: "unat p + 8 + ?nl < length ?b"
  proof (cases "ys = []")
    case True
    then show ?thesis using d p(1) by (simp add: dir_data_def dir_ok_append)
  next
    case False
    then have "8 \<le> length (hd ys)" using d rec_ok_length by (cases ys) (auto simp: dir_data_def dir_ok_append)
    then have "8 \<le> length (concat ys)" using False by (cases ys) auto
    then show ?thesis using p(1) R(2) by simp
  qed
  have p32: "unat p < 2 ^ 32" using Z d unat_u32_less [of "get32 inode in_size"] by (simp add: dir_data_def del: unat_u32_less)
  have rl: "(ucast (ent_record_len R 0) :: u64) = of_nat (length R)"
    using R(3) by (metis unat_ucast_rl of_nat_unat ucast_id)
  have entry: "\<exists>r'. win_ok ?b r' \<and> unat (read_off r') \<le> unat p + length R \<and>
      readdir_loop E inode p r0 s =
      (if ent_inode R 0 = 0 then readdir_loop E inode (p + of_nat (length R)) r' s
       else Some (Ret (Some (to_vfs_dirent R 0), p + of_nat (length R), r', s)))"
    if f: "readdir_fill E inode p r0 s = Ret (True, r1, s)" "win_ok ?b r1" "unat (read_off r1) \<le> unat p"
      "unat p - unat (read_off r1) + 8 + ?nl < unat (read_len r1)" for r0 r1
  proof -
    let ?q = "unat p - unat (read_off r1)" and ?r = "r1\<lparr>last_len := ucast (ent_record_len R 0)\<rparr>"
    have q8: "?q + 8 < unat (read_len r1)" using f(4) by simp
    note we = window_entry [OF f(2) p(1) f(3) q8 R(2)]
    have do: "unat (dirent_off p r1) = ?q" using f(3) by (simp add: dirent_off_def unat_u64_sub word_le_nat_alt)
    have ln: "\<not> length (rd_buf r1) < ?q + 8" using f(2) q8 by (simp add: win_ok_def)
    have v: "to_vfs_dirent (rd_buf r1) ?q = to_vfs_dirent R 0" using we f(4) by (intro to_vfs_dirent_cong) simp_all
    have "win_ok ?b ?r" using f(2) by (simp add: win_ok_def)
    moreover have "readdir_loop E inode p r0 s = (if ent_inode R 0 = 0 then readdir_loop E inode (p + of_nat (length R)) ?r s
       else Some (Ret (Some (to_vfs_dirent R 0), p + of_nat (length R), ?r, s)))"
      using f(4) ln we(1-3) v by (subst readdir_loop.simps) (simp add: f(1) do Let_def rl)
    ultimately show ?thesis using f(3) by (intro exI [of _ ?r]) simp
  qed
  have Z8: "unat p + 8 < length ?b" using Z by simp
  obtain r1 where r1: "readdir_fill E inode p r s = Ret (True, r1, s)" "win_ok ?b r1" "unat (read_off r1) \<le> unat p"
      "unat p - unat (read_off r1) + 8 < unat (read_len r1)"
    using readdir_fill_ok [OF dev d w p(2) Z8] by blast
  show ?thesis
  proof (cases "unat p - unat (read_off r1) + 8 + ?nl < unat (read_len r1)")
    case True
    then show ?thesis by (rule entry [OF r1(1-3)])
  next
    case False
    let ?q = "unat p - unat (read_off r1)" and ?r0 = "r1\<lparr>read_len := 0\<rparr>"
    have do: "unat (dirent_off p r1) = ?q" using r1(3) by (simp add: dirent_off_def unat_u64_sub word_le_nat_alt)
    have ln: "\<not> length (rd_buf r1) < ?q + 8" using r1(2,4) by (simp add: win_ok_def)
    have nl: "ent_name_len (rd_buf r1) ?q = ?nl" by (rule window_entry(3) [OF r1(2) p(1) r1(3,4) R(2)])
    have again: "readdir_loop E inode p r s = readdir_loop E inode p ?r0 s"
      using False ln nl by (subst readdir_loop.simps) (simp add: r1(1) do Let_def)
    have w0: "win_ok ?b ?r0" "unat (read_off ?r0) \<le> unat p" using r1(2,3) by (simp_all add: win_ok_def)
    obtain r2 where r2: "readdir_fill E inode p ?r0 s = Ret (True, r2, s)" "win_ok ?b r2" "unat (read_off r2) = unat p"
        "unat (read_len r2) = min 0x200 (length ?b - unat p)"
      using readdir_fill_ok [OF dev d w0 Z8] by auto
    have "unat p - unat (read_off r2) + 8 + ?nl < unat (read_len r2)" using r2(3,4) Z ent_name_len_less [of R 0] by simp
    then show ?thesis unfolding again using r2 by (intro entry [OF r2(1,2)]) simp_all
  qed
qed

lemma readdir_end:
  assumes "dir_data E D s inode rs" "win_ok (concat rs) r" "unat p = length (concat rs)" "unat (read_off r) \<le> unat p"
  shows "readdir_loop E inode p r s = Some (Ret (None, p, r, s))"
proof -
  let ?Z = "length (concat rs)"
  have Z: "unat (get32 inode in_size) = ?Z" using assms(1) by (simp add: dir_data_def)
  have Z32: "?Z < 2 ^ 32" using Z unat_u32_less [of "get32 inode in_size"] by (simp del: unat_u32_less)
  have do: "unat (dirent_off p r) = ?Z - unat (read_off r)" using assms(3,4) by (simp add: dirent_off_def unat_u64_sub word_le_nat_alt)
  have d8: "unat (dirent_off p r + 8) = ?Z - unat (read_off r) + 8" using Z32 by (subst unat_u64_add) (simp_all add: do)
  have "unat (read_len r) \<le> ?Z - unat (read_off r)"
  proof (rule ccontr)
    assume "\<not> ?thesis"
    then have "unat (read_off r) + (?Z - unat (read_off r)) < ?Z" using assms(2) by (auto simp: win_ok_def)
    then show False using assms(3,4) by simp
  qed
  then have "\<not> dirent_off p r + 8 < ucast (read_len r)" using d8 by (simp add: word_less_nat_alt)
  moreover have "ucast (get32 inode in_size) \<le> p" using assms(3) Z by (simp add: word_le_nat_alt)
  ultimately show ?thesis by (subst readdir_loop.simps) (simp add: readdir_fill_def)
qed

text \<open>The next record in use, if there is one.\<close>

lemma readdir_next:
  assumes dev: "dev_ok E disk"
  shows "dir_data E (disk (medium s)) s inode (xs @ ys) \<Longrightarrow> win_ok (concat (xs @ ys)) r \<Longrightarrow> unat p = length (concat xs) \<Longrightarrow> unat (read_off r) \<le> unat p \<Longrightarrow>
    (\<forall>R \<in> set ys. ent_inode R 0 = 0) \<and> (\<exists>p' r'. readdir_loop E inode p r s = Some (Ret (None, p', r', s))) \<or>
    (\<exists>us R zs p' r'. ys = us @ R # zs \<and> (\<forall>U \<in> set us. ent_inode U 0 = 0) \<and> ent_inode R 0 \<noteq> 0 \<and>
       readdir_loop E inode p r s = Some (Ret (Some (to_vfs_dirent R 0), p', r', s)) \<and>
       win_ok (concat (xs @ ys)) r' \<and> unat p' = length (concat (xs @ us @ [R])) \<and> unat (read_off r') \<le> unat p')"
proof (induction ys arbitrary: xs r p)
  case Nil
  then show ?case using readdir_end [of E "disk (medium s)" s inode xs r p] by auto
next
  case (Cons R ys)
  obtain r' where r': "win_ok (concat (xs @ R # ys)) r'" "unat (read_off r') \<le> unat p + length R"
      "readdir_loop E inode p r s = (if ent_inode R 0 = 0 then readdir_loop E inode (p + of_nat (length R)) r' s
       else Some (Ret (Some (to_vfs_dirent R 0), p + of_nat (length R), r', s)))"
    using readdir_step [OF dev Cons.prems] by blast
  have "rec_ok R" using Cons.prems(1) by (simp add: dir_data_def dir_ok_append)
  then have "length R < 65536" using rec_ok_length by blast
  moreover have "length (concat xs) < 2 ^ 32"
  proof -
    have "length (concat (xs @ R # ys)) < 2 ^ 32"
      using Cons.prems(1) unat_u32_less [of "get32 inode in_size"] by (simp add: dir_data_def del: unat_u32_less)
    then show ?thesis by simp
  qed
  ultimately have u: "unat (p + of_nat (length R)) = length (concat (xs @ [R]))"
    using Cons.prems(3) by (subst unat_u64_add) (simp_all add: unat_of_nat take_bit_nat_eq_self)
  show ?case
  proof (cases "ent_inode R 0 = 0")
    case False
    have "unat (read_off r') \<le> unat (p + of_nat (length R))" "unat (p + of_nat (length R)) = length (concat (xs @ [] @ [R]))"
      using r'(2) u Cons.prems(3) by simp_all
    moreover have "R # ys = [] @ R # ys" "\<forall>U \<in> set []. ent_inode U 0 = 0" by simp_all
    ultimately show ?thesis using r'(1) False r'(3) [unfolded if_not_P [OF False]] by blast
  next
    case True
    have "unat (read_off r') \<le> unat (p + of_nat (length R))" using r'(2) u Cons.prems(3) by simp
    with Cons.IH [of "xs @ [R]" r' "p + of_nat (length R)"] Cons.prems(1) r'(1) u True
    consider "\<forall>R \<in> set ys. ent_inode R 0 = 0" "\<exists>p' r''. readdir_loop E inode (p + of_nat (length R)) r' s = Some (Ret (None, p', r'', s))"
      | us Q zs p' r'' where "ys = us @ Q # zs" "\<forall>U \<in> set us. ent_inode U 0 = 0" "ent_inode Q 0 \<noteq> 0"
       "readdir_loop E inode (p + of_nat (length R)) r' s = Some (Ret (Some (to_vfs_dirent Q 0), p', r'', s))"
       "win_ok (concat ((xs @ [R]) @ ys)) r''" "unat p' = length (concat ((xs @ [R]) @ us @ [Q]))" "unat (read_off r'') \<le> unat p'"
      by auto
    then show ?thesis
    proof cases
      case 1
      then show ?thesis using r'(3) True by auto
    next
      case 2
      then show ?thesis using r'(3) True
        by (intro disjI2 exI [of _ "R # us"] exI [of _ Q] exI [of _ zs] exI [of _ p'] exI [of _ r'']) simp
    qed
  qed
qed

lemma c_string_nul: "c_string (x @ NUL # z) = c_string x"
  by (induction x) (simp_all add: c_string_def)

lemma to_vfs_dirent_fields:
  assumes "8 + ent_name_len R 0 \<le> length R"
  shows "c_string (d_name (to_vfs_dirent R 0)) = c_string (ent_name R 0)" "ent_inode (to_vfs_dirent R 0) 0 = ent_inode R 0"
    "ent_type (to_vfs_dirent R 0) 0 = 0"
proof -
  let ?n = "ent_name_len R 0"
  define h where "h = put16 8 (of_nat (11 + ?n + 2)) ((put32 0 (ent_inode R 0) (replicate (11 + ?n + 2) 0))[10 := ent_type R 0])"
  have lh: "length h = 13 + ?n" by (simp add: h_def)
  have ln: "length (take ?n (drop 8 R)) = ?n" using assms by simp
  have v: "to_vfs_dirent R 0 = (overlay_at 11 (take ?n (drop 8 R)) h)[11 + ?n := 0]" by (simp add: to_vfs_dirent_def Let_def h_def)
  also have "\<dots> = take 11 h @ take ?n (drop 8 R) @ 0 # drop (12 + ?n) h"
    using lh ln by (simp add: overlay_at_def overlay_def list_update_append upd_conv_take_nth_drop add.commute)
  finally have e: "to_vfs_dirent R 0 = take 11 h @ take ?n (drop 8 R) @ 0 # drop (12 + ?n) h" .
  have "d_name (to_vfs_dirent R 0) = ent_name R 0 @ NUL # chars (drop (12 + ?n) h)"
    using lh by (simp add: d_name_def e ent_name_def chars_def char_of_0)
  then show "c_string (d_name (to_vfs_dirent R 0)) = c_string (ent_name R 0)" by (simp add: c_string_nul)
  have k: "to_vfs_dirent R 0 ! j = h ! j" if "j < 11" for j using that lh by (simp add: e nth_append)
  have "get32 (to_vfs_dirent R 0) 0 = get32 h 0" by (rule get32_cong) (use k in simp_all)
  also have "\<dots> = get32 (put32 0 (ent_inode R 0) (replicate (11 + ?n + 2) 0)) 0"
    by (rule get32_cong) (simp_all add: h_def nth_put16)
  also have "\<dots> = ent_inode R 0" by simp
  finally show "ent_inode (to_vfs_dirent R 0) 0 = ent_inode R 0" by (simp add: ent_inode_def)
  show "ent_type (to_vfs_dirent R 0) 0 = 0" using k [of 7] by (simp add: ent_type_def h_def nth_put16 nth_put32)
qed

section \<open>Searching for a name\<close>

definition lookup_entry :: "string \<Rightarrow> u8 list list \<Rightarrow> u32 option" where
  "lookup_entry name rs = map_option fst (find (\<lambda>e. snd (snd e) = name) (entries rs))"

lemma lookup_entry_simps:
  "lookup_entry name [] = None"
  "lookup_entry name (R # rs) = (if ent_inode R 0 \<noteq> 0 \<and> c_string (ent_name R 0) = name then Some (ent_inode R 0) else lookup_entry name rs)"
  by (simp_all add: lookup_entry_def rec_entry_def)

lemma lookup_entry_unused: "\<forall>R \<in> set us. ent_inode R 0 = 0 \<Longrightarrow> lookup_entry name (us @ ys) = lookup_entry name ys"
  by (induction us) (simp_all add: lookup_entry_simps)

lemma search_loop_ok:
  assumes dev: "dev_ok E disk" and n: "plain name"
  shows "dir_data E (disk (medium s)) s inode (xs @ ys) \<Longrightarrow> win_ok (concat (xs @ ys)) r \<Longrightarrow> unat p = length (concat xs) \<Longrightarrow> unat (read_off r) \<le> unat p \<Longrightarrow>
    \<exists>ent. search_loop E inode name p r s = Some (Ret (ent, s)) \<and> map_option (\<lambda>d. ent_inode d 0) ent = lookup_entry name ys"
proof (induction "length ys" arbitrary: xs ys r p rule: less_induct)
  case less
  from readdir_next [OF dev less.prems] show ?case
  proof (elim disjE conjE exE)
    fix p' r' assume u: "\<forall>R \<in> set ys. ent_inode R 0 = 0" "readdir_loop E inode p r s = Some (Ret (None, p', r', s))"
    have "lookup_entry name ys = None" using lookup_entry_unused [OF u(1), of name "[]"] by (simp add: lookup_entry_simps)
    then show ?thesis using u(2) by (subst search_loop.simps) (simp add: ext2_readdir_r_def)
  next
    fix us R zs p' r'
    assume f: "ys = us @ R # zs" "\<forall>U \<in> set us. ent_inode U 0 = 0" "ent_inode R 0 \<noteq> 0"
      "readdir_loop E inode p r s = Some (Ret (Some (to_vfs_dirent R 0), p', r', s))"
      "win_ok (concat (xs @ ys)) r'" "unat p' = length (concat (xs @ us @ [R]))" "unat (read_off r') \<le> unat p'"
    have "8 + ent_name_len R 0 \<le> length R" using less.prems(1) by (simp add: f(1) dir_data_def dir_ok_def rec_ok_def)
    note v = to_vfs_dirent_fields [OF this]
    have st: "search_loop E inode name p r s =
        (if c_string (ent_name R 0) = name then Some (Ret (Some (to_vfs_dirent R 0), s)) else search_loop E inode name p' r' s)"
      by (subst search_loop.simps) (simp add: ext2_readdir_r_def f(4) strcmp_zero v plain_simps [OF n])
    have le: "lookup_entry name ys = (if c_string (ent_name R 0) = name then Some (ent_inode R 0) else lookup_entry name zs)"
      using f(3) lookup_entry_unused [OF f(2)] by (simp add: f(1) lookup_entry_simps)
    show ?thesis
    proof (cases "c_string (ent_name R 0) = name")
      case True
      then show ?thesis using st le v(2) by simp
    next
      case False
      have e: "xs @ ys = (xs @ us @ [R]) @ zs" by (simp add: f(1))
      have "\<exists>ent. search_loop E inode name p' r' s = Some (Ret (ent, s)) \<and> map_option (\<lambda>d. ent_inode d 0) ent = lookup_entry name zs"
        using less.prems(1) f(5) unfolding e by (intro less.hyps [OF _ _ _ f(6,7)]) (simp_all add: f(1))
      then show ?thesis using False st le by simp
    qed
  qed
qed

lemma win_ok_new: "win_ok b new_rd_r"
  by (simp add: win_ok_def new_rd_r_def)

lemma search_dir_ok:
  assumes "dev_ok E disk" "dir_data E (disk (medium s)) s inode rs" "plain name"
  shows "\<exists>ent. search_dir E inode name s = Ret (ent, s) \<and> map_option (\<lambda>d. ent_inode d 0) ent = lookup_entry name rs"
proof -
  have "\<exists>ent. search_loop E inode name 0 new_rd_r s = Some (Ret (ent, s)) \<and> map_option (\<lambda>d. ent_inode d 0) ent = lookup_entry name rs"
    by (rule search_loop_ok [OF assms(1,3), where xs = "[]"]) (use assms(2) in \<open>simp_all add: win_ok_new\<close>, simp add: new_rd_r_def)
  then show ?thesis by (auto simp: search_dir_def)
qed

section \<open>Directories on the device\<close>

lemma dir_data_medium [simp]: "dir_data E D (s\<lparr>medium := w\<rparr>) inode rs = dir_data E D s inode rs"
  by (simp add: dir_data_def)

lemma dir_readable: "dir_data E D s inode rs \<Longrightarrow> readable E D s inode (unat (0 :: u64)) (unat (get32 inode in_size))"
  using unat_u32_less [of "get32 inode in_size"] by (auto simp: dir_data_def readable_def simp del: unat_u32_less)

lemma read_dir_ok:
  assumes "dev_ok E disk" "dir_data E (disk (medium s)) s inode rs"
  shows "read_dir E inode s = Ret (True, concat rs, s)"
proof -
  let ?n = "unat (get32 inode in_size)"
  have n: "?n = length (concat rs)" "length (e_junk E ?n) = ?n" using assms by (simp_all add: dir_data_def dev_ok_def)
  then have le: "?n \<le> length (e_junk E ?n)" by simp
  obtain b where b: "ext2_inode_read_data E inode 0 (get32 inode in_size) (e_junk E ?n) s = Ret (True, b, s)" "length b = length (e_junk E ?n)"
      "\<forall>k < length (e_junk E ?n). b ! k = (if k < ?n then file_byte E (disk (medium s)) s inode (unat (0 :: u64) + k) else e_junk E ?n ! k)"
    using read_data_ok [OF assms(1) dir_readable [OF assms(2)] le] by blast
  have "b = concat rs" using b(2,3) n assms(2) by (intro nth_equalityI) (simp_all add: dir_data_def)
  then show ?thesis using b(1) by (simp add: read_dir_def)
qed

lemma write_dir_ok:
  assumes dev: "dev_ok E disk" and d: "dir_data E (disk (medium s)) s inode rs" and o: "own_blocks E (disk (medium s)) s inode" "num \<noteq> 0"
    and rs': "dir_ok rs'" "length (concat rs') = length (concat rs)"
  obtains w where "ext2_inode_data_rw E inode num 0 (get32 inode in_size) (concat rs') s = Ret (True, concat rs', inode, s\<lparr>medium := w\<rparr>)"
    "dir_data E (disk w) s inode rs'" "own_blocks E (disk w) s inode"
proof -
  have l: "unat (get32 inode in_size) = length (concat rs')" using d rs'(2) by (simp add: dir_data_def)
  obtain w where w: "ext2_inode_data_rw E inode num 0 (get32 inode in_size) (concat rs') s = Ret (True, concat rs', inode, s\<lparr>medium := w\<rparr>)"
      "written E s inode (unat (0 :: u64)) (concat rs') 0 (unat (get32 inode in_size)) (disk (medium s)) (disk w)"
    using write_data_ok [OF dev dir_readable [OF d] _ o(2,1), of "concat rs'"] l by auto
  have "dir_data E (disk w) s inode rs'"
    using d w(2) rs' l written_file_block [OF w(2)] by (auto simp: dir_data_def written_def)
  then show thesis using that w by (simp add: written_def)
qed

lemma rm_entry_length [simp]: "length (rm_entry p prev b) = length b"
  by (simp add: rm_entry_def Let_def split: option.splits)

section \<open>A small directory\<close>

text \<open>The root directory in block 4: one record of 1024 bytes with the name \<^verbatim>\<open>.\<close>.\<close>

definition dot_record :: "u8 list" where
  "dot_record = (put16 4 1024 (put32 0 2 (replicate 1024 0)))[6 := 1, 7 := 2, 8 := 46]"

definition root_disk :: "u8 list" where
  "root_disk = replace_bytes (replicate 8704 0) 4608 dot_record"

abbreviation root_fs :: "u8 list ext2_fs" where
  "root_fs \<equiv> ram_fs (Some (test_inode 1024)) root_disk"

lemma dot_record_length: "length dot_record = 1024"
  by (simp add: dot_record_def)

lemma dot_record_fields:
  "ent_inode dot_record 0 = 2" "ent_record_len dot_record 0 = 1024" "ent_name_len dot_record 0 = 1" "ent_type dot_record 0 = 2" "ent_name dot_record 0 = ''.''"
proof -
  have nth: "dot_record ! k = (put16 4 1024 (put32 0 2 (replicate 1024 0))) ! k" if "k < 6" for k using that by (simp add: dot_record_def)
  have "get32 dot_record 0 = get32 (put16 4 1024 (put32 0 2 (replicate 1024 0))) 0" by (rule get32_cong) (simp_all add: nth)
  then show "ent_inode dot_record 0 = 2" by (simp add: ent_inode_def)
  have "get16 dot_record 4 = get16 (put16 4 1024 (put32 0 2 (replicate 1024 0))) 4" by (rule get16_cong) (simp_all add: nth)
  then show "ent_record_len dot_record 0 = 1024" by (simp add: ent_record_len_def)
  show l: "ent_name_len dot_record 0 = 1" and "ent_type dot_record 0 = 2" by (simp_all add: ent_name_len_def ent_type_def dot_record_def)
  have "drop 8 dot_record = dot_record ! 8 # drop 9 dot_record" using Cons_nth_drop_Suc [of 8 dot_record] by (simp add: dot_record_length)
  moreover have "dot_record ! 8 = 46" by (simp add: dot_record_def)
  moreover have "char_of (46 :: nat) = CHR ''.''" by code_simp
  ultimately show "ent_name dot_record 0 = ''.''" by (simp add: ent_name_def l chars_def)
qed

lemma root_entries: "entries [dot_record] = [(2, 2, ''.'')]"
  by (simp add: dot_record_fields rec_entry_def c_string_def NUL_def)

lemma root_dir_data: "dir_data ram_env root_disk root_fs (test_inode 1024) [dot_record]"
proof -
  have u: "used_len dot_record = 12" by (simp add: used_len_def dot_record_fields align_dirent_len_def)
  have sz: "get32 (test_inode 1024) in_size = 1024" by (simp add: test_inode_def in_size_def in_blocks_def)
  have l: "length root_disk = 8704" by (simp add: root_disk_def dot_record_length)
  have b: "file_byte ram_env root_disk root_fs (test_inode 1024) x = dot_record ! x" if "x < 1024" for x
    using that by (simp add: file_byte_def test_layout root_disk_def replace_nth dot_record_length)
  show ?thesis unfolding dir_data_def
  proof (intro conjI allI impI)
    show "dir_ok [dot_record]" by (simp add: dir_ok_def rec_ok_def dot_record_fields dot_record_length u)
    fix x assume "x < length (concat [dot_record])"
    then have x: "x < 1024" by (simp add: dot_record_length)
    then show "file_byte ram_env root_disk root_fs (test_inode 1024) x = concat [dot_record] ! x" using b by simp
    show "file_block ram_env root_disk root_fs (test_inode 1024) (x div bsz root_fs)"
      using x by (simp add: file_block_def test_layout ram_block_inside l)
  qed (simp_all add: test_layout sz dot_record_length)
qed

lemma root_read:
  assumes "length i = 256"
  shows "ext2_inode_read ram_env (inode_buf ram_env (ram_fs (Some i) D)) 2 (ram_fs (Some i) D) = Ret (True, i, ram_fs (Some i) D)"
proof -
  have "length (inode_buf ram_env (ram_fs (Some i) D)) = 256" by (simp add: inode_buf_def ram_env_def)
  moreover have "root_inode (ram_fs (Some i) D) = Some i" by (simp add: ram_fs_def)
  ultimately show ?thesis using assms by (simp add: ext2_inode_read_def ROOT_INODE_def overlay_def)
qed

lemma root_inode_read: "ext2_inode_read ram_env (inode_buf ram_env root_fs) 2 root_fs = Ret (True, test_inode 1024, root_fs)"
  by (rule root_read) (simp add: test_inode_def)

section \<open>Changing directories\<close>

text \<open>
  C4. \<^verbatim>\<open>ext2_dirent_rm\<close> refines the removal from a list of entries: on a directory whose records are well-formed it removes exactly the first entry with
  the given name and keeps all others in order, on the device, and what it leaves there is a well-formed directory again.
\<close>

theorem dirent_rm_refines:
  assumes dev: "dev_ok E disk" and r: "ext2_inode_read E (inode_buf E s) num s = Ret (True, inode, s1)" "num \<noteq> 0"
    and d: "dir_data E (disk (medium s1)) s1 inode rs" "own_blocks E (disk (medium s1)) s1 inode" "length (concat rs) < 65536"
    and n: "plain name" "name \<in> (snd \<circ> snd) ` set (entries rs)"
  shows "\<exists>s' rs' es e fs. ext2_dirent_rm E num name s = Ret s' \<and> dir_data E (disk (medium s')) s' inode rs' \<and>
    own_blocks E (disk (medium s')) s' inode \<and> entries rs = es @ e # fs \<and> entries rs' = es @ fs \<and> snd (snd e) = name \<and> name \<notin> (snd \<circ> snd) ` set es"
proof -
  have ok: "dir_ok rs" using d(1) by (simp add: dir_data_def)
  obtain p prev rs' es e fs where x: "rm_search (concat rs) name 0 None = Ret (Some (p, prev))" "rm_entry p prev (concat rs) = concat rs'" "dir_ok rs'"
      "entries rs = es @ e # fs" "entries rs' = es @ fs" "snd (snd e) = name" "name \<notin> (snd \<circ> snd) ` set es"
    using dir_rm [OF ok d(3) n] by blast
  have l: "length (concat rs') = length (concat rs)" using x(2) by (metis rm_entry_length)
  obtain w where "ext2_inode_data_rw E inode num 0 (get32 inode in_size) (concat rs') s1 = Ret (True, concat rs', inode, s1\<lparr>medium := w\<rparr>)"
      "dir_data E (disk w) s1 inode rs'" "own_blocks E (disk w) s1 inode"
    using write_dir_ok [OF dev d(1,2) r(2) x(3) l] .
  then show ?thesis using r(1) x read_dir_ok [OF dev d(1)]
    by (intro exI [of _ "s1\<lparr>medium := w\<rparr>"] exI [of _ rs'] exI [of _ es] exI [of _ e] exI [of _ fs]) (simp add: ext2_dirent_rm_def)
qed

theorem dirent_rm_refines_witness:
  "\<exists>s' rs'. ext2_dirent_rm ram_env 2 ''.'' root_fs = Ret s' \<and> dir_data ram_env (medium s') s' (test_inode 1024) rs' \<and> entries rs' = []"
proof -
  have "plain ''.''" "''.'' \<in> (snd \<circ> snd) ` set (entries [dot_record])" "length (concat [dot_record]) < 65536"
    unfolding root_entries by (simp_all add: plain_def NUL_def dot_record_length)
  then obtain s' rs' es e fs where "ext2_dirent_rm ram_env 2 ''.'' root_fs = Ret s'" "dir_data ram_env (id (medium s')) s' (test_inode 1024) rs'"
      "entries [dot_record] = es @ e # fs" "entries rs' = es @ fs"
    using dirent_rm_refines [where disk = id, OF ram_simps(1) root_inode_read _ _ test_layout(4), of "[dot_record]" "''.''"] root_dir_data by auto
  then show ?thesis unfolding root_entries by (auto simp: Cons_eq_append_conv)
qed



text \<open>
  C19. \<^verbatim>\<open>search_dir\<close> ends on every well-formed directory and finds what is there: the result is the inode of the first entry in use with the name, or nothing if
  there is no such entry, wherever the entries lie relative to the windows of 512 bytes that are read one after the other.
\<close>

theorem search_dir_finds:
  assumes "dev_ok E disk" "dir_data E (disk (medium s)) s inode rs" "plain name"
  shows "\<exists>ent. search_dir E inode name s = Ret (ent, s) \<and>
    map_option (\<lambda>d. ent_inode d 0) ent = map_option fst (find (\<lambda>e. snd (snd e) = name) (entries rs))"
  using search_dir_ok [OF assms] by (simp add: lookup_entry_def)

theorem search_dir_finds_witness:
  "\<exists>d. search_dir ram_env (test_inode 1024) ''.'' root_fs = Ret (Some d, root_fs) \<and> ent_inode d 0 = 2"
proof -
  have d: "dir_data ram_env (id (medium root_fs)) root_fs (test_inode 1024) [dot_record]" using root_dir_data by simp
  have "plain ''.''" by (simp add: plain_def NUL_def)
  from search_dir_finds [OF ram_simps(1) d this, unfolded root_entries] show ?thesis by auto
qed

end
