(* ===== verification/Ext2_Props.thy ===== *)
theory Ext2_Props
  imports Ext2 Ext2_Dirs
begin

text \<open>
  What the callbacks of the ext2 file system do with the data of a file, and where they fail.
\<close>

section \<open>Reading a file\<close>

lemma u64_min_size:
  fixes offset :: u64 and sz isize :: u32
  assumes "unat offset < unat isize"
  defines "n \<equiv> (if ucast isize < offset + ucast sz then ucast (ucast isize - offset) else sz)"
  shows "unat n = min (unat sz) (unat isize - unat offset)"
proof -
  have i: "unat isize < 4294967296" "unat sz < 4294967296" using unat_u32_less [of isize] unat_u32_less [of sz] by (simp_all del: unat_u32_less)
  then have "unat offset + unat sz < 18446744073709551616" using assms(1) by linarith
  then have a: "unat (offset + ucast sz) = unat offset + unat sz" by (subst unat_u64_add) simp_all
  have "unat (ucast isize - offset) = unat isize - unat offset" using assms(1) by (simp add: unat_u64_sub word_le_nat_alt)
  moreover from this have "unat (ucast (ucast isize - offset) :: u32) = unat isize - unat offset"
    using i by (simp add: unsigned_ucast_eq take_bit_nat_eq_self less_imp_diff_less)
  ultimately show ?thesis unfolding n_def by (auto simp: word_less_nat_alt a min_def)
qed



section \<open>The root of a mounted file system\<close>

lemma strrchr_from_none: "ch \<notin> set p \<Longrightarrow> ch \<noteq> NUL \<Longrightarrow> strrchr_from p ch i save = save"
  by (induction p arbitrary: i) (subst strrchr_from.simps, auto simp: hd0_def)+

lemma dirname_root: "CHR ''/'' \<notin> set name \<Longrightarrow> name \<noteq> [] \<Longrightarrow> plain name \<Longrightarrow> dirname (Some (CHR ''/'' # name)) = []"
proof -
  assume a: "CHR ''/'' \<notin> set name" "name \<noteq> []" "plain name"
  have "strrchr (CHR ''/'' # name) CHR ''/'' = Some 0"
    unfolding strrchr_def by (subst strrchr_from.simps) (simp add: hd0_def NUL_def strrchr_from_none [OF a(1)])
  moreover have "strcmp (CHR ''/'' # name) ''/'' \<noteq> 0"
    using a by (subst strcmp_plain) (auto simp: plain_def NUL_def)
  ultimately show ?thesis by (simp add: dirname_def)
qed

lemma find_empty:
  assumes "ext2_inode_read E (inode_buf E s) ROOT_INODE s = Ret (True, inode, s1)"
  shows "ext2_dirent_find E [] task s = Ret (None, 0, s1)"
proof -
  have "strcmp ''/'' [] \<noteq> 0" by (simp add: strcmp_zero c_string_def NUL_def)
  moreover have "strtok_all (Some (strndup [] 500)) ''/'' = []" by code_simp
  ultimately show ?thesis using assms by (simp add: ext2_dirent_find_def)
qed

text \<open>
  A file in the top directory of a file system that is not mounted at the root is opened by the path \<^verbatim>\<open>/name\<close>. \<^verbatim>\<open>dirname\<close> makes the empty string of it, for which
  there is no directory entry: \<^verbatim>\<open>ext2_open\<close> always fails with \<^verbatim>\<open>ENOENT\<close>, whether the file is there or not and also with \<^verbatim>\<open>O_CREAT\<close>.
\<close>

lemma ext2_open_top_level:
  assumes name: "name \<noteq> []" "CHR ''/'' \<notin> set name" "plain name"
    and root: "ext2_inode_read E (inode_buf E (world v)) ROOT_INODE ((world v)\<lparr>e2_errno := sc_errno v\<rparr>) = Ret (True, inode, s1)"
  shows "ext2_open E egid cb (CHR ''/'' # name) flags v = Ret (None, v\<lparr>world := s1\<lparr>e2_errno := Some ENOENT\<rparr>, sc_errno := Some ENOENT\<rparr>)"
proof -
  let ?s = "(world v)\<lparr>e2_errno := sc_errno v\<rparr>"
  have "inode_buf E ?s = inode_buf E (world v)" by (simp add: inode_buf_def inode_size_def)
  then have f: "ext2_dirent_find E [] task ?s = Ret (None, 0, s1)" for task using root by (intro find_empty) simp
  have "strcmp (CHR ''/'' # name) [] \<noteq> 0" by (simp add: strcmp_zero c_string_def NUL_def)
  then have "open_step E (CHR ''/'' # name) flags task ?s = Ret (Failed, s1\<lparr>e2_errno := Some ENOENT\<rparr>)" for task
    using name by (simp add: open_step_def dirname_root f)
  then have "open_loop E (CHR ''/'' # name) flags task ?s = Some (Ret (None, s1\<lparr>e2_errno := Some ENOENT\<rparr>))" for task
    by (subst open_loop.simps) simp
  then show ?thesis by (simp add: ext2_open_def Let_def)
qed

definition top_vfs :: "u8 list ext2_fs vfs" where
  "top_vfs = \<lparr>files = [], is_task = False, cwd = ''/'', euid = 0, ctty = 0, mountpoints = [], mounted = {}, sc_errno = None, world = root_fs\<rparr>"

lemma ext2_open_top_level_example:
  "\<exists>v. ext2_open ram_env 0 no_callbacks ''/foo'' O_CREAT top_vfs = Ret (None, v) \<and> sc_errno v = Some ENOENT"
proof -
  have "(world top_vfs)\<lparr>e2_errno := sc_errno top_vfs\<rparr> = root_fs" "world top_vfs = root_fs" by (simp_all add: top_vfs_def ram_fs_def)
  then have "ext2_inode_read ram_env (inode_buf ram_env (world top_vfs)) ROOT_INODE ((world top_vfs)\<lparr>e2_errno := sc_errno top_vfs\<rparr>) = Ret (True, test_inode 1024, root_fs)"
    using root_inode_read by (simp add: ROOT_INODE_def)
  from ext2_open_top_level [OF _ _ _ this, of "''foo''" 0 no_callbacks O_CREAT] show ?thesis by (simp add: plain_def NUL_def)
qed

end
