(* ===== verification/Term.thy ===== *)
theory Term
  imports Pipe Bytes
begin

text \<open>
  Terminals (\<^verbatim>\<open>src/tty/term.c\<close>) and pseudo terminals (\<^verbatim>\<open>src/tty/pty.c\<close>). Output goes to the function \<^verbatim>\<open>write_cb\<close>, a parameter; for a pseudo terminal it is
  the one of \<^verbatim>\<open>pty.c\<close>. Characters are signed, so those from 128 on never equal a control character. The signals sent to the foreground task are kept in a list,
  the error number of a buffer in the field \<open>t_errno\<close>.
\<close>

section \<open>Constants and structures\<close>

definition VEOF :: nat where "VEOF = 1"
definition VEOL :: nat where "VEOL = 2"
definition VERASE :: nat where "VERASE = 3"
definition VINTR :: nat where "VINTR = 4"

definition ICRNL :: u32 where "ICRNL = 2"
definition BRKINT :: u32 where "BRKINT = 1"
definition IGNBRK :: u32 where "IGNBRK = 4"
definition OPOST :: u32 where "OPOST = 1"
definition ONLCR :: u32 where "ONLCR = 4"
definition B38400 :: u32 where "B38400 = 15"
definition CREAD :: u32 where "CREAD = 128"
definition ISIG :: u32 where "ISIG = 1"
definition ICANON :: u32 where "ICANON = 2"
definition ECHO :: u32 where "ECHO = 8"
definition ECHOE :: u32 where "ECHOE = 16"
definition ECHOK :: u32 where "ECHOK = 32"
definition IEXTEN :: u32 where "IEXTEN = 512"

definition SIGINT :: int where "SIGINT = 2"

record termios =
  c_iflag :: u32
  c_oflag :: u32
  c_cflag :: u32
  c_lflag :: u32
  c_cc :: "u8 list"

record winsize =
  ws_row :: u16
  ws_col :: u16
  ws_xpixel :: u16
  ws_ypixel :: u16

record tty =
  t_path :: string
  fg_task :: u32
  pts_fd :: int
  termios :: termios
  winsize :: winsize
  input_buf :: buffer
  read_done :: bool
  t_num :: u32
  ptm_buf :: "buffer option"
  ptm_fd :: int
  t_signals :: "(u32 \<times> int) list"
  t_errno :: "errno option"

type_synonym write_cb = "tty \<Rightarrow> u8 list \<Rightarrow> (u32 \<times> tty) outcome"

definition default_c_cc :: "u8 list" where
  "default_c_cc = [0, 4, 10, 0x7f, 3, 21, 0, 28, 17, 19, 26, 0] @ replicate 20 0"

text \<open>Comparison of a \<^verbatim>\<open>char\<close> with a control character.\<close>

definition is_cc :: "tty \<Rightarrow> nat \<Rightarrow> u8 \<Rightarrow> bool" where
  "is_cc t i chr \<longleftrightarrow> sint chr = uint (c_cc (termios t) ! i)"

definition lflag :: "tty \<Rightarrow> u32 \<Rightarrow> bool" where
  "lflag t f \<longleftrightarrow> c_lflag (termios t) AND f \<noteq> 0"

section \<open>Output\<close>

text \<open>The loop that writes a carriage return before each newline: the number of characters written.\<close>

fun write_onlcr :: "write_cb \<Rightarrow> tty \<Rightarrow> u8 list \<Rightarrow> u32 \<Rightarrow> (u32 \<times> tty) outcome" where
  "write_onlcr W t [] i = Ret (i, t)"
| "write_onlcr W t (c # cs) i =
     (if c = 10
      then obind (W t [13, 10]) (\<lambda>(n, t). if n \<noteq> 2 then Ret (i, t) else write_onlcr W t cs (i + 1))
      else obind (W t [c]) (\<lambda>(n, t). if n = 0 then Ret (i, t) else write_onlcr W t cs (i + 1)))"

definition term_write :: "write_cb \<Rightarrow> tty \<Rightarrow> u8 list \<Rightarrow> (u32 \<times> tty) outcome" where
  "term_write W t source = (if c_oflag (termios t) AND ONLCR \<noteq> 0 then write_onlcr W t source 0 else W t source)"

section \<open>Input\<close>

definition queue_input :: "vm_alloc \<Rightarrow> u8 \<Rightarrow> tty \<Rightarrow> tty outcome" where
  "queue_input alloc chr t =
     obind (buffer_write alloc (input_buf t) [chr] 1) (\<lambda>(_, e, b).
       Ret (t\<lparr>input_buf := b, t_errno := (case e of None \<Rightarrow> t_errno t | Some _ \<Rightarrow> e)\<rparr>))"

definition echo :: "write_cb \<Rightarrow> u8 \<Rightarrow> tty \<Rightarrow> tty outcome" where
  "echo W chr t = (if lflag t ECHO then obind (term_write W t [chr]) (\<lambda>(_, t). Ret t) else Ret t)"

text \<open>The escape sequences \<^verbatim>\<open>ESC [ D\<close> and \<^verbatim>\<open>ESC [ K\<close>.\<close>

definition erase_seq :: "u8 list" where
  "erase_seq = [27, 91, 68, 27, 91, 75]"

text \<open>Erasing takes a character from the buffer, which is the oldest one.\<close>

definition erase_char :: "write_cb \<Rightarrow> tty \<Rightarrow> tty outcome" where
  "erase_char W t =
     obind (buffer_size (input_buf t)) (\<lambda>n.
     obind (if n \<noteq> 0 then obind (term_write W t erase_seq) (\<lambda>(_, t). Ret t) else Ret t) (\<lambda>t.
     obind (buffer_pop (input_buf t) 1) (\<lambda>(_, b). Ret (t\<lparr>input_buf := b\<rparr>))))"

definition handle_canon :: "vm_alloc \<Rightarrow> write_cb \<Rightarrow> u8 \<Rightarrow> tty \<Rightarrow> tty outcome" where
  "handle_canon alloc W chr t =
     (if is_cc t VEOF chr then Ret (t\<lparr>read_done := True\<rparr>)
      else let t = (if is_cc t VEOL chr then t\<lparr>read_done := True\<rparr> else t) in
           if is_cc t VERASE chr then erase_char W t
           else obind (queue_input alloc chr t) (echo W chr))"

definition input_char :: "vm_alloc \<Rightarrow> write_cb \<Rightarrow> u8 \<Rightarrow> tty \<Rightarrow> tty outcome" where
  "input_char alloc W chr t =
     (if is_cc t VINTR chr \<and> fg_task t \<noteq> 0 \<and> lflag t ISIG
      then obind (term_write W t [94, 67, 10]) (\<lambda>(_, t). Ret (t\<lparr>t_signals := t_signals t @ [(fg_task t, SIGINT)]\<rparr>))
      else let chr = (if chr = 13 \<and> c_iflag (termios t) AND ICRNL \<noteq> 0 then 10 else chr) in
           if lflag t ICANON then handle_canon alloc W chr t
           else obind (echo W chr t) (queue_input alloc chr))"

fun input_loop :: "vm_alloc \<Rightarrow> write_cb \<Rightarrow> u8 list \<Rightarrow> tty \<Rightarrow> tty outcome" where
  "input_loop alloc W [] t = Ret t"
| "input_loop alloc W (c # cs) t = obind (input_char alloc W c t) (input_loop alloc W cs)"

definition term_input :: "vm_alloc \<Rightarrow> write_cb \<Rightarrow> tty \<Rightarrow> u8 list \<Rightarrow> (u32 \<times> tty) outcome" where
  "term_input alloc W t source = obind (input_loop alloc W source t) (\<lambda>t. Ret (of_nat (length source), t))"

section \<open>File operations\<close>

definition term_vfs_write :: "write_cb \<Rightarrow> tty \<Rightarrow> u8 list \<Rightarrow> (u32 \<times> tty) outcome" where
  "term_vfs_write W t source = term_write W t source"

text \<open>A loop that yields until a condition holds; round \<open>i\<close> sees what \<open>i\<close> yields have led to. \<open>None\<close>: it waits for ever.\<close>

partial_function (option) wait_until :: "(nat \<Rightarrow> bool outcome) \<Rightarrow> nat \<Rightarrow> nat outcome option" where
  "wait_until c i =
     (case c i of
        Ret ok \<Rightarrow> if ok then Some (Ret i) else wait_until c (Suc i)
      | Spin \<Rightarrow> Some Spin | Panic \<Rightarrow> Some Panic | Fault \<Rightarrow> Some Fault)"

definition wait_for :: "(nat \<Rightarrow> bool outcome) \<Rightarrow> nat \<Rightarrow> nat outcome" where
  "wait_for c i = (case wait_until c i of None \<Rightarrow> Spin | Some r \<Rightarrow> r)"

definition filled :: "buffer \<Rightarrow> bool outcome" where
  "filled b = obind (buffer_size b) (\<lambda>n. Ret (n \<noteq> 0))"

datatype read_result = TtyAgain | TtyData "u8 list" tty

text \<open>The terminal is \<open>view i\<close> after \<open>i\<close> yields.\<close>

definition term_vfs_read :: "(nat \<Rightarrow> tty) \<Rightarrow> u32 \<Rightarrow> u32 \<Rightarrow> read_result outcome" where
  "term_vfs_read view flags sz =
     obind (filled (input_buf (view 0))) (\<lambda>f.
       if \<not> f \<and> flags AND O_NONBLOCK \<noteq> 0 then Ret TtyAgain
       else obind (wait_for (\<lambda>i. filled (input_buf (view i))) 0) (\<lambda>i.
         if lflag (view i) ICANON
         then if \<not> read_done (view i) \<and> flags AND O_NONBLOCK \<noteq> 0 then Ret TtyAgain
              else obind (wait_for (\<lambda>j. Ret (read_done (view j))) i) (\<lambda>j.
                obind (buffer_pop (input_buf (view j)) sz) (\<lambda>(bytes, b). Ret (TtyData bytes ((view j)\<lparr>read_done := False, input_buf := b\<rparr>))))
         else obind (buffer_pop (input_buf (view i)) sz) (\<lambda>(bytes, b). Ret (TtyData bytes ((view i)\<lparr>input_buf := b\<rparr>)))))"

definition term_vfs_readlink :: "string option \<Rightarrow> u32 \<Rightarrow> errno + string" where
  "term_vfs_readlink ctty_path sz =
     (case ctty_path of None \<Rightarrow> Inl ENOENT | Some p \<Rightarrow> Inr (take (min (strlen p) (unat sz)) p))"

definition term_vfs_stat :: "u32 \<Rightarrow> vfs_stat_t" where
  "term_vfs_stat t = \<lparr>st_dev = 2, st_ino = 3, st_mode = FT_IFCHR OR 0x124 OR 0x92, st_nlink = 1, st_uid = 0, st_gid = 0, st_rdev = 0,
     st_size = 0, st_atime = ucast t, st_mtime = ucast t, st_ctime = ucast t, st_blksize = 0x1000, st_blocks = 0\<rparr>"

definition term_vfs_poll :: "tty \<Rightarrow> u32 \<Rightarrow> u32 outcome" where
  "term_vfs_poll t events =
     (if events AND POLLIN \<noteq> 0 then obind (filled (input_buf t)) (\<lambda>f. Ret (if f then POLLIN else 0)) else Ret 0)"

text \<open>The structures as the user sees them.\<close>

definition termios_bytes :: "termios \<Rightarrow> u8 list" where
  "termios_bytes t = put32 0 (c_iflag t) (put32 4 (c_oflag t) (put32 8 (c_cflag t) (put32 12 (c_lflag t) (replicate 16 0)))) @ c_cc t"

definition termios_of :: "u8 list \<Rightarrow> termios" where
  "termios_of b = \<lparr>c_iflag = get32 b 0, c_oflag = get32 b 4, c_cflag = get32 b 8, c_lflag = get32 b 12, c_cc = take 32 (drop 16 b)\<rparr>"

definition winsize_bytes :: "winsize \<Rightarrow> u8 list" where
  "winsize_bytes w = put16 0 (ws_row w) (put16 2 (ws_col w) (put16 4 (ws_xpixel w) (put16 6 (ws_ypixel w) (replicate 8 0))))"

definition winsize_of :: "u8 list \<Rightarrow> winsize" where
  "winsize_of b = \<lparr>ws_row = get16 b 0, ws_col = get16 b 2, ws_xpixel = get16 b 4, ws_ypixel = get16 b 6\<rparr>"

text \<open>Only supported flags can be set.\<close>

definition supported :: "termios \<Rightarrow> termios" where
  "supported t = t\<lparr>c_iflag := c_iflag t AND (ICRNL OR BRKINT OR IGNBRK OR IEXTEN), c_oflag := c_oflag t AND (OPOST OR ONLCR),
     c_lflag := c_lflag t AND (ICANON OR ISIG OR IEXTEN OR ECHO OR ECHOE OR ECHOK)\<rparr>"

definition TCGETS :: int where "TCGETS = 0x4000"
definition TCSETS :: int where "TCSETS = 0x4001"
definition TCSETSW :: int where "TCSETSW = 0x4002"
definition TIOCGWINSZ :: int where "TIOCGWINSZ = 0x400E"
definition TIOCSWINSZ :: int where "TIOCSWINSZ = 0x400F"
definition TIOCGPTN :: int where "TIOCGPTN = 0x4016"
definition TCSLOGLEVEL :: int where "TCSLOGLEVEL = 0x5000"

lemmas ioctl_numbers = TCGETS_def TCSETS_def TCSETSW_def TIOCGWINSZ_def TIOCSWINSZ_def TIOCGPTN_def TCSLOGLEVEL_def

definition ioctl_size :: "int \<Rightarrow> nat option" where
  "ioctl_size request =
     (if request = TIOCGPTN \<or> request = TCSLOGLEVEL then Some 4
      else if request = TIOCGWINSZ \<or> request = TIOCSWINSZ then Some 8
      else if request = TCGETS \<or> request = TCSETS \<or> request = TCSETSW then Some 48
      else None)"

text \<open>
  A return of -1 with its error number; \<^verbatim>\<open>EFAULT\<close> and \<^verbatim>\<open>SIGSEGV\<close> for the task; success with the user's bytes and the terminal afterwards; the call of
  \<^verbatim>\<open>log_set_console_level\<close>.
\<close>

datatype ioctl_result = Refused errno | Segv | Success "u8 list" tty | SetLevel int

definition ioctl_do :: "int \<Rightarrow> u8 list \<Rightarrow> tty \<Rightarrow> ioctl_result" where
  "ioctl_do request arg t =
     (if request = TIOCGPTN then Success (put32 0 (word_of_int (pts_fd t)) arg) t
      else if request = TCSLOGLEVEL then if t_num t \<noteq> 0 then Refused EINVAL else SetLevel (sint (get32 arg 0))
      else if request = TCGETS then Success (termios_bytes (termios t)) t
      else if request = TCSETS \<or> request = TCSETSW then Success arg (t\<lparr>termios := supported (termios_of arg)\<rparr>)
      else if request = TIOCGWINSZ then Success (winsize_bytes (winsize t)) t
      else Success arg (t\<lparr>winsize := winsize_of arg\<rparr>))"

text \<open>\<open>user n\<close> are the \<open>n\<close> bytes at the argument that \<^verbatim>\<open>vm_map\<close> makes accessible, if the user may access them.\<close>

definition term_vfs_ioctl :: "(nat \<Rightarrow> u8 list option) \<Rightarrow> int \<Rightarrow> tty \<Rightarrow> ioctl_result" where
  "term_vfs_ioctl user request t =
     (case ioctl_size request of
        None \<Rightarrow> Refused ENOSYS
      | Some n \<Rightarrow> (case user n of None \<Rightarrow> Segv | Some arg \<Rightarrow> ioctl_do request arg t))"

section \<open>New terminals\<close>

definition new_termios :: termios where
  "new_termios = \<lparr>c_iflag = ICRNL, c_oflag = OPOST OR ONLCR, c_cflag = CREAD OR B38400,
     c_lflag = ICANON OR ISIG OR IEXTEN OR ECHO OR ECHOE OR ECHOK, c_cc = default_c_cc\<rparr>"

text \<open>\<^verbatim>\<open>sysfs_add_dev(name, &term_cb)\<close> follows.\<close>

definition term_new :: "vm_alloc \<Rightarrow> string \<Rightarrow> tty option" where
  "term_new alloc name =
     (case buffer_new alloc 150 of
        None \<Rightarrow> None
      | Some b \<Rightarrow> Some \<lparr>t_path = snprintf VFS_PATH_MAX (''/dev/'' @ c_string name), fg_task = 0, pts_fd = 0, termios = new_termios,
          winsize = \<lparr>ws_row = 0, ws_col = 0, ws_xpixel = 0, ws_ypixel = 0\<rparr>, input_buf = b, read_done = False, t_num = 0,
          ptm_buf = None, ptm_fd = 0, t_signals = [], t_errno = None\<rparr>)"

text \<open>The addresses of the callbacks of terminals and of both ends of a pseudo terminal.\<close>

record tty_fns =
  term_cb :: vfs_callbacks
  ptm_cb :: vfs_callbacks
  pts_cb :: vfs_callbacks

text \<open>\<open>console\<close> is the address of \<^verbatim>\<open>term_console\<close>.\<close>

definition term_vfs_open :: "tty_fns \<Rightarrow> u32 \<Rightarrow> 'w vfs \<Rightarrow> nat option \<times> 'w vfs" where
  "term_vfs_open fns console s =
     (if \<not> is_task s \<or> console = 0 then (None, s\<lparr>sc_errno := Some ENOENT\<rparr>)
      else case vfs_alloc_fileno 0 s of
             (None, s) \<Rightarrow> (None, s)
           | (Some i, s) \<Rightarrow>
               (Some i, upd_file i (\<lambda>f. f\<lparr>f_inode := 1, f_type := ucast FT_IFCHR, f_meta := console, f_mount_instance := console,
                  f_callbacks := term_cb fns\<rparr>) s))"

section \<open>Pseudo terminals\<close>

definition pty_write_cb :: "vm_alloc \<Rightarrow> write_cb" where
  "pty_write_cb alloc t source =
     (case ptm_buf t of
        None \<Rightarrow> Fault
      | Some b \<Rightarrow>
          obind (buffer_write alloc b source (of_nat (length source))) (\<lambda>(n, e, b).
            Ret (n, t\<lparr>ptm_buf := Some b, t_errno := (case e of None \<Rightarrow> t_errno t | Some _ \<Rightarrow> e)\<rparr>)))"

definition ptm_filled :: "tty \<Rightarrow> bool outcome" where
  "ptm_filled t = (case ptm_buf t of None \<Rightarrow> Fault | Some b \<Rightarrow> filled b)"

definition ptm_read :: "(nat \<Rightarrow> tty) \<Rightarrow> u32 \<Rightarrow> u32 \<Rightarrow> read_result outcome" where
  "ptm_read view flags sz =
     obind (ptm_filled (view 0)) (\<lambda>f.
       if \<not> f \<and> flags AND O_NONBLOCK \<noteq> 0 then Ret TtyAgain
       else obind (wait_for (\<lambda>i. ptm_filled (view i)) 0) (\<lambda>i.
         case ptm_buf (view i) of
           None \<Rightarrow> Fault
         | Some b \<Rightarrow> obind (buffer_pop b sz) (\<lambda>(bytes, b). Ret (TtyData bytes ((view i)\<lparr>ptm_buf := Some b\<rparr>)))))"

definition ptm_write :: "vm_alloc \<Rightarrow> tty \<Rightarrow> u8 list \<Rightarrow> (u32 \<times> tty) outcome" where
  "ptm_write alloc t source = term_input alloc (pty_write_cb alloc) t source"

definition ptm_poll :: "tty \<Rightarrow> u32 \<Rightarrow> u32 outcome" where
  "ptm_poll t events = (if events AND POLLIN \<noteq> 0 then obind (ptm_filled t) (\<lambda>f. Ret (if f then POLLIN else 0)) else Ret 0)"

text \<open>
  Opening \<^verbatim>\<open>/dev/ptmx\<close>: the two files, the number and the terminal at address \<open>addr\<close>. The result of \<^verbatim>\<open>term_new\<close> is not checked. If the second
  buffer cannot be allocated, both files stay open. \<open>alloc\<close> and \<open>alloc'\<close> are the state of the allocator at the two allocations.
\<close>

definition ptmx_open ::
    "'w drivers \<Rightarrow> tty_fns \<Rightarrow> vm_alloc \<Rightarrow> vm_alloc \<Rightarrow> u32 \<Rightarrow> u32 \<Rightarrow> u32 \<Rightarrow> u32 \<Rightarrow> 'w vfs \<Rightarrow> ((nat \<times> tty) option \<times> u32 \<times> 'w vfs) outcome" where
  "ptmx_open D fns alloc alloc' addr mp flags max_pty s =
     (case vfs_alloc_fileno 3 s of
        (None, s) \<Rightarrow> Ret (None, max_pty, s\<lparr>sc_errno := Some EMFILE\<rparr>)
      | (Some i, s) \<Rightarrow>
          (case vfs_alloc_fileno (f_num (files s ! i)) s of
             (None, s) \<Rightarrow>
               (case vfs_close D (int (f_num (files s ! i))) s of
                  None \<Rightarrow> Spin | Some (_, s) \<Rightarrow> Ret (None, max_pty, s\<lparr>sc_errno := Some EMFILE\<rparr>))
           | (Some j, s) \<Rightarrow>
               let s = upd_file i (\<lambda>f. f\<lparr>f_callbacks := ptm_cb fns, f_inode := 1, f_type := ucast FT_IFCHR\<rparr>) s;
                   s = upd_file j (\<lambda>f. f\<lparr>f_callbacks := pts_cb fns, f_inode := 2, f_type := ucast FT_IFCHR, f_mp := mp, f_flags := flags\<rparr>) s;
                   pty_num = max_pty + 1; num = decimal (unat (pty_num + 1))
               in case term_new alloc (snprintf 6 (''pts'' @ num)) of
                    None \<Rightarrow> Fault
                  | Some t \<Rightarrow>
                      let s = upd_file i (\<lambda>f. f\<lparr>f_path := snprintf 30 (''/dev/ptm'' @ num)\<rparr>) s;
                          s = upd_file j (\<lambda>f. f\<lparr>f_path := snprintf 30 (''/dev/pts'' @ num)\<rparr>) s
                      in case buffer_new alloc' 150 of
                           None \<Rightarrow> Ret (None, pty_num, s)
                         | Some b \<Rightarrow>
                             let t = t\<lparr>t_num := pty_num, ptm_buf := Some b, ptm_fd := int (f_num (files s ! i)), pts_fd := int (f_num (files s ! j))\<rparr>;
                                 s = upd_file i (\<lambda>f. f\<lparr>f_meta := addr\<rparr>) s; s = upd_file j (\<lambda>f. f\<lparr>f_meta := addr\<rparr>) s
                             in Ret (Some (i, t), pty_num, s)))"

end
