(* ===== verification/Term_Props.thy ===== *)
theory Term_Props
  imports Term
begin

text \<open>
  The line discipline of pseudo terminals against a specification on lists of bytes: what is queued for the reader, whether a line is complete, what was
  written to the master and which signals were sent.
\<close>

section \<open>Specification\<close>

record line =
  lq :: "u8 list"
  ldone :: bool
  lout :: "u8 list"
  lsig :: "(u32 \<times> int) list"

definition cooked :: "tty \<Rightarrow> u8 list \<Rightarrow> u8 list" where
  "cooked t bs = (if c_oflag (termios t) AND ONLCR \<noteq> 0 then concat (map (\<lambda>c. if c = 10 then [13, 10] else [c]) bs) else bs)"

definition put_out :: "tty \<Rightarrow> u8 list \<Rightarrow> line \<Rightarrow> line" where
  "put_out t bs l = l\<lparr>lout := lout l @ cooked t bs\<rparr>"

definition canon_step :: "tty \<Rightarrow> u8 \<Rightarrow> line \<Rightarrow> line" where
  "canon_step t c l =
     (if is_cc t VEOF c then l\<lparr>ldone := True\<rparr>
      else let l = (if is_cc t VEOL c then l\<lparr>ldone := True\<rparr> else l) in
           if is_cc t VERASE c then (if lq l \<noteq> [] then put_out t erase_seq (l\<lparr>lq := tl (lq l)\<rparr>) else l)
           else (if lflag t ECHO then put_out t [c] else id) (l\<lparr>lq := lq l @ [c]\<rparr>))"

definition line_step :: "tty \<Rightarrow> u8 \<Rightarrow> line \<Rightarrow> line" where
  "line_step t c l =
     (if is_cc t VINTR c \<and> fg_task t \<noteq> 0 \<and> lflag t ISIG then (put_out t [94, 67, 10] l)\<lparr>lsig := lsig l @ [(fg_task t, SIGINT)]\<rparr>
      else let c = (if c = 13 \<and> c_iflag (termios t) AND ICRNL \<noteq> 0 then 10 else c) in
           if lflag t ICANON then canon_step t c l
           else (if lflag t ECHO then put_out t [c] else id) (l\<lparr>lq := lq l @ [c]\<rparr>))"

definition line_of :: "tty \<Rightarrow> line" where
  "line_of t = \<lparr>lq = contents (input_buf t), ldone = read_done t, lout = contents (the (ptm_buf t)), lsig = t_signals t\<rparr>"

lemma line_of_sel: "lq (line_of t) = contents (input_buf t)" "ldone (line_of t) = read_done t" "lout (line_of t) = contents (the (ptm_buf t))"
  by (simp_all add: line_of_def)

section \<open>Buffers with room\<close>

definition room_for :: "nat \<Rightarrow> buffer \<Rightarrow> bool" where
  "room_for n b \<longleftrightarrow> buffer_usable b \<and> length (contents b) + n \<le> unat (bf_pages b) * 4096"

lemma room_less: "room_for n b \<Longrightarrow> m \<le> n \<Longrightarrow> room_for m b"
  by (simp add: room_for_def)

lemma buffer_append_pages: "buffer_append src sz b = Ret (n, e, b') \<Longrightarrow> bf_pages b' = bf_pages b"
  by (auto simp: buffer_append_def split: option.splits)

lemma buffer_write_room:
  assumes "room_for (length src + n) b"
  shows "\<exists>b'. buffer_write alloc b src (of_nat (length src)) = Ret (of_nat (length src), None, b') \<and> contents b' = contents b @ src \<and> room_for n b'"
proof -
  have ok: "buffer_ok b" "\<not> bf_lock b" using assms by (simp_all add: room_for_def buffer_usable_def)
  have len: "length (contents b) = unat (bf_size b)" by (rule contents_length [OF ok(1)])
  have pg: "unat (bf_pages b) < 2 ^ 16" "length (bf_data b) = unat (bf_pages b) * 4096" using ok(1) by (simp_all add: buffer_ok_def)
  have fit: "unat (bf_size b) + length src + n \<le> unat (bf_pages b) * 4096" using assms len by (simp add: room_for_def)
  then have u: "unat (of_nat (length src) :: u32) = length src" using pg(1) by (simp add: unat_of_nat_u32)
  have "unat (bf_size b + of_nat (length src)) = unat (bf_size b) + length src" using fit pg(1) u by (subst unat_add_u32) simp_all
  moreover have "unat (bf_pages b * PAGE_SIZE) = unat (bf_pages b) * 4096" using pg(1) by (simp add: PAGE_SIZE_def unat_mult_u32)
  ultimately have "\<not> bf_pages b * PAGE_SIZE < bf_size b + of_nat (length src)" using fit by (simp add: u32_less_nat)
  then have w: "buffer_write alloc b src (of_nat (length src)) = buffer_append src (of_nat (length src)) (b\<lparr>bf_lock := True\<rparr>)"
    using ok(2) by (simp add: buffer_write_def Let_def)
  obtain b' where b': "buffer_append src (of_nat (length src)) (b\<lparr>bf_lock := True\<rparr>) = Ret (of_nat (length src), None, b')"
      "buffer_ok b'" "\<not> bf_lock b'" "contents b' = contents b @ src"
    using buffer_append_correct [of "b\<lparr>bf_lock := True\<rparr>" src "of_nat (length src)"] ok(1) fit pg(2) u by auto
  have "bf_pages b' = bf_pages b" using buffer_append_pages [OF b'(1)] by simp
  then show ?thesis using w b' fit len by (auto simp: room_for_def buffer_usable_def)
qed

lemma buffer_pop_room:
  assumes "room_for n b"
  shows "\<exists>b'. buffer_pop b sz = Ret (take (unat sz) (contents b), b') \<and> contents b' = drop (unat sz) (contents b) \<and> room_for n b'"
proof -
  have ok: "buffer_ok b" "\<not> bf_lock b" using assms by (simp_all add: room_for_def buffer_usable_def)
  obtain b' where b': "buffer_pop b sz = Ret (take (unat sz) (contents b), b')" "buffer_ok b'" "\<not> bf_lock b'" "contents b' = drop (unat sz) (contents b)"
    using buffer_pop_correct [OF ok, of sz] by blast
  have "bf_pages b' = bf_pages b" using b'(1) by (auto simp: buffer_pop_def acquire_def Let_def split: if_splits option.splits)
  then show ?thesis using b' assms by (auto simp: room_for_def buffer_usable_def)
qed

lemma filled_room: "room_for n b \<Longrightarrow> filled b = Ret (contents b \<noteq> [])"
proof -
  assume r: "room_for n b"
  then have ok: "buffer_ok b" "\<not> bf_lock b" by (simp_all add: room_for_def buffer_usable_def)
  have "bf_size b = 0 \<longleftrightarrow> contents b = []" using contents_length [OF ok(1)] by (metis length_0_conv unat_eq_zero)
  then show ?thesis using ok(2) by (simp add: filled_def buffer_size_def)
qed

section \<open>Output\<close>

text \<open>The terminal has room for \<open>n\<close> more characters of input; each of them makes at most six bytes of output.\<close>

definition tty_room :: "nat \<Rightarrow> nat \<Rightarrow> tty \<Rightarrow> bool" where
  "tty_room n m t \<longleftrightarrow> room_for n (input_buf t) \<and> (\<exists>b. ptm_buf t = Some b \<and> room_for m b)"

definition same_setup :: "tty \<Rightarrow> tty \<Rightarrow> bool" where
  "same_setup t t' \<longleftrightarrow> termios t' = termios t \<and> fg_task t' = fg_task t"

lemma same_setup_simps:
  "same_setup t t' \<Longrightarrow> is_cc t' = is_cc t" "same_setup t t' \<Longrightarrow> lflag t' = lflag t" "same_setup t t' \<Longrightarrow> cooked t' = cooked t"
  "same_setup t t' \<Longrightarrow> put_out t' = put_out t"
  by (auto simp: same_setup_def is_cc_def lflag_def cooked_def put_out_def fun_eq_iff)

lemma line_step_setup: "same_setup t t' \<Longrightarrow> line_step t' = line_step t"
proof (intro ext)
  fix c l assume s: "same_setup t t'"
  show "line_step t' c l = line_step t c l"
    using s unfolding line_step_def canon_step_def same_setup_simps [OF s] by (simp add: same_setup_def)
qed

lemma same_setup_trans: "same_setup t t' \<Longrightarrow> same_setup t' t'' \<Longrightarrow> same_setup t t''"
  by (simp add: same_setup_def)

lemma pty_write_room:
  assumes "tty_room n (length src + m) t"
  shows "\<exists>t'. pty_write_cb alloc t src = Ret (of_nat (length src), t') \<and> line_of t' = (line_of t)\<lparr>lout := lout (line_of t) @ src\<rparr> \<and>
    same_setup t t' \<and> tty_room n m t'"
proof -
  obtain b where b: "ptm_buf t = Some b" "room_for (length src + m) b" "room_for n (input_buf t)" using assms by (auto simp: tty_room_def)
  obtain b' where "buffer_write alloc b src (of_nat (length src)) = Ret (of_nat (length src), None, b')" "contents b' = contents b @ src" "room_for m b'"
    using buffer_write_room [OF b(2)] by blast
  then show ?thesis using b by (auto simp: pty_write_cb_def line_of_def same_setup_def tty_room_def)
qed

lemma write_onlcr_room:
  "tty_room n (2 * length src + m) t \<Longrightarrow>
   \<exists>t'. write_onlcr (pty_write_cb alloc) t src i = Ret (i + of_nat (length src), t') \<and>
     line_of t' = (line_of t)\<lparr>lout := lout (line_of t) @ concat (map (\<lambda>c. if c = 10 then [13, 10] else [c]) src)\<rparr> \<and> same_setup t t' \<and> tty_room n m t'"
proof (induction src arbitrary: t i)
  case Nil
  then show ?case by (simp add: same_setup_def)
next
  case (Cons c cs)
  let ?bs = "if c = 10 then [13, 10] else [c]"
  have "tty_room n (length ?bs + (2 * length cs + m)) t" using Cons.prems room_less unfolding tty_room_def by fastforce
  then obtain t1 where t1: "pty_write_cb alloc t ?bs = Ret (of_nat (length ?bs), t1)" "line_of t1 = (line_of t)\<lparr>lout := lout (line_of t) @ ?bs\<rparr>"
      "same_setup t t1" "tty_room n (2 * length cs + m) t1"
    using pty_write_room by blast
  obtain t2 where t2: "write_onlcr (pty_write_cb alloc) t1 cs (i + 1) = Ret (i + 1 + of_nat (length cs), t2)"
      "line_of t2 = (line_of t1)\<lparr>lout := lout (line_of t1) @ concat (map (\<lambda>c. if c = 10 then [13, 10] else [c]) cs)\<rparr>"
      "same_setup t1 t2" "tty_room n m t2"
    using Cons.IH [OF t1(4)] by blast
  have "write_onlcr (pty_write_cb alloc) t (c # cs) i = Ret (i + of_nat (length (c # cs)), t2)"
    using t1(1) t2(1) by (cases "c = 10") (simp_all add: ac_simps)
  then show ?case using t1 t2 same_setup_trans [OF t1(3) t2(3)] by simp
qed

lemma term_write_room:
  assumes "tty_room n (2 * length src + m) t"
  shows "\<exists>k t'. term_write (pty_write_cb alloc) t src = Ret (k, t') \<and> line_of t' = put_out t src (line_of t) \<and> same_setup t t' \<and> tty_room n m t'"
proof (cases "c_oflag (termios t) AND ONLCR \<noteq> 0")
  case True
  then show ?thesis using write_onlcr_room [OF assms, of alloc 0] by (auto simp: term_write_def put_out_def cooked_def)
next
  case False
  have "tty_room n (length src + m) t" using assms room_less unfolding tty_room_def by fastforce
  from pty_write_room [OF this, of alloc] show ?thesis using False by (auto simp: term_write_def put_out_def cooked_def)
qed

section \<open>Input\<close>

lemma queue_input_room:
  assumes "tty_room (Suc n) m t"
  shows "\<exists>t'. queue_input alloc c t = Ret t' \<and> line_of t' = (line_of t)\<lparr>lq := lq (line_of t) @ [c]\<rparr> \<and> same_setup t t' \<and> tty_room n m t'"
proof -
  have "room_for (length [c] + n) (input_buf t)" using assms by (simp add: tty_room_def)
  from buffer_write_room [OF this, of alloc] show ?thesis using assms by (auto simp: queue_input_def line_of_def same_setup_def tty_room_def)
qed

lemma echo_room:
  assumes "tty_room n (2 + m) t"
  shows "\<exists>t'. echo (pty_write_cb alloc) c t = Ret t' \<and> line_of t' = (if lflag t ECHO then put_out t [c] else id) (line_of t) \<and>
    same_setup t t' \<and> tty_room n m t'"
proof (cases "lflag t ECHO")
  case True
  then show ?thesis using term_write_room [of n "[c]" m t alloc] assms by (auto simp: echo_def)
next
  case False
  have "tty_room n m t" using assms room_less unfolding tty_room_def by fastforce
  then show ?thesis using False by (simp add: echo_def same_setup_def)
qed

lemma erase_char_room:
  assumes "tty_room n (12 + m) t"
  shows "\<exists>t'. erase_char (pty_write_cb alloc) t = Ret t' \<and>
    line_of t' = (if lq (line_of t) \<noteq> [] then put_out t erase_seq ((line_of t)\<lparr>lq := tl (lq (line_of t))\<rparr>) else line_of t) \<and>
    same_setup t t' \<and> tty_room n m t'"
proof -
  let ?c = "contents (input_buf t)"
  have r: "room_for n (input_buf t)" using assms by (simp add: tty_room_def)
  have sz: "\<exists>k. buffer_size (input_buf t) = Ret k \<and> (k \<noteq> 0) = (?c \<noteq> [])"
    using filled_room [OF r] r by (auto simp: filled_def buffer_size_def room_for_def buffer_usable_def)
  obtain t1 where t1: "(if ?c \<noteq> [] then obind (term_write (pty_write_cb alloc) t erase_seq) (\<lambda>(_, t). Ret t) else Ret t) = Ret t1"
      "line_of t1 = (if ?c \<noteq> [] then put_out t erase_seq (line_of t) else line_of t)" "same_setup t t1" "tty_room n m t1"
  proof (cases "?c = []")
    case True
    have "tty_room n m t" using assms room_less unfolding tty_room_def by fastforce
    then show ?thesis using that [of t] True by (simp add: same_setup_def)
  next
    case False
    then show ?thesis using that term_write_room [of n erase_seq m t alloc] assms by (auto simp: erase_seq_def)
  qed
  have r1: "room_for n (input_buf t1)" using t1(4) by (simp add: tty_room_def)
  have c1: "contents (input_buf t1) = ?c" using t1(2) by (auto simp: line_of_def put_out_def split: if_splits)
  obtain b where b: "buffer_pop (input_buf t1) 1 = Ret (take 1 ?c, b)" "contents b = tl ?c" "room_for n b"
    using buffer_pop_room [OF r1, of 1] by (auto simp: c1 drop_Suc)
  have "erase_char (pty_write_cb alloc) t = Ret (t1\<lparr>input_buf := b\<rparr>)"
    using sz t1(1) b(1) by (auto simp: erase_char_def cong: if_cong)
  moreover have "line_of (t1\<lparr>input_buf := b\<rparr>) = (line_of t1)\<lparr>lq := tl ?c\<rparr>" by (simp add: line_of_def b(2))
  ultimately show ?thesis using t1(2-4) b(3) by (auto simp: line_of_def put_out_def same_setup_def tty_room_def)
qed

lemma line_of_done: "line_of (t\<lparr>read_done := d\<rparr>) = (line_of t)\<lparr>ldone := d\<rparr>" "same_setup t (t\<lparr>read_done := d\<rparr>)"
    "tty_room n m (t\<lparr>read_done := d\<rparr>) = tty_room n m t"
  by (simp_all add: line_of_def same_setup_def tty_room_def)

lemma handle_canon_refines:
  assumes r: "tty_room (Suc n) (12 + m) t"
  shows "\<exists>t'. handle_canon alloc (pty_write_cb alloc) c t = Ret t' \<and> line_of t' = canon_step t c (line_of t) \<and> same_setup t t' \<and> tty_room n m t'"
proof (cases "is_cc t VEOF c")
  case True
  have "tty_room n m t" using r room_less unfolding tty_room_def by fastforce
  then show ?thesis using True by (simp add: handle_canon_def canon_step_def line_of_done)
next
  case eof: False
  let ?W = "pty_write_cb alloc"
  define t0 where "t0 = (if is_cc t VEOL c then t\<lparr>read_done := True\<rparr> else t)"
  have t0: "line_of t0 = (if is_cc t VEOL c then (line_of t)\<lparr>ldone := True\<rparr> else line_of t)" "same_setup t t0" "tty_room (Suc n) (12 + m) t0"
    using r by (auto simp: t0_def line_of_done same_setup_def)
  note st = same_setup_simps [OF t0(2)]
  have hc: "handle_canon alloc ?W c t = (if is_cc t VERASE c then erase_char ?W t0 else obind (queue_input alloc c t0) (echo ?W c))"
    unfolding handle_canon_def if_not_P [OF eof] Let_def t0_def [symmetric] by (simp add: st)
  note cs = canon_step_def [of t c "line_of t", unfolded if_not_P [OF eof] Let_def, folded t0(1)]
  show ?thesis
  proof (cases "is_cc t VERASE c")
    case True
    have "tty_room n (12 + m) t0" using t0(3) room_less unfolding tty_room_def by fastforce
    from erase_char_room [OF this, of alloc] show ?thesis unfolding hc cs if_P [OF True] using same_setup_trans [OF t0(2)] by (auto simp: st)
  next
    case False
    obtain t1 where t1: "queue_input alloc c t0 = Ret t1" "line_of t1 = (line_of t0)\<lparr>lq := lq (line_of t0) @ [c]\<rparr>" "same_setup t0 t1" "tty_room n (12 + m) t1"
      using queue_input_room [OF t0(3)] by blast
    note s1 = same_setup_trans [OF t0(2) t1(3)]
    have "tty_room n (2 + m) t1" using t1(4) room_less unfolding tty_room_def by fastforce
    from echo_room [OF this, of alloc c] show ?thesis
      unfolding hc cs if_not_P [OF False] t1(1) using same_setup_trans [OF s1] by (auto simp: same_setup_simps [OF s1] t1(2))
  qed
qed

lemma input_char_refines:
  assumes r: "tty_room (Suc n) (12 + m) t"
  shows "\<exists>t'. input_char alloc (pty_write_cb alloc) c t = Ret t' \<and> line_of t' = line_step t c (line_of t) \<and> same_setup t t' \<and> tty_room n m t'"
proof (cases "is_cc t VINTR c \<and> fg_task t \<noteq> 0 \<and> lflag t ISIG")
  case True
  let ?W = "pty_write_cb alloc"
  have "tty_room n (2 * length [94, 67, 10 :: u8] + m) t" using r room_less unfolding tty_room_def by fastforce
  then obtain k t1 where t1: "term_write ?W t [94, 67, 10] = Ret (k, t1)" "line_of t1 = put_out t [94, 67, 10] (line_of t)" "same_setup t t1" "tty_room n m t1"
    using term_write_room by blast
  have "fg_task t1 = fg_task t" using t1(3) by (simp add: same_setup_def)
  then show ?thesis using True t1 by (auto simp: input_char_def line_step_def line_of_def put_out_def same_setup_def tty_room_def)
next
  case intr: False
  let ?W = "pty_write_cb alloc" and ?c = "if c = 13 \<and> c_iflag (termios t) AND ICRNL \<noteq> 0 then 10 else c"
  show ?thesis
  proof (cases "lflag t ICANON")
    case True
    then show ?thesis using handle_canon_refines [OF r, of alloc ?c] intr unfolding input_char_def line_step_def if_not_P [OF intr] Let_def by simp
  next
    case False
    have "tty_room (Suc n) (2 + m) t" using r room_less unfolding tty_room_def by fastforce
    then obtain t1 where t1: "echo ?W ?c t = Ret t1" "line_of t1 = (if lflag t ECHO then put_out t [?c] else id) (line_of t)" "same_setup t t1" "tty_room (Suc n) m t1"
      using echo_room by blast
    obtain t2 where t2: "queue_input alloc ?c t1 = Ret t2" "line_of t2 = (line_of t1)\<lparr>lq := lq (line_of t1) @ [?c]\<rparr>" "same_setup t1 t2" "tty_room n m t2"
      using queue_input_room [OF t1(4)] by blast
    have "line_of t2 = line_step t c (line_of t)" unfolding line_step_def if_not_P [OF intr] Let_def t2(2) t1(2) using False by (simp add: put_out_def)
    moreover have "input_char alloc ?W c t = Ret t2" unfolding input_char_def if_not_P [OF intr] Let_def using False t1(1) t2(1) by simp
    ultimately show ?thesis using t2(4) same_setup_trans [OF t1(3) t2(3)] by blast
  qed
qed

lemma input_loop_refines:
  "tty_room (length src) (12 * length src) t \<Longrightarrow>
   \<exists>t'. input_loop alloc (pty_write_cb alloc) src t = Ret t' \<and> line_of t' = fold (line_step t) src (line_of t) \<and> same_setup t t' \<and> tty_room 0 0 t'"
proof (induction src arbitrary: t)
  case (Cons c cs)
  have "tty_room (Suc (length cs)) (12 + 12 * length cs) t" using Cons.prems by simp
  then obtain t1 where t1: "input_char alloc (pty_write_cb alloc) c t = Ret t1" "line_of t1 = line_step t c (line_of t)" "same_setup t t1"
      "tty_room (length cs) (12 * length cs) t1"
    using input_char_refines by blast
  from Cons.IH [OF t1(4)] show ?case using t1 line_step_setup [OF t1(3)] same_setup_trans [OF t1(3)] by auto
qed (simp add: same_setup_def)

text \<open>
  C26. Writing to the master side of a pseudo terminal implements the line discipline: as long as both buffers have room, the call takes all bytes, and what is
  queued for the slave, whether a line is complete, what is echoed to the master and which signals are sent is the result of the specification \<open>line_step\<close>
  applied to the bytes one after the other, in every mode of the terminal.
\<close>

theorem ptm_write_refines:
  assumes "tty_room (length src) (12 * length src) t"
  shows "\<exists>t'. ptm_write alloc t src = Ret (of_nat (length src), t') \<and> line_of t' = fold (line_step t) src (line_of t) \<and>
    termios t' = termios t \<and> fg_task t' = fg_task t"
  using input_loop_refines [OF assms, of alloc] by (auto simp: ptm_write_def term_input_def same_setup_def)

text \<open>A new pseudo terminal.\<close>

definition new_pty :: "tty" where
  "new_pty = (the (term_new zero_pages ''pts1''))\<lparr>ptm_buf := Some fresh_buffer\<rparr>"

lemma new_pty_room: "n \<le> 4096 \<Longrightarrow> m \<le> 4096 \<Longrightarrow> tty_room n m new_pty" "line_of new_pty = \<lparr>lq = [], ldone = False, lout = [], lsig = []\<rparr>"
  "termios new_pty = new_termios" "fg_task new_pty = 0"
proof -
  have f: "buffer_usable fresh_buffer" "contents fresh_buffer = []" "bf_pages fresh_buffer = 1"
    using fresh_buffer_ok by (simp_all add: buffer_usable_def) (simp add: fresh_buffer_def)
  obtain b where b: "buffer_new zero_pages 150 = Some b" by (simp add: buffer_new_def zero_pages_def)
  then have n: "buffer_usable b" "contents b = []" "bf_pages b = 1" using buffer_new_ok [OF zero_pages_ok, of 150 b] by (simp_all add: buffer_usable_def) (auto simp: buffer_new_def split: option.splits)
  show "n \<le> 4096 \<Longrightarrow> m \<le> 4096 \<Longrightarrow> tty_room n m new_pty" "line_of new_pty = \<lparr>lq = [], ldone = False, lout = [], lsig = []\<rparr>"
    "termios new_pty = new_termios" "fg_task new_pty = 0"
    using f n by (simp_all add: new_pty_def term_new_def b tty_room_def room_for_def line_of_def)
qed

theorem ptm_write_refines_witness:
  "\<exists>t'. ptm_write zero_pages new_pty [104, 105, 13] = Ret (3, t') \<and> lq (line_of t') = [104, 105, 10] \<and> ldone (line_of t')"
proof -
  have "tty_room (length [104, 105, 13 :: u8]) (12 * length [104, 105, 13 :: u8]) new_pty" by (intro new_pty_room) simp_all
  from ptm_write_refines [OF this, of zero_pages] show ?thesis
    by (auto simp: new_pty_room line_step_def canon_step_def is_cc_def lflag_def put_out_def new_termios_def default_c_cc_def VEOF_def VEOL_def VERASE_def VINTR_def
      ICRNL_def ICANON_def ISIG_def IEXTEN_def ECHO_def ECHOE_def ECHOK_def)
qed

section \<open>Typing a line\<close>

text \<open>Characters without a special meaning in the default setting.\<close>

definition ordinary :: "u8 \<Rightarrow> bool" where
  "ordinary c \<longleftrightarrow> c \<notin> {3, 4, 10, 13, 0x7f}"

lemma sint_eq: "sint (c :: u8) = sint (d :: u8) \<longleftrightarrow> c = d"
  by (metis signed_word_eqI)

lemma default_cc:
  assumes "termios t = new_termios"
  shows "is_cc t VEOF c = (c = 4)" "is_cc t VEOL c = (c = 10)" "is_cc t VERASE c = (c = 0x7f)" "is_cc t VINTR c = (c = 3)"
    "lflag t ECHO" "lflag t ICANON" "c_iflag (termios t) AND ICRNL \<noteq> 0" "c_oflag (termios t) AND ONLCR \<noteq> 0"
proof -
  show "is_cc t VEOF c = (c = 4)" "is_cc t VEOL c = (c = 10)" "is_cc t VERASE c = (c = 0x7f)" "is_cc t VINTR c = (c = 3)"
    using sint_eq [of c 4] sint_eq [of c 10] sint_eq [of c "0x7f"] sint_eq [of c 3]
    by (simp_all add: is_cc_def assms new_termios_def default_c_cc_def VEOF_def VEOL_def VERASE_def VINTR_def)
  show "lflag t ECHO" "lflag t ICANON" "c_iflag (termios t) AND ICRNL \<noteq> 0" "c_oflag (termios t) AND ONLCR \<noteq> 0"
    by (simp_all add: lflag_def assms new_termios_def ICRNL_def ICANON_def ISIG_def IEXTEN_def ECHO_def ECHOE_def ECHOK_def OPOST_def ONLCR_def)
qed

lemma step_ordinary:
  assumes "termios t = new_termios" "ordinary c"
  shows "line_step t c l = l\<lparr>lq := lq l @ [c], lout := lout l @ [c]\<rparr>"
  using assms(2) by (simp add: line_step_def canon_step_def default_cc [OF assms(1)] ordinary_def put_out_def cooked_def)

lemma fold_ordinary:
  "termios t = new_termios \<Longrightarrow> \<forall>c \<in> set cs. ordinary c \<Longrightarrow> fold (line_step t) cs l = l\<lparr>lq := lq l @ cs, lout := lout l @ cs\<rparr>"
  by (induction cs arbitrary: l) (simp_all add: step_ordinary)

lemma step_return:
  assumes "termios t = new_termios"
  shows "line_step t 13 l = l\<lparr>lq := lq l @ [10], lout := lout l @ [13, 10], ldone := True\<rparr>"
  by (simp add: line_step_def canon_step_def default_cc [OF assms] put_out_def cooked_def)

lemma step_erase:
  assumes "termios t = new_termios" "lq l \<noteq> []"
  shows "line_step t 0x7f l = l\<lparr>lq := tl (lq l), lout := lout l @ erase_seq\<rparr>"
  using assms(2) by (simp add: line_step_def canon_step_def default_cc [OF assms(1)] put_out_def cooked_def erase_seq_def)

text \<open>A line that is complete is read at once.\<close>

lemma read_line:
  assumes "tty_room n m t" "read_done t" "contents (input_buf t) \<noteq> []" "lflag t ICANON"
  shows "\<exists>t'. term_vfs_read (\<lambda>_. t) flags sz = Ret (TtyData (take (unat sz) (contents (input_buf t))) t') \<and> \<not> read_done t' \<and>
    contents (input_buf t') = drop (unat sz) (contents (input_buf t))"
proof -
  have r: "room_for n (input_buf t)" using assms(1) by (simp add: tty_room_def)
  have w: "wait_for (\<lambda>i. filled (input_buf t)) 0 = Ret 0" "wait_for (\<lambda>i. Ret (read_done t)) 0 = Ret 0"
    using assms(2,3) by (simp_all add: wait_for_def wait_until.simps filled_room [OF r])
  obtain b where "buffer_pop (input_buf t) sz = Ret (take (unat sz) (contents (input_buf t)), b)" "contents b = drop (unat sz) (contents (input_buf t))"
    using buffer_pop_room [OF r, of sz] by blast
  then show ?thesis using assms(2-4) w by (simp add: term_vfs_read_def filled_room [OF r])
qed

lemma typed_and_read:
  assumes r: "tty_room (length src) (12 * length src) t" and t: "termios t = new_termios"
    and l: "lq (fold (line_step t) src (line_of t)) = bytes" "ldone (fold (line_step t) src (line_of t))" "bytes \<noteq> []" and sz: "length bytes \<le> unat sz"
  shows "\<exists>t' t''. ptm_write alloc t src = Ret (of_nat (length src), t') \<and> lout (line_of t') = lout (fold (line_step t) src (line_of t)) \<and>
    term_vfs_read (\<lambda>_. t') flags sz = Ret (TtyData bytes t'') \<and> lq (line_of t'') = []"
proof -
  obtain t' where t': "input_loop alloc (pty_write_cb alloc) src t = Ret t'" "line_of t' = fold (line_step t) src (line_of t)" "same_setup t t'" "tty_room 0 0 t'"
    using input_loop_refines [OF r] by blast
  have "contents (input_buf t') = bytes" "read_done t'" using l(1,2) by (simp_all add: t'(2) [symmetric] line_of_sel)
  moreover have "lflag t' ICANON" using t'(3) default_cc(6) t by (simp add: same_setup_def)
  ultimately obtain t'' where "term_vfs_read (\<lambda>_. t') flags sz = Ret (TtyData (take (unat sz) bytes) t'')" "contents (input_buf t'') = drop (unat sz) bytes"
    using read_line [OF t'(4), of flags sz] l(3) by auto
  then show ?thesis using t'(1) sz by (auto simp: ptm_write_def term_input_def line_of_sel t'(2) [symmetric])
qed



text \<open>
  C38. The erase character removes the wrong character: \<^verbatim>\<open>buffer_pop\<close> takes from the front of the queue, so after typing a line, the erase character and a carriage
  return, the reader gets the line without its first character instead of its last one.
\<close>

theorem erase_removes_first:
  assumes "termios t = new_termios" "lq (line_of t) = []" "\<forall>x \<in> set (c # cs). ordinary x" "length cs < unat sz"
    "tty_room (length cs + 3) (12 * (length cs + 3)) t"
  shows "\<exists>t' t''. ptm_write alloc t ((c # cs) @ [0x7f, 13]) = Ret (of_nat (length cs + 3), t') \<and>
    term_vfs_read (\<lambda>_. t') flags sz = Ret (TtyData (cs @ [10]) t'')"
proof -
  have e: "fold (line_step t) ((c # cs) @ [0x7f, 13]) (line_of t) =
      (line_of t)\<lparr>lq := cs @ [10], lout := lout (line_of t) @ (c # cs) @ erase_seq @ [13, 10], ldone := True\<rparr>"
    unfolding fold_append comp_def fold_ordinary [OF assms(1,3)] using assms(2) by (simp add: step_erase [OF assms(1)] step_return [OF assms(1)])
  have r: "tty_room (length ((c # cs) @ [0x7f, 13])) (12 * length ((c # cs) @ [0x7f, 13])) t" using assms(5) by (simp add: numeral_3_eq_3)
  have "length (cs @ [10]) \<le> unat sz" using assms(4) by simp
  from typed_and_read [OF r assms(1) _ _ _ this, of alloc flags] show ?thesis unfolding e by (auto simp: numeral_3_eq_3)
qed

theorem erase_removes_first_witness:
  "\<exists>t' t''. ptm_write zero_pages new_pty ((104 # [105]) @ [0x7f, 13]) = Ret (of_nat (length [105 :: u8] + 3), t') \<and>
     term_vfs_read (\<lambda>_. t') 0 100 = Ret (TtyData ([105] @ [10]) t'')"
proof -
  have "tty_room (length [105 :: u8] + 3) (12 * (length [105 :: u8] + 3)) new_pty" by (intro new_pty_room) simp_all
  from erase_removes_first [OF new_pty_room(3) _ _ _ this, of 104 100 zero_pages 0] show ?thesis by (auto simp: new_pty_room(2) ordinary_def)
qed

section \<open>Settings\<close>

text \<open>All control characters are there, and only supported flags are set.\<close>

definition termios_wf :: "termios \<Rightarrow> bool" where
  "termios_wf m \<longleftrightarrow> length (c_cc m) = 32 \<and> supported m = m"

lemma supported_wf: "length (c_cc m) = 32 \<Longrightarrow> termios_wf (supported m)"
  by (simp add: termios_wf_def supported_def and.assoc)

lemma termios_bytes_of: "length (c_cc m) = 32 \<Longrightarrow> termios_of (termios_bytes m) = m"
proof -
  assume l: "length (c_cc m) = 32"
  define h where "h = put32 0 (c_iflag m) (put32 4 (c_oflag m) (put32 8 (c_cflag m) (put32 12 (c_lflag m) (replicate 16 0))))"
  have lh: "length h = 16" by (simp add: h_def)
  have g: "get32 (h @ c_cc m) i = get32 h i" if "i + 4 \<le> 16" for i using that lh by (intro get32_cong) (simp_all add: nth_append)
  have "get32 h 0 = c_iflag m" "get32 h 4 = c_oflag m" "get32 h 8 = c_cflag m" "get32 h 12 = c_lflag m" by (simp_all add: h_def)
  then show ?thesis using l lh by (simp add: termios_of_def termios_bytes_def h_def [symmetric] g)
qed

lemma termios_bytes_length: "length (c_cc m) = 32 \<Longrightarrow> length (termios_bytes m) = 48"
  by (simp add: termios_bytes_def)



end
