(* ===== verification/Keyboard.thy ===== *)
theory Keyboard
  imports Term_Props
begin

text \<open>
  The keyboard (\<^verbatim>\<open>src/tty/keyboard.c\<close> with the table of \<^verbatim>\<open>src/tty/keymap.h\<close>): the interrupt handler as a state machine over scan codes, and the device file.
  Talking to the controller and seeding the random numbers are not part of the model.
\<close>

section \<open>Key map\<close>

definition tty_keymap_en :: "u8 list" where
  "tty_keymap_en =
   ([0, 27, 49, 50, 51, 52, 53, 54, 55, 56, 57, 48, 45, 61, 127, 9,
    113, 119, 101, 114, 116, 121, 117, 105, 111, 112, 91, 93, 13, 0, 97, 115,
    100, 102, 103, 104, 106, 107, 108, 59, 39, 96, 0, 0, 122, 120, 99, 118,
    98, 110, 109, 44, 46, 47, 0, 0, 0, 32, 0, 0, 0, 0, 0, 0,
    0, 0, 0, 0, 0, 0, 0, 0, 0, 0, 0, 0, 0, 0, 0, 0,
    0, 0, 0, 0, 0, 0, 92] @ replicate 169 0) @
   ([0, 126, 33, 64, 35, 36, 37, 94, 38, 42, 40, 41, 95, 43, 8, 9,
    81, 87, 69, 82, 84, 89, 85, 73, 79, 80, 123, 125, 10, 0, 65, 83,
    68, 70, 71, 72, 74, 75, 76, 58, 34, 126, 0, 0, 90, 88, 67, 86,
    66, 78, 77, 60, 62, 63, 0, 0, 0, 32, 0, 0, 0, 0, 0, 0,
    0, 0, 0, 0, 0, 0, 0, 0, 0, 0, 0, 0, 0, 0, 0, 0,
    0, 0, 0, 0, 0, 0, 124] @ replicate 169 0)"

record tty_input_state =
  shift_left :: bool
  shift_right :: bool
  capslock :: bool
  control_left :: bool
  control_right :: bool
  alt_left :: bool
  alt_right :: bool
  code :: u16

text \<open>The comparison with the size is on the code before 256 is added; an access behind the table is \<open>None\<close>.\<close>

definition convert_to_char :: "tty_input_state \<Rightarrow> u8 option" where
  "convert_to_char input =
     (if 512 \<le> unat (code input) then Some 0
      else let chr = tty_keymap_en ! unat (code input) in
           if (control_left input \<or> control_right input) \<and> 97 \<le> sint chr \<and> sint chr \<le> 122
           then Some (if chr = 100 then 4 else if chr = 99 then 3 else chr - 97 + 1)
           else if (shift_left input \<or> shift_right input) \<noteq> capslock input
           then if unat (code input) + 256 < 512 then Some (tty_keymap_en ! (unat (code input) + 256)) else None
           else Some chr)"

text \<open>The escape sequences of keys.\<close>

definition key_sequences :: "(u16 \<times> u8 list) list" where
  "key_sequences =
     [(0x48, [27, 91, 65]), (0x50, [27, 91, 66]), (0x4d, [27, 91, 67]), (0x4b, [27, 91, 68]), (0x4f, [27, 91, 70]), (0x47, [27, 91, 72]),
      (0xd2, [27, 91, 76]), (0x49, [27, 91, 53, 126]), (0x51, [27, 91, 54, 126]), (0x52, [27, 91, 50, 126]), (0x53, [27, 91, 51, 126]),
      (0xbb, [27, 79, 80]), (0xbc, [27, 79, 81]), (0xbd, [27, 79, 82]), (0xbe, [27, 79, 83]), (0xbf, [27, 91, 49, 53, 126]),
      (0xc0, [27, 91, 49, 55, 126]), (0xc1, [27, 91, 49, 56, 126]), (0xc2, [27, 91, 49, 57, 126]), (0xc3, [27, 91, 50, 48, 126]),
      (0xc4, [27, 91, 50, 49, 126]), (0xd7, [27, 91, 50, 51, 126]), (0xd8, [27, 91, 50, 52, 126])]"

text \<open>What \<^verbatim>\<open>handle_noncanon\<close> passes on; \<open>None\<close>: an access behind the key map.\<close>

definition handle_noncanon :: "tty_input_state \<Rightarrow> u8 list option" where
  "handle_noncanon input =
     (case map_of key_sequences (code input) of
        Some seq \<Rightarrow> Some seq
      | None \<Rightarrow> map_option (\<lambda>c. if c = 0 then [] else [c]) (convert_to_char input))"

section \<open>Interrupts\<close>

text \<open>The static variables of the handler.\<close>

record kbd =
  state :: tty_input_state
  escape_wait :: bool

definition kbd_init :: kbd where
  "kbd_init = \<lparr>state = \<lparr>shift_left = False, shift_right = False, capslock = False, control_left = False, control_right = False,
     alt_left = False, alt_right = False, code = 0\<rparr>, escape_wait = False\<rparr>"

text \<open>The keys that only change the state.\<close>

definition modifier :: "tty_input_state \<Rightarrow> tty_input_state option" where
  "modifier s =
     (if code s = 0x2a then Some (s\<lparr>shift_left := True\<rparr>)
      else if code s = 0x36 then Some (s\<lparr>shift_right := True\<rparr>)
      else if code s = 0xaa then Some (s\<lparr>shift_left := False\<rparr>)
      else if code s = 0xb6 then Some (s\<lparr>shift_right := False\<rparr>)
      else if code s = 0x1d then Some (s\<lparr>control_left := True\<rparr>)
      else if code s = 0x3a then Some (s\<lparr>capslock := \<not> capslock s\<rparr>)
      else if code s = 0x101d then Some (s\<lparr>control_right := True\<rparr>)
      else if code s = 0x9d then Some (s\<lparr>control_left := False\<rparr>)
      else if code s = 0x109d then Some (s\<lparr>control_right := False\<rparr>)
      else if code s = 0x38 then Some (s\<lparr>alt_left := True\<rparr>)
      else if code s = 0x1038 then Some (s\<lparr>alt_right := True\<rparr>)
      else if code s = 0xb8 then Some (s\<lparr>alt_left := False\<rparr>)
      else if code s = 0x10b8 then Some (s\<lparr>alt_right := False\<rparr>)
      else None)"

text \<open>What an interrupt leads to: nothing, the selection of a display, bytes for the console or the device, or an access behind the key map.\<close>

datatype key_action = Nothing | Display nat | Bytes "u8 list" | Out_Of_Map

definition intr_handler :: "u8 \<Rightarrow> kbd \<Rightarrow> key_action \<times> kbd" where
  "intr_handler scan k =
     (let s = (state k)\<lparr>code := ucast scan\<rparr> in
      if code s = 0xe0
      then (Nothing, k\<lparr>state := (if escape_wait k then s\<lparr>code := code s + 0x1000\<rparr> else s), escape_wait := \<not> escape_wait k\<rparr>)
      else case modifier s of
             Some s \<Rightarrow> (Nothing, k\<lparr>state := s\<rparr>)
           | None \<Rightarrow>
               let k = k\<lparr>state := s\<rparr> in
               if (control_left s \<or> control_right s) \<and> (alt_left s \<or> alt_right s) \<and> 0xbb \<le> code s \<and> code s \<le> 0xc4
               then (Display (unat (code s - 0xbb)), k)
               else (case handle_noncanon s of None \<Rightarrow> (Out_Of_Map, k) | Some bs \<Rightarrow> (Bytes bs, k)))"

fun intr_run :: "u8 list \<Rightarrow> kbd \<Rightarrow> key_action list \<times> kbd" where
  "intr_run [] k = ([], k)"
| "intr_run (c # cs) k = (let (a, k) = intr_handler c k; (as, k) = intr_run cs k in (a # as, k))"

text \<open>Where the bytes go: to the console's terminal, or to the buffer of the device once it was opened.\<close>

definition kbd_deliver :: "vm_alloc \<Rightarrow> write_cb \<Rightarrow> bool \<Rightarrow> u8 list \<Rightarrow> tty \<times> buffer \<Rightarrow> (tty \<times> buffer) outcome" where
  "kbd_deliver alloc W forward_to_console bs tb =
     (let (t, b) = tb in
      if bs = [] then Ret (t, b)
      else if forward_to_console then obind (term_input alloc W t bs) (\<lambda>(_, t). Ret (t, b))
      else obind (buffer_write alloc b bs (of_nat (length bs))) (\<lambda>(_, _, b). Ret (t, b)))"

section \<open>The device\<close>

definition kbd_read :: "(nat \<Rightarrow> buffer) \<Rightarrow> u32 \<Rightarrow> u32 \<Rightarrow> (u8 list \<times> buffer) option outcome" where
  "kbd_read view flags sz =
     obind (filled (view 0)) (\<lambda>f.
       if \<not> f \<and> flags AND O_NONBLOCK \<noteq> 0 then Ret None
       else obind (wait_for (\<lambda>i. filled (view i)) 0) (\<lambda>i. obind (buffer_pop (view i) sz) (\<lambda>r. Ret (Some r))))"

definition kbd_poll :: "buffer \<Rightarrow> u32 \<Rightarrow> u32 outcome" where
  "kbd_poll b events = (if events AND POLLIN \<noteq> 0 then obind (filled b) (\<lambda>f. Ret (if f then POLLIN else 0)) else Ret 0)"

text \<open>The second component of the result is \<^verbatim>\<open>forward_to_console\<close>.\<close>

definition kbd_open :: "u32 \<Rightarrow> u32 \<Rightarrow> u32 \<Rightarrow> u32 \<Rightarrow> bool \<Rightarrow> 'w vfs \<Rightarrow> nat option \<times> bool \<times> 'w vfs" where
  "kbd_open read_fn poll_fn stat_fn access_fn forward s =
     (case vfs_alloc_fileno 0 s of
        (None, s) \<Rightarrow> (None, forward, s)
      | (Some i, s) \<Rightarrow>
          (Some i, False, upd_file i (\<lambda>f. f\<lparr>f_inode := 1, f_type := ucast FT_IFCHR, f_callbacks := (f_callbacks f)\<lparr>cb_read := read_fn,
             cb_poll := poll_fn, cb_stat := stat_fn, cb_access := access_fn\<rparr>\<rparr>) s))"

section \<open>Properties\<close>

lemma keymap_length: "length tty_keymap_en = 512"
  by (simp add: tty_keymap_en_def)

text \<open>The modifiers on the right and a code from a scan code.\<close>

definition kbd_ok :: "kbd \<Rightarrow> bool" where
  "kbd_ok k \<longleftrightarrow> \<not> control_right (state k) \<and> \<not> alt_right (state k)"

lemma modifier_ok:
  assumes "unat (code s) < 256" "\<not> control_right s" "\<not> alt_right s" "modifier s = Some s'"
  shows "\<not> control_right s' \<and> \<not> alt_right s'"
proof -
  have "code s \<noteq> 0x101d" "code s \<noteq> 0x1038" using assms(1) by auto
  then show ?thesis using assms(2-4) by (auto simp: modifier_def split: if_splits)
qed

lemma handle_noncanon_total:
  assumes "unat (code s) < 256"
  shows "handle_noncanon s \<noteq> None"
  using assms by (simp add: handle_noncanon_def convert_to_char_def Let_def split: option.splits)

lemma intr_handler_ok:
  assumes "kbd_ok k" "intr_handler c k = (a, k')"
  shows "kbd_ok k' \<and> a \<noteq> Out_Of_Map"
proof -
  let ?s = "(state k)\<lparr>code := ucast c\<rparr>"
  have "unat c < 256" using unsigned_less [of c] by simp
  then have c: "unat (code ?s) < 256" by (simp add: unsigned_ucast_eq take_bit_nat_eq_self)
  have k: "\<not> control_right ?s" "\<not> alt_right ?s" using assms(1) by (simp_all add: kbd_ok_def)
  obtain bs where bs: "handle_noncanon ?s = Some bs" using handle_noncanon_total [OF c] by blast
  show ?thesis
  proof (cases "code ?s = 0xe0")
    case True
    then show ?thesis using assms unfolding intr_handler_def Let_def if_P [OF True] by (cases "escape_wait k") (auto simp: kbd_ok_def)
  next
    case e0: False
    show ?thesis
    proof (cases "modifier ?s")
      case (Some s')
      have "k' = k\<lparr>state := s'\<rparr>" "a = Nothing" using assms(2) unfolding intr_handler_def Let_def if_not_P [OF e0] Some option.case by simp_all
      then show ?thesis using modifier_ok [OF c k Some] by (simp add: kbd_ok_def)
    next
      case None
      have "k' = k\<lparr>state := ?s\<rparr>" "a \<noteq> Out_Of_Map"
        using assms(2) unfolding intr_handler_def Let_def if_not_P [OF e0] None bs option.case by (simp_all split: if_splits) blast+
      then show ?thesis using k by (simp add: kbd_ok_def)
    qed
  qed
qed



end
