(* ===== verification/Console.thy ===== *)
theory Console
  imports Keyboard
begin

text \<open>
  The console (\<^verbatim>\<open>src/tty/console.c\<close>) between the terminal emulation and the frame buffer. The emulation (\<^verbatim>\<open>tmt.c\<close>) and the drawing of glyphs
  (\<^verbatim>\<open>gfx/fbtext.c\<close>) are not modelled: lines are what \<^verbatim>\<open>tmt_screen\<close> shows, and the calls into \<^verbatim>\<open>fbtext\<close> are collected as a list.
\<close>

section \<open>Cache of cells\<close>

record cell =
  chr :: u32
  fg :: u32
  bg :: u32

definition colors :: "u32 list" where
  "colors = [0x00000000, 0xfffd6883, 0xffadda78, 0xfff9cc6c, 0xffa8a9eb, 0xfff38d70, 0x85dacc, 0xfffff1f3, 0xffffffff]"

definition normalize_color :: "bool \<Rightarrow> int \<Rightarrow> u32" where
  "normalize_color is_fg orig = (if orig < 1 \<or> 8 < orig then if is_fg then 0xfffff1f3 else 0 else colors ! nat (orig - 1))"

text \<open>The foreground of a space is not seen.\<close>

definition same_cell :: "cell \<Rightarrow> cell \<Rightarrow> bool" where
  "same_cell a b \<longleftrightarrow> chr a = chr b \<and> bg a = bg b \<and> (chr a = 32 \<or> fg a = fg b)"

text \<open>The result is whether the entry was changed.\<close>

definition set_cache :: "nat \<Rightarrow> cell \<Rightarrow> cell list \<Rightarrow> bool \<times> cell list" where
  "set_cache i c cache = (if same_cell (cache ! i) c then (False, cache) else (True, cache[i := c]))"

section \<open>Drawing\<close>

datatype draw = Write nat nat cell | Clear nat nat nat | Cursor nat nat

text \<open>A character of the emulation: code and colours.\<close>

type_synonym tmt_char = "u32 \<times> int \<times> int"

definition cell_of :: "tmt_char \<Rightarrow> cell" where
  "cell_of c = (let (ch, f, b) = c in \<lparr>chr = ch, fg = normalize_color True f, bg = normalize_color False b\<rparr>)"

definition do_clear :: "nat \<Rightarrow> nat \<Rightarrow> nat \<Rightarrow> draw list" where
  "do_clear start row n = (if n \<noteq> 0 then [Clear start row n] else [])"

text \<open>The loop over the columns, with the start and the length of the run of blanks that is not cleared yet.\<close>

fun row_loop :: "nat \<Rightarrow> nat \<Rightarrow> nat \<Rightarrow> tmt_char list \<Rightarrow> nat \<Rightarrow> nat \<Rightarrow> cell list \<Rightarrow> draw list \<times> cell list" where
  "row_loop pitch row col [] start n cache = (do_clear start row n, cache)"
| "row_loop pitch row col (c # cs) start n cache =
     (let (changed, cache) = set_cache (col + row * pitch) (cell_of c) cache in
      if \<not> changed
      then let (ds, cache) = row_loop pitch row (Suc col) cs start 0 cache in (do_clear start row n @ ds, cache)
      else if chr (cell_of c) = 32 \<and> bg (cell_of c) = 0
      then row_loop pitch row (Suc col) cs (if n = 0 then col else start) (Suc n) cache
      else let (ds, cache) = row_loop pitch row (Suc col) cs start 0 cache in (do_clear start row n @ Write col row (cell_of c) # ds, cache))"

definition write_row :: "nat \<Rightarrow> tmt_char list \<Rightarrow> nat \<Rightarrow> cell list \<Rightarrow> draw list \<times> cell list" where
  "write_row pitch line row cache = row_loop pitch row 0 line 0 0 cache"

text \<open>All lines that are marked dirty.\<close>

fun update_rows :: "nat \<Rightarrow> (bool \<times> tmt_char list) list \<Rightarrow> nat \<Rightarrow> cell list \<Rightarrow> draw list \<times> cell list" where
  "update_rows pitch [] row cache = ([], cache)"
| "update_rows pitch ((dirty, line) # ls) row cache =
     (let (ds, cache) = (if dirty then write_row pitch line row cache else ([], cache));
          (es, cache) = update_rows pitch ls (Suc row) cache in (ds @ es, cache))"

record console =
  cursor_x :: nat
  cursor_y :: nat
  cache :: "cell list"
  cache_pitch :: nat

datatype tmt_msg = Moved nat nat | Update "(bool \<times> tmt_char list) list" | Answer "u8 list"

text \<open>The callback of the emulation: what is drawn, what goes to the terminal as input, and the console.\<close>

definition tmt_callback :: "tmt_msg \<Rightarrow> console \<Rightarrow> draw list \<times> u8 list \<times> console" where
  "tmt_callback m con =
     (case m of
        Update ls \<Rightarrow> (let (ds, c) = update_rows (cache_pitch con) ls 0 (cache con) in (ds, [], con\<lparr>cache := c\<rparr>))
      | Answer a \<Rightarrow> ([], a, con)
      | Moved x y \<Rightarrow>
          ([Write (cursor_x con) (cursor_y con) (cache con ! (cursor_x con + cursor_y con * cache_pitch con)), Cursor x y], [],
           con\<lparr>cursor_x := x, cursor_y := y\<rparr>))"

section \<open>What is on the screen\<close>

definition blank :: cell where
  "blank = \<lparr>chr = 32, fg = 0, bg = 0\<rparr>"

text \<open>The cells on the screen after a call; the cursor is drawn over the cell.\<close>

fun show_draw :: "draw \<Rightarrow> (nat \<times> nat \<Rightarrow> cell) \<Rightarrow> nat \<times> nat \<Rightarrow> cell" where
  "show_draw (Write x y c) scr = scr((x, y) := c)"
| "show_draw (Clear x y n) scr = (\<lambda>(a, b). if b = y \<and> x \<le> a \<and> a < x + n then blank else scr (a, b))"
| "show_draw (Cursor x y) scr = scr"

lemma same_cell_refl [simp]: "same_cell c c"
  by (simp add: same_cell_def)

lemma same_cell_trans: "same_cell a b \<Longrightarrow> same_cell b c \<Longrightarrow> same_cell a c"
  by (auto simp: same_cell_def)

lemma show_clear: "fold show_draw (do_clear start row n) scr = (\<lambda>(a, b). if b = row \<and> start \<le> a \<and> a < start + n then blank else scr (a, b))"
  by (auto simp: do_clear_def fun_eq_iff)

text \<open>The columns from \<open>col\<close> on show the line, the blanks before \<open>col\<close> that were left are cleared, and nothing else is different.\<close>

definition row_shown :: "nat \<Rightarrow> nat \<Rightarrow> nat \<Rightarrow> tmt_char list \<Rightarrow> nat \<Rightarrow> nat \<Rightarrow> (nat \<times> nat \<Rightarrow> cell) \<Rightarrow> (nat \<times> nat \<Rightarrow> cell) \<Rightarrow> cell list \<Rightarrow> cell list \<Rightarrow> bool" where
  "row_shown pitch row col cs start n scr scr' ca ca' \<longleftrightarrow> length ca' = length ca \<and>
     (\<forall>j < length cs. same_cell (scr' (col + j, row)) (cell_of (cs ! j)) \<and> same_cell (ca' ! (col + j + row * pitch)) (cell_of (cs ! j))) \<and>
     (\<forall>k. start \<le> k \<and> k < start + n \<longrightarrow> scr' (k, row) = blank) \<and>
     (\<forall>x y. y \<noteq> row \<or> x < col \<and> \<not> (start \<le> x \<and> x < start + n) \<or> col + length cs \<le> x \<longrightarrow> scr' (x, y) = scr (x, y)) \<and>
     (\<forall>i. i < col + row * pitch \<or> col + length cs + row * pitch \<le> i \<longrightarrow> ca' ! i = ca ! i)"

lemma row_shown_step:
  assumes t: "row_shown pitch row (Suc col) cs start' n' scr1 scr' ca1 ca'" and l: "length ca1 = length ca"
    and here: "same_cell (scr' (col, row)) (cell_of c)" "same_cell (ca1 ! (col + row * pitch)) (cell_of c)"
    and pend: "\<And>k. start \<le> k \<Longrightarrow> k < start + n \<Longrightarrow> scr' (k, row) = blank"
    and frame: "\<And>x y. y \<noteq> row \<or> x < col \<and> \<not> (start \<le> x \<and> x < start + n) \<or> Suc col + length cs \<le> x \<Longrightarrow> scr' (x, y) = scr (x, y)"
    and fc: "\<And>i. i \<noteq> col + row * pitch \<Longrightarrow> ca1 ! i = ca ! i"
  shows "row_shown pitch row col (c # cs) start n scr scr' ca ca'"
  unfolding row_shown_def
proof (intro conjI allI impI)
  note t' = t [unfolded row_shown_def]
  show "length ca' = length ca" using t' l by simp
  fix j assume "j < length (c # cs)"
  then show "same_cell (scr' (col + j, row)) (cell_of ((c # cs) ! j))" "same_cell (ca' ! (col + j + row * pitch)) (cell_of ((c # cs) ! j))"
    using t' here by (cases j; auto)+
next
  note t' = t [unfolded row_shown_def]
  fix i assume "i < col + row * pitch \<or> col + length (c # cs) + row * pitch \<le> i"
  then have "i < Suc col + row * pitch \<or> Suc col + length cs + row * pitch \<le> i" "i \<noteq> col + row * pitch" by auto
  then show "ca' ! i = ca ! i" using t' fc by metis
qed (use pend frame in auto)

lemma row_loop_shows:
  "\<forall>j < length cs. same_cell (scr (col + j, row)) (ca ! (col + j + row * pitch)) \<Longrightarrow> n = 0 \<or> start + n = col \<Longrightarrow> col + length cs + row * pitch \<le> length ca \<Longrightarrow>
   row_loop pitch row col cs start n ca = (ds, ca') \<Longrightarrow> row_shown pitch row col cs start n scr (fold show_draw ds scr) ca ca'"
proof (induction cs arbitrary: col start n scr ca ds)
  case Nil
  then show ?case by (auto simp: row_shown_def show_clear)
next
  case (Cons c cs)
  let ?i = "col + row * pitch"
  define clr where "clr = fold show_draw (do_clear start row n) scr"
  have i: "?i < length ca" using Cons.prems(3) by simp
  have h: "same_cell (scr (col, row)) (ca ! ?i)" using Cons.prems(1) by auto
  have rest: "\<forall>j < length cs. same_cell (scr (Suc col + j, row)) (ca ! (Suc col + j + row * pitch))" using Cons.prems(1) by auto
  have lt: "Suc col + length cs + row * pitch \<le> length ca" using Cons.prems(3) by simp
  have cr: "clr (x, y) = scr (x, y)" if "y \<noteq> row \<or> col \<le> x \<or> \<not> (start \<le> x \<and> x < start + n)" for x y
    using that Cons.prems(2) by (auto simp: clr_def show_clear)
  have cb: "clr (k, row) = blank" "k < col" if "start \<le> k" "k < start + n" for k using that Cons.prems(2) by (auto simp: clr_def show_clear)
  show ?case
  proof (cases "same_cell (ca ! ?i) (cell_of c)")
    case True
    then obtain es where es: "row_loop pitch row (Suc col) cs start 0 ca = (es, ca')" "ds = do_clear start row n @ es"
      using Cons.prems(4) by (auto simp: set_cache_def split: prod.splits)
    let ?s = "fold show_draw ds scr"
    have "\<forall>j < length cs. same_cell (clr (Suc col + j, row)) (ca ! (Suc col + j + row * pitch))" using rest cr by simp
    then have t: "row_shown pitch row (Suc col) cs start 0 clr ?s ca ca'" using Cons.IH [OF _ _ lt es(1), of clr] by (simp add: es(2) clr_def)
    then have f: "?s (x, y) = clr (x, y)" if "y \<noteq> row \<or> x < Suc col \<or> Suc col + length cs \<le> x" for x y using that unfolding row_shown_def by auto
    have "same_cell (?s (col, row)) (cell_of c)" using same_cell_trans [OF h True] by (simp add: f cr)
    moreover have "?s (k, row) = blank" if "start \<le> k" "k < start + n" for k using cb [OF that] by (simp add: f)
    ultimately show ?thesis using True by (intro row_shown_step [OF t refl]) (auto simp: f cr)
  next
    case new: False
    let ?ca = "ca[?i := cell_of c]"
    have rest': "\<forall>j < length cs. same_cell (scr (Suc col + j, row)) (?ca ! (Suc col + j + row * pitch))" using rest by simp
    have lt': "Suc col + length cs + row * pitch \<le> length ?ca" using lt by simp
    have hc: "same_cell (?ca ! ?i) (cell_of c)" using i by simp
    show ?thesis
    proof (cases "chr (cell_of c) = 32 \<and> bg (cell_of c) = 0")
      case True
      let ?st = "if n = 0 then col else start"
      have e: "row_loop pitch row (Suc col) cs ?st (Suc n) ?ca = (ds, ca')" using Cons.prems(4) new True by (simp add: set_cache_def)
      have st: "?st + Suc n = Suc col" using Cons.prems(2) by auto
      have t: "row_shown pitch row (Suc col) cs ?st (Suc n) scr (fold show_draw ds scr) ?ca ca'" using Cons.IH [OF rest' _ lt' e] st by simp
      have b: "fold show_draw ds scr (k, row) = blank" if "?st \<le> k" "k < Suc col" for k using t that st unfolding row_shown_def by simp
      have "same_cell blank (cell_of c)" using True by (simp add: same_cell_def blank_def)
      then have "same_cell (fold show_draw ds scr (col, row)) (cell_of c)" using b [of col] Cons.prems(2) by auto
      then show ?thesis using Cons.prems(2) b t st by (intro row_shown_step [OF t _ _ hc]) (auto simp: row_shown_def split: if_splits)
    next
      case False
      then obtain es where es: "row_loop pitch row (Suc col) cs start 0 ?ca = (es, ca')" "ds = do_clear start row n @ Write col row (cell_of c) # es"
        using Cons.prems(4) new by (auto simp: set_cache_def split: prod.splits)
      let ?w = "clr((col, row) := cell_of c)" and ?s = "fold show_draw ds scr"
      have "\<forall>j < length cs. same_cell (?w (Suc col + j, row)) (?ca ! (Suc col + j + row * pitch))" using rest' cr by simp
      then have t: "row_shown pitch row (Suc col) cs start 0 ?w ?s ?ca ca'" using Cons.IH [OF _ _ lt' es(1), of ?w] by (simp add: es(2) clr_def fun_upd_def)
      then have f: "?s (x, y) = ?w (x, y)" if "y \<noteq> row \<or> x < Suc col \<or> Suc col + length cs \<le> x" for x y using that unfolding row_shown_def by auto
      have "?s (col, row) = cell_of c" using f [of row col] by simp
      moreover have "?s (k, row) = blank" if "start \<le> k" "k < start + n" for k using cb [OF that] by (simp add: f)
      ultimately show ?thesis by (intro row_shown_step [OF t _ _ hc]) (auto simp: f cr)
    qed
  qed
qed

text \<open>
  C35. Drawing a line through the cache shows it: if the cache agrees with the screen, then after \<^verbatim>\<open>write_row\<close> every cell of the row shows its character in
  its colours (the foreground of a space aside), although unchanged cells are skipped and runs of blanks are cleared at once; other cells of the screen and of the cache are as before,
  and the cache agrees with the screen again.
\<close>

theorem write_row_shows:
  assumes "\<forall>x < length line. same_cell (scr (x, row)) (ca ! (x + row * pitch))" "length line + row * pitch \<le> length ca" "write_row pitch line row ca = (ds, ca')"
  shows "(\<forall>x < length line. same_cell (fold show_draw ds scr (x, row)) (cell_of (line ! x)) \<and> same_cell (ca' ! (x + row * pitch)) (cell_of (line ! x))) \<and>
    (\<forall>x y. y \<noteq> row \<or> length line \<le> x \<longrightarrow> fold show_draw ds scr (x, y) = scr (x, y)) \<and>
    (\<forall>i. i < row * pitch \<or> length line + row * pitch \<le> i \<longrightarrow> ca' ! i = ca ! i)"
  using row_loop_shows [of line scr 0 row ca pitch 0 0 ds ca'] assms by (auto simp: row_shown_def write_row_def)

theorem write_row_shows_witness:
  "\<exists>ds ca'. write_row 3 [(65, -1, -1), (32, -1, -1), (66, 2, -1)] 0 (replicate 3 \<lparr>chr = 67, fg = 1, bg = 0\<rparr>) = (ds, ca') \<and>
     same_cell (fold show_draw ds (\<lambda>_. \<lparr>chr = 67, fg = 1, bg = 0\<rparr>) (1, 0)) blank"
proof -
  let ?l = "[(65, -1, -1), (32, -1, -1), (66, 2, -1)] :: tmt_char list" and ?c = "\<lparr>chr = 67, fg = 1, bg = 0\<rparr> :: cell"
  obtain ds ca' where w: "write_row 3 ?l 0 (replicate 3 ?c) = (ds, ca')" by fastforce
  have "same_cell (fold show_draw ds (\<lambda>_. ?c) (1, 0)) (cell_of (?l ! 1))"
    using write_row_shows [OF _ _ w, of "\<lambda>_. ?c"] by auto
  moreover have "same_cell (cell_of (?l ! 1)) blank" by (simp add: same_cell_def cell_of_def blank_def normalize_color_def)
  ultimately show ?thesis using w same_cell_trans by blast
qed

end
