(* ===== verification/Tty.thy ===== *)
theory Tty
  imports Console Sysfs_Props
begin

text \<open>
  The start of the terminals: the devices of \<^verbatim>\<open>src/tty/term.c\<close>, \<^verbatim>\<open>pty.c\<close> and \<^verbatim>\<open>keyboard.c\<close> in the tables of \<^verbatim>\<open>sysfs\<close>, and
  \<^verbatim>\<open>tty_console_init\<close>. The addresses \<^verbatim>\<open>zmalloc\<close> returns for the entries are parameters.
\<close>

section \<open>Initialisation\<close>

text \<open>The buffer of the keyboard and its device; without a buffer neither the interrupt handler nor the device is registered.\<close>

definition tty_keyboard_init :: "vm_alloc \<Rightarrow> u32 \<Rightarrow> u32 \<Rightarrow> 'x sysfs_scheme \<Rightarrow> (buffer option \<times> 'x sysfs_scheme) option" where
  "tty_keyboard_init alloc fp open_fn s =
     (case buffer_new alloc 10 of
        None \<Rightarrow> Some (None, s)
      | Some b \<Rightarrow> map_option (Pair (Some b)) (sysfs_add_dev fp ''keyboard1'' (no_callbacks\<lparr>cb_open := open_fn\<rparr>) s))"

definition pty_init :: "u32 \<Rightarrow> u32 \<Rightarrow> 'x sysfs_scheme \<Rightarrow> 'x sysfs_scheme option" where
  "pty_init fp open_fn s = sysfs_add_dev fp ''ptmx'' (no_callbacks\<lparr>cb_open := open_fn\<rparr>) s"

definition term_init :: "vm_alloc \<Rightarrow> (nat \<Rightarrow> u32) \<Rightarrow> tty_fns \<Rightarrow> u32 \<Rightarrow> u32 \<Rightarrow> 'x sysfs_scheme \<Rightarrow> (buffer option \<times> 'x sysfs_scheme) option" where
  "term_init alloc fp fns kbd_fn ptmx_fn s = do {
     (b, s) \<leftarrow> tty_keyboard_init alloc (fp 0) kbd_fn s;
     s \<leftarrow> sysfs_add_dev (fp 1) ''tty'' (term_cb fns) s;
     s \<leftarrow> sysfs_add_dev (fp 2) ''stdin'' (term_cb fns) s;
     s \<leftarrow> sysfs_add_dev (fp 3) ''stdout'' (term_cb fns) s;
     s \<leftarrow> sysfs_add_dev (fp 4) ''stderr'' (term_cb fns) s;
     s \<leftarrow> pty_init (fp 5) ptmx_fn s;
     Some (b, s)
   }"

text \<open>
  The console's terminal with the size of the screen and the cache of cells, all zero; \<open>cache_ok\<close> tells whether \<^verbatim>\<open>zmalloc\<close> could allocate it and \<open>vt_ok\<close> whether
  \<^verbatim>\<open>tmt_open\<close> succeeds. The result of \<^verbatim>\<open>term_new\<close> is used without a check.
\<close>

definition tty_console_init :: "vm_alloc \<Rightarrow> bool \<Rightarrow> bool \<Rightarrow> nat \<Rightarrow> nat \<Rightarrow> (tty \<times> console) outcome" where
  "tty_console_init alloc cache_ok vt_ok cols rows =
     (case term_new alloc ''console'' of
        None \<Rightarrow> Fault
      | Some t \<Rightarrow>
          let t = t\<lparr>winsize := (winsize t)\<lparr>ws_row := of_nat rows, ws_col := of_nat cols\<rparr>\<rparr> in
          if \<not> cache_ok \<or> \<not> vt_ok then Panic
          else Ret (t, \<lparr>cursor_x = 0, cursor_y = 0, cache = replicate (cols * rows) \<lparr>chr = 0, fg = 0, bg = 0\<rparr>, cache_pitch = cols\<rparr>))"

section \<open>The devices are found\<close>

text \<open>The entries that \<^verbatim>\<open>term_init\<close> registers, the newest one first.\<close>

definition tty_devices :: "(nat \<Rightarrow> u32) \<Rightarrow> tty_fns \<Rightarrow> u32 \<Rightarrow> u32 \<Rightarrow> (string \<times> u32 \<times> vfs_callbacks) list" where
  "tty_devices fp fns kbd_fn ptmx_fn =
     [(''ptmx'', fp 5, no_callbacks\<lparr>cb_open := ptmx_fn\<rparr>), (''stderr'', fp 4, term_cb fns), (''stdout'', fp 3, term_cb fns),
      (''stdin'', fp 2, term_cb fns), (''tty'', fp 1, term_cb fns), (''keyboard1'', fp 0, no_callbacks\<lparr>cb_open := kbd_fn\<rparr>)]"

lemma add_dev_rep:
  assumes "sysfs_rep s T" "sysfs_name n" "sysfs_fresh (a, cb) T"
  obtains s' where "sysfs_add_dev a n cb s = Some s'" "sysfs_rep s' (T(Dev := (n, a, cb) # T Dev))"
  using sf.add_law [OF assms, of Dev] by (auto simp: sysfs_add_dev_def)

text \<open>Names that are found, in order, after a list of registrations under fresh addresses.\<close>

lemma term_init_rep:
  assumes rep: "sysfs_rep s T" and b: "buffer_new alloc 10 = Some b" and d: "distinct (map fp [0..<6])"
    and fresh: "\<forall>i < 6. fp i \<noteq> 0 \<and> fp i \<notin> set (addrs (T Sys @ T Dev))"
  shows "\<exists>s'. term_init alloc fp fns kbd_fn ptmx_fn s = Some (Some b, s') \<and> sysfs_rep s' (T(Dev := tty_devices fp fns kbd_fn ptmx_fn @ T Dev))"
proof -
  have f: "fp i \<noteq> 0" "fp i \<notin> set (addrs (T Sys))" "fp i \<notin> set (addrs (T Dev))" if "i < 6" for i using fresh that by auto
  have [simp]: "[0..<6] = [0, 1, 2, 3, 4, 5 :: nat]" by code_simp
  have ne: "fp 0 \<noteq> fp 1" "fp 0 \<noteq> fp 2" "fp 0 \<noteq> fp 3" "fp 0 \<noteq> fp 4" "fp 0 \<noteq> fp 5" "fp 1 \<noteq> fp 2" "fp 1 \<noteq> fp 3" "fp 1 \<noteq> fp 4" "fp 1 \<noteq> fp 5"
    "fp 2 \<noteq> fp 3" "fp 2 \<noteq> fp 4" "fp 2 \<noteq> fp 5" "fp 3 \<noteq> fp 4" "fp 3 \<noteq> fp 5" "fp 4 \<noteq> fp 5"
    using d by (simp_all del: One_nat_def)
  note fr = sysfs_fresh_def f ne ne [symmetric] sysfs_name_def NUL_def
  obtain s0 where s0: "sysfs_add_dev (fp 0) ''keyboard1'' (no_callbacks\<lparr>cb_open := kbd_fn\<rparr>) s = Some s0"
      and r0: "sysfs_rep s0 (T(Dev := (''keyboard1'', fp 0, no_callbacks\<lparr>cb_open := kbd_fn\<rparr>) # T Dev))"
    by (rule add_dev_rep [OF rep]) (auto simp: fr)
  obtain s1 where s1: "sysfs_add_dev (fp 1) ''tty'' (term_cb fns) s0 = Some s1" and r1: "sysfs_rep s1 (T(Dev := drop 4 (tty_devices fp fns kbd_fn ptmx_fn) @ T Dev))"
    by (rule add_dev_rep [OF r0, where n = "''tty''" and a = "fp 1" and cb = "term_cb fns"]) (auto simp: fr tty_devices_def simp del: One_nat_def)
  obtain s2 where s2: "sysfs_add_dev (fp 2) ''stdin'' (term_cb fns) s1 = Some s2" and r2: "sysfs_rep s2 (T(Dev := drop 3 (tty_devices fp fns kbd_fn ptmx_fn) @ T Dev))"
    by (rule add_dev_rep [OF r1, where n = "''stdin''" and a = "fp 2" and cb = "term_cb fns"]) (auto simp: fr tty_devices_def simp del: One_nat_def)
  obtain s3 where s3: "sysfs_add_dev (fp 3) ''stdout'' (term_cb fns) s2 = Some s3" and r3: "sysfs_rep s3 (T(Dev := drop 2 (tty_devices fp fns kbd_fn ptmx_fn) @ T Dev))"
    by (rule add_dev_rep [OF r2, where n = "''stdout''" and a = "fp 3" and cb = "term_cb fns"]) (auto simp: fr tty_devices_def simp del: One_nat_def)
  obtain s4 where s4: "sysfs_add_dev (fp 4) ''stderr'' (term_cb fns) s3 = Some s4" and r4: "sysfs_rep s4 (T(Dev := tl (tty_devices fp fns kbd_fn ptmx_fn) @ T Dev))"
    by (rule add_dev_rep [OF r3, where n = "''stderr''" and a = "fp 4" and cb = "term_cb fns"]) (auto simp: fr tty_devices_def simp del: One_nat_def)
  obtain s5 where s5: "pty_init (fp 5) ptmx_fn s4 = Some s5" and r5: "sysfs_rep s5 (T(Dev := tty_devices fp fns kbd_fn ptmx_fn @ T Dev))"
    unfolding pty_init_def
    by (rule add_dev_rep [OF r4, where n = "''ptmx''" and a = "fp 5" and cb = "no_callbacks\<lparr>cb_open := ptmx_fn\<rparr>"]) (auto simp: fr tty_devices_def simp del: One_nat_def)
  show ?thesis using s0 s1 s2 s3 s4 s5 r5 by (simp add: term_init_def tty_keyboard_init_def b)
qed

text \<open>After the initialisation a program finds the terminal under the names of its standard files.\<close>

lemma term_init_lookup:
  assumes "sysfs_rep s T" "buffer_new alloc 10 = Some b" "distinct (map fp [0..<6])" "\<forall>i < 6. fp i \<noteq> 0 \<and> fp i \<notin> set (addrs (T Sys @ T Dev))"
  shows "\<exists>s'. term_init alloc fp fns kbd_fn ptmx_fn s = Some (Some b, s') \<and> sysfs_lookup Dev ''stdin'' s' = Some (Some (fp 2, term_cb fns)) \<and>
    sysfs_lookup Dev ''stdout'' s' = Some (Some (fp 3, term_cb fns)) \<and> sysfs_lookup Dev ''stderr'' s' = Some (Some (fp 4, term_cb fns))"
proof -
  obtain s' where s': "term_init alloc fp fns kbd_fn ptmx_fn s = Some (Some b, s')" "sysfs_rep s' (T(Dev := tty_devices fp fns kbd_fn ptmx_fn @ T Dev))"
    using term_init_rep [OF assms] by blast
  then show ?thesis using sf.lookup_law [OF s'(2), of _ Dev] by (simp add: tty_devices_def sysfs_name_def NUL_def)
qed

end
