(* ===== verification/Task_Mem.thy ===== *)
theory Task_Mem
  imports Vm_Map CString "HOL-Library.Signed_Division"
begin

text \<open>
  The memory of tasks (\<^verbatim>\<open>src/tasks/mem.c\<close>): growth of the stack on page faults, \<^verbatim>\<open>sbrk\<close>, \<^verbatim>\<open>mmap\<close>, and copying arrays of strings out of a task.
\<close>

section \<open>Data\<close>

definition TASK_STACK_LOCATION :: u32 where "TASK_STACK_LOCATION = 0xc0000000"
definition MMAP_BASE :: u32 where "MMAP_BASE = 0xa000000"

definition PROT_NONE :: u32 where "PROT_NONE = 1"
definition PROT_READ :: u32 where "PROT_READ = 2"
definition PROT_WRITE :: u32 where "PROT_WRITE = 4"
definition MAP_SHARED :: u32 where "MAP_SHARED = 2"
definition MAP_ANONYMOUS :: u32 where "MAP_ANONYMOUS = 4"
definition MAP_FIXED :: u32 where "MAP_FIXED = 8"

text \<open>The fields of \<^verbatim>\<open>task_t\<close> that these functions use; \<open>tm_vmem\<close> is the address of the task's context, \<open>tm_errno\<close> is \<^verbatim>\<open>sc_errno\<close>.\<close>

record tmem =
  tm_vmem :: u32
  tm_sbrk :: u32
  tm_stack_size :: u32
  tm_errno :: "errno option"

record task_mmap_ctx =
  mm_addr :: u32
  mm_len :: u32
  mm_prot :: u32
  mm_flags :: u32

section \<open>Stack\<close>

definition stack_lower :: "tmem \<Rightarrow> u32" where
  "stack_lower t = TASK_STACK_LOCATION - tm_stack_size t"

definition task_stack_grow :: "table_allocator \<Rightarrow> u32 \<Rightarrow> tmem \<Rightarrow> vm \<Rightarrow> (int \<times> tmem \<times> vm) outcome" where
  "task_stack_grow alloc alloc_size t s =
     (if PAGE_SIZE * 512 < tm_stack_size t + alloc_size then Ret (- 1, t\<lparr>tm_errno := Some ENOMEM\<rparr>, s)
      else obind (vm_alloc_at alloc (tm_vmem t) (RDIV alloc_size PAGE_SIZE) (stack_lower t - alloc_size) 0
                    (VM_USER OR VM_RW OR VM_FREE OR VM_NOCOW OR VM_TFORK OR VM_ZERO OR VM_FIXED) s)
             (\<lambda>(v, _, s). if v = 0 then Ret (- 1, t, s) else Ret (0, t\<lparr>tm_stack_size := tm_stack_size t + alloc_size\<rparr>, s)))"

definition task_page_fault_cb :: "table_allocator \<Rightarrow> u32 \<Rightarrow> tmem \<Rightarrow> vm \<Rightarrow> (int \<times> tmem \<times> vm) outcome" where
  "task_page_fault_cb alloc addr t s =
     (let addr = ALIGN_DOWN addr PAGE_SIZE in
      if stack_lower t \<le> addr then Ret (- 1, t, s)
      else task_stack_grow alloc (stack_lower t - addr + PAGE_SIZE) t s)"

section \<open>Heap\<close>

text \<open>
  \<open>RDIV\<close> of a signed length: the division rounds towards zero. Aligning a length above \<^verbatim>\<open>0x7ffff000\<close> makes it negative. The break is moved before the
  allocation, also if that fails.
\<close>

definition sbrk_pages :: "u32 \<Rightarrow> u32" where
  "sbrk_pages len = word_of_int ((sint len + 4095) sdiv 4096)"

definition task_sbrk :: "table_allocator \<Rightarrow> u32 \<Rightarrow> tmem \<Rightarrow> vm \<Rightarrow> (u32 \<times> tmem \<times> vm) outcome" where
  "task_sbrk alloc len t s =
     (if sint len \<le> 0 then Ret (tm_sbrk t, t, s)
      else let len = ALIGN len PAGE_SIZE; virt_addr = tm_sbrk t; t = t\<lparr>tm_sbrk := tm_sbrk t + len\<rparr> in
           obind (vm_alloc_at alloc (tm_vmem t) (sbrk_pages len) virt_addr 0
                    (VM_USER OR VM_RW OR VM_NOCOW OR VM_TFORK OR VM_FREE OR VM_FIXED) s)
             (\<lambda>(v, _, s). Ret (if v = 0 then - 1 else virt_addr, t, s)))"

definition task_mmap :: "table_allocator \<Rightarrow> task_mmap_ctx \<Rightarrow> tmem \<Rightarrow> vm \<Rightarrow> (u32 \<times> tmem \<times> vm) outcome" where
  "task_mmap alloc ctx t s =
     (if mm_len ctx = 0 then Ret (0, t\<lparr>tm_errno := Some EINVAL\<rparr>, s)
      else if mm_flags ctx AND MAP_ANONYMOUS = 0 then Ret (0, t\<lparr>tm_errno := Some ENOSYS\<rparr>, s)
      else if mm_flags ctx AND MAP_SHARED \<noteq> 0 then Ret (0, t\<lparr>tm_errno := Some ENOTSUP\<rparr>, s)
      else if mm_prot ctx AND PROT_NONE \<noteq> 0 \<or> mm_prot ctx AND PROT_READ = 0 then Ret (0, t\<lparr>tm_errno := Some ENOTSUP\<rparr>, s)
      else let vaflags = VM_USER OR VM_NOCOW OR VM_TFORK OR VM_FREE;
               vaflags = (if mm_prot ctx AND PROT_WRITE \<noteq> 0 then vaflags OR VM_RW else vaflags);
               req = mm_addr ctx in
           if mm_flags ctx AND MAP_FIXED \<noteq> 0 \<and> req = 0 then Ret (0, t\<lparr>tm_errno := Some EINVAL\<rparr>, s)
           else let vaflags = (if mm_flags ctx AND MAP_FIXED \<noteq> 0 then vaflags OR VM_FIXED else vaflags);
                    req = (if req = 0 then MMAP_BASE else req) in
                obind (vm_alloc_at alloc (tm_vmem t) (RDIV (mm_len ctx) PAGE_SIZE) req 0 vaflags s)
                  (\<lambda>(addr, _, s). Ret (if addr = 0 then - 1 else addr, t, s)))"

section \<open>Arrays of strings\<close>

text \<open>A byte as the kernel reads it, and a string of at most \<open>n\<close> bytes from an address.\<close>

definition kbyte :: "vm \<Rightarrow> u32 \<Rightarrow> char outcome" where
  "kbyte s v = (case deref s v of None \<Rightarrow> Fault | Some p \<Rightarrow> Ret (char_of (unat (pmem s p))))"

fun kbytes :: "vm \<Rightarrow> u32 \<Rightarrow> nat \<Rightarrow> string outcome" where
  "kbytes s v 0 = Ret []"
| "kbytes s v (Suc n) = obind (kbyte s v) (\<lambda>c. if c = NUL then Ret [] else obind (kbytes s (v + 1) n) (\<lambda>cs. Ret (c # cs)))"

text \<open>The pointer at an index of an array in kernel memory.\<close>

definition kword :: "vm \<Rightarrow> u32 \<Rightarrow> u32 outcome" where
  "kword s v =
     obind (kbyte s v) (\<lambda>a. obind (kbyte s (v + 1)) (\<lambda>b. obind (kbyte s (v + 2)) (\<lambda>c. obind (kbyte s (v + 3)) (\<lambda>d.
       Ret (of_nat (of_char a) OR push_bit 8 (of_nat (of_char b)) OR push_bit 16 (of_nat (of_char c)) OR push_bit 24 (of_nat (of_char d)))))))"

text \<open>The number of entries before \<^verbatim>\<open>NULL\<close>, at most 200, and the entries.\<close>

fun count_entries :: "vm \<Rightarrow> u32 \<Rightarrow> nat \<Rightarrow> u32 list outcome" where
  "count_entries s arr 0 = Ret []"
| "count_entries s arr (Suc n) = obind (kword s arr) (\<lambda>w. if w = 0 then Ret [] else obind (count_entries s (arr + 4) n) (\<lambda>ws. Ret (w # ws)))"

text \<open>
  What comes back: the strings; \<^verbatim>\<open>NULL\<close>, with the state of the mappings; or \<^verbatim>\<open>NULL\<close> after \<^verbatim>\<open>SIGSEGV\<close>. A second attempt that fails leaves the
  mapping and the strings that were copied allocated. \<open>max_length\<close> is carried over to the next strings. \<^verbatim>\<open>strlcpy\<close> in \<^verbatim>\<open>strndup\<close> reads the whole
  string, also behind \<open>max_length\<close>.
\<close>

datatype copy_result = Copied "string list" | CopyFailed | CopySegv

definition map_string :: "table_allocator \<Rightarrow> u32 \<Rightarrow> u32 \<Rightarrow> u32 \<Rightarrow> vm \<Rightarrow> (u32 \<times> u32 \<times> vm_range option \<times> vm) outcome" where
  "map_string alloc ctx ptr max_length s =
     obind (vm_map alloc (VM_KERNEL s) ctx ptr 1024 0 s) (\<lambda>(v, r, s).
       if v \<noteq> 0 then Ret (v, max_length, r, s)
       else let max_length = ALIGN ptr PAGE_SIZE - ptr - 1 in
            obind (vm_map alloc (VM_KERNEL s) ctx ptr max_length 0 s) (\<lambda>(v, r, s). Ret (v, max_length, r, s)))"

fun copy_loop :: "table_allocator \<Rightarrow> u32 \<Rightarrow> u32 \<Rightarrow> u32 list \<Rightarrow> string list \<Rightarrow> vm \<Rightarrow> (copy_result \<times> vm) outcome" where
  "copy_loop alloc ctx max_length [] acc s = Ret (Copied (rev acc), s)"
| "copy_loop alloc ctx max_length (p # ps) acc s =
     obind (map_string alloc ctx p max_length s) (\<lambda>(v, max_length, r, s).
       case r of
         None \<Rightarrow> Ret (CopyFailed, s)
       | Some r \<Rightarrow>
           obind (kbytes s v (2 ^ 32)) (\<lambda>str.
           obind (vm_free r s) (\<lambda>s.
             let copy = take (unat max_length) str in
             if length copy = unat max_length then Ret (CopySegv, s)
             else copy_loop alloc ctx max_length ps (copy # acc) s)))"

definition task_copy_strings :: "table_allocator \<Rightarrow> u32 \<Rightarrow> u32 \<Rightarrow> vm \<Rightarrow> (copy_result \<times> vm) outcome" where
  "task_copy_strings alloc ctx arr s =
     obind (count_entries s arr 200) (\<lambda>ps.
       if 200 \<le> length ps then Ret (CopyFailed, s) else copy_loop alloc ctx 1024 ps [] s)"

end
