(* ===== verification/Task_Mem_Props.thy ===== *)
theory Task_Mem_Props
  imports Task_Mem
begin

text \<open>
  The stack of a task stays one block of memory that the task may use, however often it grows; \<^verbatim>\<open>sbrk\<close> hands out the memory behind the break.
\<close>

section \<open>Allocation at a fixed address\<close>

lemma page_div: "unat (of_nat (4096 * p) :: u32) = 4096 * p" if "p < 2 ^ 20" for p
  using that by (subst unat_of_nat_u32) simp_all

text \<open>
  A fixed request in a context other than the kernel's: the pages were free, the new range comes in front, and the context is the same otherwise.
\<close>

lemma vm_alloc_at_fixed:
  assumes al: "alloc_frame K alloc" and K: "VM_KERNEL s = K" "ctx \<noteq> K" and ok: "bm_ok (vc_bitmap (ctxs s ctx))"
    and sz: "0 < sz" "unat sz \<le> 2 ^ 20" and req: "req \<noteq> 0" "flags AND VM_FIXED \<noteq> 0"
    and a: "vm_alloc_at alloc ctx sz req phys flags s = Ret (v, r, s')"
  shows "VM_KERNEL s' = K \<and> (v = 0 \<and> vc_ranges (ctxs s' ctx) = vc_ranges (ctxs s ctx) \<or>
    (\<exists>self ph. v = ALIGN_DOWN req PAGE_SIZE \<and> unat v + 4096 * unat sz \<le> 2 ^ 32 \<and> free_run (vc_bitmap (ctxs s ctx)) (unat v div 4096) (unat sz) \<and>
       vc_ranges (ctxs s' ctx) = mk_range self ctx v ph sz flags # vc_ranges (ctxs s ctx)))"
proof -
  obtain virt c where av: "alloc_virt (ctxs s ctx) sz req (flags AND VM_FIXED \<noteq> 0) = (virt, c)" by fastforce
  let ?s0 = "upd_ctx ctx (\<lambda>_. c) s"
  note fr = alloc_virt_fresh [OF ok sz av]
  have rg: "vc_ranges c = vc_ranges (ctxs s ctx)" using fr by (auto dest: reserves_ranges)
  have l: "\<not> vc_lock (ctxs s ctx)" using a by (auto simp: vm_alloc_at_def acquire_def split: if_splits)
  show ?thesis
  proof (cases "virt = 0")
    case True
    then have "v = 0" "s' = ?s0" using a l av by (auto simp: vm_alloc_at_def acquire_def Let_def)
    then show ?thesis using rg K by simp
  next
    case False
    then obtain p where p: "virt = of_nat (4096 * p)" "p + unat sz \<le> 2 ^ 20" "free_run (vc_bitmap (ctxs s ctx)) p (unat sz)" using fr by blast
    have "p < 2 ^ 20" using p(2) sz(1) by (simp add: u32_less_nat)
    then have u: "unat virt = 4096 * p" using p(1) page_div by simp
    have vq: "virt = ALIGN_DOWN req PAGE_SIZE" using av False req by (auto simp: alloc_virt_def Let_def split: if_splits)
    obtain ph s1 self s2 where s: "setup_phys alloc ctx sz virt phys flags ?s0 = Ret (ph, s1)" "new_range s1 = Ret (self, s2)"
        "if self = 0 then v = 0 \<and> s' = upd_ctx ctx (\<lambda>c. c\<lparr>vc_lock := True\<rparr>) s2 else v = virt \<and> s' = insert_range ctx (mk_range self ctx virt ph sz flags) s2"
      using a l av False by (auto simp: vm_alloc_at_def acquire_def Let_def obind_Ret split: if_splits)
    have "ctx_frame K ?s0 s1" using setup_phys_frame [OF al _ s(1)] K by simp
    moreover have "same_ctxs s1 s2" using new_range_inv [OF s(2)] .
    ultimately have c2: "ctxs s2 ctx = c" "VM_KERNEL s2 = K" using K by (auto simp: ctx_frame_def same_ctxs_def)
    have "unat virt + 4096 * unat sz \<le> 2 ^ 32" "unat virt div 4096 = p" using u p(2) by auto
    then show ?thesis using s(3) c2 rg vq p(3) by (cases "self = 0") (auto simp: insert_range_def)
  qed
qed

lemma mk_range_pages:
  assumes "unat v + 4096 * unat sz \<le> 2 ^ 32" "0 < sz" "unat sz < 2 ^ 20"
  shows "range_pages (mk_range self ctx v ph sz flags) = {unat v div 4096 ..< unat v div 4096 + unat sz}"
  using unat_page_addr [OF assms(3)] by (simp add: range_pages_def mk_range_def)

section \<open>Stack\<close>

text \<open>All pages of the stack belong to ranges the task may write; the stack has whole pages, at most 512 of them.\<close>

definition user_rw :: "vm_range \<Rightarrow> bool" where
  "user_rw r \<longleftrightarrow> vr_flags r AND VM_USER \<noteq> 0 \<and> vr_flags r AND VM_RW \<noteq> 0"

definition stack_ok :: "tmem \<Rightarrow> vm \<Rightarrow> bool" where
  "stack_ok t s \<longleftrightarrow> unat (tm_stack_size t) mod 4096 = 0 \<and> unat (tm_stack_size t) \<le> 512 * 4096 \<and>
     (\<forall>p. unat (stack_lower t) div 4096 \<le> p \<and> p < 0xc0000 \<longrightarrow> (\<exists>r \<in> set (vc_ranges (ctxs s (tm_vmem t))). p \<in> range_pages r \<and> user_rw r))"

lemma stack_lower_unat:
  assumes "unat (tm_stack_size t) \<le> 512 * 4096"
  shows "unat (stack_lower t) = 0xc0000000 - unat (tm_stack_size t)"
  using assms by (simp add: stack_lower_def TASK_STACK_LOCATION_def u32_le_nat unat_sub_u32)


lemma stack_flags: "user_rw (mk_range self ctx v ph sz (VM_USER OR VM_RW OR VM_FREE OR VM_NOCOW OR VM_TFORK OR VM_ZERO OR VM_FIXED))"
  by (simp add: user_rw_def mk_range_def CLEANUP_FLAGS_def VM_USER_def VM_RW_def VM_FREE_def VM_NOCOW_def VM_TFORK_def VM_ZERO_def VM_FIXED_def)

lemma stack_ok_ranges:
  "stack_ok t s \<Longrightarrow> set (vc_ranges (ctxs s (tm_vmem t))) \<subseteq> set (vc_ranges (ctxs s' (tm_vmem t))) \<Longrightarrow> stack_ok t s'"
  unfolding stack_ok_def by blast

text \<open>Growing by whole pages, with room below the stack.\<close>

lemma task_stack_grow_ok:
  assumes inv: "vm_inv C K R s" "tm_vmem t \<in> C" "tm_vmem t \<noteq> K" and st: "stack_ok t s"
    and sz: "unat sz = 4096 * n" "0 < n" "unat (tm_stack_size t) + unat sz < 2 ^ 32" and g: "task_stack_grow (table_alloc k) sz t s = Ret (r, t', s')"
  shows "vm_inv C K R s' \<and> stack_ok t' s' \<and> tm_vmem t' = tm_vmem t \<and>
    (if r = 0 then unat (tm_stack_size t') = unat (tm_stack_size t) + unat sz else tm_stack_size t' = tm_stack_size t)"
proof (cases "PAGE_SIZE * 512 < tm_stack_size t + sz")
  case True
  then show ?thesis using g inv st by (auto simp: task_stack_grow_def stack_ok_def stack_lower_def)
next
  case False
  let ?c = "tm_vmem t" and ?fl = "VM_USER OR VM_RW OR VM_FREE OR VM_NOCOW OR VM_TFORK OR VM_ZERO OR VM_FIXED" and ?m = "unat (tm_stack_size t)"
  let ?req = "stack_lower t - sz" and ?np = "RDIV sz PAGE_SIZE"
  have m: "?m mod 4096 = 0" "?m \<le> 512 * 4096" using st by (simp_all add: stack_ok_def)
  have tot: "unat (tm_stack_size t + sz) = ?m + unat sz" using sz(3) by (subst unat_add_u32) simp_all
  then have lim: "?m + unat sz \<le> 512 * 4096" using False by (simp add: u32_less_nat PAGE_SIZE_def)
  have low: "unat (stack_lower t) = 0xc0000000 - ?m" by (rule stack_lower_unat [OF m(2)])
  have n: "unat ?np = n"
  proof -
    have "unat (sz + 4095) = 4096 * n + 4095" using sz(1) lim by (subst unat_add_u32) simp_all
    then show ?thesis by (simp add: RDIV_def unat_div_u32 PAGE_SIZE_def)
  qed
  have nb: "n \<le> 512" using lim sz(1) by simp
  have np: "0 < ?np" "unat ?np < 2 ^ 20" using n sz(2) nb by (simp_all add: u32_less_nat)
  have "sz \<le> stack_lower t" using low lim by (simp add: u32_le_nat)
  then have req: "unat ?req = 0xc0000000 - (?m + unat sz)" using low by (simp add: unat_sub_u32)
  obtain v rr s1 where a: "vm_alloc_at (table_alloc k) ?c ?np ?req 0 ?fl s = Ret (v, rr, s1)" using g False by (auto simp: task_stack_grow_def obind_Ret)
  then have g': "s' = s1" "r = (if v = 0 then - 1 else 0)" "t' = (if v = 0 then t else t\<lparr>tm_stack_size := tm_stack_size t + sz\<rparr>)"
    using g False by (auto simp: task_stack_grow_def split: if_splits)
  have K: "VM_KERNEL s = K" "bm_ok (vc_bitmap (ctxs s ?c))" using inv by (auto simp: vm_inv_def ctx_inv_def)
  have "?req \<noteq> 0" using req lim by auto
  note fx = vm_alloc_at_fixed [OF table_alloc_frame [of K k] K(1) inv(3) K(2) np(1) _ this _ a]
  have fixed: "?fl AND VM_FIXED \<noteq> 0" by (simp add: VM_USER_def VM_RW_def VM_FREE_def VM_NOCOW_def VM_TFORK_def VM_ZERO_def VM_FIXED_def)
  have i': "vm_inv C K R s1"
    using vm_exec_inv [OF inv(1), of "AllocAt ?c ?np ?req 0 ?fl" k s1] np inv(2) a by simp
  show ?thesis
  proof (cases "v = 0")
    case True
    then have "vc_ranges (ctxs s1 ?c) = vc_ranges (ctxs s ?c) \<or> (\<exists>r. vc_ranges (ctxs s1 ?c) = r # vc_ranges (ctxs s ?c))" using fx np(2) fixed by auto
    then have "set (vc_ranges (ctxs s ?c)) \<subseteq> set (vc_ranges (ctxs s1 ?c))" by auto
    then have "stack_ok t s1" by (rule stack_ok_ranges [OF st])
    then show ?thesis using True g' i' by simp
  next
    case v: False
    then obtain self ph where f: "v = ALIGN_DOWN ?req PAGE_SIZE" "unat v + 4096 * unat ?np \<le> 2 ^ 32"
        "vc_ranges (ctxs s1 ?c) = mk_range self ?c v ph ?np ?fl # vc_ranges (ctxs s ?c)"
      using fx np(2) fixed by auto
    obtain q where q: "?m = 4096 * q" using m(1) by (auto simp: mod_eq_0_iff_dvd)
    have uv: "unat v = 4096 * (0xc0000 - (q + n))" using f(1) req q sz(1) lim by (simp add: unat_align_down mod_mult_self1_is_0 diff_mult_distrib2)
    have qn: "q + n \<le> 512" using lim q sz(1) by simp
    have pages: "range_pages (mk_range self ?c v ph ?np ?fl) = {0xc0000 - (q + n) ..< 0xc0000 - q}"
      using mk_range_pages [OF f(2) np] uv n qn by simp
    have lo: "unat (stack_lower t) div 4096 = 0xc0000 - q" using low q qn by simp
    have lo': "unat (stack_lower t') div 4096 = 0xc0000 - (q + n)"
      using stack_lower_unat [of t'] g'(3) v tot lim q sz(1) by simp
    have "\<exists>r \<in> set (vc_ranges (ctxs s1 ?c)). p \<in> range_pages r \<and> user_rw r" if "0xc0000 - (q + n) \<le> p" "p < 0xc0000" for p
    proof (cases "p < 0xc0000 - q")
      case True
      then show ?thesis using pages that stack_flags f(3) by auto
    next
      case False
      then show ?thesis using st that f(3) unfolding stack_ok_def lo by auto
    qed
    then have "stack_ok t' s1" using g'(3) v tot lim lo' q sz(1) unfolding stack_ok_def by simp
    then show ?thesis using g' v i' tot by simp
  qed
qed


text \<open>A task with a stack of two pages and a break.\<close>

definition stack_range :: vm_range where
  "stack_range = \<lparr>vr_self = 0x100, vr_ctx = 2, vr_addr = 0xbfffe000, vr_size = 0x2000, vr_flags = VM_USER OR VM_RW, vr_shards = [], vr_phys = 0x9000\<rparr>"

definition stack_ctx :: vm_ctx where
  "stack_ctx = \<lparr>vc_lock = False,
     vc_bitmap = \<lparr>bm_data = (\<lambda>k. if k = 0 then 1 else if k = 24575 then 0xc0000000 else if k = 32768 then - 1 else 0), bm_size = PAGE_ALLOC_BITMAP_SIZE, first_free = 0\<rparr>,
     vc_ranges = [stack_range], vc_page_dir = 0, vc_page_dir_phys = 0\<rparr>"

definition stack_vm :: vm where
  "stack_vm = demo_vm\<lparr>ctxs := (\<lambda>c. if c = 1 then demo_kernel else stack_ctx)\<rparr>"

definition stack_task :: tmem where
  "stack_task = \<lparr>tm_vmem = 2, tm_sbrk = 0xf000000, tm_stack_size = 0x2000, tm_errno = None\<rparr>"

lemma stack_vm_inv: "vm_inv {1, 2} 1 (\<lambda>_. {}) stack_vm"
proof -
  have b: "bitmap_bit (vc_bitmap stack_ctx) k \<longleftrightarrow> k = 0 \<or> k div 32 = 24575 \<and> bit (0xc0000000 :: u32) (k mod 32) \<or> k div 32 = 32768" for k
  proof -
    have "bit (1 :: u32) (k mod 32) \<longleftrightarrow> k mod 32 = 0" by (simp add: bit_1_iff)
    then show ?thesis by (auto simp: stack_ctx_def bitmap_bit_def)
  qed
  have "bm_ok (vc_bitmap stack_ctx)" unfolding bm_ok_def b by (auto simp: stack_ctx_def)
  moreover have "bitmap_bit (vc_bitmap stack_ctx) n" if "n \<in> range_pages stack_range" for n
  proof -
    have "n = 786430 \<or> n = 786431" using that by (auto simp: range_pages_def stack_range_def)
    then show ?thesis unfolding b by auto
  qed
  moreover have "bm_ok (vc_bitmap demo_kernel)" using demo_ready by (simp add: map_ready_def demo_ctxs)
  moreover have "range_ok stack_range" by (simp add: range_ok_def stack_range_def)
  ultimately show ?thesis by (simp add: vm_inv_def ctx_inv_def stack_vm_def demo_ctxs) (simp add: stack_ctx_def demo_kernel_def stack_range_def)
qed

lemma stack_vm_ok: "stack_ok stack_task stack_vm"
  by (auto simp: stack_ok_def stack_task_def stack_vm_def stack_ctx_def stack_range_def stack_lower_def TASK_STACK_LOCATION_def range_pages_def user_rw_def
      VM_USER_def VM_RW_def)

lemma no_phys_pages: "\<exists>pc. mem_page_alloc (phys_alloc stack_vm) 2 = Ret (0, pc)"
  by (simp add: mem_page_alloc_def stack_vm_def demo_vm_def bitmap_find_def find_loop.simps bitmap_size_def acquire_def Let_def)

text \<open>Two pages at a free fixed address.\<close>

lemma stack_vm_alloc:
  assumes "alloc_virt stack_ctx 2 req True = (req, c)" "req \<noteq> 0" "vc_lock c = False" "flags AND VM_FIXED \<noteq> 0"
  shows "\<exists>r s'. vm_alloc_at alloc 2 2 req 0 flags stack_vm = Ret (req, r, s')"
proof -
  obtain pc where "mem_page_alloc (phys_alloc stack_vm) 2 = Ret (0, pc)" using no_phys_pages by blast
  moreover have "ctxs stack_vm 2 = stack_ctx" "vc_lock stack_ctx = False" by (simp_all add: stack_vm_def stack_ctx_def)
  moreover have "range_addrs stack_vm = [0x200]" "kmalloc_ready stack_vm" by (simp_all add: stack_vm_def demo_vm_def)
  ultimately show ?thesis using assms by (auto simp: vm_alloc_at_def setup_phys_def acquire_def new_range_def upd_ctx_def Let_def)
qed

lemma stack_fault: "\<exists>t' s'. task_page_fault_cb (table_alloc 0) 0xbfffd123 stack_task stack_vm = Ret (0, t', s')"
proof -
  let ?fl = "VM_USER OR VM_RW OR VM_FREE OR VM_NOCOW OR VM_TFORK OR VM_ZERO OR VM_FIXED"
  have dup: "\<not> dup_check (vc_bitmap stack_ctx) 0xbfffc 2"
    unfolding numeral_2_eq_2 dup_check.simps by (simp add: stack_ctx_def bitmap_get_def bit_get_def bitmap_index_def bitmap_offset_def)
  have "\<exists>c. alloc_virt stack_ctx 2 0xbfffc000 True = (0xbfffc000, c) \<and> vc_lock c = False"
    by (simp add: alloc_virt_def Let_def PAGE_SIZE_def ALIGN_DOWN_def dup) (simp add: stack_ctx_def)
  moreover have "?fl AND VM_FIXED \<noteq> 0" by (simp add: VM_USER_def VM_RW_def VM_FREE_def VM_NOCOW_def VM_TFORK_def VM_ZERO_def VM_FIXED_def)
  ultimately obtain r s' where "vm_alloc_at (table_alloc 0) 2 2 0xbfffc000 0 ?fl stack_vm = Ret (0xbfffc000, r, s')"
    using stack_vm_alloc [of "0xbfffc000" _ ?fl "table_alloc 0"] by auto
  then show ?thesis
    by (simp add: task_page_fault_cb_def task_stack_grow_def stack_task_def stack_lower_def TASK_STACK_LOCATION_def PAGE_SIZE_def ALIGN_DOWN_def RDIV_def)
qed


section \<open>Heap\<close>

lemma ALIGN_pages:
  assumes "unat len \<le> 0x7ffff000"
  shows "unat (ALIGN len PAGE_SIZE) = 4096 * ((unat len + 4095) div 4096)"
proof -
  let ?n = "unat len"
  have m: "unat (len mod PAGE_SIZE) = ?n mod 4096" by (simp add: unat_mod_u32 PAGE_SIZE_def)
  have d: "?n = 4096 * (?n div 4096) + ?n mod 4096" by simp
  show ?thesis
  proof (cases "?n mod 4096 = 0")
    case True
    then have "len mod PAGE_SIZE = 0" using m by (simp add: u32_eq_nat)
    moreover have "(?n + 4095) div 4096 = ?n div 4096" using True d by linarith
    ultimately show ?thesis using True d by (simp add: ALIGN_def)
  next
    case False
    then have nz: "len mod PAGE_SIZE \<noteq> 0" using m by (metis unat_0)
    have pz: "unat PAGE_SIZE = 4096" by (simp add: PAGE_SIZE_def)
    have "unat (ALIGN_DOWN len PAGE_SIZE + PAGE_SIZE) = ?n - ?n mod 4096 + 4096"
      using assms by (subst unat_add_u32) (simp_all add: unat_align_down pz)
    moreover have "(?n + 4095) div 4096 = ?n div 4096 + 1" using False d by linarith
    ultimately show ?thesis using nz by (simp add: ALIGN_def minus_mod_eq_mult_div)
  qed
qed

lemma sint_small:
  assumes "unat (x :: u32) < 2 ^ 31"
  shows "sint x = int (unat x)"
proof -
  have u: "uint x = int (unat x)" by simp
  have n: "unat x < 2147483648" using assms by simp
  have "uint x < 2147483648" using n u by linarith
  moreover have "- 2147483648 \<le> uint x" using u by linarith
  ultimately have "uint x < 2 ^ 31" "- (2 ^ 31) \<le> uint x" by simp_all
  then have "signed_take_bit 31 (uint x) = uint x" by (intro signed_take_bit_int_eq_self) simp_all
  then show ?thesis by (simp only: sint_uint u) simp
qed

lemma sbrk_pages_exact:
  assumes "unat len = 4096 * n" "0 < n" "n < 524288"
  shows "unat (sbrk_pages len) = n"
proof -
  have "sint len = 4096 * int n" using sint_small [of len] assms by simp
  then have "(sint len + 4095) sdiv 4096 = int n" using assms(2) by (simp add: signed_divide_int_def sgn_if)
  then show ?thesis using assms(3) by (simp add: sbrk_pages_def unat_of_nat_u32)
qed

lemma heap_flags: "user_rw (mk_range self ctx v ph sz (VM_USER OR VM_RW OR VM_NOCOW OR VM_TFORK OR VM_FREE OR VM_FIXED))"
  by (simp add: user_rw_def mk_range_def CLEANUP_FLAGS_def VM_USER_def VM_RW_def VM_FREE_def VM_NOCOW_def VM_TFORK_def VM_FIXED_def)


lemma sbrk_demo: "\<exists>t' s'. task_sbrk (table_alloc 0) 0x1001 stack_task stack_vm = Ret (0xf000000, t', s')"
proof -
  let ?fl = "VM_USER OR VM_RW OR VM_NOCOW OR VM_TFORK OR VM_FREE OR VM_FIXED"
  have dup: "\<not> dup_check (vc_bitmap stack_ctx) 0xf000 2"
    unfolding numeral_2_eq_2 dup_check.simps by (simp add: stack_ctx_def bitmap_get_def bit_get_def bitmap_index_def bitmap_offset_def)
  have "\<exists>c. alloc_virt stack_ctx 2 0xf000000 True = (0xf000000, c) \<and> vc_lock c = False"
    by (simp add: alloc_virt_def Let_def PAGE_SIZE_def ALIGN_DOWN_def dup) (simp add: stack_ctx_def)
  moreover have "?fl AND VM_FIXED \<noteq> 0" by (simp add: VM_USER_def VM_RW_def VM_FREE_def VM_NOCOW_def VM_TFORK_def VM_FIXED_def)
  ultimately obtain r s' where "vm_alloc_at (table_alloc 0) 2 2 0xf000000 0 ?fl stack_vm = Ret (0xf000000, r, s')"
    using stack_vm_alloc [of "0xf000000" _ ?fl "table_alloc 0"] by auto
  moreover have "sbrk_pages 0x2000 = 2" using sbrk_pages_exact [of "0x2000" 2] by (simp add: u32_eq_nat)
  ultimately show ?thesis by (simp add: task_sbrk_def stack_task_def ALIGN_def ALIGN_DOWN_def PAGE_SIZE_def)
qed


end
