(* ===== verification/Syscall.thy ===== *)
theory Syscall
  imports Task_Mem_Props Signal
begin

text \<open>
  System calls (\<^verbatim>\<open>src/tasks/syscall.c\<close>, \<^verbatim>\<open>syscall.h\<close> and the table in \<^verbatim>\<open>syscalls.h\<close>): the interrupt handler finds the definition of the call, maps the arguments that are pointers
  into the kernel, calls the function and takes the mappings down again. A function is named by its name; calling it is a parameter. Reporting to an observer
  (\<^verbatim>\<open>send_strace\<close>) and the log are left out.
\<close>

section \<open>Definitions of calls\<close>

definition SCF_STATE :: u8 where "SCF_STATE = 1"
definition SCA_INT :: u8 where "SCA_INT = 1"
definition SCA_POINTER :: u8 where "SCA_POINTER = 2"
definition SCA_STRING :: u8 where "SCA_STRING = 4"
definition SCA_NULLOK :: u8 where "SCA_NULLOK = 8"
definition SCA_SIZE_IN_0 :: u8 where "SCA_SIZE_IN_0 = 16"
definition SCA_SIZE_IN_1 :: u8 where "SCA_SIZE_IN_1 = 32"
definition SCA_SIZE_IN_2 :: u8 where "SCA_SIZE_IN_2 = 64"
definition SCA_FLEX_SIZE :: u8 where "SCA_FLEX_SIZE = 128"

lemmas sca_defs = SCF_STATE_def SCA_INT_def SCA_POINTER_def SCA_STRING_def SCA_NULLOK_def SCA_SIZE_IN_0_def SCA_SIZE_IN_1_def SCA_SIZE_IN_2_def SCA_FLEX_SIZE_def

record syscall_definition =
  sc_name :: string
  sc_handler :: "string option"
  sc_flags :: u8
  arg0_flags :: u8
  arg1_flags :: u8
  arg2_flags :: u8
  ptr_size :: u32

definition sysdef :: "string \<Rightarrow> string option \<Rightarrow> u8 \<Rightarrow> u8 \<Rightarrow> u8 \<Rightarrow> u8 \<Rightarrow> u32 \<Rightarrow> syscall_definition" where
  "sysdef name handler flags a0 a1 a2 sz =
     \<lparr>sc_name = name, sc_handler = handler, sc_flags = flags, arg0_flags = a0, arg1_flags = a1, arg2_flags = a2, ptr_size = sz\<rparr>"

text \<open>\<open>picotcp\<close> is \<^verbatim>\<open>CONFIG_ENABLE_PICOTCP\<close>. The sizes are those of the structures on the i386.\<close>

definition syscall_table :: "bool \<Rightarrow> syscall_definition list" where
  "syscall_table picotcp =
     [sysdef '''' None 0 0 0 0 0,
      sysdef ''exit'' (Some ''task_exit'') 0 SCA_INT 0 0 0,
      sysdef ''read'' (Some ''vfs_read'') 0 SCA_INT (SCA_POINTER OR SCA_SIZE_IN_2 OR SCA_NULLOK) SCA_INT 0,
      sysdef ''write'' (Some ''vfs_write'') 0 SCA_INT (SCA_POINTER OR SCA_SIZE_IN_2 OR SCA_NULLOK) SCA_INT 0,
      sysdef ''access'' (Some ''vfs_access'') 0 SCA_STRING SCA_INT 0 0,
      sysdef ''close'' (Some ''vfs_close'') 0 SCA_INT 0 0 0,
      sysdef ''mkdir'' (Some ''vfs_mkdir'') 0 SCA_STRING SCA_INT 0 0,
      sysdef ''sbrk'' (Some ''task_sbrk'') 0 SCA_INT 0 0 0,
      sysdef ''mmap'' (Some ''task_mmap'') 0 SCA_POINTER 0 0 24,
      sysdef ''poll'' (Some ''vfs_poll'') 0 (SCA_POINTER OR SCA_SIZE_IN_1) SCA_INT SCA_INT 8,
      sysdef ''unlink'' (Some ''vfs_unlink'') 0 SCA_STRING 0 0 0,
      sysdef ''chmod'' (Some ''vfs_chmod'') 0 SCA_STRING SCA_INT 0 0,
      sysdef ''link'' (Some ''vfs_link'') 0 SCA_STRING SCA_STRING 0 0,
      sysdef ''open'' (Some ''vfs_open'') 0 SCA_STRING SCA_INT 0 0,
      sysdef ''fstat'' (Some ''vfs_fstat'') 0 SCA_INT SCA_POINTER 0 72,
      sysdef ''seek'' (Some ''vfs_seek'') 0 SCA_INT SCA_INT SCA_INT 0,
      sysdef ''getdents'' (Some ''vfs_getdents'') 0 SCA_INT (SCA_POINTER OR SCA_SIZE_IN_2) SCA_INT 0,
      sysdef ''chown'' (Some ''vfs_chown'') 0 SCA_STRING SCA_INT SCA_INT 0,
      sysdef ''signal'' (Some ''task_signal_syscall'') 0 SCA_INT SCA_INT 0 0,
      sysdef ''time'' (Some ''time_get_timeval'') 0 SCA_POINTER 0 0 12,
      sysdef ''chdir'' (Some ''task_chdir'') 0 SCA_STRING 0 0 0,
      sysdef ''utimes'' (Some ''vfs_utimes'') 0 SCA_STRING SCA_POINTER 0 24,
      sysdef ''fork'' (Some ''task_fork'') SCF_STATE 0 0 0 0,
      sysdef ''rmdir'' (Some ''vfs_rmdir'') 0 SCA_STRING 0 0 0,
      (if picotcp then sysdef ''socket'' (Some ''net_socket'') 0 SCA_INT SCA_INT SCA_INT 0 else sysdef ''socket'' None 0 0 0 0 0),
      (if picotcp then sysdef ''bind'' (Some ''net_bind'') 0 SCA_INT (SCA_POINTER OR SCA_SIZE_IN_2) SCA_INT 0 else sysdef ''bind'' None 0 0 0 0 0),
      sysdef ''ioctl'' (Some ''vfs_ioctl'') 0 SCA_INT SCA_INT SCA_INT 0x1,
      sysdef '''' None 0 0 0 0 0,
      sysdef ''pipe'' (Some ''vfs_pipe'') 0 SCA_POINTER 0 0 8,
      sysdef ''waitpid'' (Some ''task_waitpid'') 0 SCA_INT (SCA_POINTER OR SCA_NULLOK) SCA_INT 4,
      sysdef '''' None 0 0 0 0 0,
      sysdef ''readlink'' (Some ''vfs_readlink'') 0 SCA_STRING (SCA_POINTER OR SCA_SIZE_IN_2) SCA_INT 0,
      sysdef ''execve'' (Some ''task_execve'') 0 SCA_STRING (SCA_POINTER OR SCA_FLEX_SIZE) (SCA_POINTER OR SCA_FLEX_SIZE) 0,
      sysdef ''sigaction'' (Some ''task_sigaction'') 0 SCA_INT (SCA_POINTER OR SCA_NULLOK) (SCA_POINTER OR SCA_NULLOK) 12,
      sysdef ''sigprocmask'' (Some ''task_sigprocmask'') 0 SCA_INT (SCA_POINTER OR SCA_NULLOK) (SCA_POINTER OR SCA_NULLOK) 4,
      sysdef ''sigsuspend'' None 0 0 0 0 0,
      sysdef ''fcntl'' (Some ''vfs_fcntl'') 0 SCA_INT SCA_INT SCA_INT 0,
      (if picotcp then sysdef ''listen'' (Some ''net_listen'') 0 SCA_INT SCA_INT 0 0 else sysdef ''listen'' None 0 0 0 0 0),
      (if picotcp then sysdef ''accept'' (Some ''net_accept'') 0 SCA_INT SCA_INT (SCA_POINTER OR SCA_NULLOK) 4 else sysdef ''accept'' None 0 0 0 0 0),
      sysdef '''' None 0 0 0 0 0,
      (if picotcp then sysdef ''getpeername'' (Some ''net_getpeername'') 0 SCA_INT SCA_INT SCA_POINTER 4 else sysdef ''getpeername'' None 0 0 0 0 0),
      (if picotcp then sysdef ''getsockname'' (Some ''net_getsockname'') 0 SCA_INT SCA_INT SCA_POINTER 4 else sysdef ''getsockname'' None 0 0 0 0 0),
      sysdef ''setid'' (Some ''task_setid'') 0 SCA_INT SCA_INT 0 0,
      sysdef ''stat'' (Some ''vfs_stat'') 0 SCA_STRING SCA_POINTER 0 72,
      sysdef ''dup2'' (Some ''vfs_dup2'') 0 SCA_INT SCA_INT 0 0,
      sysdef ''strace'' (Some ''task_strace'') SCF_STATE 0 0 0 0,
      (if picotcp then sysdef ''getaddr'' (Some ''net_getaddr'') 0 SCA_STRING (SCA_POINTER OR SCA_SIZE_IN_2) SCA_INT 0 else sysdef ''getaddr'' None 0 0 0 0 0),
      (if picotcp then sysdef ''getname'' (Some ''net_getname'') 0 SCA_STRING (SCA_POINTER OR SCA_SIZE_IN_2) SCA_INT 0 else sysdef ''getname'' None 0 0 0 0 0),
      (if picotcp then sysdef ''connect'' (Some ''net_connect'') 0 SCA_INT (SCA_POINTER OR SCA_SIZE_IN_2) SCA_INT 0 else sysdef ''connect'' None 0 0 0 0 0),
      (if picotcp then sysdef ''recvfrom'' (Some ''net_recvfrom'') 0 (SCA_POINTER OR SCA_SIZE_IN_1) SCA_INT 0 0 else sysdef ''recvfrom'' None 0 0 0 0 0),
      sysdef ''mount'' (Some ''vfs_mount'') 0 SCA_STRING SCA_STRING SCA_INT 0,
      sysdef ''umount'' (Some ''vfs_umount'') 0 SCA_STRING SCA_INT 0 0,
      sysdef ''realpath'' (Some ''vfs_realpath'') 0 SCA_STRING SCA_POINTER 0 1024,
      sysdef ''sleep'' (Some ''task_sleep'') 0 SCA_POINTER 0 0 12]"

definition arg_flags :: "syscall_definition \<Rightarrow> u8 list" where
  "arg_flags def = [arg0_flags def, arg1_flags def, arg2_flags def]"

text \<open>The arguments up to the first one without flags.\<close>

definition num_args :: "syscall_definition \<Rightarrow> nat" where
  "num_args def = length (takeWhile (\<lambda>f. f \<noteq> 0) (arg_flags def))"

section \<open>Translating the arguments\<close>

definition is_set :: "u8 \<Rightarrow> u8 \<Rightarrow> bool" where
  "is_set f g \<longleftrightarrow> f AND g \<noteq> 0"

text \<open>The number of bytes to map, and whether less will do. The product is computed modulo \<open>2 ^ 32\<close>.\<close>

definition arg_size :: "syscall_definition \<Rightarrow> u8 \<Rightarrow> u32 list \<Rightarrow> u32 \<times> bool" where
  "arg_size def f args =
     (let multiplicator = max 1 (ptr_size def) in
      if is_set f SCA_SIZE_IN_0 then (multiplicator * args ! 0, False)
      else if is_set f SCA_SIZE_IN_1 then (multiplicator * args ! 1, False)
      else if is_set f SCA_SIZE_IN_2 then (multiplicator * args ! 2, False)
      else if is_set f (SCA_STRING OR SCA_FLEX_SIZE) then (PAGE_SIZE * 2, True)
      else (ptr_size def, False))"

text \<open>
  One argument: it is kept, replaced by the address of a mapping, or the call is refused, with or without \<^verbatim>\<open>SIGSEGV\<close>. The end of a string is searched in
  all of the bytes that were asked for, also if less could be mapped.
\<close>

datatype arg_result = Keep | Mapped u32 vm_range vm | Refuse bool vm

definition translate_arg :: "table_allocator \<Rightarrow> u32 \<Rightarrow> syscall_definition \<Rightarrow> u8 \<Rightarrow> u32 list \<Rightarrow> u32 \<Rightarrow> vm \<Rightarrow> arg_result outcome" where
  "translate_arg alloc ctx def f args a s =
     (if \<not> is_set f (SCA_POINTER OR SCA_STRING) then Ret Keep
      else let (sz, less_ok) = arg_size def f args in
           if is_set f SCA_POINTER \<and> sz = 0 \<and> \<not> is_set f SCA_NULLOK then Ret (Refuse False s)
           else if is_set f SCA_NULLOK \<and> a = 0 then Ret Keep
           else if sz = 0 then Ret (Refuse False s)
           else obind (vm_map alloc (VM_KERNEL s) ctx a sz (VM_RW OR VM_MAP_USER_ONLY OR (if less_ok then VM_MAP_LESS_OK else 0)) s) (\<lambda>(v, r, s).
                case if v = 0 then None else r of
                  None \<Rightarrow> Ret (Refuse True s)
                | Some r \<Rightarrow>
                    if is_set f SCA_STRING
                    then obind (kbytes s v (unat sz)) (\<lambda>str. if length str = unat sz then Ret (Refuse True s) else Ret (Mapped v r s))
                    else Ret (Mapped v r s)))"

text \<open>The loop over the arguments with their number, the arguments as translated so far and the mappings.\<close>

datatype args_result = Translated "u32 list" "vm_range list" vm | Refused bool vm

fun translate_args ::
    "table_allocator \<Rightarrow> u32 \<Rightarrow> syscall_definition \<Rightarrow> u8 list \<Rightarrow> nat \<Rightarrow> u32 list \<Rightarrow> vm_range list \<Rightarrow> vm \<Rightarrow> args_result outcome" where
  "translate_args alloc ctx def [] i args maps s = Ret (Translated args (rev maps) s)"
| "translate_args alloc ctx def (f # fs) i args maps s =
     (if f = 0 then Ret (Translated args (rev maps) s)
      else obind (translate_arg alloc ctx def f args (args ! i) s) (\<lambda>res.
        case res of
          Keep \<Rightarrow> translate_args alloc ctx def fs (Suc i) args maps s
        | Mapped v r s \<Rightarrow> translate_args alloc ctx def fs (Suc i) (args[i := v]) (r # maps) s
        | Refuse sig s \<Rightarrow> Ret (Refused sig s)))"

section \<open>The call\<close>

text \<open>A write into the array of five arguments; \<open>None\<close>: outside of it.\<close>

definition put_arg :: "int \<Rightarrow> u32 \<Rightarrow> u32 list \<Rightarrow> u32 list option" where
  "put_arg i a xs = (if 0 \<le> i \<and> i < 5 then Some (xs[nat i := a]) else None)"

fun put_args :: "int \<Rightarrow> u32 list \<Rightarrow> u32 list \<Rightarrow> u32 list option" where
  "put_args i [] xs = Some xs"
| "put_args i (a # as) xs = Option.bind (put_arg i a xs) (put_args (i - 1) as)"

text \<open>The first \<^verbatim>\<open>num_args + aoff\<close> words of \<^verbatim>\<open>cb_args\<close>, which \<^verbatim>\<open>variadic_call\<close> pushes in this order.\<close>

definition cb_args :: "syscall_definition \<Rightarrow> u32 \<Rightarrow> u32 \<Rightarrow> u32 list \<Rightarrow> u32 list option" where
  "cb_args def state_addr task_addr args =
     (let n = int (num_args def); xs = replicate 5 0;
          aoff = (if is_set (sc_flags def) SCF_STATE then 1 else 0) in
      Option.bind (if is_set (sc_flags def) SCF_STATE then put_arg n state_addr xs else Some xs) (\<lambda>xs.
      Option.bind (put_arg (n + aoff) task_addr xs) (\<lambda>xs.
      Option.bind (put_args (n - (aoff + 1)) (take (num_args def) args) xs) (\<lambda>xs. Some (take (nat (n + aoff + 1)) xs)))))"

record 'w sysc =
  sy_vm :: vm
  sy_task :: task
  sy_world :: 'w

definition EFAULT_num :: u32 where "EFAULT_num = 14"

definition call_fail :: "isf \<Rightarrow> isf" where
  "call_fail st = st\<lparr>eax := - 1, ebx := EFAULT_num\<rparr>"

fun free_maps :: "vm_range list \<Rightarrow> vm \<Rightarrow> vm outcome" where
  "free_maps [] s = Ret s"
| "free_maps (r # rs) s = obind (vm_free r s) (free_maps rs)"

text \<open>
  \<open>call\<close> performs the function of a name with the words on its stack and gives its result and the error number; \<open>ctx\<close>, \<open>state_addr\<close> and \<open>task_addr\<close> are the addresses of the
  task's context, of the registers and of the task. The entry is read before the number is checked: \<open>behind\<close> tells whether memory behind the table is readable there. When the
  call is refused the mappings that were made stay, and so does the state of the task. The handler is modelled for the case that there is a task; without one it only does \<open>call_fail\<close>.
\<close>

definition int_handler ::
    "table_allocator \<Rightarrow> bool \<Rightarrow> (u32 \<Rightarrow> bool) \<Rightarrow> (u32 \<Rightarrow> bool) \<Rightarrow> u32 \<Rightarrow> (string \<Rightarrow> u32 list \<Rightarrow> 'w sysc \<Rightarrow> ((u32 \<times> u32) \<times> 'w sysc) outcome) \<Rightarrow>
     u32 \<Rightarrow> u32 \<Rightarrow> u32 \<Rightarrow> isf \<Rightarrow> 'w sysc \<Rightarrow> (isf \<times> 'w sysc) outcome" where
  "int_handler alloc picotcp behind can_map crt0 call ctx state_addr task_addr st y =
     (let y = y\<lparr>sy_task := (sy_task y)\<lparr>task_state := SYSCALL\<rparr>\<rparr>; scnum = unat (eax st) in
      if length (syscall_table picotcp) \<le> scnum then if behind (eax st) then Ret (call_fail st, y) else Fault
      else let def = syscall_table picotcp ! scnum in
           case sc_handler def of
             None \<Rightarrow> Ret (call_fail st, y)
           | Some fn \<Rightarrow>
               obind (translate_args alloc ctx def (arg_flags def) 0 [ebx st, ecx st, edx st] [] (sy_vm y)) (\<lambda>res.
                 case res of
                   Refused sig s \<Rightarrow>
                     (let y = y\<lparr>sy_vm := s\<rparr> in
                      if sig then (case task_signal can_map crt0 SIGSEGV (sy_task y) of
                                     Some (Inr (_, t)) \<Rightarrow> Ret (call_fail st, y\<lparr>sy_task := t\<rparr>) | Some (Inl _) \<Rightarrow> Ret (call_fail st, y) | None \<Rightarrow> Fault)
                      else Ret (call_fail st, y))
                 | Translated args maps s \<Rightarrow>
                     (case cb_args def state_addr task_addr args of
                        None \<Rightarrow> Fault
                      | Some words \<Rightarrow>
                          obind (call fn words (y\<lparr>sy_vm := s\<rparr>)) (\<lambda>((res, en), y).
                          obind (free_maps maps (sy_vm y)) (\<lambda>s.
                            let t = sy_task y in
                            Ret (st\<lparr>eax := res, ebx := en\<rparr>,
                                 y\<lparr>sy_vm := s, sy_task := (if task_state t = SYSCALL then t\<lparr>task_state := RUNNING\<rparr> else t)\<rparr>))))))"

section \<open>Arguments of the functions\<close>

lemma num_args_le: "num_args def \<le> 3"
proof -
  have "length (arg_flags def) = 3" by (simp add: arg_flags_def)
  then show ?thesis using length_takeWhile_le [of "\<lambda>f. f \<noteq> 0" "arg_flags def"] by (simp only: num_args_def)
qed

text \<open>
  C23. Every function in the table of system calls gets its arguments in order: behind the return address are the task, the registers if the definition asks for them, and the arguments
  of the definition from the first to the last, and the array of five words is not exceeded. (With both \<^verbatim>\<open>SCF_STATE\<close> and arguments the index would become negative; no definition
  of the table has both.)
\<close>

theorem callback_arguments:
  assumes "def \<in> set (syscall_table picotcp)" "length args = 3"
  shows "cb_args def state_addr task_addr args =
    Some (rev (task_addr # (if is_set (sc_flags def) SCF_STATE then [state_addr] else []) @ take (num_args def) args))"
proof -
  obtain a b c where args: "args = [a, b, c]" using assms(2) by (auto simp: length_Suc_conv numeral_3_eq_3)
  have ok: "is_set (sc_flags def) SCF_STATE \<longrightarrow> num_args def = 0"
  proof -
    have "list_all (\<lambda>d. is_set (sc_flags d) SCF_STATE \<longrightarrow> num_args d = 0) (syscall_table picotcp)"
      by (cases picotcp) (simp_all add: syscall_table_def sysdef_def num_args_def arg_flags_def is_set_def sca_defs)
    then show ?thesis using assms(1) by (simp add: list_all_iff)
  qed
  consider "num_args def = 0" | "num_args def = 1" | "num_args def = 2" | "num_args def = 3" using num_args_le [of def] by linarith
  then show ?thesis using ok unfolding args by cases (simp_all add: cb_args_def put_arg_def numeral_eq_Suc)
qed

theorem callback_arguments_witness:
  "cb_args (syscall_table True ! 2) 0x100 0x200 [3, 0x5000, 8] = Some [8, 0x5000, 3, 0x200]"
proof -
  have "syscall_table True ! 2 \<in> set (syscall_table True)" by (rule nth_mem) (simp add: syscall_table_def)
  from callback_arguments [OF this, of "[3, 0x5000, 8]" "0x100" "0x200"] show ?thesis
    by (simp add: syscall_table_def sysdef_def num_args_def arg_flags_def is_set_def sca_defs)
qed

section \<open>Pointers of the caller\<close>

text \<open>What the handler is given for an argument \<open>a\<close> of \<open>n\<close> bytes in the context \<open>c\<close>: the address \<open>v\<close> reaches the same physical bytes, all of them the user's.\<close>

definition shows_user :: "vm_ctx \<Rightarrow> vm \<Rightarrow> u32 \<Rightarrow> u32 \<Rightarrow> nat \<Rightarrow> bool" where
  "shows_user c s a v n \<longleftrightarrow>
     (\<forall>x < n. \<exists>q. get_range c (a + of_nat x) False = Some q \<and> vr_flags q AND VM_USER \<noteq> 0 \<and> deref s (v + of_nat x) = Some (vr_phys q + (a + of_nat x - vr_addr q)))"

definition mapped_arg :: "u8 \<Rightarrow> u32 \<Rightarrow> bool" where
  "mapped_arg f a \<longleftrightarrow> is_set f (SCA_POINTER OR SCA_STRING) \<and> \<not> (is_set f SCA_NULLOK \<and> a = 0)"

text \<open>Neither strings nor arrays of unknown size, and sizes only from numbers.\<close>

definition sized_args :: "syscall_definition \<Rightarrow> bool" where
  "sized_args def \<longleftrightarrow> (\<forall>f \<in> set (arg_flags def). \<not> is_set f (SCA_STRING OR SCA_FLEX_SIZE) \<and>
     (is_set f SCA_SIZE_IN_0 \<longrightarrow> \<not> is_set (arg_flags def ! 0) (SCA_POINTER OR SCA_STRING)) \<and>
     (is_set f SCA_SIZE_IN_1 \<longrightarrow> \<not> is_set (arg_flags def ! 1) (SCA_POINTER OR SCA_STRING)) \<and>
     (is_set f SCA_SIZE_IN_2 \<longrightarrow> \<not> is_set (arg_flags def ! 2) (SCA_POINTER OR SCA_STRING)))"

lemma arg_size_numbers:
  assumes "sized_args def" "f \<in> set (arg_flags def)" "\<And>j. j < 3 \<Longrightarrow> \<not> is_set (arg_flags def ! j) (SCA_POINTER OR SCA_STRING) \<Longrightarrow> as ! j = args ! j"
  shows "arg_size def f as = (fst (arg_size def f args), False)"
  using assms assms(3) [of 0] assms(3) [of 1] assms(3) [of 2] by (simp add: arg_size_def sized_args_def Let_def split: if_splits)

lemma translate_arg_mapped:
  assumes rdy: "map_ready ctx s" and f: "\<not> is_set f (SCA_STRING OR SCA_FLEX_SIZE)" and sz: "arg_size def f as = (sz, False)" "unat sz + 8191 \<le> 2 ^ 32"
    and t: "translate_arg alloc ctx def f as a s = Ret (Mapped v r s')"
  shows "mapped_arg f a \<and> shows_user (ctxs s ctx) s' a v (unat sz) \<and> map_ready ctx s' \<and> ctxs s' ctx = ctxs s ctx \<and>
    (\<forall>w. bitmap_bit (vc_bitmap (ctxs s (VM_KERNEL s))) (unat w div 4096) \<longrightarrow> bitmap_bit (vc_bitmap (ctxs s' (VM_KERNEL s'))) (unat w div 4096) \<and> deref s' w = deref s w) \<and>
    (\<forall>x < unat sz. bitmap_bit (vc_bitmap (ctxs s' (VM_KERNEL s'))) (unat (v + of_nat x) div 4096))"
proof -
  have str: "\<not> is_set f SCA_STRING"
  proof -
    have "(SCA_STRING :: u8) AND (SCA_STRING OR SCA_FLEX_SIZE) = SCA_STRING" by (simp add: sca_defs)
    then have "f AND SCA_STRING = (f AND (SCA_STRING OR SCA_FLEX_SIZE)) AND SCA_STRING" by (metis and.assoc and.commute)
    then show ?thesis using f by (simp add: is_set_def)
  qed
  let ?fl = "VM_RW OR VM_MAP_USER_ONLY OR 0"
  have g: "0 < sz" "mapped_arg f a" and m: "vm_map alloc (VM_KERNEL s) ctx a sz ?fl s = Ret (v, Some r, s')" "v \<noteq> 0"
    using t str sz by (auto simp: translate_arg_def mapped_arg_def Let_def word_gt_0 obind_Ret split: if_splits option.splits)
  have fl: "?fl AND VM_MAP_LESS_OK = 0" "?fl AND VM_MAP_USER_ONLY \<noteq> 0" by (simp_all add: VM_RW_def VM_MAP_USER_ONLY_def VM_MAP_LESS_OK_def)
  note st = vm_map_step [OF rdy g(1) sz(2) fl(1) m]
  show ?thesis using g(2) st fl(2) unfolding shows_user_def by simp
qed

lemma translate_arg_keep: "translate_arg alloc ctx def f as a s = Ret Keep \<Longrightarrow> \<not> mapped_arg f a"
  by (auto simp: translate_arg_def mapped_arg_def Let_def obind_Ret split: if_splits option.splits prod.splits)

lemma shows_user_cong: "(\<And>x. x < n \<Longrightarrow> deref s' (v + of_nat x) = deref s (v + of_nat x)) \<Longrightarrow> shows_user c s' a v n = shows_user c s a v n"
  by (simp add: shows_user_def)

text \<open>What the function gets for argument \<open>j\<close>, and for the arguments from \<open>i\<close> on up to one without flags; \<open>args\<close> are the arguments as they were passed.\<close>

definition arg_shown :: "syscall_definition \<Rightarrow> u32 list \<Rightarrow> vm_ctx \<Rightarrow> vm \<Rightarrow> u32 list \<Rightarrow> nat \<Rightarrow> bool" where
  "arg_shown def args c s as j \<longleftrightarrow>
     (if mapped_arg (arg_flags def ! j) (args ! j)
      then shows_user c s (args ! j) (as ! j) (unat (fst (arg_size def (arg_flags def ! j) args))) else as ! j = args ! j)"

definition args_shown :: "syscall_definition \<Rightarrow> u32 list \<Rightarrow> vm_ctx \<Rightarrow> vm \<Rightarrow> u32 list \<Rightarrow> nat \<Rightarrow> bool" where
  "args_shown def args c s as i \<longleftrightarrow> (\<forall>j. i \<le> j \<and> j < 3 \<and> (\<forall>k. i \<le> k \<and> k \<le> j \<longrightarrow> arg_flags def ! k \<noteq> 0) \<longrightarrow> arg_shown def args c s as j)"

lemma args_shown_step:
  assumes "arg_shown def args c s as i" "args_shown def args c s as (Suc i)"
  shows "args_shown def args c s as i"
  unfolding args_shown_def
proof (intro allI impI)
  fix j assume j: "i \<le> j \<and> j < 3 \<and> (\<forall>k. i \<le> k \<and> k \<le> j \<longrightarrow> arg_flags def ! k \<noteq> 0)"
  show "arg_shown def args c s as j"
  proof (cases "j = i")
    case False
    then show ?thesis using assms(2) j unfolding args_shown_def by simp
  qed (use assms(1) in simp)
qed

definition args_kept :: "syscall_definition \<Rightarrow> u32 list \<Rightarrow> u32 list \<Rightarrow> nat \<Rightarrow> bool" where
  "args_kept def args as i \<longleftrightarrow> length as = 3 \<and> (\<forall>j < 3. i \<le> j \<or> \<not> is_set (arg_flags def ! j) (SCA_POINTER OR SCA_STRING) \<longrightarrow> as ! j = args ! j)"

lemma translate_args_show:
  assumes sd: "sized_args def" and bound: "\<forall>f \<in> set (arg_flags def). unat (fst (arg_size def f args)) + 8191 \<le> 2 ^ 32"
  shows "translate_args alloc ctx def fs i as maps s = Ret (Translated as' maps' s') \<Longrightarrow> fs = drop i (arg_flags def) \<Longrightarrow> map_ready ctx s \<Longrightarrow> args_kept def args as i \<Longrightarrow>
    (\<forall>w. bitmap_bit (vc_bitmap (ctxs s (VM_KERNEL s))) (unat w div 4096) \<longrightarrow> deref s' w = deref s w) \<and> (\<forall>j < i. as' ! j = as ! j) \<and>
    args_shown def args (ctxs s ctx) s' as' i"
proof (induction fs arbitrary: i as maps s)
  case Nil
  then have "3 \<le> i" by (simp add: arg_flags_def)
  then show ?case using Nil by (auto simp: args_shown_def)
next
  case (Cons f fs)
  let ?F = "arg_flags def"
  have l: "length ?F = 3" by (simp add: arg_flags_def)
  have i: "i < 3" using Cons.prems(2) l by (metis drop_all list.distinct(1) not_le)
  then have "drop i ?F = ?F ! i # drop (Suc i) ?F" using l by (simp add: Cons_nth_drop_Suc)
  then have f: "?F ! i = f" "fs = drop (Suc i) ?F" "f \<in> set ?F" using Cons.prems(2) i l by auto
  show ?case
  proof (cases "f = 0")
    case True
    then show ?thesis using Cons.prems(1) f(1) by (auto simp: args_shown_def)
  next
    case nz: False
    have ai: "as ! i = args ! i" and la: "length as = 3" using Cons.prems(4) i by (simp_all add: args_kept_def)
    have size: "arg_size def f as = (fst (arg_size def f args), False)" using Cons.prems(4) by (intro arg_size_numbers [OF sd f(3)]) (simp add: args_kept_def)
    have plain: "\<not> is_set f (SCA_STRING OR SCA_FLEX_SIZE)" using sd f(3) by (simp add: sized_args_def)
    obtain res where res: "translate_arg alloc ctx def f as (args ! i) s = Ret res" using Cons.prems(1) nz ai by (auto simp: obind_Ret)
    show ?thesis
    proof (cases res)
      case Keep
      then have t: "translate_args alloc ctx def fs (Suc i) as maps s = Ret (Translated as' maps' s')" using Cons.prems(1) nz ai res by simp
      have "args_kept def args as (Suc i)" using Cons.prems(4) by (simp add: args_kept_def)
      note ih = Cons.IH [OF t f(2) Cons.prems(3) this]
      have "arg_shown def args (ctxs s ctx) s' as' i" using translate_arg_keep [of alloc ctx def f as "args ! i" s] res Keep ih ai f(1) by (simp add: arg_shown_def)
      then show ?thesis using ih args_shown_step by simp
    next
      case (Refuse b s1)
      then show ?thesis using Cons.prems(1) nz ai res by simp
    next
      case (Mapped v r s1)
      let ?n = "unat (fst (arg_size def f args))"
      have m: "mapped_arg f (args ! i)" "shows_user (ctxs s ctx) s1 (args ! i) v ?n" "map_ready ctx s1" "ctxs s1 ctx = ctxs s ctx"
          "\<And>w. bitmap_bit (vc_bitmap (ctxs s (VM_KERNEL s))) (unat w div 4096) \<Longrightarrow> bitmap_bit (vc_bitmap (ctxs s1 (VM_KERNEL s1))) (unat w div 4096) \<and> deref s1 w = deref s w"
          "\<And>x. x < ?n \<Longrightarrow> bitmap_bit (vc_bitmap (ctxs s1 (VM_KERNEL s1))) (unat (v + of_nat x) div 4096)"
        using translate_arg_mapped [OF Cons.prems(3) plain size _ res [unfolded Mapped]] bound f(3) by auto
      have t: "translate_args alloc ctx def fs (Suc i) (as[i := v]) (r # maps) s1 = Ret (Translated as' maps' s')" using Cons.prems(1) nz ai res Mapped by simp
      have "is_set (?F ! i) (SCA_POINTER OR SCA_STRING)" using m(1) f(1) by (simp add: mapped_arg_def)
      then have "args_kept def args (as[i := v]) (Suc i)" using Cons.prems(4) i la by (auto simp: args_kept_def nth_list_update)
      note ih = Cons.IH [OF t f(2) m(3) this, unfolded m(4)]
      have "as' ! i = v" using ih la i by simp
      moreover have "shows_user (ctxs s ctx) s' (args ! i) v ?n" using m(2,6) ih shows_user_cong [of ?n s' v s1] by blast
      ultimately have "arg_shown def args (ctxs s ctx) s' as' i" using m(1) f(1) by (simp add: arg_shown_def)
      then have "args_shown def args (ctxs s ctx) s' as' i" using ih args_shown_step by blast
      moreover have "deref s' w = deref s w" if "bitmap_bit (vc_bitmap (ctxs s (VM_KERNEL s))) (unat w div 4096)" for w using ih m(5) [OF that] by simp
      moreover have "\<forall>j < i. as' ! j = as ! j" using ih by simp
      ultimately show ?thesis by blast
    qed
  qed
qed


lemma read_call:
  "\<exists>maps s'. translate_args (table_alloc 0) 2 (syscall_table True ! 2) (arg_flags (syscall_table True ! 2)) 0 [3, 0x5004, 8] [] demo_vm =
     Ret (Translated [3, 0x20004, 8] maps s')"
proof -
  let ?fl = "VM_RW OR VM_MAP_USER_ONLY OR 0"
  obtain r s' where "vm_map (table_alloc 0) (VM_KERNEL demo_vm) 2 0x5004 8 ?fl demo_vm = Ret (0x20004, Some r, s')" using demo_map [of ?fl] by (auto simp: demo_ctxs)
  then show ?thesis
    by (simp add: syscall_table_def sysdef_def arg_flags_def translate_arg_def arg_size_def is_set_def sca_defs)
qed


section \<open>Sizes wrap around\<close>

lemma poll_def: "syscall_table picotcp ! 9 = sysdef ''poll'' (Some ''vfs_poll'') 0 (SCA_POINTER OR SCA_SIZE_IN_1) SCA_INT SCA_INT 8"
  by (simp add: syscall_table_def)

text \<open>The size of the first argument of \<^verbatim>\<open>poll\<close> is eight times the second one.\<close>

lemma poll_translate:
  "translate_args alloc ctx (syscall_table picotcp ! 9) (arg_flags (syscall_table picotcp ! 9)) 0 [a, n, t] [] s =
     (if 8 * n = 0 then Ret (Refused False s)
      else obind (vm_map alloc (VM_KERNEL s) ctx a (8 * n) (VM_RW OR VM_MAP_USER_ONLY OR 0) s) (\<lambda>(v, r, s).
        case if v = 0 then None else r of None \<Rightarrow> Ret (Refused True s) | Some r \<Rightarrow> Ret (Translated [v, n, t] [r] s)))"
  unfolding poll_def
  by (auto simp: sysdef_def arg_flags_def translate_arg_def arg_size_def is_set_def sca_defs Let_def obind_def split: outcome.splits option.splits)

text \<open>
  C39. The size of the buffer is checked modulo \<open>2 ^ 32\<close>: a call of \<^verbatim>\<open>poll\<close> for \<open>n + 2 ^ 29\<close> descriptors is accepted whenever the one for \<open>n\<close> is, with the same mapping of
  \<open>8 * n\<close> bytes, and the function is told the larger number.
\<close>

theorem poll_size_wraps:
  assumes "translate_args alloc ctx (syscall_table picotcp ! 9) (arg_flags (syscall_table picotcp ! 9)) 0 [a, n, t] [] s = Ret (Translated [v, n, t] maps s')"
  shows "translate_args alloc ctx (syscall_table picotcp ! 9) (arg_flags (syscall_table picotcp ! 9)) 0 [a, n + 0x20000000, t] [] s =
    Ret (Translated [v, n + 0x20000000, t] maps s')"
proof -
  have e: "8 * (n + 0x20000000) = 8 * n" by (simp add: distrib_left)
  show ?thesis using assms unfolding poll_translate e by (auto simp: obind_Ret split: if_splits option.splits)
qed

theorem poll_size_wraps_witness:
  "\<exists>maps s'. translate_args (table_alloc 0) 2 (syscall_table True ! 9) (arg_flags (syscall_table True ! 9)) 0 [0x5004, 0x20000001, 0] [] demo_vm =
     Ret (Translated [0x20004, 0x20000001, 0] maps s')"
proof -
  obtain r s' where "vm_map (table_alloc 0) (VM_KERNEL demo_vm) 2 0x5004 8 (VM_RW OR VM_MAP_USER_ONLY OR 0) demo_vm = Ret (0x20004, Some r, s')"
    using demo_map [of "VM_RW OR VM_MAP_USER_ONLY OR 0"] by (auto simp: demo_ctxs)
  then have "translate_args (table_alloc 0) 2 (syscall_table True ! 9) (arg_flags (syscall_table True ! 9)) 0 [0x5004, 1, 0] [] demo_vm =
      Ret (Translated [0x20004, 1, 0] [r] s')"
    unfolding poll_translate by simp
  from poll_size_wraps [OF this] show ?thesis by auto
qed

end
