(* ===== verification/Execdata.thy ===== *)
theory Execdata
  imports CString Bytes
begin

text \<open>
  The pages with the arguments and the environment of a program (\<^verbatim>\<open>src/tasks/execdata.c\<close>). They are the list of their bytes; a program finds them at
  \<^verbatim>\<open>CONFIG_EXECDATA_LOCATION\<close>.
\<close>

section \<open>Layout\<close>

definition EXECDATA_LOCATION :: u32 where "EXECDATA_LOCATION = 0x5000"

text \<open>The size of \<^verbatim>\<open>struct execdata\<close>, and of the four pages.\<close>

definition sizeof_execdata :: nat where "sizeof_execdata = 1312"
definition execdata_size :: nat where "execdata_size = 16384"

text \<open>What \<^verbatim>\<open>task_setup_execdata\<close> reads of the task; the parent's number is 0 without a parent. \<open>xt_binary_path\<close> are the bytes of the array.\<close>

record exec_task =
  xt_pid :: u32
  xt_ppid :: u32
  xt_uid :: u16
  xt_gid :: u16
  xt_euid :: u16
  xt_egid :: u16
  xt_argv :: "string list"
  xt_environ :: "string list"
  xt_binary_path :: "u8 list"

text \<open>Writes into the pages; \<open>None\<close>: behind the end of the four pages.\<close>

definition poke :: "nat \<Rightarrow> u8 list \<Rightarrow> u8 list \<Rightarrow> u8 list option" where
  "poke i bs d = (if i + length bs \<le> length d then Some (overlay_at i bs d) else None)"

definition poke32 :: "nat \<Rightarrow> u32 \<Rightarrow> u8 list \<Rightarrow> u8 list option" where
  "poke32 i w d = (if i + 4 \<le> length d then Some (put32 i w d) else None)"

definition poke16 :: "nat \<Rightarrow> u16 \<Rightarrow> u8 list \<Rightarrow> u8 list option" where
  "poke16 i w d = (if i + 2 \<le> length d then Some (put16 i w d) else None)"

definition byte_of :: "char \<Rightarrow> u8" where
  "byte_of c = of_nat (of_char c)"

text \<open>
  The loop over the strings of an array: the pointer to each string goes into the array at \<open>tab\<close>, the string itself to \<open>pos\<close>. At most 199 characters are copied, but the
  next string follows behind the length of the whole string.
\<close>

fun put_strings :: "nat \<Rightarrow> string list \<Rightarrow> nat \<Rightarrow> u8 list \<Rightarrow> (nat \<times> u8 list) option" where
  "put_strings tab [] pos d = Some (pos, d)"
| "put_strings tab (x # xs) pos d =
     Option.bind (poke32 tab (EXECDATA_LOCATION + of_nat pos) d) (\<lambda>d.
     Option.bind (poke pos (map byte_of (fst (strlcpy x 200))) d) (\<lambda>d.
     put_strings (tab + 4) xs (pos + strlen x + 1) d))"

definition put_numbers :: "exec_task \<Rightarrow> u8 list \<Rightarrow> u8 list option" where
  "put_numbers t d =
     Option.bind (poke32 0 (xt_pid t) d) (\<lambda>d. Option.bind (poke16 280 (xt_uid t) d) (\<lambda>d. Option.bind (poke16 282 (xt_gid t) d) (\<lambda>d.
     Option.bind (poke16 284 (xt_euid t) d) (\<lambda>d. Option.bind (poke16 286 (xt_egid t) d) (\<lambda>d. Option.bind (poke32 4 (xt_ppid t) d) (\<lambda>d.
     Option.bind (poke32 8 (of_nat (length (xt_argv t))) d) (\<lambda>d. Option.bind (poke32 12 (of_nat (length (xt_environ t))) d) (\<lambda>d.
     Option.bind (poke 288 (xt_binary_path t) d) (\<lambda>d. poke 24 (take 256 (xt_binary_path t)) d)))))))))"

definition task_setup_execdata :: "exec_task \<Rightarrow> u8 list option" where
  "task_setup_execdata t =
     (let argv = sizeof_execdata; strings = argv + 4 * (length (xt_argv t) + 1) in
      Option.bind (poke32 16 (EXECDATA_LOCATION + of_nat argv) (replicate execdata_size 0)) (\<lambda>d.
      Option.bind (put_strings argv (xt_argv t) strings d) (\<lambda>(env, d).
      Option.bind (poke32 20 (EXECDATA_LOCATION + of_nat env) d) (\<lambda>d.
      Option.bind (put_strings env (xt_environ t) (env + 4 * (length (xt_environ t) + 1)) d) (\<lambda>(_, d).
      put_numbers t d)))))"

section \<open>What the program reads\<close>

definition get_string :: "u8 list \<Rightarrow> nat \<Rightarrow> string" where
  "get_string d i = c_string (map (\<lambda>b. char_of (unat b)) (drop i d))"

definition get_array :: "u8 list \<Rightarrow> u32 \<Rightarrow> nat \<Rightarrow> string list" where
  "get_array d a n = map (\<lambda>i. get_string d (unat (get32 d (unat (a - EXECDATA_LOCATION) + 4 * i) - EXECDATA_LOCATION))) [0..<n]"

text \<open>The array at \<open>tab\<close> points to the strings, one behind the other from \<open>pos\<close> on.\<close>

fun strings_at :: "u8 list \<Rightarrow> nat \<Rightarrow> nat \<Rightarrow> string list \<Rightarrow> bool" where
  "strings_at d tab pos [] \<longleftrightarrow> True"
| "strings_at d tab pos (x # xs) \<longleftrightarrow> get32 d tab = EXECDATA_LOCATION + of_nat pos \<and> (\<forall>k < length x. d ! (pos + k) = byte_of (x ! k)) \<and>
     d ! (pos + length x) = 0 \<and> strings_at d (tab + 4) (pos + length x + 1) xs"

definition room :: "string list \<Rightarrow> nat" where
  "room xs = sum_list (map (\<lambda>x. length x + 1) xs)"

lemma room_simps [simp]: "room [] = 0" "room (x # xs) = length x + 1 + room xs"
  by (simp_all add: room_def)

definition short_string :: "string \<Rightarrow> bool" where
  "short_string x \<longleftrightarrow> plain x \<and> length x < 200"

lemma strings_at_cong:
  "(\<And>k. tab \<le> k \<Longrightarrow> k < tab + 4 * length xs \<Longrightarrow> d' ! k = d ! k) \<Longrightarrow> (\<And>k. pos \<le> k \<Longrightarrow> k < pos + room xs \<Longrightarrow> d' ! k = d ! k) \<Longrightarrow>
   strings_at d tab pos xs \<Longrightarrow> strings_at d' tab pos xs"
proof (induction xs arbitrary: tab pos)
  case (Cons x xs)
  have "get32 d' tab = get32 d tab" by (intro get32_cong Cons.prems(1)) simp_all
  moreover have "d' ! (pos + k) = d ! (pos + k)" if "k \<le> length x" for k using that by (intro Cons.prems(2)) simp_all
  moreover have "strings_at d' (tab + 4) (pos + length x + 1) xs"
  proof (rule Cons.IH)
    show "strings_at d (tab + 4) (pos + length x + 1) xs" using Cons.prems(3) by simp
    show "d' ! k = d ! k" if "tab + 4 \<le> k" "k < tab + 4 + 4 * length xs" for k using that by (intro Cons.prems(1)) simp_all
    show "d' ! k = d ! k" if "pos + length x + 1 \<le> k" "k < pos + length x + 1 + room xs" for k using that by (intro Cons.prems(2)) simp_all
  qed
  ultimately show ?case using Cons.prems(3) by simp
qed simp

lemma byte_of_inverse [simp]: "char_of (unat (byte_of c)) = c"
proof -
  have "unat (of_nat (of_char c) :: u8) = of_char c" by (simp add: unat_of_nat)
  then show ?thesis by (simp add: byte_of_def)
qed

lemma byte_of_0: "byte_of NUL = 0"
  by (simp add: byte_of_def NUL_def)

lemma strlcpy_short:
  assumes "short_string x"
  shows "map byte_of (fst (strlcpy x 200)) = map byte_of x @ [0]" "strlen x = length x"
  using assms by (simp_all add: short_string_def strlcpy_spec plain_simps byte_of_0)

text \<open>The loop writes the array and the strings and nothing else.\<close>

lemma put_strings_at:
  "list_all short_string xs \<Longrightarrow> tab + 4 * length xs \<le> pos \<Longrightarrow> pos + room xs \<le> length d \<Longrightarrow>
   \<exists>d'. put_strings tab xs pos d = Some (pos + room xs, d') \<and> length d' = length d \<and> strings_at d' tab pos xs \<and>
     (\<forall>k < length d. k < tab \<or> tab + 4 * length xs \<le> k \<and> k < pos \<or> pos + room xs \<le> k \<longrightarrow> d' ! k = d ! k)"
proof (induction xs arbitrary: tab pos d)
  case (Cons x xs)
  let ?bs = "map byte_of x @ [0]"
  let ?d1 = "put32 tab (EXECDATA_LOCATION + of_nat pos) d" and ?d2 = "overlay_at pos ?bs (put32 tab (EXECDATA_LOCATION + of_nat pos) d)"
  have sh: "short_string x" "list_all short_string xs" using Cons.prems(1) by simp_all
  have fit: "pos + length x + 1 + room xs \<le> length d" "tab + 4 + 4 * length xs \<le> pos" using Cons.prems(2,3) by simp_all
  have d2: "length ?d2 = length d" using fit by simp
  have step: "put_strings tab (x # xs) pos d = put_strings (tab + 4) xs (pos + length x + 1) ?d2"
    using fit strlcpy_short [OF sh(1)] by (simp add: poke32_def poke_def)
  obtain d' where d': "put_strings (tab + 4) xs (pos + length x + 1) ?d2 = Some (pos + length x + 1 + room xs, d')" "length d' = length ?d2"
      "strings_at d' (tab + 4) (pos + length x + 1) xs"
      "\<forall>k < length ?d2. k < tab + 4 \<or> tab + 4 + 4 * length xs \<le> k \<and> k < pos + length x + 1 \<or> pos + length x + 1 + room xs \<le> k \<longrightarrow> d' ! k = ?d2 ! k"
    using Cons.IH [OF sh(2), of "tab + 4" "pos + length x + 1" ?d2] fit d2 by auto
  have n2: "?d2 ! k = (if pos \<le> k \<and> k < pos + length ?bs then ?bs ! (k - pos) else ?d1 ! k)" if "k < length d" for k
    using that fit by (intro nth_overlay_at) simp_all
  have keep: "d' ! k = d ! k" if "k < length d" "k < tab \<or> tab + 4 * length (x # xs) \<le> k \<and> k < pos \<or> pos + room (x # xs) \<le> k" for k
  proof -
    have "d' ! k = ?d2 ! k" using that fit d2 d'(4) by auto
    also have "\<dots> = ?d1 ! k" using that fit n2 [OF that(1)] by auto
    also have "\<dots> = d ! k" using that fit by (intro nth_put32) auto
    finally show ?thesis .
  qed
  have "get32 d' tab = get32 ?d1 tab"
  proof (rule get32_cong)
    have "d' ! k = ?d1 ! k" if "tab \<le> k" "k < tab + 4" for k
    proof -
      have "k < length d" "k < pos" using that fit by simp_all
      then show ?thesis using d'(4) d2 that n2 [of k] by simp
    qed
    then show "d' ! tab = ?d1 ! tab" "d' ! (tab + 1) = ?d1 ! (tab + 1)" "d' ! (tab + 2) = ?d1 ! (tab + 2)" "d' ! (tab + 3) = ?d1 ! (tab + 3)" by simp_all
  qed
  moreover have "d' ! (pos + k) = ?bs ! k" if "k < length ?bs" for k
  proof -
    have "d' ! (pos + k) = ?d2 ! (pos + k)" using d'(4) d2 that fit by simp
    then show ?thesis using n2 [of "pos + k"] that fit by simp
  qed
  ultimately have "strings_at d' tab pos (x # xs)" using d'(3) fit by (simp add: nth_append)
  then show ?case unfolding step using d'(1,2) d2 keep by simp
qed simp

text \<open>The program reads back what was written.\<close>

lemma get_string_at:
  assumes "pos + length x < length d" "\<forall>k < length x. d ! (pos + k) = byte_of (x ! k)" "d ! (pos + length x) = 0" "NUL \<notin> set x"
  shows "get_string d pos = x"
proof -
  let ?m = "map (\<lambda>b. char_of (unat b)) (drop pos d)"
  have dr: "drop pos d ! i = d ! (pos + i)" if "i \<le> length x" for i using assms(1) that by (intro nth_drop) simp
  have c0: "char_of (0 :: nat) = CHR 0x00" by code_simp
  have "take (length x) ?m = x" using assms(1,2) dr by (intro nth_equalityI) simp_all
  moreover have "drop (length x) ?m = NUL # drop (Suc (length x)) ?m"
    using assms(1,3) dr [of "length x"] by (subst Cons_nth_drop_Suc [symmetric]) (simp_all add: NUL_def c0)
  ultimately have "?m = x @ NUL # drop (Suc (length x)) ?m" by (metis append_take_drop_id)
  then show ?thesis using c_string_end [OF assms(4)] unfolding get_string_def by metis
qed

lemma get_array_at:
  assumes "strings_at d tab pos xs" "list_all short_string xs" "pos + room xs \<le> length d" "length d \<le> execdata_size" "tab < execdata_size"
  shows "get_array d (EXECDATA_LOCATION + of_nat tab) (length xs) = xs"
proof -
  have ad: "unat (EXECDATA_LOCATION + of_nat n - EXECDATA_LOCATION) = n" if "n \<le> execdata_size" for n
    using that by (simp add: execdata_size_def unat_of_nat_u32)
  have "get_string d (unat (get32 d (tab + 4 * i) - EXECDATA_LOCATION)) = xs ! i" if "i < length xs" for i
    using assms(1-3) that
  proof (induction xs arbitrary: tab pos i)
    case (Cons x xs)
    show ?case
    proof (cases i)
      case 0
      have "get_string d pos = x" using Cons.prems by (intro get_string_at) (auto simp: short_string_def plain_def)
      then show ?thesis using 0 Cons.prems ad [of pos] assms(4) by simp
    next
      case (Suc j)
      have "get_string d (unat (get32 d (tab + 4 + 4 * j) - EXECDATA_LOCATION)) = xs ! j"
        using Cons.prems Suc by (intro Cons.IH [of "tab + 4" "pos + length x + 1"]) simp_all
      then show ?thesis using Suc by (simp add: add.assoc)
    qed
  qed simp
  then show ?thesis using ad [of tab] assms(5) unfolding get_array_def by (intro nth_equalityI) simp_all
qed

lemma put_numbers_at:
  assumes "length d = execdata_size" "length (xt_binary_path t) = 1024"
  shows "\<exists>d'. put_numbers t d = Some d' \<and> length d' = execdata_size \<and> get32 d' 0 = xt_pid t \<and> get32 d' 4 = xt_ppid t \<and>
    get32 d' 8 = of_nat (length (xt_argv t)) \<and> get32 d' 12 = of_nat (length (xt_environ t)) \<and> take 1024 (drop 288 d') = xt_binary_path t \<and>
    (\<forall>k < execdata_size. 16 \<le> k \<and> k < 24 \<or> sizeof_execdata \<le> k \<longrightarrow> d' ! k = d ! k)"
proof -
  let ?n = "put32 12 (of_nat (length (xt_environ t))) (put32 8 (of_nat (length (xt_argv t))) (put32 4 (xt_ppid t)
    (put16 286 (xt_egid t) (put16 284 (xt_euid t) (put16 282 (xt_gid t) (put16 280 (xt_uid t) (put32 0 (xt_pid t) d)))))))"
  let ?p = "overlay_at 288 (xt_binary_path t) ?n"
  let ?d = "overlay_at 24 (take 256 (xt_binary_path t)) ?p"
  have ln: "length ?n = execdata_size" using assms by simp
  have lp: "length ?p = execdata_size" using assms ln by (simp add: execdata_size_def)
  have e: "put_numbers t d = Some ?d" using assms ln lp by (simp add: put_numbers_def poke32_def poke16_def poke_def execdata_size_def)
  have nd: "?d ! k = (if 24 \<le> k \<and> k < 280 then xt_binary_path t ! (k - 24) else ?p ! k)" if "k < execdata_size" for k
    using that lp assms(2) by (subst nth_overlay_at) (auto simp: execdata_size_def)
  have np: "?p ! k = (if 288 \<le> k \<and> k < 1312 then xt_binary_path t ! (k - 288) else ?n ! k)" if "k < execdata_size" for k
    using that ln assms(2) by (subst nth_overlay_at) (auto simp: execdata_size_def)
  have "?d ! k = ?n ! k" if "k < 24 \<or> 280 \<le> k \<and> k < 288 \<or> 1312 \<le> k" "k < execdata_size" for k using that nd np by auto
  then have g: "get32 ?d i = get32 ?n i" if "i + 4 \<le> 24" for i using that by (intro get32_cong) (simp_all add: execdata_size_def)
  have "take 1024 (drop 288 ?d) = xt_binary_path t"
    using lp assms(2) nd np by (intro nth_equalityI) (auto simp: execdata_size_def)
  moreover have "?d ! k = d ! k" if "k < execdata_size" "16 \<le> k \<and> k < 24 \<or> 1312 \<le> k" for k
    using that nd np by (auto simp: nth_put32 nth_put16)
  moreover have "length ?d = execdata_size" using lp assms(2) by (simp add: execdata_size_def)
  ultimately show ?thesis unfolding e using g assms(1) by (simp add: execdata_size_def sizeof_execdata_def)
qed



end
