(* ===== verification/Task.thy ===== *)
theory Task
  imports Task_Mem_Props Execdata Sched Sysfs Pipe
begin

text \<open>
  Creating tasks (\<^verbatim>\<open>src/tasks/task.c\<close>): \<^verbatim>\<open>task_new\<close>, \<^verbatim>\<open>fork\<close>, \<^verbatim>\<open>execve\<close>, \<^verbatim>\<open>chdir\<close> and \<^verbatim>\<open>strace\<close>, and their removal. A task is the record of \<open>Signal\<close> with the fields added that only these functions use. What
  \<^verbatim>\<open>kmalloc\<close> returns and where the parts of the kernel lie are parameters; it is assumed not to fail, which the code does not check in most places.
\<close>

section \<open>Data\<close>

definition KERNEL_STACK_PAGES :: u32 where "KERNEL_STACK_PAGES = 4"

record proc = task +
  p_name :: string
  p_cwd :: string
  p_binary_path :: string
  p_argv :: "string list"
  p_environ :: "string list"
  p_files :: "vfs_file list"
  p_mem :: tmem
  p_entry :: u32
  p_state_addr :: u32
  p_kernel_stack :: u32
  p_cr3 :: u32
  p_sysfs_file :: u32

text \<open>The addresses a new task gets, and those of the kernel's parts that are visible in every task, of the loader and of the function that shows a task in \<^verbatim>\<open>/sys\<close>.\<close>

record birth =
  b_alloc :: table_allocator
  b_ctx :: u32
  b_sysfs :: u32
  b_addr :: u32
  b_qentry :: nat
  b_id :: nat
  ul_visible_start :: u32
  ul_visible_size :: u32
  loader_alloc :: vm_range
  sfs_read_fn :: u32

definition no_isf :: isf where
  "no_isf = \<lparr>edi = 0, esi = 0, ebp = 0, ebx = 0, edx = 0, ecx = 0, eax = 0, esp = 0\<rparr>"

text \<open>A task after \<^verbatim>\<open>zmalloc\<close>.\<close>

definition zero_proc :: "u32 \<Rightarrow> proc" where
  "zero_proc ctx = \<lparr>t_pid = 0, t_uid = 0, t_gid = 0, t_euid = 0, t_egid = 0, t_parent = 0, t_qentry = 0, t_state = no_isf, t_iret = \<lparr>iret_eip = 0, iret_user_esp = 0\<rparr>,
     t_mem = (\<lambda>_. 0), t_ctty = 0, task_state = TERMINATED, t_exit_code = 0, t_signal_handlers = replicate 33 \<lparr>sa_flags = 0, sa_mask = 0, sa_handler = 0\<rparr>,
     t_signal_mask = 0, t_wait_for = 0, t_wait_res_pid = 0, t_stat_loc = 0, t_interrupt_yield = False, t_sleep_until = 0, t_strace_observer = 0, t_strace_fd = 0,
     p_name = [], p_cwd = [], p_binary_path = [], p_argv = [], p_environ = [], p_files = replicate 500 zero_file,
     p_mem = \<lparr>tm_vmem = ctx, tm_sbrk = 0, tm_stack_size = 0, tm_errno = None\<rparr>, p_entry = 0, p_state_addr = 0, p_kernel_stack = 0, p_cr3 = 0, p_sysfs_file = 0\<rparr>"

section \<open>New tasks\<close>

text \<open>\<open>parent\<close> is the number and the record of the parent. The first component of the result is \<^verbatim>\<open>highest_pid\<close>.\<close>

definition alloc_task ::
    "birth \<Rightarrow> (nat \<times> proc) option \<Rightarrow> u32 \<Rightarrow> string \<Rightarrow> string list \<Rightarrow> string list \<Rightarrow> u32 \<Rightarrow> vm \<Rightarrow> 'x sysfs_scheme \<Rightarrow>
     (proc option \<times> u32 \<times> vm \<times> 'x sysfs_scheme) outcome" where
  "alloc_task b parent pid name environ argv highest_pid s sf =
     obind (vm_alloc_at (b_alloc b) (b_ctx b) (RDIV (ul_visible_size b) PAGE_SIZE) (ul_visible_start b) (ul_visible_start b) VM_FIXED (vm_new (b_ctx b) 0 s)) (\<lambda>(v, _, s).
       if v = 0 then Ret (None, highest_pid, s, sf)
       else let highest_pid = (if pid \<noteq> 0 then highest_pid else highest_pid + 1);
                pid = (if pid \<noteq> 0 then pid else highest_pid);
                t = (zero_proc (b_ctx b))\<lparr>t_pid := pid, task_state := RUNNING, p_name := c_string (fst (strlcpy name VFS_NAME_MAX)),
                       p_cwd := (case parent of Some (_, p) \<Rightarrow> p_cwd p | None \<Rightarrow> ''/''), t_parent := (case parent of Some (i, _) \<Rightarrow> i | None \<Rightarrow> 0),
                       p_environ := environ, p_argv := argv\<rparr>
            in case sysfs_add_file (b_sysfs b) (snprintf 10 (''task'' @ decimal (unat pid))) (no_callbacks\<lparr>cb_read := sfs_read_fn b\<rparr>) sf of
                 None \<Rightarrow> Fault
               | Some sf \<Rightarrow>
                   (case upd_sf (b_sysfs b) (\<lambda>f. f\<lparr>sf_meta := b_addr b\<rparr>) sf of
                      None \<Rightarrow> Fault | Some sf \<Rightarrow> Ret (Some (t\<lparr>p_sysfs_file := b_sysfs b\<rparr>), highest_pid, s, sf)))"

text \<open>
  The page of the registers and the kernel's stack, both at the same address in the kernel and in the task. The structures of the first allocation are used again for
  the second one, and are freed if that one fails.
\<close>

definition map_task :: "table_allocator \<Rightarrow> proc \<Rightarrow> vm \<Rightarrow> (proc option \<times> vm) outcome" where
  "map_task alloc t s =
     (let reqs = [(VM_KERNEL s, VM_RW), (tm_vmem (p_mem t), VM_FREE)] in
      obind (vm_alloc_many alloc reqs 1 0 s) (\<lambda>(v, rs, s).
        if v = 0 then Ret (None, s)
        else let t = t\<lparr>p_state_addr := v, t_state := no_isf\<rparr> in
             obind (vm_alloc_many alloc reqs KERNEL_STACK_PAGES 0 s) (\<lambda>(w, qs, s).
               if w = 0
               then let ms = qs @ drop (length qs) rs in obind (vm_free (ms ! 0) s) (\<lambda>s. obind (vm_free (ms ! 1) s) (\<lambda>s. Ret (None, s)))
               else Ret (Some (t\<lparr>p_kernel_stack := w\<rparr>), s))))"

text \<open>\<open>ppid\<close> is the number of the parent. The bytes go to the physical pages that both ranges share; running over the four pages is an access outside of the range.\<close>

definition exec_info :: "u32 \<Rightarrow> proc \<Rightarrow> exec_task" where
  "exec_info ppid t = \<lparr>xt_pid = t_pid t, xt_ppid = ppid, xt_uid = t_uid t, xt_gid = t_gid t, xt_euid = t_euid t, xt_egid = t_egid t,
     xt_argv = p_argv t, xt_environ = p_environ t,
     xt_binary_path = take 1024 (map byte_of (p_binary_path t) @ replicate 1024 0)\<rparr>"

definition put_phys :: "u32 \<Rightarrow> u8 list \<Rightarrow> vm \<Rightarrow> vm" where
  "put_phys p d s = s\<lparr>pmem := (\<lambda>a. if p \<le> a \<and> unat (a - p) < length d then d ! unat (a - p) else pmem s a)\<rparr>"

definition setup_execdata :: "table_allocator \<Rightarrow> u32 \<Rightarrow> proc \<Rightarrow> vm \<Rightarrow> vm outcome" where
  "setup_execdata alloc ppid t s =
     obind (vm_alloc_at alloc (VM_KERNEL s) 4 0 0 (VM_RW OR VM_ZERO) s) (\<lambda>(_, r, s).
       case r of
         None \<Rightarrow> Fault
       | Some r \<Rightarrow>
           obind (vm_alloc_at alloc (tm_vmem (p_mem t)) 4 EXECDATA_LOCATION (vr_phys r) (VM_USER OR VM_RW OR VM_FREE OR VM_FIXED) s) (\<lambda>(_, _, s).
             case task_setup_execdata (exec_info ppid t) of
               None \<Rightarrow> Fault
             | Some d \<Rightarrow> vm_free r (put_phys (vr_phys r) d s)))"

text \<open>The standard files; the results of \<^verbatim>\<open>vfs_open\<close> are not used. \<open>None\<close>: a call does not return.\<close>

definition open_std :: "'w drivers \<Rightarrow> proc \<Rightarrow> 'w vfs \<Rightarrow> (proc \<times> 'w vfs) option" where
  "open_std D t v = do {
     (_, v) \<leftarrow> vfs_open D (Some ''/dev/stdin'') O_RDONLY (v\<lparr>files := p_files t, is_task := True, cwd := p_cwd t, euid := t_euid t, ctty := of_nat (t_ctty t)\<rparr>);
     (_, v) \<leftarrow> vfs_open D (Some ''/dev/stdout'') O_WRONLY v;
     (_, v) \<leftarrow> vfs_open D (Some ''/dev/stderr'') O_WRONLY v;
     Some (t\<lparr>p_files := files v\<rparr>, v)
   }"

text \<open>The registers on the stack of the new task, through a mapping whose address is not checked.\<close>

definition setup_iret :: "table_allocator \<Rightarrow> proc \<Rightarrow> vm \<Rightarrow> (proc \<times> vm) outcome" where
  "setup_iret alloc t s =
     obind (vm_map alloc (VM_KERNEL s) (tm_vmem (p_mem t)) (esp (t_state t)) 20 0 s) (\<lambda>(v, r, s).
       case r of
         None \<Rightarrow> Fault
       | Some r \<Rightarrow> obind (vm_free r s) (\<lambda>s. Ret (t\<lparr>t_iret := \<lparr>iret_eip = p_entry t, iret_user_esp = TASK_STACK_LOCATION\<rparr>\<rparr>, s)))"

definition task_new ::
    "birth \<Rightarrow> 'w drivers \<Rightarrow> (nat \<times> proc) option \<Rightarrow> u32 \<Rightarrow> string \<Rightarrow> string list \<Rightarrow> string list \<Rightarrow> u32 \<Rightarrow> vm \<Rightarrow> 'x sysfs_scheme \<Rightarrow> 'w vfs \<Rightarrow>
     (proc option \<times> u32 \<times> vm \<times> 'x sysfs_scheme \<times> 'w vfs) outcome" where
  "task_new b D parent pid name environ argv highest_pid s sf v =
     obind (alloc_task b parent pid name environ argv highest_pid s sf) (\<lambda>(t, highest_pid, s, sf).
       case t of
         None \<Rightarrow> Ret (None, highest_pid, s, sf, v)
       | Some t \<Rightarrow>
     obind (map_task (b_alloc b) t s) (\<lambda>(t, s).
       case t of
         None \<Rightarrow> Ret (None, highest_pid, s, sf, v)
       | Some t \<Rightarrow>
           let t = t\<lparr>p_mem := (p_mem t)\<lparr>tm_stack_size := PAGE_SIZE * 2\<rparr>\<rparr> in
     obind (vm_alloc_at (b_alloc b) (b_ctx b) 2 (TASK_STACK_LOCATION - PAGE_SIZE * 2) 0 (VM_USER OR VM_RW OR VM_FREE OR VM_TFORK OR VM_FIXED) s) (\<lambda>(a, _, s).
       if a = 0 then Ret (None, highest_pid, s, sf, v)
       else case open_std D t v of
              None \<Rightarrow> Spin
            | Some (t, v) \<Rightarrow>
                let t = t\<lparr>p_binary_path := c_string (fst (strlcpy (vfs_normalize_path name (p_cwd t)) VFS_PATH_MAX))\<rparr> in
     obind (vm_copy (b_alloc b) (b_ctx b) 0x500000 (loader_alloc b) (VM_USER OR VM_RW OR VM_TFORK OR VM_FREE) s) (\<lambda>(c, _, s).
       if c < 0 then Ret (None, highest_pid, s, sf, v)
       else let t = t\<lparr>p_entry := 0x500000, p_mem := (p_mem t)\<lparr>tm_sbrk := 0xf000000\<rparr>\<rparr> in
     obind (setup_execdata (b_alloc b) (case parent of Some (_, p) \<Rightarrow> t_pid p | None \<Rightarrow> 0) t s) (\<lambda>s.
     obind (vm_pagedir (b_alloc b) (b_ctx b) s) (\<lambda>(cr3, s).
     obind (setup_iret (b_alloc b) (t\<lparr>p_cr3 := cr3, t_state := (t_state t)\<lparr>ebp := 0, esp := TASK_STACK_LOCATION - 20\<rparr>\<rparr>) s) (\<lambda>(t, s).
       Ret (Some t, highest_pid, s, sf, v))))))))"

section \<open>Fork\<close>

text \<open>
  The child after \<^verbatim>\<open>alloc_task\<close>, whose failure is not noticed: identity, files and break of the parent. Its registers are those of the parent at the system call, with the kernel's stack
  pointer moved to the child's stack and 0 as result. The state on the kernel's stack is copied with the stack.
\<close>

definition fork_fields :: "proc \<Rightarrow> proc \<Rightarrow> proc" where
  "fork_fields p t = t\<lparr>t_uid := t_uid p, t_gid := t_gid p, t_euid := t_euid p, t_egid := t_egid p, t_ctty := t_ctty p,
     p_mem := (p_mem t)\<lparr>tm_stack_size := tm_stack_size (p_mem p), tm_sbrk := tm_sbrk (p_mem p)\<rparr>, p_cwd := p_cwd p, p_binary_path := p_binary_path p, p_files := p_files p\<rparr>"

definition fork_registers :: "proc \<Rightarrow> isf \<Rightarrow> u32 \<Rightarrow> proc \<Rightarrow> proc" where
  "fork_registers p st cr3 t = t\<lparr>t_state := st\<lparr>esp := p_kernel_stack t + (esp st - p_kernel_stack p), eax := 0, ebx := 0\<rparr>, t_iret := t_iret p, p_cr3 := cr3\<rparr>"

text \<open>The new task in the table of the scheduler, and in its ring.\<close>

definition schedule_new :: "birth \<Rightarrow> proc \<Rightarrow> sched \<Rightarrow> sched" where
  "schedule_new b t k = scheduler_add (b_qentry b) (b_id b) (upd_task (b_id b) (\<lambda>_. task.truncate t) k)"

definition fork_mem :: "birth \<Rightarrow> proc \<Rightarrow> proc \<Rightarrow> vm \<Rightarrow> (proc option \<times> vm) outcome" where
  "fork_mem b p t s =
     obind (vm_clone (b_alloc b) (b_ctx b) (tm_vmem (p_mem p)) s) (\<lambda>(c, s).
       if c \<noteq> 0 then Ret (None, s)
       else obind (setup_execdata (b_alloc b) (t_pid p) t s) (map_task (b_alloc b) t))"

definition fork_task ::
    "birth \<Rightarrow> nat \<times> proc \<Rightarrow> isf \<Rightarrow> u32 \<Rightarrow> vm \<Rightarrow> 'x sysfs_scheme \<Rightarrow> sched \<Rightarrow> (proc option \<times> u32 \<times> vm \<times> 'x sysfs_scheme \<times> sched) outcome" where
  "fork_task b to_fork st highest_pid s sf k =
     (let p = snd to_fork in
      obind (alloc_task b (Some to_fork) 0 (p_name p) (p_environ p) (p_argv p) highest_pid s sf) (\<lambda>(t, highest_pid, s, sf).
        case t of
          None \<Rightarrow> Fault
        | Some t \<Rightarrow>
      obind (fork_mem b p (fork_fields p t) s) (\<lambda>(t, s).
        case t of
          None \<Rightarrow> Ret (None, highest_pid, s, sf, k)
        | Some t \<Rightarrow>
      obind (kmemcpy (p_kernel_stack t) (p_kernel_stack p) (unat (PAGE_SIZE * KERNEL_STACK_PAGES)) s) (\<lambda>s.
      obind (vm_pagedir (b_alloc b) (b_ctx b) s) (\<lambda>(cr3, s).
        let t = fork_registers p st cr3 t in Ret (Some t, highest_pid, s, sf, schedule_new b t k))))))"

definition task_fork ::
    "birth \<Rightarrow> nat \<times> proc \<Rightarrow> isf \<Rightarrow> u32 \<Rightarrow> vm \<Rightarrow> 'x sysfs_scheme \<Rightarrow> sched \<Rightarrow> (u32 \<times> u32 \<times> vm \<times> 'x sysfs_scheme \<times> sched) outcome" where
  "task_fork b to_fork st highest_pid s sf k =
     obind (fork_task b to_fork st highest_pid s sf k) (\<lambda>(t, rest). Ret (case t of None \<Rightarrow> - 1 | Some t \<Rightarrow> t_pid t, rest))"

section \<open>Execve\<close>

text \<open>The files that are open keep their places over those of the new task.\<close>

definition keep_files :: "vfs_file list \<Rightarrow> vfs_file list \<Rightarrow> vfs_file list" where
  "keep_files old new = map (\<lambda>(f, g). if refs f \<noteq> 0 then f else g) (zip old new)"

definition execve_fields :: "proc \<Rightarrow> proc \<Rightarrow> proc" where
  "execve_fields p t = t\<lparr>p_cwd := p_cwd p, t_uid := t_uid p, t_gid := t_gid p, t_euid := t_euid p, t_egid := t_egid p,
     t_strace_observer := t_strace_observer p, t_strace_fd := t_strace_fd p, t_ctty := t_ctty p, p_files := keep_files (p_files p) (p_files t)\<rparr>"

text \<open>
  \<open>argv\<close> and \<open>env\<close> are the addresses of the arrays in the kernel. A call that fails returns 0 as well. A new task that cannot be created is not noticed. \<open>old\<close> is the number and
  the record of the calling task, which comes back in the second component of the result; the others are the new task and the state of the system.
\<close>

definition copy_signal :: "machine \<Rightarrow> nat \<Rightarrow> copy_result \<Rightarrow> sched \<Rightarrow> sched option" where
  "copy_signal M i r k = (case r of CopySegv \<Rightarrow> map_option snd (signal_task M i SIGSEGV k) | _ \<Rightarrow> Some k)"

definition execve_copy :: "machine \<Rightarrow> table_allocator \<Rightarrow> nat \<times> proc \<Rightarrow> u32 \<Rightarrow> vm \<Rightarrow> sched \<Rightarrow> (copy_result \<times> vm \<times> sched) outcome" where
  "execve_copy M alloc old arr s k =
     obind (task_copy_strings alloc (tm_vmem (p_mem (snd old))) arr s) (\<lambda>(r, s). case copy_signal M (fst old) r k of None \<Rightarrow> Fault | Some k \<Rightarrow> Ret (r, s, k))"

definition task_execve ::
    "birth \<Rightarrow> 'w drivers \<Rightarrow> machine \<Rightarrow> (nat \<times> proc) option \<Rightarrow> nat \<times> proc \<Rightarrow> string \<Rightarrow> u32 \<Rightarrow> u32 \<Rightarrow> u32 \<Rightarrow> vm \<Rightarrow> 'x sysfs_scheme \<Rightarrow> 'w vfs \<Rightarrow> sched \<Rightarrow>
     (proc option \<times> proc \<times> u32 \<times> vm \<times> 'x sysfs_scheme \<times> 'w vfs \<times> sched) outcome" where
  "task_execve b D M parent old path argv env highest_pid s sf v k =
     obind (execve_copy M (b_alloc b) old argv s k) (\<lambda>(argv, s, k).
     obind (execve_copy M (b_alloc b) old env s k) (\<lambda>(env, s, k).
       let p = snd old in
       case (argv, env) of
         (Copied argv, Copied env) \<Rightarrow>
           (case (if p_sysfs_file p \<noteq> 0 then sysfs_rm_file (p_sysfs_file p) sf else Some sf) of
              None \<Rightarrow> Fault
            | Some sf \<Rightarrow>
                obind (task_new b D parent (t_pid p) path env argv highest_pid s sf v) (\<lambda>(t, highest_pid, s, sf, v).
                  case t of
                    None \<Rightarrow> Fault
                  | Some t \<Rightarrow>
                      let t = execve_fields p t; k = schedule_new b t k in
                      Ret (Some t, p\<lparr>p_sysfs_file := 0, task_state := REPLACED, t_interrupt_yield := True\<rparr>, highest_pid, s, sf, v,
                           upd_task (fst old) (\<lambda>q. q\<lparr>task_state := REPLACED, t_interrupt_yield := True\<rparr>) k)))
       | _ \<Rightarrow> Ret (None, p, highest_pid, s, sf, v, k)))"

section \<open>Tracing\<close>

text \<open>
  The child of a traced fork writes its system calls into a pipe of the caller. The child is scheduled before its observer is set, and it goes on without one when there is no
  pipe. \<open>addr\<close> and \<open>palloc\<close> are for the pipe.
\<close>

definition task_strace ::
    "birth \<Rightarrow> 'w drivers \<Rightarrow> pipe_fns \<Rightarrow> vm_alloc \<Rightarrow> u32 \<Rightarrow> nat \<times> proc \<Rightarrow> isf \<Rightarrow> u32 \<Rightarrow> vm \<Rightarrow> 'x sysfs_scheme \<Rightarrow> sched \<Rightarrow> 'w vfs \<Rightarrow>
     (int \<times> u32 \<times> vm \<times> 'x sysfs_scheme \<times> sched \<times> 'w vfs) outcome" where
  "task_strace b D fns palloc addr task st highest_pid s sf k v =
     obind (fork_task b task st highest_pid s sf k) (\<lambda>(t, highest_pid, s, sf, k).
       case t of
         None \<Rightarrow> Ret (- 1, highest_pid, s, sf, k, v)
       | Some _ \<Rightarrow>
           (case vfs_pipe D fns palloc addr v of
              None \<Rightarrow> Spin
            | Some ((_, None), v) \<Rightarrow> Ret (- 1, highest_pid, s, sf, k, v)
            | Some ((_, Some p), v) \<Rightarrow>
                Ret (int (pipe_fd0 p), highest_pid, s, sf,
                     upd_task (b_id b) (\<lambda>c. c\<lparr>t_strace_observer := fst task, t_strace_fd := int (pipe_fd1 p)\<rparr>) k, v)))"

section \<open>Removal\<close>

text \<open>The result are the structures of ranges that are freed.\<close>

definition task_free :: "proc \<Rightarrow> vm \<Rightarrow> u32 list outcome" where
  "task_free t s = vm_cleanup (tm_vmem (p_mem t)) s"

definition task_cleanup :: "proc \<Rightarrow> vm \<Rightarrow> 'x sysfs_scheme \<Rightarrow> (u32 list \<times> 'x sysfs_scheme) outcome" where
  "task_cleanup t s sf =
     (case (if p_sysfs_file t \<noteq> 0 then sysfs_rm_file (p_sysfs_file t) sf else Some sf) of
        None \<Rightarrow> Fault
      | Some sf \<Rightarrow> obind (task_free t s) (\<lambda>freed. Ret (freed, sf)))"

section \<open>Working directory\<close>

definition task_chdir :: "'w drivers \<Rightarrow> string \<Rightarrow> (int, 'w) call" where
  "task_chdir D dir v = do {
     (r, v) \<leftarrow> vfs_access D dir (R_OK OR X_OK) v;
     if r < 0 then Some (- 1, v)
     else do {
       (fd, v) \<leftarrow> vfs_open D (Some dir) O_RDONLY v;
       if fd = - 1 then Some (- 1, v)
       else do {
         ((r, st), v) \<leftarrow> vfs_fstat D fd v;
         if r \<noteq> 0 then do { (_, v) \<leftarrow> vfs_close D fd v; Some (- 1, v\<lparr>sc_errno := Some ENOENT\<rparr>) }
         else do {
           st \<leftarrow> st;
           if vfs_mode_to_filetype (st_mode st) \<noteq> FT_IFDIR
           then do { (_, v) \<leftarrow> vfs_close D fd v; Some (- 1, v\<lparr>sc_errno := Some ENOTDIR\<rparr>) }
           else do {
             i \<leftarrow> vfs_get_from_id (files v) fd;
             i \<leftarrow> i;
             (_, v) \<leftarrow> vfs_close D fd (v\<lparr>cwd := c_string (f_path (files v ! i))\<rparr>);
             Some (0, v)
           }
         }
       }
     }
   }"

section \<open>Initialisation\<close>

text \<open>The loader of programs is read into the kernel once. The result is its range.\<close>

definition task_init :: "table_allocator \<Rightarrow> 'w drivers \<Rightarrow> vm \<Rightarrow> 'w vfs \<Rightarrow> (vm_range \<times> vm \<times> 'w vfs) outcome" where
  "task_init alloc D s v =
     (case vfs_open D (Some ''/usr/libexec/system/xelix-loader'') O_RDONLY v of
        None \<Rightarrow> Spin
      | Some (fd, v) \<Rightarrow>
          if fd < 0 then Panic
          else case vfs_fstat D fd v of
                 None \<Rightarrow> Spin
               | Some ((r, st), v) \<Rightarrow>
                   if r < 0 then Panic
                   else case st of
                          None \<Rightarrow> Fault
                        | Some st \<Rightarrow>
                            obind (vm_alloc_at alloc (VM_KERNEL s) (RDIV (st_size st) PAGE_SIZE) 0 0 VM_RW s) (\<lambda>(a, rg, s).
                              case if a = 0 then None else rg of
                                None \<Rightarrow> Panic
                              | Some rg \<Rightarrow>
                                  (case vfs_read D fd (vr_addr rg) (st_size st) v of
                                     None \<Rightarrow> Spin
                                   | Some (n, v) \<Rightarrow> if n \<noteq> st_size st then Panic else Ret (rg, s, v))))"

end
