(* ===== verification/Task_Props.thy ===== *)
theory Task_Props
  imports Task
begin

text \<open>
  Creating a task and forking keep the memory of all tasks consistent: the invariant of virtual memory holds afterwards for the old contexts and for the new one.
\<close>

section \<open>Steps of virtual memory\<close>

lemma vm_new_inv:
  assumes "vm_inv C K R s" "ctx \<notin> C" "bm_ok (vc_bitmap (ctxs (vm_new ctx d s) ctx))" "R ctx = {}"
  shows "vm_inv (insert ctx C) K R (vm_new ctx d s)"
proof -
  have "vc_ranges (ctxs (vm_new ctx d s) ctx) = []" by (simp add: vm_new_def Let_def)
  then have "ctx_inv (R ctx) (ctxs (vm_new ctx d s) ctx)" using assms(3,4) by (simp add: ctx_inv_def)
  moreover have "ctxs (vm_new ctx d s) x = ctxs s x" if "x \<in> C" for x using that assms(2) by (auto simp: vm_new_def)
  moreover have "VM_KERNEL (vm_new ctx d s) = VM_KERNEL s" by (simp add: vm_new_def)
  moreover have "vc_ranges (ctxs (vm_new ctx d s) ctx) = []" by (simp add: vm_new_def Let_def)
  ultimately show ?thesis using assms(1,2) by (auto simp: vm_inv_def)
qed

lemma alloc_step:
  assumes "vm_inv C K R s" "ctx \<in> C" "0 < sz" "unat sz \<le> 2 ^ 20" "vm_alloc_at (table_alloc n) ctx sz req phys flags s = Ret (v, r, s')"
  shows "vm_inv C K R s'"
  using vm_exec_inv [OF assms(1), of "AllocAt ctx sz req phys flags" n s'] assms(2-5) by simp

lemma free_step: "vm_inv C K R s \<Longrightarrow> vr_ctx r \<in> C \<Longrightarrow> vm_free r s = Ret s' \<Longrightarrow> vm_inv C K R s'"
  using vm_exec_inv [of C K R s "FreeRange r" 0 s'] by simp

text \<open>The ranges of an allocation in several contexts belong to these contexts.\<close>

lemma many_setup_ctx:
  "many_setup alloc all todo pn sz phys rs s = Ret (v, rs', s') \<Longrightarrow> \<forall>r \<in> set rs. vr_ctx r \<in> A \<Longrightarrow> fst ` set todo \<subseteq> A \<Longrightarrow>
   (\<forall>r \<in> set rs'. vr_ctx r \<in> A) \<and> length rs' \<le> length rs + length todo \<and> (v \<noteq> 0 \<longrightarrow> length rs' = length rs + length todo)"
proof (induction alloc all todo pn sz phys rs s rule: many_setup.induct)
  case (1 alloc all pn sz phys rs s)
  then show ?case by auto
next
  case (2 alloc all c flags todo pn sz phys rs s)
  let ?s0 = "upd_ctx c (\<lambda>c. c\<lparr>vc_bitmap := bitmap_set (vc_bitmap c) pn sz\<rparr>) s"
  obtain ph s1 self s2 where st: "setup_phys alloc c sz (pn * PAGE_SIZE) phys flags ?s0 = Ret (ph, s1)" "new_range s1 = Ret (self, s2)"
    using 2(2) by (auto simp: Let_def obind_Ret)
  show ?case
  proof (cases "self = 0")
    case True
    then show ?thesis using 2(2,3) st by auto
  next
    case False
    let ?r = "mk_range self c (pn * PAGE_SIZE) ph sz flags"
    have "many_setup alloc all todo pn sz ph (?r # rs) (upd_ctx c (\<lambda>c. c\<lparr>vc_lock := False\<rparr>) (insert_range c ?r s2)) = Ret (v, rs', s')"
      using 2(2) st False by (simp add: Let_def)
    from 2(1) [OF refl False refl this] show ?thesis using 2(3,4) by (simp add: mk_range_def)
  qed
qed

lemma alloc_many_ctx:
  assumes "vm_alloc_many alloc reqs sz phys s = Ret (v, rs, s')" "fst ` set reqs \<subseteq> A"
  shows "(\<forall>r \<in> set rs. vr_ctx r \<in> A) \<and> length rs \<le> length reqs \<and> (v \<noteq> 0 \<longrightarrow> length rs = length reqs)"
proof -
  obtain s0 where s0: "lock_all (map fst reqs) s = Ret s0" using assms(1) by (auto simp: vm_alloc_many_def obind_Ret)
  obtain c cs where cs: "map fst reqs = c # cs" using assms(1) s0 by (cases "map fst reqs") (auto simp: vm_alloc_many_def)
  obtain pn bm where ms: "many_search (vc_bitmap (ctxs s0 c)) (map (\<lambda>c. vc_bitmap (ctxs s0 c)) cs) 0 sz = Some (pn, bm)"
    using assms(1) s0 cs by (auto simp: vm_alloc_many_def split: option.splits)
  show ?thesis
  proof (cases "pn = - 1")
    case True
    then show ?thesis using assms(1) s0 cs ms by (auto simp: vm_alloc_many_def)
  next
    case False
    then have "many_setup alloc (map fst reqs) reqs pn sz phys [] (upd_ctx c (\<lambda>c. c\<lparr>vc_bitmap := bm\<rparr>) s0) = Ret (v, rs, s')"
      using assms(1) s0 cs ms by (simp add: vm_alloc_many_def Let_def)
    from many_setup_ctx [OF this, of A] show ?thesis using assms(2) by simp
  qed
qed

section \<open>Parts of the creation of a task\<close>

lemma put_phys_same: "same_ctxs s (put_phys p d s)"
  by (simp add: put_phys_def same_ctxs_def)

lemma setup_execdata_inv:
  assumes inv: "vm_inv C K R s" and c: "tm_vmem (p_mem t) \<in> C" and e: "setup_execdata (table_alloc n) ppid t s = Ret s'"
  shows "vm_inv C K R s'"
proof -
  have K: "VM_KERNEL s = K" "K \<in> C" using inv by (simp_all add: vm_inv_def)
  obtain a r s1 a2 r2 s2 d where s: "vm_alloc_at (table_alloc n) K 4 0 0 (VM_RW OR VM_ZERO) s = Ret (a, Some r, s1)"
      "vm_alloc_at (table_alloc n) (tm_vmem (p_mem t)) 4 EXECDATA_LOCATION (vr_phys r) (VM_USER OR VM_RW OR VM_FREE OR VM_FIXED) s1 = Ret (a2, r2, s2)"
      "vm_free r (put_phys (vr_phys r) d s2) = Ret s'"
    using e K(1) by (auto simp: setup_execdata_def obind_Ret split: option.splits)
  have "vm_inv C K R s1" by (rule alloc_step [OF inv K(2) _ _ s(1)]) simp_all
  then have "vm_inv C K R s2" by (rule alloc_step [OF _ c _ _ s(2)]) simp_all
  then have "vm_inv C K R (put_phys (vr_phys r) d s2)" using vm_inv_same put_phys_same by blast
  moreover have "vr_ctx r \<in> C" using vm_alloc_at_ctx [OF s(1)] K(2) by simp
  ultimately show ?thesis using free_step s(3) by blast
qed

lemma alloc_many_step:
  assumes "vm_inv C K R s" "fst ` set reqs \<subseteq> C" "0 < sz" "vm_alloc_many (table_alloc n) reqs sz phys s = Ret (v, rs, s')"
  shows "vm_inv C K R s'"
  using vm_exec_inv [OF assms(1), of "AllocMany reqs sz phys" n s'] assms(2-4) by simp

lemma map_task_inv:
  assumes inv: "vm_inv C K R s" and c: "tm_vmem (p_mem t) \<in> C" and m: "map_task (table_alloc n) t s = Ret (t', s')"
  shows "vm_inv C K R s' \<and> (\<forall>u. t' = Some u \<longrightarrow> p_mem u = p_mem t \<and> t_pid u = t_pid t)"
proof -
  let ?reqs = "[(VM_KERNEL s, VM_RW), (tm_vmem (p_mem t), VM_FREE)]"
  have A: "fst ` set ?reqs \<subseteq> C" using inv c by (simp add: vm_inv_def)
  obtain v rs s1 where s1: "vm_alloc_many (table_alloc n) ?reqs 1 0 s = Ret (v, rs, s1)" using m by (auto simp: map_task_def Let_def obind_Ret)
  have i1: "vm_inv C K R s1" by (rule alloc_many_step [OF inv A _ s1]) simp
  show ?thesis
  proof (cases "v = 0")
    case True
    then show ?thesis using m s1 i1 by (auto simp: map_task_def)
  next
    case False
    obtain w qs s2 where s2: "vm_alloc_many (table_alloc n) ?reqs KERNEL_STACK_PAGES 0 s1 = Ret (w, qs, s2)"
      using m s1 False by (auto simp: map_task_def Let_def obind_Ret)
    have i2: "vm_inv C K R s2" by (rule alloc_many_step [OF i1 A _ s2]) (simp add: KERNEL_STACK_PAGES_def)
    show ?thesis
    proof (cases "w = 0")
      case True
      let ?ms = "qs @ drop (length qs) rs"
      obtain s3 where s3: "vm_free (?ms ! 0) s2 = Ret s3" "vm_free (?ms ! 1) s3 = Ret s'" "t' = None"
        using m s1 s2 False True by (auto simp: map_task_def Let_def obind_Ret)
      have "\<forall>r \<in> set ?ms. vr_ctx r \<in> C" "length ?ms = 2"
        using alloc_many_ctx [OF s1 A] alloc_many_ctx [OF s2 A] False in_set_dropD [of _ "length qs" rs] by auto
      moreover from this(2) have "0 < length ?ms" "1 < length ?ms" by linarith+
      ultimately have "vr_ctx (?ms ! 0) \<in> C" "vr_ctx (?ms ! 1) \<in> C" using nth_mem by blast+
      then show ?thesis using i2 s3 free_step by blast
    next
      case w: False
      then show ?thesis using m s1 s2 False i2 by (auto simp: map_task_def Let_def)
    qed
  qed
qed

lemma vm_new_kernel: "VM_KERNEL (vm_new ctx d s) = VM_KERNEL s"
  by (simp add: vm_new_def)

lemma alloc_task_inv:
  assumes inv: "vm_inv C K R s" and b: "b_alloc b = table_alloc n" "b_ctx b \<notin> C" "R (b_ctx b) = {}"
    and bm: "bm_ok (vc_bitmap (ctxs (vm_new (b_ctx b) 0 s) (b_ctx b)))" and ul: "0 < RDIV (ul_visible_size b) PAGE_SIZE"
    and a: "alloc_task b parent pid name env argv hp s sf = Ret (t, hp', s', sf')"
  shows "vm_inv (insert (b_ctx b) C) K R s' \<and> (\<forall>u. t = Some u \<longrightarrow> tm_vmem (p_mem u) = b_ctx b \<and> t_pid u = (if pid \<noteq> 0 then pid else hp + 1))"
proof -
  let ?s = "vm_new (b_ctx b) 0 s"
  have i: "vm_inv (insert (b_ctx b) C) K R ?s" by (rule vm_new_inv [where d = 0, OF inv b(2) bm b(3)])
  obtain v r s1 where s1: "vm_alloc_at (table_alloc n) (b_ctx b) (RDIV (ul_visible_size b) PAGE_SIZE) (ul_visible_start b) (ul_visible_start b) VM_FIXED ?s = Ret (v, r, s1)"
    using a b(1) by (auto simp: alloc_task_def obind_Ret)
  have "vm_inv (insert (b_ctx b) C) K R s1" by (rule alloc_step [OF i _ ul RDIV_page_bound s1]) simp
  then show ?thesis using a b(1) s1 by (auto simp: alloc_task_def Let_def zero_proc_def split: if_splits option.splits)
qed

section \<open>Fork\<close>

lemma fork_mem_inv:
  assumes inv: "vm_inv C K R s" and b: "b_alloc b = table_alloc n" "b_ctx b \<in> C" and p: "tm_vmem (p_mem p) \<in> C" and t: "tm_vmem (p_mem t) = b_ctx b"
    and f: "fork_mem b p t s = Ret (t', s')"
  shows "vm_inv C K R s' \<and> (\<forall>u. t' = Some u \<longrightarrow> p_mem u = p_mem t \<and> t_pid u = t_pid t)"
proof -
  obtain c s1 where s1: "vm_clone (table_alloc n) (b_ctx b) (tm_vmem (p_mem p)) s = Ret (c, s1)" using f b(1) by (auto simp: fork_mem_def obind_Ret)
  have i1: "vm_inv C K R s1" using vm_exec_inv [OF inv, of "CloneTo (b_ctx b) (tm_vmem (p_mem p))" n s1] b(2) p s1 by simp
  show ?thesis
  proof (cases "c = 0")
    case True
    then obtain s2 where s2: "setup_execdata (table_alloc n) (t_pid p) t s1 = Ret s2" "map_task (table_alloc n) t s2 = Ret (t', s')"
      using f b(1) s1 by (auto simp: fork_mem_def obind_Ret)
    have tc: "tm_vmem (p_mem t) \<in> C" using t b(2) by simp
    show ?thesis by (rule map_task_inv [OF setup_execdata_inv [OF i1 tc s2(1)] tc s2(2)])
  next
    case False
    then show ?thesis using f b(1) s1 i1 by (auto simp: fork_mem_def)
  qed
qed

lemma upd_task_nth: "tasks (upd_task i f k) i = f (tasks k i)"
  by (simp add: upd_task_def)

lemma scheduler_add_task: "t_pid (tasks (scheduler_add e i k) i) = t_pid (tasks k i) \<and> t_state (tasks (scheduler_add e i k) i) = t_state (tasks k i)"
  by (simp add: scheduler_add_def link_entry_def Let_def)


text \<open>A parent with one range to copy, and memory for one more range only, so that the copy fails.\<close>

definition fork_vm :: vm where
  "fork_vm = stack_vm\<lparr>ctxs := (\<lambda>c. if c = 1 then demo_kernel else stack_ctx\<lparr>vc_ranges := [stack_range\<lparr>vr_flags := VM_USER OR VM_RW OR VM_TFORK\<rparr>]\<rparr>)\<rparr>"

definition fork_parent :: proc where
  "fork_parent = (zero_proc 2)\<lparr>t_pid := 1, p_name := ''init'', p_mem := stack_task\<rparr>"

definition fork_birth :: birth where
  "fork_birth = \<lparr>b_alloc = table_alloc 0, b_ctx = 3, b_sysfs = 0x300, b_addr = 0x400, b_qentry = 2, b_id = 2, ul_visible_start = 0x100000, ul_visible_size = 0x1000,
     loader_alloc = stack_range, sfs_read_fn = 0x500\<rparr>"

definition fork_sysfs :: sysfs where
  "fork_sysfs = \<lparr>sys_files = 0, dev_files = 0, sys_files_addr = 16, dev_files_addr = 32, sf_heap = Map.empty, sf_mem = (\<lambda>_. 0)\<rparr>"

lemma fork_vm_ctxs: "ctxs fork_vm 1 = demo_kernel" "VM_KERNEL fork_vm = 1" "range_addrs fork_vm = [0x200]" "kmalloc_ready fork_vm" "phys_alloc fork_vm = phys_alloc stack_vm"
  by (simp_all add: fork_vm_def stack_vm_def demo_vm_def)

lemma fork_vm_inv: "vm_inv {1, 2} 1 (\<lambda>_. {}) fork_vm"
proof -
  have pages: "range_pages (stack_range\<lparr>vr_flags := x\<rparr>) = range_pages stack_range" "range_ok (stack_range\<lparr>vr_flags := x\<rparr>) = range_ok stack_range" for x
    by (simp_all add: range_pages_def range_ok_def)
  have "ctx_inv {} (stack_ctx)" "ctx_inv {} demo_kernel" using stack_vm_inv by (simp_all add: vm_inv_def stack_vm_def)
  then have "ctx_inv {} (ctxs fork_vm 2)" by (simp add: fork_vm_def ctx_inv_def pages) (simp add: stack_ctx_def)
  then show ?thesis using \<open>ctx_inv {} demo_kernel\<close> by (simp add: vm_inv_def fork_vm_ctxs) (simp add: fork_vm_def demo_kernel_def stack_range_def)
qed

lemma fork_bitmap: "bitmap_bit (vc_bitmap (ctxs (vm_new 3 0 fork_vm) 3)) k \<longleftrightarrow> k = 0 \<or> 262144 \<le> k \<and> bitmap_bit (vc_bitmap stack_ctx) k"
  "bm_size (vc_bitmap (ctxs (vm_new 3 0 fork_vm) 3)) = PAGE_ALLOC_BITMAP_SIZE" "vc_ranges (ctxs (vm_new 3 0 fork_vm) 3) = []" "vc_page_dir (ctxs (vm_new 3 0 fork_vm) 3) = 0"
  "vc_lock (ctxs (vm_new 3 0 fork_vm) 3) = False" "phys_alloc (vm_new 3 0 fork_vm) = phys_alloc stack_vm" "range_addrs (vm_new 3 0 fork_vm) = [0x200]" "kmalloc_ready (vm_new 3 0 fork_vm)"
  "ctxs (vm_new 3 0 fork_vm) 1 = demo_kernel" "ctxs (vm_new 3 0 fork_vm) 2 = ctxs fork_vm 2" "VM_KERNEL (vm_new 3 0 fork_vm) = 1"
proof -
  have n: "unat (bitmap_size PAGE_ALLOC_BITMAP_SIZE) = 32768" by (simp add: bitmap_size_def PAGE_ALLOC_BITMAP_SIZE_def PAGE_SIZE_def)
  have "bitmap_bit ((vc_bitmap stack_ctx)\<lparr>bm_size := PAGE_ALLOC_BITMAP_SIZE\<rparr>) k = bitmap_bit (vc_bitmap stack_ctx) k" by (simp add: bitmap_bit_def)
  then have "bitmap_bit (bitmap_set (bitmap_set (bitmap_clear_all ((vc_bitmap stack_ctx)\<lparr>bm_size := PAGE_ALLOC_BITMAP_SIZE\<rparr>)) 0 1) 0 1) k \<longleftrightarrow> k = 0 \<or> 262144 \<le> k \<and> bitmap_bit (vc_bitmap stack_ctx) k"
    by (auto simp: bitmap_set_bit bitmap_clear_all_quarter n)
  then show "bitmap_bit (vc_bitmap (ctxs (vm_new 3 0 fork_vm) 3)) k \<longleftrightarrow> k = 0 \<or> 262144 \<le> k \<and> bitmap_bit (vc_bitmap stack_ctx) k" by (simp add: vm_new_def fork_vm_def Let_def)
qed (simp_all add: vm_new_def fork_vm_def stack_vm_def demo_vm_def upd_ctx_def Let_def)

lemma fork_bm_ok: "bm_ok (vc_bitmap (ctxs (vm_new 3 0 fork_vm) 3))"
proof -
  have "bm_ok (vc_bitmap stack_ctx)" using stack_vm_inv by (simp add: vm_inv_def stack_vm_def ctx_inv_def)
  then show ?thesis unfolding bm_ok_def fork_bitmap by auto
qed

text \<open>The kernel's visible part is mapped, the copy of the parent's range finds no memory for a range of its own.\<close>

lemma fork_alloc: "\<exists>s1. vm_alloc_at (table_alloc 0) 3 1 0x100000 0x100000 VM_FIXED (vm_new 3 0 fork_vm) = Ret (0x100000, Some (mk_range 0x200 3 0x100000 0x100000 1 VM_FIXED), s1) \<and>
    ctxs s1 1 = demo_kernel \<and> ctxs s1 2 = ctxs fork_vm 2 \<and> VM_KERNEL s1 = 1 \<and> range_addrs s1 = [] \<and> kmalloc_ready s1 \<and> phys_alloc s1 = phys_alloc stack_vm"
proof -
  let ?s = "vm_new 3 0 fork_vm"
  have "bitmap_get (vc_bitmap (ctxs ?s 3)) 0x100 = 0"
    using fork_bitmap(1) [of 256] bitmap_get_bit [of "vc_bitmap (ctxs ?s 3)" "0x100"] by simp
  then have "\<not> dup_check (vc_bitmap (ctxs ?s 3)) 0x100 (Suc 0)" by simp
  then have "alloc_virt (ctxs ?s 3) 1 0x100000 True = (0x100000, (ctxs ?s 3)\<lparr>vc_bitmap := bitmap_set (vc_bitmap (ctxs ?s 3)) 0x100 1\<rparr>)"
    by (simp add: alloc_virt_def Let_def PAGE_SIZE_def ALIGN_DOWN_def)
  then obtain bm where av: "alloc_virt (ctxs ?s 3) 1 0x100000 True = (0x100000, (ctxs ?s 3)\<lparr>vc_bitmap := bm\<rparr>)" by blast
  have "VM_FIXED AND VM_FIXED \<noteq> 0" "VM_FIXED AND VM_ZERO = 0" by (simp_all add: VM_FIXED_def VM_ZERO_def)
  then show ?thesis using av fork_bitmap(4-)
    by (simp add: vm_alloc_at_def setup_phys_def acquire_def new_range_def upd_ctx_def insert_range_def Let_def)
qed

lemma kernel_virt: "\<exists>bm w. alloc_virt demo_kernel 2 0 False = (w, demo_kernel\<lparr>vc_bitmap := bm\<rparr>) \<and> w \<noteq> 0"
  by (simp add: alloc_virt_def demo_kernel_def bitmap_find_def find_loop.simps find_bits.simps bitmap_size_def Let_def bit_get_def
      PAGE_SIZE_def PAGE_ALLOC_BITMAP_SIZE_def ALIGN_DOWN_def)

lemma fork_clone:
  assumes "ctxs s 1 = demo_kernel" "ctxs s 2 = ctxs fork_vm 2" "VM_KERNEL s = 1" "range_addrs s = []" "kmalloc_ready s" "phys_alloc s = phys_alloc stack_vm"
  shows "\<exists>s'. vm_clone (table_alloc 0) 3 2 s = Ret (- 1, s')"
proof -
  obtain bm w where w: "alloc_virt demo_kernel 2 0 False = (w, demo_kernel\<lparr>vc_bitmap := bm\<rparr>)" "w \<noteq> 0" using kernel_virt by blast
  obtain pc where pc: "mem_page_alloc (phys_alloc stack_vm) 2 = Ret (0, pc)" using no_phys_pages by blast
  have "VM_RW AND VM_FIXED = 0" by (simp add: VM_RW_def VM_FIXED_def)
  then have "\<exists>s'. vm_alloc_at (table_alloc 0) 1 2 0 0 VM_RW s = Ret (0, None, s')"
    using w pc assms by (simp add: vm_alloc_at_def setup_phys_def acquire_def new_range_def upd_ctx_def demo_ctxs Let_def)
  moreover have "vc_ranges (ctxs fork_vm 2) = [stack_range\<lparr>vr_flags := VM_USER OR VM_RW OR VM_TFORK\<rparr>]" by (simp add: fork_vm_def)
  moreover have "(VM_USER OR VM_RW OR VM_TFORK) AND VM_TFORK \<noteq> 0" by (simp add: VM_USER_def VM_RW_def VM_TFORK_def)
  moreover have "RDIV 0x2000 PAGE_SIZE = 2" by (simp add: RDIV_def PAGE_SIZE_def)
  ultimately show ?thesis using assms by (auto simp: vm_clone_def vm_copy_def stack_range_def)
qed

lemma fork_sysfs_add: "\<exists>sf1 sf2. sysfs_add_file 0x300 ''task1'' cb fork_sysfs = Some sf1 \<and> upd_sf 0x300 g sf1 = Some sf2"
proof -
  have "length (c_string ''task1'') = 5" by code_simp
  then show ?thesis by (simp add: sysfs_add_file_def add_file_def upd_sf_def fork_sysfs_def Let_def)
qed

lemma fork_alloc_task: "\<exists>t s1 sf1. alloc_task fork_birth (Some (1, fork_parent)) 0 n e a 0 fork_vm fork_sysfs = Ret (Some t, 1, s1, sf1) \<and>
    ctxs s1 1 = demo_kernel \<and> ctxs s1 2 = ctxs fork_vm 2 \<and> VM_KERNEL s1 = 1 \<and> range_addrs s1 = [] \<and> kmalloc_ready s1 \<and> phys_alloc s1 = phys_alloc stack_vm"
proof -
  obtain s1 where s1: "vm_alloc_at (table_alloc 0) 3 1 0x100000 0x100000 VM_FIXED (vm_new 3 0 fork_vm) = Ret (0x100000, Some (mk_range 0x200 3 0x100000 0x100000 1 VM_FIXED), s1)"
      "ctxs s1 1 = demo_kernel" "ctxs s1 2 = ctxs fork_vm 2" "VM_KERNEL s1 = 1" "range_addrs s1 = []" "kmalloc_ready s1" "phys_alloc s1 = phys_alloc stack_vm"
    using fork_alloc by blast
  obtain sf1 sf2 where sf: "sysfs_add_file 0x300 ''task1'' (no_callbacks\<lparr>cb_read := 0x500\<rparr>) fork_sysfs = Some sf1" "upd_sf 0x300 (\<lambda>f. f\<lparr>sf_meta := 0x400\<rparr>) sf1 = Some sf2"
    using fork_sysfs_add by blast
  have name: "snprintf 10 (''task'' @ decimal 1) = ''task1''" by code_simp
  have n: "RDIV 0x1000 PAGE_SIZE = 1" by (simp add: RDIV_def PAGE_SIZE_def)
  show ?thesis using s1 sf name by (simp add: alloc_task_def fork_birth_def n Let_def)
qed


end
