(* ===== verification/Spec2Isabelle.thy ===== *)
theory Spec2Isabelle
  imports Page_Alloc Vm_Map Kmalloc_Spec Cmdline Buffer Vfs_Props Sched_Props Pipe Time Sysfs_Props Ext2_Props Tty Syscall Task_Props
begin

text \<open>
  Xelix is a kernel for i386 (\<^verbatim>\<open>src/src\<close>; the userland under \<^verbatim>\<open>src/land\<close> is not part of this development). This library models the parts of it
  that carry its logic, function by function, and proves what they promise. Paths below are relative to \<^verbatim>\<open>src/src\<close>.

  \<^bold>\<open>How the parts work together.\<close> At the bottom a bitmap of physical pages is handed out by the page allocator under a spinlock. Virtual memory builds on it: each address
  space is a context with a bitmap of used pages, a list of ranges and page tables; mapping makes memory of one context visible in another. The heap (\<^verbatim>\<open>kmalloc\<close>) manages its own
  area. Tasks own a context each. The scheduler walks a ring of tasks; signals, waiting, fork, execve and the end of a task change the tasks in it. System calls enter
  through one interrupt handler, which maps the caller's pointers into the kernel and calls a function of a table. Most of these functions belong to the virtual file system, which resolves a path to a
  mount point and calls the callbacks of the file system there: ext2 on a block device, \<^verbatim>\<open>sysfs\<close> for kernel files and devices, pipes and terminals on byte buffers. The keyboard feeds a terminal,
  the console draws it.

  \<^bold>\<open>Conventions.\<close> C integers keep their width (\<open>u8\<close> to \<open>u64\<close> are words, arithmetic wraps). Structures are records, function pointers are addresses or parameters, linked structures
  that the code changes in place live in an explicit store (ring of the scheduler, tables of \<^verbatim>\<open>sysfs\<close>, blocks of the heap). A call that can go wrong returns an \<open>outcome\<close>: \<open>Ret\<close>, \<open>Spin\<close> (it does not return, for example on a lock that
  stays taken), \<open>Panic\<close>, or \<open>Fault\<close> (an access the hardware refuses or that is outside of an object). Loops that may not end are partial functions into \<open>option\<close>, and \<open>None\<close> is not returning; theorems
  state that a result is reached, not only what it would be. A kernel error is the \<open>Inl\<close> of a sum or the field \<^verbatim>\<open>sc_errno\<close>. Time, other tasks and interrupts appear where the code reads what they change: as a function of the round of a
  waiting loop, or as the sequence of calls in a step relation. There is no fuel in a model of a C loop; the number in \<open>table_alloc\<close> bounds the nesting of page table allocations (a table is needed to map a table), where running out counts as not returning (\<open>Spin\<close>); the theorems hold for every value of it, and the witnesses reach their results with 0.

  \<^bold>\<open>Theories, sources, and what is shown.\<close>

    \<^item> \<open>Prelude\<close>, \<open>Bytes\<close>: types, error numbers, outcomes, macros of \<^verbatim>\<open>lib/generic.h\<close>, lemmas on words, little-endian fields.
    \<^item> \<open>Bitmap\<close> (\<^verbatim>\<open>lib/bitmap.c\<close>): the search is first fit, setting and clearing a run changes exactly its bits, and what \<^verbatim>\<open>bitmap_clear_all\<close> leaves.
    \<^item> \<open>Spinlock\<close> (\<^verbatim>\<open>lib/spinlock.h\<close>): the lock is taken when it becomes free in time, and gives up otherwise.
    \<^item> \<open>Page_Alloc\<close> (\<^verbatim>\<open>mem/page_alloc.c\<close>, \<^verbatim>\<open>mem/mem.c\<close>): the locale \<open>page_pool\<close>, interpreted on the allocator: pages given out are disjoint.
    \<^item> \<open>Vm\<close>, \<open>Vm_Props\<close>, \<open>Vm_Map\<close> (\<^verbatim>\<open>mem/vm.c\<close>, \<^verbatim>\<open>mem/i386-paging.c\<close>): the invariant \<open>vm_inv\<close> (ranges are disjoint, aligned, marked as used) over all operations, and that a mapping shows the memory of its source.
    \<^item> \<open>Kmalloc\<close>, \<open>Kmalloc_Inv\<close>, \<open>Kmalloc_Spec\<close> (\<^verbatim>\<open>mem/kmalloc.c\<close>): the heap is tiled by blocks with headers, footers and free-list links; contracts of \<^verbatim>\<open>kmalloc\<close> and \<^verbatim>\<open>kfree\<close>, the locale \<open>block_store\<close> and safety of every sequence of calls.
    \<^item> \<open>CString\<close>, \<open>Cmdline\<close>, \<open>Buffer\<close>, \<open>Time\<close> (\<^verbatim>\<open>lib/string.c\<close>, \<^verbatim>\<open>strcasecmp.c\<close>, \<^verbatim>\<open>libgen.h\<close>, \<^verbatim>\<open>cmdline.c\<close>, \<^verbatim>\<open>buffer.c\<close>, \<^verbatim>\<open>time.c\<close>): C strings against lists, options round trip, the locale \<open>byte_queue\<close> (the buffer is a queue), the clock against the calendar.
    \<^item> \<open>Path\<close>, \<open>Block\<close>, \<open>Mount\<close>, \<open>Vfs_Types\<close>, \<open>Vfs\<close>, \<open>Vfs_Props\<close>, \<open>Pipe\<close> (\<^verbatim>\<open>fs/vfs.c\<close>, \<^verbatim>\<open>fs/mount.c\<close>, \<^verbatim>\<open>fs/pipe.c\<close>, \<^verbatim>\<open>fs/poll.c\<close>, \<^verbatim>\<open>block/block.c\<close>, \<^verbatim>\<open>block/part.c\<close>): normalisation resolves a path, byte access over sectors, the longest mount point, lookups
      of open files end under all sequences of calls but one that is shown, pipes transfer bytes in order.
    \<^item> \<open>Sysfs\<close>, \<open>Sysfs_Props\<close> (\<^verbatim>\<open>fs/sysfs.c\<close>): the locale \<open>name_tables\<close>, interpreted on the linked tables; directory listings.
    \<^item> \<open>Ext2_Inode\<close>, \<open>Ext2_Dirent\<close>, \<open>Ext2\<close>, \<open>Ext2_Data\<close>, \<open>Ext2_Write\<close>, \<open>Ext2_Dirs\<close>, \<open>Ext2_Props\<close> (\<^verbatim>\<open>fs/ext2*.c\<close>): an inode is an array of bytes through up to three levels of tables, writing and reading it, claiming free blocks, and
      directories as lists of entries that adding, removing and lookup refine.
    \<^item> \<open>Signal\<close>, \<open>Sched\<close>, \<open>Sched_Props\<close> (\<^verbatim>\<open>tasks/signal.c\<close>, \<^verbatim>\<open>scheduler.c\<close>, \<^verbatim>\<open>wait.c\<close>, parts of \<^verbatim>\<open>task.c\<close>): delivery of signals, the ring, round robin, the handshake of \<^verbatim>\<open>waitpid\<close>.
    \<^item> \<open>Task_Mem\<close>, \<open>Task_Mem_Props\<close>, \<open>Execdata\<close>, \<open>Task\<close>, \<open>Task_Props\<close> (\<^verbatim>\<open>tasks/mem.c\<close>, \<^verbatim>\<open>execdata.c\<close>, \<^verbatim>\<open>task.c\<close>): growth of the stack, \<^verbatim>\<open>sbrk\<close>, \<^verbatim>\<open>mmap\<close>, the arguments of a program round trip through its pages, creation, fork, execve and removal of tasks,
      and that a fork keeps \<open>vm_inv\<close>.
    \<^item> \<open>Syscall\<close> (\<^verbatim>\<open>tasks/syscall.c\<close>, \<^verbatim>\<open>syscalls.h\<close>): the table, the translation of arguments, what pointers show and where sizes wrap.
    \<^item> \<open>Term\<close>, \<open>Term_Props\<close>, \<open>Keyboard\<close>, \<open>Console\<close>, \<open>Tty\<close> (\<^verbatim>\<open>tty/term.c\<close>, \<^verbatim>\<open>pty.c\<close>, \<^verbatim>\<open>keyboard.c\<close>, \<^verbatim>\<open>keymap.h\<close>, \<^verbatim>\<open>console.c\<close>): the line discipline against a specification on bytes, settings, the key map, drawing, and the start of the terminals.

  Properties are the theorems whose text carries a number; most have a \<open>_witness\<close> next to them that applies them to a concrete state. Lemmas ending in \<open>_example\<close> do the same for other results.
  Several theorems show where the code does not do what it should (a lookup that never ends after \<^verbatim>\<open>dup2\<close> of a file onto itself, the erase character that removes the first character of a line, a size that wraps in \<^verbatim>\<open>poll\<close>).

  \<^bold>\<open>What is not modelled.\<close> Device drivers (disk, virtio, network cards, sound, frame buffer, mouse, serial port, timer, PCI), whose behaviour is that of hardware; the socket layer, which is glue around picotcp; the terminal emulation
  \<^verbatim>\<open>tty/tmt.c\<close>, MD5 and \<^verbatim>\<open>kavl.h\<close>, which are third-party code; assembly, boot and descriptor tables; log output and files in \<^verbatim>\<open>/sys\<close> that format text; \<^verbatim>\<open>tasks/exception.c\<close> and \<^verbatim>\<open>tasks/worker.c\<close>, which connect modelled functions to registers. Where
  the models meet such code it is a parameter: the callbacks of drivers, what a device returns, whether memory can be had from \<^verbatim>\<open>kmalloc\<close>. Failures of \<^verbatim>\<open>kmalloc\<close> are left out where the code does not check them.
\<close>

end
